(* ===== verification/Kern_Prelude.thy ===== *)
theory Kern_Prelude
  imports Main "HOL-Library.Word"
begin

section \<open>Prelude: machine words, checked arithmetic, bit flags and lists\<close>

text \<open>
  What every component of the development shares: names for the integer types of the
  Rust sources, the standard-library operations on them that the kernel uses
  (\<^verbatim>\<open>checked_add\<close>, \<^verbatim>\<open>checked_sub\<close>, \<^verbatim>\<open>checked_mul\<close>; the \<^verbatim>\<open>wrapping_*\<close> family is word
  arithmetic itself), the two operations of the \<^verbatim>\<open>bitflags\<close> types, and lemmas that move
  between words and natural numbers. Every supported target is a 32-bit Cortex-M, so
  \<^verbatim>\<open>usize\<close> is a 32-bit word; an index into the task table, which the sources also
  keep in a \<^verbatim>\<open>usize\<close>, is a natural number.
\<close>

unbundle bit_operations_syntax

type_synonym u8 = "8 word"
type_synonym u16 = "16 word"
type_synonym u32 = "32 word"
type_synonym u64 = "64 word"
type_synonym usize = "32 word"

named_theorems word_nat \<open>facts that turn word comparisons and sums into natural numbers\<close>

subsection \<open>Checked arithmetic\<close>

definition checked_add :: "'a::len word \<Rightarrow> 'a word \<Rightarrow> 'a word option" where
  "checked_add a b = (if unat a + unat b < 2 ^ LENGTH('a) then Some (a + b) else None)"

definition checked_sub :: "'a::len word \<Rightarrow> 'a word \<Rightarrow> 'a word option" where
  "checked_sub a b = (if b \<le> a then Some (a - b) else None)"

definition checked_mul :: "'a::len word \<Rightarrow> 'a word \<Rightarrow> 'a word option" where
  "checked_mul a b = (if unat a * unat b < 2 ^ LENGTH('a) then Some (a * b) else None)"

lemma unat_add_nowrap [word_nat]:
  fixes a b :: "'a::len word"
  assumes "unat a + unat b < 2 ^ LENGTH('a)"
  shows "unat (a + b) = unat a + unat b"
  using assms by (simp add: unat_word_ariths)

lemma unat_mult_nowrap [word_nat]:
  fixes a b :: "'a::len word"
  assumes "unat a * unat b < 2 ^ LENGTH('a)"
  shows "unat (a * b) = unat a * unat b"
  using assms by (simp add: unat_word_ariths)

lemma unat_sub_le [word_nat]:
  fixes a b :: "'a::len word"
  assumes "b \<le> a"
  shows "unat (a - b) = unat a - unat b"
  using assms by (metis unat_sub)

text \<open>Code equations over the binary integers, so that concrete instances evaluate quickly.\<close>

lemma checked_add_code [code]:
  "checked_add (a :: 'a::len word) b = (if uint a + uint b < 2 ^ LENGTH('a) then Some (a + b) else None)"
proof -
  have "unat a + unat b < 2 ^ LENGTH('a) \<longleftrightarrow> int (unat a + unat b) < int (2 ^ LENGTH('a))" by (simp only: of_nat_less_iff)
  then show ?thesis by (simp add: checked_add_def)
qed

lemma checked_mul_code [code]:
  "checked_mul (a :: 'a::len word) b = (if uint a * uint b < 2 ^ LENGTH('a) then Some (a * b) else None)"
proof -
  have "unat a * unat b < 2 ^ LENGTH('a) \<longleftrightarrow> int (unat a * unat b) < int (2 ^ LENGTH('a))" by (simp only: of_nat_less_iff)
  then show ?thesis by (simp add: checked_mul_def)
qed

lemma checked_add_SomeD:
  "checked_add a b = Some c \<Longrightarrow> c = a + b \<and> unat c = unat a + unat b"
  by (auto simp: checked_add_def unat_add_nowrap split: if_splits)

lemma checked_sub_SomeD:
  "checked_sub a b = Some c \<Longrightarrow> c = a - b \<and> unat c = unat a - unat b \<and> b \<le> a"
  by (auto simp: checked_sub_def unat_sub_le split: if_splits)

lemma checked_mul_SomeD:
  "checked_mul a b = Some c \<Longrightarrow> c = a * b \<and> unat c = unat a * unat b"
  by (auto simp: checked_mul_def unat_mult_nowrap split: if_splits)

lemma unat_lt_u32 [simp]: "unat (a :: u32) < 4294967296"
  using unsigned_less [of a] by simp

lemma unat_lt_u16 [simp]: "unat (a :: u16) < 65536"
  using unsigned_less [of a] by simp

lemma unat_lt_u8 [simp]: "unat (a :: u8) < 256"
  using unsigned_less [of a] by simp

lemma unat_max_u32 [simp]: "unat (- 1 :: u32) = 4294967295"
  by (simp add: unsigned_minus_1_eq_mask mask_eq_exp_minus_1)

lemma unat_max_minus_u32: "unat (- 1 - x :: u32) = 4294967295 - unat x"
  by (subst unat_sub_le) simp_all

lemma word_le_pred_iff:
  fixes x e :: "'a::len word"
  assumes "0 < e"
  shows "x \<le> e - 1 \<longleftrightarrow> x < e"
proof -
  have "unat (e - 1) = unat e - 1"
    using assms by (intro unat_minus_one) (simp add: word_gt_0)
  moreover have "0 < unat e" using assms by (simp add: unat_gt_0)
  ultimately show ?thesis by (simp add: word_le_nat_alt word_less_nat_alt) linarith
qed

text \<open>The offset of an address from the base of a range that contains it.\<close>

lemma word_offset_in_range:
  fixes a b :: u32
  assumes "unat (a - b) < n" and "unat b + n \<le> 2 ^ 32"
  shows "b \<le> a \<and> unat a < unat b + n"
proof -
  have "unat (b + (a - b)) = unat b + unat (a - b)"
    using assms by (intro unat_add_nowrap) simp
  then have "unat a = unat b + unat (a - b)" by simp
  with assms(1) show ?thesis by (simp add: word_le_nat_alt)
qed

lemma word_range_offset:
  fixes a b :: u32
  assumes "b \<le> a" and "unat a < unat b + n"
  shows "unat (a - b) < n"
  using assms by (simp add: unat_sub_le word_le_nat_alt less_diff_conv2)

subsection \<open>Bit flags\<close>

text \<open>\<^verbatim>\<open>contains\<close> and \<^verbatim>\<open>intersects\<close> of a \<^verbatim>\<open>bitflags\<close> type.\<close>

definition flags_contains :: "'a::len word \<Rightarrow> 'a word \<Rightarrow> bool" where
  "flags_contains self other \<longleftrightarrow> self AND other = other"

definition flags_intersects :: "'a::len word \<Rightarrow> 'a word \<Rightarrow> bool" where
  "flags_intersects self other \<longleftrightarrow> self AND other \<noteq> 0"

lemma flags_intersects_or:
  "flags_intersects a (b OR c) \<longleftrightarrow> flags_intersects a b \<or> flags_intersects a c"
  by (simp add: flags_intersects_def bit.conj_disj_distrib or_eq_0_iff)

lemma flags_intersects_empty [simp]: "\<not> flags_intersects a 0"
  by (simp add: flags_intersects_def)

subsection \<open>Lists\<close>

lemma nth_update_if:
  "i < length xs \<Longrightarrow> (xs[i := x]) ! j = (if i = j then x else xs ! j)"
  by (auto simp: nth_list_update)

lemma filter_length_update_less:
  assumes "i < length xs" and "P (xs ! i)" and "\<not> P x"
  shows "length (filter P (xs[i := x])) < length (filter P xs)"
  using assms
proof (induction xs arbitrary: i)
  case (Cons y ys)
  then show ?case by (cases i) (auto simp: le_SucI)
qed simp

end
