(* ===== verification/Kern_Abi.thy ===== *)
theory Kern_Abi
  imports Kern_Prelude
begin

section \<open>The kernel ABI\<close>

text \<open>
  The types shared by the kernel and the tasks (\<^verbatim>\<open>sys/abi\<close>): task identifiers and
  generations, scheduling and fault states, leases, dead codes, and the decoding of syscall,
  kernel-IPC and reply-fault numbers. A newtype is a datatype with one constructor, an enum
  a datatype with the source's variants.
\<close>

subsection \<open>Task identifiers and generations\<close>

datatype Generation = Generation (gen_bits: u8)

datatype TaskId = TaskId (tid_bits: u16)

definition INDEX_BITS :: nat where "INDEX_BITS = 10"

definition INDEX_MASK :: u16 where "INDEX_MASK = push_bit INDEX_BITS 1 - 1"

definition KERNEL :: TaskId where "KERNEL = TaskId (NOT 0)"

definition UNBOUND :: TaskId where "UNBOUND = TaskId (INDEX_MASK - 1)"

definition for_index_and_gen :: "nat \<Rightarrow> Generation \<Rightarrow> TaskId" where
  "for_index_and_gen index gen =
     TaskId ((word_of_nat index AND INDEX_MASK) OR push_bit INDEX_BITS (ucast (gen_bits gen)))"

definition tid_index :: "TaskId \<Rightarrow> nat" where
  "tid_index i = unat (tid_bits i AND INDEX_MASK)"

definition tid_generation :: "TaskId \<Rightarrow> Generation" where
  "tid_generation i = Generation (ucast (drop_bit INDEX_BITS (tid_bits i)))"

definition gen_next :: "Generation \<Rightarrow> Generation" where
  "gen_next g = Generation ((gen_bits g + 1) AND ucast (drop_bit INDEX_BITS (push_bit INDEX_BITS (0xFFFF :: u16))))"

definition next_generation :: "TaskId \<Rightarrow> TaskId" where
  "next_generation i = for_index_and_gen (tid_index i) (gen_next (tid_generation i))"

subsection \<open>Interrupt owners\<close>

record InterruptOwner =
  io_task :: u32
  io_notification :: u32

subsection \<open>Leases\<close>

record ULease =
  attributes :: u32
  base_address :: u32
  length_bytes :: u32

definition LEASE_READ :: u32 where "LEASE_READ = 1"

definition LEASE_WRITE :: u32 where "LEASE_WRITE = 2"

subsection \<open>Dead codes\<close>

definition FIRST_DEAD_CODE :: u32 where "FIRST_DEAD_CODE = 0xffffff00"

definition dead_response_code :: "Generation \<Rightarrow> u32" where
  "dead_response_code new_generation = FIRST_DEAD_CODE OR ucast (gen_bits new_generation)"

definition extract_new_generation :: "u32 \<Rightarrow> Generation option" where
  "extract_new_generation code =
     (if code AND FIRST_DEAD_CODE = FIRST_DEAD_CODE then Some (Generation (ucast code)) else None)"

definition DEFECT :: u32 where "DEFECT = 1"

subsection \<open>Faults\<close>

datatype UsageError =
    BadSyscallNumber
  | InvalidSlice
  | TaskOutOfRange
  | IllegalTask
  | LeaseOutOfRange
  | OffsetOutOfRange
  | NoIrq
  | BadKernelMessage
  | BadReplyFaultReason
  | NotSupervisor

datatype FaultSource = User | Kernel

datatype ReplyFaultReason =
    UndefinedOperation
  | BadMessageSize
  | BadMessageContents
  | BadLeases
  | ReplyBufferTooSmall
  | AccessViolation

datatype FaultInfo =
    MemoryAccess "u32 option" FaultSource
  | StackOverflow u32
  | BusError "u32 option" FaultSource
  | DivideByZero
  | IllegalText
  | IllegalInstruction
  | InvalidOperation u32
  | SyscallUsage UsageError
  | Panic
  | Injected TaskId
  | FromServer TaskId ReplyFaultReason

definition reply_fault_reason_try_from :: "u32 \<Rightarrow> ReplyFaultReason option" where
  "reply_fault_reason_try_from x =
     (if x = 0 then Some UndefinedOperation
      else if x = 1 then Some BadMessageSize
      else if x = 2 then Some BadMessageContents
      else if x = 3 then Some BadLeases
      else if x = 4 then Some ReplyBufferTooSmall
      else if x = 5 then Some AccessViolation
      else None)"

subsection \<open>Scheduling states\<close>

datatype SchedState =
    Stopped
  | Runnable
  | InSend TaskId
  | InReply TaskId
  | InRecv "TaskId option"

datatype TaskState =
    Healthy SchedState
  | Faulted FaultInfo SchedState

definition can_accept_message_from :: "TaskState \<Rightarrow> TaskId \<Rightarrow> bool" where
  "can_accept_message_from st caller =
     (case st of Healthy (InRecv peer) \<Rightarrow> peer = None \<or> peer = Some caller | _ \<Rightarrow> False)"

definition is_sending_to :: "TaskState \<Rightarrow> TaskId \<Rightarrow> bool" where
  "is_sending_to st target \<longleftrightarrow> st = Healthy (InSend target)"

definition can_accept_notification :: "TaskState \<Rightarrow> bool" where
  "can_accept_notification st = (case st of Healthy (InRecv _) \<Rightarrow> True | _ \<Rightarrow> False)"

definition task_state_default :: TaskState where
  "task_state_default = Healthy Stopped"

subsection \<open>Syscall and kernel-IPC numbers\<close>

datatype Sysnum =
    Send | Recv | Reply | SetTimer | BorrowRead | BorrowWrite | BorrowInfo
  | IrqControl | PanicCall | GetTimer | RefreshTaskId | Post | ReplyFault | IrqStatusCall

definition sysnum_try_from :: "u32 \<Rightarrow> Sysnum option" where
  "sysnum_try_from x =
     (if x = 0 then Some Send
      else if x = 1 then Some Recv
      else if x = 2 then Some Reply
      else if x = 3 then Some SetTimer
      else if x = 4 then Some BorrowRead
      else if x = 5 then Some BorrowWrite
      else if x = 6 then Some BorrowInfo
      else if x = 7 then Some IrqControl
      else if x = 8 then Some PanicCall
      else if x = 9 then Some GetTimer
      else if x = 10 then Some RefreshTaskId
      else if x = 11 then Some Post
      else if x = 12 then Some ReplyFault
      else if x = 13 then Some IrqStatusCall
      else None)"

datatype Kipcnum =
    ReadTaskStatus | RestartTask | FaultTask | ReadImageId | Reset
  | GetTaskDumpRegion | ReadTaskDumpRegion | SoftwareIrq

definition kipcnum_try_from :: "u16 \<Rightarrow> Kipcnum option" where
  "kipcnum_try_from x =
     (if x = 1 then Some ReadTaskStatus
      else if x = 2 then Some RestartTask
      else if x = 3 then Some FaultTask
      else if x = 4 then Some ReadImageId
      else if x = 5 then Some Reset
      else if x = 6 then Some GetTaskDumpRegion
      else if x = 7 then Some ReadTaskDumpRegion
      else if x = 8 then Some SoftwareIrq
      else None)"

record TaskDumpRegion =
  dump_base :: u32
  dump_size :: u32

definition IRQ_ENABLED :: u32 where "IRQ_ENABLED = 1"

definition IRQ_PENDING :: u32 where "IRQ_PENDING = 2"

definition IRQ_POSTED :: u32 where "IRQ_POSTED = 4"

subsection \<open>Laws of task identifiers\<close>

text \<open>A generation that fits the six bits a task identifier has for it.\<close>

definition gen_ok :: "Generation \<Rightarrow> bool" where
  "gen_ok g \<longleftrightarrow> unat (gen_bits g) < 64"

lemmas abi_masks = INDEX_BITS_def INDEX_MASK_def

lemma index_mask_eq: "INDEX_MASK = mask 10"
  by (simp add: abi_masks mask_eq_exp_minus_1)

lemma tid_index_mod: "tid_index i = unat (tid_bits i) mod 1024"
  by (simp add: tid_index_def index_mask_eq unsigned_take_bit_eq take_bit_eq_mod
      unat_mod flip: take_bit_eq_mask)

lemma tid_index_less: "tid_index i < 1024"
  by (simp add: tid_index_mod)

lemma tid_generation_div: "unat (gen_bits (tid_generation i)) = unat (tid_bits i) div 1024"
proof -
  have "unat (tid_bits i) div 1024 < 256"
    by (rule less_mult_imp_div_less) (simp add: less_trans [OF unat_lt_u16])
  then show ?thesis
    by (simp add: tid_generation_def abi_masks unat_drop_bit_eq unsigned_ucast_eq drop_bit_eq_div
        take_bit_eq_mod unat_div)
qed

lemma gen_ok_tid_generation: "gen_ok (tid_generation i)"
  unfolding gen_ok_def tid_generation_div by (rule less_mult_imp_div_less) simp

lemma for_index_and_gen_index:
  assumes "i < 1024"
  shows "tid_index (for_index_and_gen i g) = i"
proof -
  have "tid_bits (for_index_and_gen i g) AND mask 10 = word_of_nat i AND mask 10"
    by (rule bit_word_eqI) (auto simp: for_index_and_gen_def INDEX_BITS_def index_mask_eq bit_simps)
  then show ?thesis
    using assms by (simp add: tid_index_def index_mask_eq unsigned_take_bit_eq take_bit_eq_mod
        unat_of_nat unat_mod flip: take_bit_eq_mask)
qed

lemma for_index_and_gen_generation:
  assumes "gen_ok g"
  shows "tid_generation (for_index_and_gen i g) = g"
proof -
  have "gen_bits g = take_bit 6 (gen_bits g)"
    using assms by (simp add: gen_ok_def word_unat_eq_iff unsigned_take_bit_eq take_bit_nat_eq_self)
  then have "bit (gen_bits g) n \<Longrightarrow> n < 6" for n
    by (metis bit_take_bit_iff)
  then have "gen_bits (tid_generation (for_index_and_gen i g)) = gen_bits g"
    by (intro bit_word_eqI)
      (auto simp: tid_generation_def for_index_and_gen_def INDEX_BITS_def index_mask_eq bit_simps not_le)
  then show ?thesis by (simp add: Generation.expand)
qed

lemma for_index_and_gen_tid:
  "for_index_and_gen (tid_index i) (tid_generation i) = i"
proof -
  have "tid_bits (for_index_and_gen (tid_index i) (tid_generation i)) = tid_bits i"
    by (rule bit_word_eqI)
      (auto simp: for_index_and_gen_def tid_index_def tid_generation_def INDEX_BITS_def
        index_mask_eq bit_simps)
  then show ?thesis by (simp add: TaskId.expand)
qed

lemma KERNEL_index: "tid_index KERNEL = 1023"
  by (simp add: tid_index_def KERNEL_def abi_masks)

lemma for_index_and_gen_eq_iff:
  assumes "i < 1024" "j < 1024" "gen_ok g" "gen_ok h"
  shows "for_index_and_gen i g = for_index_and_gen j h \<longleftrightarrow> i = j \<and> g = h"
  using assms by (metis for_index_and_gen_index for_index_and_gen_generation)

lemma for_index_and_gen_neq_KERNEL: "i < 1023 \<Longrightarrow> for_index_and_gen i g \<noteq> KERNEL"
  using for_index_and_gen_index [of i g] KERNEL_index by auto

subsection \<open>Laws of generations and dead codes\<close>

lemma gen_next_mod: "unat (gen_bits (gen_next g)) = (unat (gen_bits g) + 1) mod 64"
proof -
  have "ucast (drop_bit INDEX_BITS (push_bit INDEX_BITS (0xFFFF :: u16))) = (mask 6 :: u8)"
    by (simp add: INDEX_BITS_def mask_eq_exp_minus_1)
  then show ?thesis
    by (simp add: gen_next_def unsigned_take_bit_eq take_bit_eq_mod unat_word_ariths mod_mod_cancel
        flip: take_bit_eq_mask)
qed

lemma gen_next_neq: "gen_ok g \<Longrightarrow> gen_next g \<noteq> g"
  using gen_next_mod [of g] by (auto simp: gen_ok_def mod_Suc split: if_splits)

lemma extract_dead_response_code: "extract_new_generation (dead_response_code g) = Some g"
proof -
  have m: "FIRST_DEAD_CODE = NOT (mask 8)"
    by (simp add: FIRST_DEAD_CODE_def mask_eq_exp_minus_1)
  have "(FIRST_DEAD_CODE OR ucast (gen_bits g)) AND FIRST_DEAD_CODE = FIRST_DEAD_CODE"
    by (rule bit_word_eqI) (auto simp: bit_simps)
  moreover have "ucast (FIRST_DEAD_CODE OR ucast (gen_bits g) :: u32) = gen_bits g"
    by (rule bit_word_eqI) (auto simp: m bit_simps)
  ultimately show ?thesis
    by (simp add: extract_new_generation_def dead_response_code_def Generation.expand)
qed

end
