(* ===== verification/Kern_Core.thy ===== *)
theory Kern_Core
  imports Kern_Prelude
begin

section \<open>kerncore: the generic access check\<close>

text \<open>
  The crate \<^verbatim>\<open>sys/kerncore\<close> holds one algorithm, \<^verbatim>\<open>can_access\<close>, generic over two
  traits: \<^verbatim>\<open>UserSlice\<close> (an address range alleged by a task) and \<^verbatim>\<open>MemoryRegion\<close> (a
  range a task may touch). The traits are the locales \<open>user_slice\<close> and
  \<open>memory_region\<close>, whose assumptions are the invariants the trait documentation
  demands; the trait methods are arguments of the model of the algorithm. The kernel's
  own types are shown to satisfy the traits where they are defined (\<open>Kern_Descs\<close>,
  \<open>Kern_Umem\<close>).
\<close>

text \<open>
  The loop of \<^verbatim>\<open>can_access\<close>: \<open>scan_addr\<close> advances through the table; leaving the loop by
  \<^verbatim>\<open>break\<close> or by exhausting the table is \<open>False\<close>.
\<close>

fun can_access_scan ::
  "('r \<Rightarrow> 'a::linorder \<Rightarrow> bool) \<Rightarrow> ('r \<Rightarrow> 'a) \<Rightarrow> ('r \<Rightarrow> 'a) \<Rightarrow> ('r \<Rightarrow> bool) \<Rightarrow> 'a \<Rightarrow> 'a \<Rightarrow> 'r list \<Rightarrow> bool" where
  "can_access_scan contains rbase rend region_ok end_addr scan_addr [] = False"
| "can_access_scan contains rbase rend region_ok end_addr scan_addr (region # table) =
     (if contains region scan_addr then
        if \<not> region_ok region then False
        else if end_addr \<le> rend region then True
        else can_access_scan contains rbase rend region_ok end_addr (rend region) table
      else if scan_addr < rbase region then False
      else can_access_scan contains rbase rend region_ok end_addr scan_addr table)"

definition can_access ::
  "('s \<Rightarrow> bool) \<Rightarrow> ('s \<Rightarrow> 'a) \<Rightarrow> ('s \<Rightarrow> 'a) \<Rightarrow> ('r \<Rightarrow> 'a::linorder \<Rightarrow> bool) \<Rightarrow> ('r \<Rightarrow> 'a) \<Rightarrow> ('r \<Rightarrow> 'a)
     \<Rightarrow> 's \<Rightarrow> 'r list \<Rightarrow> ('r \<Rightarrow> bool) \<Rightarrow> bool" where
  "can_access is_empty sbase send contains rbase rend sl table region_ok =
     (if is_empty sl then True
      else can_access_scan contains rbase rend region_ok (send sl) (sbase sl) table)"

subsection \<open>The two traits\<close>

locale user_slice =
  fixes is_empty :: "'s \<Rightarrow> bool"
    and sbase :: "'s \<Rightarrow> 'a::linorder"
    and send :: "'s \<Rightarrow> 'a"
    and slice_ok :: "'s \<Rightarrow> bool"
  assumes empty_iff: "slice_ok s \<Longrightarrow> is_empty s \<longleftrightarrow> sbase s = send s"
    and base_le_end: "slice_ok s \<Longrightarrow> sbase s \<le> send s"
begin

lemma nonempty_less: "slice_ok s \<Longrightarrow> \<not> is_empty s \<Longrightarrow> sbase s < send s"
  using empty_iff [of s] base_le_end [of s] by (simp add: order_le_less)

end

locale memory_region =
  fixes contains :: "'r \<Rightarrow> 'a::linorder \<Rightarrow> bool"
    and rbase :: "'r \<Rightarrow> 'a"
    and rend :: "'r \<Rightarrow> 'a"
    and region_wf :: "'r \<Rightarrow> bool"
  assumes contains_iff: "region_wf r \<Longrightarrow> contains r x \<longleftrightarrow> rbase r \<le> x \<and> x < rend r"
    and region_base_le_end: "region_wf r \<Longrightarrow> rbase r \<le> rend r"
begin

text \<open>An accepted range is covered by permitted regions; no ordering of the table is needed.\<close>

lemma scan_sound:
  assumes "can_access_scan contains rbase rend ok e p table"
    and "list_all region_wf table" and "p \<le> x" and "x < e"
  shows "\<exists>r \<in> set table. ok r \<and> contains r x"
  using assms
proof (induction table arbitrary: p)
  case (Cons r table)
  show ?case
  proof (cases "contains r p \<and> x < rend r")
    case True
    with Cons.prems have "contains r x" "ok r"
      by (auto simp: contains_iff split: if_splits)
    then show ?thesis by auto
  next
    case False
    with Cons.prems obtain q where "q \<le> x" "can_access_scan contains rbase rend ok e q table"
      by (auto simp: not_less split: if_splits)
    with Cons.IH [of q] Cons.prems show ?thesis by auto
  qed
qed simp

text \<open>
  A covered range is accepted when the table is sorted and its regions do not overlap,
  the precondition \<^verbatim>\<open>can_access\<close> documents. A region may occur more than once, as the
  placeholder for unused slots does.
\<close>

lemma scan_complete:
  assumes "\<And>x. p \<le> x \<Longrightarrow> x < e \<Longrightarrow> \<exists>r \<in> set table. ok r \<and> contains r x"
    and "list_all region_wf table"
    and "sorted_wrt (\<lambda>r r'. r = r' \<or> rend r \<le> rbase r') table" and "p < e"
  shows "can_access_scan contains rbase rend ok e p table"
  using assms
proof (induction table arbitrary: p)
  case Nil
  from Nil.prems(1) [of p] Nil.prems(4) show ?case by simp
next
  case (Cons r table)
  have above: "rend r \<le> x" if "r' \<in> set table" "r' \<noteq> r" "contains r' x" for r' x
    using that Cons.prems(2,3) by (force simp: contains_iff list_all_iff)
  have wf: "region_wf r" "list_all region_wf table" using Cons.prems(2) by auto
  have rest: "can_access_scan contains rbase rend ok e q table"
    if q: "p \<le> q" "rend r \<le> q" "q < e" for q
  proof (rule Cons.IH)
    fix x assume x: "q \<le> x" "x < e"
    with q have "p \<le> x" by simp
    with x Cons.prems(1) [of x] obtain r' where "r' \<in> set (r # table)" "ok r'" "contains r' x"
      by auto
    moreover from q x wf have "\<not> contains r x" by (auto simp: contains_iff)
    ultimately show "\<exists>r \<in> set table. ok r \<and> contains r x" by auto
  qed (use wf Cons.prems(3) q in auto)
  from Cons.prems(1) [of p] Cons.prems(4) obtain r0
    where r0: "r0 \<in> set (r # table)" "ok r0" "contains r0 p" by auto
  show ?case
  proof (cases "contains r p")
    case True
    then have "p < rend r" using wf by (simp add: contains_iff)
    with r0 above have "ok r" by (fastforce simp: not_le)
    with True rest [of "rend r"] \<open>p < rend r\<close> show ?thesis by (auto simp: not_le)
  next
    case False
    with r0 have "rend r \<le> p" using above by auto
    with False wf region_base_le_end [of r] rest [of p] Cons.prems(4)
    show ?thesis by (auto simp: not_less)
  qed
qed

end

subsection \<open>The access check over both traits\<close>

locale access_check = user_slice is_empty sbase send slice_ok +
  memory_region contains rbase rend region_wf
  for is_empty :: "'s \<Rightarrow> bool" and sbase :: "'s \<Rightarrow> 'a::linorder" and send slice_ok
    and contains :: "'r \<Rightarrow> 'a \<Rightarrow> bool" and rbase rend region_wf
begin

lemma access_sound:
  assumes "can_access is_empty sbase send contains rbase rend s table ok"
    and "list_all region_wf table" and "slice_ok s" and "sbase s \<le> x" and "x < send s"
  shows "\<exists>r \<in> set table. ok r \<and> contains r x"
  using assms empty_iff [of s] by (auto simp: can_access_def dest: scan_sound split: if_splits)

lemma access_iff:
  assumes "list_all region_wf table" and "slice_ok s"
    and "sorted_wrt (\<lambda>r r'. r = r' \<or> rend r \<le> rbase r') table"
  shows "can_access is_empty sbase send contains rbase rend s table ok \<longleftrightarrow>
    (\<forall>x. sbase s \<le> x \<and> x < send s \<longrightarrow> (\<exists>r \<in> set table. ok r \<and> contains r x))"
    (is "?lhs \<longleftrightarrow> ?rhs")
proof
  assume ?lhs then show ?rhs using access_sound assms by blast
next
  assume r: ?rhs
  show ?lhs
  proof (cases "is_empty s")
    case False
    then have "sbase s < send s" using assms(2) by (simp add: nonempty_less)
    with r assms have "can_access_scan contains rbase rend ok (send s) (sbase s) table"
      by (intro scan_complete) auto
    then show ?thesis by (simp add: can_access_def)
  qed (simp add: can_access_def)
qed

end

end
