(* ===== verification/Kern_Descs.thy ===== *)
theory Kern_Descs
  imports Kern_Abi Kern_Core
begin

section \<open>Descriptors: priorities, regions, tasks\<close>

text \<open>
  The static application description the build system places in ROM
  (\<^verbatim>\<open>sys/kern/src/descs.rs\<close>). A region satisfies the \<^verbatim>\<open>MemoryRegion\<close> contract of
  \<open>Kern_Core\<close> provided it does not reach the top of the address space, the invariant that
  \<^verbatim>\<open>end_addr\<close> relies on for its wrapping addition (\<open>region_wf\<close>).
\<close>

definition REGIONS_PER_TASK :: nat where "REGIONS_PER_TASK = 8"

datatype Priority = Priority (prio_bits: u8)

definition is_more_important_than :: "Priority \<Rightarrow> Priority \<Rightarrow> bool" where
  "is_more_important_than p q \<longleftrightarrow> prio_bits p < prio_bits q"

definition ATTR_READ :: u32 where "ATTR_READ = 1"

definition ATTR_WRITE :: u32 where "ATTR_WRITE = 2"

definition ATTR_EXECUTE :: u32 where "ATTR_EXECUTE = 4"

definition ATTR_DEVICE :: u32 where "ATTR_DEVICE = 8"

definition ATTR_DMA :: u32 where "ATTR_DMA = 16"

record RegionDesc =
  region_base :: u32
  region_size :: u32
  region_attributes :: u32

definition region_end_addr :: "RegionDesc \<Rightarrow> u32" where
  "region_end_addr r = region_base r + region_size r"

definition region_contains :: "RegionDesc \<Rightarrow> u32 \<Rightarrow> bool" where
  "region_contains r addr =
     (let next_addr = addr + 1 in
      if next_addr < addr then False
      else region_base r \<le> addr \<and> next_addr \<le> region_end_addr r)"

definition dumpable :: "RegionDesc \<Rightarrow> bool" where
  "dumpable r \<longleftrightarrow> flags_contains (region_attributes r) ATTR_WRITE
     \<and> \<not> flags_contains (region_attributes r) ATTR_DEVICE"

definition START_AT_BOOT :: u8 where "START_AT_BOOT = 1"

record TaskDesc =
  regions :: "RegionDesc list"
  entry_point :: u32
  initial_stack :: u32
  desc_priority :: u8
  desc_flags :: u8
  desc_index :: u16

text \<open>The invariant on regions: the region does not touch the end of the address space.\<close>

definition region_wf :: "RegionDesc \<Rightarrow> bool" where
  "region_wf r \<longleftrightarrow> unat (region_base r) + unat (region_size r) < 2 ^ 32"

lemma unat_region_end: "region_wf r \<Longrightarrow> unat (region_end_addr r) = unat (region_base r) + unat (region_size r)"
  by (simp add: region_end_addr_def region_wf_def unat_add_nowrap)

lemma region_contains_iff:
  assumes "region_wf r"
  shows "region_contains r x \<longleftrightarrow> region_base r \<le> x \<and> x < region_end_addr r"
proof (cases "x = - 1")
  case True
  have "\<not> x < region_end_addr r" "x + 1 < x"
    using True by (simp_all add: not_less word_gt_0)
  then show ?thesis by (simp add: region_contains_def)
next
  case False
  then have s: "unat (x + 1) = unat x + 1"
    by (metis Suc_eq_plus1 add.inverse_inverse eq_neg_iff_add_eq_0 unatSuc add.commute)
  then show ?thesis
    by (auto simp: region_contains_def Let_def word_less_nat_alt word_le_nat_alt)
qed

interpretation region: memory_region region_contains region_base region_end_addr region_wf
proof unfold_locales
  fix r :: RegionDesc and x
  assume "region_wf r"
  then show "region_contains r x \<longleftrightarrow> region_base r \<le> x \<and> x < region_end_addr r"
    by (rule region_contains_iff)
  from \<open>region_wf r\<close> show "region_base r \<le> region_end_addr r"
    by (simp add: word_le_nat_alt unat_region_end)
qed

end
