(* ===== verification/Kern_Umem.thy ===== *)
theory Kern_Umem
  imports Kern_Descs
begin

section \<open>User slices and user memory\<close>

text \<open>
  \<^verbatim>\<open>USlice<T>\<close> of \<^verbatim>\<open>sys/kern/src/umem.rs\<close>: a base address and an element count alleged by
  a task. The size and alignment of \<open>T\<close>, which Rust takes from the type, are arguments.
  Memory is one byte per 32-bit address. A slice made by \<^verbatim>\<open>from_raw\<close> satisfies
  \<open>slice_ok\<close>, under which the \<^verbatim>\<open>UserSlice\<close> contract of \<open>Kern_Core\<close> holds; the
  conversion from a lease does not check it.
\<close>

type_synonym memory = "u32 \<Rightarrow> u8"

record USlice =
  slice_base :: usize
  slice_len :: usize

definition from_raw :: "usize \<Rightarrow> usize \<Rightarrow> usize \<Rightarrow> usize \<Rightarrow> UsageError + USlice" where
  "from_raw align sz base len =
     (if base mod align \<noteq> 0 then Inl InvalidSlice
      else (case checked_mul len sz of
              None \<Rightarrow> Inl InvalidSlice
            | Some size_in_bytes \<Rightarrow>
                (let highest_possible_base = - 1 - size_in_bytes in
                 if base \<le> highest_possible_base
                 then Inr \<lparr>slice_base = base, slice_len = len\<rparr>
                 else Inl InvalidSlice)))"

definition slice_is_empty :: "USlice \<Rightarrow> bool" where
  "slice_is_empty s \<longleftrightarrow> slice_len s = 0"

definition end_addr :: "usize \<Rightarrow> USlice \<Rightarrow> usize" where
  "end_addr sz s = slice_base s + slice_len s * sz"

definition last_byte_addr :: "usize \<Rightarrow> USlice \<Rightarrow> usize option" where
  "last_byte_addr sz s =
     (let size_in_bytes = slice_len s * sz in
      if size_in_bytes = 0 then None else Some (slice_base s + size_in_bytes - 1))"

definition aliases :: "usize \<Rightarrow> USlice \<Rightarrow> USlice \<Rightarrow> bool" where
  "aliases sz s t =
     (case (last_byte_addr sz s, last_byte_addr sz t) of
        (Some self_end, Some other_end) \<Rightarrow> slice_base t \<le> self_end \<and> slice_base s \<le> other_end
      | _ \<Rightarrow> False)"

definition uslice_from_lease :: "ULease \<Rightarrow> USlice" where
  "uslice_from_lease l = \<lparr>slice_base = base_address l, slice_len = length_bytes l\<rparr>"

subsection \<open>Memory access\<close>

text \<open>The bytes of a range, and the effect of the copy that ends \<^verbatim>\<open>safe_copy\<close>.\<close>

definition mem_bytes :: "memory \<Rightarrow> u32 \<Rightarrow> nat \<Rightarrow> u8 list" where
  "mem_bytes m base n = map (\<lambda>i. m (base + word_of_nat i)) [0..<n]"

definition mem_write :: "memory \<Rightarrow> u32 \<Rightarrow> u8 list \<Rightarrow> memory" where
  "mem_write m base bs =
     (\<lambda>a. if unat (a - base) < length bs then bs ! unat (a - base) else m a)"

lemma mem_write_code [code]:
  "mem_write m base bs = (\<lambda>a. let k = uint (a - base) in if k < int (length bs) then bs ! nat k else m a)"
proof -
  have "unat w < n \<longleftrightarrow> uint w < int n" for w :: u32 and n
    by (metis of_nat_less_iff uint_nat)
  then show ?thesis by (auto simp: mem_write_def Let_def)
qed

definition mem_u32 :: "memory \<Rightarrow> u32 \<Rightarrow> u32" where
  "mem_u32 m a = ucast (m a) OR push_bit 8 (ucast (m (a + 1)))
     OR push_bit 16 (ucast (m (a + 2))) OR push_bit 24 (ucast (m (a + 3)))"

definition u32_bytes :: "u32 \<Rightarrow> u8 list" where
  "u32_bytes w = [ucast w, ucast (drop_bit 8 w), ucast (drop_bit 16 w), ucast (drop_bit 24 w)]"

text \<open>The lease at a position of a lease table: three little-endian words, as \<^verbatim>\<open>repr(C)\<close> lays it out.\<close>

definition mem_lease :: "memory \<Rightarrow> u32 \<Rightarrow> ULease" where
  "mem_lease m a = \<lparr>attributes = mem_u32 m a, base_address = mem_u32 m (a + 4),
     length_bytes = mem_u32 m (a + 8)\<rparr>"

subsection \<open>The slice invariant\<close>

definition slice_ok :: "usize \<Rightarrow> USlice \<Rightarrow> bool" where
  "slice_ok sz s \<longleftrightarrow> sz \<noteq> 0 \<and> unat (slice_base s) + unat (slice_len s) * unat sz < 2 ^ 32"

lemma highest_base_iff:
  fixes base w :: u32
  shows "base \<le> - 1 - w \<longleftrightarrow> unat base + unat w < 2 ^ 32"
proof -
  have "unat w \<le> 4294967295" using unat_lt_u32 [of w] by linarith
  then show ?thesis by (auto simp: word_le_nat_alt unat_max_minus_u32)
qed

text \<open>\<^verbatim>\<open>from_raw\<close> accepts exactly the aligned slices that satisfy the invariant.\<close>

lemma from_raw_iff:
  assumes "sz \<noteq> 0"
  shows "from_raw align sz base len = Inr s \<longleftrightarrow>
    base mod align = 0 \<and> s = \<lparr>slice_base = base, slice_len = len\<rparr> \<and> slice_ok sz s"
proof (cases "unat len * unat sz < 2 ^ 32")
  case True
  then show ?thesis
    using assms by (auto simp: from_raw_def checked_mul_def slice_ok_def highest_base_iff
        unat_mult_nowrap Let_def)
next
  case False
  then show ?thesis
    by (auto simp: from_raw_def checked_mul_def slice_ok_def)
qed

lemma from_raw_error: "from_raw align sz base len = Inl e \<Longrightarrow> e = InvalidSlice"
  by (auto simp: from_raw_def Let_def split: if_splits option.splits)

lemma slice_ok_mult:
  "slice_ok sz s \<Longrightarrow> unat (slice_len s * sz) = unat (slice_len s) * unat sz"
  by (intro unat_mult_nowrap) (simp add: slice_ok_def)

lemma unat_end_addr:
  assumes "slice_ok sz s"
  shows "unat (end_addr sz s) = unat (slice_base s) + unat (slice_len s) * unat sz"
  using assms slice_ok_mult [OF assms]
  by (simp add: end_addr_def unat_add_nowrap slice_ok_def)

interpretation uslice: user_slice slice_is_empty slice_base "end_addr sz" "slice_ok sz"
  for sz :: usize
proof unfold_locales
  fix s :: USlice
  assume ok: "slice_ok sz s"
  have "slice_base s = end_addr sz s \<longleftrightarrow> unat (slice_len s) * unat sz = 0"
    unfolding word_unat_eq_iff unat_end_addr [OF ok] by simp
  with ok show "slice_is_empty s \<longleftrightarrow> slice_base s = end_addr sz s"
    by (simp add: slice_is_empty_def slice_ok_def unat_eq_0)
  show "slice_base s \<le> end_addr sz s"
    using unat_end_addr [OF ok] by (simp add: word_le_nat_alt)
qed

interpretation kern: access_check slice_is_empty slice_base "end_addr sz" "slice_ok sz"
  region_contains region_base region_end_addr region_wf
  for sz :: usize
  by unfold_locales

subsection \<open>Aliasing and copying\<close>

lemma last_byte_addr_ok:
  assumes "slice_ok sz s"
  shows "last_byte_addr sz s = (if slice_is_empty s then None else Some (end_addr sz s - 1))"
  using assms by (auto simp: last_byte_addr_def slice_is_empty_def end_addr_def Let_def slice_ok_def
      word_unat_eq_iff slice_ok_mult)

text \<open>For slices that satisfy the invariant, \<^verbatim>\<open>aliases\<close> is overlap of the address ranges.\<close>

lemma aliases_iff_overlap:
  assumes "slice_ok sz s" and "slice_ok sz t"
  shows "aliases sz s t \<longleftrightarrow>
    (\<exists>a. slice_base s \<le> a \<and> a < end_addr sz s \<and> slice_base t \<le> a \<and> a < end_addr sz t)"
    (is "?l \<longleftrightarrow> ?r")
proof (cases "slice_is_empty s \<or> slice_is_empty t")
  case True
  then show ?thesis
    using assms by (auto simp: aliases_def last_byte_addr_ok uslice.empty_iff)
next
  case False
  then have lt: "slice_base s < end_addr sz s" "slice_base t < end_addr sz t"
    using assms by (simp_all add: uslice.nonempty_less)
  then have pred: "x \<le> end_addr sz s - 1 \<longleftrightarrow> x < end_addr sz s"
    "x \<le> end_addr sz t - 1 \<longleftrightarrow> x < end_addr sz t" for x
    by (metis word_le_pred_iff order_le_less_trans word_zero_le)+
  have "?l \<longleftrightarrow> slice_base t < end_addr sz s \<and> slice_base s < end_addr sz t"
    using False assms by (simp add: aliases_def last_byte_addr_ok pred)
  also have "\<dots> \<longleftrightarrow> ?r"
  proof
    assume "slice_base t < end_addr sz s \<and> slice_base s < end_addr sz t"
    with lt show ?r by (intro exI [of _ "max (slice_base s) (slice_base t)"]) simp
  qed auto
  finally show ?thesis .
qed

end
