(* ===== verification/Kern_Args.thy ===== *)
theory Kern_Args
  imports Kern_Umem
begin

section \<open>Saved machine state and syscall arguments\<close>

text \<open>
  The callee-save registers the kernel keeps for a task (\<^verbatim>\<open>SavedState\<close> of
  \<^verbatim>\<open>arch/arm_m.rs\<close>) and the \<^verbatim>\<open>ArchState\<close> trait of \<^verbatim>\<open>task.rs\<close>, which reads syscall
  arguments from them and writes results to them. The trait is the locale
  \<open>arch_state\<close>: what a result register holds after a write, and that a write touches no
  other register. The sixteen floating-point registers are one list.
\<close>

record SavedState =
  r4 :: u32
  r5 :: u32
  r6 :: u32
  r7 :: u32
  r8 :: u32
  r9 :: u32
  r10 :: u32
  r11 :: u32
  psp :: u32
  exc_return :: u32
  s16_s31 :: "u32 list"

definition saved_state_default :: SavedState where
  "saved_state_default = \<lparr>r4 = 0, r5 = 0, r6 = 0, r7 = 0, r8 = 0, r9 = 0, r10 = 0, r11 = 0,
     psp = 0, exc_return = 0, s16_s31 = replicate 16 0\<rparr>"

definition arg0 :: "SavedState \<Rightarrow> u32" where "arg0 = r4"

definition arg1 :: "SavedState \<Rightarrow> u32" where "arg1 = r5"

definition arg2 :: "SavedState \<Rightarrow> u32" where "arg2 = r6"

definition arg3 :: "SavedState \<Rightarrow> u32" where "arg3 = r7"

definition arg4 :: "SavedState \<Rightarrow> u32" where "arg4 = r8"

definition arg5 :: "SavedState \<Rightarrow> u32" where "arg5 = r9"

definition arg6 :: "SavedState \<Rightarrow> u32" where "arg6 = r10"

definition syscall_descriptor :: "SavedState \<Rightarrow> u32" where "syscall_descriptor = r11"

definition ret0 :: "u32 \<Rightarrow> SavedState \<Rightarrow> SavedState" where "ret0 x s = s\<lparr>r4 := x\<rparr>"

definition ret1 :: "u32 \<Rightarrow> SavedState \<Rightarrow> SavedState" where "ret1 x s = s\<lparr>r5 := x\<rparr>"

definition ret2 :: "u32 \<Rightarrow> SavedState \<Rightarrow> SavedState" where "ret2 x s = s\<lparr>r6 := x\<rparr>"

definition ret3 :: "u32 \<Rightarrow> SavedState \<Rightarrow> SavedState" where "ret3 x s = s\<lparr>r7 := x\<rparr>"

definition ret4 :: "u32 \<Rightarrow> SavedState \<Rightarrow> SavedState" where "ret4 x s = s\<lparr>r8 := x\<rparr>"

definition ret5 :: "u32 \<Rightarrow> SavedState \<Rightarrow> SavedState" where "ret5 x s = s\<lparr>r9 := x\<rparr>"

lemmas reg_defs = arg0_def arg1_def arg2_def arg3_def arg4_def arg5_def arg6_def
  syscall_descriptor_def ret0_def ret1_def ret2_def ret3_def ret4_def ret5_def

subsection \<open>Decoded arguments\<close>

type_synonym NotificationSet = u32
type_synonym Timestamp = u64
type_synonym slice_result = "UsageError + USlice"

record SendArgs =
  send_callee :: TaskId
  send_operation :: u16
  send_message :: slice_result
  send_response :: slice_result
  send_lease_table :: slice_result

record RecvArgs =
  recv_buffer :: slice_result
  notification_mask :: u32
  specific_sender :: "TaskId option"

record ReplyArgs =
  reply_callee :: TaskId
  reply_code :: u32
  reply_message :: slice_result

record ReplyFaultArgs =
  rf_callee :: TaskId
  rf_reason :: "UsageError + ReplyFaultReason"

record SetTimerArgs =
  st_deadline :: "Timestamp option"
  st_notification :: NotificationSet

record BorrowArgs =
  lender_id :: TaskId
  lease_number :: usize
  borrow_offset :: usize
  borrow_buffer :: slice_result

record IrqArgs =
  irq_notification :: u32
  irq_control_op :: u32

record PostArgs =
  post_task_id :: TaskId
  post_bits :: NotificationSet

text \<open>Size and alignment of the element types of the slices: bytes, words and leases.\<close>

abbreviation byte_slice :: "usize \<Rightarrow> usize \<Rightarrow> slice_result" where
  "byte_slice \<equiv> from_raw 1 1"

definition LEASE_SIZE :: usize where "LEASE_SIZE = 12"

abbreviation lease_slice :: "usize \<Rightarrow> usize \<Rightarrow> slice_result" where
  "lease_slice \<equiv> from_raw 4 LEASE_SIZE"

definition as_send_args :: "SavedState \<Rightarrow> SendArgs" where
  "as_send_args s = \<lparr>
     send_callee = TaskId (ucast (drop_bit 16 (arg0 s))),
     send_operation = ucast (arg0 s),
     send_message = byte_slice (arg1 s) (arg2 s),
     send_response = byte_slice (arg3 s) (arg4 s),
     send_lease_table = lease_slice (arg5 s) (arg6 s)\<rparr>"

definition as_recv_args :: "SavedState \<Rightarrow> RecvArgs" where
  "as_recv_args s = \<lparr>
     recv_buffer = byte_slice (arg0 s) (arg1 s),
     notification_mask = arg2 s,
     specific_sender =
       (let v = arg3 s in
        if v AND push_bit 31 1 \<noteq> 0 then Some (TaskId (ucast v)) else None)\<rparr>"

definition as_reply_args :: "SavedState \<Rightarrow> ReplyArgs" where
  "as_reply_args s = \<lparr>
     reply_callee = TaskId (ucast (arg0 s)),
     reply_code = arg1 s,
     reply_message = byte_slice (arg2 s) (arg3 s)\<rparr>"

definition as_reply_fault_args :: "SavedState \<Rightarrow> ReplyFaultArgs" where
  "as_reply_fault_args s = \<lparr>
     rf_callee = TaskId (ucast (arg0 s)),
     rf_reason = (case reply_fault_reason_try_from (arg1 s) of
        Some r \<Rightarrow> Inr r | None \<Rightarrow> Inl BadReplyFaultReason)\<rparr>"

definition as_set_timer_args :: "SavedState \<Rightarrow> SetTimerArgs" where
  "as_set_timer_args s = \<lparr>
     st_deadline =
       (if arg0 s \<noteq> 0 then Some (push_bit 32 (ucast (arg2 s)) OR ucast (arg1 s)) else None),
     st_notification = arg3 s\<rparr>"

definition as_borrow_args :: "SavedState \<Rightarrow> BorrowArgs" where
  "as_borrow_args s = \<lparr>
     lender_id = TaskId (ucast (arg0 s)),
     lease_number = arg1 s,
     borrow_offset = arg2 s,
     borrow_buffer = byte_slice (arg3 s) (arg4 s)\<rparr>"

definition as_irq_args :: "SavedState \<Rightarrow> IrqArgs" where
  "as_irq_args s = \<lparr>irq_notification = arg0 s, irq_control_op = arg1 s\<rparr>"

definition as_panic_args :: "SavedState \<Rightarrow> slice_result" where
  "as_panic_args s = byte_slice (arg0 s) (arg1 s)"

definition as_refresh_task_id_args :: "SavedState \<Rightarrow> TaskId" where
  "as_refresh_task_id_args s = TaskId (ucast (arg0 s))"

definition as_post_args :: "SavedState \<Rightarrow> PostArgs" where
  "as_post_args s = \<lparr>post_task_id = TaskId (ucast (arg0 s)), post_bits = arg1 s\<rparr>"

definition as_irq_status_args :: "SavedState \<Rightarrow> u32" where
  "as_irq_status_args s = arg0 s"

subsection \<open>Results\<close>

definition set_error_response :: "u32 \<Rightarrow> SavedState \<Rightarrow> SavedState" where
  "set_error_response resp s = ret1 0 (ret0 resp s)"

definition set_send_response_and_length :: "u32 \<Rightarrow> usize \<Rightarrow> SavedState \<Rightarrow> SavedState" where
  "set_send_response_and_length resp len s = ret1 len (ret0 resp s)"

definition set_recv_result ::
  "TaskId \<Rightarrow> u32 \<Rightarrow> usize \<Rightarrow> usize \<Rightarrow> usize \<Rightarrow> SavedState \<Rightarrow> SavedState" where
  "set_recv_result sender operation len response_capacity lease_count s =
     ret5 lease_count (ret4 response_capacity (ret3 len (ret2 operation
       (ret1 (ucast (tid_bits sender)) (ret0 0 s)))))"

definition set_borrow_response_and_length :: "u32 \<Rightarrow> usize \<Rightarrow> SavedState \<Rightarrow> SavedState" where
  "set_borrow_response_and_length resp len s = ret1 len (ret0 resp s)"

definition set_borrow_info :: "u32 \<Rightarrow> usize \<Rightarrow> SavedState \<Rightarrow> SavedState" where
  "set_borrow_info atts len s = ret2 len (ret1 atts (ret0 0 s))"

definition set_time_result ::
  "Timestamp \<Rightarrow> Timestamp option \<Rightarrow> NotificationSet \<Rightarrow> SavedState \<Rightarrow> SavedState" where
  "set_time_result now dl notif s =
     (let dl_u64 = (case dl of Some d \<Rightarrow> d | None \<Rightarrow> 0) in
      ret5 notif (ret4 (ucast (drop_bit 32 dl_u64)) (ret3 (ucast dl_u64)
        (ret2 (if dl \<noteq> None then 1 else 0) (ret1 (ucast (drop_bit 32 now)) (ret0 (ucast now) s))))))"

definition set_refresh_task_id_result :: "TaskId \<Rightarrow> SavedState \<Rightarrow> SavedState" where
  "set_refresh_task_id_result i s = ret0 (ucast (tid_bits i)) s"

definition set_irq_status_result :: "u32 \<Rightarrow> SavedState \<Rightarrow> SavedState" where
  "set_irq_status_result status s = ret0 status s"

lemmas result_defs = set_error_response_def set_send_response_and_length_def
  set_recv_result_def set_borrow_response_and_length_def set_borrow_info_def
  set_time_result_def set_refresh_task_id_result_def set_irq_status_result_def

subsection \<open>The contract of the argument and result registers\<close>

locale arch_state =
  fixes arg :: "nat \<Rightarrow> 's \<Rightarrow> u32" and ret :: "nat \<Rightarrow> u32 \<Rightarrow> 's \<Rightarrow> 's" and sp :: "'s \<Rightarrow> u32"
  assumes arg_ret: "i < 7 \<Longrightarrow> j < 6 \<Longrightarrow> arg i (ret j x s) = (if i = j then x else arg i s)"
    and sp_ret: "j < 6 \<Longrightarrow> sp (ret j x s) = sp s"
begin

text \<open>A result list written to the first registers is read back from them in order.\<close>

lemma rets_read_back:
  assumes "n \<le> 6" and "i < 7"
  shows "arg i (fold (\<lambda>j. ret j (f j)) [0..<n] s) = (if i < n then f i else arg i s)"
  using assms(1)
proof (induction n)
  case (Suc n)
  then show ?case using assms(2) by (auto simp: arg_ret less_Suc_eq)
qed simp

lemma rets_keep_sp:
  "n \<le> 6 \<Longrightarrow> sp (fold (\<lambda>j. ret j (f j)) [0..<n] s) = sp s"
  by (induction n) (simp_all add: sp_ret)

end

definition saved_arg :: "nat \<Rightarrow> SavedState \<Rightarrow> u32" where
  "saved_arg i s = (if i = 0 then arg0 s else if i = 1 then arg1 s else if i = 2 then arg2 s
     else if i = 3 then arg3 s else if i = 4 then arg4 s else if i = 5 then arg5 s else arg6 s)"

definition saved_ret :: "nat \<Rightarrow> u32 \<Rightarrow> SavedState \<Rightarrow> SavedState" where
  "saved_ret i x s = (if i = 0 then ret0 x s else if i = 1 then ret1 x s else if i = 2 then ret2 x s
     else if i = 3 then ret3 x s else if i = 4 then ret4 x s else ret5 x s)"

interpretation saved: arch_state saved_arg saved_ret psp
  by unfold_locales (auto simp: saved_arg_def saved_ret_def reg_defs less_Suc_eq numeral_eq_Suc)

lemma recv_result_as_rets:
  "set_recv_result sender oper len cap leases s =
    fold (\<lambda>j. saved_ret j ([0, ucast (tid_bits sender), oper, len, cap, leases] ! j)) [0..<6] s"
  by (simp add: set_recv_result_def saved_ret_def upt_rec numeral_eq_Suc)

end
