(* ===== verification/Kern_Task.thy ===== *)
theory Kern_Task
  imports Kern_Args
begin

section \<open>Tasks\<close>

text \<open>
  The task control block and its methods (\<^verbatim>\<open>impl Task\<close> of \<^verbatim>\<open>sys/kern/src/task.rs\<close>). A
  method with \<^verbatim>\<open>&mut self\<close> returns the new task; \<^verbatim>\<open>try_read\<close> and \<^verbatim>\<open>try_write\<close> return
  the slice as the reference the kernel may then use, or the fault; \<^verbatim>\<open>set_healthy_state\<close>
  returns \<open>None\<close> where the source panics.
\<close>

record TimerState =
  deadline :: "Timestamp option"
  to_post :: NotificationSet

record Task =
  save :: SavedState
  priority :: Priority
  state :: TaskState
  timer :: TimerState
  generation :: u32
  notifications :: u32
  descriptor :: TaskDesc

definition timer_default :: TimerState where
  "timer_default = \<lparr>deadline = None, to_post = 0\<rparr>"

definition from_descriptor :: "TaskDesc \<Rightarrow> Task" where
  "from_descriptor d = \<lparr>
     save = saved_state_default,
     priority = Priority (desc_priority d),
     state = (if flags_contains (desc_flags d) START_AT_BOOT then Healthy Runnable
              else task_state_default),
     timer = timer_default,
     generation = 0,
     notifications = 0,
     descriptor = d\<rparr>"

definition region_table :: "Task \<Rightarrow> RegionDesc list" where
  "region_table t = regions (descriptor t)"

definition task_can_access :: "Task \<Rightarrow> usize \<Rightarrow> USlice \<Rightarrow> u32 \<Rightarrow> u32 \<Rightarrow> bool" where
  "task_can_access t sz s desired forbidden =
     (let forbidden = forbidden OR ATTR_DEVICE in
      can_access slice_is_empty slice_base (end_addr sz)
        region_contains region_base region_end_addr s (region_table t)
        (\<lambda>region. flags_contains (region_attributes region) desired
           \<and> \<not> flags_intersects (region_attributes region) forbidden))"

definition can_read :: "Task \<Rightarrow> usize \<Rightarrow> USlice \<Rightarrow> bool" where
  "can_read t sz s = task_can_access t sz s ATTR_READ ATTR_DMA"

definition can_write :: "Task \<Rightarrow> usize \<Rightarrow> USlice \<Rightarrow> bool" where
  "can_write t sz s = task_can_access t sz s ATTR_WRITE ATTR_DMA"

definition try_read :: "Task \<Rightarrow> usize \<Rightarrow> USlice \<Rightarrow> FaultInfo + USlice" where
  "try_read t sz s =
     (if can_read t sz s then Inr s else Inl (MemoryAccess (Some (slice_base s)) Kernel))"

definition try_read_dma :: "Task \<Rightarrow> usize \<Rightarrow> USlice \<Rightarrow> FaultInfo + USlice" where
  "try_read_dma t sz s =
     (if task_can_access t sz s ATTR_READ 0 then Inr s
      else Inl (MemoryAccess (Some (slice_base s)) Kernel))"

definition try_write :: "Task \<Rightarrow> usize \<Rightarrow> USlice \<Rightarrow> FaultInfo + USlice" where
  "try_write t sz s =
     (if can_write t sz s then Inr s else Inl (MemoryAccess (Some (slice_base s)) Kernel))"

definition take_notifications :: "Task \<Rightarrow> u32 option \<times> Task" where
  "take_notifications t =
     (let firing = notifications t AND notification_mask (as_recv_args (save t)) in
      if firing \<noteq> 0
      then (Some firing, t\<lparr>notifications := notifications t AND NOT firing\<rparr>)
      else (None, t))"

definition task_post :: "NotificationSet \<Rightarrow> Task \<Rightarrow> bool \<times> Task" where
  "task_post n t =
     (let t = t\<lparr>notifications := notifications t OR n\<rparr> in
      if can_accept_notification (state t) then
        (case take_notifications t of
           (Some firing, t) \<Rightarrow>
             (True, t\<lparr>save := set_recv_result KERNEL firing 0 0 0 (save t),
                      state := Healthy Runnable\<rparr>)
         | (None, t) \<Rightarrow> (False, t))
      else (False, t))"

definition has_notifications :: "Task \<Rightarrow> u32 \<Rightarrow> bool" where
  "has_notifications t m \<longleftrightarrow> notifications t AND m \<noteq> 0"

definition is_runnable :: "Task \<Rightarrow> bool" where
  "is_runnable t \<longleftrightarrow> state t = Healthy Runnable"

definition task_set_timer :: "Timestamp option \<Rightarrow> NotificationSet \<Rightarrow> Task \<Rightarrow> Task" where
  "task_set_timer dl n t = t\<lparr>timer := (timer t)\<lparr>deadline := dl, to_post := n\<rparr>\<rparr>"

definition task_timer :: "Task \<Rightarrow> Timestamp option \<times> NotificationSet" where
  "task_timer t = (deadline (timer t), to_post (timer t))"

text \<open>
  The in-kernel part of \<^verbatim>\<open>reinitialize\<close>; the architecture part, which also writes the
  task's stack, is \<open>arch_reinitialize\<close> of \<open>Kern_Arch\<close>.
\<close>

definition reinitialize_fields :: "Task \<Rightarrow> Task" where
  "reinitialize_fields t = t\<lparr>generation := generation t + 1, timer := timer_default,
     notifications := 0, state := task_state_default\<rparr>"

definition task_generation :: "Task \<Rightarrow> Generation" where
  "task_generation t = Generation (ucast (generation t) AND (push_bit (16 - INDEX_BITS) 1 - 1))"

definition set_healthy_state :: "SchedState \<Rightarrow> Task \<Rightarrow> Task option" where
  "set_healthy_state s t =
     (case state t of Faulted _ _ \<Rightarrow> None | Healthy _ \<Rightarrow> Some (t\<lparr>state := Healthy s\<rparr>))"

definition task_force_fault :: "FaultInfo \<Rightarrow> Task \<Rightarrow> Task" where
  "task_force_fault fault t =
     t\<lparr>state := (case state t of
         Healthy sched \<Rightarrow> Faulted fault sched
       | Faulted _ original_state \<Rightarrow> Faulted fault original_state)\<rparr>"

subsection \<open>Scheduling hints\<close>

datatype NextTask = Same | Other | Specific nat

definition combine :: "NextTask \<Rightarrow> NextTask \<Rightarrow> NextTask" where
  "combine x y =
     (if x = y then x
      else case (x, y) of
        (Specific _, Specific _) \<Rightarrow> Other
      | (Specific i, _) \<Rightarrow> Specific i
      | (_, Specific i) \<Rightarrow> Specific i
      | (Other, _) \<Rightarrow> Other
      | (_, Other) \<Rightarrow> Other
      | (Same, Same) \<Rightarrow> Same)"

subsection \<open>Memory a task may touch\<close>

text \<open>
  A byte the task may read (write) as normal memory: some region of the task contains it,
  carries the permission, and is neither device nor DMA memory.
\<close>

definition readable_byte :: "Task \<Rightarrow> u32 \<Rightarrow> bool" where
  "readable_byte t a \<longleftrightarrow> (\<exists>r \<in> set (region_table t). region_contains r a
     \<and> flags_contains (region_attributes r) ATTR_READ
     \<and> \<not> flags_intersects (region_attributes r) (ATTR_DMA OR ATTR_DEVICE))"

definition writable_byte :: "Task \<Rightarrow> u32 \<Rightarrow> bool" where
  "writable_byte t a \<longleftrightarrow> (\<exists>r \<in> set (region_table t). region_contains r a
     \<and> flags_contains (region_attributes r) ATTR_WRITE
     \<and> \<not> flags_intersects (region_attributes r) (ATTR_DMA OR ATTR_DEVICE))"

definition regions_wf :: "Task \<Rightarrow> bool" where
  "regions_wf t \<longleftrightarrow> list_all region_wf (region_table t)"

lemma try_read_bytes:
  assumes "try_read t sz s = Inr s'" and "regions_wf t" and "slice_ok sz s"
    and "slice_base s \<le> a" and "a < end_addr sz s"
  shows "readable_byte t a"
  using assms kern.access_sound [of sz s "region_table t" _ a]
  by (fastforce simp: try_read_def can_read_def task_can_access_def readable_byte_def regions_wf_def
      split: if_splits)

lemma try_write_bytes:
  assumes "try_write t sz s = Inr s'" and "regions_wf t" and "slice_ok sz s"
    and "slice_base s \<le> a" and "a < end_addr sz s"
  shows "writable_byte t a"
  using assms kern.access_sound [of sz s "region_table t" _ a]
  by (fastforce simp: try_write_def can_write_def task_can_access_def writable_byte_def regions_wf_def
      split: if_splits)

lemma try_read_slice: "try_read t sz s = Inr s' \<Longrightarrow> s' = s"
  by (simp add: try_read_def split: if_splits)

lemma try_read_dma_slice: "try_read_dma t sz s = Inr s' \<Longrightarrow> s' = s"
  by (simp add: try_read_dma_def split: if_splits)

lemma try_write_slice: "try_write t sz s = Inr s' \<Longrightarrow> s' = s"
  by (simp add: try_write_def split: if_splits)

subsection \<open>Notifications\<close>

lemma take_notifications_None: "take_notifications t = (None, t') \<longleftrightarrow>
    t' = t \<and> notifications t AND notification_mask (as_recv_args (save t)) = 0"
  by (auto simp: take_notifications_def Let_def)

text \<open>
  Posting keeps a bit exactly once: after a post, each posted or pending bit is either still
  pending or was delivered in the message that woke the task.
\<close>

lemma task_post_wakes_iff:
  "fst (task_post n t) \<longleftrightarrow> can_accept_notification (state t)
     \<and> (notifications t OR n) AND notification_mask (as_recv_args (save t)) \<noteq> 0"
  by (auto simp: task_post_def take_notifications_def Let_def)

lemma task_post_woken:
  assumes "task_post n t = (True, t')"
  shows "state t' = Healthy Runnable"
    and "save t' = set_recv_result KERNEL
      ((notifications t OR n) AND notification_mask (as_recv_args (save t))) 0 0 0 (save t)"
    and "notifications t' = (notifications t OR n) AND NOT (notification_mask (as_recv_args (save t)))"
proof -
  from assms show "state t' = Healthy Runnable"
    by (auto simp: task_post_def take_notifications_def Let_def split: if_splits)
  from assms show "save t' = set_recv_result KERNEL
      ((notifications t OR n) AND notification_mask (as_recv_args (save t))) 0 0 0 (save t)"
    by (auto simp: task_post_def take_notifications_def Let_def split: if_splits)
  have "(a OR b) AND NOT ((a OR b) AND m) = (a OR b) AND NOT m" for a b m :: u32
    by (rule bit_word_eqI) (auto simp: bit_simps)
  with assms show "notifications t' = (notifications t OR n) AND NOT (notification_mask (as_recv_args (save t)))"
    by (auto simp: task_post_def take_notifications_def Let_def split: if_splits)
qed

lemma task_post_not_woken:
  "task_post n t = (False, t') \<Longrightarrow> t' = t\<lparr>notifications := notifications t OR n\<rparr>"
  by (auto simp: task_post_def take_notifications_def Let_def split: if_splits)

text \<open>What a post leaves alone.\<close>

lemma task_post_frame:
  "descriptor (snd (task_post n t)) = descriptor t"
  "priority (snd (task_post n t)) = priority t"
  "generation (snd (task_post n t)) = generation t"
  "timer (snd (task_post n t)) = timer t"
  by (simp_all add: task_post_def take_notifications_def Let_def)

lemma task_post_state:
  "state (snd (task_post n t)) = state t \<or>
   (\<exists>p. state t = Healthy (InRecv p)) \<and> state (snd (task_post n t)) = Healthy Runnable"
  by (auto simp: task_post_def take_notifications_def Let_def can_accept_notification_def
      split: TaskState.splits SchedState.splits)

subsection \<open>Generations\<close>

lemma task_generation_mod:
  "unat (gen_bits (task_generation t)) = unat (generation t) mod 64"
proof -
  have "push_bit (16 - INDEX_BITS) 1 - 1 = (mask 6 :: u8)"
    by (simp add: INDEX_BITS_def mask_eq_exp_minus_1)
  then show ?thesis
    by (simp add: task_generation_def unsigned_take_bit_eq unsigned_ucast_eq take_bit_eq_mod
        mod_mod_cancel unat_mod flip: take_bit_eq_mask)
qed

lemma gen_ok_task_generation: "gen_ok (task_generation t)"
  by (simp add: gen_ok_def task_generation_mod)

lemma task_generation_reinitialize:
  "task_generation (reinitialize_fields t) = gen_next (task_generation t)"
proof -
  have "(unat (generation t) + 1) mod 2 ^ 32 mod 64 = (unat (generation t) mod 64 + 1) mod 64"
    by (simp add: mod_mod_cancel mod_Suc_eq)
  then have "unat (gen_bits (task_generation (reinitialize_fields t)))
      = unat (gen_bits (gen_next (task_generation t)))"
    by (simp add: task_generation_mod gen_next_mod reinitialize_fields_def unat_word_ariths)
  then show ?thesis by (metis Generation.expand unsigned_word_eqI)
qed

end
