(* ===== verification/Kern_State.thy ===== *)
theory Kern_State
  imports Kern_Task
begin

section \<open>Kernel state, results and their logic\<close>

text \<open>
  The kernel is sequential: an entry point runs to completion with exclusive access to the
  task table. Its mutable globals are one record, \<open>kstate\<close>: the task table, the memory of
  the machine, the current-task pointer (as a table index), the tick counter, the NVIC
  enable and pending registers, the MPU and system registers, the pending-context-switch
  flag and the flag that guards the table against recursive use.

  What the image fixes at build time, and the code outside this repository, is the record
  \<open>kenv\<close>: the processor profile and cargo feature, the interrupt tables of the generated
  \<^verbatim>\<open>kconfig.rs\<close>, the image identifier, the \<^verbatim>\<open>ssmarshal\<close> (de)serialisers, and the address,
  size and byte layout the compiler gives a task control block, and the linker's stack base.

  A kernel function maps a state to a result: a value or an error, each with the new state
  (Rust's \<^verbatim>\<open>Result\<close>; effects made before an error stay), or \<open>Halt\<close>: a kernel panic, the
  reset of the processor, or, for the one loop whose termination is not structural, the
  exhaustion of its fuel.
\<close>

datatype arm_profile = ARMv6M | ARMv7M | ARMv8M

datatype ser_value =
    SerTaskState TaskState
  | SerImageId u64
  | SerDumpRegion "TaskDumpRegion option"

datatype ser_result = SerOk usize | SerEndOfStream | SerOtherError

record kenv =
  profile :: arm_profile
  feature_dump :: bool
  image_id :: u64
  task_irq_lookup :: "InterruptOwner \<Rightarrow> u32 list option"
  irq_task_lookup :: "u32 \<Rightarrow> InterruptOwner option"
  de_u32 :: "u8 list \<Rightarrow> u32 option"
  de_u32_bool :: "u8 list \<Rightarrow> (u32 \<times> bool) option"
  de_u32_u32 :: "u8 list \<Rightarrow> (u32 \<times> u32) option"
  de_u32_region :: "u8 list \<Rightarrow> (u32 \<times> TaskDumpRegion) option"
  ser :: "ser_value \<Rightarrow> u8 list \<Rightarrow> ser_result \<times> u8 list"
  size_of_ser :: "ser_value \<Rightarrow> usize"
  tcb_base :: "nat \<Rightarrow> usize"
  tcb_size :: usize
  tcb_bytes :: "Task \<Rightarrow> u8 list"
  stack_base :: u32

record mpu_regs =
  mpu_rbar :: "nat \<Rightarrow> u32"
  mpu_rasr :: "nat \<Rightarrow> u32"
  mpu_rlar :: "nat \<Rightarrow> u32"
  mpu_mair0 :: u32
  mpu_mair1 :: u32
  mpu_ctrl :: u32

text \<open>
  The system registers outside MPU and NVIC enable/pending state: fault status, handler
  control, priorities, the tick timer, the process stack pointer and the kernel's record of
  the clock. Registers that are bytes on some profile are kept as words.
\<close>

record sys_regs =
  cfsr :: u32
  mmfar :: u32
  bfar :: u32
  shcsr :: u32
  fpccr :: u32
  ccr :: u32
  shpr :: "u32 list"
  ipr :: "u32 list"
  ictr :: u32
  syst_rvr :: u32
  syst_cvr :: u32
  syst_csr :: u32
  msplim :: u32
  psp_reg :: u32
  clock_freq_khz :: u32

record kstate =
  tasks :: "Task list"
  table_in_use :: bool
  mem :: memory
  current :: nat
  ticks0 :: u32
  ticks1 :: u32
  nvic_iser :: "u32 list"
  nvic_ispr :: "u32 list"
  mpu :: mpu_regs
  sysr :: sys_regs
  pendsv :: bool

datatype halt = KPanic | KReset | KDiverge

datatype ('a, 'e) kres = Ok 'a kstate | Err 'e kstate | Halt halt

type_synonym ('a, 'e) kfun = "kstate \<Rightarrow> ('a, 'e) kres"

subsection \<open>Sequencing\<close>

definition kret :: "'a \<Rightarrow> ('a, 'e) kfun" where
  "kret a = Ok a"

definition kerr :: "'e \<Rightarrow> ('a, 'e) kfun" where
  "kerr e = Err e"

definition khalt :: "halt \<Rightarrow> ('a, 'e) kfun" where
  "khalt h = (\<lambda>_. Halt h)"

definition kbind :: "('a, 'e) kfun \<Rightarrow> ('a \<Rightarrow> ('b, 'e) kfun) \<Rightarrow> ('b, 'e) kfun" where
  "kbind m f = (\<lambda>s. case m s of Ok a s' \<Rightarrow> f a s' | Err e s' \<Rightarrow> Err e s' | Halt h \<Rightarrow> Halt h)"

text \<open>\<open>kmatch m f g\<close> is a \<^verbatim>\<open>match\<close> on the result of \<open>m\<close>; \<^verbatim>\<open>map_err\<close> and the conversions of
  the question-mark operator are instances of it.\<close>

definition kmatch ::
  "('a, 'e) kfun \<Rightarrow> ('a \<Rightarrow> ('b, 'f) kfun) \<Rightarrow> ('e \<Rightarrow> ('b, 'f) kfun) \<Rightarrow> ('b, 'f) kfun" where
  "kmatch m f g = (\<lambda>s. case m s of Ok a s' \<Rightarrow> f a s' | Err e s' \<Rightarrow> g e s' | Halt h \<Rightarrow> Halt h)"

definition kmap_err :: "('e \<Rightarrow> 'f) \<Rightarrow> ('a, 'e) kfun \<Rightarrow> ('a, 'f) kfun" where
  "kmap_err f m = kmatch m kret (\<lambda>e. kerr (f e))"

definition klift :: "'e + 'a \<Rightarrow> ('a, 'e) kfun" where
  "klift r = (case r of Inl e \<Rightarrow> kerr e | Inr a \<Rightarrow> kret a)"

definition kget :: "(kstate \<Rightarrow> 'a) \<Rightarrow> ('a, 'e) kfun" where
  "kget f = (\<lambda>s. Ok (f s) s)"

definition kmodify :: "(kstate \<Rightarrow> kstate) \<Rightarrow> (unit, 'e) kfun" where
  "kmodify f = (\<lambda>s. Ok () (f s))"

text \<open>Indexing the task table: an index out of range panics, as \<^verbatim>\<open>tasks[i]\<close> does.\<close>

definition get_task :: "nat \<Rightarrow> (Task, 'e) kfun" where
  "get_task i = (\<lambda>s. if i < length (tasks s) then Ok (tasks s ! i) s else Halt KPanic)"

definition put_task :: "nat \<Rightarrow> Task \<Rightarrow> (unit, 'e) kfun" where
  "put_task i t = (\<lambda>s. if i < length (tasks s) then Ok () (s\<lparr>tasks := (tasks s)[i := t]\<rparr>) else Halt KPanic)"

definition modify_task :: "nat \<Rightarrow> (Task \<Rightarrow> Task) \<Rightarrow> (unit, 'e) kfun" where
  "modify_task i f = kbind (get_task i) (\<lambda>t. put_task i (f t))"

definition modify_save :: "nat \<Rightarrow> (SavedState \<Rightarrow> SavedState) \<Rightarrow> (unit, 'e) kfun" where
  "modify_save i f = modify_task i (\<lambda>t. t\<lparr>save := f (save t)\<rparr>)"

text \<open>\<^verbatim>\<open>with_task_table\<close> of \<^verbatim>\<open>startup.rs\<close>: exclusive use of the table, a panic when nested.\<close>

definition with_task_table :: "('a, 'e) kfun \<Rightarrow> ('a, 'e) kfun" where
  "with_task_table body =
     kbind (kget table_in_use) (\<lambda>in_use.
     kbind (kmodify (\<lambda>s. s\<lparr>table_in_use := True\<rparr>)) (\<lambda>_.
     if in_use then khalt KPanic
     else kbind body (\<lambda>r.
       kbind (kmodify (\<lambda>s. s\<lparr>table_in_use := False\<rparr>)) (\<lambda>_. kret r))))"

subsection \<open>Weakest preconditions\<close>

text \<open>
  \<open>wp m Q E H s\<close>: running \<open>m\<close> from \<open>s\<close> ends in a value and state satisfying \<open>Q\<close>, an error
  and state satisfying \<open>E\<close>, or a halt satisfying \<open>H\<close>. The collection \<open>wp_simps\<close> computes it
  through the combinators; each component adds rules for its own operations.
\<close>

named_theorems wp_simps \<open>weakest preconditions of the combinators and of simple operations\<close>

definition wp :: "('a, 'e) kfun \<Rightarrow> ('a \<Rightarrow> kstate \<Rightarrow> bool) \<Rightarrow> ('e \<Rightarrow> kstate \<Rightarrow> bool)
    \<Rightarrow> (halt \<Rightarrow> bool) \<Rightarrow> kstate \<Rightarrow> bool" where
  "wp m Q E H s = (case m s of Ok a s' \<Rightarrow> Q a s' | Err e s' \<Rightarrow> E e s' | Halt h \<Rightarrow> H h)"

lemma wp_kret [wp_simps]: "wp (kret a) Q E H s = Q a s"
  by (simp add: wp_def kret_def)

lemma wp_kerr [wp_simps]: "wp (kerr e) Q E H s = E e s"
  by (simp add: wp_def kerr_def)

lemma wp_khalt [wp_simps]: "wp (khalt h) Q E H s = H h"
  by (simp add: wp_def khalt_def)

lemma wp_kbind [wp_simps]:
  "wp (kbind m f) Q E H s = wp m (\<lambda>a s'. wp (f a) Q E H s') E H s"
  by (simp add: wp_def kbind_def split: kres.splits)

lemma wp_kmatch [wp_simps]:
  "wp (kmatch m f g) Q E H s = wp m (\<lambda>a s'. wp (f a) Q E H s') (\<lambda>e s'. wp (g e) Q E H s') H s"
  by (simp add: wp_def kmatch_def split: kres.splits)

lemma wp_kmap_err [wp_simps]:
  "wp (kmap_err f m) Q E H s = wp m Q (\<lambda>e s'. E (f e) s') H s"
  by (simp add: kmap_err_def wp_kmatch wp_kret wp_kerr)

lemma wp_klift [wp_simps]:
  "wp (klift r) Q E H s = (case r of Inl e \<Rightarrow> E e s | Inr a \<Rightarrow> Q a s)"
  by (simp add: klift_def wp_kret wp_kerr split: sum.splits)

lemma wp_kget [wp_simps]: "wp (kget f) Q E H s = Q (f s) s"
  by (simp add: wp_def kget_def)

lemma wp_kmodify [wp_simps]: "wp (kmodify f) Q E H s = Q () (f s)"
  by (simp add: wp_def kmodify_def)

lemma wp_get_task [wp_simps]:
  "wp (get_task i) Q E H s = (if i < length (tasks s) then Q (tasks s ! i) s else H KPanic)"
  by (simp add: wp_def get_task_def)

lemma wp_put_task [wp_simps]:
  "wp (put_task i t) Q E H s =
     (if i < length (tasks s) then Q () (s\<lparr>tasks := (tasks s)[i := t]\<rparr>) else H KPanic)"
  by (simp add: wp_def put_task_def)

lemma wp_modify_task [wp_simps]:
  "wp (modify_task i f) Q E H s =
     (if i < length (tasks s) then Q () (s\<lparr>tasks := (tasks s)[i := f (tasks s ! i)]\<rparr>) else H KPanic)"
  by (simp add: modify_task_def wp_simps)

lemma wp_modify_save [wp_simps]:
  "wp (modify_save i f) Q E H s =
     (if i < length (tasks s)
      then Q () (s\<lparr>tasks := (tasks s)[i := (tasks s ! i)\<lparr>save := f (save (tasks s ! i))\<rparr>]\<rparr>)
      else H KPanic)"
  by (simp add: modify_save_def wp_simps)

lemma wp_if [wp_simps]:
  "wp (if b then m else n) Q E H s = (if b then wp m Q E H s else wp n Q E H s)"
  by simp

lemma wp_let [wp_simps]: "wp (let x = a in m x) Q E H s = (let x = a in wp (m x) Q E H s)"
  by (simp add: Let_def)

lemma wp_case_sum [wp_simps]:
  "wp (case r of Inl x \<Rightarrow> f x | Inr y \<Rightarrow> g y) Q E H s =
     (case r of Inl x \<Rightarrow> wp (f x) Q E H s | Inr y \<Rightarrow> wp (g y) Q E H s)"
  by (simp split: sum.splits)

lemma wp_case_option [wp_simps]:
  "wp (case r of None \<Rightarrow> f | Some y \<Rightarrow> g y) Q E H s =
     (case r of None \<Rightarrow> wp f Q E H s | Some y \<Rightarrow> wp (g y) Q E H s)"
  by (simp split: option.splits)

lemma wp_case_prod [wp_simps]:
  "wp (case p of (x, y) \<Rightarrow> f x y) Q E H s = (case p of (x, y) \<Rightarrow> wp (f x y) Q E H s)"
  by (simp split: prod.splits)

lemma wp_mono:
  assumes "wp m Q E H s" and "\<And>a s'. Q a s' \<Longrightarrow> Q' a s'" and "\<And>e s'. E e s' \<Longrightarrow> E' e s'"
    and "\<And>h. H h \<Longrightarrow> H' h"
  shows "wp m Q' E' H' s"
  using assms by (auto simp: wp_def split: kres.splits)

lemma wp_conj:
  "wp m Q E H s \<Longrightarrow> wp m Q' E' H' s \<Longrightarrow>
    wp m (\<lambda>a s. Q a s \<and> Q' a s) (\<lambda>e s. E e s \<and> E' e s) (\<lambda>h. H h \<and> H' h) s"
  by (simp add: wp_def split: kres.splits)

lemma wp_OkD: "wp m Q E H s \<Longrightarrow> m s = Ok a s' \<Longrightarrow> Q a s'"
  by (simp add: wp_def)

lemma wp_ErrD: "wp m Q E H s \<Longrightarrow> m s = Err e s' \<Longrightarrow> E e s'"
  by (simp add: wp_def)

lemma wp_HaltD: "wp m Q E H s \<Longrightarrow> m s = Halt h \<Longrightarrow> H h"
  by (simp add: wp_def)

end
