(* ===== verification/Kern_Table.thy ===== *)
theory Kern_Table
  imports Kern_State
begin

section \<open>The task table: lookup, scheduling, timers, faults\<close>

text \<open>
  The free functions of \<^verbatim>\<open>sys/kern/src/task.rs\<close> over the whole task table, the error types of
  \<^verbatim>\<open>err.rs\<close>, and \<^verbatim>\<open>index2_distinct\<close> of \<^verbatim>\<open>util.rs\<close>. The scan that implements the scheduler
  is specified by \<open>first_best\<close>: the first task, in table order after the previous one,
  among the most important tasks that satisfy the predicate.
\<close>

datatype UserError = Recoverable u32 NextTask | Unrecoverable FaultInfo

record InteractFault =
  fault_src :: "FaultInfo option"
  fault_dst :: "FaultInfo option"

definition usage :: "UsageError \<Rightarrow> UserError" where
  "usage e = Unrecoverable (SyscallUsage e)"

definition in_src :: "FaultInfo \<Rightarrow> InteractFault" where
  "in_src f = \<lparr>fault_src = Some f, fault_dst = None\<rparr>"

definition in_dst :: "FaultInfo \<Rightarrow> InteractFault" where
  "in_dst f = \<lparr>fault_src = None, fault_dst = Some f\<rparr>"

definition HUBRIS_FAULT_NOTIFICATION :: u32 where "HUBRIS_FAULT_NOTIFICATION = 1"

subsection \<open>Identifiers\<close>

definition current_id :: "nat \<Rightarrow> (TaskId, 'e) kfun" where
  "current_id index = kbind (get_task index) (\<lambda>t. kret (for_index_and_gen index (task_generation t)))"

definition check_task_id_against_table :: "TaskId \<Rightarrow> (nat, UserError) kfun" where
  "check_task_id_against_table i =
     kbind (kget tasks) (\<lambda>table.
     if length table \<le> tid_index i then kerr (Unrecoverable (SyscallUsage TaskOutOfRange))
     else kbind (get_task (tid_index i)) (\<lambda>t.
       let table_generation = task_generation t in
       if table_generation \<noteq> tid_generation i
       then kerr (Recoverable (dead_response_code table_generation) Same)
       else kret (tid_index i)))"

subsection \<open>Scheduling\<close>

fun priority_scan_loop ::
  "Task list \<Rightarrow> (Task \<Rightarrow> bool) \<Rightarrow> nat list \<Rightarrow> (nat \<times> Priority) option \<Rightarrow> (nat \<times> Priority) option" where
  "priority_scan_loop ts pred [] choice = choice"
| "priority_scan_loop ts pred (i # order) choice =
     (if \<not> pred (ts ! i) then priority_scan_loop ts pred order choice
      else (case choice of
          Some (_, prio) \<Rightarrow>
            if \<not> is_more_important_than (priority (ts ! i)) prio
            then priority_scan_loop ts pred order choice
            else priority_scan_loop ts pred order (Some (i, priority (ts ! i)))
        | None \<Rightarrow> priority_scan_loop ts pred order (Some (i, priority (ts ! i)))))"

definition search_order :: "nat \<Rightarrow> nat \<Rightarrow> nat list" where
  "search_order previous n = [previous + 1..<n] @ [0..<previous + 1]"

definition priority_scan :: "nat \<Rightarrow> (Task \<Rightarrow> bool) \<Rightarrow> (nat option, 'e) kfun" where
  "priority_scan previous pred =
     kbind (kget tasks) (\<lambda>ts.
     if previous < length ts
     then kret (map_option fst (priority_scan_loop ts pred (search_order previous (length ts)) None))
     else khalt KPanic)"

definition select :: "nat \<Rightarrow> (nat, 'e) kfun" where
  "select previous =
     kbind (priority_scan previous is_runnable) (\<lambda>choice.
       case choice of None \<Rightarrow> khalt KPanic | Some i \<Rightarrow> kret i)"

subsection \<open>Faults\<close>

definition force_fault :: "nat \<Rightarrow> FaultInfo \<Rightarrow> (NextTask, 'e) kfun" where
  "force_fault index fault =
     kbind (modify_task index (task_force_fault fault)) (\<lambda>_.
     kbind (get_task 0) (\<lambda>supervisor.
     let (supervisor_awoken, supervisor) = task_post HUBRIS_FAULT_NOTIFICATION supervisor in
     kbind (put_task 0 supervisor) (\<lambda>_.
     kret (if supervisor_awoken then Specific 0 else Other))))"

definition apply_to_src :: "InteractFault \<Rightarrow> nat \<Rightarrow> (NextTask, FaultInfo) kfun" where
  "apply_to_src it src =
     kbind (case fault_src it of Some f \<Rightarrow> force_fault src f | None \<Rightarrow> kret Same) (\<lambda>nt.
       case fault_dst it of Some f \<Rightarrow> kerr f | None \<Rightarrow> kret nt)"

definition apply_to_dst :: "InteractFault \<Rightarrow> nat \<Rightarrow> (NextTask, FaultInfo) kfun" where
  "apply_to_dst it dst =
     kbind (case fault_dst it of Some f \<Rightarrow> force_fault dst f | None \<Rightarrow> kret Same) (\<lambda>nt.
       case fault_src it of Some f \<Rightarrow> kerr f | None \<Rightarrow> kret nt)"

text \<open>\<^verbatim>\<open>tasks[i].set_healthy_state(s)\<close>.\<close>

definition set_state :: "nat \<Rightarrow> SchedState \<Rightarrow> (unit, 'e) kfun" where
  "set_state i sc = kbind (get_task i) (\<lambda>t.
     case set_healthy_state sc t of None \<Rightarrow> khalt KPanic | Some t' \<Rightarrow> put_task i t')"

subsection \<open>Timers\<close>

fun process_timers_loop ::
  "nat \<Rightarrow> Task list \<Rightarrow> Timestamp \<Rightarrow> NextTask \<Rightarrow> Task list \<times> NextTask" where
  "process_timers_loop index [] current_time sched_hint = ([], sched_hint)"
| "process_timers_loop index (t # ts) current_time sched_hint =
     (let (t', sched_hint') =
        (case deadline (timer t) of
           Some dl \<Rightarrow>
             if dl \<le> current_time then
               let t = t\<lparr>timer := (timer t)\<lparr>deadline := None\<rparr>\<rparr>;
                   (woken, t) = task_post (to_post (timer t)) t;
                   task_hint = (if woken then Specific index else Same)
               in (t, combine sched_hint task_hint)
             else (t, sched_hint)
         | None \<Rightarrow> (t, sched_hint));
      (ts', hint) = process_timers_loop (Suc index) ts current_time sched_hint'
      in (t' # ts', hint))"

definition process_timers :: "Timestamp \<Rightarrow> (NextTask, 'e) kfun" where
  "process_timers current_time =
     kbind (kget tasks) (\<lambda>ts.
     let (ts', hint) = process_timers_loop 0 ts current_time Same in
     kbind (kmodify (tasks_update (\<lambda>_. ts'))) (\<lambda>_. kret hint))"

subsection \<open>Two distinct tasks\<close>

definition index2_distinct :: "nat \<Rightarrow> nat \<Rightarrow> (Task \<times> Task, 'e) kfun" where
  "index2_distinct i j =
     kbind (kget tasks) (\<lambda>elements.
     if i < j then
       (if length elements < i + 1 then khalt KPanic
        else let prefix = take (i + 1) elements; suffix = drop (i + 1) elements in
          if length suffix \<le> j - (i + 1) then khalt KPanic
          else kret (prefix ! i, suffix ! (j - (i + 1))))
     else if j < i then
       (if length elements < j + 1 then khalt KPanic
        else let prefix = take (j + 1) elements; suffix = drop (j + 1) elements in
          if length suffix \<le> i - (j + 1) then khalt KPanic
          else kret (suffix ! (i - (j + 1)), prefix ! j))
     else khalt KPanic)"

lemma wp_index2_distinct [wp_simps]:
  "wp (index2_distinct i j) Q E H s =
     (if i < length (tasks s) \<and> j < length (tasks s) \<and> i \<noteq> j
      then Q (tasks s ! i, tasks s ! j) s else H KPanic)"
proof (cases i j rule: linorder_cases)
  case equal then show ?thesis by (simp add: index2_distinct_def wp_simps)
next
  case less
  then have "drop (i + 1) (tasks s) ! (j - (i + 1)) = tasks s ! j" if "j < length (tasks s)"
    using that by simp
  with less show ?thesis
    by (auto simp: index2_distinct_def wp_simps Let_def)
next
  case greater
  then have "drop (j + 1) (tasks s) ! (i - (j + 1)) = tasks s ! i" if "i < length (tasks s)"
    using that by simp
  with greater show ?thesis
    by (auto simp: index2_distinct_def wp_simps Let_def)
qed

subsection \<open>What the scan returns\<close>

text \<open>
  \<open>first_best ts pred order i\<close>: \<open>i\<close> satisfies \<open>pred\<close>, everything before it in \<open>order\<close> that
  satisfies \<open>pred\<close> is strictly less important, and nothing after it is more important.
\<close>

definition first_best :: "Task list \<Rightarrow> (Task \<Rightarrow> bool) \<Rightarrow> nat list \<Rightarrow> nat \<Rightarrow> bool" where
  "first_best ts pred order i \<longleftrightarrow> (\<exists>xs ys. order = xs @ i # ys \<and> pred (ts ! i)
     \<and> (\<forall>j \<in> set xs. pred (ts ! j) \<longrightarrow> prio_bits (priority (ts ! i)) < prio_bits (priority (ts ! j)))
     \<and> (\<forall>j \<in> set ys. pred (ts ! j) \<longrightarrow> prio_bits (priority (ts ! i)) \<le> prio_bits (priority (ts ! j))))"

lemma first_best_here:
  "pred (ts ! k) \<Longrightarrow>
     (\<forall>j \<in> set order. pred (ts ! j) \<longrightarrow> prio_bits (priority (ts ! k)) \<le> prio_bits (priority (ts ! j))) \<Longrightarrow>
     first_best ts pred (k # order) k"
  unfolding first_best_def by (metis append_Nil empty_iff empty_set)

lemma first_best_skip:
  "first_best ts pred order i \<Longrightarrow>
     pred (ts ! k) \<longrightarrow> prio_bits (priority (ts ! i)) < prio_bits (priority (ts ! k)) \<Longrightarrow>
     first_best ts pred (k # order) i"
  unfolding first_best_def by (metis append_Cons set_ConsD)

lemma scan_loop_Some:
  "(\<forall>j \<in> set order. pred (ts ! j) \<longrightarrow> prio_bits p \<le> prio_bits (priority (ts ! j)))
      \<and> priority_scan_loop ts pred order (Some (c, p)) = Some (c, p)
   \<or> (\<exists>i. first_best ts pred order i \<and> prio_bits (priority (ts ! i)) < prio_bits p
      \<and> priority_scan_loop ts pred order (Some (c, p)) = Some (i, priority (ts ! i)))"
proof (induction order arbitrary: c p)
  case (Cons k order)
  show ?case
  proof (cases "pred (ts ! k) \<and> prio_bits (priority (ts ! k)) < prio_bits p")
    case True
    with Cons.IH [of "priority (ts ! k)" k] show ?thesis
      by (auto simp: is_more_important_than_def intro: first_best_skip first_best_here)
  next
    case False
    with Cons.IH [of p c] show ?thesis
      by (auto simp: is_more_important_than_def not_less intro!: first_best_skip)
  qed
qed simp

lemma scan_loop_None:
  "(\<forall>j \<in> set order. \<not> pred (ts ! j)) \<and> priority_scan_loop ts pred order None = None
   \<or> (\<exists>i. first_best ts pred order i
      \<and> priority_scan_loop ts pred order None = Some (i, priority (ts ! i)))"
proof (induction order)
  case (Cons k order)
  show ?case
  proof (cases "pred (ts ! k)")
    case True
    with scan_loop_Some [of order pred ts "priority (ts ! k)" k] show ?thesis
      by (auto intro: first_best_skip first_best_here)
  next
    case False
    with Cons.IH show ?thesis by (auto intro: first_best_skip)
  qed
qed simp

lemma set_search_order: "previous < n \<Longrightarrow> set (search_order previous n) = {..<n}"
  by (auto simp: search_order_def)

lemma distinct_search_order: "distinct (search_order previous n)"
  by (auto simp: search_order_def)

lemma first_best_props:
  assumes "first_best ts pred (search_order previous (length ts)) i" and "previous < length ts"
  shows "i < length ts" and "pred (ts ! i)"
    and "\<And>j. j < length ts \<Longrightarrow> pred (ts ! j) \<Longrightarrow>
      prio_bits (priority (ts ! i)) \<le> prio_bits (priority (ts ! j))"
proof -
  from assms(1) obtain xs ys where o: "search_order previous (length ts) = xs @ i # ys"
    and p: "pred (ts ! i)"
    and b: "\<forall>j \<in> set xs. pred (ts ! j) \<longrightarrow> prio_bits (priority (ts ! i)) < prio_bits (priority (ts ! j))"
      "\<forall>j \<in> set ys. pred (ts ! j) \<longrightarrow> prio_bits (priority (ts ! i)) \<le> prio_bits (priority (ts ! j))"
    unfolding first_best_def by blast
  have s: "set xs \<union> {i} \<union> set ys = {..<length ts}"
    using set_search_order [OF assms(2)] o by auto
  then show "i < length ts" by auto
  show "pred (ts ! i)" by (rule p)
  fix j assume "j < length ts" "pred (ts ! j)"
  with s b show "prio_bits (priority (ts ! i)) \<le> prio_bits (priority (ts ! j))"
    by (metis UnE lessThan_iff order.strict_implies_order order_refl singletonD)
qed

lemma wp_priority_scan:
  assumes "previous < length (tasks s)"
    and "\<And>i. first_best (tasks s) pred (search_order previous (length (tasks s))) i \<Longrightarrow> Q (Some i) s"
    and "(\<forall>j < length (tasks s). \<not> pred (tasks s ! j)) \<Longrightarrow> Q None s"
  shows "wp (priority_scan previous pred) Q E H s"
  using assms scan_loop_None [of "search_order previous (length (tasks s))" pred "tasks s"]
  by (auto simp: priority_scan_def wp_simps set_search_order)

end
