(* ===== verification/Kern_Copy.thy ===== *)
theory Kern_Copy
  imports Kern_Table
begin

section \<open>Checked copies between tasks\<close>

text \<open>
  \<^verbatim>\<open>safe_copy\<close> and \<^verbatim>\<open>safe_copy_dma\<close> of \<^verbatim>\<open>sys/kern/src/umem.rs\<close>: both sides are validated
  against the region tables of their tasks, aliasing is blamed on the recipient, and the
  common prefix is copied only when neither side faulted.
\<close>

definition err_of :: "'e + 'a \<Rightarrow> 'e option" where
  "err_of r = (case r of Inl e \<Rightarrow> Some e | Inr _ \<Rightarrow> None)"

definition copy_dst :: "Task \<Rightarrow> USlice \<Rightarrow> USlice \<Rightarrow> FaultInfo + USlice" where
  "copy_dst to from_slice to_slice =
     (if aliases 1 from_slice to_slice
      then Inl (MemoryAccess (Some (slice_base to_slice)) Kernel)
      else try_write to 1 to_slice)"

text \<open>
  The body the two functions share; they differ in how the source side is validated.
\<close>

definition copy_with :: "(Task \<Rightarrow> usize \<Rightarrow> USlice \<Rightarrow> FaultInfo + USlice)
    \<Rightarrow> nat \<Rightarrow> USlice \<Rightarrow> nat \<Rightarrow> USlice \<Rightarrow> (usize, InteractFault) kfun" where
  "copy_with validate from_index from_slice to_index to_slice =
     (let copy_len = min (slice_len from_slice) (slice_len to_slice) in
      kbind (index2_distinct from_index to_index) (\<lambda>(from, to).
      let src = validate from 1 from_slice;
          dst = copy_dst to from_slice to_slice in
      case (src, dst) of
        (Inr f, Inr t) \<Rightarrow>
          kbind (kmodify (\<lambda>s. s\<lparr>mem := mem_write (mem s) (slice_base t)
                    (mem_bytes (mem s) (slice_base f) (unat copy_len))\<rparr>)) (\<lambda>_.
          kret copy_len)
      | _ \<Rightarrow> kerr \<lparr>fault_src = err_of src, fault_dst = err_of dst\<rparr>))"

definition safe_copy :: "nat \<Rightarrow> USlice \<Rightarrow> nat \<Rightarrow> USlice \<Rightarrow> (usize, InteractFault) kfun" where
  "safe_copy = copy_with try_read"

definition safe_copy_dma :: "nat \<Rightarrow> USlice \<Rightarrow> nat \<Rightarrow> USlice \<Rightarrow> (usize, InteractFault) kfun" where
  "safe_copy_dma = copy_with try_read_dma"

end
