(* ===== verification/Kern_Arch.thy ===== *)
theory Kern_Arch
  imports Kern_Table
begin

section \<open>The ARM M-profile layer\<close>

text \<open>
  The parts of \<^verbatim>\<open>sys/kern/src/arch/arm_m.rs\<close> that are Rust rather than assembly: the
  initial stack frame of a task, the MPU programming of a context switch on ARMv6/7-M and
  ARMv8-M, the NVIC bit operations and the tick counter. A write to a set-enable,
  clear-enable or set-pending register sets or clears the bits that are one in the value
  written, as the architecture defines; an index past the register array panics. The images
  are built with overflow checks, so an addition or subtraction that would wrap panics.
\<close>

definition INITIAL_PSR :: u32 where "INITIAL_PSR = push_bit 24 1"

definition EXC_RETURN_CONST :: u32 where "EXC_RETURN_CONST = 0xFFFFFFED"

text \<open>Size of \<^verbatim>\<open>ExtendedExceptionFrame\<close>: eight words, and eighteen more with an FPU.\<close>

definition frame_size :: "kenv \<Rightarrow> usize" where
  "frame_size env = (case profile env of ARMv6M \<Rightarrow> 32 | _ \<Rightarrow> 104)"

definition initial_frame :: "kenv \<Rightarrow> TaskDesc \<Rightarrow> u32 list" where
  "initial_frame env d =
     [0, 0, 0, 0, 0, 0xFFFFFFFF, entry_point d OR 1, INITIAL_PSR] @
     (case profile env of ARMv6M \<Rightarrow> [] | _ \<Rightarrow> replicate 18 0)"

definition write_words :: "u32 \<Rightarrow> u32 list \<Rightarrow> (unit, 'e) kfun" where
  "write_words base ws = kmodify (\<lambda>s. s\<lparr>mem := mem_write (mem s) base (concat (map u32_bytes ws))\<rparr>)"

definition unwrap :: "'e + 'a \<Rightarrow> ('a, 'f) kfun" where
  "unwrap r = (case r of Inl _ \<Rightarrow> khalt KPanic | Inr a \<Rightarrow> kret a)"

definition uassert :: "bool \<Rightarrow> (unit, 'e) kfun" where
  "uassert b = (if b then kret () else khalt KPanic)"

definition arch_reinitialize :: "kenv \<Rightarrow> nat \<Rightarrow> (unit, 'e) kfun" where
  "arch_reinitialize env i =
     kbind (modify_save i (\<lambda>_. saved_state_default)) (\<lambda>_.
     kbind (get_task i) (\<lambda>t.
     let stack = initial_stack (descriptor t); fsize = frame_size env in
     kbind (uassert (stack AND 7 = 0)) (\<lambda>_.
     kbind (uassert (fsize \<le> stack)) (\<lambda>_.
     kbind (unwrap (from_raw 4 fsize (stack - fsize) 1)) (\<lambda>frame_uslice.
     kbind (case find (\<lambda>region. region_contains region stack) (region_table t) of
              None \<Rightarrow> kret ()
            | Some region \<Rightarrow>
                kbind (uassert (region_base region \<le> stack - fsize)) (\<lambda>_.
                kbind (unwrap (from_raw 4 4 (region_base region)
                         (drop_bit 2 (stack - fsize - region_base region)))) (\<lambda>us.
                kbind (unwrap (try_write t 4 us)) (\<lambda>zap.
                write_words (slice_base zap) (replicate (unat (slice_len zap)) 0xbaddcafe))))) (\<lambda>_.
     kbind (unwrap (try_write t fsize frame_uslice)) (\<lambda>frame.
     kbind (write_words (slice_base frame) (initial_frame env (descriptor t))) (\<lambda>_.
     modify_save i (\<lambda>s. s\<lparr>psp := slice_base frame, exc_return := EXC_RETURN_CONST\<rparr>)))))))))"

text \<open>\<^verbatim>\<open>Task::reinitialize\<close>: the in-kernel fields, then the architecture part.\<close>

definition reinitialize :: "kenv \<Rightarrow> nat \<Rightarrow> (unit, 'e) kfun" where
  "reinitialize env i =
     kbind (modify_task i reinitialize_fields) (\<lambda>_. arch_reinitialize env i)"

subsection \<open>Memory protection\<close>

definition leading_zeros :: "u32 \<Rightarrow> nat" where
  "leading_zeros w = length (takeWhile (\<lambda>i. \<not> bit w i) (rev [0..<32]))"

definition b2w :: "bool \<Rightarrow> u32" where "b2w b = (if b then 1 else 0)"

definition mpu_region_v7 :: "nat \<Rightarrow> RegionDesc \<Rightarrow> mpu_regs \<Rightarrow> mpu_regs option" where
  "mpu_region_v7 i region m =
     (let ratts = region_attributes region;
          xn = b2w (\<not> flags_contains ratts ATTR_EXECUTE);
          ap = (if flags_contains ratts ATTR_WRITE then 3
                else if flags_contains ratts ATTR_READ then 2 else 1 :: u32);
          (tex, scb) = (if flags_contains ratts ATTR_DEVICE then (0, 1)
                        else if flags_contains ratts ATTR_DMA then (1, 4)
                        else (1, 3 :: u32)) :: u32 \<times> u32
      in if 30 < leading_zeros (region_size region) then None
         else let l2size = word_of_nat (30 - leading_zeros (region_size region));
                  rasr = push_bit 28 xn OR push_bit 24 ap OR push_bit 19 tex OR push_bit 16 scb
                    OR push_bit 1 l2size
              in Some (m\<lparr>mpu_rbar := (mpu_rbar m)(i := region_base region),
                        mpu_rasr := (mpu_rasr m)(i := rasr OR 1)\<rparr>))"

definition mpu_region_v8 :: "nat \<Rightarrow> RegionDesc \<Rightarrow> mpu_regs \<Rightarrow> mpu_regs option" where
  "mpu_region_v8 i region m =
     (let ratts = region_attributes region;
          xn = b2w (\<not> flags_contains ratts ATTR_EXECUTE);
          ap = (if flags_contains ratts ATTR_WRITE then 1
                else if flags_contains ratts ATTR_READ then 3 else 0 :: u32);
          rw = push_bit 1 (b2w (flags_contains ratts ATTR_READ)) OR b2w (flags_contains ratts ATTR_WRITE);
          (mair, sh) = (if flags_contains ratts ATTR_DEVICE then (0, 2)
                        else if flags_contains ratts ATTR_DMA then (0x44, 2)
                        else (0x44 OR rw OR push_bit 4 rw, 0 :: u32)) :: u32 \<times> u32
      in case checked_add (region_base region) (region_size region) of
           None \<Rightarrow> None
         | Some past_end \<Rightarrow> (case checked_sub past_end 32 of
             None \<Rightarrow> None
           | Some upper \<Rightarrow>
               let rlar = upper OR push_bit 1 (word_of_nat i);
                   rbar = xn OR push_bit 1 ap OR push_bit 3 sh OR region_base region;
                   m1 = (if i < 4 then m\<lparr>mpu_mair0 := mpu_mair0 m OR push_bit (i * 8) mair\<rparr>
                         else m\<lparr>mpu_mair1 := mpu_mair1 m OR push_bit ((i - 4) * 8) mair\<rparr>)
               in Some (m1\<lparr>mpu_rbar := (mpu_rbar m1)(i := rbar),
                          mpu_rlar := (mpu_rlar m1)(i := rlar OR 1)\<rparr>)))"

fun mpu_regions ::
  "(nat \<Rightarrow> RegionDesc \<Rightarrow> mpu_regs \<Rightarrow> mpu_regs option) \<Rightarrow> nat \<Rightarrow> RegionDesc list \<Rightarrow> mpu_regs \<Rightarrow> mpu_regs option" where
  "mpu_regions f i [] m = Some m"
| "mpu_regions f i (r # rs) m = (case f i r m of None \<Rightarrow> None | Some m' \<Rightarrow> mpu_regions f (Suc i) rs m')"

definition disable_mpu :: "mpu_regs \<Rightarrow> mpu_regs" where
  "disable_mpu m = m\<lparr>mpu_ctrl := 0\<rparr>"

definition enable_mpu :: "bool \<Rightarrow> mpu_regs \<Rightarrow> mpu_regs" where
  "enable_mpu privdefena m = m\<lparr>mpu_ctrl := 1 OR (if privdefena then 4 else 0)\<rparr>"

definition apply_memory_protection_v7 :: "Task \<Rightarrow> mpu_regs \<Rightarrow> mpu_regs option" where
  "apply_memory_protection_v7 t m = mpu_regions mpu_region_v7 0 (region_table t) m"

definition apply_memory_protection_v8 :: "Task \<Rightarrow> mpu_regs \<Rightarrow> mpu_regs option" where
  "apply_memory_protection_v8 t m =
     map_option (enable_mpu True) (mpu_regions mpu_region_v8 0 (region_table t) (disable_mpu m))"

definition apply_memory_protection :: "kenv \<Rightarrow> Task \<Rightarrow> (unit, 'e) kfun" where
  "apply_memory_protection env t =
     kbind (kget mpu) (\<lambda>m.
     case (case profile env of ARMv8M \<Rightarrow> apply_memory_protection_v8 t m
                             | _ \<Rightarrow> apply_memory_protection_v7 t m) of
       None \<Rightarrow> khalt KPanic
     | Some m' \<Rightarrow> kmodify (\<lambda>s. s\<lparr>mpu := m'\<rparr>))"

definition set_current_task :: "nat \<Rightarrow> (unit, 'e) kfun" where
  "set_current_task i = kmodify (\<lambda>s. s\<lparr>current := i\<rparr>)"

subsection \<open>Interrupt controller\<close>

definition nvic_bit :: "u32 \<Rightarrow> u32" where
  "nvic_bit n = push_bit (unat n mod 32) 1"

definition nvic_reg :: "u32 \<Rightarrow> nat" where
  "nvic_reg n = unat n div 32"

definition disable_irq :: "u32 \<Rightarrow> (unit, 'e) kfun" where
  "disable_irq n = kbind (kget nvic_iser) (\<lambda>iser.
     if nvic_reg n < length iser
     then kmodify (\<lambda>s. s\<lparr>nvic_iser := iser[nvic_reg n := iser ! nvic_reg n AND NOT (nvic_bit n)]\<rparr>)
     else khalt KPanic)"

definition enable_irq :: "u32 \<Rightarrow> (unit, 'e) kfun" where
  "enable_irq n = kbind (kget nvic_iser) (\<lambda>iser.
     if nvic_reg n < length iser
     then kmodify (\<lambda>s. s\<lparr>nvic_iser := iser[nvic_reg n := iser ! nvic_reg n OR nvic_bit n]\<rparr>)
     else khalt KPanic)"

definition arch_irq_status :: "u32 \<Rightarrow> (u32, 'e) kfun" where
  "arch_irq_status n = kbind (kget nvic_iser) (\<lambda>iser. kbind (kget nvic_ispr) (\<lambda>ispr.
     if nvic_reg n < length iser \<and> nvic_reg n < length ispr
     then kret ((if iser ! nvic_reg n AND nvic_bit n = nvic_bit n then IRQ_ENABLED else 0)
            OR (if ispr ! nvic_reg n AND nvic_bit n = nvic_bit n then IRQ_PENDING else 0))
     else khalt KPanic))"

definition pend_software_irq :: "u32 \<Rightarrow> (unit, 'e) kfun" where
  "pend_software_irq n = kbind (kget nvic_ispr) (\<lambda>ispr.
     if nvic_reg n < length ispr
     then kmodify (\<lambda>s. s\<lparr>nvic_ispr := ispr[nvic_reg n := ispr ! nvic_reg n OR nvic_bit n]\<rparr>)
     else khalt KPanic)"

subsection \<open>Time\<close>

definition timestamp_from :: "u32 \<Rightarrow> u32 \<Rightarrow> Timestamp" where
  "timestamp_from t0 t1 = ucast t0 OR push_bit 32 (ucast t1)"

definition now :: "(Timestamp, 'e) kfun" where
  "now = kget (\<lambda>s. timestamp_from (ticks0 s) (ticks1 s))"

definition pend_context_switch_from_isr :: "(unit, 'e) kfun" where
  "pend_context_switch_from_isr = kmodify (\<lambda>s. s\<lparr>pendsv := True\<rparr>)"

definition SysTick :: "(unit, 'e) kfun" where
  "SysTick = with_task_table (
     kbind (kget (\<lambda>s. (ticks0 s, ticks1 s))) (\<lambda>(t0, t1).
     kbind (case checked_add t0 1 of
              Some t0p \<Rightarrow> kbind (kmodify (\<lambda>s. s\<lparr>ticks0 := t0p\<rparr>)) (\<lambda>_. kret (t0p, t1))
            | None \<Rightarrow> (case checked_add t1 1 of
                None \<Rightarrow> khalt KPanic
              | Some t1p \<Rightarrow> kbind (kmodify (\<lambda>s. s\<lparr>ticks0 := 0, ticks1 := t1p\<rparr>)) (\<lambda>_. kret (0, t1p))))
       (\<lambda>(t0, t1).
     kbind (process_timers (timestamp_from t0 t1)) (\<lambda>switch.
     if switch \<noteq> Same then pend_context_switch_from_isr else kret ()))))"

end
