(* ===== verification/Kern_Kipc.thy ===== *)
theory Kern_Kipc
  imports Kern_Copy Kern_Arch
begin

section \<open>Kernel IPC\<close>

text \<open>
  The operations on the virtual kernel task (\<^verbatim>\<open>sys/kern/src/kipc.rs\<close>), dispatched by
  \<open>handle_kernel_message\<close>. Messages are decoded, and responses encoded, by the
  \<^verbatim>\<open>ssmarshal\<close> functions of the environment; a serialiser may leave part of its output
  in the buffer when it runs out of room.
\<close>

definition deserialize_message :: "(u8 list \<Rightarrow> 'a option) \<Rightarrow> Task \<Rightarrow> USlice \<Rightarrow> ('a, UserError) kfun" where
  "deserialize_message de t message =
     kbind (klift (map_sum Unrecoverable id (try_read t 1 message))) (\<lambda>sl.
     kbind (kget mem) (\<lambda>m.
     case de (mem_bytes m (slice_base sl) (unat (slice_len sl))) of
       Some msg \<Rightarrow> kret msg
     | None \<Rightarrow> kerr (usage BadKernelMessage)))"

definition serialize_response :: "kenv \<Rightarrow> Task \<Rightarrow> USlice \<Rightarrow> ser_value \<Rightarrow> (usize, UserError) kfun" where
  "serialize_response env t buf v =
     kbind (klift (map_sum Unrecoverable id (try_write t 1 buf))) (\<lambda>sl.
     kbind (kget mem) (\<lambda>m.
     let n = unat (slice_len sl);
         (r, bytes) = ser env v (mem_bytes m (slice_base sl) n) in
     kbind (kmodify (\<lambda>s. s\<lparr>mem := mem_write (mem s) (slice_base sl) (take n bytes)\<rparr>)) (\<lambda>_.
     case r of
       SerOk sz \<Rightarrow> kret sz
     | SerEndOfStream \<Rightarrow> kret (size_of_ser env v)
     | SerOtherError \<Rightarrow> kerr (usage BadKernelMessage))))"

definition read_task_status :: "kenv \<Rightarrow> nat \<Rightarrow> USlice \<Rightarrow> USlice \<Rightarrow> (NextTask, UserError) kfun" where
  "read_task_status env caller message response =
     kbind (get_task caller) (\<lambda>t.
     kbind (deserialize_message (de_u32 env) t message) (\<lambda>index.
     kbind (kget tasks) (\<lambda>ts.
     if length ts \<le> unat index then kerr (usage TaskOutOfRange)
     else kbind (get_task (unat index)) (\<lambda>other.
       kbind (serialize_response env t response (SerTaskState (state other))) (\<lambda>response_len.
       kbind (modify_save caller (set_send_response_and_length 0 response_len)) (\<lambda>_.
       kret Same))))))"

text \<open>
  The pass of \<^verbatim>\<open>restart_task\<close> over the table: a healthy task blocked on the identity the
  restarted task had is released with a dead code.
\<close>

definition condole :: "TaskId \<Rightarrow> Task \<Rightarrow> Task" where
  "condole old_id t =
     (let release = (\<lambda>peer. if peer = old_id
          then t\<lparr>save := set_error_response (dead_response_code (tid_generation peer)) (save t),
                 state := Healthy Runnable\<rparr>
          else t) in
      case state t of
        Healthy (InRecv (Some peer)) \<Rightarrow> release peer
      | Healthy (InSend peer) \<Rightarrow> release peer
      | Healthy (InReply peer) \<Rightarrow> release peer
      | _ \<Rightarrow> t)"

fun condole_loop :: "nat \<Rightarrow> nat \<Rightarrow> TaskId \<Rightarrow> nat \<Rightarrow> Task list \<Rightarrow> Task list" where
  "condole_loop caller index old_id i [] = []"
| "condole_loop caller index old_id i (t # ts) =
     (if i = caller \<or> i = index then t else condole old_id t) #
     condole_loop caller index old_id (Suc i) ts"

definition restart_task :: "kenv \<Rightarrow> nat \<Rightarrow> USlice \<Rightarrow> (NextTask, UserError) kfun" where
  "restart_task env caller message =
     kbind (get_task caller) (\<lambda>t.
     kbind (deserialize_message (de_u32_bool env) t message) (\<lambda>(index, start).
     let index = unat index in
     kbind (kget tasks) (\<lambda>ts.
     if length ts \<le> index then kerr (usage TaskOutOfRange)
     else
       kbind (current_id index) (\<lambda>old_id.
       kbind (reinitialize env index) (\<lambda>_.
       kbind (if start then set_state index Runnable else kret ()) (\<lambda>_.
       kbind (kmodify (\<lambda>s. s\<lparr>tasks := condole_loop caller index old_id 0 (tasks s)\<rparr>)) (\<lambda>_.
       if index = caller then (if \<not> start then kret Other else kret Same)
       else kbind (modify_save caller (set_send_response_and_length 0 0)) (\<lambda>_. kret Same))))))))"

definition fault_task :: "kenv \<Rightarrow> nat \<Rightarrow> USlice \<Rightarrow> (NextTask, UserError) kfun" where
  "fault_task env caller message =
     kbind (get_task caller) (\<lambda>t.
     kbind (deserialize_message (de_u32 env) t message) (\<lambda>index.
     let index = unat index in
     if index = 0 \<or> index = caller then kerr (usage IllegalTask)
     else kbind (kget tasks) (\<lambda>ts.
       if length ts \<le> index then kerr (usage TaskOutOfRange)
       else
         kbind (current_id caller) (\<lambda>i.
         kbind (force_fault index (Injected i)) (\<lambda>_.
         kbind (modify_save caller (set_send_response_and_length 0 0)) (\<lambda>_.
         kret Same))))))"

definition read_image_id :: "kenv \<Rightarrow> nat \<Rightarrow> USlice \<Rightarrow> (NextTask, UserError) kfun" where
  "read_image_id env caller response =
     kbind (get_task caller) (\<lambda>t.
     kbind (serialize_response env t response (SerImageId (image_id env))) (\<lambda>response_len.
     kbind (modify_save caller (set_send_response_and_length 0 response_len)) (\<lambda>_.
     kret Same)))"

definition get_task_dump_region :: "kenv \<Rightarrow> nat \<Rightarrow> USlice \<Rightarrow> USlice \<Rightarrow> (NextTask, UserError) kfun" where
  "get_task_dump_region env caller message response =
     kbind (get_task caller) (\<lambda>t.
     kbind (deserialize_message (de_u32_u32 env) t message) (\<lambda>(index, rindex).
     kbind (kget tasks) (\<lambda>ts.
     if length ts \<le> unat index then kerr (usage TaskOutOfRange)
     else
       kbind (get_task (unat index)) (\<lambda>target.
       let rval =
         (if rindex = 0
          then Some \<lparr>dump_base = tcb_base env (unat index), dump_size = tcb_size env\<rparr>
          else let rs = filter dumpable (region_table target); n = unat rindex - 1 in
            if n < length rs
            then Some \<lparr>dump_base = region_base (rs ! n), dump_size = region_size (rs ! n)\<rparr>
            else None) in
       kbind (serialize_response env t response (SerDumpRegion rval)) (\<lambda>response_len.
       kbind (modify_save caller (set_send_response_and_length 0 response_len)) (\<lambda>_.
       kret Same))))))"

text \<open>
  \<^verbatim>\<open>&target_task[offset..from.len()]\<close>: a sub-slice of the bytes of the control block. The
  upper bound is the length of the request, not the offset plus that length; an offset
  above it, or a length above the size of the block, panics.
\<close>

definition tcb_subslice :: "kenv \<Rightarrow> Task \<Rightarrow> usize \<Rightarrow> usize \<Rightarrow> (u8 list, 'e) kfun" where
  "tcb_subslice env target offset len =
     (if len < offset \<or> tcb_size env < len then khalt KPanic
      else kret (drop (unat offset) (take (unat len) (tcb_bytes env target))))"

definition read_task_dump_region :: "kenv \<Rightarrow> nat \<Rightarrow> USlice \<Rightarrow> USlice \<Rightarrow> (NextTask, UserError) kfun" where
  "read_task_dump_region env caller message response =
     (if caller \<noteq> 0 then kerr (usage NotSupervisor)
      else
      kbind (get_task caller) (\<lambda>t.
      kbind (deserialize_message (de_u32_region env) t message) (\<lambda>(index, region).
      let index = unat index in
      kbind (kget tasks) (\<lambda>ts.
      if index = caller \<or> length ts \<le> index then kerr (usage TaskOutOfRange)
      else
        kbind (index2_distinct caller index) (\<lambda>(caller_task, target_task).
        kbind (klift (map_sum usage id (byte_slice (dump_base region) (dump_size region)))) (\<lambda>from.
        let base = tcb_base env index; tcb_end = base + tcb_size env in
        if base \<le> slice_base from \<and> end_addr 1 from \<le> tcb_end then
          kbind (tcb_subslice env target_task (slice_base from - base) (slice_len from)) (\<lambda>tcb.
          kbind (klift (map_sum Unrecoverable id (try_write caller_task 1 response))) (\<lambda>to.
          let copy_len = min (unat (slice_len to)) (length tcb) in
          kbind (kmodify (\<lambda>s. s\<lparr>mem := mem_write (mem s) (slice_base to) (take copy_len tcb)\<rparr>)) (\<lambda>_.
          kbind (modify_save caller (set_send_response_and_length 0 (word_of_nat copy_len))) (\<lambda>_.
          kret Same))))
        else
          kmatch (safe_copy_dma index from caller response)
            (\<lambda>response_len.
               kbind (modify_save caller (set_send_response_and_length 0 response_len)) (\<lambda>_. kret Same))
            (\<lambda>it. kmap_err Unrecoverable (apply_to_src it caller))))))))"

fun for_each_irq :: "(u32 \<Rightarrow> (unit, 'e) kfun) \<Rightarrow> u32 list \<Rightarrow> (unit, 'e) kfun" where
  "for_each_irq operation [] = kret ()"
| "for_each_irq operation (i # irqs) = kbind (operation i) (\<lambda>_. for_each_irq operation irqs)"

definition software_irq :: "kenv \<Rightarrow> nat \<Rightarrow> USlice \<Rightarrow> (NextTask, UserError) kfun" where
  "software_irq env caller message =
     (if caller \<noteq> 0 then kerr (usage NotSupervisor)
      else
      kbind (get_task caller) (\<lambda>t.
      kbind (deserialize_message (de_u32_u32 env) t message) (\<lambda>(index, notification).
      kbind (kget tasks) (\<lambda>ts.
      if length ts \<le> unat index then kerr (usage TaskOutOfRange)
      else case task_irq_lookup env \<lparr>io_task = index, io_notification = notification\<rparr> of
          None \<Rightarrow> kerr (usage NoIrq)
        | Some irqs \<Rightarrow>
            kbind (for_each_irq pend_software_irq irqs) (\<lambda>_.
            kbind (modify_save caller (set_send_response_and_length 0 0)) (\<lambda>_.
            kret Same))))))"

definition reset :: "('a, 'e) kfun" where
  "reset = khalt KReset"

definition handle_kernel_message :: "kenv \<Rightarrow> nat \<Rightarrow> (NextTask, UserError) kfun" where
  "handle_kernel_message env caller =
     kbind (get_task caller) (\<lambda>t.
     let args = as_send_args (save t);
         message = klift (map_sum usage id (send_message args));
         response = klift (map_sum usage id (send_response args)) in
     case kipcnum_try_from (send_operation args) of
       Some ReadTaskStatus \<Rightarrow>
         kbind message (\<lambda>m. kbind response (\<lambda>r. read_task_status env caller m r))
     | Some RestartTask \<Rightarrow> kbind message (\<lambda>m. restart_task env caller m)
     | Some FaultTask \<Rightarrow> kbind message (\<lambda>m. fault_task env caller m)
     | Some ReadImageId \<Rightarrow> kbind response (\<lambda>r. read_image_id env caller r)
     | Some Reset \<Rightarrow> kbind message (\<lambda>m. reset)
     | Some GetTaskDumpRegion \<Rightarrow>
         if feature_dump env
         then kbind message (\<lambda>m. kbind response (\<lambda>r. get_task_dump_region env caller m r))
         else kerr (usage BadKernelMessage)
     | Some ReadTaskDumpRegion \<Rightarrow>
         if feature_dump env
         then kbind message (\<lambda>m. kbind response (\<lambda>r. read_task_dump_region env caller m r))
         else kerr (usage BadKernelMessage)
     | Some SoftwareIrq \<Rightarrow> kbind message (\<lambda>m. software_irq env caller m)
     | None \<Rightarrow> kerr (usage BadKernelMessage))"

end
