(* ===== verification/Kern_Syscalls.thy ===== *)
theory Kern_Syscalls
  imports Kern_Kipc
begin

section \<open>System calls\<close>

text \<open>
  The architecture-independent syscall layer (\<^verbatim>\<open>sys/kern/src/syscalls.rs\<close>). Every handler
  takes the index of the calling task and ends in a scheduling hint or a \<^verbatim>\<open>UserError\<close>;
  \<open>safe_syscall_entry\<close> turns an error into a response code or a fault, and
  \<open>syscall_entry\<close> performs the task switch. The search of an open receive for a sender is
  a loop in the source; here it is bounded by fuel, one unit per sender it may have to
  fault, and \<open>recv\<close> supplies one unit more than there are tasks.
\<close>

subsection \<open>Message delivery\<close>

definition deliver :: "nat \<Rightarrow> nat \<Rightarrow> (unit, InteractFault) kfun" where
  "deliver caller callee =
     kbind (current_id caller) (\<lambda>caller_id.
     kbind (get_task caller) (\<lambda>caller_task.
     let send_args = as_send_args (save caller_task) in
     kbind (klift (map_sum (\<lambda>e. in_src (SyscallUsage e)) id (send_message send_args))) (\<lambda>src_slice.
     kbind (klift (map_sum (\<lambda>e. in_src (SyscallUsage e)) id (send_response send_args))) (\<lambda>response.
     let response_capacity = slice_len response in
     kbind (klift (map_sum (\<lambda>e. in_src (SyscallUsage e)) id (send_lease_table send_args))) (\<lambda>leases.
     let lease_count = slice_len leases in
     kbind (get_task callee) (\<lambda>callee_task.
     kbind (klift (map_sum (\<lambda>e. in_dst (SyscallUsage e)) id
              (recv_buffer (as_recv_args (save callee_task))))) (\<lambda>dest_slice.
     kbind (safe_copy caller src_slice callee dest_slice) (\<lambda>amount_copied.
     kbind (modify_save callee (set_recv_result caller_id (ucast (send_operation send_args))
              amount_copied response_capacity lease_count)) (\<lambda>_.
     kbind (current_id callee) (\<lambda>callee_id.
     kbind (set_state caller (InReply callee_id)) (\<lambda>_.
     set_state callee Runnable)))))))))))"

subsection \<open>SEND\<close>

definition send_block :: "nat \<Rightarrow> TaskId \<Rightarrow> NextTask \<Rightarrow> (NextTask, UserError) kfun" where
  "send_block caller callee_id next_task =
     kbind (set_state caller (InSend callee_id)) (\<lambda>_. kret (combine Other next_task))"

definition send :: "kenv \<Rightarrow> nat \<Rightarrow> (NextTask, UserError) kfun" where
  "send env caller =
     kbind (get_task caller) (\<lambda>t.
     let callee_id = send_callee (as_send_args (save t)) in
     if callee_id = KERNEL then handle_kernel_message env caller
     else
       kbind (check_task_id_against_table callee_id) (\<lambda>callee.
       kbind (current_id caller) (\<lambda>caller_id.
       kbind (get_task callee) (\<lambda>callee_task.
       if can_accept_message_from (state callee_task) caller_id then
         kmatch (deliver caller callee)
           (\<lambda>_. kret (Specific callee))
           (\<lambda>it. kbind (kmap_err Unrecoverable (apply_to_dst it callee))
                   (\<lambda>next_task. send_block caller callee_id next_task))
       else send_block caller callee_id Same))))"

subsection \<open>RECV\<close>

definition recv_block :: "nat \<Rightarrow> TaskId option \<Rightarrow> NextTask \<Rightarrow> (NextTask, UserError) kfun" where
  "recv_block caller sender next_task =
     kbind (set_state caller (InRecv sender)) (\<lambda>_. kret (combine Other next_task))"

fun recv_open :: "nat \<Rightarrow> nat \<Rightarrow> TaskId \<Rightarrow> nat \<Rightarrow> NextTask \<Rightarrow> (NextTask, UserError) kfun" where
  "recv_open 0 caller caller_id last_pos next_task = khalt KDiverge"
| "recv_open (Suc fuel) caller caller_id last_pos next_task =
     kbind (priority_scan last_pos (\<lambda>t. is_sending_to (state t) caller_id)) (\<lambda>found.
     case found of
       None \<Rightarrow> recv_block caller None next_task
     | Some sender \<Rightarrow>
         kmatch (deliver sender caller)
           (\<lambda>_. kret next_task)
           (\<lambda>it. kbind (kmap_err Unrecoverable (apply_to_src it sender))
                   (\<lambda>wake_hint. recv_open fuel caller caller_id sender (combine next_task wake_hint))))"

definition recv_closed :: "nat \<Rightarrow> TaskId \<Rightarrow> TaskId \<Rightarrow> (NextTask, UserError) kfun" where
  "recv_closed caller caller_id sender_id =
     kbind (check_task_id_against_table sender_id) (\<lambda>sender_idx.
     kbind (get_task sender_idx) (\<lambda>sender.
     if is_sending_to (state sender) caller_id then
       kmatch (deliver sender_idx caller)
         (\<lambda>_. kret Same)
         (\<lambda>it. kbind (kmap_err Unrecoverable (apply_to_src it sender_idx))
                 (\<lambda>wake_hint. recv_block caller (Some sender_id) (combine Same wake_hint)))
     else recv_block caller (Some sender_id) Same))"

definition recv :: "nat \<Rightarrow> (NextTask, UserError) kfun" where
  "recv caller =
     kbind (get_task caller) (\<lambda>t.
     let (taken, t') = take_notifications t in
     kbind (put_task caller t') (\<lambda>_.
     case taken of
       Some firing \<Rightarrow>
         kbind (modify_save caller (set_recv_result KERNEL firing 0 0 0)) (\<lambda>_. kret Same)
     | None \<Rightarrow>
         kbind (current_id caller) (\<lambda>caller_id.
         let sender = specific_sender (as_recv_args (save t')) in
         if sender = Some KERNEL then recv_block caller sender Same
         else (case sender of
             Some sender_id \<Rightarrow> recv_closed caller caller_id sender_id
           | None \<Rightarrow>
               kbind (kget tasks) (\<lambda>ts.
               recv_open (Suc (length ts)) caller caller_id caller Same)))))"

subsection \<open>REPLY and REPLY-FAULT\<close>

definition reply :: "nat \<Rightarrow> (NextTask, FaultInfo) kfun" where
  "reply caller =
     kbind (get_task caller) (\<lambda>t.
     let reply_args = as_reply_args (save t) in
     kbind (current_id caller) (\<lambda>caller_id.
     kmatch (check_task_id_against_table (reply_callee reply_args))
       (\<lambda>callee.
         kbind (get_task callee) (\<lambda>callee_task.
         if state callee_task \<noteq> Healthy (InReply caller_id) then kret Same
         else
           kbind (klift (map_sum (\<lambda>_. SyscallUsage InvalidSlice) id (reply_message reply_args))) (\<lambda>src_slice.
           case send_response (as_send_args (save callee_task)) of
             Inl e \<Rightarrow> force_fault callee (SyscallUsage e)
           | Inr dest_slice \<Rightarrow>
               kmatch (safe_copy caller src_slice callee dest_slice)
                 (\<lambda>amount_copied.
                    kbind (modify_save callee
                             (set_send_response_and_length (reply_code reply_args) amount_copied)) (\<lambda>_.
                    kbind (set_state callee Runnable) (\<lambda>_. kret Same)))
                 (\<lambda>it. apply_to_dst it callee))))
       (\<lambda>e. case e of Recoverable _ hint \<Rightarrow> kret hint | Unrecoverable f \<Rightarrow> kerr f)))"

definition reply_fault :: "nat \<Rightarrow> (NextTask, FaultInfo) kfun" where
  "reply_fault caller =
     kbind (current_id caller) (\<lambda>caller_id.
     kbind (get_task caller) (\<lambda>t.
     let args = as_reply_fault_args (save t) in
     kbind (klift (map_sum SyscallUsage id (rf_reason args))) (\<lambda>reason.
     kmatch (check_task_id_against_table (rf_callee args))
       (\<lambda>callee.
         kbind (get_task callee) (\<lambda>callee_task.
         if state callee_task \<noteq> Healthy (InReply caller_id) then kret Same
         else kbind (force_fault callee (FromServer caller_id reason)) (\<lambda>_. kret Same)))
       (\<lambda>e. case e of Recoverable _ hint \<Rightarrow> kret hint | Unrecoverable f \<Rightarrow> kerr f))))"

subsection \<open>Timers\<close>

definition set_timer :: "Task \<Rightarrow> Timestamp \<Rightarrow> Task" where
  "set_timer t time =
     (let args = as_set_timer_args (save t) in
      case st_deadline args of
        Some dl \<Rightarrow>
          if dl \<le> time
          then snd (task_post (st_notification args) (task_set_timer None (st_notification args) t))
          else task_set_timer (st_deadline args) (st_notification args) t
      | None \<Rightarrow> task_set_timer (st_deadline args) (st_notification args) t)"

definition get_timer :: "Task \<Rightarrow> Timestamp \<Rightarrow> Task" where
  "get_timer t time =
     (let (dl, n) = task_timer t in t\<lparr>save := set_time_result time dl n (save t)\<rparr>)"

subsection \<open>Borrowing\<close>

definition borrow_lease :: "nat \<Rightarrow> nat \<Rightarrow> usize \<Rightarrow> usize \<Rightarrow> (ULease, UserError) kfun" where
  "borrow_lease caller lender number offset =
     kbind (current_id caller) (\<lambda>caller_id.
     kbind (get_task lender) (\<lambda>lender_task.
     if state lender_task \<noteq> Healthy (InReply caller_id) then kerr (Recoverable DEFECT Same)
     else (case send_lease_table (as_send_args (save lender_task)) of
         Inl e \<Rightarrow>
           kbind (force_fault lender (SyscallUsage e)) (\<lambda>wake_hint. kerr (Recoverable DEFECT wake_hint))
       | Inr leases \<Rightarrow>
           (case try_read lender_task LEASE_SIZE leases of
              Inl fault \<Rightarrow>
                kbind (force_fault lender fault) (\<lambda>wake_hint. kerr (Recoverable DEFECT wake_hint))
            | Inr table \<Rightarrow>
                if number < slice_len table then
                  kbind (kget mem) (\<lambda>m.
                  let lease = mem_lease m (slice_base table + number * LEASE_SIZE) in
                  case (checked_sub (length_bytes lease) offset, checked_add (base_address lease) offset) of
                    (Some off_len, Some off_addr) \<Rightarrow>
                      kret (lease\<lparr>base_address := off_addr, length_bytes := off_len\<rparr>)
                  | _ \<Rightarrow> kerr (usage OffsetOutOfRange))
                else kerr (usage LeaseOutOfRange)))))"

definition borrow_read :: "nat \<Rightarrow> (NextTask, UserError) kfun" where
  "borrow_read caller =
     kbind (get_task caller) (\<lambda>t.
     let args = as_borrow_args (save t) in
     kbind (klift (map_sum usage id (borrow_buffer args))) (\<lambda>buffer.
     kbind (check_task_id_against_table (lender_id args)) (\<lambda>lender.
     kbind (borrow_lease caller lender (lease_number args) (borrow_offset args)) (\<lambda>lease.
     if \<not> flags_contains (attributes lease) LEASE_READ then kerr (Recoverable DEFECT Same)
     else
       kmatch (safe_copy lender (uslice_from_lease lease) caller buffer)
         (\<lambda>n. kbind (modify_save caller (set_borrow_response_and_length 0 n)) (\<lambda>_. kret Same))
         (\<lambda>it. kbind (kmap_err Unrecoverable (apply_to_src it lender))
                 (\<lambda>wake_hint. kerr (Recoverable DEFECT wake_hint)))))))"

definition borrow_write :: "nat \<Rightarrow> (NextTask, UserError) kfun" where
  "borrow_write caller =
     kbind (get_task caller) (\<lambda>t.
     let args = as_borrow_args (save t) in
     kbind (klift (map_sum usage id (borrow_buffer args))) (\<lambda>buffer.
     kbind (check_task_id_against_table (lender_id args)) (\<lambda>lender.
     kbind (borrow_lease caller lender (lease_number args) (borrow_offset args)) (\<lambda>lease.
     if \<not> flags_contains (attributes lease) LEASE_WRITE then kerr (Recoverable DEFECT Same)
     else
       kmatch (safe_copy caller buffer lender (uslice_from_lease lease))
         (\<lambda>n. kbind (modify_save caller (set_borrow_response_and_length 0 n)) (\<lambda>_. kret Same))
         (\<lambda>it. kbind (kmap_err Unrecoverable (apply_to_dst it lender))
                 (\<lambda>wake_hint. kerr (Recoverable DEFECT wake_hint)))))))"

definition borrow_info :: "nat \<Rightarrow> (NextTask, UserError) kfun" where
  "borrow_info caller =
     kbind (get_task caller) (\<lambda>t.
     let args = as_borrow_args (save t) in
     kbind (check_task_id_against_table (lender_id args)) (\<lambda>lender.
     kbind (borrow_lease caller lender (lease_number args) 0) (\<lambda>lease.
     kbind (modify_save caller (set_borrow_info (attributes lease) (length_bytes lease))) (\<lambda>_.
     kret Same))))"

subsection \<open>Interrupts, panic, identifiers, notifications\<close>

definition irq_control :: "kenv \<Rightarrow> nat \<Rightarrow> (NextTask, UserError) kfun" where
  "irq_control env caller =
     kbind (get_task caller) (\<lambda>t.
     let args = as_irq_args (save t) in
     kbind (if irq_control_op args = 0 then kret disable_irq
            else if irq_control_op args = 1 then kret enable_irq
            else kerr (usage NoIrq)) (\<lambda>operation.
     case task_irq_lookup env \<lparr>io_task = word_of_nat caller, io_notification = irq_notification args\<rparr> of
       None \<Rightarrow> kerr (usage NoIrq)
     | Some irqs \<Rightarrow> kbind (for_each_irq operation irqs) (\<lambda>_. kret Same)))"

definition explicit_panic :: "nat \<Rightarrow> (NextTask, UserError) kfun" where
  "explicit_panic caller = force_fault caller Panic"

definition refresh_task_id :: "nat \<Rightarrow> (NextTask, UserError) kfun" where
  "refresh_task_id caller =
     kbind (get_task caller) (\<lambda>t.
     let peer = tid_index (as_refresh_task_id_args (save t)) in
     kbind (kget tasks) (\<lambda>ts.
     if peer < length ts then
       kbind (current_id peer) (\<lambda>tid.
       kbind (modify_save caller (set_refresh_task_id_result tid)) (\<lambda>_. kret Same))
     else kerr (usage TaskOutOfRange)))"

definition post :: "nat \<Rightarrow> (NextTask, UserError) kfun" where
  "post caller =
     kbind (get_task caller) (\<lambda>t.
     let args = as_post_args (save t) in
     kbind (check_task_id_against_table (post_task_id args)) (\<lambda>peer_idx.
     kbind (get_task peer_idx) (\<lambda>peer.
     let (woke, peer) = task_post (post_bits args) peer in
     kbind (put_task peer_idx peer) (\<lambda>_.
     kbind (modify_save caller (set_error_response 0)) (\<lambda>_.
     kbind (get_task caller) (\<lambda>c.
     kbind (get_task peer_idx) (\<lambda>p.
     if woke \<and> is_more_important_than (priority p) (priority c)
     then kret (Specific peer_idx) else kret Same)))))))"

fun irq_status_fold :: "u32 \<Rightarrow> u32 list \<Rightarrow> (u32, 'e) kfun" where
  "irq_status_fold status [] = kret status"
| "irq_status_fold status (i # irqs) =
     kbind (arch_irq_status i) (\<lambda>st. irq_status_fold (status OR st) irqs)"

definition irq_status :: "kenv \<Rightarrow> nat \<Rightarrow> (NextTask, UserError) kfun" where
  "irq_status env caller =
     kbind (get_task caller) (\<lambda>t.
     let bitmask = as_irq_status_args (save t) in
     case task_irq_lookup env \<lparr>io_task = word_of_nat caller, io_notification = bitmask\<rparr> of
       None \<Rightarrow> kerr (usage NoIrq)
     | Some irqs \<Rightarrow>
         kbind (irq_status_fold 0 irqs) (\<lambda>status.
         let posted = has_notifications t bitmask;
             status = (if posted then status OR IRQ_POSTED else status AND NOT IRQ_POSTED) in
         kbind (modify_save caller (set_irq_status_result status)) (\<lambda>_. kret Same)))"

subsection \<open>Dispatch and task switch\<close>

definition dispatch :: "kenv \<Rightarrow> u32 \<Rightarrow> nat \<Rightarrow> (NextTask, UserError) kfun" where
  "dispatch env nr cur =
     (case sysnum_try_from nr of
        Some Send \<Rightarrow> send env cur
      | Some Recv \<Rightarrow> recv cur
      | Some Reply \<Rightarrow> kmap_err Unrecoverable (reply cur)
      | Some SetTimer \<Rightarrow>
          kbind now (\<lambda>time. kbind (modify_task cur (\<lambda>t. set_timer t time)) (\<lambda>_. kret Same))
      | Some BorrowRead \<Rightarrow> borrow_read cur
      | Some BorrowWrite \<Rightarrow> borrow_write cur
      | Some BorrowInfo \<Rightarrow> borrow_info cur
      | Some IrqControl \<Rightarrow> irq_control env cur
      | Some PanicCall \<Rightarrow> explicit_panic cur
      | Some GetTimer \<Rightarrow>
          kbind now (\<lambda>time. kbind (modify_task cur (\<lambda>t. get_timer t time)) (\<lambda>_. kret Same))
      | Some RefreshTaskId \<Rightarrow> refresh_task_id cur
      | Some Post \<Rightarrow> post cur
      | Some ReplyFault \<Rightarrow> kmap_err Unrecoverable (reply_fault cur)
      | Some IrqStatusCall \<Rightarrow> irq_status env cur
      | None \<Rightarrow> kerr (usage BadSyscallNumber))"

definition safe_syscall_entry :: "kenv \<Rightarrow> u32 \<Rightarrow> nat \<Rightarrow> (NextTask, 'e) kfun" where
  "safe_syscall_entry env nr cur =
     kmatch (dispatch env nr cur)
       kret
       (\<lambda>e. case e of
          Recoverable code hint \<Rightarrow>
            kbind (modify_save cur (set_error_response code)) (\<lambda>_. kret hint)
        | Unrecoverable fault \<Rightarrow> force_fault cur fault)"

definition switch_to :: "kenv \<Rightarrow> nat \<Rightarrow> (unit, 'e) kfun" where
  "switch_to env i =
     kbind (get_task i) (\<lambda>t.
     kbind (apply_memory_protection env t) (\<lambda>_. set_current_task i))"

definition syscall_entry :: "kenv \<Rightarrow> u32 \<Rightarrow> (unit, 'e) kfun" where
  "syscall_entry env nr =
     kbind (kget current) (\<lambda>task.
     kbind (get_task task) (\<lambda>t.
     let idx = unat (desc_index (descriptor t)) in
     with_task_table (
       kbind (safe_syscall_entry env nr idx) (\<lambda>next.
       case next of
         Same \<Rightarrow> kret ()
       | Specific i \<Rightarrow> switch_to env i
       | Other \<Rightarrow> kbind (select idx) (\<lambda>next. switch_to env next)))))"

end
