(* ===== verification/Kern_Entry.thy ===== *)
theory Kern_Entry
  imports Kern_Syscalls
begin

section \<open>Interrupts, faults and startup\<close>

text \<open>
  The remaining entry points of the kernel: \<^verbatim>\<open>PendSV\<close>, the handler of hardware
  interrupts and the fault handlers of \<^verbatim>\<open>arch/arm_m.rs\<close>, and \<^verbatim>\<open>start_kernel\<close> of
  \<^verbatim>\<open>startup.rs\<close> down to the hand-over to assembly. What a handler is given by the hardware
  or by its assembly wrapper is an argument: the exception number in IPSR, and the
  floating-point registers the fault handler stores.
\<close>

subsection \<open>Deferred context switch and hardware interrupts\<close>

definition pendsv_entry :: "kenv \<Rightarrow> (unit, 'e) kfun" where
  "pendsv_entry env =
     kbind (kget current) (\<lambda>task.
     kbind (get_task task) (\<lambda>t.
     let current_idx = unat (desc_index (descriptor t)) in
     with_task_table (
       kbind (select current_idx) (\<lambda>next.
       kbind (get_task next) (\<lambda>next_task.
       kbind (apply_memory_protection env next_task) (\<lambda>_.
       set_current_task next))))))"

definition DefaultHandler :: "kenv \<Rightarrow> u32 \<Rightarrow> (unit, 'e) kfun" where
  "DefaultHandler env ipsr =
     (let exception_num = ipsr AND 0x1FF in
      if exception_num = 2 then khalt KPanic
      else if exception_num = 12 then khalt KPanic
      else if 16 \<le> exception_num then
        (let irq_num = exception_num - 16 in
         case irq_task_lookup env irq_num of
           None \<Rightarrow> khalt KPanic
         | Some owner \<Rightarrow>
             kbind (with_task_table (
               kbind (disable_irq irq_num) (\<lambda>_.
               kbind (get_task (unat (io_task owner))) (\<lambda>t.
               let (woke, t) = task_post (io_notification owner) t in
               kbind (put_task (unat (io_task owner)) t) (\<lambda>_. kret woke))))) (\<lambda>switch.
             if switch then pend_context_switch_from_isr else kret ()))
      else khalt KPanic)"

subsection \<open>Faults\<close>

datatype FaultType = MemoryManagement | BusFault | UsageFault

definition IACCVIOL :: u32 where "IACCVIOL = push_bit 0 1"
definition MSTKERR :: u32 where "MSTKERR = push_bit 4 1"
definition MMARVALID :: u32 where "MMARVALID = push_bit 7 1"
definition BFARVALID :: u32 where "BFARVALID = push_bit 15 1"
definition UNDEFINSTR :: u32 where "UNDEFINSTR = push_bit 16 1"
definition DIVBYZERO :: u32 where "DIVBYZERO = push_bit 25 1"

text \<open>All the flags of \<^verbatim>\<open>Cfsr\<close>; \<^verbatim>\<open>from_bits_truncate\<close> drops every other bit.\<close>

definition cfsr_all :: "arm_profile \<Rightarrow> u32" where
  "cfsr_all p = foldr (\<lambda>i w. push_bit i 1 OR w)
     ([0, 1, 3, 4, 5, 7, 8, 9, 10, 11, 12, 13, 15, 16, 17, 18, 19, 24, 25] @
      (if p = ARMv8M then [20] else [])) 0"

definition fault_of :: "FaultType \<Rightarrow> u32 \<Rightarrow> sys_regs \<Rightarrow> u32 \<Rightarrow> FaultInfo \<times> bool" where
  "fault_of fault_type c regs stack_ptr =
     (case fault_type of
        MemoryManagement \<Rightarrow>
          if flags_contains c MSTKERR then (StackOverflow stack_ptr, True)
          else if flags_contains c IACCVIOL then (IllegalText, False)
          else (MemoryAccess (if flags_contains c MMARVALID then Some (mmfar regs) else None) User, False)
      | BusFault \<Rightarrow>
          (BusError (if flags_contains c BFARVALID then Some (bfar regs) else None) User, False)
      | UsageFault \<Rightarrow>
          (if flags_contains c DIVBYZERO then DivideByZero
           else if flags_contains c UNDEFINSTR then IllegalInstruction
           else InvalidOperation c, False))"

text \<open>The end of both handlers: fault the task and switch to another one.\<close>

definition fault_and_switch :: "kenv \<Rightarrow> nat \<Rightarrow> FaultInfo \<Rightarrow> (unit, 'e) kfun" where
  "fault_and_switch env idx fault = with_task_table (
     kbind (force_fault idx fault) (\<lambda>hint.
     kbind (case hint of Specific i \<Rightarrow> kret i | Other \<Rightarrow> select idx | Same \<Rightarrow> kret idx) (\<lambda>next.
     if next = idx then khalt KPanic
     else kbind (get_task next) (\<lambda>t.
       kbind (apply_memory_protection env t) (\<lambda>_. set_current_task next)))))"

definition handle_fault_v6 :: "kenv \<Rightarrow> (unit, 'e) kfun" where
  "handle_fault_v6 env =
     kbind (kget current) (\<lambda>task.
     kbind (get_task task) (\<lambda>t.
     let from_thread_mode = exc_return (save t) AND 8 \<noteq> 0;
         idx = unat (desc_index (descriptor t)) in
     if \<not> from_thread_mode then khalt KPanic
     else
       kbind (kmodify (\<lambda>s. s\<lparr>sysr := (sysr s)\<lparr>shcsr := shcsr (sysr s) AND NOT (push_bit 15 1)\<rparr>\<rparr>)) (\<lambda>_.
       fault_and_switch env idx (InvalidOperation 0))))"

text \<open>CFSR is write-one-to-clear.\<close>

definition handle_fault :: "kenv \<Rightarrow> FaultType \<Rightarrow> u32 list \<Rightarrow> (unit, 'e) kfun" where
  "handle_fault env fault_type fpregs =
     kbind (kget sysr) (\<lambda>regs.
     let c = cfsr regs AND cfsr_all (profile env) in
     kbind (kget current) (\<lambda>task.
     kbind (get_task task) (\<lambda>t.
     let idx = unat (desc_index (descriptor t));
         from_thread_mode = exc_return (save t) AND 8 \<noteq> 0 in
     if \<not> from_thread_mode then khalt KPanic
     else
       kbind (kmodify (\<lambda>s. s\<lparr>sysr := (sysr s)\<lparr>shcsr := shcsr (sysr s) AND NOT (push_bit 12 15)\<rparr>\<rparr>)) (\<lambda>_.
       let (fault, stackinvalid) = fault_of fault_type c regs (psp (save t)) in
       kbind (kmodify (\<lambda>s. s\<lparr>sysr := (sysr s)\<lparr>cfsr := cfsr (sysr s) AND NOT c\<rparr>\<rparr>)) (\<lambda>_.
       kbind (if stackinvalid
              then kmodify (\<lambda>s. s\<lparr>sysr := (sysr s)\<lparr>fpccr := fpccr (sysr s) AND NOT 1\<rparr>\<rparr>)
              else kret ()) (\<lambda>_.
       kbind (modify_save task (\<lambda>sv. sv\<lparr>s16_s31 := fpregs\<rparr>)) (\<lambda>_.
       fault_and_switch env idx fault)))))))"

subsection \<open>Startup\<close>

definition set_clock_freq :: "u32 \<Rightarrow> (unit, 'e) kfun" where
  "set_clock_freq tick_divisor =
     kmodify (\<lambda>s. s\<lparr>sysr := (sysr s)\<lparr>clock_freq_khz := tick_divisor\<rparr>\<rparr>)"

fun reinitialize_all :: "kenv \<Rightarrow> nat list \<Rightarrow> (unit, 'e) kfun" where
  "reinitialize_all env [] = kret ()"
| "reinitialize_all env (i # is) = kbind (arch_reinitialize env i) (\<lambda>_. reinitialize_all env is)"

text \<open>
  \<^verbatim>\<open>start_first_task\<close>: exception priorities, fault enables, the tick timer, the MPU, the
  current task and its stack pointer; then assembly enters the task. Writing the priority of
  an interrupt past the register array panics.
\<close>

definition setup_exceptions :: "kenv \<Rightarrow> sys_regs \<Rightarrow> sys_regs option" where
  "setup_exceptions env r =
     (let r = (case profile env of
                 ARMv7M \<Rightarrow> r\<lparr>shcsr := shcsr r OR push_bit 16 7\<rparr>
               | ARMv8M \<Rightarrow> r\<lparr>shcsr := shcsr r OR push_bit 16 15\<rparr>
               | ARMv6M \<Rightarrow> r) in
      case profile env of
        ARMv6M \<Rightarrow>
          if length (shpr r) < 2 \<or> length (ipr r) < 8 then None
          else Some (r\<lparr>
            shpr := (shpr r)[0 := shpr r ! 0 OR push_bit 30 3,
                             1 := shpr r ! 1 OR push_bit 22 3 OR push_bit 30 3],
            ipr := replicate 8 0xFFFFFFFF @ drop 8 (ipr r)\<rparr>)
      | _ \<Rightarrow>
          let irq_count = (unat (ictr r AND 0xF) + 1) * 32 in
          if length (shpr r) < 12 \<or> length (ipr r) < irq_count then None
          else Some (r\<lparr>
            shpr := (shpr r)[0 := 0, 1 := 0, 2 := 0, 7 := 0xFF, 10 := 0xFF, 11 := 0xFF],
            ccr := ccr r OR push_bit 4 1,
            ipr := replicate irq_count 0xFF @ drop irq_count (ipr r)\<rparr>))"

definition start_first_task :: "kenv \<Rightarrow> u32 \<Rightarrow> nat \<Rightarrow> (unit, 'e) kfun" where
  "start_first_task env tick_divisor i =
     kbind (kget sysr) (\<lambda>r0.
     case setup_exceptions env r0 of
       None \<Rightarrow> khalt KPanic
     | Some r \<Rightarrow>
         if tick_divisor = 0 then khalt KPanic
         else
           kbind (get_task i) (\<lambda>t.
           kmodify (\<lambda>s. s\<lparr>
             sysr := r\<lparr>syst_rvr := tick_divisor - 1, syst_cvr := 0, syst_csr := syst_csr r OR 7,
               msplim := (if profile env = ARMv8M then stack_base env else msplim r),
               psp_reg := psp (save t)\<rparr>,
             mpu := (mpu s)\<lparr>mpu_ctrl := 5\<rparr>,
             current := i\<rparr>)))"

definition start_kernel :: "kenv \<Rightarrow> TaskDesc list \<Rightarrow> u32 \<Rightarrow> (unit, 'e) kfun" where
  "start_kernel env task_descs tick_divisor =
     kbind (set_clock_freq tick_divisor) (\<lambda>_.
     kbind (kmodify (\<lambda>s. s\<lparr>tasks := map from_descriptor task_descs\<rparr>)) (\<lambda>_.
     kbind (reinitialize_all env [0..<length task_descs]) (\<lambda>_.
     if length task_descs = 0 then khalt KPanic
     else
       kbind (select (length task_descs - 1)) (\<lambda>first_task_index.
       kbind (get_task first_task_index) (\<lambda>t.
       kbind (apply_memory_protection env t) (\<lambda>_.
       kbind (kmodify (\<lambda>s. s\<lparr>table_in_use := False\<rparr>)) (\<lambda>_.
       start_first_task env tick_divisor first_task_index)))))))"

end
