(* ===== verification/Kern_Inv.thy ===== *)
theory Kern_Inv
  imports Kern_Entry
begin

section \<open>The kernel invariant\<close>

text \<open>
  What every entry point of the kernel relies on and keeps. \<open>tinv\<close> is about the task table:
  its size fits the ten index bits of a task identifier, a task's descriptor carries its
  index, the regions do not reach the end of the address space, and a healthy task that is
  blocked on a peer names the \<^emph>\<open>current\<close> incarnation of that peer. \<open>kframe\<close> is what no
  system call changes. \<open>image_ok\<close> collects what the build system guarantees of an image.
\<close>

definition task_id :: "Task list \<Rightarrow> nat \<Rightarrow> TaskId" where
  "task_id ts i = for_index_and_gen i (task_generation (ts ! i))"

definition live_id :: "Task list \<Rightarrow> TaskId \<Rightarrow> bool" where
  "live_id ts p \<longleftrightarrow> tid_index p < length ts \<and> task_generation (ts ! tid_index p) = tid_generation p"

definition peer_ok :: "Task list \<Rightarrow> TaskState \<Rightarrow> bool" where
  "peer_ok ts st = (case st of
     Healthy (InSend p) \<Rightarrow> live_id ts p
   | Healthy (InReply p) \<Rightarrow> live_id ts p
   | Healthy (InRecv (Some p)) \<Rightarrow> p = KERNEL \<or> live_id ts p
   | _ \<Rightarrow> True)"

definition task_ok :: "Task list \<Rightarrow> nat \<Rightarrow> Task \<Rightarrow> bool" where
  "task_ok ts i t \<longleftrightarrow> unat (desc_index (descriptor t)) = i \<and> regions_wf t \<and> peer_ok ts (state t)"

definition tinv :: "Task list \<Rightarrow> bool" where
  "tinv ts \<longleftrightarrow> 0 < length ts \<and> length ts \<le> 1023 \<and> (\<forall>i < length ts. task_ok ts i (ts ! i))"

definition same_task :: "Task \<Rightarrow> Task \<Rightarrow> bool" where
  "same_task t t' \<longleftrightarrow> descriptor t' = descriptor t \<and> priority t' = priority t"

text \<open>
  \<open>kframe b s s'\<close>: sizes, descriptors, priorities and the registers that belong to context
  switches stay as they are and, when \<open>b\<close> holds, memory changes only where some task
  may write.
\<close>

definition mem_frame :: "kstate \<Rightarrow> kstate \<Rightarrow> bool" where
  "mem_frame s s' \<longleftrightarrow>
     (\<forall>a. mem s' a \<noteq> mem s a \<longrightarrow> (\<exists>i < length (tasks s). writable_byte (tasks s ! i) a))"

definition kframe :: "bool \<Rightarrow> kstate \<Rightarrow> kstate \<Rightarrow> bool" where
  "kframe b s s' \<longleftrightarrow> length (tasks s') = length (tasks s)
     \<and> (\<forall>i < length (tasks s). same_task (tasks s ! i) (tasks s' ! i))
     \<and> current s' = current s \<and> table_in_use s' = table_in_use s \<and> mpu s' = mpu s
     \<and> sysr s' = sysr s \<and> pendsv s' = pendsv s
     \<and> ticks0 s' = ticks0 s \<and> ticks1 s' = ticks1 s
     \<and> length (nvic_iser s') = length (nvic_iser s) \<and> length (nvic_ispr s') = length (nvic_ispr s)
     \<and> (b \<longrightarrow> mem_frame s s')"

lemma same_task_refl [simp]: "same_task t t"
  by (simp add: same_task_def)

lemma same_task_update [simp]:
  "same_task t (t'\<lparr>state := st\<rparr>) = same_task t t'"
  "same_task t (t'\<lparr>save := sv\<rparr>) = same_task t t'"
  "same_task t (t'\<lparr>notifications := n\<rparr>) = same_task t t'"
  "same_task t (t'\<lparr>timer := tm\<rparr>) = same_task t t'"
  "same_task t (t'\<lparr>generation := g\<rparr>) = same_task t t'"
  by (simp_all add: same_task_def)

lemma same_task_writable: "same_task t t' \<Longrightarrow> writable_byte t' a = writable_byte t a"
  by (simp add: same_task_def writable_byte_def region_table_def)

lemma same_task_trans: "same_task t t' \<Longrightarrow> same_task t' t'' \<Longrightarrow> same_task t t''"
  by (simp add: same_task_def)

lemma kframe_refl [simp]: "kframe b s s"
  by (simp add: kframe_def mem_frame_def)

lemma mem_frame_trans:
  assumes "mem_frame s s'" and "mem_frame s' s''" and "length (tasks s') = length (tasks s)"
    and "\<forall>i < length (tasks s). same_task (tasks s ! i) (tasks s' ! i)"
  shows "mem_frame s s''"
  unfolding mem_frame_def
proof (intro allI impI)
  fix a assume a: "mem s'' a \<noteq> mem s a"
  show "\<exists>i < length (tasks s). writable_byte (tasks s ! i) a"
  proof (cases "mem s' a = mem s a")
    case True
    with a assms(2) obtain i where "i < length (tasks s')" "writable_byte (tasks s' ! i) a"
      unfolding mem_frame_def by metis
    with assms(3,4) show ?thesis using same_task_writable by (intro exI [of _ i]) auto
  next
    case False
    with assms(1) show ?thesis by (auto simp: mem_frame_def)
  qed
qed

lemma kframe_trans: "kframe b s s' \<Longrightarrow> kframe b s' s'' \<Longrightarrow> kframe b s s''"
  by (auto simp: kframe_def intro: same_task_trans mem_frame_trans)

lemma kframe_weaken: "kframe True s s' \<Longrightarrow> kframe b s s'"
  by (simp add: kframe_def)

lemma kframe_update:
  "kframe b s s' \<Longrightarrow> i < length (tasks s) \<Longrightarrow> same_task (tasks s' ! i) t \<Longrightarrow>
     kframe b s (s'\<lparr>tasks := (tasks s')[i := t]\<rparr>)"
  by (auto simp: kframe_def mem_frame_def nth_list_update intro: same_task_trans)

lemma kframe_length: "kframe b s s' \<Longrightarrow> length (tasks s') = length (tasks s)"
  by (simp add: kframe_def)

text \<open>Identifiers.\<close>

lemma live_task_id: "i < length ts \<Longrightarrow> length ts \<le> 1023 \<Longrightarrow> live_id ts (task_id ts i)"
  by (simp add: live_id_def task_id_def for_index_and_gen_index for_index_and_gen_generation
      gen_ok_task_generation)

lemma live_id_eq: "live_id ts p \<Longrightarrow> p = task_id ts (tid_index p)"
  by (simp add: live_id_def task_id_def for_index_and_gen_tid)

lemma live_id_cong:
  "length ts' = length ts \<Longrightarrow> (\<And>i. i < length ts \<Longrightarrow> generation (ts' ! i) = generation (ts ! i)) \<Longrightarrow>
     live_id ts' p = live_id ts p"
  by (auto simp: live_id_def task_generation_def)

lemma peer_ok_cong:
  "length ts' = length ts \<Longrightarrow> (\<And>i. i < length ts \<Longrightarrow> generation (ts' ! i) = generation (ts ! i)) \<Longrightarrow>
     peer_ok ts' st = peer_ok ts st"
  using live_id_cong [of ts' ts]
  by (simp add: peer_ok_def split: TaskState.splits SchedState.splits option.splits)

lemma peer_ok_simps [simp]:
  "peer_ok ts (Healthy Runnable)" "peer_ok ts (Healthy Stopped)" "peer_ok ts (Faulted f sc)"
  "peer_ok ts (Healthy (InSend p)) = live_id ts p"
  "peer_ok ts (Healthy (InReply p)) = live_id ts p"
  "peer_ok ts (Healthy (InRecv None))"
  "peer_ok ts (Healthy (InRecv (Some p))) = (p = KERNEL \<or> live_id ts p)"
  by (simp_all add: peer_ok_def)

text \<open>Changing one task without changing its generation.\<close>

lemma tinv_update:
  assumes "tinv ts" and "i < length ts" and "same_task (ts ! i) t"
    and "generation t = generation (ts ! i)" and "peer_ok ts (state t)"
  shows "tinv (ts[i := t])"
proof -
  have g: "generation (ts[i := t] ! j) = generation (ts ! j)" if "j < length ts" for j
    using assms(4) that by (cases "i = j") simp_all
  have "peer_ok (ts[i := t]) st = peer_ok ts st" for st
    by (rule peer_ok_cong) (simp_all add: g)
  with assms show ?thesis
    by (auto simp: tinv_def task_ok_def same_task_def regions_wf_def region_table_def nth_list_update)
qed

lemma tinv_task: "tinv ts \<Longrightarrow> i < length ts \<Longrightarrow> task_ok ts i (ts ! i)"
  by (simp add: tinv_def)

lemma tinv_length: "tinv ts \<Longrightarrow> 0 < length ts" "tinv ts \<Longrightarrow> length ts \<le> 1023"
  by (simp_all add: tinv_def)

lemma tinv_index: "tinv ts \<Longrightarrow> i < length ts \<Longrightarrow> unat (desc_index (descriptor (ts ! i))) = i"
  by (simp add: tinv_def task_ok_def)

subsection \<open>Generic transformations of one task\<close>

text \<open>\<open>quiet t t'\<close>: the same task with the same generation, in the same state or woken.\<close>

definition quiet :: "Task \<Rightarrow> Task \<Rightarrow> bool" where
  "quiet t t' \<longleftrightarrow> same_task t t' \<and> generation t' = generation t
     \<and> (state t' = state t \<or> can_accept_notification (state t) \<and> is_runnable t')"

lemma quiet_refl [simp]: "quiet t t"
  by (simp add: quiet_def)

lemma quiet_trans: "quiet t t' \<Longrightarrow> quiet t' t'' \<Longrightarrow> quiet t t''"
  by (auto simp: quiet_def is_runnable_def can_accept_notification_def intro: same_task_trans)

lemma quiet_save [simp]: "quiet t (t\<lparr>save := sv\<rparr>)"
  by (simp add: quiet_def)

lemma quiet_post: "quiet t (snd (task_post n t))"
  using task_post_state [of n t] task_post_frame [of n t]
  by (auto simp: quiet_def same_task_def is_runnable_def can_accept_notification_def)

lemma quiet_runnable: "quiet t t' \<Longrightarrow> is_runnable t \<Longrightarrow> is_runnable t'"
  by (auto simp: quiet_def is_runnable_def)

lemma quiet_peer_ok: "quiet t t' \<Longrightarrow> peer_ok ts (state t) \<Longrightarrow> peer_ok ts (state t')"
  by (auto simp: quiet_def is_runnable_def)

lemma tinv_quiet: "tinv ts \<Longrightarrow> i < length ts \<Longrightarrow> quiet (ts ! i) t \<Longrightarrow> tinv (ts[i := t])"
  using tinv_task [of ts i]
  by (intro tinv_update) (auto simp: quiet_def task_ok_def is_runnable_def)

subsection \<open>Writes to memory\<close>

lemma mem_write_changed:
  assumes "mem_write m base bs a \<noteq> m a" and "length bs \<le> n" and "unat base + n < 2 ^ 32"
  shows "base \<le> a" and "unat a < unat base + n"
proof -
  have "unat (a - base) < n"
    using assms(1,2) by (auto simp: mem_write_def split: if_splits)
  then show "base \<le> a" and "unat a < unat base + n"
    using assms(3) word_offset_in_range [of a base n] by (simp_all add: word_le_nat_alt)
qed

lemma kframe_mem_write:
  assumes "i < length (tasks s)" and "regions_wf (tasks s ! i)"
    and "try_write (tasks s ! i) sz us = Inr us'" and "slice_ok sz us"
    and "length bs \<le> unat (slice_len us) * unat sz"
  shows "kframe b s (s\<lparr>mem := mem_write (mem s) (slice_base us) bs\<rparr>)"
proof -
  have "writable_byte (tasks s ! i) a" if "mem_write (mem s) (slice_base us) bs a \<noteq> mem s a" for a
    using mem_write_changed [OF that assms(5)] assms(4)
    by (intro try_write_bytes [OF assms(3,2,4)])
      (simp_all add: word_less_nat_alt unat_end_addr slice_ok_def)
  with assms(1) show ?thesis by (auto simp: kframe_def mem_frame_def)
qed

lemma length_mem_bytes [simp]: "length (mem_bytes m base n) = n"
  by (simp add: mem_bytes_def)

lemma err_of_simps [simp]: "err_of (Inl e) = Some e" "err_of (Inr a) = None"
  by (simp_all add: err_of_def)

lemma wp_copy_with:
  assumes "tinv (tasks s)" and "i < length (tasks s)" and "j < length (tasks s)" and "i \<noteq> j"
    and "b \<Longrightarrow> slice_ok 1 dst"
    and "\<And>n s'. kframe b s s' \<Longrightarrow> tasks s' = tasks s \<Longrightarrow> Q n s'"
    and "\<And>it. fault_src it \<noteq> None \<or> fault_dst it \<noteq> None \<Longrightarrow> E it s"
  shows "wp (copy_with validate i src j dst) Q E H s"
proof (cases "validate (tasks s ! i) 1 src")
  case (Inl e)
  then show ?thesis
    using assms(2-4,7) by (simp add: copy_with_def wp_simps Let_def split: sum.splits)
next
  case (Inr f)
  show ?thesis
  proof (cases "copy_dst (tasks s ! j) src dst")
    case (Inl e)
    with Inr show ?thesis
      using assms(2-4,7) by (simp add: copy_with_def wp_simps Let_def)
  next
    case d: (Inr t)
    let ?s = "s\<lparr>mem := mem_write (mem s) (slice_base t)
      (mem_bytes (mem s) (slice_base f) (unat (min (slice_len src) (slice_len dst))))\<rparr>"
    from d have w: "try_write (tasks s ! j) 1 dst = Inr t" and t: "t = dst"
      by (auto simp: copy_dst_def dest: try_write_slice split: if_splits)
    have l: "unat (min (slice_len src) (slice_len dst)) \<le> unat (slice_len dst) * unat (1 :: u32)"
      by (simp add: min_def word_le_nat_alt)
    have "kframe b s ?s"
    proof (cases b)
      case True
      with l show ?thesis
        unfolding t using tinv_task [OF assms(1,3)] assms(3,5)
        by (intro kframe_mem_write [OF _ _ w]) (simp_all add: task_ok_def)
    qed (simp add: kframe_def)
    with Inr d show ?thesis
      using assms(2-4,6) by (simp add: copy_with_def wp_simps Let_def)
  qed
qed

subsection \<open>Faults\<close>

text \<open>
  What forcing a fault on task \<open>i\<close> leaves behind: \<open>i\<close> faulted, every other task quiet, and
  a hint that names the supervisor only if the fault notification woke it.
\<close>

definition ff_post :: "kstate \<Rightarrow> nat \<Rightarrow> NextTask \<Rightarrow> kstate \<Rightarrow> bool" where
  "ff_post s i h s' \<longleftrightarrow> kframe True s s' \<and> tinv (tasks s')
     \<and> generation (tasks s' ! i) = generation (tasks s ! i)
     \<and> (\<exists>f sc. state (tasks s' ! i) = Faulted f sc)
     \<and> (h = Other \<or> h = Specific 0 \<and> i \<noteq> 0 \<and> \<not> is_runnable (tasks s ! 0) \<and> is_runnable (tasks s' ! 0))
     \<and> (\<forall>j < length (tasks s). j \<noteq> i \<longrightarrow> quiet (tasks s ! j) (tasks s' ! j))"

lemma task_force_fault_frame [simp]:
  "same_task t (task_force_fault f t)" "generation (task_force_fault f t) = generation t"
  "\<exists>f' sc. state (task_force_fault f t) = Faulted f' sc"
  by (auto simp: task_force_fault_def same_task_def split: TaskState.splits)

lemma task_post_faulted: "state t = Faulted f sc \<Longrightarrow> state (snd (task_post n t)) = Faulted f sc"
  by (simp add: task_post_def can_accept_notification_def)

lemma wp_force_fault:
  assumes "tinv (tasks s)" and "i < length (tasks s)"
    and "\<And>h s'. ff_post s i h s' \<Longrightarrow> Q h s'"
  shows "wp (force_fault i f) Q E H s"
proof -
  define ts where "ts = (tasks s)[i := task_force_fault f (tasks s ! i)]"
  obtain w t0 where p: "task_post HUBRIS_FAULT_NOTIFICATION (ts ! 0) = (w, t0)" by fastforce
  have q: "quiet (ts ! 0) t0" using quiet_post [of "ts ! 0" HUBRIS_FAULT_NOTIFICATION] p by simp
  have n: "0 < length (tasks s)" "length ts = length (tasks s)"
    using assms(1) by (simp_all add: tinv_def ts_def)
  let ?s = "s\<lparr>tasks := ts[0 := t0]\<rparr>"
  have "\<exists>f' sc. state (task_force_fault f (tasks s ! i)) = Faulted f' sc" by simp
  then obtain f' sc where fl: "state (task_force_fault f (tasks s ! i)) = Faulted f' sc" by blast
  have ti: "tinv ts"
    unfolding ts_def using assms(1,2) fl by (intro tinv_update) simp_all
  have fr: "kframe True s ?s"
  proof -
    have "kframe True s (s\<lparr>tasks := ts\<rparr>)"
      unfolding ts_def using assms(2) by (intro kframe_update) simp_all
    from kframe_update [OF this n(1), of t0] q show ?thesis by (simp add: quiet_def)
  qed
  have fi: "state (ts[0 := t0] ! i) = Faulted f' sc"
  proof (cases "i = 0")
    case True
    then have "state (ts ! 0) = Faulted f' sc" using fl n by (simp add: ts_def)
    with p have "state t0 = Faulted f' sc" using task_post_faulted by (metis snd_conv)
    with True n show ?thesis by simp
  qed (simp add: ts_def assms(2) fl)
  have g: "generation (ts[0 := t0] ! i) = generation (tasks s ! i)"
    using q assms(2) n by (cases "i = 0") (simp_all add: ts_def quiet_def)
  have h: "i \<noteq> 0 \<and> \<not> is_runnable (tasks s ! 0) \<and> is_runnable (ts[0 := t0] ! 0)" if w
  proof -
    have "can_accept_notification (state (ts ! 0))" "is_runnable t0"
      using that p task_post_wakes_iff [of HUBRIS_FAULT_NOTIFICATION "ts ! 0"]
        task_post_woken(1) [of HUBRIS_FAULT_NOTIFICATION "ts ! 0" t0] by (simp_all add: is_runnable_def)
    with fl n assms(2) show ?thesis
      by (cases "i = 0") (auto simp: ts_def can_accept_notification_def is_runnable_def)
  qed
  have o: "quiet (tasks s ! j) (ts[0 := t0] ! j)" if "j < length (tasks s)" "j \<noteq> i" for j
    using that q n by (cases "j = 0") (simp_all add: ts_def)
  have "ff_post s i (if w then Specific 0 else Other) ?s"
    unfolding ff_post_def using fr tinv_quiet [OF ti _ q] n fi g h o by auto
  from assms(3) [OF this] show ?thesis
    using assms(2) n p by (auto simp: force_fault_def wp_simps Let_def simp flip: ts_def)
qed

lemma wp_apply_to_dst:
  assumes "tinv (tasks s)" and "i < length (tasks s)"
    and "\<And>h s'. fault_dst it \<noteq> None \<Longrightarrow> fault_src it = None \<Longrightarrow> ff_post s i h s' \<Longrightarrow> Q h s'"
    and "\<And>f h s'. fault_dst it \<noteq> None \<Longrightarrow> fault_src it = Some f \<Longrightarrow> ff_post s i h s' \<Longrightarrow> E f s'"
    and "\<And>f. fault_dst it = None \<Longrightarrow> fault_src it = Some f \<Longrightarrow> E f s"
    and "fault_src it \<noteq> None \<or> fault_dst it \<noteq> None"
  shows "wp (apply_to_dst it i) Q E H s"
proof (cases "fault_dst it")
  case None
  with assms(5,6) show ?thesis by (auto simp: apply_to_dst_def wp_simps)
next
  case (Some f)
  have "wp (force_fault i f) (\<lambda>h s'. wp (case fault_src it of None \<Rightarrow> kret h | Some f \<Rightarrow> kerr f) Q E H s') E H s"
    by (rule wp_force_fault [OF assms(1,2)])
      (use Some assms(3,4) in \<open>simp add: wp_simps split: option.splits\<close>)
  with Some show ?thesis by (simp add: apply_to_dst_def wp_simps)
qed

lemma apply_to_src_swap: "apply_to_src it i = apply_to_dst \<lparr>fault_src = fault_dst it, fault_dst = fault_src it\<rparr> i"
  by (simp add: apply_to_src_def apply_to_dst_def)

lemma wp_apply_to_src:
  assumes "tinv (tasks s)" and "i < length (tasks s)"
    and "\<And>h s'. fault_src it \<noteq> None \<Longrightarrow> fault_dst it = None \<Longrightarrow> ff_post s i h s' \<Longrightarrow> Q h s'"
    and "\<And>f h s'. fault_src it \<noteq> None \<Longrightarrow> fault_dst it = Some f \<Longrightarrow> ff_post s i h s' \<Longrightarrow> E f s'"
    and "\<And>f. fault_src it = None \<Longrightarrow> fault_dst it = Some f \<Longrightarrow> E f s"
    and "fault_src it \<noteq> None \<or> fault_dst it \<noteq> None"
  shows "wp (apply_to_src it i) Q E H s"
  unfolding apply_to_src_swap by (rule wp_apply_to_dst) (use assms in auto)

subsection \<open>Identifiers, state changes and argument slices\<close>

lemma case_map_sum [simp]:
  "(case map_sum f id r of Inl e \<Rightarrow> g e | Inr a \<Rightarrow> h a) = (case r of Inl e \<Rightarrow> g (f e) | Inr a \<Rightarrow> h a)"
  by (simp split: sum.splits)

lemma wp_current_id [wp_simps]:
  "wp (current_id i) Q E H s = (if i < length (tasks s) then Q (task_id (tasks s) i) s else H KPanic)"
  by (simp add: current_id_def wp_simps task_id_def)

lemma wp_check_task_id [wp_simps]:
  "wp (check_task_id_against_table p) Q E H s =
     (if tid_index p < length (tasks s)
      then (if live_id (tasks s) p then Q (tid_index p) s
            else E (Recoverable (dead_response_code (task_generation (tasks s ! tid_index p))) Same) s)
      else E (Unrecoverable (SyscallUsage TaskOutOfRange)) s)"
  by (simp add: check_task_id_against_table_def wp_simps Let_def live_id_def)

definition healthy :: "TaskState \<Rightarrow> bool" where
  "healthy st = (case st of Healthy _ \<Rightarrow> True | _ \<Rightarrow> False)"

lemma healthy_simps [simp]: "healthy (Healthy sc)" "\<not> healthy (Faulted f sc)"
  by (simp_all add: healthy_def)

lemma wp_set_state [wp_simps]:
  "wp (set_state i sc) Q E H s =
     (if i < length (tasks s) \<and> healthy (state (tasks s ! i))
      then Q () (s\<lparr>tasks := (tasks s)[i := (tasks s ! i)\<lparr>state := Healthy sc\<rparr>]\<rparr>) else H KPanic)"
  by (auto simp: set_state_def set_healthy_state_def wp_simps split: TaskState.splits)

lemma byte_slice_ok: "byte_slice base len = Inr us \<Longrightarrow> slice_ok 1 us"
  using from_raw_iff [of 1 1 base len us] by (metis one_neq_zero)

lemma lease_slice_ok: "lease_slice base len = Inr us \<Longrightarrow> slice_ok LEASE_SIZE us"
  using from_raw_iff [of LEASE_SIZE 4 base len us] by (auto simp: LEASE_SIZE_def)

lemmas args_defs = as_send_args_def as_recv_args_def as_reply_args_def as_borrow_args_def

lemma arg_slices_ok:
  "send_message (as_send_args sv) = Inr us \<Longrightarrow> slice_ok 1 us"
  "send_response (as_send_args sv) = Inr us \<Longrightarrow> slice_ok 1 us"
  "send_lease_table (as_send_args sv) = Inr us \<Longrightarrow> slice_ok LEASE_SIZE us"
  "recv_buffer (as_recv_args sv) = Inr us \<Longrightarrow> slice_ok 1 us"
  "reply_message (as_reply_args sv) = Inr us \<Longrightarrow> slice_ok 1 us"
  "borrow_buffer (as_borrow_args sv) = Inr us \<Longrightarrow> slice_ok 1 us"
  by (simp_all add: args_defs byte_slice_ok lease_slice_ok)

subsection \<open>Delivery\<close>

definition dl_post :: "kstate \<Rightarrow> nat \<Rightarrow> nat \<Rightarrow> kstate \<Rightarrow> bool" where
  "dl_post s c e s' \<longleftrightarrow> kframe True s s' \<and> tinv (tasks s')
     \<and> state (tasks s' ! c) = Healthy (InReply (task_id (tasks s) e))
     \<and> is_runnable (tasks s' ! e)
     \<and> (\<forall>j < length (tasks s). generation (tasks s' ! j) = generation (tasks s ! j)
          \<and> (j \<noteq> c \<longrightarrow> j \<noteq> e \<longrightarrow> tasks s' ! j = tasks s ! j))"

lemma dl_postI:
  assumes "tinv (tasks s)" and "c < length (tasks s)" and "e < length (tasks s)" and "c \<noteq> e"
    and "kframe True s s1" and "tasks s1 = tasks s"
  shows "dl_post s c e (s1\<lparr>tasks := (tasks s)[e := (tasks s ! e)\<lparr>save := sv\<rparr>,
      c := (tasks s ! c)\<lparr>state := Healthy (InReply (task_id (tasks s) e))\<rparr>,
      e := (tasks s ! e)\<lparr>save := sv, state := Healthy Runnable\<rparr>]\<rparr>)"
    (is "dl_post s c e (s1\<lparr>tasks := ?ts\<rparr>)")
proof -
  have eq: "?ts = (tasks s)[c := (tasks s ! c)\<lparr>state := Healthy (InReply (task_id (tasks s) e))\<rparr>,
      e := (tasks s ! e)\<lparr>save := sv, state := Healthy Runnable\<rparr>]"
    using assms(4) by (simp add: list_update_swap [of e c])
  have "tinv ((tasks s)[c := (tasks s ! c)\<lparr>state := Healthy (InReply (task_id (tasks s) e))\<rparr>])"
    using assms tinv_length [OF assms(1)] by (intro tinv_update) (simp_all add: live_task_id)
  then have "tinv ?ts"
    unfolding eq by (rule tinv_update) (use assms in simp_all)
  moreover have "kframe True s (s1\<lparr>tasks := ?ts\<rparr>)"
    using assms by (auto simp: eq kframe_def mem_frame_def nth_list_update)
  ultimately show ?thesis
    using assms by (auto simp: dl_post_def eq nth_list_update is_runnable_def)
qed

lemma wp_deliver:
  assumes "tinv (tasks s)" and "c < length (tasks s)" and "e < length (tasks s)" and "c \<noteq> e"
    and "healthy (state (tasks s ! c))" and "healthy (state (tasks s ! e))"
    and "\<And>s'. dl_post s c e s' \<Longrightarrow> Q () s'"
    and "\<And>it. fault_src it \<noteq> None \<or> fault_dst it \<noteq> None \<Longrightarrow> E it s"
  shows "wp (deliver c e) Q E H s"
proof -
  let ?a = "as_send_args (save (tasks s ! c))"
  have E: "E (in_src f) s" "E (in_dst f) s" for f
    by (rule assms(8), simp add: in_src_def in_dst_def)+
  consider f where "send_message ?a = Inl f \<or> send_response ?a = Inl f \<or> send_lease_table ?a = Inl f
      \<or> recv_buffer (as_recv_args (save (tasks s ! e))) = Inl f"
    | m r l d where "send_message ?a = Inr m" "send_response ?a = Inr r" "send_lease_table ?a = Inr l"
      "recv_buffer (as_recv_args (save (tasks s ! e))) = Inr d"
    by (meson old.sum.exhaust)
  then show ?thesis
  proof cases
    case 1
    then show ?thesis
      using assms(2,3) E by (auto simp: deliver_def wp_simps Let_def split: sum.splits)
  next
    case 2
    have "wp (copy_with try_read c m e d) (\<lambda>n s'. wp (kbind (modify_save e
        (set_recv_result (task_id (tasks s) c) (ucast (send_operation ?a)) n (slice_len r) (slice_len l))) (\<lambda>_.
        kbind (current_id e) (\<lambda>callee_id. kbind (set_state c (InReply callee_id)) (\<lambda>_. set_state e Runnable)))) Q E H s') E H s"
    proof (rule wp_copy_with [where b = True])
      fix n s' assume s': "kframe True s s'" "tasks s' = tasks s"
      let ?sv = "set_recv_result (task_id (tasks s) c) (ucast (send_operation ?a)) n (slice_len r)
        (slice_len l) (save (tasks s ! e))"
      have "task_id ((tasks s)[e := (tasks s ! e)\<lparr>save := ?sv\<rparr>]) e = task_id (tasks s) e"
        using assms(3) by (simp add: task_id_def task_generation_def)
      then show "wp (kbind (modify_save e
        (set_recv_result (task_id (tasks s) c) (ucast (send_operation ?a)) n (slice_len r) (slice_len l))) (\<lambda>_.
        kbind (current_id e) (\<lambda>callee_id. kbind (set_state c (InReply callee_id)) (\<lambda>_. set_state e Runnable)))) Q E H s'"
        using assms s' dl_postI [OF assms(1-4) s', of ?sv] by (simp add: wp_simps)
    qed (use assms 2 arg_slices_ok(4) in auto)
    with 2 assms(2,3) show ?thesis
      by (simp add: deliver_def safe_copy_def wp_simps Let_def)
  qed
qed

end
