(* ===== verification/Kern_InvIpc.thy ===== *)
theory Kern_InvIpc
  imports Kern_Inv
begin

section \<open>The invariant through the IPC system calls\<close>

text \<open>
  Every handler, started in a table that satisfies the invariant with a runnable caller, ends
  in a result or an error whose state satisfies it again, with a scheduling hint that names a
  runnable task; it never panics. \<open>good\<close> and \<open>bad\<close> are the postconditions for results
  and for errors.
\<close>

definition hint_ok :: "nat \<Rightarrow> NextTask \<Rightarrow> kstate \<Rightarrow> bool" where
  "hint_ok c h s = (case h of Same \<Rightarrow> is_runnable (tasks s ! c) | Other \<Rightarrow> True
     | Specific i \<Rightarrow> i < length (tasks s) \<and> is_runnable (tasks s ! i))"

definition good :: "bool \<Rightarrow> kstate \<Rightarrow> nat \<Rightarrow> NextTask \<Rightarrow> kstate \<Rightarrow> bool" where
  "good b s c h s' \<longleftrightarrow> kframe b s s' \<and> tinv (tasks s') \<and> hint_ok c h s'"

definition bad :: "bool \<Rightarrow> kstate \<Rightarrow> nat \<Rightarrow> UserError \<Rightarrow> kstate \<Rightarrow> bool" where
  "bad b s c e s' \<longleftrightarrow> kframe b s s' \<and> tinv (tasks s')
     \<and> (case e of Recoverable _ h \<Rightarrow> hint_ok c h s' | Unrecoverable _ \<Rightarrow> True)"

definition pre :: "kstate \<Rightarrow> nat \<Rightarrow> bool" where
  "pre s c \<longleftrightarrow> tinv (tasks s) \<and> c < length (tasks s) \<and> is_runnable (tasks s ! c)"

definition handled :: "bool \<Rightarrow> (NextTask, UserError) kfun \<Rightarrow> nat \<Rightarrow> kstate \<Rightarrow> bool" where
  "handled b m c s = wp m (good b s c) (bad b s c) (\<lambda>_. False) s"

lemma hint_ok_simps [simp]:
  "hint_ok c Other s" "hint_ok c Same s = is_runnable (tasks s ! c)"
  "hint_ok c (Specific i) s = (i < length (tasks s) \<and> is_runnable (tasks s ! i))"
  by (simp_all add: hint_ok_def)

lemma combine_Other [simp]: "combine Other h = (case h of Specific i \<Rightarrow> Specific i | _ \<Rightarrow> Other)"
  by (simp add: combine_def split: NextTask.splits)

lemma bad_Unrecoverable [simp]: "bad b s c (Unrecoverable f) s' = (kframe b s s' \<and> tinv (tasks s'))"
  by (simp add: bad_def)

lemma bad_usage [simp]: "bad b s c (usage f) s' = (kframe b s s' \<and> tinv (tasks s'))"
  by (simp add: usage_def)

lemma pre_good: "pre s c \<Longrightarrow> good b s c Same s"
  by (simp add: pre_def good_def)

lemma pre_bad: "pre s c \<Longrightarrow> bad b s c (Recoverable code Same) s"
  by (simp add: pre_def bad_def)

lemma runnable_healthy [simp]: "is_runnable t \<Longrightarrow> healthy (state t)"
  by (simp add: is_runnable_def)

text \<open>A quiet change of one task, most often of its registers only.\<close>

lemma pre_quiet:
  assumes "pre s c" and "i < length (tasks s)" and "quiet (tasks s ! i) t"
  shows "good b s c Same (s\<lparr>tasks := (tasks s)[i := t]\<rparr>)"
proof -
  have "is_runnable ((tasks s)[i := t] ! c)"
    using assms quiet_runnable [OF assms(3)] by (cases "i = c") (simp_all add: pre_def)
  with assms show ?thesis
    by (auto simp: pre_def good_def tinv_quiet quiet_def intro!: kframe_update)
qed

lemma pre_save:
  "pre s c \<Longrightarrow> i < length (tasks s) \<Longrightarrow>
     good b s c Same (s\<lparr>tasks := (tasks s)[i := (tasks s ! i)\<lparr>save := sv\<rparr>]\<rparr>)"
  by (rule pre_quiet) simp_all

subsection \<open>After a forced fault\<close>

lemma ff_post_gen: "ff_post s i h s' \<Longrightarrow> j < length (tasks s) \<Longrightarrow> generation (tasks s' ! j) = generation (tasks s ! j)"
  by (cases "j = i") (auto simp: ff_post_def quiet_def)

lemma ff_post_length: "ff_post s i h s' \<Longrightarrow> length (tasks s') = length (tasks s)"
  by (simp add: ff_post_def kframe_def)

lemma ff_post_live: "ff_post s i h s' \<Longrightarrow> live_id (tasks s') p = live_id (tasks s) p"
  by (rule live_id_cong) (simp_all add: ff_post_gen ff_post_length)

lemma ff_post_tinv: "ff_post s i h s' \<Longrightarrow> tinv (tasks s')" "ff_post s i h s' \<Longrightarrow> kframe b s s'"
  by (simp_all add: ff_post_def kframe_weaken)

lemma ff_post_runnable:
  "ff_post s i h s' \<Longrightarrow> j < length (tasks s) \<Longrightarrow> j \<noteq> i \<Longrightarrow> is_runnable (tasks s ! j) \<Longrightarrow> is_runnable (tasks s' ! j)"
  by (auto simp: ff_post_def intro: quiet_runnable)

lemma ff_post_hint: "ff_post s i h s' \<Longrightarrow> hint_ok c h s'"
  using tinv_length(1) [of "tasks s'"] by (auto simp: ff_post_def)

lemma ff_post_good: "ff_post s i h s' \<Longrightarrow> good b s c h s'"
  by (simp add: good_def ff_post_tinv ff_post_hint)

lemma ff_post_bad: "ff_post s i h s' \<Longrightarrow> bad b s c (Recoverable code h) s'"
  by (simp add: bad_def ff_post_tinv ff_post_hint)

lemma ff_post_pre: "ff_post s i h s' \<Longrightarrow> pre s c \<Longrightarrow> c \<noteq> i \<Longrightarrow> pre s' c"
  by (simp add: pre_def ff_post_tinv ff_post_length ff_post_runnable)

subsection \<open>Blocking the caller\<close>

text \<open>
  The hint carried into the block of the caller: nothing, or from faults, which may have woken
  a supervisor other than the caller.
\<close>

definition carry :: "nat \<Rightarrow> NextTask \<Rightarrow> kstate \<Rightarrow> bool" where
  "carry c h s \<longleftrightarrow> h = Same \<or> h = Other \<or> h = Specific 0 \<and> c \<noteq> 0 \<and> is_runnable (tasks s ! 0)"

lemma carry_ff: "ff_post s i h s' \<Longrightarrow> pre s c \<Longrightarrow> c \<noteq> i \<Longrightarrow> carry c h s'"
  by (cases "c = 0") (auto simp: ff_post_def carry_def pre_def)

lemma carry_combine:
  assumes "carry c h s" and "ff_post s i h' s'" and "pre s c" and "c \<noteq> i" and "\<not> is_runnable (tasks s ! i)"
  shows "carry c (combine h h') s'"
proof (cases "h = Specific 0")
  case True
  then have "i \<noteq> 0" using assms by (cases "i = 0") (auto simp: carry_def)
  with True assms have "is_runnable (tasks s' ! 0)"
    using tinv_length(1) [of "tasks s"]
    by (intro ff_post_runnable [OF assms(2)]) (auto simp: carry_def pre_def)
  with True assms(1,2) show ?thesis by (auto simp: carry_def combine_def ff_post_def)
next
  case False
  with assms(1) carry_ff [OF assms(2-4)] show ?thesis
    by (auto simp: carry_def combine_def)
qed

lemma carry_hint: "carry c h s \<Longrightarrow> pre s c \<Longrightarrow> hint_ok c h s"
  by (auto simp: carry_def pre_def)

lemma block_good:
  assumes "pre s c" and "carry c h s" and "peer_ok (tasks s) (Healthy sc)"
  shows "good b s c (combine Other h) (s\<lparr>tasks := (tasks s)[c := (tasks s ! c)\<lparr>state := Healthy sc\<rparr>]\<rparr>)"
  using assms tinv_length(1) [of "tasks s"]
  by (auto simp: pre_def good_def carry_def intro!: tinv_update kframe_update)

lemma good_trans: "kframe b s s1 \<Longrightarrow> good b s1 c h s2 \<Longrightarrow> good b s c h s2"
  by (auto simp: good_def intro: kframe_trans)

lemma bad_trans: "kframe b s s1 \<Longrightarrow> bad b s1 c e s2 \<Longrightarrow> bad b s c e s2"
  by (auto simp: bad_def intro: kframe_trans)

lemma handled_trans:
  "kframe b s s1 \<Longrightarrow> handled b m c s1 \<Longrightarrow> wp m (good b s c) (bad b s c) (\<lambda>_. False) s1"
  unfolding handled_def by (erule wp_mono) (auto intro: good_trans bad_trans)

lemma handled_send_block:
  assumes "pre s c" and "carry c h s" and "live_id (tasks s) p"
  shows "handled b (send_block c p h) c s"
  using block_good [OF assms(1,2), of "InSend p" b] assms
  by (simp add: handled_def send_block_def wp_simps pre_def)

lemma handled_recv_block:
  assumes "pre s c" and "carry c h s" and "peer_ok (tasks s) (Healthy (InRecv p))"
  shows "handled b (recv_block c p h) c s"
  using block_good [OF assms] assms(1)
  by (simp add: handled_def recv_block_def wp_simps pre_def)

subsection \<open>SEND between tasks\<close>

lemma dl_post_good: "dl_post s c e s' \<Longrightarrow> e < length (tasks s) \<Longrightarrow> good b s c (Specific e) s'"
  by (auto simp: dl_post_def good_def kframe_weaken kframe_length)

lemma dl_post_hint:
  "dl_post s i c s' \<Longrightarrow> c < length (tasks s) \<Longrightarrow> carry c h s \<Longrightarrow> i \<noteq> 0 \<or> h \<noteq> Specific 0 \<Longrightarrow>
     0 < length (tasks s) \<Longrightarrow> good b s c h s'"
  by (auto simp: dl_post_def good_def kframe_weaken kframe_length carry_def)

lemma handled_send:
  assumes "pre s c" and "send_callee (as_send_args (save (tasks s ! c))) \<noteq> KERNEL"
  shows "handled b (send env c) c s"
proof -
  let ?p = "send_callee (as_send_args (save (tasks s ! c)))"
  let ?e = "tid_index ?p"
  note pre = assms(1) [unfolded pre_def]
  show ?thesis
  proof (cases "live_id (tasks s) ?p")
    case False
    then show ?thesis
      using assms pre pre_bad [OF assms(1)]
      by (simp add: handled_def send_def wp_simps Let_def)
  next
    case live: True
    then have e: "?e < length (tasks s)" by (simp add: live_id_def)
    have blk: "handled b (send_block c ?p Same) c s"
      using assms(1) live by (intro handled_send_block) (simp_all add: carry_def)
    show ?thesis
    proof (cases "can_accept_message_from (state (tasks s ! ?e)) (task_id (tasks s) c)")
      case False
      with assms pre live e blk show ?thesis
        by (simp add: handled_def send_def wp_simps Let_def)
    next
      case acc: True
      then have h: "healthy (state (tasks s ! ?e))" and ne: "c \<noteq> ?e"
        using pre by (auto simp: can_accept_message_from_def is_runnable_def split: TaskState.splits)
      have "wp (deliver c ?e) (\<lambda>_ s'. good b s c (Specific ?e) s')
          (\<lambda>it s'. wp (apply_to_dst it ?e) (\<lambda>h s'. wp (send_block c ?p h) (good b s c) (bad b s c) (\<lambda>_. False) s')
             (\<lambda>f s'. bad b s c (Unrecoverable f) s') (\<lambda>_. False) s') (\<lambda>_. False) s"
      proof (rule wp_deliver)
        fix it :: InteractFault assume it: "fault_src it \<noteq> None \<or> fault_dst it \<noteq> None"
        show "wp (apply_to_dst it ?e) (\<lambda>h s'. wp (send_block c ?p h) (good b s c) (bad b s c) (\<lambda>_. False) s')
             (\<lambda>f s'. bad b s c (Unrecoverable f) s') (\<lambda>_. False) s"
        proof (rule wp_apply_to_dst)
          fix h s' assume f: "ff_post s ?e h s'"
          show "wp (send_block c ?p h) (good b s c) (bad b s c) (\<lambda>_. False) s'"
            using ff_post_tinv(2) [OF f] ff_post_pre [OF f assms(1) ne] carry_ff [OF f assms(1) ne]
              live ff_post_live [OF f]
            by (intro handled_trans handled_send_block) simp_all
        qed (use pre e it ff_post_tinv in auto)
      qed (use pre e h ne dl_post_good in auto)
      with assms pre live e acc show ?thesis
        by (simp add: handled_def send_def wp_simps Let_def)
    qed
  qed
qed

subsection \<open>RECV\<close>

definition senders :: "kstate \<Rightarrow> TaskId \<Rightarrow> nat set" where
  "senders s p = {j. j < length (tasks s) \<and> is_sending_to (state (tasks s ! j)) p}"

lemma senders_bound: "card (senders s p) \<le> length (tasks s)"
  using card_mono [of "{..<length (tasks s)}" "senders s p"] by (auto simp: senders_def)

lemma senders_decrease:
  assumes "ff_post s i h s'" and "i \<in> senders s p"
  shows "card (senders s' p) < card (senders s p)"
proof (rule psubset_card_mono)
  show "finite (senders s p)" by (simp add: senders_def)
  have "j \<in> senders s p" if "j \<in> senders s' p" for j
    using that assms
    by (cases "j = i") (auto simp: senders_def ff_post_def kframe_def quiet_def is_sending_to_def is_runnable_def)
  moreover have "i \<notin> senders s' p"
    using assms by (auto simp: senders_def ff_post_def is_sending_to_def)
  ultimately show "senders s' p \<subset> senders s p" using assms(2) by blast
qed

lemma sender_facts:
  assumes "pre s c" and "is_sending_to (state (tasks s ! i)) p"
  shows "i \<noteq> c" and "\<not> is_runnable (tasks s ! i)" and "healthy (state (tasks s ! i))"
  using assms by (auto simp: pre_def is_sending_to_def is_runnable_def)

lemma wp_priority_scan_index:
  assumes "previous < length (tasks s)"
    and "\<And>i. i < length (tasks s) \<Longrightarrow> pred (tasks s ! i) \<Longrightarrow> Q (Some i) s" and "Q None s"
  shows "wp (priority_scan previous pred) Q E H s"
  by (rule wp_priority_scan [OF assms(1)]) (use assms first_best_props(1,2) [OF _ assms(1)] in blast)+

text \<open>A delivery to the caller, or the fault of the sender and what follows it.\<close>

lemma wp_deliver_to_caller:
  assumes "pre s c" and "i < length (tasks s)" and "is_sending_to (state (tasks s ! i)) p" and "carry c h s"
    and "\<And>h' s'. ff_post s i h' s' \<Longrightarrow> handled b (k h') c s'"
  shows "wp (kmatch (deliver i c) (\<lambda>_. kret h)
      (\<lambda>it. kbind (kmap_err Unrecoverable (apply_to_src it i)) k)) (good b s c) (bad b s c) (\<lambda>_. False) s"
proof -
  note pre = assms(1) [unfolded pre_def] and sf = sender_facts [OF assms(1,3)]
  have "wp (deliver i c) (\<lambda>_ s'. good b s c h s')
      (\<lambda>it s'. wp (apply_to_src it i) (\<lambda>h s'. wp (k h) (good b s c) (bad b s c) (\<lambda>_. False) s')
         (\<lambda>f s'. bad b s c (Unrecoverable f) s') (\<lambda>_. False) s') (\<lambda>_. False) s"
  proof (rule wp_deliver)
    fix it :: InteractFault assume it: "fault_src it \<noteq> None \<or> fault_dst it \<noteq> None"
    show "wp (apply_to_src it i) (\<lambda>h s'. wp (k h) (good b s c) (bad b s c) (\<lambda>_. False) s')
         (\<lambda>f s'. bad b s c (Unrecoverable f) s') (\<lambda>_. False) s"
    proof (rule wp_apply_to_src)
      fix h' s' assume f: "ff_post s i h' s'"
      show "wp (k h') (good b s c) (bad b s c) (\<lambda>_. False) s'"
        by (rule handled_trans [OF ff_post_tinv(2) [OF f] assms(5) [OF f]])
    qed (use pre assms(2) it ff_post_tinv in auto)
  next
    fix s' assume "dl_post s i c s'"
    moreover have "i \<noteq> 0 \<or> h \<noteq> Specific 0" using sf assms(4) by (auto simp: carry_def)
    ultimately show "good b s c h s'"
      using pre assms(4) tinv_length(1) [of "tasks s"] by (intro dl_post_hint) auto
  qed (use pre assms(2) sf in auto)
  then show ?thesis by (simp add: wp_simps)
qed

lemma handled_recv_open:
  "pre s c \<Longrightarrow> last_pos < length (tasks s) \<Longrightarrow> carry c h s \<Longrightarrow> card (senders s p) < fuel \<Longrightarrow>
     handled b (recv_open fuel c p last_pos h) c s"
proof (induction fuel arbitrary: s last_pos h)
  case (Suc fuel)
  have step: "wp (kmatch (deliver i c) (\<lambda>_. kret h) (\<lambda>it. kbind (kmap_err Unrecoverable (apply_to_src it i))
        (\<lambda>wake_hint. recv_open fuel c p i (combine h wake_hint))))
      (good b s c) (bad b s c) (\<lambda>_. False) s"
    if i: "i < length (tasks s)" "is_sending_to (state (tasks s ! i)) p" for i
  proof (rule wp_deliver_to_caller [OF Suc.prems(1) i Suc.prems(3)])
    fix h' s' assume f: "ff_post s i h' s'"
    note sf = sender_facts [OF Suc.prems(1) i(2)]
    have "i \<in> senders s p" using i by (simp add: senders_def)
    then show "handled b (recv_open fuel c p i (combine h h')) c s'"
      using Suc.prems i f sf senders_decrease [OF f, of p]
      by (intro Suc.IH) (auto simp: ff_post_length intro: ff_post_pre carry_combine)
  qed
  have blk: "handled b (recv_block c None h) c s"
    using Suc.prems by (intro handled_recv_block) simp_all
  show ?case
    unfolding handled_def recv_open.simps wp_kbind
    by (rule wp_priority_scan_index [OF Suc.prems(2)]) (use step blk in \<open>simp_all add: handled_def\<close>)
qed simp

lemma handled_recv_closed:
  assumes "pre s c" and "p \<noteq> KERNEL"
  shows "handled b (recv_closed c cid p) c s"
proof (cases "live_id (tasks s) p")
  case False
  with assms(1) pre_bad [OF assms(1)] show ?thesis
    by (simp add: handled_def recv_closed_def wp_simps pre_def)
next
  case live: True
  then have e: "tid_index p < length (tasks s)" by (simp add: live_id_def)
  have blk: "handled b (recv_block c (Some p) Same) c s"
    using assms live by (intro handled_recv_block) (simp_all add: carry_def)
  show ?thesis
  proof (cases "is_sending_to (state (tasks s ! tid_index p)) cid")
    case False
    with live e blk show ?thesis by (simp add: handled_def recv_closed_def wp_simps)
  next
    case True
    note sf = sender_facts [OF assms(1) True]
    have "wp (kmatch (deliver (tid_index p) c) (\<lambda>_. kret Same)
        (\<lambda>it. kbind (kmap_err Unrecoverable (apply_to_src it (tid_index p)))
           (\<lambda>wake_hint. recv_block c (Some p) (combine Same wake_hint))))
        (good b s c) (bad b s c) (\<lambda>_. False) s"
      using assms sf live carry_combine [of c Same s]
      by (intro wp_deliver_to_caller [OF assms(1) e True] handled_recv_block)
        (auto simp: carry_def ff_post_live intro: ff_post_pre)
    with True live e show ?thesis by (simp add: handled_def recv_closed_def wp_simps)
  qed
qed

lemma wp_recv_none:
  assumes "c < length (tasks s)" and "take_notifications (tasks s ! c) = (None, t)"
  shows "wp (recv c) Q E H s =
     (case specific_sender (as_recv_args (save (tasks s ! c))) of
        None \<Rightarrow> wp (recv_open (Suc (length (tasks s))) c (task_id (tasks s) c) c Same) Q E H s
      | Some p \<Rightarrow> if p = KERNEL then wp (recv_block c (Some p) Same) Q E H s
                 else wp (recv_closed c (task_id (tasks s) c) p) Q E H s)"
proof -
  have t: "t = tasks s ! c" using assms(2) by (simp add: take_notifications_None)
  have [simp]: "s\<lparr>tasks := tasks s\<rparr> = s" by simp
  show ?thesis
    unfolding recv_def wp_kbind wp_get_task Let_def assms(2) prod.case wp_put_task option.case t list_update_id
    using assms(1)
    by (simp add: wp_current_id wp_kbind wp_kget if_distrib del: recv_open.simps split: option.splits)
qed

lemma handled_recv:
  assumes "pre s c"
  shows "handled b (recv c) c s"
proof -
  note pre = assms [unfolded pre_def]
  show ?thesis
  proof (cases "take_notifications (tasks s ! c)")
    case (Pair taken t)
    show ?thesis
    proof (cases taken)
      case None
      have "handled b (recv_block c (Some KERNEL) Same) c s"
        using assms by (intro handled_recv_block) (simp_all add: carry_def)
      moreover have "handled b (recv_closed c (task_id (tasks s) c) p) c s" if "p \<noteq> KERNEL" for p
        by (rule handled_recv_closed [OF assms that])
      moreover have "handled b (recv_open (Suc (length (tasks s))) c (task_id (tasks s) c) c Same) c s"
        using assms pre senders_bound [of s "task_id (tasks s) c"]
        by (intro handled_recv_open) (simp_all add: carry_def)
      ultimately show ?thesis
        using pre Pair None
        by (auto simp: handled_def wp_recv_none simp del: recv_open.simps split: option.splits)
    next
      case (Some firing)
      then have "quiet (tasks s ! c) t"
        using Pair by (auto simp: take_notifications_def quiet_def Let_def split: if_splits)
      then have "quiet (tasks s ! c) (t\<lparr>save := sv\<rparr>)" for sv
        by (rule quiet_trans [OF _ quiet_save])
      with pre Pair Some show ?thesis
        by (simp add: handled_def recv_def wp_simps pre_quiet [OF assms])
    qed
  qed
qed

subsection \<open>REPLY\<close>

text \<open>A task blocked in reply is healthy and is not the running caller.\<close>

lemma in_reply_facts:
  assumes "pre s c" and "state (tasks s ! i) = Healthy (InReply p)"
  shows "i \<noteq> c" and "healthy (state (tasks s ! i))" and "\<not> is_runnable (tasks s ! i)"
  using assms by (auto simp: pre_def is_runnable_def)

lemma reply_resume:
  assumes "pre s c" and "i < length (tasks s)" and "i \<noteq> c" and "kframe b s s1" and "tasks s1 = tasks s"
  shows "good b s c Same (s1\<lparr>tasks := (tasks s)[i := (tasks s ! i)\<lparr>save := sv, state := Healthy Runnable\<rparr>]\<rparr>)"
  using assms kframe_update [OF assms(4), of i "(tasks s ! i)\<lparr>save := sv, state := Healthy Runnable\<rparr>"]
  by (auto simp: pre_def good_def intro!: tinv_update)

lemma handled_reply:
  assumes "pre s c"
  shows "handled b (kmap_err Unrecoverable (reply c)) c s"
proof -
  note pre = assms [unfolded pre_def]
  let ?r = "as_reply_args (save (tasks s ! c))"
  let ?i = "tid_index (reply_callee ?r)"
  show ?thesis
  proof (cases "live_id (tasks s) (reply_callee ?r) \<and> state (tasks s ! ?i) = Healthy (InReply (task_id (tasks s) c))
      \<and> reply_message ?r \<in> range Inr \<and> send_response (as_send_args (save (tasks s ! ?i))) \<in> range Inr")
    case False
    moreover have "wp (force_fault ?i f) (good b s c) E H s" if "?i < length (tasks s)" for f E H
      by (rule wp_force_fault) (use pre that ff_post_good in auto)
    ultimately show ?thesis
      using pre pre_good [OF assms]
      by (auto simp: handled_def reply_def wp_simps Let_def split: sum.splits)
  next
    case True
    then obtain src dst where sd: "reply_message ?r = Inr src"
      "send_response (as_send_args (save (tasks s ! ?i))) = Inr dst" by blast
    from True have i: "?i < length (tasks s)" by (simp add: live_id_def)
    note rf = in_reply_facts [OF assms True [THEN conjunct2, THEN conjunct1]]
    let ?ok = "\<lambda>n. kbind (modify_save ?i (set_send_response_and_length (reply_code ?r) n)) (\<lambda>_.
        kbind (set_state ?i Runnable) (\<lambda>_. kret Same))"
    have "wp (copy_with try_read c src ?i dst)
        (\<lambda>n s'. wp (?ok n) (good b s c) (\<lambda>f s'. bad b s c (Unrecoverable f) s') (\<lambda>_. False) s')
        (\<lambda>it s'. wp (apply_to_dst it ?i) (good b s c) (\<lambda>f s'. bad b s c (Unrecoverable f) s') (\<lambda>_. False) s')
        (\<lambda>_. False) s"
    proof (rule wp_copy_with [where b = b])
      fix it :: InteractFault assume "fault_src it \<noteq> None \<or> fault_dst it \<noteq> None"
      then show "wp (apply_to_dst it ?i) (good b s c) (\<lambda>f s'. bad b s c (Unrecoverable f) s') (\<lambda>_. False) s"
        by (intro wp_apply_to_dst) (use pre i ff_post_good ff_post_tinv in auto)
    qed (use pre i rf sd arg_slices_ok(2) reply_resume [OF assms i rf(1)] in \<open>auto simp: wp_simps\<close>)
    with True sd i pre show ?thesis
      by (simp add: handled_def reply_def safe_copy_def wp_simps Let_def)
  qed
qed

lemma handled_reply_fault:
  assumes "pre s c"
  shows "handled b (kmap_err Unrecoverable (reply_fault c)) c s"
proof -
  note pre = assms [unfolded pre_def]
  have "wp (force_fault i f) (\<lambda>_ s'. good b s c Same s') E H s"
    if "i < length (tasks s)" "state (tasks s ! i) = Healthy (InReply p)" for i f p E H
  proof (rule wp_force_fault)
    fix h s' assume "ff_post s i h s'"
    then show "good b s c Same s'"
      using ff_post_pre [OF _ assms] in_reply_facts(1) [OF assms that(2)] pre_good [of s' c b]
      by (metis ff_post_tinv(2) good_trans)
  qed (use pre that in auto)
  then show ?thesis
    using pre pre_good [OF assms]
    by (auto simp: handled_def reply_fault_def wp_simps Let_def split: sum.splits)
qed

end
