(* ===== verification/Kern_InvSys.thy ===== *)
theory Kern_InvSys
  imports Kern_InvIpc
begin

section \<open>The invariant through the other system calls\<close>

text \<open>
  Borrows, timers, posts and interrupt control. The lease of a borrow is read from the memory
  of the lender and its slice is not validated the way the slices in registers are, so for
  the borrow that writes through it the memory frame is conditional on \<open>leases_ok\<close>: every
  lease that a task offers ends inside the address space.
\<close>

subsection \<open>Leases\<close>

definition lease_fits :: "ULease \<Rightarrow> bool" where
  "lease_fits l \<longleftrightarrow> unat (base_address l) + unat (length_bytes l) < 2 ^ 32"

definition leases_ok :: "kstate \<Rightarrow> bool" where
  "leases_ok s \<longleftrightarrow> (\<forall>i < length (tasks s). \<forall>table k.
     send_lease_table (as_send_args (save (tasks s ! i))) = Inr table \<longrightarrow> k < slice_len table \<longrightarrow>
     lease_fits (mem_lease (mem s) (slice_base table + k * LEASE_SIZE)))"

lemma offset_lease_fits:
  assumes "lease_fits l" and "checked_sub (length_bytes l) off = Some n" and "checked_add (base_address l) off = Some a"
  shows "lease_fits (l\<lparr>base_address := a, length_bytes := n\<rparr>)"
  using assms(1) checked_sub_SomeD [OF assms(2)] checked_add_SomeD [OF assms(3)]
  by (auto simp: lease_fits_def word_le_nat_alt)

lemma lease_fits_slice_ok: "lease_fits l \<Longrightarrow> slice_ok 1 (uslice_from_lease l)"
  by (simp add: lease_fits_def slice_ok_def uslice_from_lease_def)

lemma wp_borrow_lease:
  assumes "pre s c" and "i < length (tasks s)"
    and "\<And>l. i \<noteq> c \<Longrightarrow> leases_ok s \<longrightarrow> lease_fits l \<Longrightarrow> Q l s"
    and "\<And>e s'. bad b s c e s' \<Longrightarrow> E e s'"
  shows "wp (borrow_lease c i number off) Q E H s"
proof -
  note pre = assms(1) [unfolded pre_def]
  let ?lt = "send_lease_table (as_send_args (save (tasks s ! i)))"
  show ?thesis
  proof (cases "state (tasks s ! i) = Healthy (InReply (task_id (tasks s) c))")
    case False
    with pre assms(2,4) pre_bad [OF assms(1)] show ?thesis
      by (simp add: borrow_lease_def wp_simps)
  next
    case True
    note rf = in_reply_facts [OF assms(1) True]
    have ff: "wp (force_fault i f) (\<lambda>h s'. E (Recoverable DEFECT h) s') E H s" for f
      by (rule wp_force_fault) (use pre assms(2,4) ff_post_bad in auto)
    show ?thesis
    proof (cases ?lt)
      case (Inl e)
      with True pre assms(2) ff show ?thesis by (simp add: borrow_lease_def wp_simps)
    next
      case (Inr table)
      show ?thesis
      proof (cases "try_read (tasks s ! i) LEASE_SIZE table")
        case Inl
        with Inr True pre assms(2) ff show ?thesis by (simp add: borrow_lease_def wp_simps)
      next
        case r: (Inr table')
        then have t: "table' = table" by (rule try_read_slice)
        have bu: "E (usage u) s" for u using pre assms(4) by simp
        let ?l = "mem_lease (mem s) (slice_base table + number * LEASE_SIZE)"
        have fits: "leases_ok s \<longrightarrow> lease_fits ?l" if "number < slice_len table"
          using that assms(2) Inr by (auto simp: leases_ok_def)
        have "Q (?l\<lparr>base_address := a, length_bytes := n\<rparr>) s"
          if "number < slice_len table" "checked_sub (length_bytes ?l) off = Some n"
            "checked_add (base_address ?l) off = Some a" for a n
          using fits [OF that(1)] offset_lease_fits [OF _ that(2,3)] rf(1) by (intro assms(3)) auto
        with Inr r t True pre assms(2) bu show ?thesis
          by (simp add: borrow_lease_def wp_simps Let_def split: option.splits)
      qed
    qed
  qed
qed

lemma borrow_finish:
  assumes "pre s c" and "kframe b s s1" and "tasks s1 = tasks s"
  shows "good b s c Same (s1\<lparr>tasks := (tasks s)[c := (tasks s ! c)\<lparr>save := sv\<rparr>]\<rparr>)"
proof -
  have "pre s1 c" using assms by (simp add: pre_def)
  from pre_save [OF this, of c b sv] assms show ?thesis
    by (auto simp: pre_def intro: good_trans)
qed

lemma handled_borrow_read:
  assumes "pre s c"
  shows "handled b (borrow_read c) c s"
proof -
  note pre = assms [unfolded pre_def]
  let ?a = "as_borrow_args (save (tasks s ! c))"
  let ?i = "tid_index (lender_id ?a)"
  consider e where "borrow_buffer ?a = Inl e"
    | buf where "borrow_buffer ?a = Inr buf" "\<not> live_id (tasks s) (lender_id ?a)"
    | buf where "borrow_buffer ?a = Inr buf" "live_id (tasks s) (lender_id ?a)"
    by (meson old.sum.exhaust)
  then show ?thesis
  proof cases
    case (3 buf)
    then have i: "?i < length (tasks s)" by (simp add: live_id_def)
    let ?k = "\<lambda>l. (if \<not> flags_contains (attributes l) LEASE_READ then kerr (Recoverable DEFECT Same)
        else kmatch (safe_copy ?i (uslice_from_lease l) c buf)
          (\<lambda>n. kbind (modify_save c (set_borrow_response_and_length 0 n)) (\<lambda>_. kret Same))
          (\<lambda>it. kbind (kmap_err Unrecoverable (apply_to_src it ?i)) (\<lambda>wake_hint. kerr (Recoverable DEFECT wake_hint))))"
    have "wp (?k l) (good b s c) (bad b s c) (\<lambda>_. False) s"
      if ne: "?i \<noteq> c" for l
    proof -
      have "wp (apply_to_src it ?i) (\<lambda>h s'. bad b s c (Recoverable DEFECT h) s')
          (\<lambda>f s'. bad b s c (Unrecoverable f) s') (\<lambda>_. False) s"
        if "fault_src it \<noteq> None \<or> fault_dst it \<noteq> None" for it
        by (rule wp_apply_to_src) (use pre i that ff_post_bad ff_post_tinv in auto)
      then have "wp (safe_copy ?i (uslice_from_lease l) c buf)
          (\<lambda>n s'. good b s c Same (s'\<lparr>tasks := (tasks s')[c := (tasks s' ! c)\<lparr>save :=
             set_borrow_response_and_length 0 n (save (tasks s' ! c))\<rparr>]\<rparr>) \<and> length (tasks s') = length (tasks s))
          (\<lambda>it s'. wp (apply_to_src it ?i) (\<lambda>h s'. bad b s c (Recoverable DEFECT h) s')
             (\<lambda>f s'. bad b s c (Unrecoverable f) s') (\<lambda>_. False) s') (\<lambda>_. False) s"
        unfolding safe_copy_def
        by (intro wp_copy_with [where b = b])
          (use pre i ne 3 arg_slices_ok(6) borrow_finish [OF assms] in auto)
      then have "wp (safe_copy ?i (uslice_from_lease l) c buf)
          (\<lambda>n s'. wp (kbind (modify_save c (set_borrow_response_and_length 0 n)) (\<lambda>_. kret Same))
             (good b s c) (bad b s c) (\<lambda>_. False) s')
          (\<lambda>it s'. wp (apply_to_src it ?i) (\<lambda>h s'. bad b s c (Recoverable DEFECT h) s')
             (\<lambda>f s'. bad b s c (Unrecoverable f) s') (\<lambda>_. False) s') (\<lambda>_. False) s"
        by (rule wp_mono) (use pre in \<open>auto simp: wp_simps\<close>)
      then show ?thesis using pre_bad [OF assms] by (simp add: wp_simps)
    qed
    then have "wp (borrow_lease c ?i (lease_number ?a) (borrow_offset ?a))
        (\<lambda>l. wp (?k l) (good b s c) (bad b s c) (\<lambda>_. False)) (bad b s c) (\<lambda>_. False) s"
      by (intro wp_borrow_lease [OF assms i])
    with 3 i pre show ?thesis
      by (simp add: handled_def borrow_read_def wp_kbind wp_get_task wp_klift wp_check_task_id Let_def)
  qed (use pre pre_bad [OF assms] in \<open>simp_all add: handled_def borrow_read_def wp_simps Let_def\<close>)
qed

lemma handled_borrow_write:
  assumes "pre s c"
  shows "handled (leases_ok s) (borrow_write c) c s"
proof -
  note pre = assms [unfolded pre_def]
  let ?b = "leases_ok s"
  let ?a = "as_borrow_args (save (tasks s ! c))"
  let ?i = "tid_index (lender_id ?a)"
  consider e where "borrow_buffer ?a = Inl e"
    | buf where "borrow_buffer ?a = Inr buf" "\<not> live_id (tasks s) (lender_id ?a)"
    | buf where "borrow_buffer ?a = Inr buf" "live_id (tasks s) (lender_id ?a)"
    by (meson old.sum.exhaust)
  then show ?thesis
  proof cases
    case (3 buf)
    then have i: "?i < length (tasks s)" by (simp add: live_id_def)
    let ?k = "\<lambda>l. (if \<not> flags_contains (attributes l) LEASE_WRITE then kerr (Recoverable DEFECT Same)
        else kmatch (safe_copy c buf ?i (uslice_from_lease l))
          (\<lambda>n. kbind (modify_save c (set_borrow_response_and_length 0 n)) (\<lambda>_. kret Same))
          (\<lambda>it. kbind (kmap_err Unrecoverable (apply_to_dst it ?i)) (\<lambda>wake_hint. kerr (Recoverable DEFECT wake_hint))))"
    have "wp (?k l) (good ?b s c) (bad ?b s c) (\<lambda>_. False) s"
      if ne: "?i \<noteq> c" and fits: "?b \<longrightarrow> lease_fits l" for l
    proof -
      have "wp (apply_to_dst it ?i) (\<lambda>h s'. bad ?b s c (Recoverable DEFECT h) s')
          (\<lambda>f s'. bad ?b s c (Unrecoverable f) s') (\<lambda>_. False) s"
        if "fault_src it \<noteq> None \<or> fault_dst it \<noteq> None" for it
        by (rule wp_apply_to_dst) (use pre i that ff_post_bad ff_post_tinv in auto)
      then have "wp (safe_copy c buf ?i (uslice_from_lease l))
          (\<lambda>n s'. good ?b s c Same (s'\<lparr>tasks := (tasks s')[c := (tasks s' ! c)\<lparr>save :=
             set_borrow_response_and_length 0 n (save (tasks s' ! c))\<rparr>]\<rparr>) \<and> length (tasks s') = length (tasks s))
          (\<lambda>it s'. wp (apply_to_dst it ?i) (\<lambda>h s'. bad ?b s c (Recoverable DEFECT h) s')
             (\<lambda>f s'. bad ?b s c (Unrecoverable f) s') (\<lambda>_. False) s') (\<lambda>_. False) s"
        unfolding safe_copy_def
        by (intro wp_copy_with [where b = ?b])
          (use pre i ne 3 fits lease_fits_slice_ok borrow_finish [OF assms] in auto)
      then have "wp (safe_copy c buf ?i (uslice_from_lease l))
          (\<lambda>n s'. wp (kbind (modify_save c (set_borrow_response_and_length 0 n)) (\<lambda>_. kret Same))
             (good ?b s c) (bad ?b s c) (\<lambda>_. False) s')
          (\<lambda>it s'. wp (apply_to_dst it ?i) (\<lambda>h s'. bad ?b s c (Recoverable DEFECT h) s')
             (\<lambda>f s'. bad ?b s c (Unrecoverable f) s') (\<lambda>_. False) s') (\<lambda>_. False) s"
        by (rule wp_mono) (use pre in \<open>auto simp: wp_simps\<close>)
      then show ?thesis using pre_bad [OF assms] by (simp add: wp_simps)
    qed
    then have "wp (borrow_lease c ?i (lease_number ?a) (borrow_offset ?a))
        (\<lambda>l. wp (?k l) (good ?b s c) (bad ?b s c) (\<lambda>_. False)) (bad ?b s c) (\<lambda>_. False) s"
      by (intro wp_borrow_lease [OF assms i])
    with 3 i pre show ?thesis
      by (simp add: handled_def borrow_write_def wp_kbind wp_get_task wp_klift wp_check_task_id Let_def)
  qed (use pre pre_bad [OF assms] in \<open>simp_all add: handled_def borrow_write_def wp_simps Let_def\<close>)
qed

lemma handled_borrow_info:
  assumes "pre s c"
  shows "handled b (borrow_info c) c s"
proof -
  note pre = assms [unfolded pre_def]
  let ?a = "as_borrow_args (save (tasks s ! c))"
  show ?thesis
  proof (cases "live_id (tasks s) (lender_id ?a)")
    case False
    with pre pre_bad [OF assms] show ?thesis
      by (simp add: handled_def borrow_info_def wp_simps Let_def)
  next
    case True
    then have i: "tid_index (lender_id ?a) < length (tasks s)" by (simp add: live_id_def)
    have "wp (borrow_lease c (tid_index (lender_id ?a)) (lease_number ?a) 0)
        (\<lambda>l s'. wp (kbind (modify_save c (set_borrow_info (attributes l) (length_bytes l))) (\<lambda>_. kret Same))
           (good b s c) (bad b s c) (\<lambda>_. False) s') (bad b s c) (\<lambda>_. False) s"
      by (rule wp_borrow_lease [OF assms i]) (use pre pre_save [OF assms] in \<open>auto simp: wp_simps\<close>)
    with True i pre show ?thesis
      by (simp add: handled_def borrow_info_def wp_simps Let_def)
  qed
qed

subsection \<open>Posts, identifiers, panics, timers\<close>

lemma handled_post:
  assumes "pre s c"
  shows "handled b (post c) c s"
proof -
  note pre = assms [unfolded pre_def]
  let ?a = "as_post_args (save (tasks s ! c))"
  let ?i = "tid_index (post_task_id ?a)"
  show ?thesis
  proof (cases "live_id (tasks s) (post_task_id ?a)")
    case False
    with pre pre_bad [OF assms] show ?thesis
      by (simp add: handled_def post_def wp_simps Let_def)
  next
    case True
    then have i: "?i < length (tasks s)" by (simp add: live_id_def)
    obtain w t where p: "task_post (post_bits ?a) (tasks s ! ?i) = (w, t)" by fastforce
    then have q: "quiet (tasks s ! ?i) t" using quiet_post [of "tasks s ! ?i" "post_bits ?a"] by simp
    define ts where "ts = (tasks s)[?i := t]"
    define s' where "s' = s\<lparr>tasks := ts[c := (ts ! c)\<lparr>save := set_error_response 0 (save (ts ! c))\<rparr>]\<rparr>"
    have g1: "good b s c Same (s\<lparr>tasks := ts\<rparr>)"
      unfolding ts_def by (rule pre_quiet [OF assms i q])
    then have "pre (s\<lparr>tasks := ts\<rparr>) c"
      using pre by (simp add: good_def pre_def kframe_def)
    from pre_save [OF this, of c b "set_error_response 0 (save (ts ! c))"]
    have "good b (s\<lparr>tasks := ts\<rparr>) c Same s'" using pre by (simp add: s'_def ts_def)
    with g1 have g2: "good b s c Same s'" by (auto simp: good_def intro: kframe_trans)
    have "is_runnable (tasks s' ! ?i)" if w
      using task_post_woken(1) [of _ _ t] p that i
      by (cases "?i = c") (auto simp: s'_def ts_def is_runnable_def)
    with g2 have "w \<Longrightarrow> good b s c (Specific ?i) s'"
      using i by (auto simp: good_def s'_def ts_def)
    with g2 True i pre p show ?thesis
      by (simp add: handled_def post_def wp_simps Let_def ts_def s'_def)
  qed
qed

lemma handled_refresh_task_id: "pre s c \<Longrightarrow> handled b (refresh_task_id c) c s"
  using pre_save [of s c]
  by (auto simp: handled_def refresh_task_id_def wp_simps Let_def pre_def)

lemma handled_explicit_panic:
  assumes "pre s c"
  shows "handled b (explicit_panic c) c s"
  unfolding handled_def explicit_panic_def
  by (rule wp_force_fault) (use assms ff_post_good in \<open>auto simp: pre_def\<close>)

lemma quiet_timers: "quiet t (set_timer t time)" "quiet t (get_timer t time)"
proof -
  have q: "quiet t (task_set_timer dl n t)" for dl n
    by (simp add: quiet_def task_set_timer_def)
  show "quiet t (set_timer t time)"
    using q quiet_trans [OF q quiet_post] by (simp add: set_timer_def Let_def split: option.splits)
  show "quiet t (get_timer t time)"
    by (simp add: get_timer_def task_timer_def)
qed

lemma handled_timer:
  assumes "pre s c" and "\<And>t time. quiet t (f t time)"
  shows "handled b (kbind now (\<lambda>time. kbind (modify_task c (\<lambda>t. f t time)) (\<lambda>_. kret Same))) c s"
  using pre_quiet [OF assms(1) _ assms(2)] assms(1)
  by (auto simp: handled_def now_def wp_simps pre_def)

subsection \<open>Interrupts\<close>

definition irqs_ok :: "kenv \<Rightarrow> kstate \<Rightarrow> bool" where
  "irqs_ok env s \<longleftrightarrow> (\<forall>own irqs. task_irq_lookup env own = Some irqs \<longrightarrow>
     (\<forall>n \<in> set irqs. nvic_reg n < length (nvic_iser s) \<and> nvic_reg n < length (nvic_ispr s)))"

definition irq_op :: "(u32 \<Rightarrow> (unit, UserError) kfun) \<Rightarrow> bool" where
  "irq_op f \<longleftrightarrow> (\<forall>n s Q E H. nvic_reg n < length (nvic_iser s) \<and> nvic_reg n < length (nvic_ispr s) \<longrightarrow>
     (\<forall>s'. kframe True s s' \<and> tasks s' = tasks s \<longrightarrow> Q () s') \<longrightarrow> wp (f n) Q E H s)"

lemma irq_ops: "irq_op disable_irq" "irq_op enable_irq" "irq_op pend_software_irq"
  by (auto simp: irq_op_def disable_irq_def enable_irq_def pend_software_irq_def wp_simps kframe_def mem_frame_def)

lemma wp_for_each_irq:
  assumes "irq_op f"
  shows "(\<forall>n \<in> set irqs. nvic_reg n < length (nvic_iser s) \<and> nvic_reg n < length (nvic_ispr s)) \<Longrightarrow>
    (\<And>s'. kframe True s s' \<Longrightarrow> tasks s' = tasks s \<Longrightarrow> Q () s') \<Longrightarrow> wp (for_each_irq f irqs) Q E H s"
proof (induction irqs arbitrary: s)
  case (Cons n irqs)
  have "wp (for_each_irq f irqs) Q E H s'" if k: "kframe True s s'" "tasks s' = tasks s" for s'
  proof (rule Cons.IH)
    show "\<forall>n \<in> set irqs. nvic_reg n < length (nvic_iser s') \<and> nvic_reg n < length (nvic_ispr s')"
      using Cons.prems(1) k by (auto simp: kframe_def)
    show "Q () s''" if "kframe True s' s''" "tasks s'' = tasks s'" for s''
      using Cons.prems(2) k that kframe_trans by metis
  qed
  with assms Cons.prems(1) show ?case by (simp add: wp_simps irq_op_def)
qed (simp add: wp_simps)

lemma same_tasks_good:
  "pre s c \<Longrightarrow> kframe True s s' \<Longrightarrow> tasks s' = tasks s \<Longrightarrow> good b s c Same s'"
  by (simp add: pre_def good_def kframe_weaken)

lemma handled_irq_control:
  assumes "pre s c" and "irqs_ok env s"
  shows "handled b (irq_control env c) c s"
proof -
  note pre = assms(1) [unfolded pre_def]
  have "wp (for_each_irq f irqs) (\<lambda>_ s'. good b s c Same s') E H s"
    if "task_irq_lookup env own = Some irqs" "irq_op f" for f irqs own E H
    by (rule wp_for_each_irq) (use assms that same_tasks_good in \<open>auto simp: irqs_ok_def\<close>)
  then show ?thesis
    using pre irq_ops by (auto simp: handled_def irq_control_def wp_simps Let_def split: option.splits)
qed

lemma irq_status_fold_Ok:
  "(\<forall>n \<in> set irqs. nvic_reg n < length (nvic_iser s) \<and> nvic_reg n < length (nvic_ispr s)) \<Longrightarrow>
     \<exists>st'. irq_status_fold st irqs s = Ok st' s"
  by (induction irqs arbitrary: st)
    (simp_all add: kret_def kbind_def kget_def arch_irq_status_def)

lemma handled_irq_status:
  assumes "pre s c" and "irqs_ok env s"
  shows "handled b (irq_status env c) c s"
proof -
  note pre = assms(1) [unfolded pre_def]
  show ?thesis
  proof (cases "task_irq_lookup env \<lparr>io_task = word_of_nat c, io_notification = as_irq_status_args (save (tasks s ! c))\<rparr>")
    case None
    with pre show ?thesis by (simp add: handled_def irq_status_def wp_simps Let_def)
  next
    case (Some irqs)
    with assms(2) obtain st where "irq_status_fold 0 irqs s = (Ok st s :: (u32, UserError) kres)"
      using irq_status_fold_Ok [of irqs s 0] by (fastforce simp: irqs_ok_def)
    then have "wp (irq_status_fold 0 irqs) Q E H s = Q st s" for Q and E :: "UserError \<Rightarrow> kstate \<Rightarrow> bool" and H
      by (simp add: wp_def)
    with Some show ?thesis
      using pre pre_save [OF assms(1)] by (simp add: handled_def irq_status_def wp_simps Let_def)
  qed
qed

end
