(* ===== verification/Kern_InvKipc.thy ===== *)
theory Kern_InvKipc
  imports Kern_InvSys
begin

section \<open>The invariant through kernel IPC\<close>

text \<open>
  The operations on the kernel task. A restart needs what the build system guarantees of a
  task descriptor: the initial stack is aligned and lies in memory the task may write
  (\<open>stack_ok\<close>). After a restart no healthy task is left waiting for the old incarnation,
  which is how \<open>tinv\<close> survives the change of generation.
\<close>

subsection \<open>Messages\<close>

lemma wp_deserialize_message:
  "(\<And>m. Q m s) \<Longrightarrow> (\<And>f. E (Unrecoverable f) s) \<Longrightarrow> wp (deserialize_message de t msg) Q E H s"
  by (auto simp: deserialize_message_def usage_def wp_simps split: sum.splits option.splits)

lemma wp_serialize_response:
  assumes "i < length (tasks s)" and "regions_wf (tasks s ! i)" and "slice_ok 1 buf"
    and "\<And>n s'. kframe True s s' \<Longrightarrow> tasks s' = tasks s \<Longrightarrow> Q n s'"
    and "\<And>f s'. kframe True s s' \<Longrightarrow> tasks s' = tasks s \<Longrightarrow> E (Unrecoverable f) s'"
  shows "wp (serialize_response env (tasks s ! i) buf v) Q E H s"
proof (cases "try_write (tasks s ! i) 1 buf")
  case (Inl f)
  with assms(5) [of s] show ?thesis by (simp add: serialize_response_def wp_simps)
next
  case (Inr sl)
  then have sl: "sl = buf" by (rule try_write_slice)
  obtain r bytes where r: "ser env v (mem_bytes (mem s) (slice_base buf) (unat (slice_len buf))) = (r, bytes)"
    by fastforce
  have "kframe True s (s\<lparr>mem := mem_write (mem s) (slice_base buf) (take (unat (slice_len buf)) bytes)\<rparr>)"
    by (rule kframe_mem_write [OF assms(1,2) Inr assms(3)]) simp
  with Inr sl r assms(4,5) show ?thesis
    by (simp add: serialize_response_def wp_simps Let_def usage_def split: ser_result.splits)
qed

text \<open>An operation that ends by writing a response and its length.\<close>

lemma wp_respond:
  assumes "pre s c" and "slice_ok 1 buf"
  shows "wp (kbind (serialize_response env (tasks s ! c) buf v) (\<lambda>n.
      kbind (modify_save c (set_send_response_and_length 0 n)) (\<lambda>_. kret Same)))
      (good b s c) (bad b s c) (\<lambda>_. False) s"
proof -
  note pre = assms(1) [unfolded pre_def]
  have "regions_wf (tasks s ! c)" using pre tinv_task by (auto simp: task_ok_def)
  then have "wp (serialize_response env (tasks s ! c) buf v) (\<lambda>n s'.
      wp (kbind (modify_save c (set_send_response_and_length 0 n)) (\<lambda>_. kret Same)) (good b s c) (bad b s c) (\<lambda>_. False) s')
      (bad b s c) (\<lambda>_. False) s"
    by (intro wp_serialize_response)
      (use pre assms borrow_finish [OF assms(1)] kframe_weaken in \<open>auto simp: wp_simps\<close>)
  then show ?thesis by (simp add: wp_kbind)
qed

lemma handled_read_task_status:
  assumes "pre s c" and "slice_ok 1 r"
  shows "handled b (read_task_status env c m r) c s"
proof -
  note pre = assms(1) [unfolded pre_def]
  have "wp (deserialize_message (de_u32 env) (tasks s ! c) m) (\<lambda>index s'.
      if length (tasks s') \<le> unat index then bad b s c (usage TaskOutOfRange) s'
      else wp (kbind (serialize_response env (tasks s ! c) r (SerTaskState (state (tasks s' ! unat index)))) (\<lambda>n.
        kbind (modify_save c (set_send_response_and_length 0 n)) (\<lambda>_. kret Same)))
        (good b s c) (bad b s c) (\<lambda>_. False) s') (bad b s c) (\<lambda>_. False) s"
    by (rule wp_deserialize_message) (use pre wp_respond [OF assms] in auto)
  then show ?thesis
    using pre unfolding handled_def read_task_status_def
    by (simp add: wp_simps not_le cong: if_cong)
qed

lemma handled_read_image_id:
  "pre s c \<Longrightarrow> slice_ok 1 r \<Longrightarrow> handled b (read_image_id env c r) c s"
  using wp_respond [of s c r env "SerImageId (image_id env)" b]
  by (simp add: handled_def read_image_id_def wp_kbind wp_get_task pre_def)

lemma handled_fault_task:
  assumes "pre s c"
  shows "handled b (fault_task env c m) c s"
proof -
  note pre = assms [unfolded pre_def]
  have "wp (force_fault i f) (\<lambda>_ s'. good b s c Same (s'\<lparr>tasks := (tasks s')[c := (tasks s' ! c)\<lparr>save := g (save (tasks s' ! c))\<rparr>]\<rparr>)
      \<and> length (tasks s') = length (tasks s)) E H s"
    if "i < length (tasks s)" "i \<noteq> c" for i f g E H
  proof (rule wp_force_fault)
    fix h s' assume f: "ff_post s i h s'"
    have "pre s' c" using ff_post_pre [OF f assms] that by simp
    then show "good b s c Same (s'\<lparr>tasks := (tasks s')[c := (tasks s' ! c)\<lparr>save := g (save (tasks s' ! c))\<rparr>]\<rparr>)
      \<and> length (tasks s') = length (tasks s)"
      using pre_save [of s' c c b] ff_post_length [OF f] ff_post_tinv(2) [OF f]
      by (auto simp: pre_def intro: good_trans)
  qed (use pre that in auto)
  note ff = wp_mono [OF this]
  have "wp (deserialize_message (de_u32 env) (tasks s ! c) m) (\<lambda>index s'. wp (let index = unat index in
     if index = 0 \<or> index = c then kerr (usage IllegalTask)
     else kbind (kget tasks) (\<lambda>ts.
       if length ts \<le> index then kerr (usage TaskOutOfRange)
       else
         kbind (current_id c) (\<lambda>i.
         kbind (force_fault index (Injected i)) (\<lambda>_.
         kbind (modify_save c (set_send_response_and_length 0 0)) (\<lambda>_.
         kret Same))))) (good b s c) (bad b s c) (\<lambda>_. False) s') (bad b s c) (\<lambda>_. False) s"
    by (rule wp_deserialize_message)
      (use pre in \<open>auto simp: wp_simps Let_def not_le intro!: ff\<close>)
  with pre show ?thesis by (simp add: handled_def fault_task_def wp_kbind wp_get_task)
qed

subsection \<open>Reinitialisation\<close>

definition frame_slice :: "kenv \<Rightarrow> Task \<Rightarrow> USlice" where
  "frame_slice env t = \<lparr>slice_base = initial_stack (descriptor t) - frame_size env, slice_len = 1\<rparr>"

definition zap_slice :: "kenv \<Rightarrow> Task \<Rightarrow> RegionDesc \<Rightarrow> USlice" where
  "zap_slice env t r = \<lparr>slice_base = region_base r,
     slice_len = drop_bit 2 (initial_stack (descriptor t) - frame_size env - region_base r)\<rparr>"

definition stack_ok :: "kenv \<Rightarrow> Task \<Rightarrow> bool" where
  "stack_ok env t \<longleftrightarrow> initial_stack (descriptor t) AND 7 = 0
     \<and> frame_size env \<le> initial_stack (descriptor t)
     \<and> can_write t (frame_size env) (frame_slice env t)
     \<and> (case find (\<lambda>r. region_contains r (initial_stack (descriptor t))) (region_table t) of
          None \<Rightarrow> True
        | Some r \<Rightarrow> region_base r \<le> initial_stack (descriptor t) - frame_size env \<and> region_base r mod 4 = 0
            \<and> can_write t 4 (zap_slice env t r))"

lemma frame_size_cases: "frame_size env = 32 \<or> frame_size env = 104"
  by (simp add: frame_size_def split: arm_profile.splits)

lemma aligned_sub:
  fixes w k :: u32
  assumes "w AND 7 = 0" and "k = 32 \<or> k = 104" and "k \<le> w"
  shows "(w - k) mod 4 = 0"
proof -
  have "(7 :: u32) = mask 3" by (simp add: mask_eq_exp_minus_1)
  with assms(1) have "take_bit 3 w = 0" by (simp add: take_bit_eq_mask)
  then have "unat (take_bit 3 w) = 0" by simp
  then have "unat w mod 8 = 0" by (simp add: take_bit_eq_mod unat_mod)
  moreover have "unat k = 32 \<or> unat k = 104" using assms(2) by auto
  ultimately have "(unat w - unat k) mod 4 = 0"
    using assms(3) by (auto simp: word_le_nat_alt)
  then have "unat ((w - k) mod 4) = 0"
    using assms(3) by (simp add: unat_mod unat_sub_le)
  then show ?thesis by (simp add: unat_eq_0)
qed

lemma frame_slice_from_raw:
  assumes "stack_ok env t"
  shows "from_raw 4 (frame_size env) (initial_stack (descriptor t) - frame_size env) 1 = Inr (frame_slice env t)"
    and "slice_ok (frame_size env) (frame_slice env t)"
proof -
  let ?st = "initial_stack (descriptor t)"
  have "unat (?st - frame_size env) + unat (frame_size env) = unat ?st"
    using assms by (simp add: stack_ok_def unat_sub_le word_le_nat_alt)
  moreover have "unat ?st < 2 ^ 32" using unat_lt_u32 [of ?st] by simp
  ultimately show ok: "slice_ok (frame_size env) (frame_slice env t)"
    using frame_size_cases [of env] by (auto simp: slice_ok_def frame_slice_def)
  show "from_raw 4 (frame_size env) (?st - frame_size env) 1 = Inr (frame_slice env t)"
    using ok assms frame_size_cases [of env] aligned_sub [of ?st "frame_size env"]
    by (subst from_raw_iff) (auto simp: stack_ok_def frame_slice_def)
qed

lemma zap_slice_from_raw:
  assumes "stack_ok env t"
    and "find (\<lambda>r. region_contains r (initial_stack (descriptor t))) (region_table t) = Some r"
  shows "from_raw 4 4 (region_base r) (drop_bit 2 (initial_stack (descriptor t) - frame_size env - region_base r))
      = Inr (zap_slice env t r)"
    and "slice_ok 4 (zap_slice env t r)"
proof -
  let ?d = "initial_stack (descriptor t) - frame_size env - region_base r"
  have le: "region_base r \<le> initial_stack (descriptor t) - frame_size env" "region_base r mod 4 = 0"
    using assms by (simp_all add: stack_ok_def)
  have "unat (drop_bit 2 ?d) * 4 \<le> unat ?d"
    by (simp add: unat_drop_bit_eq drop_bit_eq_div unat_div)
  moreover have "unat (region_base r) + unat ?d < 2 ^ 32"
    using le(1) unat_lt_u32 [of "initial_stack (descriptor t) - frame_size env"]
    by (simp add: unat_sub_le word_le_nat_alt)
  ultimately show ok: "slice_ok 4 (zap_slice env t r)"
    by (simp add: slice_ok_def zap_slice_def)
  show "from_raw 4 4 (region_base r) (drop_bit 2 ?d) = Inr (zap_slice env t r)"
    using ok le by (subst from_raw_iff) (simp_all add: zap_slice_def)
qed

lemma length_words: "length (concat (map u32_bytes ws)) = 4 * length ws"
  by (induction ws) (simp_all add: u32_bytes_def)

lemma length_initial_frame: "4 * length (initial_frame env d) = unat (frame_size env)"
  by (simp add: initial_frame_def frame_size_def split: arm_profile.splits)

lemma wp_write_words:
  assumes "i < length (tasks s)" and "regions_wf (tasks s ! i)" and "can_write (tasks s ! i) sz us"
    and "slice_ok sz us" and "4 * length ws \<le> unat (slice_len us) * unat sz"
    and "\<And>s'. kframe True s s' \<Longrightarrow> tasks s' = tasks s \<Longrightarrow> Q () s'"
  shows "wp (write_words (slice_base us) ws) Q E H s"
  using kframe_mem_write [of i s sz us us "concat (map u32_bytes ws)" True] assms
  by (simp add: write_words_def wp_simps try_write_def length_words)

lemma stack_ok_cong: "descriptor t' = descriptor t \<Longrightarrow> stack_ok env t' = stack_ok env t"
  by (simp add: stack_ok_def frame_slice_def zap_slice_def can_write_def task_can_access_def region_table_def
      cong: option.case_cong)

text \<open>The two parts of the reinitialisation: clearing the stack and building the frame.\<close>

definition zap_part :: "kenv \<Rightarrow> Task \<Rightarrow> (unit, 'e) kfun" where
  "zap_part env t = (let stack = initial_stack (descriptor t); fsize = frame_size env in
     case find (\<lambda>region. region_contains region stack) (region_table t) of
       None \<Rightarrow> kret ()
     | Some region \<Rightarrow>
         kbind (uassert (region_base region \<le> stack - fsize)) (\<lambda>_.
         kbind (unwrap (from_raw 4 4 (region_base region) (drop_bit 2 (stack - fsize - region_base region)))) (\<lambda>us.
         kbind (unwrap (try_write t 4 us)) (\<lambda>zap.
         write_words (slice_base zap) (replicate (unat (slice_len zap)) 0xbaddcafe)))))"

definition frame_part :: "kenv \<Rightarrow> nat \<Rightarrow> Task \<Rightarrow> USlice \<Rightarrow> (unit, 'e) kfun" where
  "frame_part env i t us =
     kbind (unwrap (try_write t (frame_size env) us)) (\<lambda>frame.
     kbind (write_words (slice_base frame) (initial_frame env (descriptor t))) (\<lambda>_.
     modify_save i (\<lambda>s. s\<lparr>psp := slice_base frame, exc_return := EXC_RETURN_CONST\<rparr>)))"

lemma arch_reinitialize_parts:
  "arch_reinitialize env i =
     kbind (modify_save i (\<lambda>_. saved_state_default)) (\<lambda>_.
     kbind (get_task i) (\<lambda>t.
     kbind (uassert (initial_stack (descriptor t) AND 7 = 0)) (\<lambda>_.
     kbind (uassert (frame_size env \<le> initial_stack (descriptor t))) (\<lambda>_.
     kbind (unwrap (from_raw 4 (frame_size env) (initial_stack (descriptor t) - frame_size env) 1)) (\<lambda>us.
     kbind (zap_part env t) (\<lambda>_. frame_part env i t us))))))"
  by (simp add: arch_reinitialize_def zap_part_def frame_part_def Let_def)

lemma wp_zap_part:
  assumes "i < length (tasks s)" and "regions_wf (tasks s ! i)" and "stack_ok env (tasks s ! i)"
    and "\<And>s'. kframe True s s' \<Longrightarrow> tasks s' = tasks s \<Longrightarrow> Q () s'"
  shows "wp (zap_part env (tasks s ! i)) Q E H s"
proof -
  let ?t = "tasks s ! i"
  show ?thesis
  proof (cases "find (\<lambda>region. region_contains region (initial_stack (descriptor ?t))) (region_table ?t)")
    case None
    with assms(4) [of s] show ?thesis by (simp add: zap_part_def wp_kret)
  next
    case (Some r)
    have cw: "can_write ?t 4 (zap_slice env ?t r)"
      "region_base r \<le> initial_stack (descriptor ?t) - frame_size env"
      using assms(3) Some by (simp_all add: stack_ok_def)
    have "wp (write_words (slice_base (zap_slice env ?t r))
        (replicate (unat (slice_len (zap_slice env ?t r))) 0xbaddcafe)) Q E H s"
      by (rule wp_write_words [OF assms(1,2) cw(1) zap_slice_from_raw(2) [OF assms(3) Some]])
        (use assms(4) in auto)
    with Some cw zap_slice_from_raw(1) [OF assms(3) Some] show ?thesis
      by (simp add: zap_part_def uassert_def unwrap_def try_write_def wp_kbind wp_kret)
  qed
qed

lemma wp_frame_part:
  assumes "i < length (tasks s)" and "regions_wf (tasks s ! i)" and "stack_ok env (tasks s ! i)"
    and "\<And>s' sv. kframe True s s' \<Longrightarrow> tasks s' = (tasks s)[i := (tasks s ! i)\<lparr>save := sv\<rparr>] \<Longrightarrow> Q () s'"
  shows "wp (frame_part env i (tasks s ! i) (frame_slice env (tasks s ! i))) Q E H s"
proof -
  let ?t = "tasks s ! i" and ?f = "frame_slice env (tasks s ! i)"
  let ?sv = "(save ?t)\<lparr>psp := slice_base ?f, exc_return := EXC_RETURN_CONST\<rparr>"
  have cw: "can_write ?t (frame_size env) ?f" using assms(3) by (simp add: stack_ok_def)
  have "wp (write_words (slice_base ?f) (initial_frame env (descriptor ?t)))
      (\<lambda>_ s'. Q () (s'\<lparr>tasks := (tasks s)[i := ?t\<lparr>save := ?sv\<rparr>]\<rparr>) \<and> tasks s' = tasks s) E H s"
  proof (rule wp_write_words [OF assms(1,2) cw frame_slice_from_raw(2) [OF assms(3)]])
    show "4 * length (initial_frame env (descriptor ?t)) \<le> unat (slice_len ?f) * unat (frame_size env)"
      by (simp add: length_initial_frame frame_slice_def)
    fix s' assume s': "kframe True s s'" "tasks s' = tasks s"
    have "kframe True s (s'\<lparr>tasks := (tasks s')[i := ?t\<lparr>save := ?sv\<rparr>]\<rparr>)"
      using s' assms(1) by (intro kframe_update) simp_all
    with s' assms(4) show "Q () (s'\<lparr>tasks := (tasks s)[i := ?t\<lparr>save := ?sv\<rparr>]\<rparr>) \<and> tasks s' = tasks s"
      by simp
  qed
  then have "wp (write_words (slice_base ?f) (initial_frame env (descriptor ?t)))
      (\<lambda>_ s'. wp (modify_save i (\<lambda>s. s\<lparr>psp := slice_base ?f, exc_return := EXC_RETURN_CONST\<rparr>)) Q E H s') E H s"
    by (rule wp_mono) (use assms(1) in \<open>auto simp: wp_simps\<close>)
  with cw show ?thesis
    by (simp add: frame_part_def unwrap_def try_write_def wp_kbind wp_kret)
qed

lemma wp_arch_reinitialize:
  assumes "i < length (tasks s)" and "regions_wf (tasks s ! i)" and "stack_ok env (tasks s ! i)"
    and "\<And>s' sv. kframe True s s' \<Longrightarrow> tasks s' = (tasks s)[i := (tasks s ! i)\<lparr>save := sv\<rparr>] \<Longrightarrow> Q () s'"
  shows "wp (arch_reinitialize env i) Q E H s"
proof -
  define t where "t = (tasks s ! i)\<lparr>save := saved_state_default\<rparr>"
  define s1 where "s1 = s\<lparr>tasks := (tasks s)[i := t]\<rparr>"
  have t1: "tasks s1 ! i = t" "i < length (tasks s1)" using assms(1) by (simp_all add: s1_def)
  have st: "stack_ok env t" using assms(3) stack_ok_cong [of t "tasks s ! i" env] by (simp add: t_def)
  have rw: "regions_wf t" using assms(2) by (simp add: t_def regions_wf_def region_table_def)
  have k1: "kframe True s s1" unfolding s1_def t_def by (rule kframe_update) (use assms(1) in simp_all)
  have fr: "wp (frame_part env i (tasks s2 ! i) (frame_slice env (tasks s2 ! i))) Q E H s2"
    if s2: "kframe True s1 s2" "tasks s2 = tasks s1" for s2
  proof (rule wp_frame_part)
    fix s' sv assume s': "kframe True s2 s'" "tasks s' = (tasks s2)[i := (tasks s2 ! i)\<lparr>save := sv\<rparr>]"
    have "kframe True s s'" using k1 s2 s' kframe_trans by blast
    with s' s2 t1 show "Q () s'" by (intro assms(4)) (simp_all add: s1_def t_def)
  qed (use s2 t1 st rw in simp_all)
  have "wp (zap_part env t) (\<lambda>_ s'. wp (frame_part env i t (frame_slice env t)) Q E H s') E H s1"
    using wp_zap_part [OF t1(2), of env "\<lambda>_ s'. wp (frame_part env i t (frame_slice env t)) Q E H s'" E H]
      t1 st rw fr by simp
  then show ?thesis
    using st assms(1) frame_slice_from_raw(1) [OF st] t1
    by (simp add: arch_reinitialize_parts wp_simps uassert_def unwrap_def stack_ok_def flip: t_def s1_def)
qed

subsection \<open>Restart\<close>

lemma length_condole_loop [simp]: "length (condole_loop c i old k ts) = length ts"
  by (induction ts arbitrary: k) simp_all

lemma nth_condole_loop:
  "j < length ts \<Longrightarrow> condole_loop c i old k ts ! j =
     (if k + j = c \<or> k + j = i then ts ! j else condole old (ts ! j))"
  by (induction ts arbitrary: k j) (auto simp: nth_Cons split: nat.splits)

lemma condole_frame [simp]:
  "same_task t (condole old t)" "generation (condole old t) = generation t"
  by (auto simp: condole_def same_task_def Let_def split: TaskState.splits SchedState.splits option.splits)

text \<open>A condoled task no longer names the old incarnation.\<close>

definition waits_for :: "TaskState \<Rightarrow> TaskId \<Rightarrow> bool" where
  "waits_for st p \<longleftrightarrow> st = Healthy (InSend p) \<or> st = Healthy (InReply p) \<or> st = Healthy (InRecv (Some p))"

lemma condole_state:
  "state (condole old t) = (if waits_for (state t) old then Healthy Runnable else state t)"
  by (auto simp: condole_def waits_for_def Let_def split: TaskState.splits SchedState.splits option.splits)

lemma peer_ok_iff: "peer_ok ts st \<longleftrightarrow> (\<forall>p. waits_for st p \<longrightarrow> live_id ts p \<or> p = KERNEL \<and> st = Healthy (InRecv (Some p)))"
  by (auto simp: peer_ok_def waits_for_def split: TaskState.splits SchedState.splits option.splits)

lemma tinv_restart:
  assumes inv: "tinv ts" and i: "i < length ts" and run: "is_runnable (ts ! c)"
    and t: "same_task (ts ! i) t" "state t = Healthy Stopped \<or> state t = Healthy Runnable"
  shows "tinv (condole_loop c i (task_id ts i) 0 (ts[i := t]))" (is "tinv ?N")
proof -
  let ?old = "task_id ts i"
  have nth: "?N ! j = (if j = i then t else if j = c then ts ! c else condole ?old (ts ! j))" if "j < length ts" for j
    using that i by (simp add: nth_condole_loop)
  have live: "live_id ?N p" if "live_id ts p" "tid_index p \<noteq> i" for p
    using that nth [of "tid_index p"] by (auto simp: live_id_def task_generation_def)
  have other: "live_id ?N p" if "live_id ts p" "p \<noteq> ?old" for p
    using that live_id_eq live by blast
  have "peer_ok ?N (state (?N ! j))" if j: "j < length ts" for j
  proof -
    consider "j = i" | "j \<noteq> i" "j = c" | "j \<noteq> i" "j \<noteq> c" by blast
    then show ?thesis
    proof cases
      case 3
      have "peer_ok ts (state (ts ! j))" using tinv_task [OF inv j] by (simp add: task_ok_def)
      with 3 j nth show ?thesis
        by (auto simp: condole_state peer_ok_iff waits_for_def intro: other)
    qed (use nth [OF j] run t(2) in \<open>auto simp: is_runnable_def\<close>)
  qed
  moreover have "same_task (ts ! j) (?N ! j)" if "j < length ts" for j
    using nth [OF that] t(1) by auto
  ultimately show ?thesis
    using inv by (auto simp: tinv_def task_ok_def same_task_def regions_wf_def region_table_def)
qed

lemma restart_good:
  assumes "pre s c" and "i < length (tasks s)" and "kframe True s s1" and "tasks s1 = (tasks s)[i := t]"
    and "state t = Healthy Stopped \<or> state t = Healthy Runnable"
  shows "kframe True s (s1\<lparr>tasks := condole_loop c i (task_id (tasks s) i) 0 (tasks s1)\<rparr>)"
    and "tinv (condole_loop c i (task_id (tasks s) i) 0 (tasks s1))"
proof -
  note pre = assms(1) [unfolded pre_def]
  have st: "same_task (tasks s ! i) t"
    using assms(2-4) by (auto simp: kframe_def)
  show "tinv (condole_loop c i (task_id (tasks s) i) 0 (tasks s1))"
    unfolding assms(4) by (rule tinv_restart) (use pre assms st in auto)
  have "same_task (tasks s ! j) (condole_loop c i (task_id (tasks s) i) 0 (tasks s1) ! j)"
    if "j < length (tasks s)" for j
    using that assms(2,4) st by (auto simp: nth_condole_loop nth_list_update)
  then show "kframe True s (s1\<lparr>tasks := condole_loop c i (task_id (tasks s) i) 0 (tasks s1)\<rparr>)"
    using assms(3) by (auto simp: kframe_def mem_frame_def)
qed

definition stacks_ok :: "kenv \<Rightarrow> kstate \<Rightarrow> bool" where
  "stacks_ok env s \<longleftrightarrow> (\<forall>t \<in> set (tasks s). stack_ok env t)"

lemma wp_reinitialize:
  assumes "tinv (tasks s)" and "i < length (tasks s)" and "stacks_ok env s"
    and "\<And>s' sv. kframe True s s' \<Longrightarrow>
      tasks s' = (tasks s)[i := (reinitialize_fields (tasks s ! i))\<lparr>save := sv\<rparr>] \<Longrightarrow> Q () s'"
  shows "wp (reinitialize env i) Q E H s"
proof -
  let ?t = "reinitialize_fields (tasks s ! i)"
  let ?s = "s\<lparr>tasks := (tasks s)[i := ?t]\<rparr>"
  have st: "same_task (tasks s ! i) ?t" by (simp add: reinitialize_fields_def)
  have k: "kframe True s ?s" using assms(2) st by (intro kframe_update) simp_all
  have "stack_ok env ?t"
    using assms(2,3) st stack_ok_cong [of ?t "tasks s ! i" env] by (simp add: stacks_ok_def same_task_def)
  moreover have "regions_wf ?t"
    using tinv_task [OF assms(1,2)] st by (simp add: task_ok_def regions_wf_def region_table_def same_task_def)
  ultimately have "wp (arch_reinitialize env i) Q E H ?s"
    by (intro wp_arch_reinitialize assms(4)) (use assms(2) kframe_trans [OF k] in auto)
  with assms(2) show ?thesis by (simp add: reinitialize_def wp_simps)
qed

lemma handled_restart_task:
  assumes "pre s c" and "stacks_ok env s"
  shows "handled b (restart_task env c m) c s"
proof -
  note pre = assms(1) [unfolded pre_def]
  let ?R = "\<lambda>_. False"
  let ?body = "\<lambda>(index, start). let index = unat index in
     kbind (kget tasks) (\<lambda>ts.
     if length ts \<le> index then kerr (usage TaskOutOfRange)
     else
       kbind (current_id index) (\<lambda>old_id.
       kbind (reinitialize env index) (\<lambda>_.
       kbind (if start then set_state index Runnable else kret ()) (\<lambda>_.
       kbind (kmodify (\<lambda>s. s\<lparr>tasks := condole_loop c index old_id 0 (tasks s)\<rparr>)) (\<lambda>_.
       if index = c then (if \<not> start then kret Other else kret Same)
       else kbind (modify_save c (set_send_response_and_length 0 0)) (\<lambda>_. kret Same))))))"
  have "wp (?body (index, start)) (good b s c) (bad b s c) ?R s" for index start
  proof (cases "unat index < length (tasks s)")
    case False
    with pre show ?thesis by (simp add: wp_simps Let_def)
  next
    case i: True
    let ?i = "unat index" and ?old = "task_id (tasks s) (unat index)"
    have fin: "good b s c (if ?i = c \<and> \<not> start then Other else Same) (s2\<lparr>tasks :=
          (if ?i = c then ts2 else ts2[c := (ts2 ! c)\<lparr>save := sv\<rparr>])\<rparr>)"
      if s2: "kframe True s s2" "tasks s2 = (tasks s)[?i := t]"
        and t: "state t = (if start then Healthy Runnable else Healthy Stopped)"
        and ts2: "ts2 = condole_loop c ?i ?old 0 (tasks s2)" for s2 t ts2 sv
    proof -
      note rg = restart_good [OF assms(1) i s2] and len = kframe_length [OF s2(1)]
      have c: "ts2 ! c = (if ?i = c then t else tasks s ! c)" and lc: "c < length ts2"
        using pre i s2 ts2 by (simp_all add: nth_condole_loop)
      show ?thesis
      proof (cases "?i = c")
        case True
        with rg t c i pre ts2 show ?thesis by (auto simp: good_def kframe_weaken is_runnable_def)
      next
        case False
        have "kframe True s (s2\<lparr>tasks := ts2\<rparr>)" using rg(1) t ts2 by simp
        from kframe_update [OF this, of c "(ts2 ! c)\<lparr>save := sv\<rparr>"]
        have "kframe b s (s2\<lparr>tasks := ts2[c := (ts2 ! c)\<lparr>save := sv\<rparr>]\<rparr>)"
          using pre by (simp add: kframe_weaken)
        moreover have "tinv (ts2[c := (ts2 ! c)\<lparr>save := sv\<rparr>])"
          using rg(2) t ts2 lc by (intro tinv_quiet) simp_all
        ultimately show ?thesis
          using False c lc pre by (simp add: good_def is_runnable_def)
      qed
    qed
    have "wp (reinitialize env ?i) (\<lambda>_ s'. wp (
        kbind (if start then set_state ?i Runnable else kret ()) (\<lambda>_.
        kbind (kmodify (\<lambda>s. s\<lparr>tasks := condole_loop c ?i ?old 0 (tasks s)\<rparr>)) (\<lambda>_.
        if ?i = c then (if \<not> start then kret Other else kret Same)
        else kbind (modify_save c (set_send_response_and_length 0 0)) (\<lambda>_. kret Same))))
        (good b s c) (bad b s c) ?R s') (bad b s c) ?R s"
    proof (rule wp_reinitialize [OF _ i assms(2)])
      fix s' sv assume s': "kframe True s s'"
        "tasks s' = (tasks s)[?i := (reinitialize_fields (tasks s ! ?i))\<lparr>save := sv\<rparr>]"
      let ?t = "(reinitialize_fields (tasks s ! ?i))\<lparr>save := sv\<rparr>"
      have h: "state ?t = Healthy Stopped" by (simp add: reinitialize_fields_def task_state_default_def)
      have kr: "kframe True s (s'\<lparr>tasks := (tasks s)[?i := ?t\<lparr>state := Healthy Runnable\<rparr>]\<rparr>)"
        using kframe_update [OF s'(1) i, of "?t\<lparr>state := Healthy Runnable\<rparr>"] s'(2) i by simp
      show "wp (
        kbind (if start then set_state ?i Runnable else kret ()) (\<lambda>_.
        kbind (kmodify (\<lambda>s. s\<lparr>tasks := condole_loop c ?i ?old 0 (tasks s)\<rparr>)) (\<lambda>_.
        if ?i = c then (if \<not> start then kret Other else kret Same)
        else kbind (modify_save c (set_send_response_and_length 0 0)) (\<lambda>_. kret Same))))
        (good b s c) (bad b s c) ?R s'"
        using fin [OF s' _ refl] fin [OF kr _ _ refl] i pre s'(2) h
        by (cases start; cases "?i = c") (simp_all add: wp_simps)
    qed (use pre in auto)
    with i show ?thesis by (simp add: wp_kbind wp_kget wp_current_id Let_def)
  qed
  then have "wp (deserialize_message (de_u32_bool env) (tasks s ! c) m)
      (\<lambda>r s'. wp (?body r) (good b s c) (bad b s c) ?R s') (bad b s c) ?R s"
    by (intro wp_deserialize_message) (use pre in auto)
  with pre show ?thesis by (simp add: handled_def restart_task_def wp_kbind wp_get_task)
qed

subsection \<open>Dumps and software interrupts\<close>

lemma handled_get_task_dump_region:
  assumes "pre s c" and "slice_ok 1 r"
  shows "handled b (get_task_dump_region env c m r) c s"
proof -
  note pre = assms(1) [unfolded pre_def]
  let ?body = "\<lambda>(index, rindex). kbind (kget tasks) (\<lambda>ts.
     if length ts \<le> unat index then kerr (usage TaskOutOfRange)
     else
       kbind (get_task (unat index)) (\<lambda>target.
       let rval =
         (if rindex = 0
          then Some \<lparr>dump_base = tcb_base env (unat index), dump_size = tcb_size env\<rparr>
          else let rs = filter dumpable (region_table target); n = unat rindex - 1 in
            if n < length rs
            then Some \<lparr>dump_base = region_base (rs ! n), dump_size = region_size (rs ! n)\<rparr>
            else None) in
       kbind (serialize_response env (tasks s ! c) r (SerDumpRegion rval)) (\<lambda>response_len.
       kbind (modify_save c (set_send_response_and_length 0 response_len)) (\<lambda>_. kret Same))))"
  have "wp (?body (index, rindex)) (good b s c) (bad b s c) (\<lambda>_. False) s" for index rindex
    unfolding prod.case wp_kbind [of "kget tasks"] wp_kget wp_if wp_kerr wp_kbind [of "get_task _"] wp_get_task Let_def
    by (simp add: wp_respond [OF assms] pre)
  then have "wp (deserialize_message (de_u32_u32 env) (tasks s ! c) m)
      (\<lambda>q s'. wp (?body q) (good b s c) (bad b s c) (\<lambda>_. False) s') (bad b s c) (\<lambda>_. False) s"
    by (intro wp_deserialize_message) (use pre in auto)
  with pre show ?thesis by (simp add: handled_def get_task_dump_region_def wp_kbind wp_get_task)
qed

lemma handled_software_irq:
  assumes "pre s c" and "irqs_ok env s"
  shows "handled b (software_irq env c m) c s"
proof -
  note pre = assms(1) [unfolded pre_def]
  have ops: "wp (for_each_irq pend_software_irq irqs) (\<lambda>_ s'. wp (kbind (modify_save c (set_send_response_and_length 0 0)) (\<lambda>_. kret Same))
      (good b s c) (bad b s c) (\<lambda>_. False) s') (bad b s c) (\<lambda>_. False) s"
    if "task_irq_lookup env own = Some irqs" for own irqs
    by (rule wp_for_each_irq [OF irq_ops(3)])
      (use assms(2) that pre borrow_finish [OF assms(1)] kframe_weaken in \<open>auto simp: irqs_ok_def wp_simps\<close>)
  let ?body = "\<lambda>(index, notification). kbind (kget tasks) (\<lambda>ts.
      if length ts \<le> unat index then kerr (usage TaskOutOfRange)
      else case task_irq_lookup env \<lparr>io_task = index, io_notification = notification\<rparr> of
          None \<Rightarrow> kerr (usage NoIrq)
        | Some irqs \<Rightarrow>
            kbind (for_each_irq pend_software_irq irqs) (\<lambda>_.
            kbind (modify_save c (set_send_response_and_length 0 0)) (\<lambda>_. kret Same)))"
  have "wp (?body (index, notification)) (good b s c) (bad b s c) (\<lambda>_. False) s" for index notification
    using pre ops by (simp add: wp_kbind wp_kget wp_if wp_kerr wp_case_option split: option.splits)
  then have "wp (deserialize_message (de_u32_u32 env) (tasks s ! c) m)
      (\<lambda>q s'. wp (?body q) (good b s c) (bad b s c) (\<lambda>_. False) s') (bad b s c) (\<lambda>_. False) s"
    by (intro wp_deserialize_message) (use pre in auto)
  with pre show ?thesis
    by (cases "c = 0") (auto simp: handled_def software_irq_def wp_kbind wp_get_task wp_kerr)
qed

text \<open>
  Reading a dump region may panic, in an image with dumps and on a request of the supervisor
  only: see \<open>tcb_subslice\<close>.
\<close>

definition halts_ok :: "kenv \<Rightarrow> nat \<Rightarrow> halt \<Rightarrow> bool" where
  "halts_ok env c h \<longleftrightarrow> h = KReset \<or> h = KPanic \<and> feature_dump env \<and> c = 0"

definition serviced :: "kenv \<Rightarrow> bool \<Rightarrow> (NextTask, UserError) kfun \<Rightarrow> nat \<Rightarrow> kstate \<Rightarrow> bool" where
  "serviced env b m c s = wp m (good b s c) (bad b s c) (halts_ok env c) s"

lemma handled_serviced: "handled b m c s \<Longrightarrow> serviced env b m c s"
  unfolding handled_def serviced_def by (erule wp_mono) (auto simp: halts_ok_def)

lemma wp_tcb_subslice:
  "wp (tcb_subslice env t off len) Q E H s =
     (if len < off \<or> tcb_size env < len then H KPanic
      else Q (drop (unat off) (take (unat len) (tcb_bytes env t))) s)"
  by (simp add: tcb_subslice_def wp_simps)

lemma serviced_read_task_dump_region:
  assumes "pre s c" and "slice_ok 1 r" and "feature_dump env"
  shows "serviced env b (read_task_dump_region env c m r) c s"
proof (cases "c = 0")
  case False
  with assms(1) show ?thesis by (simp add: serviced_def read_task_dump_region_def wp_kerr pre_def)
next
  case c: True
  note pre = assms(1) [unfolded pre_def]
  let ?G = "good b s c" and ?B = "bad b s c" and ?H = "halts_ok env c"
  have hp: "?H KPanic" using c assms(3) by (simp add: halts_ok_def)
  have rw: "regions_wf (tasks s ! c)" using pre tinv_task by (auto simp: task_ok_def)
  have fin: "wp (kbind (modify_save c f) (\<lambda>_. kret Same)) ?G ?B ?H s'"
    if "kframe b s s'" "tasks s' = tasks s" for f s'
    using borrow_finish [OF assms(1) that] that pre by (simp add: wp_simps)
  have wr: "wp (kbind (klift (map_sum Unrecoverable id (try_write (tasks s ! c) 1 r))) (\<lambda>to.
        let copy_len = min (unat (slice_len to)) (length tcb) in
        kbind (kmodify (\<lambda>s. s\<lparr>mem := mem_write (mem s) (slice_base to) (take copy_len tcb)\<rparr>)) (\<lambda>_.
        kbind (modify_save c (set_send_response_and_length 0 (word_of_nat copy_len))) (\<lambda>_. kret Same))))
      ?G ?B ?H s" for tcb
  proof (cases "try_write (tasks s ! c) 1 r")
    case (Inr to)
    have t: "to = r" using Inr by (rule try_write_slice)
    have "kframe b s (s\<lparr>mem := mem_write (mem s) (slice_base r) (take (min (unat (slice_len r)) (length tcb)) tcb)\<rparr>)"
      using pre by (intro kframe_mem_write [OF _ rw Inr assms(2)]) simp_all
    from fin [OF this] Inr t show ?thesis
      by (simp add: wp_kbind wp_klift wp_kmodify Let_def)
  qed (use pre in \<open>simp add: wp_kbind wp_klift\<close>)
  have cp: "wp (kmatch (safe_copy_dma i us c r)
      (\<lambda>n. kbind (modify_save c (set_send_response_and_length 0 n)) (\<lambda>_. kret Same))
      (\<lambda>it. kmap_err Unrecoverable (apply_to_src it c))) ?G ?B ?H s" if i: "i < length (tasks s)" "i \<noteq> c" for i us
    unfolding wp_kmatch safe_copy_dma_def
  proof (rule wp_copy_with [where b = b])
    fix it :: InteractFault assume "fault_src it \<noteq> None \<or> fault_dst it \<noteq> None"
    then show "wp (kmap_err Unrecoverable (apply_to_src it c)) ?G ?B ?H s"
      unfolding wp_kmap_err
      by (intro wp_apply_to_src) (use pre ff_post_good ff_post_tinv in auto)
  qed (use pre i assms(2) fin in auto)
  let ?body = "\<lambda>(index, region). let index = unat index in
      kbind (kget tasks) (\<lambda>ts.
      if index = c \<or> length ts \<le> index then kerr (usage TaskOutOfRange)
      else
        kbind (index2_distinct c index) (\<lambda>(caller_task, target_task).
        kbind (klift (map_sum usage id (byte_slice (dump_base region) (dump_size region)))) (\<lambda>from.
        let base = tcb_base env index; tcb_end = base + tcb_size env in
        if base \<le> slice_base from \<and> end_addr 1 from \<le> tcb_end then
          kbind (tcb_subslice env target_task (slice_base from - base) (slice_len from)) (\<lambda>tcb.
          kbind (klift (map_sum Unrecoverable id (try_write caller_task 1 r))) (\<lambda>to.
          let copy_len = min (unat (slice_len to)) (length tcb) in
          kbind (kmodify (\<lambda>s. s\<lparr>mem := mem_write (mem s) (slice_base to) (take copy_len tcb)\<rparr>)) (\<lambda>_.
          kbind (modify_save c (set_send_response_and_length 0 (word_of_nat copy_len))) (\<lambda>_.
          kret Same))))
        else
          kmatch (safe_copy_dma index from c r)
            (\<lambda>response_len.
               kbind (modify_save c (set_send_response_and_length 0 response_len)) (\<lambda>_. kret Same))
            (\<lambda>it. kmap_err Unrecoverable (apply_to_src it c)))))"
  have "wp (?body (index, region)) ?G ?B ?H s" for index region
    using pre hp wr cp
    by (cases "unat index = c \<or> length (tasks s) \<le> unat index"; cases "byte_slice (dump_base region) (dump_size region)")
      (simp_all add: wp_kbind [of "kget tasks"] wp_kget wp_kerr wp_index2_distinct wp_kbind [of "index2_distinct _ _"]
        wp_kbind [of "klift (Inl _)"] wp_kbind [of "klift (Inr _)"] wp_kbind [of "tcb_subslice _ _ _ _"] wp_tcb_subslice wp_klift wp_khalt wp_kret wp_if Let_def not_le
        del: length_drop length_take)
  then have "wp (deserialize_message (de_u32_region env) (tasks s ! c) m)
      (\<lambda>q s'. wp (?body q) ?G ?B ?H s') ?B ?H s"
    by (intro wp_deserialize_message) (use pre in auto)
  with c pre show ?thesis
    by (auto simp: serviced_def read_task_dump_region_def wp_kbind wp_get_task)
qed

lemma serviced_kernel_message:
  assumes "pre s c" and "stacks_ok env s" and "irqs_ok env s"
  shows "serviced env b (handle_kernel_message env c) c s"
proof -
  note pre = assms(1) [unfolded pre_def] and ok = arg_slices_ok(2)
  note hs = handled_serviced [unfolded serviced_def, where env = env]
  note ops = handled_read_task_status [OF assms(1), THEN hs] handled_restart_task [OF assms(1,2), THEN hs]
    handled_fault_task [OF assms(1), THEN hs] handled_read_image_id [OF assms(1), THEN hs]
    handled_get_task_dump_region [OF assms(1), THEN hs] handled_software_irq [OF assms(1,3), THEN hs]
    serviced_read_task_dump_region [OF assms(1), unfolded serviced_def]
  have "wp reset (good b s c) (bad b s c) (halts_ok env c) s"
    by (simp add: reset_def wp_khalt halts_ok_def)
  with pre ops ok show ?thesis
    by (auto simp: serviced_def handle_kernel_message_def wp_kbind wp_get_task wp_klift wp_kerr Let_def
        split: option.splits Kipcnum.splits sum.splits)
qed

end
