(* ===== verification/Kern_Main.thy ===== *)
theory Kern_Main
  imports Kern_InvKipc
begin

section \<open>Entry points and reachable states\<close>

text \<open>
  The invariant of the whole kernel, \<open>kinv\<close>: the task table invariant, a runnable current
  task, the table not in use, and an image that fits the hardware. Every entry point keeps
  it; \<open>kstep\<close> interleaves them with steps of the running task.
\<close>

subsection \<open>Dispatch\<close>

lemma serviced_dispatch:
  assumes "pre s c" and "stacks_ok env s" and "irqs_ok env s"
  shows "serviced env (leases_ok s) (dispatch env nr c) c s"
proof -
  note hs = handled_serviced [where env = env]
  have send: "serviced env (leases_ok s) (send env c) c s"
  proof (cases "send_callee (as_send_args (save (tasks s ! c))) = KERNEL")
    case True
    with serviced_kernel_message [OF assms, of "leases_ok s"] assms(1) show ?thesis
      by (simp add: serviced_def send_def wp_kbind wp_get_task pre_def Let_def)
  qed (rule hs [OF handled_send [OF assms(1)]])
  have "serviced env (leases_ok s) (kerr (usage BadSyscallNumber)) c s"
    using assms(1) by (simp add: serviced_def wp_kerr pre_def)
  then show ?thesis
    unfolding dispatch_def
    using send hs [OF handled_recv [OF assms(1)]] hs [OF handled_reply [OF assms(1)]]
      hs [OF handled_timer [OF assms(1) quiet_timers(1)]] hs [OF handled_timer [OF assms(1) quiet_timers(2)]]
      hs [OF handled_borrow_read [OF assms(1)]] hs [OF handled_borrow_write [OF assms(1)]]
      hs [OF handled_borrow_info [OF assms(1)]] hs [OF handled_irq_control [OF assms(1,3)]]
      hs [OF handled_explicit_panic [OF assms(1)]] hs [OF handled_refresh_task_id [OF assms(1)]]
      hs [OF handled_post [OF assms(1)]] hs [OF handled_reply_fault [OF assms(1)]]
      hs [OF handled_irq_status [OF assms(1,3)]]
    by (simp split: option.split Sysnum.split)
qed

lemma bad_recoverable_save:
  assumes "bad b s c (Recoverable code h) s'" and "c < length (tasks s)"
  shows "good b s c h (s'\<lparr>tasks := (tasks s')[c := (tasks s' ! c)\<lparr>save := sv\<rparr>]\<rparr>)"
proof -
  have "kframe b s s'" "tinv (tasks s')" and h: "hint_ok c h s'" and l: "length (tasks s') = length (tasks s)"
    using assms(1) by (auto simp: bad_def kframe_def)
  moreover have "is_runnable ((tasks s')[c := (tasks s' ! c)\<lparr>save := sv\<rparr>] ! j) = is_runnable (tasks s' ! j)" for j
    using assms(2) l by (cases "j = c") (simp_all add: is_runnable_def)
  ultimately show ?thesis
    using assms(2) by (auto simp: good_def hint_ok_def tinv_quiet is_runnable_def intro: kframe_update split: NextTask.splits)
qed

lemma wp_safe_syscall_entry:
  assumes "pre s c" and "stacks_ok env s" and "irqs_ok env s"
  shows "wp (safe_syscall_entry env nr c) (good (leases_ok s) s c) E (halts_ok env c) s"
proof -
  let ?b = "leases_ok s"
  have "wp (case e of Recoverable code hint \<Rightarrow> kbind (modify_save c (set_error_response code)) (\<lambda>_. kret hint)
      | Unrecoverable fault \<Rightarrow> force_fault c fault) (good ?b s c) E (halts_ok env c) s'"
    if b: "bad ?b s c e s'" for e s'
  proof (cases e)
    case (Recoverable code h)
    have "length (tasks s') = length (tasks s)" using b by (auto simp: bad_def dest: kframe_length)
    with Recoverable bad_recoverable_save [OF b [unfolded Recoverable]] assms(1) show ?thesis
      by (simp add: wp_simps pre_def)
  next
    case (Unrecoverable f)
    with b have k: "kframe ?b s s'" and t: "tinv (tasks s')" by simp_all
    have "wp (force_fault c f) (good ?b s c) E (halts_ok env c) s'"
      by (rule wp_force_fault)
        (use t k assms(1) kframe_length [OF k] ff_post_good good_trans in \<open>auto simp: pre_def\<close>)
    with Unrecoverable show ?thesis by simp
  qed
  then show ?thesis
    using serviced_dispatch [OF assms, of nr]
    unfolding safe_syscall_entry_def wp_kmatch serviced_def
    by (elim wp_mono) (simp_all add: wp_kret)
qed

subsection \<open>Context switch\<close>

definition region_mpu_ok :: "RegionDesc \<Rightarrow> bool" where
  "region_mpu_ok r \<longleftrightarrow> 32 \<le> region_size r \<and> region_wf r"

definition mpus_ok :: "kstate \<Rightarrow> bool" where
  "mpus_ok s \<longleftrightarrow> (\<forall>t \<in> set (tasks s). \<forall>r \<in> set (region_table t). region_mpu_ok r)"

lemma leading_zeros_le:
  assumes "2 \<le> w"
  shows "leading_zeros w \<le> 30"
proof -
  have "\<exists>i. 1 \<le> i \<and> i < 32 \<and> bit w i"
  proof (rule ccontr)
    assume no: "\<nexists>i. 1 \<le> i \<and> i < 32 \<and> bit w i"
    have "bit (take_bit 1 w) n = bit w n" if "n < 32" for n
    proof (cases "n = 0")
      case False
      with no that have "\<not> bit w n" by (metis One_nat_def Suc_leI neq0_conv)
      with False show ?thesis by (simp add: bit_take_bit_iff)
    qed (simp add: bit_take_bit_iff bit_0)
    then have "take_bit 1 w = w" by (intro bit_word_eqI) simp
    then have "unat w = take_bit 1 (unat w)" by (metis unsigned_take_bit_eq)
    then have "unat w < 2" using take_bit_nat_less_exp [of 1 "unat w"] by simp
    with assms show False by (simp add: word_le_nat_alt)
  qed
  then obtain i where i: "i \<in> set (rev [1..<32])" "\<not> \<not> bit w i" by auto
  have sp: "rev [0..<32] = rev [1..<32] @ [0]" by (simp add: upt_rec)
  have "length (takeWhile (\<lambda>i. \<not> bit w i) (rev [1..<32])) < length (rev [1..<(32::nat)])"
    using i by (metis length_takeWhile_le takeWhile_eq_all_conv le_neq_implies_less takeWhile_eq_take take_all order_refl)
  then have "length (takeWhile (\<lambda>i. \<not> bit w i) (rev [1..<32])) \<le> 30" by simp
  then show ?thesis
    unfolding leading_zeros_def sp using takeWhile_append1 [of i "rev [1..<32]" "\<lambda>i. \<not> bit w i" "[0]"] i by simp
qed

lemma mpu_region_v7_Some:
  assumes "region_mpu_ok r"
  shows "\<exists>m'. mpu_region_v7 i r m = Some m'"
proof -
  have "(2 :: u32) \<le> 32" by simp
  with assms have "2 \<le> region_size r" unfolding region_mpu_ok_def by (meson order_trans)
  then have "\<not> 30 < leading_zeros (region_size r)" using leading_zeros_le by (simp add: not_less)
  then show ?thesis by (simp add: mpu_region_v7_def Let_def split: prod.splits)
qed

lemma mpu_region_v8_Some:
  assumes "region_mpu_ok r"
  shows "\<exists>m'. mpu_region_v8 i r m = Some m'"
proof -
  have "unat (region_base r) + unat (region_size r) < 2 ^ 32" "32 \<le> unat (region_size r)"
    using assms by (simp_all add: region_mpu_ok_def region_wf_def word_le_nat_alt)
  then show ?thesis
    by (simp add: mpu_region_v8_def checked_add_def checked_sub_def word_le_nat_alt unat_add_nowrap Let_def
        split: prod.splits)
qed

lemma mpu_regions_Some:
  "(\<And>i r m. r \<in> set rs \<Longrightarrow> \<exists>m'. f i r m = Some m') \<Longrightarrow> \<exists>m'. mpu_regions f i rs m = Some m'"
proof (induction rs arbitrary: i m)
  case (Cons r rs)
  from Cons.prems [of r i m] obtain m1 where "f i r m = Some m1" by auto
  with Cons.IH [of "Suc i" m1] Cons.prems show ?case by auto
qed simp

lemma wp_apply_memory_protection:
  assumes "\<forall>r \<in> set (region_table t). region_mpu_ok r" and "\<And>m. Q () (s\<lparr>mpu := m\<rparr>)"
  shows "wp (apply_memory_protection env t) Q E H s"
  using assms mpu_regions_Some [of "region_table t" mpu_region_v7 0 "mpu s"]
    mpu_regions_Some [of "region_table t" mpu_region_v8 0 "disable_mpu (mpu s)"]
    mpu_region_v7_Some mpu_region_v8_Some
  by (auto simp: apply_memory_protection_def apply_memory_protection_v7_def apply_memory_protection_v8_def
      wp_simps split: arm_profile.splits option.splits)

lemma wp_switch_to:
  assumes "mpus_ok s" and "i < length (tasks s)" and "\<And>m. Q () (s\<lparr>mpu := m, current := i\<rparr>)"
  shows "wp (switch_to env i) Q E H s"
proof -
  have "wp (apply_memory_protection env (tasks s ! i)) (\<lambda>_ s'. Q () (s'\<lparr>current := i\<rparr>)) E H s"
    by (rule wp_apply_memory_protection) (use assms in \<open>auto simp: mpus_ok_def\<close>)
  with assms(2) show ?thesis by (simp add: switch_to_def set_current_task_def wp_simps)
qed

subsection \<open>The invariant of the kernel\<close>

definition owners_ok :: "kenv \<Rightarrow> kstate \<Rightarrow> bool" where
  "owners_ok env s \<longleftrightarrow> (\<forall>n own. irq_task_lookup env n = Some own \<longrightarrow>
     unat (io_task own) < length (tasks s) \<and> nvic_reg n < length (nvic_iser s))"

definition image_ok :: "kenv \<Rightarrow> kstate \<Rightarrow> bool" where
  "image_ok env s \<longleftrightarrow> stacks_ok env s \<and> irqs_ok env s \<and> mpus_ok s \<and> owners_ok env s"

definition kinv :: "kenv \<Rightarrow> kstate \<Rightarrow> bool" where
  "kinv env s \<longleftrightarrow> pre s (current s) \<and> \<not> table_in_use s \<and> image_ok env s"

text \<open>The frame of an entry point that may switch tasks or advance time.\<close>

definition eframe :: "bool \<Rightarrow> kstate \<Rightarrow> kstate \<Rightarrow> bool" where
  "eframe b s s' \<longleftrightarrow> kframe b s (s'\<lparr>current := current s, table_in_use := table_in_use s, mpu := mpu s,
     sysr := sysr s, pendsv := pendsv s, ticks0 := ticks0 s, ticks1 := ticks1 s\<rparr>)"

lemma stacks_ok_alt: "stacks_ok env s \<longleftrightarrow> (\<forall>i < length (tasks s). stack_ok env (tasks s ! i))"
  by (simp add: stacks_ok_def all_set_conv_all_nth)

lemma mpus_ok_alt:
  "mpus_ok s \<longleftrightarrow> (\<forall>i < length (tasks s). \<forall>r \<in> set (regions (descriptor (tasks s ! i))). region_mpu_ok r)"
  by (simp add: mpus_ok_def region_table_def all_set_conv_all_nth)

lemma image_ok_kframe:
  assumes "kframe b s s'" and "image_ok env s"
  shows "image_ok env s'"
proof -
  have d: "length (tasks s') = length (tasks s)" "length (nvic_iser s') = length (nvic_iser s)"
    "length (nvic_ispr s') = length (nvic_ispr s)"
    "\<And>i. i < length (tasks s) \<Longrightarrow> descriptor (tasks s' ! i) = descriptor (tasks s ! i)"
    using assms(1) by (simp_all add: kframe_def same_task_def)
  then have "stack_ok env (tasks s' ! i) = stack_ok env (tasks s ! i)" if "i < length (tasks s)" for i
    using that by (intro stack_ok_cong) simp
  with d assms(2) show ?thesis
    by (simp add: image_ok_def stacks_ok_alt mpus_ok_alt irqs_ok_def owners_ok_def)
qed

lemma image_ok_update [simp]:
  "image_ok env (s\<lparr>current := i\<rparr>) = image_ok env s"
  "image_ok env (s\<lparr>table_in_use := u\<rparr>) = image_ok env s"
  "image_ok env (s\<lparr>mpu := m\<rparr>) = image_ok env s"
  "image_ok env (s\<lparr>pendsv := pd\<rparr>) = image_ok env s"
  "image_ok env (s\<lparr>sysr := r\<rparr>) = image_ok env s"
  "image_ok env (s\<lparr>ticks0 := t0\<rparr>) = image_ok env s"
  "image_ok env (s\<lparr>ticks1 := t1\<rparr>) = image_ok env s"
  by (simp_all add: image_ok_def stacks_ok_def irqs_ok_def mpus_ok_def owners_ok_def)

lemma pre_update [simp]:
  "pre (s\<lparr>table_in_use := u\<rparr>) c = pre s c" "pre (s\<lparr>pendsv := pd\<rparr>) c = pre s c"
  "pre (s\<lparr>sysr := r\<rparr>) c = pre s c" "pre (s\<lparr>mpu := m\<rparr>) c = pre s c" "pre (s\<lparr>current := i\<rparr>) c = pre s c"
  "pre (s\<lparr>ticks0 := t0\<rparr>) c = pre s c" "pre (s\<lparr>ticks1 := t1\<rparr>) c = pre s c"
  by (simp_all add: pre_def)

lemma image_parts:
  "image_ok env s \<Longrightarrow> stacks_ok env s" "image_ok env s \<Longrightarrow> irqs_ok env s" "image_ok env s \<Longrightarrow> mpus_ok s"
  "image_ok env s \<Longrightarrow> owners_ok env s"
  by (simp_all add: image_ok_def)

lemma kinv_parts:
  assumes "kinv env s"
  shows "pre s (current s)" "\<not> table_in_use s" "image_ok env s" "tinv (tasks s)"
    "current s < length (tasks s)" "is_runnable (tasks s ! current s)"
    "unat (desc_index (descriptor (tasks s ! current s))) = current s"
  using assms tinv_index by (auto simp: kinv_def pre_def)

lemma wp_self: "wp m Q E H s \<Longrightarrow> wp m (\<lambda>a s'. Q a s' \<and> m s = Ok a s') E H s"
  by (simp add: wp_def split: kres.splits)

lemma wp_with_task_table:
  "\<not> table_in_use s \<Longrightarrow>
     wp (with_task_table m) Q E H s =
       wp m (\<lambda>a s'. Q a (s'\<lparr>table_in_use := False\<rparr>)) E H (s\<lparr>table_in_use := True\<rparr>)"
  by (simp add: with_task_table_def wp_simps)

lemma wp_select:
  assumes "c < length (tasks s)"
    and "\<And>i. first_best (tasks s) is_runnable (search_order c (length (tasks s))) i \<Longrightarrow>
      i < length (tasks s) \<Longrightarrow> is_runnable (tasks s ! i) \<Longrightarrow> Q i s"
    and "(\<forall>t \<in> set (tasks s). \<not> is_runnable t) \<Longrightarrow> H KPanic"
  shows "wp (select c) Q E H s"
  unfolding select_def wp_kbind
proof (rule wp_priority_scan [OF assms(1)])
  fix i assume "first_best (tasks s) is_runnable (search_order c (length (tasks s))) i"
  from assms(2) [OF this first_best_props(1,2) [OF this assms(1)]]
  show "wp (case Some i of None \<Rightarrow> khalt KPanic | Some i \<Rightarrow> kret i) Q E H s" by (simp add: wp_kret)
next
  assume "\<forall>j < length (tasks s). \<not> is_runnable (tasks s ! j)"
  then have "H KPanic" by (intro assms(3)) (simp add: all_set_conv_all_nth)
  then show "wp (case None of None \<Rightarrow> khalt KPanic | Some i \<Rightarrow> kret i) Q E H s" by (simp add: wp_khalt)
qed

text \<open>Switching to a runnable task re-establishes the invariant.\<close>

lemma switched:
  assumes "kframe b (s\<lparr>table_in_use := True\<rparr>) s'" and "image_ok env s" and "tinv (tasks s')"
    and "i < length (tasks s')" and "is_runnable (tasks s' ! i)" and "\<not> table_in_use s"
  shows "kinv env (s'\<lparr>mpu := m, current := i, table_in_use := False\<rparr>)"
    and "eframe b s (s'\<lparr>mpu := m, current := i, table_in_use := False\<rparr>)"
proof -
  have "image_ok env s'" using image_ok_kframe [OF assms(1)] assms(2) by simp
  with assms show "kinv env (s'\<lparr>mpu := m, current := i, table_in_use := False\<rparr>)"
    by (simp add: kinv_def pre_def)
  show "eframe b s (s'\<lparr>mpu := m, current := i, table_in_use := False\<rparr>)"
    using assms(1,6) by (auto simp: eframe_def kframe_def mem_frame_def)
qed

lemma leases_ok_table_in_use [simp]: "leases_ok (s\<lparr>table_in_use := u\<rparr>) = leases_ok s"
  by (simp add: leases_ok_def)

text \<open>
  The halts of a system call: a reset, the panic of a dump request, or that no task is left to
  run once the call has been serviced.
\<close>

definition syscall_halt :: "kenv \<Rightarrow> u32 \<Rightarrow> kstate \<Rightarrow> halt \<Rightarrow> bool" where
  "syscall_halt env nr s h \<longleftrightarrow> halts_ok env (current s) h
     \<or> h = KPanic \<and> (\<exists>s'. safe_syscall_entry env nr (current s) (s\<lparr>table_in_use := True\<rparr>)
           = (Ok Other s' :: (NextTask, UserError) kres) \<and> (\<forall>t \<in> set (tasks s'). \<not> is_runnable t))"

lemma wp_syscall_entry:
  assumes "kinv env s"
  shows "wp (syscall_entry env nr) (\<lambda>_ s'. kinv env s' \<and> eframe (leases_ok s) s s')
    (E :: UserError \<Rightarrow> kstate \<Rightarrow> bool) (syscall_halt env nr s) s"
proof -
  note ki = kinv_parts [OF assms]
  let ?s = "s\<lparr>table_in_use := True\<rparr>" and ?c = "current s" and ?b = "leases_ok s"
  let ?Q = "\<lambda>_ s'. kinv env (s'\<lparr>table_in_use := False\<rparr>) \<and> eframe ?b s (s'\<lparr>table_in_use := False\<rparr>)"
  let ?k = "\<lambda>next. case next of Same \<Rightarrow> kret () | Specific i \<Rightarrow> switch_to env i
       | Other \<Rightarrow> kbind (select ?c) (\<lambda>next. switch_to env next)"
  have "wp (?k h) ?Q E (syscall_halt env nr s) s'"
    if g: "good ?b ?s ?c h s'" and r: "safe_syscall_entry env nr ?c ?s = (Ok h s' :: (NextTask, UserError) kres)" for h s'
  proof -
    have k: "kframe ?b ?s s'" and t: "tinv (tasks s')" and hk: "hint_ok ?c h s'"
      using g by (simp_all add: good_def)
    have l: "?c < length (tasks s')" using kframe_length [OF k] ki(5) by simp
    have m: "mpus_ok s'" using image_parts(3) [OF image_ok_kframe [OF k]] ki(3) by simp
    note sw = switched [OF k ki(3) t _ _ ki(2)]
    have to: "wp (switch_to env i) ?Q E (syscall_halt env nr s) s'"
      if "i < length (tasks s')" "is_runnable (tasks s' ! i)" for i
      by (rule wp_switch_to [OF m that(1)]) (use sw [OF that] in simp)
    show ?thesis
    proof (cases h)
      case Same
      have "s' = s'\<lparr>mpu := mpu s', current := ?c\<rparr>" using k by (simp add: kframe_def)
      with sw [OF l, of "mpu s'"] Same hk show ?thesis by (simp add: wp_kret)
    next
      case (Specific i)
      with hk to [of i] show ?thesis by simp
    next
      case Other
      have "wp (select ?c) (\<lambda>i s'. wp (switch_to env i) ?Q E (syscall_halt env nr s) s') E (syscall_halt env nr s) s'"
        by (rule wp_select [OF l]) (use to r Other in \<open>auto simp: syscall_halt_def\<close>)
      with Other show ?thesis by (simp add: wp_kbind)
    qed
  qed
  moreover have "wp (safe_syscall_entry env nr ?c) (good ?b ?s ?c) E (halts_ok env ?c) ?s"
    using wp_safe_syscall_entry [of ?s ?c env nr E] ki image_parts [of env ?s] by simp
  ultimately have "wp (safe_syscall_entry env nr ?c) (\<lambda>h s'. wp (?k h) ?Q E (syscall_halt env nr s) s') E (syscall_halt env nr s) ?s"
    by (elim wp_mono [OF wp_self]) (auto simp: syscall_halt_def)
  then show ?thesis
    using ki by (simp add: syscall_entry_def wp_kbind wp_kget wp_get_task wp_with_task_table Let_def)
qed

subsection \<open>The other entry points\<close>

lemma wp_pendsv_entry:
  assumes "kinv env s"
  shows "wp (pendsv_entry env) (\<lambda>_ s'. kinv env s' \<and> eframe True s s' \<and> tasks s' = tasks s \<and> mem s' = mem s
      \<and> first_best (tasks s) is_runnable (search_order (current s) (length (tasks s))) (current s')) E (\<lambda>_. False) s"
proof -
  note ki = kinv_parts [OF assms]
  let ?s = "s\<lparr>table_in_use := True\<rparr>"
  let ?Q = "\<lambda>_ s'. kinv env (s'\<lparr>table_in_use := False\<rparr>) \<and> eframe True s (s'\<lparr>table_in_use := False\<rparr>)
    \<and> tasks s' = tasks s \<and> mem s' = mem s
    \<and> first_best (tasks s) is_runnable (search_order (current s) (length (tasks s))) (current (s'\<lparr>table_in_use := False\<rparr>))"
  have "wp (select (current s)) (\<lambda>i s'. wp (switch_to env i) ?Q E (\<lambda>_. False) s') E (\<lambda>_. False) ?s"
  proof (rule wp_select)
    fix i assume i: "first_best (tasks ?s) is_runnable (search_order (current s) (length (tasks ?s))) i"
      "i < length (tasks ?s)" "is_runnable (tasks ?s ! i)"
    show "wp (switch_to env i) ?Q E (\<lambda>_. False) ?s"
      by (rule wp_switch_to [OF _ i(2)])
        (use i switched [of True s ?s env i] ki image_parts(3) [of env ?s] in auto)
  qed (use ki nth_mem [of "current s" "tasks s"] in auto)
  with ki show ?thesis
    by (simp add: pendsv_entry_def switch_to_def wp_kbind wp_kget wp_get_task wp_with_task_table Let_def)
qed

lemma quiet_table:
  assumes "tinv ts" and "length ts' = length ts" and "\<forall>i < length ts. quiet (ts ! i) (ts' ! i)"
  shows "tinv ts'"
proof -
  have "peer_ok ts' st = peer_ok ts st" for st
    using assms(2,3) by (intro peer_ok_cong) (simp_all add: quiet_def)
  with assms show ?thesis
    by (auto simp: tinv_def task_ok_def quiet_def same_task_def regions_wf_def region_table_def is_runnable_def)
qed

text \<open>What a tick does to one task, and that the pass over the table does it to every task.\<close>

definition timer_step :: "Timestamp \<Rightarrow> Task \<Rightarrow> bool \<times> Task" where
  "timer_step time t = (case deadline (timer t) of
     Some dl \<Rightarrow> if dl \<le> time then task_post (to_post (timer t)) (t\<lparr>timer := (timer t)\<lparr>deadline := None\<rparr>\<rparr>)
               else (False, t)
   | None \<Rightarrow> (False, t))"

definition timer_hint :: "nat \<Rightarrow> Timestamp \<Rightarrow> Task \<Rightarrow> NextTask" where
  "timer_hint i time t = (if fst (timer_step time t) then Specific i else Same)"

lemma combine_Same [simp]: "combine h Same = h"
  by (cases h) (simp_all add: combine_def)

lemma process_timers_loop_Cons:
  "process_timers_loop k (t # ts) time h =
     (let (ts', h') = process_timers_loop (Suc k) ts time (combine h (timer_hint k time t))
      in (snd (timer_step time t) # ts', h'))"
  by (simp add: timer_hint_def timer_step_def Let_def split: option.splits prod.splits)

lemma process_timers_loop_eq:
  "process_timers_loop k ts time h =
     (map (\<lambda>t. snd (timer_step time t)) ts,
      foldl combine h (map (\<lambda>(i, t). timer_hint i time t) (zip [k..<k + length ts] ts)))"
proof (induction ts arbitrary: k h)
  case (Cons t ts)
  have "[k..<k + length (t # ts)] = k # [Suc k..<Suc k + length ts]" by (simp add: upt_rec)
  with Cons.IH [of "Suc k"] show ?case
    by (simp add: process_timers_loop_Cons del: process_timers_loop.simps(2) upt_Suc)
qed simp

lemma quiet_timer_step: "quiet t (snd (timer_step time t))"
proof -
  have "quiet t (t\<lparr>timer := (timer t)\<lparr>deadline := None\<rparr>\<rparr>)" by (simp add: quiet_def)
  from quiet_trans [OF this quiet_post] show ?thesis
    by (simp add: timer_step_def split: option.splits)
qed

lemma timestamp_sum: "timestamp_from t0 t1 = ucast t0 + push_bit 32 (ucast t1)"
  unfolding timestamp_from_def
  by (subst disjunctive_add [symmetric]) (auto simp: bit_simps dest: bit_imp_le_length)

lemma unat_timestamp: "unat (timestamp_from t0 t1) = unat t0 + 2 ^ 32 * unat t1"
proof -
  have b: "unat t0 < 2 ^ 32" "unat t1 < 2 ^ 32"
    using unat_lt_u32 [of t0] unat_lt_u32 [of t1] by simp_all
  have a: "unat (ucast t0 :: u64) = unat t0" "unat (ucast t1 :: u64) = unat t1"
    by (simp_all add: unsigned_ucast_eq take_bit_nat_eq_self less_trans [OF b(1)] less_trans [OF b(2)])
  have le: "4294967296 * unat t1 \<le> 4294967296 * 4294967295" "unat t0 \<le> 4294967295"
    using unat_lt_u32 [of t1] unat_lt_u32 [of t0] by linarith+
  then have "unat (push_bit 32 (ucast t1 :: u64)) = 4294967296 * unat t1"
    using a(2) by (simp add: push_bit_eq_mult unat_word_ariths mult.commute)
  with a le show ?thesis by (simp add: timestamp_sum unat_word_ariths)
qed

lemma foldl_combine_Same: "foldl combine h hs = Same \<longleftrightarrow> h = Same \<and> (\<forall>x \<in> set hs. x = Same)"
proof (induction hs arbitrary: h)
  case (Cons x hs)
  have "combine h x = Same \<longleftrightarrow> h = Same \<and> x = Same"
    by (cases h; cases x) (auto simp: combine_def)
  with Cons show ?case by auto
qed simp

text \<open>The next timestamp and the two words that hold it.\<close>

definition next_ticks :: "u32 \<Rightarrow> u32 \<Rightarrow> u32 \<times> u32" where
  "next_ticks t0 t1 = (if t0 = - 1 then (0, t1 + 1) else (t0 + 1, t1))"

lemma next_ticks_time:
  assumes "\<not> (t0 = - 1 \<and> t1 = - 1)"
  shows "unat (case_prod timestamp_from (next_ticks t0 t1)) = unat (timestamp_from t0 t1) + 1"
proof -
  have suc: "unat (w + 1) = unat w + 1" if "w \<noteq> - 1" for w :: u32
    using that by (metis Suc_eq_plus1 add.commute add.inverse_inverse eq_neg_iff_add_eq_0 unatSuc)
  show ?thesis
    using assms suc [of t0] suc [of t1] by (auto simp: next_ticks_def unat_timestamp unat_max_u32)
qed

lemma checked_add_one: "checked_add (w :: u32) 1 = (if w = - 1 then None else Some (w + 1))"
proof -
  have "unat w + 1 < 2 ^ 32 \<longleftrightarrow> w \<noteq> - 1"
  proof -
    have "unat w \<le> 4294967295" using unat_lt_u32 [of w] by linarith
    then show ?thesis by (auto simp: word_unat_eq_iff unat_max_u32)
  qed
  then show ?thesis by (simp add: checked_add_def)
qed

lemma wp_process_timers [wp_simps]:
  "wp (process_timers time) Q E H s =
     Q (foldl combine Same (map (\<lambda>(i, t). timer_hint i time t) (zip [0..<length (tasks s)] (tasks s))))
       (s\<lparr>tasks := map (\<lambda>t. snd (timer_step time t)) (tasks s)\<rparr>)"
  by (simp add: process_timers_def process_timers_loop_eq wp_simps Let_def)

lemma timer_table:
  assumes "kinv env s"
  shows "kinv env (s\<lparr>tasks := map (\<lambda>t. snd (timer_step time t)) (tasks s)\<rparr>)"
    and "eframe True s (s\<lparr>tasks := map (\<lambda>t. snd (timer_step time t)) (tasks s)\<rparr>)"
proof -
  note ki = kinv_parts [OF assms]
  let ?s = "s\<lparr>tasks := map (\<lambda>t. snd (timer_step time t)) (tasks s)\<rparr>"
  have k: "kframe True s ?s"
    using quiet_timer_step by (auto simp: kframe_def mem_frame_def quiet_def)
  then show "eframe True s ?s" by (simp add: eframe_def)
  have "tinv (tasks ?s)"
    by (rule quiet_table [OF ki(4)]) (simp_all add: quiet_timer_step)
  moreover have "is_runnable (tasks ?s ! current s)"
    using quiet_runnable [OF quiet_timer_step ki(6)] ki(5) by simp
  ultimately show "kinv env ?s"
    using ki image_ok_kframe [OF k ki(3)] by (simp add: kinv_def pre_def)
qed

lemma kinv_update [simp]:
  "kinv env (s\<lparr>pendsv := pd\<rparr>) = kinv env s" "kinv env (s\<lparr>sysr := r\<rparr>) = kinv env s"
  "kinv env (s\<lparr>ticks0 := t0\<rparr>) = kinv env s" "kinv env (s\<lparr>ticks1 := t1\<rparr>) = kinv env s"
  "kinv env (s\<lparr>mpu := m\<rparr>) = kinv env s"
  by (simp_all add: kinv_def)

lemma eframe_update [simp]:
  "eframe b s (s'\<lparr>pendsv := pd\<rparr>) = eframe b s s'" "eframe b s (s'\<lparr>sysr := r\<rparr>) = eframe b s s'"
  "eframe b s (s'\<lparr>ticks0 := t0\<rparr>) = eframe b s s'" "eframe b s (s'\<lparr>ticks1 := t1\<rparr>) = eframe b s s'"
  "eframe b s (s'\<lparr>mpu := m\<rparr>) = eframe b s s'" "eframe b s (s'\<lparr>table_in_use := u\<rparr>) = eframe b s s'"
  by (simp_all add: eframe_def kframe_def mem_frame_def)

text \<open>The state after a tick, in closed form.\<close>

definition ticked :: "kstate \<Rightarrow> kstate" where
  "ticked s = (let (t0, t1) = next_ticks (ticks0 s) (ticks1 s); time = timestamp_from t0 t1 in
     s\<lparr>tasks := map (\<lambda>t. snd (timer_step time t)) (tasks s), ticks0 := t0, ticks1 := t1,
       pendsv := (pendsv s \<or> (\<exists>t \<in> set (tasks s). fst (timer_step time t)))\<rparr>)"

lemma some_timer_woke:
  "foldl combine Same (map (\<lambda>(i, t). timer_hint i time t) (zip [0..<length ts] ts)) \<noteq> Same \<longleftrightarrow>
     (\<exists>t \<in> set ts. fst (timer_step time t))"
proof -
  have "(\<exists>p \<in> set (zip [0..<length ts] ts). fst (timer_step time (snd p))) \<longleftrightarrow> (\<exists>t \<in> set ts. fst (timer_step time t))"
    by (metis (no_types, lifting) length_map length_upt map_snd_zip minus_nat.diff_0 in_set_zip image_iff set_map)
  then show ?thesis by (simp add: foldl_combine_Same timer_hint_def case_prod_beta) blast
qed

lemma SysTick_eq:
  assumes "\<not> table_in_use s" and "\<not> (ticks0 s = - 1 \<and> ticks1 s = - 1)"
  shows "SysTick s = Ok () (ticked s)"
proof -
  have "wp SysTick (\<lambda>_ s'. s' = ticked s) (\<lambda>_ _. False) (\<lambda>_. False) s"
    using assms some_timer_woke
    by (auto simp: SysTick_def wp_with_task_table wp_simps checked_add_one pend_context_switch_from_isr_def
        ticked_def next_ticks_def Let_def)
  then show ?thesis by (auto simp: wp_def split: kres.splits)
qed

end
