(* ===== verification/Kern_Reach.thy ===== *)
theory Kern_Reach
  imports Kern_Main
begin

section \<open>Interrupts, faults, startup, and what can be reached\<close>

text \<open>
  The entry points other than system calls keep the invariant too; the states of a running
  system are those \<open>kstep\<close> reaches from the state \<^verbatim>\<open>start_kernel\<close> leaves.
\<close>

subsection \<open>Hardware interrupts\<close>

lemma kinv_quiet_task:
  assumes "kinv env s" and "i < length (tasks s)" and "quiet (tasks s ! i) t"
  shows "kinv env (s\<lparr>tasks := (tasks s)[i := t]\<rparr>)" and "eframe True s (s\<lparr>tasks := (tasks s)[i := t]\<rparr>)"
proof -
  note ki = kinv_parts [OF assms(1)]
  have g: "good True s (current s) Same (s\<lparr>tasks := (tasks s)[i := t]\<rparr>)"
    by (rule pre_quiet [OF ki(1) assms(2,3)])
  then have k: "kframe True s (s\<lparr>tasks := (tasks s)[i := t]\<rparr>)" by (simp add: good_def)
  then show "eframe True s (s\<lparr>tasks := (tasks s)[i := t]\<rparr>)" by (simp add: eframe_def)
  show "kinv env (s\<lparr>tasks := (tasks s)[i := t]\<rparr>)"
    using g ki image_ok_kframe [OF k ki(3)] by (simp add: kinv_def pre_def good_def)
qed

text \<open>The state after an interrupt owned by a task, in closed form.\<close>

definition irq_delivered :: "u32 \<Rightarrow> InterruptOwner \<Rightarrow> kstate \<Rightarrow> kstate" where
  "irq_delivered n own s = (let i = unat (io_task own); (woke, t) = task_post (io_notification own) (tasks s ! i) in
     s\<lparr>tasks := (tasks s)[i := t],
       nvic_iser := (nvic_iser s)[nvic_reg n := nvic_iser s ! nvic_reg n AND NOT (nvic_bit n)],
       pendsv := (pendsv s \<or> woke)\<rparr>)"

lemma DefaultHandler_eq:
  assumes "kinv env s" and "16 \<le> ipsr AND 0x1FF" and "irq_task_lookup env ((ipsr AND 0x1FF) - 16) = Some own"
  shows "DefaultHandler env ipsr s = Ok () (irq_delivered ((ipsr AND 0x1FF) - 16) own s)"
proof -
  note ki = kinv_parts [OF assms(1)]
  let ?n = "(ipsr AND 0x1FF) - 16"
  have o: "unat (io_task own) < length (tasks s)" "nvic_reg ?n < length (nvic_iser s)"
    using image_parts(4) [OF ki(3)] assms(3) by (auto simp: owners_ok_def)
  obtain w t where p: "task_post (io_notification own) (tasks s ! unat (io_task own)) = (w, t)" by fastforce
  have ne: "ipsr AND 0x1FF \<noteq> 2" "ipsr AND 0x1FF \<noteq> 12" using assms(2) by auto
  have "wp (DefaultHandler env ipsr) (\<lambda>_ s'. s' = irq_delivered ?n own s) (\<lambda>_ _. False) (\<lambda>_. False) s"
    using ki assms(2,3) o p ne
    by (auto simp: DefaultHandler_def wp_simps wp_with_task_table disable_irq_def irq_delivered_def
        pend_context_switch_from_isr_def Let_def)
  then show ?thesis by (auto simp: wp_def split: kres.splits)
qed

lemma kinv_irq_delivered:
  assumes "kinv env s" and "irq_task_lookup env n = Some own"
  shows "kinv env (irq_delivered n own s)" and "eframe True s (irq_delivered n own s)"
proof -
  note ki = kinv_parts [OF assms(1)]
  let ?i = "unat (io_task own)"
  obtain w t where p: "task_post (io_notification own) (tasks s ! ?i) = (w, t)" by fastforce
  have i: "?i < length (tasks s)" using image_parts(4) [OF ki(3)] assms(2) by (auto simp: owners_ok_def)
  have q: "quiet (tasks s ! ?i) t" using quiet_post [of "tasks s ! ?i" "io_notification own"] p by simp
  from kinv_quiet_task [OF assms(1) i q] p
  show "kinv env (irq_delivered n own s)" "eframe True s (irq_delivered n own s)"
    by (auto simp: irq_delivered_def kinv_def pre_def image_ok_def stacks_ok_def irqs_ok_def mpus_ok_def owners_ok_def
        eframe_def kframe_def mem_frame_def)
qed

subsection \<open>Faults\<close>

lemma wp_fault_and_switch:
  assumes "tinv (tasks s)" and "i < length (tasks s)" and "image_ok env s" and "\<not> table_in_use s"
  shows "wp (fault_and_switch env i f) (\<lambda>_ s'. kinv env s' \<and> eframe True s s' \<and> current s' \<noteq> i
      \<and> (\<exists>f' sc. state (tasks s' ! i) = Faulted f' sc)) E
    (\<lambda>h. h = KPanic \<and> (\<forall>j < length (tasks s). j \<noteq> i \<longrightarrow> \<not> is_runnable (tasks s ! j))) s"
proof -
  let ?s = "s\<lparr>table_in_use := True\<rparr>"
  let ?Q = "\<lambda>_ s'. kinv env (s'\<lparr>table_in_use := False\<rparr>) \<and> eframe True s (s'\<lparr>table_in_use := False\<rparr>) \<and> current s' \<noteq> i
      \<and> (\<exists>f' sc. state (tasks s' ! i) = Faulted f' sc)"
  let ?H = "\<lambda>h. h = KPanic \<and> (\<forall>j < length (tasks s). j \<noteq> i \<longrightarrow> \<not> is_runnable (tasks s ! j))"
  let ?k = "\<lambda>hint. kbind (case hint of Specific i \<Rightarrow> kret i | Other \<Rightarrow> select i | Same \<Rightarrow> kret i) (\<lambda>next.
     if next = i then khalt KPanic
     else kbind (get_task next) (\<lambda>t.
       kbind (apply_memory_protection env t) (\<lambda>_. set_current_task next)))"
  have "wp (force_fault i f) (\<lambda>h s'. wp (?k h) ?Q E ?H s') E ?H ?s"
  proof (rule wp_force_fault)
    fix h s' assume ff: "ff_post ?s i h s'"
    have k: "kframe True ?s s'" and t: "tinv (tasks s')" using ff by (simp_all add: ff_post_def)
    have len: "length (tasks s') = length (tasks s)" using kframe_length [OF k] by simp
    have m: "mpus_ok s'" using image_parts(3) [OF image_ok_kframe [OF k]] assms(3) by simp
    obtain f' sc where fl: "state (tasks s' ! i) = Faulted f' sc" using ff by (auto simp: ff_post_def)
    have to: "wp (switch_to env j) ?Q E ?H s'" if "j < length (tasks s')" "is_runnable (tasks s' ! j)" for j
    proof -
      have "j \<noteq> i" using that fl by (auto simp: is_runnable_def)
      with switched [OF k assms(3) t that assms(4)] fl show ?thesis
        by (intro wp_switch_to [OF m that(1)]) simp
    qed
    have sw: "wp (if j = i then khalt KPanic else kbind (get_task j) (\<lambda>t.
       kbind (apply_memory_protection env t) (\<lambda>_. set_current_task j))) ?Q E ?H s'"
      if "j < length (tasks s')" "is_runnable (tasks s' ! j)" for j
      using to [OF that] that fl by (auto simp: switch_to_def is_runnable_def)
    have none: "?H KPanic" if "\<forall>t \<in> set (tasks s'). \<not> is_runnable t"
      using that ff_post_runnable [OF ff] len by (auto simp: all_set_conv_all_nth)
    from ff consider "h = Other" | "h = Specific 0" "is_runnable (tasks s' ! 0)" by (auto simp: ff_post_def)
    then show "wp (?k h) ?Q E ?H s'"
    proof cases
      case 1
      have "wp (select i) (\<lambda>j s'. wp (if j = i then khalt KPanic else kbind (get_task j) (\<lambda>t.
         kbind (apply_memory_protection env t) (\<lambda>_. set_current_task j))) ?Q E ?H s') E ?H s'"
        by (rule wp_select) (use sw none assms(2) len in auto)
      with 1 show ?thesis by (simp add: wp_kbind)
    next
      case 2
      with sw [of 0] tinv_length(1) [OF t] show ?thesis by (simp add: wp_kbind wp_kret)
    qed
  qed (use assms in auto)
  then show ?thesis
    using assms(4) by (simp add: fault_and_switch_def wp_with_task_table wp_kbind)
qed

lemma kinv_sysr_save:
  assumes "kinv env s"
    and s': "s' = s\<lparr>sysr := r, tasks := (tasks s)[current s := (tasks s ! current s)\<lparr>save := sv\<rparr>]\<rparr>"
  shows "tinv (tasks s')" and "image_ok env s'" and "\<not> table_in_use s'" and "current s < length (tasks s')"
    and "eframe True s s'"
proof -
  note ki = kinv_parts [OF assms(1)]
  have eq: "s' = s\<lparr>tasks := (tasks s)[current s := (tasks s ! current s)\<lparr>save := sv\<rparr>]\<rparr>\<lparr>sysr := r\<rparr>"
    by (simp add: s')
  have "kinv env s'" "eframe True s s'"
    using kinv_quiet_task [OF assms(1) ki(5), of "(tasks s ! current s)\<lparr>save := sv\<rparr>"]
      eq by simp_all
  then show "tinv (tasks s')" "image_ok env s'" "\<not> table_in_use s'" "current s < length (tasks s')" "eframe True s s'"
    using kinv_parts [of env s'] ki by (simp_all add: s')
qed

lemma eframe_from [simp]:
  "eframe b (s\<lparr>sysr := r\<rparr>) s' = eframe b s s'" "eframe b (s\<lparr>pendsv := pd\<rparr>) s' = eframe b s s'"
  by (simp_all add: eframe_def kframe_def mem_frame_def)

lemma eframe_trans_bookkeeping:
  assumes "eframe b s s1" and "eframe b s1 s2"
  shows "eframe b s s2"
proof -
  have "kframe b (s1\<lparr>current := current s, table_in_use := table_in_use s, mpu := mpu s,
       sysr := sysr s, pendsv := pendsv s, ticks0 := ticks0 s, ticks1 := ticks1 s\<rparr>)
     (s2\<lparr>current := current s, table_in_use := table_in_use s, mpu := mpu s,
       sysr := sysr s, pendsv := pendsv s, ticks0 := ticks0 s, ticks1 := ticks1 s\<rparr>)"
    using assms(2) by (auto simp: eframe_def kframe_def mem_frame_def)
  from kframe_trans [OF assms(1) [unfolded eframe_def] this] show ?thesis by (simp add: eframe_def)
qed

text \<open>
  A fault of the running task: unless no other task can run, the task is left faulted and
  another, runnable, task is current.
\<close>

lemma wp_handle_fault:
  assumes "kinv env s" and "exc_return (save (tasks s ! current s)) AND 8 \<noteq> 0"
  shows "wp (handle_fault env ft fpregs) (\<lambda>_ s'. kinv env s' \<and> eframe True s s' \<and> current s' \<noteq> current s
      \<and> (\<exists>f sc. state (tasks s' ! current s) = Faulted f sc)) E
    (\<lambda>h. h = KPanic \<and> (\<forall>j < length (tasks s). j \<noteq> current s \<longrightarrow> \<not> is_runnable (tasks s ! j))) s"
proof -
  note ki = kinv_parts [OF assms(1)]
  obtain f si where fo: "fault_of ft (cfsr (sysr s) AND cfsr_all (profile env)) (sysr s) (psp (save (tasks s ! current s))) = (f, si)"
    by fastforce
  have fas: "wp (fault_and_switch env (current s) f) (\<lambda>_ s'. kinv env s' \<and> eframe True s s' \<and> current s' \<noteq> current s
      \<and> (\<exists>f sc. state (tasks s' ! current s) = Faulted f sc)) E
    (\<lambda>h. h = KPanic \<and> (\<forall>j < length (tasks s). j \<noteq> current s \<longrightarrow> \<not> is_runnable (tasks s ! j)))
    (s\<lparr>sysr := r, tasks := (tasks s)[current s := (tasks s ! current s)\<lparr>save := sv\<rparr>]\<rparr>)" for r sv
    using kinv_sysr_save [OF assms(1) refl, where r = r and sv = sv]
    by (intro wp_mono [OF wp_fault_and_switch [of _ "current s" env f]])
      (auto intro: eframe_trans_bookkeeping)
  have sw: "s\<lparr>tasks := ts, sysr := r\<rparr> = s\<lparr>sysr := r, tasks := ts\<rparr>" for ts r by simp
  show ?thesis
    using ki assms(2) fo fas
    by (simp add: handle_fault_def wp_simps Let_def split: prod.splits)
qed

lemma wp_handle_fault_v6:
  assumes "kinv env s" and "exc_return (save (tasks s ! current s)) AND 8 \<noteq> 0"
  shows "wp (handle_fault_v6 env) (\<lambda>_ s'. kinv env s' \<and> eframe True s s' \<and> current s' \<noteq> current s
      \<and> (\<exists>f sc. state (tasks s' ! current s) = Faulted f sc)) E
    (\<lambda>h. h = KPanic \<and> (\<forall>j < length (tasks s). j \<noteq> current s \<longrightarrow> \<not> is_runnable (tasks s ! j))) s"
proof -
  note ki = kinv_parts [OF assms(1)]
  have "wp (fault_and_switch env (current s) f) (\<lambda>_ s'. kinv env s' \<and> eframe True s s' \<and> current s' \<noteq> current s
      \<and> (\<exists>f sc. state (tasks s' ! current s) = Faulted f sc)) E
    (\<lambda>h. h = KPanic \<and> (\<forall>j < length (tasks s). j \<noteq> current s \<longrightarrow> \<not> is_runnable (tasks s ! j))) (s\<lparr>sysr := r\<rparr>)" for r f
    using kinv_sysr_save [OF assms(1) refl, where r = r and sv = "save (tasks s ! current s)"]
    by (intro wp_mono [OF wp_fault_and_switch [of _ "current s" env f]])
      (auto intro: eframe_trans_bookkeeping)
  with ki assms(2) show ?thesis by (simp add: handle_fault_v6_def wp_simps Let_def)
qed

subsection \<open>Steps\<close>

text \<open>
  One step of the machine: the running task computes, within its writable regions and its own
  registers; the hardware changes pending interrupts and status registers; or an entry point
  of the kernel runs to completion.
\<close>

definition user_writable :: "Task \<Rightarrow> u32 \<Rightarrow> bool" where
  "user_writable t a \<longleftrightarrow> (\<exists>r \<in> set (region_table t). region_contains r a
     \<and> flags_contains (region_attributes r) ATTR_WRITE)"

inductive kstep :: "kenv \<Rightarrow> kstate \<Rightarrow> kstate \<Rightarrow> bool" for env where
  user: "(\<And>a. m a \<noteq> mem s a \<Longrightarrow> user_writable (tasks s ! current s) a) \<Longrightarrow>
    kstep env s (s\<lparr>tasks := (tasks s)[current s := (tasks s ! current s)\<lparr>save := sv\<rparr>], mem := m\<rparr>)"
| hardware: "length ispr = length (nvic_ispr s) \<Longrightarrow> kstep env s (s\<lparr>nvic_ispr := ispr, sysr := r\<rparr>)"
| svc: "syscall_entry env nr s = (Ok () s' :: (unit, UserError) kres) \<Longrightarrow> kstep env s s'"
| tick: "SysTick s = (Ok () s' :: (unit, UserError) kres) \<Longrightarrow> kstep env s s'"
| irq: "DefaultHandler env ipsr s = (Ok () s' :: (unit, UserError) kres) \<Longrightarrow> kstep env s s'"
| pendsv: "pendsv_entry env (s\<lparr>pendsv := False\<rparr>) = (Ok () s' :: (unit, UserError) kres) \<Longrightarrow> kstep env s s'"
| fault: "handle_fault env ft fpregs s = (Ok () s' :: (unit, UserError) kres) \<Longrightarrow> kstep env s s'"
| fault_v6: "handle_fault_v6 env s = (Ok () s' :: (unit, UserError) kres) \<Longrightarrow> kstep env s s'"

inductive_cases kstepE: "kstep env s s'"

lemma DefaultHandler_Ok:
  assumes "kinv env s" and "DefaultHandler env ipsr s = Ok () s'"
  obtains own where "16 \<le> ipsr AND 0x1FF" "irq_task_lookup env ((ipsr AND 0x1FF) - 16) = Some own"
    "s' = irq_delivered ((ipsr AND 0x1FF) - 16) own s"
proof -
  have ge: "16 \<le> ipsr AND 0x1FF"
    using assms(2) by (simp add: DefaultHandler_def khalt_def Let_def split: if_splits)
  obtain own where own: "irq_task_lookup env ((ipsr AND 0x1FF) - 16) = Some own"
    using assms(2) ge by (auto simp: DefaultHandler_def khalt_def Let_def split: if_splits option.splits)
  from DefaultHandler_eq [OF assms(1) ge own] assms(2) that [OF ge own] show ?thesis
    by (metis kres.inject(1))
qed

lemma fault_Ok_thread_mode:
  "current s < length (tasks s) \<Longrightarrow> handle_fault env ft fpregs s = Ok () s' \<Longrightarrow>
     exc_return (save (tasks s ! current s)) AND 8 \<noteq> 0"
  "current s < length (tasks s) \<Longrightarrow> handle_fault_v6 env s = Ok () s' \<Longrightarrow>
     exc_return (save (tasks s ! current s)) AND 8 \<noteq> 0"
  by (auto simp: handle_fault_def handle_fault_v6_def kbind_def kget_def get_task_def khalt_def Let_def
      split: if_splits prod.splits)

lemma SysTick_Ok:
  assumes "\<not> table_in_use s" and "SysTick s = (Ok () s' :: (unit, UserError) kres)"
  shows "s' = ticked s"
proof (cases "ticks0 s = - 1 \<and> ticks1 s = - 1")
  case True
  then have "wp SysTick (\<lambda>_ _. False) (\<lambda>(_ :: UserError) _. False) (\<lambda>_. True) s"
    using assms(1) by (simp add: SysTick_def wp_with_task_table wp_simps checked_add_one)
  with assms(2) show ?thesis by (simp add: wp_def)
next
  case False
  then have "(SysTick s :: (unit, UserError) kres) = Ok () (ticked s)" by (rule SysTick_eq [OF assms(1)])
  with assms(2) show ?thesis by simp
qed

lemma kinv_ticked: "kinv env s \<Longrightarrow> kinv env (ticked s)" "kinv env s \<Longrightarrow> eframe True s (ticked s)"
  using timer_table [of env s] by (simp_all add: ticked_def Let_def split: prod.splits)

lemma kinv_mem [simp]: "kinv env (s\<lparr>mem := m\<rparr>) = kinv env s"
  by (simp add: kinv_def pre_def image_ok_def stacks_ok_def irqs_ok_def mpus_ok_def owners_ok_def)

lemma kstep_kinv:
  assumes "kstep env s s'" and "kinv env s"
  shows "kinv env s'"
proof -
  note ki = kinv_parts [OF assms(2)]
  from assms(1) show ?thesis
  proof cases
    case (user m sv)
    with kinv_quiet_task(1) [OF assms(2) ki(5), of "(tasks s ! current s)\<lparr>save := sv\<rparr>"] show ?thesis by simp
  next
    case (hardware ispr r)
    with assms(2) show ?thesis
      by (simp add: kinv_def pre_def image_ok_def stacks_ok_def irqs_ok_def mpus_ok_def owners_ok_def)
  next
    case (svc nr)
    with wp_OkD [OF wp_syscall_entry [OF assms(2)]] show ?thesis by blast
  next
    case tick
    with SysTick_Ok ki(2) kinv_ticked(1) [OF assms(2)] show ?thesis by blast
  next
    case (irq ipsr)
    with assms(2) kinv_irq_delivered(1) show ?thesis by (metis DefaultHandler_Ok)
  next
    case pendsv
    with wp_OkD [OF wp_pendsv_entry [of env "s\<lparr>pendsv := False\<rparr>"]] assms(2) show ?thesis by (metis kinv_update(1))
  next
    case (fault ft fpregs)
    with wp_OkD [OF wp_handle_fault [OF assms(2) fault_Ok_thread_mode(1) [OF ki(5) fault]] fault] show ?thesis by blast
  next
    case fault_v6
    with wp_OkD [OF wp_handle_fault_v6 [OF assms(2) fault_Ok_thread_mode(2) [OF ki(5) fault_v6]] fault_v6] show ?thesis by blast
  qed
qed

lemma reachable_kinv: "(kstep env)\<^sup>*\<^sup>* s s' \<Longrightarrow> kinv env s \<Longrightarrow> kinv env s'"
  by (induction rule: rtranclp_induct) (auto intro: kstep_kinv)

subsection \<open>Startup\<close>

text \<open>What the build system guarantees of the task descriptors of an image.\<close>

definition descs_ok :: "kenv \<Rightarrow> TaskDesc list \<Rightarrow> bool" where
  "descs_ok env ds \<longleftrightarrow> 0 < length ds \<and> length ds \<le> 1023
     \<and> (\<forall>i < length ds. unat (desc_index (ds ! i)) = i)
     \<and> (\<forall>d \<in> set ds. stack_ok env (from_descriptor d) \<and> (\<forall>r \<in> set (regions d). region_mpu_ok r))"

definition irq_tables_ok :: "kenv \<Rightarrow> nat \<Rightarrow> kstate \<Rightarrow> bool" where
  "irq_tables_ok env n s \<longleftrightarrow> irqs_ok env s \<and> (\<forall>i own. irq_task_lookup env i = Some own \<longrightarrow>
     unat (io_task own) < n \<and> nvic_reg i < length (nvic_iser s))"

lemma boot_table:
  assumes "descs_ok env ds" and "irq_tables_ok env (length ds) s"
  shows "tinv (map from_descriptor ds)" and "image_ok env (s\<lparr>tasks := map from_descriptor ds\<rparr>)"
proof -
  have "peer_ok ts (state (from_descriptor d))" for ts d
    by (simp add: from_descriptor_def task_state_default_def)
  moreover have "regions_wf (from_descriptor d)" if "d \<in> set ds" for d
    using assms(1) that
    by (auto simp: descs_ok_def regions_wf_def region_table_def from_descriptor_def region_mpu_ok_def list_all_iff)
  ultimately show "tinv (map from_descriptor ds)"
    using assms(1) by (simp add: tinv_def task_ok_def descs_ok_def) (simp add: from_descriptor_def)
  show "image_ok env (s\<lparr>tasks := map from_descriptor ds\<rparr>)"
    using assms by (auto simp: image_ok_def stacks_ok_def irqs_ok_def mpus_ok_def owners_ok_def descs_ok_def
        irq_tables_ok_def region_table_def from_descriptor_def)
qed

lemma wp_reinitialize_all:
  "tinv (tasks s) \<Longrightarrow> stacks_ok env s \<Longrightarrow> set js \<subseteq> {..<length (tasks s)} \<Longrightarrow>
     (\<And>s'. kframe True s s' \<Longrightarrow> tinv (tasks s') \<Longrightarrow> map state (tasks s') = map state (tasks s) \<Longrightarrow> Q () s') \<Longrightarrow>
     wp (reinitialize_all env js) Q E H s"
proof (induction js arbitrary: s)
  case (Cons i js)
  have i: "i < length (tasks s)" using Cons.prems(3) by auto
  have "wp (arch_reinitialize env i) (\<lambda>_ s'. wp (reinitialize_all env js) Q E H s') E H s"
  proof (rule wp_arch_reinitialize [OF i])
    fix s' sv assume s': "kframe True s s'" "tasks s' = (tasks s)[i := (tasks s ! i)\<lparr>save := sv\<rparr>]"
    have t: "tinv (tasks s')" unfolding s'(2) by (rule tinv_quiet [OF Cons.prems(1) i]) simp
    have st: "map state (tasks s') = map state (tasks s)"
      using s'(2) i by (simp add: map_update list_update_same_conv)
    have "stack_ok env (tasks s' ! j)" if "j < length (tasks s')" for j
      using that Cons.prems(2) s' stack_ok_cong [of "(tasks s ! i)\<lparr>save := sv\<rparr>" "tasks s ! i" env]
      by (cases "j = i") (simp_all add: stacks_ok_alt)
    then have "stacks_ok env s'" by (simp add: stacks_ok_alt)
    then show "wp (reinitialize_all env js) Q E H s'"
      using Cons.prems(3,4) t s' st by (intro Cons.IH) (auto intro: kframe_trans)
  qed (use Cons.prems i tinv_task [of "tasks s" i] in \<open>auto simp: task_ok_def stacks_ok_alt\<close>)
  then show ?case by (simp add: wp_kbind)
qed (simp add: wp_kret)

text \<open>
  What else the boot needs to get to the first task: one that starts at boot, a tick divisor,
  and register arrays as large as the number of interrupts the processor reports.
\<close>

definition boot_ok :: "kenv \<Rightarrow> TaskDesc list \<Rightarrow> u32 \<Rightarrow> kstate \<Rightarrow> bool" where
  "boot_ok env ds tick_divisor s \<longleftrightarrow> (\<exists>d \<in> set ds. flags_contains (desc_flags d) START_AT_BOOT)
     \<and> tick_divisor \<noteq> 0 \<and> setup_exceptions env ((sysr s)\<lparr>clock_freq_khz := tick_divisor\<rparr>) \<noteq> None"

lemma wp_start_kernel:
  assumes "descs_ok env ds" and "irq_tables_ok env (length ds) s0"
  shows "wp (start_kernel env ds tick_divisor) (\<lambda>_ s. kinv env s) E (\<lambda>h. h = KPanic \<and> \<not> boot_ok env ds tick_divisor s0) s0"
proof -
  let ?s1 = "s0\<lparr>sysr := (sysr s0)\<lparr>clock_freq_khz := tick_divisor\<rparr>, tasks := map from_descriptor ds\<rparr>"
  let ?n = "length ds" and ?H = "\<lambda>h. h = KPanic \<and> \<not> boot_ok env ds tick_divisor s0"
  have n: "0 < ?n" using assms(1) by (simp add: descs_ok_def)
  note bt = boot_table [OF assms]
  have im: "image_ok env ?s1" using bt(2) by (simp add: image_ok_def stacks_ok_def irqs_ok_def mpus_ok_def owners_ok_def)
  let ?rest = "\<lambda>i. kbind (get_task i) (\<lambda>t. kbind (apply_memory_protection env t) (\<lambda>_.
       kbind (kmodify (\<lambda>s. s\<lparr>table_in_use := False\<rparr>)) (\<lambda>_. start_first_task env tick_divisor i)))"
  have "wp (reinitialize_all env [0..<?n])
      (\<lambda>_ s'. wp (select (?n - 1)) (\<lambda>i s''. wp (?rest i) (\<lambda>_ s. kinv env s) E ?H s'') E ?H s') E ?H ?s1"
  proof (rule wp_reinitialize_all)
    fix s' assume k: "kframe True ?s1 s'" and t: "tinv (tasks s')" and st: "map state (tasks s') = map state (tasks ?s1)"
    have len: "length (tasks s') = ?n" using kframe_length [OF k] by simp
    have sy: "sysr s' = (sysr s0)\<lparr>clock_freq_khz := tick_divisor\<rparr>" using k by (simp add: kframe_def)
    have im': "image_ok env s'" by (rule image_ok_kframe [OF k im])
    show "wp (select (?n - 1)) (\<lambda>i s''. wp (?rest i) (\<lambda>_ s. kinv env s) E ?H s'') E ?H s'"
    proof (rule wp_select)
      fix i assume i: "i < length (tasks s')" "is_runnable (tasks s' ! i)"
      have "wp (apply_memory_protection env (tasks s' ! i)) (\<lambda>_ s''. wp (kbind (kmodify (\<lambda>s. s\<lparr>table_in_use := False\<rparr>))
          (\<lambda>_. start_first_task env tick_divisor i)) (\<lambda>_ s. kinv env s) E ?H s'') E ?H s'"
        by (rule wp_apply_memory_protection)
          (use i t im' image_parts(3) [OF im'] sy in
            \<open>auto simp: mpus_ok_def start_first_task_def wp_simps kinv_def pre_def boot_ok_def split: option.splits\<close>)
      with i show "wp (?rest i) (\<lambda>_ s. kinv env s) E ?H s'" by (simp add: wp_kbind wp_get_task)
    next
      assume none: "\<forall>t \<in> set (tasks s'). \<not> is_runnable t"
      then have "Healthy Runnable \<notin> set (map state (tasks s'))" by (auto simp: is_runnable_def)
      then have "Healthy Runnable \<notin> set (map state (map from_descriptor ds))" using st by simp
      then have "\<not> flags_contains (desc_flags d) START_AT_BOOT" if "d \<in> set ds" for d
        using that by (force simp: from_descriptor_def)
      then show "?H KPanic" by (auto simp: boot_ok_def)
    qed (use n len in auto)
  qed (use bt(1) image_parts(1) [OF im] in auto)
  then show ?thesis
    using n by (simp add: start_kernel_def set_clock_freq_def wp_kbind wp_kmodify)
qed

end
