(* ===== verification/Kern_Transfer.thy ===== *)
theory Kern_Transfer
  imports Kern_Reach
begin

section \<open>What a message transfer does\<close>

text \<open>
  Functional specifications of the copying system calls on their successful branch: the bytes
  that arrive, the registers the receiver sees and the states of the two tasks.
\<close>

subsection \<open>Copies\<close>

lemma nth_mem_bytes [simp]: "i < n \<Longrightarrow> mem_bytes m base n ! i = m (base + word_of_nat i)"
  by (simp add: mem_bytes_def)

lemma unat_word_of_nat_small: "i < 2 ^ 32 \<Longrightarrow> unat (word_of_nat i :: u32) = i"
  by (simp add: unat_of_nat)

lemma mem_bytes_write:
  assumes "length bs \<le> 2 ^ 32"
  shows "mem_bytes (mem_write m base bs) base (length bs) = bs"
  using assms by (intro nth_equalityI) (simp_all add: mem_write_def unat_word_of_nat_small)

definition copied :: "kstate \<Rightarrow> USlice \<Rightarrow> USlice \<Rightarrow> memory" where
  "copied s src dst = mem_write (mem s) (slice_base dst)
     (mem_bytes (mem s) (slice_base src) (unat (min (slice_len src) (slice_len dst))))"

lemma copied_bytes:
  "mem_bytes (copied s src dst) (slice_base dst) (unat (min (slice_len src) (slice_len dst)))
     = mem_bytes (mem s) (slice_base src) (unat (min (slice_len src) (slice_len dst)))"
  using mem_bytes_write [of "mem_bytes (mem s) (slice_base src) (unat (min (slice_len src) (slice_len dst)))" "mem s" "slice_base dst"]
    unat_lt_u32 [of "min (slice_len src) (slice_len dst)"]
  by (simp add: copied_def less_imp_le)

lemma wp_result: "wp m (\<lambda>a s'. r = Ok a s') (\<lambda>e s'. r = Err e s') (\<lambda>_. False) s \<Longrightarrow> m s = r"
  by (auto simp: wp_def split: kres.splits)

text \<open>When a checked copy succeeds, exactly, and what it leaves otherwise.\<close>

definition copy_ok :: "Task \<Rightarrow> USlice \<Rightarrow> Task \<Rightarrow> USlice \<Rightarrow> bool" where
  "copy_ok from src to dst \<longleftrightarrow> can_read from 1 src \<and> can_write to 1 dst \<and> \<not> aliases 1 src dst"

lemma safe_copy_eq:
  assumes "i < length (tasks s)" and "j < length (tasks s)" and "i \<noteq> j"
  shows "safe_copy i src j dst s =
    (if copy_ok (tasks s ! i) src (tasks s ! j) dst
     then Ok (min (slice_len src) (slice_len dst)) (s\<lparr>mem := copied s src dst\<rparr>)
     else Err \<lparr>fault_src = (if can_read (tasks s ! i) 1 src then None else Some (MemoryAccess (Some (slice_base src)) Kernel)),
               fault_dst = (if aliases 1 src dst \<or> \<not> can_write (tasks s ! j) 1 dst
                            then Some (MemoryAccess (Some (slice_base dst)) Kernel) else None)\<rparr> s)"
proof -
  let ?r = "if copy_ok (tasks s ! i) src (tasks s ! j) dst
     then Ok (min (slice_len src) (slice_len dst)) (s\<lparr>mem := copied s src dst\<rparr>)
     else Err \<lparr>fault_src = (if can_read (tasks s ! i) 1 src then None else Some (MemoryAccess (Some (slice_base src)) Kernel)),
               fault_dst = (if aliases 1 src dst \<or> \<not> can_write (tasks s ! j) 1 dst
                            then Some (MemoryAccess (Some (slice_base dst)) Kernel) else None)\<rparr> s"
  have "wp (safe_copy i src j dst) (\<lambda>n s'. ?r = Ok n s') (\<lambda>it s'. ?r = Err it s') (\<lambda>_. False) s"
    using assms
    by (auto simp: safe_copy_def copy_with_def wp_simps copy_ok_def copy_dst_def try_read_def try_write_def
        copied_def Let_def)
  then show ?thesis by (rule wp_result)
qed

subsection \<open>Messages\<close>

text \<open>The state after a delivery.\<close>

definition delivered :: "nat \<Rightarrow> nat \<Rightarrow> USlice \<Rightarrow> USlice \<Rightarrow> USlice \<Rightarrow> USlice \<Rightarrow> kstate \<Rightarrow> kstate" where
  "delivered c e m r l d s = s\<lparr>mem := copied s m d,
     tasks := (tasks s)[c := (tasks s ! c)\<lparr>state := Healthy (InReply (task_id (tasks s) e))\<rparr>,
       e := (tasks s ! e)\<lparr>save := set_recv_result (task_id (tasks s) c)
               (ucast (send_operation (as_send_args (save (tasks s ! c)))))
               (min (slice_len m) (slice_len d)) (slice_len r) (slice_len l) (save (tasks s ! e)),
             state := Healthy Runnable\<rparr>]\<rparr>"

lemma deliver_eq:
  assumes "c < length (tasks s)" and "e < length (tasks s)" and "c \<noteq> e"
    and "healthy (state (tasks s ! c))" and "healthy (state (tasks s ! e))"
    and "send_message (as_send_args (save (tasks s ! c))) = Inr m"
    and "send_response (as_send_args (save (tasks s ! c))) = Inr r"
    and "send_lease_table (as_send_args (save (tasks s ! c))) = Inr l"
    and "recv_buffer (as_recv_args (save (tasks s ! e))) = Inr d"
    and "copy_ok (tasks s ! c) m (tasks s ! e) d"
  shows "deliver c e s = Ok () (delivered c e m r l d s)"
proof -
  have id: "task_id ((tasks s)[e := (tasks s ! e)\<lparr>save := sv\<rparr>]) e = task_id (tasks s) e" for sv
    using assms(2) by (simp add: task_id_def task_generation_def)
  have "wp (safe_copy c m e d) Q E H s = Q (min (slice_len m) (slice_len d)) (s\<lparr>mem := copied s m d\<rparr>)" for Q E H
    using assms by (simp add: wp_def safe_copy_eq)
  then have "wp (deliver c e) (\<lambda>_ s'. s' = delivered c e m r l d s) (\<lambda>_ _. False) (\<lambda>_. False) s"
    using assms id by (simp add: deliver_def wp_simps Let_def delivered_def list_update_swap)
  then show ?thesis by (auto simp: wp_def split: kres.splits)
qed

lemma send_eq:
  assumes "pre s c" and "send_callee (as_send_args (save (tasks s ! c))) = task_id (tasks s) e"
    and "e < length (tasks s)" and "can_accept_message_from (state (tasks s ! e)) (task_id (tasks s) c)"
    and "send_message (as_send_args (save (tasks s ! c))) = Inr m"
    and "send_response (as_send_args (save (tasks s ! c))) = Inr r"
    and "send_lease_table (as_send_args (save (tasks s ! c))) = Inr l"
    and "recv_buffer (as_recv_args (save (tasks s ! e))) = Inr d"
    and "copy_ok (tasks s ! c) m (tasks s ! e) d"
  shows "send env c s = Ok (Specific e) (delivered c e m r l d s)"
proof -
  note pre = assms(1) [unfolded pre_def]
  have n: "length (tasks s) \<le> 1023" using pre tinv_length(2) by blast
  have ix: "tid_index (task_id (tasks s) e) = e"
    using assms(3) n by (simp add: task_id_def for_index_and_gen_index)
  have nk: "task_id (tasks s) e \<noteq> KERNEL"
    using assms(3) n by (simp add: task_id_def for_index_and_gen_neq_KERNEL)
  have h: "c \<noteq> e" "healthy (state (tasks s ! e))"
    using pre assms(4) by (auto simp: can_accept_message_from_def is_runnable_def split: TaskState.splits)
  have "deliver c e s = Ok () (delivered c e m r l d s)"
    using pre assms h by (intro deliver_eq) simp_all
  then have "wp (deliver c e) Q E H s = Q () (delivered c e m r l d s)" for Q E H
    by (simp add: wp_def)
  then have "wp (send env c) (\<lambda>h s'. h = Specific e \<and> s' = delivered c e m r l d s) (\<lambda>_ _. False) (\<lambda>_. False) s"
    using pre assms(2-4) nk ix live_task_id [OF assms(3) n] by (simp add: send_def wp_simps Let_def)
  then show ?thesis by (auto simp: wp_def split: kres.splits)
qed

text \<open>The state after a reply.\<close>

definition replied :: "nat \<Rightarrow> nat \<Rightarrow> USlice \<Rightarrow> USlice \<Rightarrow> kstate \<Rightarrow> kstate" where
  "replied c i src dst s = s\<lparr>mem := copied s src dst,
     tasks := (tasks s)[i := (tasks s ! i)\<lparr>save := set_send_response_and_length
         (reply_code (as_reply_args (save (tasks s ! c)))) (min (slice_len src) (slice_len dst)) (save (tasks s ! i)),
       state := Healthy Runnable\<rparr>]\<rparr>"

lemma reply_eq:
  assumes "pre s c" and "reply_callee (as_reply_args (save (tasks s ! c))) = task_id (tasks s) i"
    and "i < length (tasks s)" and "state (tasks s ! i) = Healthy (InReply (task_id (tasks s) c))"
    and "reply_message (as_reply_args (save (tasks s ! c))) = Inr src"
    and "send_response (as_send_args (save (tasks s ! i))) = Inr dst"
    and "copy_ok (tasks s ! c) src (tasks s ! i) dst"
  shows "reply c s = Ok Same (replied c i src dst s)"
proof -
  note pre = assms(1) [unfolded pre_def]
  have n: "length (tasks s) \<le> 1023" using pre tinv_length(2) by blast
  have ix: "tid_index (task_id (tasks s) i) = i"
    using assms(3) n by (simp add: task_id_def for_index_and_gen_index)
  have ne: "c \<noteq> i" using in_reply_facts(1) [OF assms(1,4)] by simp
  have "wp (safe_copy c src i dst) Q E H s = Q (min (slice_len src) (slice_len dst)) (s\<lparr>mem := copied s src dst\<rparr>)" for Q E H
    using pre assms ne by (simp add: wp_def safe_copy_eq)
  then have "wp (reply c) (\<lambda>h s'. h = Same \<and> s' = replied c i src dst s) (\<lambda>_ _. False) (\<lambda>_. False) s"
    using pre assms(2-6) ix live_task_id [OF assms(3) n]
    by (simp add: reply_def wp_simps Let_def replied_def)
  then show ?thesis by (auto simp: wp_def split: kres.splits)
qed

end
