(* ===== verification/Kern_Demo.thy ===== *)
theory Kern_Demo
  imports Kern_Transfer
begin

section \<open>A small image\<close>

text \<open>
  A concrete image on which the hypotheses of the theorems are shown to hold: a supervisor, a
  server and a client on an ARMv7-M processor without dumps, each with one kilobyte of RAM,
  one interrupt that belongs to the server, and little-endian message decoding.
\<close>

definition demo_region :: "u32 \<Rightarrow> RegionDesc" where
  "demo_region base = \<lparr>region_base = base, region_size = 0x400, region_attributes = 3\<rparr>"

definition demo_desc :: "u32 \<Rightarrow> u8 \<Rightarrow> u16 \<Rightarrow> TaskDesc" where
  "demo_desc base prio i = \<lparr>regions = [demo_region base], entry_point = 0x08000000,
     initial_stack = base + 0x200, desc_priority = prio, desc_flags = START_AT_BOOT, desc_index = i\<rparr>"

definition demo_descs :: "TaskDesc list" where
  "demo_descs = [demo_desc 0x20000000 0 0, demo_desc 0x20000400 1 1, demo_desc 0x20000800 2 2]"

definition demo_u32 :: "u8 list \<Rightarrow> u32 option" where
  "demo_u32 bs = (if 4 \<le> length bs then Some (ucast (bs ! 0) OR push_bit 8 (ucast (bs ! 1))
     OR push_bit 16 (ucast (bs ! 2)) OR push_bit 24 (ucast (bs ! 3))) else None)"

definition demo_env :: kenv where
  "demo_env = \<lparr>profile = ARMv7M, feature_dump = False, image_id = 7,
     task_irq_lookup = (\<lambda>own. if own = \<lparr>io_task = 1, io_notification = 2\<rparr> then Some [5] else None),
     irq_task_lookup = (\<lambda>n. if n = 5 then Some \<lparr>io_task = 1, io_notification = 2\<rparr> else None),
     de_u32 = demo_u32,
     de_u32_bool = (\<lambda>bs. if 5 \<le> length bs then map_option (\<lambda>w. (w, bs ! 4 \<noteq> 0)) (demo_u32 bs) else None),
     de_u32_u32 = (\<lambda>bs. case (demo_u32 bs, demo_u32 (drop 4 bs)) of (Some a, Some b) \<Rightarrow> Some (a, b) | _ \<Rightarrow> None),
     de_u32_region = (\<lambda>_. None),
     ser = (\<lambda>_ buf. (SerOk 0, buf)), size_of_ser = (\<lambda>_. 8),
     tcb_base = (\<lambda>i. 0x10000000 + word_of_nat i * 0x100), tcb_size = 0x100,
     tcb_bytes = (\<lambda>_. replicate 0x100 0), stack_base = 0x10000400\<rparr>"

definition demo_regs :: "u32 \<Rightarrow> u32 \<Rightarrow> u32 \<Rightarrow> u32 \<Rightarrow> SavedState" where
  "demo_regs a b c d = saved_state_default\<lparr>r4 := a, r5 := b, r6 := c, r7 := d, exc_return := EXC_RETURN_CONST\<rparr>"

definition demo_task :: "TaskDesc \<Rightarrow> SavedState \<Rightarrow> SchedState \<Rightarrow> Task" where
  "demo_task d sv sc = (from_descriptor d)\<lparr>save := sv, state := Healthy sc\<rparr>"

definition demo_mpu :: mpu_regs where
  "demo_mpu = \<lparr>mpu_rbar = \<lambda>_. 0, mpu_rasr = \<lambda>_. 0, mpu_rlar = \<lambda>_. 0, mpu_mair0 = 0, mpu_mair1 = 0, mpu_ctrl = 5\<rparr>"

definition demo_sysr :: sys_regs where
  "demo_sysr = \<lparr>cfsr = 2, mmfar = 0, bfar = 0, shcsr = 0, fpccr = 0, ccr = 0, shpr = replicate 12 0, ipr = replicate 32 0,
     ictr = 0, syst_rvr = 0, syst_cvr = 0, syst_csr = 0, msplim = 0, psp_reg = 0, clock_freq_khz = 0\<rparr>"

definition demo_state :: "Task list \<Rightarrow> nat \<Rightarrow> kstate" where
  "demo_state ts i = \<lparr>tasks = ts, table_in_use = False, mem = (\<lambda>a. ucast a), current = i, ticks0 = 0, ticks1 = 0,
     nvic_iser = [0], nvic_ispr = [0], mpu = demo_mpu, sysr = demo_sysr, pendsv = False\<rparr>"

text \<open>Supervisor waiting for faults, server in an open receive with a 16-byte buffer, client running.\<close>

definition demo_tasks :: "SavedState \<Rightarrow> Task list" where
  "demo_tasks sv = [
     demo_task (demo_descs ! 0) (demo_regs 0x20000300 16 1 0) (InRecv None),
     demo_task (demo_descs ! 1) (demo_regs 0x20000700 16 2 0) (InRecv None),
     demo_task (demo_descs ! 2) sv Runnable]"

lemmas demo_defs = demo_env_def demo_state_def demo_tasks_def demo_task_def demo_descs_def demo_desc_def
  demo_region_def demo_regs_def from_descriptor_def

lemma demo_mpu_ok: "\<forall>d \<in> set demo_descs. \<forall>r \<in> set (regions d). region_mpu_ok r"
  by (simp add: demo_descs_def demo_desc_def demo_region_def region_mpu_ok_def region_wf_def)

lemma demo_stack_ok: "\<forall>d \<in> set demo_descs. stack_ok demo_env (from_descriptor d)"
proof -
  have "list_all (\<lambda>d. stack_ok demo_env (from_descriptor d)) demo_descs" by code_simp
  then show ?thesis by (simp add: list_all_iff)
qed

lemma demo_image:
  assumes "map descriptor ts = demo_descs"
  shows "image_ok demo_env (demo_state ts i)" and "length ts = 3"
    and "\<And>j. j < 3 \<Longrightarrow> regions_wf (ts ! j) \<and> unat (desc_index (descriptor (ts ! j))) = j"
proof -
  show l: "length ts = 3" using arg_cong [OF assms, of length] by (simp add: demo_descs_def)
  have d: "descriptor (ts ! j) = demo_descs ! j" if "j < 3" for j
    using that l assms by (metis nth_map)
  have mem: "demo_descs ! j \<in> set demo_descs" if "j < 3" for j
    by (rule nth_mem) (use that in \<open>simp add: demo_descs_def\<close>)
  note so = demo_stack_ok [rule_format, OF mem] and mp = demo_mpu_ok [THEN bspec, OF mem]
  have ix: "unat (desc_index (demo_descs ! j)) = j" if "j < 3" for j
    using that by (auto simp: demo_descs_def demo_desc_def less_Suc_eq numeral_3_eq_3)
  have "stack_ok demo_env (ts ! j)" if "j < 3" for j
    using so [OF that] d [OF that] stack_ok_cong [of "ts ! j" "from_descriptor (demo_descs ! j)" demo_env]
    by (simp add: from_descriptor_def)
  then show "image_ok demo_env (demo_state ts i)"
    using l d mp
    by (auto simp: image_ok_def stacks_ok_alt mpus_ok_alt irqs_ok_def owners_ok_def demo_env_def demo_state_def nvic_reg_def
        split: if_splits)
  show "\<And>j. j < 3 \<Longrightarrow> regions_wf (ts ! j) \<and> unat (desc_index (descriptor (ts ! j))) = j"
    using d mp ix by (auto simp: regions_wf_def region_table_def region_mpu_ok_def list_all_iff)
qed

lemma demo_tinv:
  assumes "map descriptor ts = demo_descs" and "list_all (\<lambda>t. peer_ok ts (state t)) ts"
  shows "tinv ts"
  using assms demo_image [OF assms(1)]
  by (simp add: tinv_def task_ok_def list_all_length)

lemma demo_kinv:
  assumes "map descriptor ts = demo_descs" and "list_all (\<lambda>t. peer_ok ts (state t)) ts" and "i < 3"
    and "is_runnable (ts ! i)"
  shows "kinv demo_env (demo_state ts i)"
  using assms demo_image(1) [OF assms(1), of i] demo_image(2) [OF assms(1)] demo_tinv [OF assms(1,2)]
  by (simp add: kinv_def pre_def demo_state_def)

lemma demo_tasks_kinv: "kinv demo_env (demo_state (demo_tasks sv) 2)"
  by (rule demo_kinv) (simp_all add: demo_defs is_runnable_def numeral_2_eq_2)

lemma demo_descs_ok: "descs_ok demo_env demo_descs"
proof -
  have "\<forall>i < length demo_descs. unat (desc_index (demo_descs ! i)) = i"
    by (simp add: demo_descs_def demo_desc_def less_Suc_eq all_conj_distrib nth_Cons split: nat.splits)
  moreover have "length demo_descs = 3" by (simp add: demo_descs_def)
  ultimately show ?thesis using demo_mpu_ok demo_stack_ok by (auto simp: descs_ok_def)
qed

lemma demo_irq_tables_ok: "irq_tables_ok demo_env (length demo_descs) (demo_state ts i)"
  by (auto simp: demo_descs_def irq_tables_ok_def irqs_ok_def demo_env_def demo_state_def nvic_reg_def split: if_splits)

end
