(* ===== verification/Kern_Restart.thy ===== *)
theory Kern_Restart
  imports Kern_Transfer
begin

section \<open>What a restart does\<close>

text \<open>
  The task table after \<^verbatim>\<open>restart_task\<close>, in closed form up to the registers of the restarted
  task, and what follows from it: the new incarnation, and the release of every task that was
  blocked on the old one.
\<close>

definition restarted :: "Task list \<Rightarrow> nat \<Rightarrow> nat \<Rightarrow> bool \<Rightarrow> SavedState \<Rightarrow> Task list" where
  "restarted ts c i start sv =
     (let t = (reinitialize_fields (ts ! i))\<lparr>save := sv, state := Healthy (if start then Runnable else Stopped)\<rparr>;
          ts1 = condole_loop c i (task_id ts i) 0 (ts[i := t])
      in if i = c then ts1 else ts1[c := (ts1 ! c)\<lparr>save := set_send_response_and_length 0 0 (save (ts1 ! c))\<rparr>])"

lemma wp_deserialize_ok:
  "can_read t 1 m \<Longrightarrow> de (mem_bytes (mem s) (slice_base m) (unat (slice_len m))) = Some v \<Longrightarrow>
     wp (deserialize_message de t m) Q E H s = Q v s"
  by (simp add: deserialize_message_def try_read_def wp_simps)

lemma reinitialize_Ok:
  assumes "tinv (tasks s)" and "i < length (tasks s)" and "stacks_ok env s"
  obtains s' sv where "reinitialize env i s = Ok () s'" and "kframe True s s'"
    and "tasks s' = (tasks s)[i := (reinitialize_fields (tasks s ! i))\<lparr>save := sv\<rparr>]"
proof -
  have "wp (reinitialize env i) (\<lambda>_ s'. kframe True s s' \<and>
      (\<exists>sv. tasks s' = (tasks s)[i := (reinitialize_fields (tasks s ! i))\<lparr>save := sv\<rparr>])) (\<lambda>_ _. False) (\<lambda>_. False) s"
    by (rule wp_reinitialize [OF assms]) auto
  with that show ?thesis by (auto simp: wp_def split: kres.splits)
qed

lemma reinitialized_stopped [simp]:
  "(reinitialize_fields t)\<lparr>save := sv, state := Healthy Stopped\<rparr> = (reinitialize_fields t)\<lparr>save := sv\<rparr>"
  by (simp add: reinitialize_fields_def task_state_default_def)

lemma restart_result:
  assumes "pre s c" and "stacks_ok env s" and "can_read (tasks s ! c) 1 m"
    and "de_u32_bool env (mem_bytes (mem s) (slice_base m) (unat (slice_len m))) = Some (w, start)"
    and "unat w < length (tasks s)"
  shows "\<exists>s' sv. restart_task env c m s = Ok (if unat w = c \<and> \<not> start then Other else Same) s'
    \<and> tasks s' = restarted (tasks s) c (unat w) start sv"
proof -
  note pre = assms(1) [unfolded pre_def]
  let ?i = "unat w"
  from reinitialize_Ok [of s ?i env, where ?'a = UserError] pre assms(2,5)
  obtain s1 sv where s1: "reinitialize env ?i s = (Ok () s1 :: (unit, UserError) kres)" "kframe True s s1"
    and t1: "tasks s1 = (tasks s)[?i := (reinitialize_fields (tasks s ! ?i))\<lparr>save := sv\<rparr>]" by blast
  have wr: "wp (reinitialize env ?i) Q E H s = Q () s1" for Q and E :: "UserError \<Rightarrow> kstate \<Rightarrow> bool" and H
    using s1(1) by (simp add: wp_def)
  have h: "state (reinitialize_fields (tasks s ! ?i)) = Healthy Stopped"
    by (simp add: reinitialize_fields_def task_state_default_def)
  have "wp (restart_task env c m) (\<lambda>h s'. h = (if ?i = c \<and> \<not> start then Other else Same)
      \<and> tasks s' = restarted (tasks s) c ?i start sv) (\<lambda>_ _. False) (\<lambda>_. False) s"
    using pre assms(3-5) t1 h wr
    by (cases start; cases "?i = c")
      (simp_all add: restart_task_def wp_kbind wp_get_task wp_deserialize_ok wp_kget wp_current_id wp_set_state
        wp_kmodify wp_kret wp_modify_save restarted_def Let_def)
  then show ?thesis by (auto simp: wp_def split: kres.splits)
qed

text \<open>The tasks of the resulting table, one by one.\<close>

lemma nth_restarted:
  assumes "i < length ts" and "j < length ts"
  shows "restarted ts c i start sv ! j =
    (if j = i then (reinitialize_fields (ts ! i))\<lparr>save := sv, state := Healthy (if start then Runnable else Stopped)\<rparr>
     else if j = c then (ts ! c)\<lparr>save := set_send_response_and_length 0 0 (save (ts ! c))\<rparr>
     else condole (task_id ts i) (ts ! j))"
  using assms by (auto simp: restarted_def nth_condole_loop Let_def nth_list_update)

lemma condole_waiting:
  "waits_for (state t) old \<Longrightarrow> condole old t =
     t\<lparr>save := set_error_response (dead_response_code (tid_generation old)) (save t), state := Healthy Runnable\<rparr>"
  by (auto simp: waits_for_def condole_def)

lemma condole_other: "\<not> waits_for (state t) old \<Longrightarrow> condole old t = t"
  by (auto simp: waits_for_def condole_def Let_def split: TaskState.splits SchedState.splits option.splits)

lemma tid_generation_task_id: "tid_generation (task_id ts i) = task_generation (ts ! i)"
  by (simp add: task_id_def for_index_and_gen_generation gen_ok_task_generation)

lemma restarted_no_waiter:
  assumes "pre s c" and "i < length (tasks s)" and "j < length (tasks s)"
  shows "\<not> waits_for (state (restarted (tasks s) c i start sv ! j)) (task_id (tasks s) i)"
  using assms nth_restarted [OF assms(2,3), of c start sv]
  by (cases "waits_for (state (tasks s ! j)) (task_id (tasks s) i)")
    (auto simp: condole_waiting condole_other pre_def is_runnable_def waits_for_def)

end
