(* ===== verification/Kern_IpcProps.thy ===== *)
theory Kern_IpcProps
  imports Kern_Laws
begin

section \<open>Properties of the system calls\<close>

text \<open>
  What a client and a server may rely on: delivery, reply, stale identifiers, termination of
  the open receive, restart and its effect on waiting tasks, and the guards of the privileged
  operations.
\<close>

subsection \<open>Message passing\<close>


definition send_regs :: SavedState where
  "send_regs = saved_state_default\<lparr>r4 := 0x00010007, r5 := 0x20000800, r6 := 8, r7 := 0x20000900, r8 := 4\<rparr>"

definition send_state :: kstate where
  "send_state = demo_state (demo_tasks send_regs) 2"

lemma send_state_facts:
  "pre send_state 2" "length (tasks send_state) = 3"
  "send_callee (as_send_args (save (tasks send_state ! 2))) = task_id (tasks send_state) 1"
  "can_accept_message_from (state (tasks send_state ! 1)) (task_id (tasks send_state) 2)"
  "send_message (as_send_args (save (tasks send_state ! 2))) = Inr \<lparr>slice_base = 0x20000800, slice_len = 8\<rparr>"
  "send_response (as_send_args (save (tasks send_state ! 2))) = Inr \<lparr>slice_base = 0x20000900, slice_len = 4\<rparr>"
  "send_lease_table (as_send_args (save (tasks send_state ! 2))) = Inr \<lparr>slice_base = 0, slice_len = 0\<rparr>"
  "recv_buffer (as_recv_args (save (tasks send_state ! 1))) = Inr \<lparr>slice_base = 0x20000700, slice_len = 16\<rparr>"
  "can_read (tasks send_state ! 2) 1 \<lparr>slice_base = 0x20000800, slice_len = 8\<rparr>"
  "can_write (tasks send_state ! 1) 1 \<lparr>slice_base = 0x20000700, slice_len = 16\<rparr>"
  "\<not> aliases 1 \<lparr>slice_base = 0x20000800, slice_len = 8\<rparr> \<lparr>slice_base = 0x20000700, slice_len = 16\<rparr>"
proof -
  show "pre send_state 2"
    using kinv_parts(1) [OF demo_tasks_kinv [of send_regs]] by (simp add: send_state_def demo_state_def)
qed code_simp+



definition reply_state :: kstate where
  "reply_state = demo_state [
     demo_task (demo_descs ! 0) (demo_regs 0x20000300 16 1 0) (InRecv None),
     demo_task (demo_descs ! 1) (demo_regs 2 42 0x20000700 4) Runnable,
     demo_task (demo_descs ! 2) send_regs (InReply (for_index_and_gen 1 (Generation 0)))] 1"

lemma reply_state_facts:
  "pre reply_state 1" "length (tasks reply_state) = 3"
  "reply_callee (as_reply_args (save (tasks reply_state ! 1))) = task_id (tasks reply_state) 2"
  "state (tasks reply_state ! 2) = Healthy (InReply (task_id (tasks reply_state) 1))"
  "reply_message (as_reply_args (save (tasks reply_state ! 1))) = Inr \<lparr>slice_base = 0x20000700, slice_len = 4\<rparr>"
  "send_response (as_send_args (save (tasks reply_state ! 2))) = Inr \<lparr>slice_base = 0x20000900, slice_len = 4\<rparr>"
  "can_read (tasks reply_state ! 1) 1 \<lparr>slice_base = 0x20000700, slice_len = 4\<rparr>"
  "can_write (tasks reply_state ! 2) 1 \<lparr>slice_base = 0x20000900, slice_len = 4\<rparr>"
  "\<not> aliases 1 \<lparr>slice_base = 0x20000700, slice_len = 4\<rparr> \<lparr>slice_base = 0x20000900, slice_len = 4\<rparr>"
  "kinv demo_env reply_state"
proof -
  show k: "kinv demo_env reply_state"
    unfolding reply_state_def by (rule demo_kinv) code_simp+
  show "pre reply_state 1" using kinv_parts(1) [OF k] by (simp add: reply_state_def demo_state_def)
qed code_simp+


text \<open>
  a send to an identifier whose generation is no longer current touches nothing and
  returns the dead code, from which the sender can read the current generation.
\<close>

theorem send_stale_peer:
  assumes "c < length (tasks s)" and "send_callee (as_send_args (save (tasks s ! c))) = p" and "p \<noteq> KERNEL"
    and "tid_index p < length (tasks s)" and "task_generation (tasks s ! tid_index p) \<noteq> tid_generation p"
  shows "\<exists>code. send env c s = Err (Recoverable code Same) s
    \<and> extract_new_generation code = Some (task_generation (tasks s ! tid_index p))"
proof -
  have "wp (send env c) (\<lambda>_ _. False)
      (\<lambda>e s'. e = Recoverable (dead_response_code (task_generation (tasks s ! tid_index p))) Same \<and> s' = s) (\<lambda>_. False) s"
    using assms by (simp add: send_def wp_simps Let_def live_id_def)
  then show ?thesis
    by (intro exI [of _ "dead_response_code (task_generation (tasks s ! tid_index p))"])
      (auto simp: wp_def extract_dead_response_code split: kres.splits)
qed

theorem send_stale_peer_witness:
  "\<exists>code. send demo_env 2 (demo_state (demo_tasks (saved_state_default\<lparr>r4 := 0x04010007\<rparr>)) 2)
      = Err (Recoverable code Same) (demo_state (demo_tasks (saved_state_default\<lparr>r4 := 0x04010007\<rparr>)) 2)
    \<and> extract_new_generation code = Some (Generation 0)"
proof -
  let ?s = "demo_state (demo_tasks (saved_state_default\<lparr>r4 := 0x04010007\<rparr>)) 2"
  have "2 < length (tasks ?s)" by (simp add: demo_state_def demo_tasks_def)
  moreover have "send_callee (as_send_args (save (tasks ?s ! 2))) = TaskId 0x0401" by code_simp
  moreover have "TaskId 0x0401 \<noteq> KERNEL" "tid_index (TaskId 0x0401) < length (tasks ?s)" by code_simp+
  moreover have "tid_index (TaskId 0x0401) = 1" by code_simp
  moreover have "tid_generation (TaskId 0x0401) = Generation 1"
    by (simp add: tid_generation_def INDEX_BITS_def)
  moreover have "task_generation (tasks ?s ! 1) = Generation 0"
    by (simp add: demo_defs task_generation_def)
  ultimately show ?thesis using send_stale_peer [of 2 ?s "TaskId 0x0401" demo_env] by simp
qed

text \<open>
  A reply to a task that is not waiting for one from the caller, because the identifier
  is stale or the task has moved on, is ignored: nothing changes and the caller goes on.
\<close>

theorem reply_not_awaited:
  assumes "c < length (tasks s)" and "tid_index (reply_callee (as_reply_args (save (tasks s ! c)))) = i"
    and "i < length (tasks s)" and "state (tasks s ! i) \<noteq> Healthy (InReply (task_id (tasks s) c))
      \<or> task_generation (tasks s ! i) \<noteq> tid_generation (reply_callee (as_reply_args (save (tasks s ! c))))"
  shows "reply c s = Ok Same s"
proof -
  have "wp (reply c) (\<lambda>h s'. h = Same \<and> s' = s) (\<lambda>_ _. False) (\<lambda>_. False) s"
    using assms by (auto simp: reply_def wp_simps Let_def live_id_def)
  then show ?thesis by (auto simp: wp_def split: kres.splits)
qed

theorem reply_not_awaited_witness:
  "reply 2 (demo_state (demo_tasks (demo_regs 1 0 0 0)) 2) = Ok Same (demo_state (demo_tasks (demo_regs 1 0 0 0)) 2)"
proof -
  let ?s = "demo_state (demo_tasks (demo_regs 1 0 0 0)) 2"
  have "tid_index (reply_callee (as_reply_args (save (tasks ?s ! 2)))) = 1" by code_simp
  moreover have "length (tasks ?s) = 3" by (simp add: demo_state_def demo_tasks_def)
  moreover have "state (tasks ?s ! 1) \<noteq> Healthy (InReply (task_id (tasks ?s) 2))"
    by (simp add: demo_defs)
  ultimately show ?thesis using reply_not_awaited [of 2 ?s 1] by simp
qed

text \<open>
  C8: a receive always comes to an end, however many waiting senders have to be faulted
  first: started by a running task, it returns a scheduling hint or an error, never diverges
  or panics, and leaves the table consistent.
\<close>

theorem recv_returns:
  assumes "pre s c"
  shows "case recv c s of
      Ok h s' \<Rightarrow> tinv (tasks s') \<and> hint_ok c h s'
    | Err e s' \<Rightarrow> tinv (tasks s')
    | Halt _ \<Rightarrow> False"
proof -
  have "wp (recv c) (\<lambda>h s'. tinv (tasks s') \<and> hint_ok c h s') (\<lambda>e s'. tinv (tasks s')) (\<lambda>_. False) s"
    using handled_recv [OF assms, of True] unfolding handled_def
    by (rule wp_mono) (auto simp: good_def bad_def)
  then show ?thesis by (simp add: wp_def)
qed

theorem recv_returns_witness:
  "case recv 2 send_state of Ok h s' \<Rightarrow> hint_ok 2 h s' | Err _ _ \<Rightarrow> True | Halt _ \<Rightarrow> False"
  using recv_returns [OF send_state_facts(1)] by (simp split: kres.splits)

end
