(* ===== verification/Kern_Control.thy ===== *)
theory Kern_Control
  imports Kern_IpcProps
begin

section \<open>Properties of restart, faults and interrupts\<close>

text \<open>
  The operations by which the supervisor and the hardware act on other tasks: restart and the
  release of waiting tasks, injected and hardware faults, interrupt delivery and control.
\<close>

subsection \<open>Restart\<close>

lemma task_generation_update [simp]:
  "task_generation (t\<lparr>save := sv\<rparr>) = task_generation t"
  "task_generation (t\<lparr>state := st\<rparr>) = task_generation t"
  by (simp_all add: task_generation_def)

text \<open>
  C9: a restart gives the task the next generation with timer and notifications cleared,
  runnable or stopped as asked; every other task blocked on the old incarnation (the caller
  apart) is released, runnable, with a dead code of the incarnation it was blocked on; all
  other tasks keep what they had, and no task still waits for the old identifier.
\<close>

theorem restart_outcome:
  assumes "pre s c" and "stacks_ok env s" and "can_read (tasks s ! c) 1 m"
    and "de_u32_bool env (mem_bytes (mem s) (slice_base m) (unat (slice_len m))) = Some (w, start)"
    and "unat w = i" and "i < length (tasks s)"
  shows "\<exists>s'. restart_task env c m s = Ok (if i = c \<and> \<not> start then Other else Same) s'
    \<and> task_generation (tasks s' ! i) = gen_next (task_generation (tasks s ! i))
    \<and> task_id (tasks s') i \<noteq> task_id (tasks s) i
    \<and> state (tasks s' ! i) = Healthy (if start then Runnable else Stopped)
    \<and> notifications (tasks s' ! i) = 0 \<and> timer (tasks s' ! i) = timer_default
    \<and> (\<forall>j < length (tasks s). j \<noteq> i \<longrightarrow> j \<noteq> c \<longrightarrow> tasks s' ! j =
         (if waits_for (state (tasks s ! j)) (task_id (tasks s) i)
          then (tasks s ! j)\<lparr>save := set_error_response (dead_response_code (task_generation (tasks s ! i))) (save (tasks s ! j)),
                 state := Healthy Runnable\<rparr>
          else tasks s ! j))
    \<and> (\<forall>j < length (tasks s). \<not> waits_for (state (tasks s' ! j)) (task_id (tasks s) i))"
proof -
  from restart_result [OF assms(1-4)] assms(5,6) obtain s' sv where
    r: "restart_task env c m s = Ok (if i = c \<and> \<not> start then Other else Same) s'"
    and t: "tasks s' = restarted (tasks s) c i start sv" by auto
  have g: "task_generation (tasks s' ! i) = gen_next (task_generation (tasks s ! i))"
    using nth_restarted [OF assms(6,6), of c start sv] t
    by (simp add: task_generation_reinitialize)
  have n: "task_id (tasks s') i \<noteq> task_id (tasks s) i"
    using g gen_next_neq [OF gen_ok_task_generation, of "tasks s ! i"] tid_generation_task_id by metis
  have o: "\<forall>j < length (tasks s). j \<noteq> i \<longrightarrow> j \<noteq> c \<longrightarrow> tasks s' ! j =
         (if waits_for (state (tasks s ! j)) (task_id (tasks s) i)
          then (tasks s ! j)\<lparr>save := set_error_response (dead_response_code (task_generation (tasks s ! i))) (save (tasks s ! j)),
                 state := Healthy Runnable\<rparr>
          else tasks s ! j)"
    using nth_restarted [OF assms(6), of _ c start sv] t
    by (simp add: condole_waiting condole_other tid_generation_task_id)
  show ?thesis
    using r g n o restarted_no_waiter [OF assms(1,6)] nth_restarted [OF assms(6,6), of c start sv]
    by (intro exI [of _ s']) (simp add: t reinitialize_fields_def)
qed

definition restart_state :: kstate where
  "restart_state = (demo_state (demo_tasks saved_state_default) 2)\<lparr>mem := \<lambda>_. 0\<rparr>"

lemma restart_state_facts:
  "pre restart_state 2" "stacks_ok demo_env restart_state" "length (tasks restart_state) = 3"
proof -
  have k: "kinv demo_env restart_state"
    using demo_tasks_kinv [of saved_state_default] by (simp add: restart_state_def)
  then show "pre restart_state 2" "stacks_ok demo_env restart_state"
    by (simp_all add: kinv_def image_ok_def) (simp add: restart_state_def demo_state_def)
  show "length (tasks restart_state) = 3" by (simp add: restart_state_def demo_state_def demo_tasks_def)
qed

theorem restart_outcome_witness:
  "\<exists>s'. restart_task demo_env 2 \<lparr>slice_base = 0x20000800, slice_len = 5\<rparr> restart_state = Ok Same s'
    \<and> task_generation (tasks s' ! 0) = gen_next (task_generation (tasks restart_state ! 0))"
proof -
  let ?m = "\<lparr>slice_base = 0x20000800, slice_len = 5\<rparr>"
  have "can_read (tasks restart_state ! 2) 1 ?m" by code_simp
  moreover have "de_u32_bool demo_env (mem_bytes (mem restart_state) (slice_base ?m) (unat (slice_len ?m))) = Some (0, False)"
    by (simp add: demo_env_def demo_u32_def restart_state_def mem_bytes_def)
  ultimately show ?thesis
    using restart_outcome [of restart_state 2 demo_env ?m 0 False 0] restart_state_facts by auto
qed

subsection \<open>Faults\<close>

text \<open>
  the supervisor and the caller cannot be faulted by an injected fault. Any other task
  is left faulted with the injector's identifier as the reason and its old scheduling state
  remembered, the supervisor is notified, and every task but those three is left alone.
\<close>

theorem fault_task_outcome:
  assumes "pre s c" and "can_read (tasks s ! c) 1 m"
    and "de_u32 env (mem_bytes (mem s) (slice_base m) (unat (slice_len m))) = Some w" and "unat w = i"
  shows "if i = 0 \<or> i = c then fault_task env c m s = Err (usage IllegalTask) s
    else if length (tasks s) \<le> i then fault_task env c m s = Err (usage TaskOutOfRange) s
    else \<exists>s'. fault_task env c m s = Ok Same s'
      \<and> tasks s' ! i = task_force_fault (Injected (task_id (tasks s) c)) (tasks s ! i)
      \<and> (c \<noteq> 0 \<longrightarrow> tasks s' ! 0 = snd (task_post HUBRIS_FAULT_NOTIFICATION (tasks s ! 0)))
      \<and> is_runnable (tasks s' ! c) \<and> arg0 (save (tasks s' ! c)) = 0
      \<and> (\<forall>j < length (tasks s). j \<notin> {0, i, c} \<longrightarrow> tasks s' ! j = tasks s ! j)"
proof -
  note pre = assms(1) [unfolded pre_def]
  have z: "0 < length (tasks s)" using pre tinv_length by blast
  consider "i = 0 \<or> i = c" | "i \<noteq> 0" "i \<noteq> c" "length (tasks s) \<le> i" | "i \<noteq> 0" "i \<noteq> c" "i < length (tasks s)"
    by linarith
  then show ?thesis
  proof cases
    case 1
    then have "wp (fault_task env c m) (\<lambda>_ _. False) (\<lambda>e s'. e = usage IllegalTask \<and> s' = s) (\<lambda>_. False) s"
      using pre assms(2-4) by (simp add: fault_task_def wp_simps wp_deserialize_ok Let_def)
    with 1 show ?thesis by (auto simp: wp_def split: kres.splits)
  next
    case 2
    then have "wp (fault_task env c m) (\<lambda>_ _. False) (\<lambda>e s'. e = usage TaskOutOfRange \<and> s' = s) (\<lambda>_. False) s"
      using pre assms(2-4) by (simp add: fault_task_def wp_simps wp_deserialize_ok Let_def)
    with 2 show ?thesis by (auto simp: wp_def split: kres.splits)
  next
    case 3
    define ts where "ts = (tasks s)[i := task_force_fault (Injected (task_id (tasks s) c)) (tasks s ! i)]"
    obtain b t0 where p: "task_post HUBRIS_FAULT_NOTIFICATION (tasks s ! 0) = (b, t0)" by fastforce
    have t0: "ts ! 0 = tasks s ! 0" "length ts = length (tasks s)" using 3 by (simp_all add: ts_def)
    let ?t = "ts[0 := t0]"
    have run: "is_runnable (?t ! c)"
      using pre 3 p z task_post_state [of HUBRIS_FAULT_NOTIFICATION "tasks s ! 0"]
      by (cases "c = 0") (auto simp: ts_def is_runnable_def)
    have "wp (fault_task env c m) (\<lambda>h s'. h = Same \<and>
        s' = s\<lparr>tasks := ?t[c := (?t ! c)\<lparr>save := set_send_response_and_length 0 0 (save (?t ! c))\<rparr>]\<rparr>) (\<lambda>_ _. False) (\<lambda>_. False) s"
      using pre assms(2-4) 3 z p t0
      by (auto simp: fault_task_def force_fault_def wp_simps wp_deserialize_ok Let_def simp flip: ts_def)
    then have "fault_task env c m s = Ok Same
        (s\<lparr>tasks := ?t[c := (?t ! c)\<lparr>save := set_send_response_and_length 0 0 (save (?t ! c))\<rparr>]\<rparr>)"
      by (auto simp: wp_def split: kres.splits)
    then show ?thesis
      using 3 pre z p t0 run by (auto simp: ts_def result_defs reg_defs is_runnable_def)
  qed
qed

theorem fault_task_outcome_witness:
  "fault_task demo_env 2 \<lparr>slice_base = 0x20000800, slice_len = 4\<rparr> restart_state = Err (usage IllegalTask) restart_state"
proof -
  let ?m = "\<lparr>slice_base = 0x20000800, slice_len = 4\<rparr>"
  have "can_read (tasks restart_state ! 2) 1 ?m" by code_simp
  moreover have "de_u32 demo_env (mem_bytes (mem restart_state) (slice_base ?m) (unat (slice_len ?m))) = Some 0"
    by (simp add: demo_env_def demo_u32_def restart_state_def mem_bytes_def)
  ultimately show ?thesis
    using fault_task_outcome [of restart_state 2 ?m demo_env 0 0] restart_state_facts by simp
qed

text \<open>
  C13: a hardware fault of the running task never lets that task run on: the task is marked
  faulted, another runnable task becomes current and the invariant holds; memory changes only
  where tasks may write. The kernel panics only when no other task is runnable.
\<close>

theorem handle_fault_outcome:
  assumes "kinv env s" and "exc_return (save (tasks s ! current s)) AND 8 \<noteq> 0"
  shows "case (handle_fault env ft fpregs s :: (unit, UserError) kres) of
      Ok _ s' \<Rightarrow> kinv env s' \<and> mem_frame s s' \<and> current s' \<noteq> current s
        \<and> (\<exists>f sc. state (tasks s' ! current s) = Faulted f sc)
    | Err _ _ \<Rightarrow> False
    | Halt h \<Rightarrow> h = KPanic \<and> (\<forall>j < length (tasks s). j \<noteq> current s \<longrightarrow> \<not> is_runnable (tasks s ! j))"
  unfolding wp_def [symmetric]
  by (rule wp_mono [OF wp_handle_fault [OF assms]]) (auto simp: eframe_def kframe_def mem_frame_def)

theorem handle_fault_outcome_witness:
  "case (handle_fault demo_env BusFault [] (demo_state (demo_tasks (demo_regs 0 0 0 0)) 2) :: (unit, UserError) kres) of
     Ok _ s' \<Rightarrow> kinv demo_env s' \<and> current s' \<noteq> 2 | Err _ _ \<Rightarrow> False | Halt h \<Rightarrow> h = KPanic"
proof -
  let ?s = "demo_state (demo_tasks (demo_regs 0 0 0 0)) 2"
  have "exc_return (save (tasks ?s ! current ?s)) AND 8 \<noteq> 0"
    by (simp add: demo_defs EXC_RETURN_CONST_def)
  from handle_fault_outcome [OF demo_tasks_kinv this, of BusFault "[]"]
  show ?thesis by (simp add: demo_state_def split: kres.splits)
qed

subsection \<open>Interrupts\<close>

text \<open>
  A hardware interrupt owned by a task is disabled, its notification is posted to that
  task (woken if its receive mask asks for it, which pends a context switch), and nothing
  else changes.
\<close>

theorem interrupt_delivery:
  assumes "kinv env s" and "ipsr AND 0x1FF = irq + 16" and "16 \<le> ipsr AND 0x1FF"
    and "irq_task_lookup env irq = Some own"
  shows "\<exists>s'. DefaultHandler env ipsr s = (Ok () s' :: (unit, UserError) kres) \<and> kinv env s'
    \<and> nvic_iser s' ! nvic_reg irq = nvic_iser s ! nvic_reg irq AND NOT (nvic_bit irq)
    \<and> tasks s' ! unat (io_task own) = snd (task_post (io_notification own) (tasks s ! unat (io_task own)))
    \<and> (fst (task_post (io_notification own) (tasks s ! unat (io_task own))) \<longrightarrow> pendsv s')
    \<and> (\<forall>j < length (tasks s). j \<noteq> unat (io_task own) \<longrightarrow> tasks s' ! j = tasks s ! j) \<and> mem s' = mem s"
proof -
  have n: "(ipsr AND 0x1FF) - 16 = irq" using assms(2) by simp
  note ki = kinv_parts [OF assms(1)]
  have o: "unat (io_task own) < length (tasks s)" "nvic_reg irq < length (nvic_iser s)"
    using image_parts(4) [OF ki(3)] assms(4) by (auto simp: owners_ok_def)
  have eq: "DefaultHandler env ipsr s = (Ok () (irq_delivered irq own s) :: (unit, UserError) kres)"
    using DefaultHandler_eq [OF assms(1,3)] assms(4) n by simp
  show ?thesis
    using eq kinv_irq_delivered(1) [OF assms(1,4)] o
    by (intro exI [of _ "irq_delivered irq own s"]) (simp add: irq_delivered_def Let_def split: prod.splits)
qed

theorem interrupt_delivery_witness:
  "\<exists>s'. DefaultHandler demo_env 21 (demo_state (demo_tasks saved_state_default) 2) = (Ok () s' :: (unit, UserError) kres)
    \<and> kinv demo_env s' \<and> mem s' = mem (demo_state (demo_tasks saved_state_default) 2)"
  using interrupt_delivery [OF demo_tasks_kinv, where ipsr = 21 and irq = 5 and own = "\<lparr>io_task = 1, io_notification = 2\<rparr>"]
  by (auto simp: demo_env_def)

text \<open>Whether an interrupt is enabled in the controller, and that numbers do not interfere.\<close>

definition irq_enabled :: "u32 \<Rightarrow> kstate \<Rightarrow> bool" where
  "irq_enabled n s \<longleftrightarrow> bit (nvic_iser s ! nvic_reg n) (unat n mod 32)"

lemma nvic_slot_inj: "nvic_reg n = nvic_reg k \<Longrightarrow> unat n mod 32 = unat k mod 32 \<Longrightarrow> n = k"
  unfolding nvic_reg_def by (metis div_mult_mod_eq unsigned_word_eqI)

lemma irq_set_bit:
  assumes "nvic_reg k < length (nvic_iser s)"
  shows "irq_enabled n (s\<lparr>nvic_iser := (nvic_iser s)[nvic_reg k := nvic_iser s ! nvic_reg k AND NOT (nvic_bit k)]\<rparr>)
      = (if n = k then False else irq_enabled n s)"
    and "irq_enabled n (s\<lparr>nvic_iser := (nvic_iser s)[nvic_reg k := nvic_iser s ! nvic_reg k OR nvic_bit k]\<rparr>)
      = (if n = k then True else irq_enabled n s)"
  using assms nvic_slot_inj [of n k]
  by (auto simp: irq_enabled_def nvic_bit_def nth_list_update bit_simps)

lemma for_each_irq_enabled:
  assumes "\<And>k s. nvic_reg k < length (nvic_iser s) \<Longrightarrow> \<exists>s'. op k s = Ok () s' \<and> tasks s' = tasks s
      \<and> length (nvic_iser s') = length (nvic_iser s) \<and> (\<forall>n. irq_enabled n s' = (if n = k then v else irq_enabled n s))"
  shows "\<forall>k \<in> set irqs. nvic_reg k < length (nvic_iser s) \<Longrightarrow>
    \<exists>s'. for_each_irq op irqs s = Ok () s' \<and> tasks s' = tasks s
      \<and> (\<forall>n. irq_enabled n s' = (if n \<in> set irqs then v else irq_enabled n s))"
proof (induction irqs arbitrary: s)
  case (Cons k irqs)
  from assms [of k s] Cons.prems obtain s1 where s1: "op k s = Ok () s1" "tasks s1 = tasks s"
    "length (nvic_iser s1) = length (nvic_iser s)" "\<forall>n. irq_enabled n s1 = (if n = k then v else irq_enabled n s)" by auto
  with Cons.IH [of s1] Cons.prems show ?case by (auto simp: kbind_def)
qed (simp add: kret_def)

text \<open>
  interrupt control enables or disables exactly the interrupts that the image assigns
  to the caller and the notification it names; no other interrupt and no task changes, and a
  notification that carries no interrupt is a usage fault.
\<close>

theorem irq_control_outcome:
  assumes "pre s c" and "irqs_ok env s" and "irq_control_op (as_irq_args (save (tasks s ! c))) = op" and "op = 0 \<or> op = 1"
  shows "case task_irq_lookup env \<lparr>io_task = word_of_nat c,
        io_notification = irq_notification (as_irq_args (save (tasks s ! c)))\<rparr> of
      None \<Rightarrow> irq_control env c s = Err (usage NoIrq) s
    | Some irqs \<Rightarrow> (\<exists>s'. irq_control env c s = Ok Same s' \<and> tasks s' = tasks s
        \<and> (\<forall>n. irq_enabled n s' = (if n \<in> set irqs then op = 1 else irq_enabled n s)))"
proof -
  note op = assms(4)
  have c: "c < length (tasks s)" using assms(1) by (simp add: pre_def)
  have dis: "\<exists>s'. disable_irq k s = (Ok () s' :: (unit, UserError) kres) \<and> tasks s' = tasks s \<and> length (nvic_iser s') = length (nvic_iser s)
      \<and> (\<forall>n. irq_enabled n s' = (if n = k then False else irq_enabled n s))" if "nvic_reg k < length (nvic_iser s)" for k s
    using that irq_set_bit(1) [OF that] by (simp add: disable_irq_def kbind_def kget_def kmodify_def)
  have en: "\<exists>s'. enable_irq k s = (Ok () s' :: (unit, UserError) kres) \<and> tasks s' = tasks s \<and> length (nvic_iser s') = length (nvic_iser s)
      \<and> (\<forall>n. irq_enabled n s' = (if n = k then True else irq_enabled n s))" if "nvic_reg k < length (nvic_iser s)" for k s
    using that irq_set_bit(2) [OF that] by (simp add: enable_irq_def kbind_def kget_def kmodify_def)
  show ?thesis
  proof (cases "task_irq_lookup env \<lparr>io_task = word_of_nat c, io_notification = irq_notification (as_irq_args (save (tasks s ! c)))\<rparr>")
    case None
    with op assms(3) c show ?thesis
      by (auto simp: irq_control_def kbind_def get_task_def kerr_def kret_def Let_def)
  next
    case (Some irqs)
    then have i: "\<forall>k \<in> set irqs. nvic_reg k < length (nvic_iser s)" using assms(2) by (auto simp: irqs_ok_def)
    from for_each_irq_enabled [OF dis i] for_each_irq_enabled [OF en i] Some op assms(3) c show ?thesis
      by (auto simp: irq_control_def kbind_def get_task_def kret_def Let_def)
  qed
qed

definition irq_state :: kstate where
  "irq_state = demo_state [
     demo_task (demo_descs ! 0) (demo_regs 0x20000300 16 1 0) (InRecv None),
     demo_task (demo_descs ! 1) (demo_regs 2 1 0 0) Runnable,
     demo_task (demo_descs ! 2) saved_state_default (InReply (for_index_and_gen 1 (Generation 0)))] 1"

theorem irq_control_outcome_witness:
  "\<exists>s'. irq_control demo_env 1 irq_state = Ok Same s' \<and> irq_enabled 5 s'"
proof -
  have k: "kinv demo_env irq_state"
    unfolding irq_state_def by (rule demo_kinv) code_simp+
  have "pre irq_state 1" "irqs_ok demo_env irq_state"
    using k by (simp_all add: kinv_def image_ok_def) (simp add: irq_state_def demo_state_def)
  moreover have "irq_control_op (as_irq_args (save (tasks irq_state ! 1))) = 1"
    "irq_notification (as_irq_args (save (tasks irq_state ! 1))) = 2" by code_simp+
  ultimately show ?thesis
    using irq_control_outcome [of irq_state 1 demo_env 1] by (auto simp: demo_env_def)
qed

subsection \<open>Deferred context switch\<close>

text \<open>
  A deferred context switch leaves a runnable task current that no runnable task is more
  important than, changes no task and no memory, and cannot fail.
\<close>

theorem pendsv_outcome:
  assumes "kinv env s"
  shows "\<exists>s'. pendsv_entry env s = (Ok () s' :: (unit, UserError) kres) \<and> kinv env s' \<and> is_runnable (tasks s' ! current s')
    \<and> tasks s' = tasks s \<and> mem s' = mem s
    \<and> (\<forall>j < length (tasks s). is_runnable (tasks s ! j) \<longrightarrow>
         prio_bits (priority (tasks s ! current s')) \<le> prio_bits (priority (tasks s ! j)))"
proof -
  note ki = kinv_parts [OF assms]
  have "wp (pendsv_entry env) (\<lambda>_ s'. kinv env s' \<and> tasks s' = tasks s \<and> mem s' = mem s \<and> (\<forall>j < length (tasks s). is_runnable (tasks s ! j) \<longrightarrow>
         prio_bits (priority (tasks s ! current s')) \<le> prio_bits (priority (tasks s ! j)))) (\<lambda>(_ :: UserError) _. False) (\<lambda>_. False) s"
    by (rule wp_mono [OF wp_pendsv_entry [OF assms]]) (use ki first_best_props(3) in auto)
  then show ?thesis by (auto simp: wp_def kinv_def pre_def split: kres.splits)
qed

theorem pendsv_outcome_witness:
  "\<exists>s'. pendsv_entry demo_env (demo_state (demo_tasks saved_state_default) 2) = (Ok () s' :: (unit, UserError) kres) \<and> kinv demo_env s'"
  using pendsv_outcome [OF demo_tasks_kinv] by blast

end
