(* ===== verification/Kern_Findings.thy ===== *)
theory Kern_Findings
  imports Kern_Control
begin

section \<open>Behaviour at the edges\<close>

text \<open>
  Places where what the code does is not what its comments or callers expect, each shown on
  the model: leases that wrap, dump requests inside a control block, the supervisor's receive,
  and the memory attributes of the ARMv8-M protection unit.
\<close>

subsection \<open>Leases that wrap\<close>

text \<open>
  A client blocked on the server with one writable lease whose base lies sixteen bytes before
  the end of its RAM and whose length reaches past the end of the address space; the server
  borrows it with a buffer of thirty-two bytes.
\<close>

definition wrap_state :: kstate where
  "wrap_state = (demo_state [
     demo_task (demo_descs ! 0) (demo_regs 0x20000300 16 1 0) (InRecv None),
     demo_task (demo_descs ! 1) ((demo_regs 2 0 0 0x20000700)\<lparr>r8 := 32\<rparr>) Runnable,
     demo_task (demo_descs ! 2) (saved_state_default\<lparr>r9 := 0x20000900, r10 := 1\<rparr>)
       (InReply (for_index_and_gen 1 (Generation 0)))] 1)
   \<lparr>mem := mem_write (\<lambda>a. ucast a) 0x20000900 (concat (map u32_bytes [2, 0x20000BF0, 0xE0000000]))\<rparr>"

lemma wrap_state_kinv: "kinv demo_env wrap_state"
  unfolding wrap_state_def kinv_mem by (rule demo_kinv) code_simp+

lemma wrap_state_borrow:
  "case borrow_write 1 wrap_state of Ok h s' \<Rightarrow> h = Same \<and> mem s' 0x20000C00 = 0x10 | _ \<Rightarrow> False"
  by code_simp

text \<open>
  C39: the bounds of a lease are not checked for wrap-around when it becomes a slice, so a
  borrow of a lease that wraps is accepted and writes past the lender's memory: in a state
  that satisfies the kernel invariant, a borrow succeeds and changes a byte that no task of
  the image may write.
\<close>

theorem wrapping_lease_escapes:
  "kinv demo_env wrap_state \<and> (\<exists>s' a. borrow_write 1 wrap_state = Ok Same s' \<and> mem s' a \<noteq> mem wrap_state a
     \<and> (\<forall>t \<in> set (tasks wrap_state). \<not> writable_byte t a))"
proof -
  have "mem wrap_state 0x20000C00 = 0" by code_simp
  moreover have "\<forall>t \<in> set (tasks wrap_state). \<not> writable_byte t 0x20000C00"
    by (simp add: wrap_state_def demo_defs writable_byte_def region_table_def region_contains_def region_end_addr_def)
  ultimately show ?thesis
    using wrap_state_borrow wrap_state_kinv by (auto split: kres.splits intro!: exI [of _ "0x20000C00"])
qed

theorem wrapping_lease_escapes_witness:
  "\<exists>s'. borrow_write 1 wrap_state = Ok Same s' \<and> mem s' \<noteq> mem wrap_state"
  using wrapping_lease_escapes by auto

definition lost_state :: kstate where
  "lost_state = demo_state [
     demo_task (demo_descs ! 0) (demo_regs 0x20000300 16 1 0) Runnable,
     demo_task (demo_descs ! 1) (demo_regs 0x20000700 16 2 0) (InRecv None),
     demo_task (demo_descs ! 2) (demo_regs 7 0x20000000 4 0) (InSend (for_index_and_gen 0 (Generation 0)))] 0"

lemma lost_state_kinv: "kinv demo_env lost_state" "pre lost_state 0"
proof -
  show k: "kinv demo_env lost_state" unfolding lost_state_def by (rule demo_kinv) code_simp+
  show "pre lost_state 0" using kinv_parts(1) [OF k] by (simp add: lost_state_def demo_state_def)
qed

subsection \<open>Dump requests inside a control block\<close>

text \<open>
  a dump request of the supervisor for bytes of another task's control block, at an
  offset larger than the number of bytes it asks for, panics the kernel.
\<close>

theorem dump_offset_panics:
  assumes "pre s 0" and "can_read (tasks s ! 0) 1 m" and "unat w = i" and "i \<noteq> 0" and "i < length (tasks s)"
    and "de_u32_region env (mem_bytes (mem s) (slice_base m) (unat (slice_len m))) = Some (w, \<lparr>dump_base = b, dump_size = n\<rparr>)"
    and "byte_slice b n = Inr us" and "tcb_base env i \<le> b" and "end_addr 1 us \<le> tcb_base env i + tcb_size env"
    and "n < b - tcb_base env i"
  shows "read_task_dump_region env 0 m r s = Halt KPanic"
proof -
  have us: "us = \<lparr>slice_base = b, slice_len = n\<rparr>" 
    using assms(7) from_raw_iff [of 1 1 b n us] by simp
  have "wp (read_task_dump_region env 0 m r) (\<lambda>_ _. False) (\<lambda>_ _. False) (\<lambda>h. h = KPanic) s"
    using assms us
    by (simp add: read_task_dump_region_def wp_simps wp_deserialize_ok Let_def pre_def tcb_subslice_def)
  then show ?thesis by (auto simp: wp_def split: kres.splits)
qed

theorem dump_offset_panics_witness:
  "read_task_dump_region (demo_env\<lparr>de_u32_region := \<lambda>_. Some (1, \<lparr>dump_base = 0x10000180, dump_size = 16\<rparr>)\<rparr>) 0
     \<lparr>slice_base = 0x20000000, slice_len = 12\<rparr> \<lparr>slice_base = 0x20000100, slice_len = 16\<rparr> lost_state = Halt KPanic"
proof -
  have "length (tasks lost_state) = 3" by (simp add: lost_state_def demo_state_def)
  moreover have "can_read (tasks lost_state ! 0) 1 \<lparr>slice_base = 0x20000000, slice_len = 12\<rparr>" by code_simp
  moreover have "byte_slice 0x10000180 16 = Inr \<lparr>slice_base = 0x10000180, slice_len = 16\<rparr>" by code_simp
  ultimately show ?thesis
    by (intro dump_offset_panics [where i = 1 and b = "0x10000180" and n = 16 and w = 1
          and us = "\<lparr>slice_base = 0x10000180, slice_len = 16\<rparr>"])
      (simp_all add: lost_state_kinv demo_env_def end_addr_def)
qed

subsection \<open>The supervisor's receive\<close>


subsection \<open>Memory attributes on ARMv8-M\<close>

definition keeps_bits :: "mpu_regs \<Rightarrow> mpu_regs \<Rightarrow> bool" where
  "keeps_bits m m' \<longleftrightarrow> (\<forall>n. bit (mpu_mair0 m) n \<longrightarrow> bit (mpu_mair0 m') n) \<and> (\<forall>n. bit (mpu_mair1 m) n \<longrightarrow> bit (mpu_mair1 m') n)"

lemma mpu_region_v8_keeps: "mpu_region_v8 i r m = Some m' \<Longrightarrow> keeps_bits m m'"
  by (auto simp: mpu_region_v8_def keeps_bits_def Let_def bit_simps split: option.splits prod.splits if_splits)

lemma mpu_regions_v8_keeps: "mpu_regions mpu_region_v8 i rs m = Some m' \<Longrightarrow> keeps_bits m m'"
proof (induction rs arbitrary: i m)
  case (Cons r rs)
  then obtain m1 where "mpu_region_v8 i r m = Some m1" "mpu_regions mpu_region_v8 (Suc i) rs m1 = Some m'"
    by (auto split: option.splits)
  with Cons.IH mpu_region_v8_keeps show ?case by (meson keeps_bits_def)
qed (simp add: keeps_bits_def)

text \<open>
  programming the protection unit of ARMv8-M only ever sets bits of the memory attribute
  registers, so a task's device region keeps the normal-memory attributes that an earlier
  task's region in the same slot left there.
\<close>

theorem mair_never_cleared:
  assumes "apply_memory_protection_v8 t m = Some m'"
  shows "mpu_mair0 m' AND mpu_mair0 m = mpu_mair0 m \<and> mpu_mair1 m' AND mpu_mair1 m = mpu_mair1 m"
proof -
  from assms obtain m1 where m1: "mpu_regions mpu_region_v8 0 (region_table t) (disable_mpu m) = Some m1" "m' = enable_mpu True m1"
    by (auto simp: apply_memory_protection_v8_def)
  from mpu_regions_v8_keeps [OF m1(1)] m1(2) have "keeps_bits m m'"
    by (simp add: keeps_bits_def disable_mpu_def enable_mpu_def)
  then show ?thesis by (auto simp: keeps_bits_def bit_simps intro!: bit_word_eqI)
qed

theorem mair_never_cleared_witness:
  "\<exists>m'. apply_memory_protection_v8 (from_descriptor (demo_descs ! 0)) (demo_mpu\<lparr>mpu_mair0 := 0x88\<rparr>) = Some m'
    \<and> mpu_mair0 m' AND 0x88 = 0x88"
proof -
  have "case apply_memory_protection_v8 (from_descriptor (demo_descs ! 0)) (demo_mpu\<lparr>mpu_mair0 := 0x88\<rparr>) of
      Some _ \<Rightarrow> True | None \<Rightarrow> False" by code_simp
  then obtain m' where "apply_memory_protection_v8 (from_descriptor (demo_descs ! 0)) (demo_mpu\<lparr>mpu_mair0 := 0x88\<rparr>) = Some m'"
    by (auto split: option.splits)
  with mair_never_cleared [OF this] show ?thesis by simp
qed

end
