(* ===== verification/Kern_Mpu.thy ===== *)
theory Kern_Mpu
  imports Kern_Findings
begin

section \<open>What the protection unit is told\<close>

text \<open>
  The register values written for a task's regions on ARMv6-M and ARMv7-M, read back field by
  field: base, size, access permission, execute-never and enable.
\<close>

lemma leading_zeros_exp:
  assumes "k < 32"
  shows "leading_zeros (2 ^ k) = 31 - k"
proof -
  have sp: "rev [0..<32] = rev [Suc k..<32] @ k # rev [0..<k]"
    using assms upt_add_eq_append [of 0 k "32 - k"] by (simp add: upt_conv_Cons)
  have "takeWhile (\<lambda>i. \<not> bit (2 ^ k :: u32) i) (rev [Suc k..<32]) = rev [Suc k..<32]"
    by (auto simp: takeWhile_eq_all_conv bit_simps)
  moreover have "bit (2 ^ k :: u32) k" using assms by (simp add: bit_simps)
  ultimately show ?thesis
    unfolding leading_zeros_def sp by (subst takeWhile_append2) (auto simp: bit_simps)
qed

text \<open>The fields of a region attribute and size word.\<close>

definition rasr_grants :: "RegionDesc \<Rightarrow> u32 \<Rightarrow> bool" where
  "rasr_grants r v \<longleftrightarrow> bit v 0
     \<and> (bit v 28 \<longleftrightarrow> \<not> flags_contains (region_attributes r) ATTR_EXECUTE)
     \<and> (bit v 24 \<and> bit v 25 \<longleftrightarrow> flags_contains (region_attributes r) ATTR_WRITE)
     \<and> (bit v 25 \<longleftrightarrow> flags_contains (region_attributes r) ATTR_READ \<or> flags_contains (region_attributes r) ATTR_WRITE)
     \<and> \<not> bit v 26
     \<and> (\<forall>k. 0 < k \<and> k < 32 \<and> region_size r = 2 ^ k \<longrightarrow> unat (take_bit 5 (drop_bit 1 v)) + 1 = k)"

lemma small_word_bit: "n < 32 \<Longrightarrow> 5 \<le> i \<Longrightarrow> \<not> bit (word_of_nat n :: u32) i"
proof -
  assume n: "n < 32" and i: "5 \<le> i"
  have "take_bit 5 n = n" using n by (simp add: take_bit_nat_eq_self)
  then have "bit n i \<longleftrightarrow> i < 5 \<and> bit n i" by (metis bit_take_bit_iff)
  with i show ?thesis by (simp add: bit_of_nat_iff)
qed

lemma b2w_bit: "bit (b2w b) i \<longleftrightarrow> b \<and> i = 0"
  by (simp add: b2w_def bit_simps)

definition rasr_word :: "u32 \<Rightarrow> u32 \<Rightarrow> u32 \<Rightarrow> u32 \<Rightarrow> nat \<Rightarrow> u32" where
  "rasr_word xn ap tex scb l2size = push_bit 28 xn OR push_bit 24 ap OR push_bit 19 tex OR push_bit 16 scb
     OR push_bit 1 (word_of_nat l2size) OR 1"

lemma rasr_word_fields:
  assumes "l < 32" and "tex \<in> {0, 1}" and "scb \<in> {1, 3, 4}" and "ap \<in> {1, 2, 3}"
  shows "bit (rasr_word (b2w x) ap tex scb l) 28 \<longleftrightarrow> x"
    and "bit (rasr_word (b2w x) ap tex scb l) 24 \<longleftrightarrow> ap \<noteq> 2"
    and "bit (rasr_word (b2w x) ap tex scb l) 25 \<longleftrightarrow> ap \<noteq> 1"
    and "\<not> bit (rasr_word (b2w x) ap tex scb l) 26"
    and "bit (rasr_word (b2w x) ap tex scb l) 0"
    and "take_bit 5 (drop_bit 1 (rasr_word (b2w x) ap tex scb l)) = word_of_nat l"
proof -
  note sb = small_word_bit [OF assms(1)]
  have n1: "bit (1 :: u32) i \<longleftrightarrow> i = 0" "bit (2 :: u32) i \<longleftrightarrow> i = 1" "bit (3 :: u32) i \<longleftrightarrow> i < 2"
    "bit (4 :: u32) i \<longleftrightarrow> i = 2" for i
  proof -
    have "(2 :: u32) = 2 ^ 1" "(4 :: u32) = 2 ^ 2" "(3 :: u32) = mask 2" by (simp_all add: mask_eq_exp_minus_1)
    then show "bit (1 :: u32) i \<longleftrightarrow> i = 0" "bit (2 :: u32) i \<longleftrightarrow> i = 1" "bit (3 :: u32) i \<longleftrightarrow> i < 2" "bit (4 :: u32) i \<longleftrightarrow> i = 2"
      using bit_exp_iff [of 1 i, where ?'a = "32 word"] bit_exp_iff [of 2 i, where ?'a = "32 word"]
        bit_mask_iff [of 2 i, where ?'a = "32 word"] by (auto simp: bit_1_iff)
  qed
  have d: "bit (rasr_word (b2w x) ap tex scb l) i \<longleftrightarrow> i < 32 \<and> (x \<and> i = 28 \<or> 24 \<le> i \<and> bit ap (i - 24)
      \<or> 19 \<le> i \<and> bit tex (i - 19) \<or> 16 \<le> i \<and> bit scb (i - 16) \<or> 1 \<le> i \<and> bit (word_of_nat l :: u32) (i - 1) \<or> i = 0)" for i
    unfolding rasr_word_def bit_or_iff bit_push_bit_iff b2w_bit n1 by (auto dest: bit_imp_le_length)
  show "bit (rasr_word (b2w x) ap tex scb l) 28 \<longleftrightarrow> x" "bit (rasr_word (b2w x) ap tex scb l) 24 \<longleftrightarrow> ap \<noteq> 2"
    "bit (rasr_word (b2w x) ap tex scb l) 25 \<longleftrightarrow> ap \<noteq> 1" "\<not> bit (rasr_word (b2w x) ap tex scb l) 26"
    "bit (rasr_word (b2w x) ap tex scb l) 0"
    using assms(2-4) sb by (auto simp: d n1 bit_1_iff simp del: One_nat_def)
  show "take_bit 5 (drop_bit 1 (rasr_word (b2w x) ap tex scb l)) = word_of_nat l"
  proof (rule bit_word_eqI)
    fix i assume "i < LENGTH(32)"
    show "bit (take_bit 5 (drop_bit 1 (rasr_word (b2w x) ap tex scb l))) i = bit (word_of_nat l :: u32) i"
    proof (cases "i < 5")
      case True
      with assms(2-4) show ?thesis by (auto simp: d n1 bit_take_bit_iff bit_drop_bit_eq)
    qed (use sb in \<open>simp add: bit_take_bit_iff\<close>)
  qed
qed

lemma mpu_region_v7_grants:
  assumes "mpu_region_v7 i r m = Some m'"
  obtains v where "rasr_grants r v" and "mpu_rbar m' = (mpu_rbar m)(i := region_base r)" and "mpu_rasr m' = (mpu_rasr m)(i := v)"
proof -
  let ?a = "region_attributes r"
  define l where "l = 30 - leading_zeros (region_size r)"
  define ap :: u32 where "ap = (if flags_contains ?a ATTR_WRITE then 3 else if flags_contains ?a ATTR_READ then 2 else 1)"
  define tex :: u32 where "tex = (if flags_contains ?a ATTR_DEVICE then 0 else 1)"
  define scb :: u32 where "scb = (if flags_contains ?a ATTR_DEVICE then 1 else if flags_contains ?a ATTR_DMA then 4 else 3)"
  let ?v = "rasr_word (b2w (\<not> flags_contains ?a ATTR_EXECUTE)) ap tex scb l"
  have ranges: "l < 32" "tex \<in> {0, 1}" "scb \<in> {1, 3, 4}" "ap \<in> {1, 2, 3}"
    by (simp_all add: l_def tex_def scb_def ap_def)
  note f = rasr_word_fields [OF ranges, of "\<not> flags_contains ?a ATTR_EXECUTE"]
  have "unat (take_bit 5 (drop_bit 1 ?v)) + 1 = k" if "0 < k" "k < 32" "region_size r = 2 ^ k" for k
  proof -
    have "l = k - 1" using that by (simp add: l_def leading_zeros_exp)
    moreover have "unat (word_of_nat (k - 1) :: u32) = k - 1" using that by (intro unat_word_of_nat_small) simp
    ultimately show ?thesis unfolding f(6) using that by simp
  qed
  then have g: "rasr_grants r ?v"
    using f(1-5) by (simp add: rasr_grants_def ap_def)
  have "mpu_rbar m' = (mpu_rbar m)(i := region_base r)" "mpu_rasr m' = (mpu_rasr m)(i := ?v)"
    using assms by (auto simp: mpu_region_v7_def rasr_word_def l_def ap_def tex_def scb_def Let_def or.assoc split: if_splits)
  with that g show ?thesis by blast
qed

lemma mpu_regions_v7_grants:
  "mpu_regions mpu_region_v7 j rs m = Some m' \<Longrightarrow>
     (\<forall>i < length rs. mpu_rbar m' (j + i) = region_base (rs ! i) \<and> rasr_grants (rs ! i) (mpu_rasr m' (j + i)))
     \<and> (\<forall>i < j. mpu_rbar m' i = mpu_rbar m i \<and> mpu_rasr m' i = mpu_rasr m i)"
proof (induction rs arbitrary: j m)
  case (Cons r rs)
  then obtain m1 where m1: "mpu_region_v7 j r m = Some m1" "mpu_regions mpu_region_v7 (Suc j) rs m1 = Some m'"
    by (auto split: option.splits)
  from mpu_region_v7_grants [OF m1(1)] obtain v where v: "rasr_grants r v"
    "mpu_rbar m1 = (mpu_rbar m)(j := region_base r)" "mpu_rasr m1 = (mpu_rasr m)(j := v)" .
  from Cons.IH [OF m1(2)] have ih: "\<forall>i < length rs. mpu_rbar m' (Suc j + i) = region_base (rs ! i) \<and> rasr_grants (rs ! i) (mpu_rasr m' (Suc j + i))"
    "\<forall>i < Suc j. mpu_rbar m' i = mpu_rbar m1 i \<and> mpu_rasr m' i = mpu_rasr m1 i" by auto
  have "mpu_rbar m' (j + i) = region_base ((r # rs) ! i) \<and> rasr_grants ((r # rs) ! i) (mpu_rasr m' (j + i))"
    if "i < length (r # rs)" for i
    using that ih v by (cases i) auto
  with ih(2) v show ?case by auto
qed simp

text \<open>
  C14: on ARMv6-M and ARMv7-M a context switch programs one enabled region of the protection
  unit per region of the task, in order, with that region's base and size; unprivileged code
  may write exactly where the task has write permission, read where it has read or write
  permission, and execute exactly where it has execute permission.
\<close>

theorem mpu_v7_grants_task_regions:
  assumes "apply_memory_protection_v7 t m = Some m'" and "i < length (region_table t)" and "region_table t ! i = r"
  shows "mpu_rbar m' i = region_base r \<and> (let v = mpu_rasr m' i; a = region_attributes r in bit v 0
     \<and> (bit v 28 \<longleftrightarrow> \<not> flags_contains a ATTR_EXECUTE)
     \<and> (bit v 24 \<and> bit v 25 \<longleftrightarrow> flags_contains a ATTR_WRITE)
     \<and> (bit v 25 \<longleftrightarrow> flags_contains a ATTR_READ \<or> flags_contains a ATTR_WRITE) \<and> \<not> bit v 26
     \<and> (\<forall>k. 0 < k \<and> k < 32 \<and> region_size r = 2 ^ k \<longrightarrow> unat (take_bit 5 (drop_bit 1 v)) + 1 = k))"
  using mpu_regions_v7_grants [of 0 "region_table t" m m'] assms
  unfolding apply_memory_protection_v7_def rasr_grants_def Let_def by auto

theorem mpu_v7_grants_task_regions_witness:
  "\<exists>m'. apply_memory_protection_v7 (from_descriptor (demo_descs ! 0)) demo_mpu = Some m' \<and> mpu_rbar m' 0 = 0x20000000
    \<and> bit (mpu_rasr m' 0) 28 \<and> unat (take_bit 5 (drop_bit 1 (mpu_rasr m' 0))) + 1 = 10"
proof -
  let ?t = "from_descriptor (demo_descs ! 0)"
  have r: "region_table ?t = [demo_region 0x20000000]"
    by (simp add: demo_defs region_table_def)
  have "case apply_memory_protection_v7 ?t demo_mpu of Some _ \<Rightarrow> True | None \<Rightarrow> False" by code_simp
  then obtain m' where m': "apply_memory_protection_v7 ?t demo_mpu = Some m'" by (auto split: option.splits)
  have "\<not> flags_contains (region_attributes (demo_region 0x20000000)) ATTR_EXECUTE" by code_simp
  moreover have "region_size (demo_region 0x20000000) = 2 ^ 10" by (simp add: demo_region_def)
  moreover have "region_base (demo_region 0x20000000) = 0x20000000" by (simp add: demo_region_def)
  ultimately have "mpu_rbar m' 0 = 0x20000000" "bit (mpu_rasr m' 0) 28"
    "unat (take_bit 5 (drop_bit 1 (mpu_rasr m' 0))) + 1 = 10"
    using mpu_v7_grants_task_regions [OF m', of 0 "demo_region 0x20000000"] r
    by (auto simp: Let_def simp del: One_nat_def dest!: spec [of _ "10 :: nat"])
  with m' show ?thesis by blast
qed

end
