(* ===== verification/Build_Maps.thy ===== *)
theory Build_Maps
  imports Kern_Prelude "HOL-Library.List_Lexorder" "HOL-Library.Char_ord"
begin

section \<open>The maps of the build tools\<close>

text \<open>
  The build tools keep their data in \<^verbatim>\<open>IndexMap\<close> (iterated in the order of insertion) and \<^verbatim>\<open>BTreeMap\<close>
  (iterated in the order of the keys). Both are association lists in iteration order; the
  lookup of either is \<open>map_of\<close>.
\<close>

text \<open>\<^verbatim>\<open>IndexMap::insert\<close> replaces the value of a known key in place and appends a new key.\<close>

fun index_map_insert :: "'k \<Rightarrow> 'v \<Rightarrow> ('k \<times> 'v) list \<Rightarrow> ('k \<times> 'v) list" where
  "index_map_insert k v [] = [(k, v)]"
| "index_map_insert k v ((k', v') # m) = (if k' = k then (k, v) # m else (k', v') # index_map_insert k v m)"

fun get_index_of :: "'k \<Rightarrow> ('k \<times> 'v) list \<Rightarrow> nat option" where
  "get_index_of k [] = None"
| "get_index_of k ((k', v) # m) = (if k' = k then Some 0 else map_option Suc (get_index_of k m))"

text \<open>\<^verbatim>\<open>IndexMap::remove\<close> moves the last entry to the place of the removed one.\<close>

fun swap_remove :: "'k \<Rightarrow> ('k \<times> 'v) list \<Rightarrow> ('v \<times> ('k \<times> 'v) list) option" where
  "swap_remove k [] = None"
| "swap_remove k ((k', v) # m) =
     (if k' = k then Some (v, if m = [] then [] else last m # butlast m)
      else map_option (\<lambda>(v', m'). (v', (k', v) # m')) (swap_remove k m))"

text \<open>\<^verbatim>\<open>BTreeMap::insert\<close>.\<close>

fun btree_insert :: "'k::linorder \<Rightarrow> 'v \<Rightarrow> ('k \<times> 'v) list \<Rightarrow> ('k \<times> 'v) list" where
  "btree_insert k v [] = [(k, v)]"
| "btree_insert k v ((k', v') # m) =
     (if k = k' then (k, v) # m else if k < k' then (k, v) # (k', v') # m else (k', v') # btree_insert k v m)"

lemma map_of_index_map_insert [simp]: "map_of (index_map_insert k v m) = (map_of m)(k \<mapsto> v)"
  by (induction k v m rule: index_map_insert.induct) auto

lemma get_index_of_Some:
  "get_index_of k m = Some n \<Longrightarrow> n < length m \<and> map_of m k = Some (snd (m ! n))"
  by (induction m arbitrary: n) (auto split: if_splits)

lemma get_index_of_None: "get_index_of k m = None \<longleftrightarrow> map_of m k = None"
  by (induction k m rule: get_index_of.induct) auto

lemma map_of_btree_insert [simp]: "map_of (btree_insert k v m) = (map_of m)(k \<mapsto> v)"
  by (induction k v m rule: btree_insert.induct) auto

lemma set_btree_insert: "set (btree_insert k v m) \<subseteq> insert (k, v) (set m)"
  by (induction k v m rule: btree_insert.induct) auto

lemma sorted_btree_insert: "sorted_wrt (<) (map fst m) \<Longrightarrow> sorted_wrt (<) (map fst (btree_insert k v m))"
proof (induction k v m rule: btree_insert.induct)
  case (2 k v k' v' m)
  have "fst x = k \<or> x \<in> set m" if "x \<in> set (btree_insert k v m)" for x using set_btree_insert [of k v m] that by force
  with 2 show ?case by (cases "k = k'"; cases "k < k'") (auto, metis fst_conv linorder_neqE)
qed simp

lemma sum_btree_insert:
  assumes "sorted_wrt (<) (map fst m)"
  shows "sum_list (map (f \<circ> snd) (btree_insert k v m)) + (case map_of m k of None \<Rightarrow> 0 | Some v' \<Rightarrow> f v')
    = sum_list (map (f \<circ> snd) m) + (f v :: nat)"
  using assms
proof (induction k v m rule: btree_insert.induct)
  case (2 k v k' v' m)
  show ?case
  proof (cases "k < k'")
    case True
    then have "map_of m k = None" using "2.prems" by (fastforce simp: map_of_eq_None_iff)
    with True show ?thesis by simp
  next
    case False
    with 2 show ?thesis by (cases "k = k'") (auto simp: add.assoc)
  qed
qed simp

lemma sorted_distinct_keys: "sorted_wrt (<) (map fst m) \<Longrightarrow> distinct (map fst (m :: ('k::linorder \<times> 'v) list))"
  using strict_sorted_iff by blast

lemma distinct_index_map_insert: "distinct (map fst m) \<Longrightarrow> distinct (map fst (index_map_insert k v m))"
proof (induction k v m rule: index_map_insert.induct)
  case (2 k v k' v' m)
  have "fst ` set (index_map_insert k v m) = insert k (fst ` set m)"
    by (induction k v m rule: index_map_insert.induct) auto
  with 2 show ?case by auto
qed simp

lemma swap_remove_length: "swap_remove k m = Some (v, m') \<Longrightarrow> length m' < length m"
  by (induction k m arbitrary: v m' rule: swap_remove.induct) (auto split: if_splits)

lemma swap_remove_Some:
  assumes "distinct (map fst m)" "(k, v) \<in> set m"
  shows "\<exists>m'. swap_remove k m = Some (v, m') \<and> set m = insert (k, v) (set m') \<and> distinct (map fst m') \<and> k \<notin> fst ` set m'"
  using assms
proof (induction m)
  case (Cons x m)
  obtain k' v' where x: "x = (k', v')" by (cases x)
  show ?case
  proof (cases "k' = k")
    case True
    then have v: "v' = v" "k \<notin> fst ` set m" using Cons.prems by (auto simp: x intro: rev_image_eqI)
    show ?thesis
    proof (cases m rule: rev_cases)
      case (snoc ys y)
      then show ?thesis using Cons.prems(1) True v by (auto simp: x)
    qed (simp add: x True v)
  next
    case False
    then obtain m' where "swap_remove k m = Some (v, m')" "set m = insert (k, v) (set m')" "distinct (map fst m')" "k \<notin> fst ` set m'"
      using Cons by (auto simp: x)
    with False Cons.prems show ?thesis by (auto simp: x)
  qed
qed simp

end
