(* ===== verification/Build_Kconfig.thy ===== *)
theory Build_Kconfig
  imports Kern_Demo Build_Maps
begin

section \<open>From the kernel configuration to the kernel's tables\<close>

text \<open>
  \<^verbatim>\<open>process_config\<close> in \<^verbatim>\<open>sys/kern/build.rs\<close> turns the configuration (\<^verbatim>\<open>build/kconfig\<close>) into the
  descriptors compiled into the kernel: one flat table of regions and, per task, eight
  references into it, sorted by address. The generated code is represented by the descriptors
  it denotes. \<^verbatim>\<open>BTreeMap\<close> and \<^verbatim>\<open>BTreeSet\<close> are association lists and lists in iteration order, an
  \<^verbatim>\<open>IndexMap\<close> is an association list in insertion order. The interrupt tables of the same
  function are in \<open>Lib_Phash\<close>. Additions wrap, as in the release profile that builds an image.
\<close>

subsection \<open>Configuration\<close>

datatype SpecialRole = RoleDevice | RoleDma

record RegionAttributes =
  attr_read :: bool
  attr_write :: bool
  attr_execute :: bool
  special_role :: "SpecialRole option"

record RegionConfig =
  rc_base :: u32
  rc_size :: u32
  rc_attributes :: RegionAttributes

record MultiRegionConfig =
  mrc_base :: u32
  mrc_sizes :: "u32 list"
  mrc_attributes :: RegionAttributes

record OwnedAddress =
  oa_region_name :: string
  oa_offset :: u32

record TaskConfig =
  owned_regions :: "(string \<times> MultiRegionConfig) list"
  tc_shared_regions :: "string list"
  tc_entry_point :: OwnedAddress
  tc_initial_stack :: OwnedAddress
  tc_priority :: u8
  start_at_boot :: bool

record InterruptConfig =
  ic_task_index :: nat
  ic_notification :: u32

record KernelConfig =
  kc_tasks :: "TaskConfig list"
  kc_shared_regions :: "(string \<times> RegionConfig) list"
  kc_irqs :: "(u32 \<times> InterruptConfig) list"

subsection \<open>The region table\<close>

datatype RegionKey = NullKey | SharedKey string | OwnedKey nat nat string

type_synonym region_map = "(RegionKey \<times> RegionConfig) list"

definition null_region :: RegionConfig where
  "null_region = \<lparr>rc_base = 0, rc_size = 32,
     rc_attributes = \<lparr>attr_read = False, attr_write = False, attr_execute = False, special_role = None\<rparr>\<rparr>"

text \<open>The chunks of one span: the base advances by the size of each chunk.\<close>

fun insert_chunks :: "nat \<Rightarrow> string \<Rightarrow> RegionAttributes \<Rightarrow> nat \<Rightarrow> u32 \<Rightarrow> u32 list \<Rightarrow> region_map \<Rightarrow> region_map" where
  "insert_chunks i name atts j base [] m = m"
| "insert_chunks i name atts j base (sz # sizes) m =
     insert_chunks i name atts (Suc j) (base + sz) sizes
       (index_map_insert (OwnedKey i j name) \<lparr>rc_base = base, rc_size = sz, rc_attributes = atts\<rparr> m)"

fun insert_owned :: "nat \<Rightarrow> (string \<times> MultiRegionConfig) list \<Rightarrow> region_map \<Rightarrow> region_map" where
  "insert_owned i [] m = m"
| "insert_owned i ((name, region) # rest) m =
     insert_owned i rest (insert_chunks i name (mrc_attributes region) 0 (mrc_base region) (mrc_sizes region) m)"

fun insert_tasks :: "nat \<Rightarrow> TaskConfig list \<Rightarrow> region_map \<Rightarrow> region_map" where
  "insert_tasks i [] m = m"
| "insert_tasks i (task # rest) m = insert_tasks (Suc i) rest (insert_owned i (owned_regions task) m)"

definition build_region_table :: "KernelConfig \<Rightarrow> region_map" where
  "build_region_table kconfig =
     insert_tasks 0 (kc_tasks kconfig)
       (fold (\<lambda>(name, region). index_map_insert (SharedKey name) region) (kc_shared_regions kconfig)
         (index_map_insert NullKey null_region []))"

subsection \<open>The task descriptors\<close>

datatype build_error = UnknownDevice string | TooManyRegions | BuildPanic

definition owned_keys :: "nat \<Rightarrow> (string \<times> MultiRegionConfig) list \<Rightarrow> RegionKey list" where
  "owned_keys i rs = concat (map (\<lambda>(name, region). map (\<lambda>j. OwnedKey i j name) [0..<length (mrc_sizes region)]) rs)"

fun index_keys :: "region_map \<Rightarrow> RegionKey list \<Rightarrow> build_error + nat list" where
  "index_keys m [] = Inr []"
| "index_keys m (k # ks) =
     (case get_index_of k m of
        None \<Rightarrow> Inl (case k of SharedKey name \<Rightarrow> UnknownDevice name | _ \<Rightarrow> BuildPanic)
      | Some n \<Rightarrow> map_sum id ((#) n) (index_keys m ks))"

text \<open>The region indices of task \<open>i\<close>, padded with the null region and sorted by base address.\<close>

definition task_regions :: "region_map \<Rightarrow> nat \<Rightarrow> TaskConfig \<Rightarrow> build_error + nat list" where
  "task_regions m i task =
     (case index_keys m (NullKey # owned_keys i (owned_regions task) @ map SharedKey (tc_shared_regions task)) of
        Inl e \<Rightarrow> Inl e
      | Inr idx \<Rightarrow>
          if 8 < length idx then Inl TooManyRegions
          else Inr (sort_key (\<lambda>n. rc_base (snd (m ! n))) (idx @ replicate (8 - length idx) 0)))"

definition translate_address :: "region_map \<Rightarrow> nat \<Rightarrow> OwnedAddress \<Rightarrow> build_error + u32" where
  "translate_address m i address =
     (case map_of m (OwnedKey i 0 (oa_region_name address)) of
        None \<Rightarrow> Inl BuildPanic
      | Some r \<Rightarrow> Inr (rc_base r + oa_offset address))"

definition fmt_attributes :: "RegionAttributes \<Rightarrow> u32" where
  "fmt_attributes a =
     (if attr_read a then ATTR_READ else 0) OR (if attr_write a then ATTR_WRITE else 0)
     OR (if attr_execute a then ATTR_EXECUTE else 0)
     OR (case special_role a of None \<Rightarrow> 0 | Some RoleDevice \<Rightarrow> ATTR_DEVICE | Some RoleDma \<Rightarrow> ATTR_DMA)"

definition fmt_region :: "RegionConfig \<Rightarrow> RegionDesc" where
  "fmt_region r = \<lparr>region_base = rc_base r, region_size = rc_size r, region_attributes = fmt_attributes (rc_attributes r)\<rparr>"

definition task_desc :: "region_map \<Rightarrow> nat \<Rightarrow> TaskConfig \<Rightarrow> build_error + TaskDesc" where
  "task_desc m i task =
     (case task_regions m i task of
        Inl e \<Rightarrow> Inl e
      | Inr idx \<Rightarrow>
          (case translate_address m i (tc_entry_point task) of
             Inl e \<Rightarrow> Inl e
           | Inr entry \<Rightarrow>
               (case translate_address m i (tc_initial_stack task) of
                  Inl e \<Rightarrow> Inl e
                | Inr stack \<Rightarrow>
                    if 2 ^ 16 \<le> i then Inl BuildPanic
                    else Inr \<lparr>regions = map (\<lambda>n. fmt_region (snd (m ! n))) idx, entry_point = entry, initial_stack = stack,
                      desc_priority = tc_priority task, desc_flags = (if start_at_boot task then START_AT_BOOT else 0),
                      desc_index = word_of_nat i\<rparr>)))"

fun task_descs :: "region_map \<Rightarrow> nat \<Rightarrow> TaskConfig list \<Rightarrow> build_error + TaskDesc list" where
  "task_descs m i [] = Inr []"
| "task_descs m i (task # rest) =
     (case task_desc m i task of
        Inl e \<Rightarrow> Inl e
      | Inr d \<Rightarrow> map_sum id ((#) d) (task_descs m (Suc i) rest))"

definition process_config :: "KernelConfig \<Rightarrow> build_error + TaskDesc list" where
  "process_config kconfig = task_descs (build_region_table kconfig) 0 (kc_tasks kconfig)"

subsection \<open>Lookup in the region table\<close>

text \<open>The chunks of a span as regions.\<close>

fun chunks :: "RegionAttributes \<Rightarrow> u32 \<Rightarrow> u32 list \<Rightarrow> RegionConfig list" where
  "chunks atts base [] = []"
| "chunks atts base (sz # sizes) = \<lparr>rc_base = base, rc_size = sz, rc_attributes = atts\<rparr> # chunks atts (base + sz) sizes"

definition span_chunks :: "MultiRegionConfig \<Rightarrow> RegionConfig list" where
  "span_chunks r = chunks (mrc_attributes r) (mrc_base r) (mrc_sizes r)"

lemma length_chunks [simp]: "length (chunks atts base sizes) = length sizes"
  by (induction sizes arbitrary: base) simp_all

lemma chunks_eq_Nil [simp]: "chunks atts base sizes = [] \<longleftrightarrow> sizes = []"
  by (cases sizes) simp_all

lemma length_span_chunks [simp]: "length (span_chunks r) = length (mrc_sizes r)"
  by (simp add: span_chunks_def)

lemma map_of_insert_chunks:
  "map_of (insert_chunks i name atts j base sizes m) k =
     (case k of OwnedKey i' l name' \<Rightarrow>
        if i' = i \<and> name' = name \<and> j \<le> l \<and> l < j + length sizes then Some (chunks atts base sizes ! (l - j)) else map_of m k
      | _ \<Rightarrow> map_of m k)"
proof (induction sizes arbitrary: j base m)
  case (Cons sz sizes)
  then show ?case by (auto split: RegionKey.splits simp: nth_Cons')
qed (auto split: RegionKey.splits)

lemma map_of_insert_owned:
  assumes "distinct (map fst rs)"
  shows "map_of (insert_owned i rs m) k =
     (case k of OwnedKey i' l name \<Rightarrow>
        (case map_of rs name of
           Some r \<Rightarrow> if i' = i \<and> l < length (mrc_sizes r) then Some (span_chunks r ! l) else map_of m k
         | None \<Rightarrow> map_of m k)
      | _ \<Rightarrow> map_of m k)"
  using assms
proof (induction rs arbitrary: m)
  case (Cons x rs)
  obtain name r where x: "x = (name, r)" by (cases x)
  have "map_of rs name = None" using Cons.prems x by (auto simp: map_of_eq_None_iff)
  then show ?case
    using Cons by (auto simp: x map_of_insert_chunks span_chunks_def split: RegionKey.splits option.splits)
qed (simp split: RegionKey.splits)

lemma map_of_insert_tasks:
  assumes "\<forall>t \<in> set ts. distinct (map fst (owned_regions t))"
  shows "map_of (insert_tasks i ts m) k =
     (case k of OwnedKey i' l name \<Rightarrow>
        if i \<le> i' \<and> i' < i + length ts then
          (case map_of (owned_regions (ts ! (i' - i))) name of
             Some r \<Rightarrow> if l < length (mrc_sizes r) then Some (span_chunks r ! l) else map_of m k
           | None \<Rightarrow> map_of m k)
        else map_of m k
      | _ \<Rightarrow> map_of m k)"
  using assms
proof (induction ts arbitrary: i m)
  case (Cons t ts)
  then show ?case
    by (auto simp: map_of_insert_owned nth_Cons' split: RegionKey.splits option.splits)
qed (auto split: RegionKey.splits)

text \<open>The null region stays at index 0.\<close>

definition null_first :: "region_map \<Rightarrow> bool" where
  "null_first m \<longleftrightarrow> (\<exists>m'. m = (NullKey, null_region) # m')"

lemma null_first_insert: "null_first m \<Longrightarrow> k \<noteq> NullKey \<Longrightarrow> null_first (index_map_insert k v m)"
  by (auto simp: null_first_def)

lemma null_first_chunks: "null_first m \<Longrightarrow> null_first (insert_chunks i name atts j base sizes m)"
  by (induction sizes arbitrary: j base m) (simp_all add: null_first_insert)

lemma null_first_owned: "null_first m \<Longrightarrow> null_first (insert_owned i rs m)"
  by (induction i rs m rule: insert_owned.induct) (simp_all add: null_first_chunks)

lemma null_first_tasks: "null_first m \<Longrightarrow> null_first (insert_tasks i ts m)"
  by (induction i ts m rule: insert_tasks.induct) (simp_all add: null_first_owned)

lemma null_first_shared:
  "null_first m \<Longrightarrow> null_first (fold (\<lambda>(name, region). index_map_insert (SharedKey name) region) rs m)"
  by (induction rs arbitrary: m) (auto simp: null_first_insert)

lemma null_first_table: "null_first (build_region_table cfg)"
  unfolding build_region_table_def
  by (intro null_first_tasks null_first_shared) (simp add: null_first_def)

lemma map_of_shared:
  assumes "distinct (map fst rs)"
  shows "map_of (fold (\<lambda>(name, region). index_map_insert (SharedKey name) region) rs m) k =
     (case k of SharedKey name \<Rightarrow> (case map_of rs name of Some r \<Rightarrow> Some r | None \<Rightarrow> map_of m k) | _ \<Rightarrow> map_of m k)"
  using assms
proof (induction rs arbitrary: m)
  case (Cons x rs)
  obtain name r where x: "x = (name, r)" by (cases x)
  have "map_of rs name = None" using Cons.prems x by (auto simp: map_of_eq_None_iff)
  with Cons show ?case by (auto simp: x split: RegionKey.splits option.splits)
qed (auto split: RegionKey.splits)

subsection \<open>The regions of a task\<close>

text \<open>What the configuration gives to a task: the null region, its own chunks, its shared regions.\<close>

definition granted :: "KernelConfig \<Rightarrow> TaskConfig \<Rightarrow> RegionConfig list" where
  "granted cfg task = null_region # concat (map (span_chunks \<circ> snd) (owned_regions task))
     @ map (\<lambda>name. the (map_of (kc_shared_regions cfg) name)) (tc_shared_regions task)"

definition names_ok :: "KernelConfig \<Rightarrow> bool" where
  "names_ok cfg \<longleftrightarrow> distinct (map fst (kc_shared_regions cfg)) \<and> length (kc_tasks cfg) \<le> 2 ^ 16
     \<and> (\<forall>task \<in> set (kc_tasks cfg). distinct (map fst (owned_regions task))
         \<and> set (tc_shared_regions task) \<subseteq> set (map fst (kc_shared_regions cfg))
         \<and> length (granted cfg task) \<le> 8
         \<and> (\<forall>a \<in> {tc_entry_point task, tc_initial_stack task}.
              \<exists>r. map_of (owned_regions task) (oa_region_name a) = Some r \<and> mrc_sizes r \<noteq> []))"

lemma table_lookup:
  assumes "names_ok cfg" and "i < length (kc_tasks cfg)"
  shows "map_of (build_region_table cfg) NullKey = Some null_region"
    and "map_of (build_region_table cfg) (SharedKey name) = map_of (kc_shared_regions cfg) name"
    and "map_of (owned_regions (kc_tasks cfg ! i)) name = Some r \<Longrightarrow> l < length (mrc_sizes r) \<Longrightarrow>
      map_of (build_region_table cfg) (OwnedKey i l name) = Some (span_chunks r ! l)"
proof -
  have d: "\<forall>t \<in> set (kc_tasks cfg). distinct (map fst (owned_regions t))" "distinct (map fst (kc_shared_regions cfg))"
    using assms by (simp_all add: names_ok_def)
  show "map_of (build_region_table cfg) NullKey = Some null_region"
    and "map_of (build_region_table cfg) (SharedKey name) = map_of (kc_shared_regions cfg) name"
    and "map_of (owned_regions (kc_tasks cfg ! i)) name = Some r \<Longrightarrow> l < length (mrc_sizes r) \<Longrightarrow>
      map_of (build_region_table cfg) (OwnedKey i l name) = Some (span_chunks r ! l)"
    using assms(2)
    by (simp_all add: build_region_table_def map_of_insert_tasks [OF d(1)] map_of_shared [OF d(2)] split: option.splits)
qed

lemma index_keys_lookup:
  assumes "\<forall>k \<in> set ks. map_of m k \<noteq> None"
  shows "\<exists>idx. index_keys m ks = Inr idx \<and> map (\<lambda>n. snd (m ! n)) idx = map (\<lambda>k. the (map_of m k)) ks"
  using assms
proof (induction ks)
  case (Cons k ks)
  then obtain n where n: "get_index_of k m = Some n" using get_index_of_None [of k m] by auto
  with Cons get_index_of_Some [OF n] show ?case by (auto split: sum.splits)
qed simp

lemma insort_key_map: "map f (insort_key (\<lambda>x. g (f x)) x xs) = insort_key g (f x) (map f xs)"
  by (induction xs) simp_all

lemma sort_key_map: "map f (sort_key (\<lambda>x. g (f x)) xs) = sort_key g (map f xs)"
  unfolding sort_key_def by (induction xs) (simp_all add: insort_key_map)

lemma task_regions_eq:
  assumes "names_ok cfg" and "i < length (kc_tasks cfg)" and "task = kc_tasks cfg ! i"
  shows "\<exists>idx. task_regions (build_region_table cfg) i task = Inr idx
    \<and> map (\<lambda>n. snd (build_region_table cfg ! n)) idx
      = sort_key rc_base (granted cfg task @ replicate (8 - length (granted cfg task)) null_region)"
proof -
  let ?m = "build_region_table cfg"
  let ?ks = "NullKey # owned_keys i (owned_regions task) @ map SharedKey (tc_shared_regions task)"
  note look = table_lookup [OF assms(1,2), folded assms(3)]
  have t: "distinct (map fst (owned_regions task))" "set (tc_shared_regions task) \<subseteq> set (map fst (kc_shared_regions cfg))"
      "length (granted cfg task) \<le> 8"
    using assms by (simp_all add: names_ok_def)
  have own: "map_of ?m (OwnedKey i l name) = Some (span_chunks r ! l)"
    if "(name, r) \<in> set (owned_regions task)" "l < length (mrc_sizes r)" for name r l
    using look(3) that t(1) by (simp add: map_of_is_SomeI)
  have sh: "map_of (kc_shared_regions cfg) name \<noteq> None" if "name \<in> set (tc_shared_regions task)" for name
    using t(2) that by (auto simp: map_of_eq_None_iff)
  have "\<forall>k \<in> set ?ks. map_of ?m k \<noteq> None" using look(1,2) own sh by (auto simp: owned_keys_def)
  then obtain idx where idx: "index_keys ?m ?ks = Inr idx" "map (\<lambda>n. snd (?m ! n)) idx = map (\<lambda>k. the (map_of ?m k)) ?ks"
    using index_keys_lookup by blast
  have "map (\<lambda>k. the (map_of ?m k)) (owned_keys i (owned_regions task)) = concat (map (span_chunks \<circ> snd) (owned_regions task))"
    unfolding owned_keys_def map_concat map_map
    by (intro arg_cong [where f = concat] map_cong refl) (auto simp: own intro!: nth_equalityI)
  then have g: "map (\<lambda>n. snd (?m ! n)) idx = granted cfg task"
    using idx(2) look(1,2) by (simp add: granted_def)
  then have "length idx = length (granted cfg task)" by (metis length_map)
  moreover have "snd (?m ! 0) = null_region" using null_first_table [of cfg] by (auto simp: null_first_def)
  ultimately show ?thesis
    using idx(1) g t(3) by (simp add: task_regions_def sort_key_map [where f = "\<lambda>n. snd (?m ! n)"] map_replicate)
qed

subsection \<open>Layout\<close>

text \<open>
  The conditions on addresses: every region a task is given is large enough for the MPU and
  stays below the end of the address space, and two different ones do not overlap.
\<close>

definition rc_end :: "RegionConfig \<Rightarrow> nat" where
  "rc_end r = unat (rc_base r) + unat (rc_size r)"

definition layout_ok :: "RegionConfig list \<Rightarrow> bool" where
  "layout_ok rs \<longleftrightarrow> (\<forall>r \<in> set rs. 32 \<le> unat (rc_size r) \<and> rc_end r < 2 ^ 32)
     \<and> (\<forall>r \<in> set rs. \<forall>r' \<in> set rs. r = r' \<or> rc_end r \<le> unat (rc_base r') \<or> rc_end r' \<le> unat (rc_base r))"

text \<open>
  The initial stack pointer lies inside one writable region of the task, aligned, with room
  for the initial exception frame below it.
\<close>

definition stack_placed :: "kenv \<Rightarrow> TaskConfig \<Rightarrow> bool" where
  "stack_placed env task \<longleftrightarrow> (\<exists>r sz. map_of (owned_regions task) (oa_region_name (tc_initial_stack task)) = Some r
     \<and> mrc_sizes r = [sz] \<and> attr_write (mrc_attributes r) \<and> special_role (mrc_attributes r) = None
     \<and> unat (mrc_base r) mod 8 = 0 \<and> unat (oa_offset (tc_initial_stack task)) mod 8 = 0
     \<and> unat (frame_size env) \<le> unat (oa_offset (tc_initial_stack task))
     \<and> unat (oa_offset (tc_initial_stack task)) < unat sz)"

definition usable :: "RegionConfig \<Rightarrow> bool" where
  "usable r \<longleftrightarrow> attr_write (rc_attributes r) \<and> special_role (rc_attributes r) = None"

lemma fmt_region_simps [simp]:
  "region_base (fmt_region r) = rc_base r" "region_size (fmt_region r) = rc_size r"
  "region_attributes (fmt_region r) = fmt_attributes (rc_attributes r)"
  by (simp_all add: fmt_region_def)

lemma fmt_region_end: "rc_end r < 2 ^ 32 \<Longrightarrow> region_wf (fmt_region r) \<and> unat (region_end_addr (fmt_region r)) = rc_end r"
  by (simp add: region_wf_def unat_region_end rc_end_def)

lemma fmt_attributes_usable:
  "flags_contains (fmt_attributes a) ATTR_WRITE \<and> \<not> flags_intersects (fmt_attributes a) (ATTR_DMA OR ATTR_DEVICE)
     \<longleftrightarrow> attr_write a \<and> special_role a = None"
proof (cases "special_role a")
  case None
  then show ?thesis
    by (cases "attr_read a"; cases "attr_write a"; cases "attr_execute a")
      (simp_all add: fmt_attributes_def flags_contains_def flags_intersects_def ATTR_READ_def ATTR_WRITE_def
        ATTR_EXECUTE_def ATTR_DEVICE_def ATTR_DMA_def)
next
  case (Some role)
  then show ?thesis
    by (cases role; cases "attr_read a"; cases "attr_write a"; cases "attr_execute a")
      (simp_all add: fmt_attributes_def flags_contains_def flags_intersects_def ATTR_READ_def ATTR_WRITE_def
        ATTR_EXECUTE_def ATTR_DEVICE_def ATTR_DMA_def)
qed

lemma usable_flags:
  "usable r \<longleftrightarrow> flags_contains (region_attributes (fmt_region r)) ATTR_WRITE
     \<and> \<not> flags_intersects (region_attributes (fmt_region r)) (ATTR_DMA OR ATTR_DEVICE)"
  by (simp add: usable_def fmt_attributes_usable)

lemma sorted_layout:
  assumes "layout_ok rs" and "set xs = set rs"
  shows "sorted_wrt (\<lambda>r r'. r = r' \<or> region_end_addr r \<le> region_base r') (map fmt_region (sort_key rc_base xs))"
proof -
  have "sorted_wrt (\<lambda>r r'. rc_base r \<le> rc_base r') (sort_key rc_base xs)"
    using sorted_sort_key [of rc_base xs] by (simp add: sorted_map)
  then have "sorted_wrt (\<lambda>r r'. fmt_region r = fmt_region r' \<or> region_end_addr (fmt_region r) \<le> region_base (fmt_region r'))
      (sort_key rc_base xs)"
  proof (rule sorted_wrt_mono_rel [rotated])
    fix r r' assume m: "r \<in> set (sort_key rc_base xs)" "r' \<in> set (sort_key rc_base xs)" and le: "rc_base r \<le> rc_base r'"
    then have m': "r \<in> set rs" "r' \<in> set rs" using assms(2) by simp_all
    then have sz: "32 \<le> unat (rc_size r')" "rc_end r < 2 ^ 32" using assms(1) by (simp_all add: layout_ok_def)
    have "r = r' \<or> rc_end r \<le> unat (rc_base r') \<or> rc_end r' \<le> unat (rc_base r)" using assms(1) m' by (auto simp: layout_ok_def)
    then show "fmt_region r = fmt_region r' \<or> region_end_addr (fmt_region r) \<le> region_base (fmt_region r')"
      using le sz fmt_region_end [OF sz(2)] by (auto simp: word_le_nat_alt rc_end_def)
  qed
  then show ?thesis by (simp add: sorted_wrt_map)
qed

text \<open>The kernel's check on a laid out table, as coverage by usable regions.\<close>

lemma can_write_layout:
  assumes l: "layout_ok rs" and t: "set xs = set rs" "region_table t = map fmt_region (sort_key rc_base xs)" and sl: "slice_ok sz us"
  shows "can_write t sz us \<longleftrightarrow>
    (\<forall>a. slice_base us \<le> a \<and> a < end_addr sz us \<longrightarrow> (\<exists>r \<in> set rs. usable r \<and> unat (rc_base r) \<le> unat a \<and> unat a < rc_end r))"
proof -
  have wf: "list_all region_wf (region_table t)"
    using l t fmt_region_end by (simp add: list_all_iff layout_ok_def)
  have so: "sorted_wrt (\<lambda>r r'. r = r' \<or> region_end_addr r \<le> region_base r') (region_table t)"
    unfolding t(2) by (rule sorted_layout [OF l t(1)])
  have c: "region_contains (fmt_region r) a \<longleftrightarrow> unat (rc_base r) \<le> unat a \<and> unat a < rc_end r" if "r \<in> set rs" for r a
    using l that fmt_region_end [of r] by (simp add: region_contains_iff layout_ok_def word_le_nat_alt word_less_nat_alt)
  have "can_write t sz us \<longleftrightarrow> (\<forall>a. slice_base us \<le> a \<and> a < end_addr sz us \<longrightarrow>
      (\<exists>r \<in> set (region_table t). (flags_contains (region_attributes r) ATTR_WRITE
         \<and> \<not> flags_intersects (region_attributes r) (ATTR_DMA OR ATTR_DEVICE)) \<and> region_contains r a))"
    unfolding can_write_def task_can_access_def Let_def by (rule kern.access_iff [OF wf sl so])
  also have "\<dots> \<longleftrightarrow> (\<forall>a. slice_base us \<le> a \<and> a < end_addr sz us \<longrightarrow>
      (\<exists>r \<in> set rs. usable r \<and> unat (rc_base r) \<le> unat a \<and> unat a < rc_end r))"
    unfolding t(2) usable_flags using t(1) c by auto
  finally show ?thesis .
qed

lemma stack_region:
  assumes "stack_placed env task" and "r0 = the (map_of (owned_regions task) (oa_region_name (tc_initial_stack task)))"
  shows "\<exists>r \<in> set (granted cfg task). usable r \<and> span_chunks r0 = [r] \<and> rc_base r = mrc_base r0"
proof -
  obtain r sz where r: "map_of (owned_regions task) (oa_region_name (tc_initial_stack task)) = Some r" "mrc_sizes r = [sz]"
      "attr_write (mrc_attributes r)" "special_role (mrc_attributes r) = None"
    using assms(1) by (auto simp: stack_placed_def)
  let ?c = "\<lparr>rc_base = mrc_base r, rc_size = sz, rc_attributes = mrc_attributes r\<rparr>"
  have "span_chunks r = [?c]" using r(2) by (simp add: span_chunks_def)
  moreover from this have "?c \<in> set (granted cfg task)"
    using map_of_SomeD [OF r(1)] by (force simp: granted_def)
  ultimately show ?thesis using r assms(2) by (intro bexI [of _ ?c]) (simp_all add: usable_def)
qed

text \<open>The stack condition the kernel relies on holds for a placed stack.\<close>

lemma placed_stack_ok:
  assumes l: "layout_ok rs" and t: "set xs = set rs" "region_table t = map fmt_region (sort_key rc_base xs)"
    and r: "r \<in> set rs" "usable r" and isp: "initial_stack (descriptor t) = rc_base r + ofs"
    and al: "unat (rc_base r) mod 8 = 0" "unat ofs mod 8 = 0" and fr: "unat (frame_size env) \<le> unat ofs" "unat ofs < unat (rc_size r)"
  shows "stack_ok env t"
proof -
  let ?isp = "initial_stack (descriptor t)" and ?f = "frame_size env"
  note cw = can_write_layout [OF l t]
  have e: "rc_end r < 2 ^ 32" "32 \<le> unat (rc_size r)" using l r by (simp_all add: layout_ok_def)
  have u: "unat ?isp = unat (rc_base r) + unat ofs"
    unfolding isp using e fr by (intro unat_add_nowrap) (simp add: rc_end_def)
  have m8: "unat ?isp mod 8 = 0" using u al by (simp add: mod_add_eq [symmetric])
  have a7: "?isp AND 7 = 0"
  proof -
    have "(7 :: u32) = mask 3" by (simp add: mask_eq_exp_minus_1)
    moreover have "unat (take_bit 3 ?isp) = 0" using m8 by (simp add: take_bit_eq_mod unat_mod)
    ultimately show ?thesis by (simp add: take_bit_eq_mask unat_eq_0)
  qed
  have fi: "?f \<le> ?isp" using u fr by (simp add: word_le_nat_alt)
  have ub: "unat (?isp - ?f) = unat (rc_base r) + unat ofs - unat ?f" using fi u by (simp add: unat_sub_le)
  have sf: "slice_ok ?f (frame_slice env t)"
    using ub u fr unat_lt_u32 [of ?isp] frame_size_cases [of env] by (auto simp: slice_ok_def frame_slice_def)
  have fw: "can_write t ?f (frame_slice env t)"
    unfolding cw [OF sf] using r e fr u ub unat_end_addr [OF sf]
    by (auto simp: frame_slice_def word_le_nat_alt word_less_nat_alt rc_end_def intro!: bexI [of _ r])
  have zap: "region_base q \<le> ?isp - ?f \<and> region_base q mod 4 = 0 \<and> can_write t 4 (zap_slice env t q)"
    if q: "find (\<lambda>q. region_contains q ?isp) (region_table t) = Some q" for q
  proof -
    have "q \<in> set (region_table t)" "region_contains q ?isp"
      using q by (auto simp: find_Some_iff nth_mem)
    then obtain r' where r': "r' \<in> set rs" "q = fmt_region r'" "region_contains (fmt_region r') ?isp" using t by auto
    then have "rc_end r' < 2 ^ 32" using l by (simp add: layout_ok_def)
    with r'(3) fmt_region_end have in': "unat (rc_base r') \<le> unat ?isp" "unat ?isp < rc_end r'"
      by (auto simp: region_contains_iff word_le_nat_alt word_less_nat_alt)
    have "r = r' \<or> rc_end r \<le> unat (rc_base r') \<or> rc_end r' \<le> unat (rc_base r)" using l r r' by (auto simp: layout_ok_def)
    with in' u fr(2) have eq: "q = fmt_region r" using r' by (auto simp: rc_end_def)
    have b: "region_base q \<le> ?isp - ?f" using eq ub fr by (simp add: word_le_nat_alt)
    have "unat (rc_base r) mod 4 = 0" using al(1) by presburger
    then have "unat (rc_base r mod 4) = 0" by (simp add: unat_mod)
    then have m4: "region_base q mod 4 = 0" using eq by (simp add: unat_eq_0)
    let ?d = "?isp - ?f - rc_base r"
    have d: "unat ?d = unat ofs - unat ?f" using b eq ub fr by (simp add: unat_sub_le)
    have len: "unat (drop_bit 2 ?d) * 4 \<le> unat ?d" by (simp add: unat_drop_bit_eq drop_bit_eq_div unat_div)
    have sz: "slice_ok 4 (zap_slice env t q)"
      using len d e fr eq by (simp add: slice_ok_def zap_slice_def rc_end_def)
    have "can_write t 4 (zap_slice env t q)"
      unfolding cw [OF sz] using r fr d len unat_end_addr [OF sz]
      by (auto simp: zap_slice_def eq word_le_nat_alt word_less_nat_alt rc_end_def intro!: bexI [of _ r])
    with b m4 show ?thesis by simp
  qed
  show ?thesis unfolding stack_ok_def using a7 fi fw zap by (simp split: option.splits)
qed

subsection \<open>The generated descriptors\<close>

definition padded :: "KernelConfig \<Rightarrow> TaskConfig \<Rightarrow> RegionConfig list" where
  "padded cfg task = granted cfg task @ replicate (8 - length (granted cfg task)) null_region"

lemma set_padded [simp]: "set (padded cfg task) = set (granted cfg task)"
  by (auto simp: padded_def granted_def)

definition described :: "KernelConfig \<Rightarrow> TaskConfig \<Rightarrow> nat \<Rightarrow> TaskDesc \<Rightarrow> bool" where
  "described cfg task i d \<longleftrightarrow> regions d = map fmt_region (sort_key rc_base (padded cfg task))
     \<and> (\<exists>r. map_of (owned_regions task) (oa_region_name (tc_initial_stack task)) = Some r
           \<and> initial_stack d = mrc_base r + oa_offset (tc_initial_stack task))
     \<and> (\<exists>r. map_of (owned_regions task) (oa_region_name (tc_entry_point task)) = Some r
           \<and> entry_point d = mrc_base r + oa_offset (tc_entry_point task))
     \<and> desc_priority d = tc_priority task \<and> (desc_flags d = START_AT_BOOT \<longleftrightarrow> start_at_boot task) \<and> desc_index d = word_of_nat i"

lemma translate_address_eq:
  assumes "names_ok cfg" and "i < length (kc_tasks cfg)" and "map_of (owned_regions (kc_tasks cfg ! i)) (oa_region_name a) = Some r"
    and "mrc_sizes r \<noteq> []"
  shows "translate_address (build_region_table cfg) i a = Inr (mrc_base r + oa_offset a)"
proof -
  have "rc_base (span_chunks r ! 0) = mrc_base r" using assms(4) by (cases "mrc_sizes r") (simp_all add: span_chunks_def)
  then show ?thesis using table_lookup(3) [OF assms(1-3), of 0] assms(4) by (simp add: translate_address_def)
qed

lemma task_desc_described:
  assumes n: "names_ok cfg" and i: "i < length (kc_tasks cfg)"
  shows "\<exists>d. task_desc (build_region_table cfg) i (kc_tasks cfg ! i) = Inr d \<and> described cfg (kc_tasks cfg ! i) i d"
proof -
  let ?task = "kc_tasks cfg ! i"
  obtain idx where idx: "task_regions (build_region_table cfg) i ?task = Inr idx"
      "map (\<lambda>n. snd (build_region_table cfg ! n)) idx = sort_key rc_base (padded cfg ?task)"
    using task_regions_eq [OF n i refl] by (auto simp: padded_def)
  have "?task \<in> set (kc_tasks cfg)" using i by simp
  with n have "\<forall>a \<in> {tc_entry_point ?task, tc_initial_stack ?task}.
      \<exists>r. map_of (owned_regions ?task) (oa_region_name a) = Some r \<and> mrc_sizes r \<noteq> []"
    unfolding names_ok_def by blast
  then obtain re rs where r: "map_of (owned_regions ?task) (oa_region_name (tc_entry_point ?task)) = Some re" "mrc_sizes re \<noteq> []"
      "map_of (owned_regions ?task) (oa_region_name (tc_initial_stack ?task)) = Some rs" "mrc_sizes rs \<noteq> []"
    by (metis insertI1 insertI2)
  have "i < 2 ^ 16" using n i by (simp add: names_ok_def)
  moreover have "map (\<lambda>n. fmt_region (snd (build_region_table cfg ! n))) idx = map fmt_region (sort_key rc_base (padded cfg ?task))"
    using arg_cong [OF idx(2), of "map fmt_region"] by (simp add: comp_def)
  ultimately show ?thesis
    using idx(1) translate_address_eq [OF n i r(1,2)] translate_address_eq [OF n i r(3,4)] r
    by (auto simp: task_desc_def described_def START_AT_BOOT_def)
qed

lemma task_descs_described:
  assumes "names_ok cfg" and "ts = drop i (kc_tasks cfg)"
  shows "\<exists>ds. task_descs (build_region_table cfg) i ts = Inr ds \<and> length ds = length ts
    \<and> (\<forall>k < length ts. described cfg (ts ! k) (i + k) (ds ! k))"
  using assms(2)
proof (induction ts arbitrary: i)
  case (Cons t ts)
  then have i: "i < length (kc_tasks cfg)" "kc_tasks cfg ! i = t" "ts = drop (Suc i) (kc_tasks cfg)"
    by (metis drop_eq_Nil2 list.distinct(1) not_le, metis Cons_nth_drop_Suc drop_eq_Nil2 list.distinct(1) list.inject not_le,
        metis drop_Suc list.sel(3) tl_drop)
  obtain d where d: "task_desc (build_region_table cfg) i t = Inr d" "described cfg t i d"
    using task_desc_described [OF assms(1) i(1)] i(2) by auto
  obtain ds where ds: "task_descs (build_region_table cfg) (Suc i) ts = Inr ds" "length ds = length ts"
      "\<forall>k < length ts. described cfg (ts ! k) (Suc i + k) (ds ! k)"
    using Cons.IH [OF i(3)] by blast
  have "described cfg ((t # ts) ! k) (i + k) ((d # ds) ! k)" if "k < length (t # ts)" for k
    using that d ds by (cases k) auto
  with d ds show ?case by simp
qed simp

text \<open>
  C18: a configuration with consistent names, regions that do not overlap and placed stacks
  compiles into descriptors the kernel can boot: the tables satisfy every condition startup
  assumes of them, each task has its configured priority and eight regions, and the kernel's
  access check on these tables lets a task write a slice exactly when each byte lies in a
  plain writable region the configuration gives to that task. Padding with the null region
  and sorting change nothing about this.
\<close>

theorem generated_descriptors:
  assumes "names_ok cfg" and "kc_tasks cfg \<noteq> []" and "length (kc_tasks cfg) \<le> 1023"
    and "\<forall>task \<in> set (kc_tasks cfg). layout_ok (granted cfg task) \<and> stack_placed env task"
  shows "\<exists>ds. process_config cfg = Inr ds \<and> descs_ok env ds \<and> length ds = length (kc_tasks cfg)
    \<and> (\<forall>i < length ds. let d = ds ! i; task = kc_tasks cfg ! i in
         desc_priority d = tc_priority task \<and> length (regions d) = 8
         \<and> (\<forall>sz us. slice_ok sz us \<longrightarrow> (can_write (from_descriptor d) sz us \<longleftrightarrow>
              (\<forall>a. slice_base us \<le> a \<and> a < end_addr sz us \<longrightarrow>
                (\<exists>r \<in> set (granted cfg task). usable r \<and> unat (rc_base r) \<le> unat a \<and> unat a < rc_end r)))))"
proof -
  obtain ds where ds: "process_config cfg = Inr ds" "length ds = length (kc_tasks cfg)"
      "\<forall>i < length ds. described cfg (kc_tasks cfg ! i) i (ds ! i)"
    using task_descs_described [OF assms(1), of "kc_tasks cfg" 0] by (auto simp: process_config_def)
  have one: "unat (desc_index (ds ! i)) = i \<and> stack_ok env (from_descriptor (ds ! i)) \<and> (\<forall>r \<in> set (regions (ds ! i)). region_mpu_ok r)
      \<and> desc_priority (ds ! i) = tc_priority (kc_tasks cfg ! i) \<and> length (regions (ds ! i)) = 8
      \<and> (\<forall>sz us. slice_ok sz us \<longrightarrow> (can_write (from_descriptor (ds ! i)) sz us \<longleftrightarrow>
           (\<forall>a. slice_base us \<le> a \<and> a < end_addr sz us \<longrightarrow>
             (\<exists>r \<in> set (granted cfg (kc_tasks cfg ! i)). usable r \<and> unat (rc_base r) \<le> unat a \<and> unat a < rc_end r))))"
    if i: "i < length ds" for i
  proof -
    let ?task = "kc_tasks cfg ! i" and ?t = "from_descriptor (ds ! i)"
    have d: "described cfg ?task i (ds ! i)" using ds(3) i by blast
    have task: "?task \<in> set (kc_tasks cfg)" using i ds(2) by simp
    then have l: "layout_ok (granted cfg ?task)" and st: "stack_placed env ?task" using assms(4) by auto
    have rt: "region_table ?t = map fmt_region (sort_key rc_base (padded cfg ?task))"
      using d by (simp add: described_def region_table_def from_descriptor_def)
    obtain r0 where r0: "map_of (owned_regions ?task) (oa_region_name (tc_initial_stack ?task)) = Some r0"
        "initial_stack (ds ! i) = mrc_base r0 + oa_offset (tc_initial_stack ?task)"
      using d by (auto simp: described_def)
    obtain r where r: "r \<in> set (granted cfg ?task)" "usable r" "span_chunks r0 = [r]" "rc_base r = mrc_base r0"
      using stack_region [OF st, of r0] r0 by auto
    then have "\<exists>sz. mrc_sizes r0 = [sz] \<and> rc_size r = sz" by (cases "mrc_sizes r0") (auto simp: span_chunks_def)
    then have so: "stack_ok env ?t"
      using st r0 r by (intro placed_stack_ok [OF l set_padded rt r(1,2)]) (auto simp: stack_placed_def from_descriptor_def)
    have mp: "region_mpu_ok q" if q: "q \<in> set (regions (ds ! i))" for q
    proof -
      have "set (regions (ds ! i)) = fmt_region ` set (granted cfg ?task)" using d by (simp add: described_def)
      then obtain p where p: "p \<in> set (granted cfg ?task)" "q = fmt_region p" using q by auto
      then have "32 \<le> unat (rc_size p)" "rc_end p < 2 ^ 32" using l by (simp_all add: layout_ok_def)
      then show ?thesis using fmt_region_end [of p] p by (simp add: region_mpu_ok_def word_le_nat_alt)
    qed
    have "length (granted cfg ?task) \<le> 8" using assms(1) task by (simp add: names_ok_def)
    then have "length (regions (ds ! i)) = 8" using d by (simp add: described_def padded_def)
    moreover have "unat (desc_index (ds ! i)) = i"
      using d i ds(2) assms(3) by (simp add: described_def unsigned_of_nat take_bit_nat_eq_self)
    ultimately show ?thesis
      using so mp d can_write_layout [OF l set_padded rt] by (simp add: described_def)
  qed
  have "descs_ok env ds"
    unfolding descs_ok_def all_set_conv_all_nth [of ds] using one ds(2) assms(2,3) by simp
  with ds one show ?thesis by (intro exI [of _ ds]) (simp add: Let_def)
qed

text \<open>A configuration with a supervisor and one more task that uses a peripheral.\<close>

definition cfg_attributes :: "bool \<Rightarrow> bool \<Rightarrow> SpecialRole option \<Rightarrow> RegionAttributes" where
  "cfg_attributes w x role = \<lparr>attr_read = True, attr_write = w, attr_execute = x, special_role = role\<rparr>"

definition cfg_task :: "u32 \<Rightarrow> u32 \<Rightarrow> string list \<Rightarrow> u8 \<Rightarrow> TaskConfig" where
  "cfg_task flash ram uses prio = \<lparr>
     owned_regions = [(''flash'', \<lparr>mrc_base = flash, mrc_sizes = [0x400, 0x200], mrc_attributes = cfg_attributes False True None\<rparr>),
                      (''ram'', \<lparr>mrc_base = ram, mrc_sizes = [0x400], mrc_attributes = cfg_attributes True False None\<rparr>)],
     tc_shared_regions = uses, tc_entry_point = \<lparr>oa_region_name = ''flash'', oa_offset = 8\<rparr>,
     tc_initial_stack = \<lparr>oa_region_name = ''ram'', oa_offset = 0x200\<rparr>, tc_priority = prio, start_at_boot = True\<rparr>"

definition example_cfg :: KernelConfig where
  "example_cfg = \<lparr>kc_tasks = [cfg_task 0x08004000 0x20001000 [] 0, cfg_task 0x08004800 0x20001400 [''usart''] 1],
     kc_shared_regions = [(''usart'', \<lparr>rc_base = 0x40004800, rc_size = 0x400, rc_attributes = cfg_attributes True False (Some RoleDevice)\<rparr>)],
     kc_irqs = [(40, \<lparr>ic_task_index = 1, ic_notification = 1\<rparr>)]\<rparr>"

theorem generated_descriptors_witness:
  "\<exists>ds. process_config example_cfg = Inr ds \<and> length ds = 2 \<and> length (regions (ds ! 1)) = 8
    \<and> \<not> can_write (from_descriptor (ds ! 1)) 1 \<lparr>slice_base = 0x20001000, slice_len = 4\<rparr>"
proof -
  note defs = example_cfg_def cfg_task_def granted_def span_chunks_def null_region_def cfg_attributes_def
  have n: "names_ok example_cfg" by (simp add: names_ok_def defs)
  have l: "\<forall>task \<in> set (kc_tasks example_cfg). layout_ok (granted example_cfg task) \<and> stack_placed demo_env task"
    by (simp add: layout_ok_def stack_placed_def rc_end_def defs demo_env_def frame_size_def)
  have k: "kc_tasks example_cfg \<noteq> []" "length (kc_tasks example_cfg) = 2" by (simp_all add: example_cfg_def)
  then obtain ds where ds: "process_config example_cfg = Inr ds" "length ds = 2" "length (regions (ds ! 1)) = 8"
      "\<forall>sz us. slice_ok sz us \<longrightarrow> (can_write (from_descriptor (ds ! 1)) sz us \<longleftrightarrow>
              (\<forall>a. slice_base us \<le> a \<and> a < end_addr sz us \<longrightarrow>
                (\<exists>r \<in> set (granted example_cfg (kc_tasks example_cfg ! 1)). usable r \<and> unat (rc_base r) \<le> unat a \<and> unat a < rc_end r)))"
    using generated_descriptors [OF n _ _ l] by (auto simp: Let_def)
  let ?us = "\<lparr>slice_base = 0x20001000, slice_len = 4\<rparr>"
  have ok: "slice_ok 1 ?us" by (simp add: slice_ok_def)
  have "\<not> (\<exists>r \<in> set (granted example_cfg (kc_tasks example_cfg ! 1)). usable r
      \<and> unat (rc_base r) \<le> unat (0x20001000 :: u32) \<and> unat (0x20001000 :: u32) < rc_end r)"
    by (simp add: defs usable_def rc_end_def)
  moreover have "slice_base ?us \<le> 0x20001000 \<and> 0x20001000 < end_addr 1 ?us" by (simp add: end_addr_def word_less_nat_alt)
  ultimately have "\<not> can_write (from_descriptor (ds ! 1)) 1 ?us" using ds(4) ok by blast
  with ds(1-3) show ?thesis by blast
qed

end
