(* ===== verification/Build_Alloc.thy ===== *)
theory Build_Alloc
  imports Build_Maps
begin

section \<open>The memory allocator of the build\<close>

text \<open>
  \<^verbatim>\<open>allocate_all\<close> in \<^verbatim>\<open>build/xtask/src/dist.rs\<close> places the kernel and every task in the memories of
  the chip; \<^verbatim>\<open>MpuAlignment\<close> in \<^verbatim>\<open>config.rs\<close> says which sizes and alignments the memory protection unit
  can express. The tool is built with overflow checks, so additions, subtractions and
  multiplications that leave their type are panics, as are failed assertions; a \<^verbatim>\<open>bail!\<close> is an
  error of its own. A \<^verbatim>\<open>Range<u32>\<close> is the pair of its ends, a \<^verbatim>\<open>u64\<close> amount a natural number with
  its bound written out. \<^verbatim>\<open>IndexMap\<close> and \<^verbatim>\<open>BTreeMap\<close> are association lists in iteration order.
\<close>

subsection \<open>Checked arithmetic\<close>

datatype alloc_error = OutOf | OverMaxSize | CabooseTask | CabooseSize | NoCabooseRegion | BadMemory | Panicked

definition ebind :: "'e + 'a \<Rightarrow> ('a \<Rightarrow> 'e + 'b) \<Rightarrow> 'e + 'b" where
  "ebind x f = (case x of Inl e \<Rightarrow> Inl e | Inr y \<Rightarrow> f y)"

definition add32 :: "u32 \<Rightarrow> u32 \<Rightarrow> alloc_error + u32" where
  "add32 a b = (if unat a + unat b < 2 ^ 32 then Inr (a + b) else Inl Panicked)"

definition sub32 :: "u32 \<Rightarrow> u32 \<Rightarrow> alloc_error + u32" where
  "sub32 a b = (if b \<le> a then Inr (a - b) else Inl Panicked)"

definition mul32 :: "u32 \<Rightarrow> u32 \<Rightarrow> alloc_error + u32" where
  "mul32 a b = (if unat a * unat b < 2 ^ 32 then Inr (a * b) else Inl Panicked)"

definition in64 :: "nat \<Rightarrow> alloc_error + nat" where
  "in64 x = (if x < 2 ^ 64 then Inr x else Inl Panicked)"

fun sum32 :: "u32 \<Rightarrow> u32 list \<Rightarrow> alloc_error + u32" where
  "sum32 acc [] = Inr acc"
| "sum32 acc (x # xs) = ebind (add32 acc x) (\<lambda>acc. sum32 acc xs)"

definition is_power_of_two :: "u32 \<Rightarrow> bool" where
  "is_power_of_two x \<longleftrightarrow> list_ex (\<lambda>k. x = 2 ^ k) [0..<32]"

text \<open>The first of \<open>k\<close> powers of two from \<open>p\<close> on that is large enough; beyond \<^verbatim>\<open>u64\<close> it overflows.\<close>

fun least_power :: "nat \<Rightarrow> nat \<Rightarrow> nat \<Rightarrow> nat option" where
  "least_power k p x = (if k = 0 then None else if x \<le> p then Some p else least_power (k - 1) (2 * p) x)"

declare least_power.simps [simp del]

definition next_power_of_two :: "nat \<Rightarrow> alloc_error + nat" where
  "next_power_of_two x = (case least_power 64 1 x of None \<Rightarrow> Inl Panicked | Some p \<Rightarrow> Inr p)"

definition trailing_zeros :: "u32 \<Rightarrow> nat" where
  "trailing_zeros x = length (takeWhile (\<lambda>k. \<not> bit x k) [0..<32])"

subsection \<open>What the memory protection unit can express\<close>

datatype MpuAlignment = PowerOfTwo | Chunk nat

text \<open>The target names the profile; others are refused.\<close>

definition mpu_alignment :: "string \<Rightarrow> alloc_error + MpuAlignment" where
  "mpu_alignment target =
     (if target = ''thumbv8m.main-none-eabihf'' then Inr (Chunk 32)
      else if target = ''thumbv7em-none-eabihf'' \<or> target = ''thumbv6m-none-eabi'' then Inr PowerOfTwo
      else Inl Panicked)"

definition memory_region_alignment :: "MpuAlignment \<Rightarrow> u32 \<Rightarrow> alloc_error + u32" where
  "memory_region_alignment mpu sz =
     (case mpu of
        PowerOfTwo \<Rightarrow> if is_power_of_two sz then Inr sz else Inl Panicked
      | Chunk c \<Rightarrow> if c < 2 ^ 32 then Inr (word_of_nat c) else Inl Panicked)"

definition MIN_MPU_REGION_SIZE :: nat where
  "MIN_MPU_REGION_SIZE = 32"

text \<open>The first loop takes halved powers of two until the amount or the regions run out.\<close>

fun take_regions :: "nat \<Rightarrow> nat \<Rightarrow> alloc_error + (nat list \<times> nat)" where
  "take_regions 0 sz = Inr ([], sz)"
| "take_regions (Suc n) sz =
     ebind (next_power_of_two sz) (\<lambda>p.
       let s = max (p div 2) MIN_MPU_REGION_SIZE; sz' = sz - s in
       if sz' = 0 then Inr ([s], 0)
       else ebind (take_regions n sz') (\<lambda>(out, left). Inr (s # out, left)))"

definition cover_rest :: "nat list \<Rightarrow> nat \<Rightarrow> alloc_error + nat list" where
  "cover_rest out left =
     (if 0 < left then
        (if out = [] then ebind (next_power_of_two left) (\<lambda>p. Inr [p])
         else ebind (in64 (last out * 2)) (\<lambda>s. Inr (butlast out @ [s])))
      else Inr out)"

text \<open>The merge of equal regions at the end, on the reversed deque.\<close>

fun merge_tail :: "nat list \<Rightarrow> alloc_error + nat list" where
  "merge_tail (x # y # out) = (if x = y then ebind (in64 (y * 2)) (\<lambda>z. merge_tail (z # out)) else Inr (x # y # out))"
| "merge_tail out = Inr out"

function split_largest :: "nat \<Rightarrow> nat list \<Rightarrow> alloc_error + nat list" where
  "split_largest n [] = Inl Panicked"
| "split_largest n (largest # rest) =
     (if MIN_MPU_REGION_SIZE < largest then
        (let k = length (filter (\<lambda>c. c = largest) (largest # rest)) in
         if n < length (largest # rest) + k then Inr (largest # rest)
         else split_largest n (replicate (k * 2) (largest div 2) @ drop k (largest # rest)))
      else Inr (largest # rest))"
  by pat_completeness auto
termination
  by (relation "measure (\<lambda>(n, out). case out of [] \<Rightarrow> 0 | x # _ \<Rightarrow> x)") (auto simp: MIN_MPU_REGION_SIZE_def)

definition mpu_suggest_size :: "MpuAlignment \<Rightarrow> nat \<Rightarrow> nat \<Rightarrow> alloc_error + nat list" where
  "mpu_suggest_size mpu sz n =
     (case mpu of
        PowerOfTwo \<Rightarrow>
          ebind (take_regions n sz) (\<lambda>(out, left).
          ebind (cover_rest out left) (\<lambda>out.
          ebind (merge_tail (rev out)) (\<lambda>out.
          split_largest n (rev out))))
      | Chunk c \<Rightarrow>
          ebind (in64 (sz + c)) (\<lambda>_. if c = 0 then Inl Panicked
            else ebind (in64 ((sz + c - 1) div c * c)) (\<lambda>s. Inr [s])))"

definition suggest_memory_region_size :: "MpuAlignment \<Rightarrow> string \<Rightarrow> nat \<Rightarrow> nat \<Rightarrow> alloc_error + nat list" where
  "suggest_memory_region_size mpu name sz n =
     (if name = ''kernel'' then ebind (in64 (sz + 15)) (\<lambda>x. Inr [x div 16 * 16]) else mpu_suggest_size mpu sz n)"

subsection \<open>The allocator\<close>

type_synonym range32 = "u32 \<times> u32"

record allocations =
  al_kernel :: "(string \<times> range32) list"
  al_tasks :: "(string \<times> (string \<times> range32 list) list) list"
  al_caboose :: "(string \<times> range32) option"

definition push_back :: "u32 \<Rightarrow> u32 list \<Rightarrow> alloc_error + u32 list" where
  "push_back v data = (if data = [] \<or> v \<le> last data then Inr (data @ [v]) else Inl Panicked)"

definition ranges_push :: "range32 \<Rightarrow> range32 list \<Rightarrow> alloc_error + range32 list" where
  "ranges_push r rs = (if rs = [] \<or> snd (last rs) = fst r then Inr (rs @ [r]) else Inl Panicked)"

text \<open>The ranges of a task in a memory, empty when there is no entry yet.\<close>

definition ranges_of :: "allocations \<Rightarrow> string \<Rightarrow> string \<Rightarrow> range32 list" where
  "ranges_of allocs name region =
     (case map_of (al_tasks allocs) name of
        None \<Rightarrow> []
      | Some ms \<Rightarrow> (case map_of ms region of None \<Rightarrow> [] | Some rs \<Rightarrow> rs))"

definition push_alloc :: "string \<Rightarrow> string \<Rightarrow> range32 \<Rightarrow> allocations \<Rightarrow> alloc_error + allocations" where
  "push_alloc name region r allocs =
     ebind (ranges_push r (ranges_of allocs name region)) (\<lambda>rs.
       let ms = (case map_of (al_tasks allocs) name of None \<Rightarrow> [] | Some ms \<Rightarrow> ms) in
       Inr (allocs\<lparr>al_tasks := btree_insert name (btree_insert region rs ms) (al_tasks allocs)\<rparr>))"

definition round_up :: "u32 \<Rightarrow> u32 \<Rightarrow> alloc_error + u32" where
  "round_up x size_mask = ebind (add32 x size_mask) (\<lambda>y. Inr (y AND NOT size_mask))"

definition allocate_k :: "u32 \<Rightarrow> range32 \<Rightarrow> alloc_error + (range32 \<times> range32)" where
  "allocate_k sz avail =
     ebind (round_up (fst avail) 15) (\<lambda>base.
     ebind (add32 base sz) (\<lambda>e.
     ebind (sub32 e 1) (\<lambda>final.
       if fst avail \<le> final \<and> final < snd avail then Inr ((base, e), (e, snd avail)) else Inl OutOf)))"

definition allocate_one :: "u32 \<Rightarrow> u32 \<Rightarrow> range32 \<Rightarrow> alloc_error + (range32 \<times> range32)" where
  "allocate_one sz align avail =
     (if \<not> is_power_of_two align then Inl Panicked
      else ebind (round_up (fst avail) (align - 1)) (\<lambda>base.
        if snd avail \<le> base \<or> snd avail - base < sz then Inl OutOf
        else ebind (add32 base sz) (\<lambda>e. Inr ((base, e), (e, snd avail)))))"

datatype Direction = Forward | Reverse

record alloc_match =
  m_gap :: u32
  m_align :: u32
  m_size :: u32
  m_name :: string
  m_dir :: Direction

definition saturating_sub :: "u32 \<Rightarrow> u32 \<Rightarrow> u32" where
  "saturating_sub a b = (if b \<le> a then a - b else 0)"

definition match_update :: "u32 \<Rightarrow> u32 \<Rightarrow> u32 \<Rightarrow> string \<Rightarrow> Direction \<Rightarrow> alloc_match \<Rightarrow> alloc_match" where
  "match_update gap align sz name dir best =
     (let gap_m = saturating_sub gap (align div 8);
          our_gap_m = saturating_sub (m_gap best) (m_align best div 8) in
      if gap_m < our_gap_m
         \<or> (gap_m = our_gap_m \<and> m_align best < align)
         \<or> gap < m_gap best
         \<or> (gap = m_gap best \<and> m_align best < align)
         \<or> (gap = m_gap best \<and> align = m_align best \<and> sz < m_size best)
      then \<lparr>m_gap = gap, m_align = align, m_size = sz, m_name = name, m_dir = dir\<rparr>
      else best)"

definition match_init :: alloc_match where
  "match_init = \<lparr>m_gap = - 1, m_align = 0, m_size = - 1, m_name = [], m_dir = Forward\<rparr>"

text \<open>Both placements of one task are tried.\<close>

definition consider_task :: "MpuAlignment \<Rightarrow> u32 \<Rightarrow> string \<Rightarrow> u32 list \<Rightarrow> alloc_match \<Rightarrow> alloc_error + alloc_match" where
  "consider_task mpu start name mem best =
     (case mem of [] \<Rightarrow> Inl Panicked | front # _ \<Rightarrow>
      ebind (memory_region_alignment mpu front) (\<lambda>align.
      ebind (sub32 align 1) (\<lambda>size_mask.
      ebind (sum32 0 mem) (\<lambda>total_size.
      ebind (add32 start total_size) (\<lambda>x.
      ebind (round_up x size_mask) (\<lambda>base.
      ebind (sub32 base start) (\<lambda>y.
      ebind (sub32 y total_size) (\<lambda>gap_reverse.
      let best = match_update gap_reverse align total_size name Reverse best in
      ebind (round_up start size_mask) (\<lambda>base.
      ebind (sub32 base start) (\<lambda>gap_forward.
      ebind (memory_region_alignment mpu (last mem)) (\<lambda>align_back.
      Inr (match_update gap_forward align_back total_size name Forward best))))))))))))"

fun find_best :: "MpuAlignment \<Rightarrow> u32 \<Rightarrow> (string \<times> u32 list) list \<Rightarrow> alloc_match \<Rightarrow> alloc_error + alloc_match" where
  "find_best mpu start [] best = Inr best"
| "find_best mpu start ((name, mem) # t_reqs) best =
     ebind (consider_task mpu start name mem best) (\<lambda>best. find_best mpu start t_reqs best)"

text \<open>
  Equal sizes at the front are merged in pairs when the address suits a region of twice the
  size. The result is the size to place now and the deque that remains.
\<close>

definition merge_front :: "MpuAlignment \<Rightarrow> u32 \<Rightarrow> u32 \<Rightarrow> u32 list \<Rightarrow> alloc_error + (u32 \<times> u32 list)" where
  "merge_front mpu start sz sizes =
     (let n = length (filter (\<lambda>s. s = sz) sizes) + 1 in
      if 1 < n then
        (let n = n - n mod 2 in
         ebind (mul32 sz 2) (\<lambda>double.
         ebind (memory_region_alignment mpu double) (\<lambda>possible_align.
         ebind (sub32 possible_align 1) (\<lambda>m.
           if start AND m = 0 then Inr (double, replicate (n div 2 - 1) double @ drop (n - 1) sizes)
           else Inr (sz, sizes)))))
      else Inr (sz, sizes))"

lemma pairs_le: "k \<le> l \<Longrightarrow> (Suc k - Suc k mod 2) div 2 - Suc 0 + (l - (k - Suc k mod 2)) \<le> (l :: nat)"
  by (cases "even k") (auto elim!: evenE oddE)

lemma merge_front_length: "merge_front mpu start sz sizes = Inr (sz', sizes') \<Longrightarrow> length sizes' \<le> length sizes"
  using length_filter_le [of "\<lambda>s. s = sz" sizes]
  by (auto simp: merge_front_def Let_def ebind_def pairs_le split: if_splits sum.splits)

function place_chunks :: "MpuAlignment \<Rightarrow> string \<Rightarrow> string \<Rightarrow> u32 list \<Rightarrow> range32 \<Rightarrow> allocations \<Rightarrow> alloc_error + (range32 \<times> allocations)" where
  "place_chunks mpu name region [] avail allocs = Inr (avail, allocs)"
| "place_chunks mpu name region (s # ss) avail allocs =
     (case merge_front mpu (fst avail) s ss of
        Inl e \<Rightarrow> Inl e
      | Inr (sz, sizes) \<Rightarrow>
          ebind (memory_region_alignment mpu sz) (\<lambda>align.
          ebind (sub32 align 1) (\<lambda>m.
          if fst avail AND m \<noteq> 0 then Inl Panicked
          else ebind (allocate_one sz align avail) (\<lambda>(r, avail').
               ebind (push_alloc name region r allocs) (\<lambda>allocs'.
               place_chunks mpu name region sizes avail' allocs')))))"
  by pat_completeness auto
termination
  by (relation "measure (\<lambda>(mpu, name, region, sizes, avail, allocs). length sizes)")
    (auto simp: less_Suc_eq_le dest!: sym [THEN merge_front_length] merge_front_length)

text \<open>The assertions after a task is placed.\<close>

fun check_ranges :: "MpuAlignment \<Rightarrow> range32 option \<Rightarrow> range32 list \<Rightarrow> alloc_error + unit" where
  "check_ranges mpu prev [] = Inr ()"
| "check_ranges mpu prev (r # rs) =
     (if (case prev of None \<Rightarrow> False | Some p \<Rightarrow> snd p \<noteq> fst r) then Inl Panicked
      else ebind (sub32 (snd r) (fst r)) (\<lambda>sz.
        if sz < 32 then Inl Panicked
        else ebind (memory_region_alignment mpu sz) (\<lambda>align.
          if trailing_zeros align \<le> trailing_zeros (fst r) then check_ranges mpu (Some r) rs else Inl Panicked)))"

function allocate_tasks :: "MpuAlignment \<Rightarrow> string \<Rightarrow> (string \<times> u32 list) list \<Rightarrow> range32 \<Rightarrow> allocations \<Rightarrow> alloc_error + (range32 \<times> allocations)" where
  "allocate_tasks mpu region t_reqs avail allocs =
     (if t_reqs = [] then Inr (avail, allocs)
      else ebind (find_best mpu (fst avail) t_reqs match_init) (\<lambda>best.
        case swap_remove (m_name best) t_reqs of
          None \<Rightarrow> Inl Panicked
        | Some (sizes, t_reqs') \<Rightarrow>
            let sizes = (case m_dir best of Forward \<Rightarrow> sizes | Reverse \<Rightarrow> rev sizes) in
            ebind (add32 (fst avail) (m_gap best)) (\<lambda>start.
            ebind (place_chunks mpu (m_name best) region sizes (start, snd avail) allocs) (\<lambda>(avail', allocs').
            ebind (check_ranges mpu None (ranges_of allocs' (m_name best) region)) (\<lambda>_.
            allocate_tasks mpu region t_reqs' avail' allocs')))))"
  by pat_completeness auto
termination
  by (relation "measure (\<lambda>(mpu, region, t_reqs, avail, allocs). length t_reqs)")
    (auto dest: swap_remove_length)

declare allocate_tasks.simps [simp del]

definition allocate_region :: "MpuAlignment \<Rightarrow> string \<Rightarrow> u32 option \<Rightarrow> (string \<times> u32 list) list \<Rightarrow> range32 \<Rightarrow> allocations
    \<Rightarrow> alloc_error + (range32 \<times> allocations)" where
  "allocate_region mpu region k_req t_reqs avail allocs =
     ebind (case k_req of
              None \<Rightarrow> Inr (avail, allocs)
            | Some sz \<Rightarrow> ebind (allocate_k sz avail) (\<lambda>(r, avail').
                Inr (avail', allocs\<lparr>al_kernel := btree_insert region r (al_kernel allocs)\<rparr>)))
       (\<lambda>(avail, allocs). allocate_tasks mpu region t_reqs avail allocs)"

subsection \<open>All memories of all images\<close>

text \<open>
  The parts of the application's configuration that the allocator and the kernel configuration
  read. The target is given by its \<^verbatim>\<open>MpuAlignment\<close>.
\<close>

record Output =
  out_name :: string
  out_address :: u32
  out_size :: u32
  out_read :: bool
  out_write :: bool
  out_execute :: bool
  out_dma :: bool

record Peripheral =
  p_address :: u32
  p_size :: u32
  p_interrupts :: "(string \<times> u32) list"

record TaskToml =
  tt_priority :: u8
  tt_stacksize :: "u32 option"
  tt_start :: bool
  tt_uses :: "string list"
  tt_features :: "string list"
  tt_notifications :: "string list"
  tt_extern_regions :: "string list"
  tt_task_slots :: "(string \<times> string) list"
  tt_interrupts :: "(string \<times> string) list"
  tt_max_sizes :: "(string \<times> u32) list"

record CabooseConfig =
  cc_tasks :: "string list"
  cc_region :: string
  cc_size :: u32

record Config =
  image_names :: "string list"
  cfg_mpu :: MpuAlignment
  cfg_stacksize :: "u32 option"
  kernel_requires :: "(string \<times> u32) list"
  kernel_features :: "string list"
  outputs :: "(string \<times> Output list) list"
  cfg_tasks :: "(string \<times> TaskToml) list"
  peripherals :: "(string \<times> Peripheral) list"
  extratext :: "(string \<times> Peripheral) list"
  cfg_caboose :: "CabooseConfig option"

record TaskRequest =
  req_memory :: "(string \<times> nat) list"
  spare_regions :: nat

text \<open>\<^verbatim>\<open>Config::memories\<close>: the one output of every memory for the image.\<close>

definition memory_of :: "string \<Rightarrow> string \<times> Output list \<Rightarrow> alloc_error + (string \<times> range32)" where
  "memory_of image_name x =
     (case filter (\<lambda>r. out_name r = image_name) (snd x) of
        [r] \<Rightarrow> (case checked_add (out_address r) (out_size r) of
                  None \<Rightarrow> Inl BadMemory
                | Some e \<Rightarrow> Inr (fst x, (out_address r, e)))
      | _ \<Rightarrow> Inl BadMemory)"

fun collect :: "('a \<Rightarrow> 'e + 'b) \<Rightarrow> 'a list \<Rightarrow> 'e + 'b list" where
  "collect f [] = Inr []"
| "collect f (x # xs) = ebind (f x) (\<lambda>y. ebind (collect f xs) (\<lambda>ys. Inr (y # ys)))"

definition memories :: "Config \<Rightarrow> string \<Rightarrow> alloc_error + (string \<times> range32) list" where
  "memories toml image_name = collect (memory_of image_name) (outputs toml)"

fun to_deque :: "u32 list \<Rightarrow> nat list \<Rightarrow> alloc_error + u32 list" where
  "to_deque bs [] = Inr bs"
| "to_deque bs (b # bytes) =
     (if b < 2 ^ 32 then ebind (push_back (word_of_nat b) bs) (\<lambda>bs. to_deque bs bytes) else Inl Panicked)"

type_synonym requests = "(string \<times> (string \<times> u32 list) list) list"

definition requests_in :: "requests \<Rightarrow> string \<Rightarrow> (string \<times> u32 list) list" where
  "requests_in reqs mem = (case map_of reqs mem of None \<Rightarrow> [] | Some ts \<Rightarrow> ts)"

definition add_request :: "MpuAlignment \<Rightarrow> string \<Rightarrow> TaskToml \<Rightarrow> nat \<Rightarrow> string \<times> nat \<Rightarrow> requests \<Rightarrow> alloc_error + requests" where
  "add_request mpu name task spare x reqs =
     (let mem = fst x; amt = snd x; n = (if mem = ''flash'' then spare + 1 else 1) in
      ebind (suggest_memory_region_size mpu name amt n) (\<lambda>bytes.
      ebind (case map_of (tt_max_sizes task) mem of
               None \<Rightarrow> Inr ()
             | Some r \<Rightarrow> ebind (in64 (sum_list bytes)) (\<lambda>total_bytes.
                 if unat r < total_bytes then Inl OverMaxSize else Inr ())) (\<lambda>_.
      ebind (to_deque [] bytes) (\<lambda>bs.
      Inr (btree_insert mem (index_map_insert name bs (requests_in reqs mem)) reqs)))))"

fun add_requests :: "MpuAlignment \<Rightarrow> string \<Rightarrow> TaskToml \<Rightarrow> nat \<Rightarrow> (string \<times> nat) list \<Rightarrow> requests \<Rightarrow> alloc_error + requests" where
  "add_requests mpu name task spare [] reqs = Inr reqs"
| "add_requests mpu name task spare (x # xs) reqs =
     ebind (add_request mpu name task spare x reqs) (\<lambda>reqs. add_requests mpu name task spare xs reqs)"

fun task_requests :: "MpuAlignment \<Rightarrow> (string \<times> TaskRequest) list \<Rightarrow> (string \<times> TaskToml) list \<Rightarrow> requests \<Rightarrow> alloc_error + requests" where
  "task_requests mpu task_sizes [] reqs = Inr reqs"
| "task_requests mpu task_sizes ((name, task) # tasks) reqs =
     (case map_of task_sizes name of
        None \<Rightarrow> Inl Panicked
      | Some req \<Rightarrow>
          ebind (add_requests mpu name task (spare_regions req) (req_memory req) reqs)
            (\<lambda>reqs. task_requests mpu task_sizes tasks reqs))"

fun allocate_regions :: "MpuAlignment \<Rightarrow> (string \<times> u32) list \<Rightarrow> requests \<Rightarrow> (string \<times> range32) list \<Rightarrow> allocations
    \<Rightarrow> alloc_error + ((string \<times> range32) list \<times> allocations)" where
  "allocate_regions mpu kernel_requests reqs [] allocs = Inr ([], allocs)"
| "allocate_regions mpu kernel_requests reqs ((region, avail) # free) allocs =
     ebind (allocate_region mpu region (map_of kernel_requests region) (requests_in reqs region) avail allocs)
       (\<lambda>(avail', allocs). ebind (allocate_regions mpu kernel_requests reqs free allocs)
         (\<lambda>(free', allocs). Inr ((region, avail') # free', allocs)))"

definition place_caboose :: "Config \<Rightarrow> CabooseConfig \<Rightarrow> (string \<times> range32) list \<Rightarrow> allocations
    \<Rightarrow> alloc_error + ((string \<times> range32) list \<times> allocations)" where
  "place_caboose toml caboose free allocs =
     (if ''caboose'' \<in> set (map fst (cfg_tasks toml)) then Inl CabooseTask
      else if \<not> is_power_of_two (cc_size caboose) then Inl CabooseSize
      else (case map_of free (cc_region caboose) of
              None \<Rightarrow> Inl NoCabooseRegion
            | Some avail \<Rightarrow>
                ebind (memory_region_alignment (cfg_mpu toml) (cc_size caboose)) (\<lambda>align.
                ebind (allocate_one (cc_size caboose) align avail) (\<lambda>(r, avail').
                Inr (index_map_insert (cc_region caboose) avail' free,
                     allocs\<lparr>al_caboose := Some (cc_region caboose, r)\<rparr>)))))"

definition allocate_image :: "Config \<Rightarrow> (string \<times> TaskRequest) list \<Rightarrow> CabooseConfig option \<Rightarrow> string
    \<Rightarrow> alloc_error + (allocations \<times> (string \<times> range32) list)" where
  "allocate_image toml task_sizes caboose image_name =
     ebind (memories toml image_name) (\<lambda>free.
     ebind (task_requests (cfg_mpu toml) task_sizes (cfg_tasks toml) []) (\<lambda>reqs.
     ebind (allocate_regions (cfg_mpu toml) (kernel_requires toml) reqs free
              \<lparr>al_kernel = [], al_tasks = [], al_caboose = None\<rparr>) (\<lambda>(free, allocs).
     ebind (case caboose of None \<Rightarrow> Inr (free, allocs) | Some c \<Rightarrow> place_caboose toml c free allocs) (\<lambda>(free, allocs).
     Inr (allocs, free)))))"

fun allocate_images :: "Config \<Rightarrow> (string \<times> TaskRequest) list \<Rightarrow> CabooseConfig option \<Rightarrow> string list
    \<Rightarrow> (string \<times> (allocations \<times> (string \<times> range32) list)) list
    \<Rightarrow> alloc_error + (string \<times> (allocations \<times> (string \<times> range32) list)) list" where
  "allocate_images toml task_sizes caboose [] result = Inr result"
| "allocate_images toml task_sizes caboose (image_name # names) result =
     ebind (allocate_image toml task_sizes caboose image_name)
       (\<lambda>x. allocate_images toml task_sizes caboose names (btree_insert image_name x result))"

definition allocate_all where
  "allocate_all toml task_sizes caboose = allocate_images toml task_sizes caboose (image_names toml) []"

end
