(* ===== verification/Build_Image.thy ===== *)
theory Build_Image
  imports Build_Alloc Build_Kconfig
begin

section \<open>From the application's configuration to the kernel's\<close>

text \<open>
  The steps of \<^verbatim>\<open>build/xtask/src/dist.rs\<close> around the allocator: the number of regions each task may
  use, the checks of priorities and of the dump configuration, \<^verbatim>\<open>make_kconfig\<close>, which turns an
  allocation into the configuration the kernel's build script reads (\<open>Build_Kconfig\<close>), and the
  resolution of task slots. Sizes of tasks, entry points and the task slots found in a linked
  task are arguments: they come from the linker.
\<close>

datatype image_error = RegionInUse | BadPeripheral | BadEntryPoint | NoSuchTask | BadExternRegion | TwoRegions | NotPowerOfTwo
  | BadInterrupt | BadNotification | BadTaskSlot | PriorityInversion | BadPriority | BadDumpConfig | ImagePanic

subsection \<open>Memory for other parties\<close>

text \<open>The output of a memory for an image; the loops over it stop at a second one.\<close>

definition output_for :: "image_error \<Rightarrow> Config \<Rightarrow> string \<Rightarrow> string \<Rightarrow> image_error + Output" where
  "output_for missing toml image_name r =
     (case map_of (outputs toml) r of
        None \<Rightarrow> Inl missing
      | Some os \<Rightarrow>
          (case filter (\<lambda>q. out_name q = image_name) os of
             [] \<Rightarrow> Inl ImagePanic
           | [q] \<Rightarrow> Inr q
           | _ \<Rightarrow> Inl TwoRegions))"

fun extern_ranges :: "Config \<Rightarrow> string \<Rightarrow> string list \<Rightarrow> (string \<times> range32) list \<Rightarrow> image_error + (string \<times> range32) list" where
  "extern_ranges toml image_name [] acc = Inr acc"
| "extern_ranges toml image_name (r # rs) acc =
     ebind (output_for BadExternRegion toml image_name r) (\<lambda>out.
       case checked_add (out_address out) (out_size out) of
         None \<Rightarrow> Inl ImagePanic
       | Some e \<Rightarrow> extern_ranges toml image_name rs (index_map_insert r (out_address out, e) acc))"

definition extern_regions_for :: "Config \<Rightarrow> string \<Rightarrow> string \<Rightarrow> image_error + (string \<times> range32) list" where
  "extern_regions_for toml name image_name =
     (case map_of (cfg_tasks toml) name of
        None \<Rightarrow> Inl NoSuchTask
      | Some task \<Rightarrow> extern_ranges toml image_name (tt_extern_regions task) [])"

text \<open>A task may use eight regions, one of which is the null region.\<close>

definition caboose_user :: "Config \<Rightarrow> string \<Rightarrow> bool" where
  "caboose_user toml name \<longleftrightarrow> (case cfg_caboose toml of None \<Rightarrow> False | Some c \<Rightarrow> name \<in> set (cc_tasks c))"

definition make_request :: "Config \<Rightarrow> string \<Rightarrow> (string \<times> nat) list \<Rightarrow> image_error + TaskRequest" where
  "make_request toml t sz =
     (case image_names toml of [] \<Rightarrow> Inl ImagePanic | image_name # _ \<Rightarrow>
      (case extern_regions_for toml t image_name of Inl _ \<Rightarrow> Inl ImagePanic | Inr ext \<Rightarrow>
       (case map_of (cfg_tasks toml) t of None \<Rightarrow> Inl ImagePanic | Some task \<Rightarrow>
        let n = length sz + length ext + length (tt_uses task) + (if caboose_user toml t then 1 else 0) in
        if 7 < n then Inl ImagePanic else Inr \<lparr>req_memory = sz, spare_regions = 7 - n\<rparr>)))"

fun make_requests :: "Config \<Rightarrow> (string \<times> (string \<times> nat) list) list \<Rightarrow> image_error + (string \<times> TaskRequest) list" where
  "make_requests toml [] = Inr []"
| "make_requests toml ((t, sz) # task_sizes) =
     ebind (make_request toml t sz) (\<lambda>req. ebind (make_requests toml task_sizes) (\<lambda>reqs. Inr ((t, req) # reqs)))"

subsection \<open>Checks of the configuration\<close>

text \<open>
  Every memory with the names of those that have an allocation in it; a memory in use cannot be
  handed out as an external region.
\<close>

definition allocation_regions :: "allocations \<Rightarrow> (string \<times> string list) list" where
  "allocation_regions allocs =
     fold (\<lambda>(region, name) out. btree_insert region ((case map_of out region of None \<Rightarrow> [] | Some v \<Rightarrow> v) @ [name]) out)
       (map (\<lambda>(k, _). (k, ''kernel'')) (al_kernel allocs)
        @ concat (map (\<lambda>(t, v). map (\<lambda>(k, _). (k, t)) v) (al_tasks allocs))
        @ (case al_caboose allocs of None \<Rightarrow> [] | Some (r, _) \<Rightarrow> [(r, ''caboose'')])) []"

definition check_extern_regions :: "Config \<Rightarrow> allocations \<Rightarrow> image_error + unit" where
  "check_extern_regions toml allocs =
     (let alloc_regions = allocation_regions allocs in
      if list_ex (\<lambda>(task_name, task). list_ex (\<lambda>r. map_of alloc_regions r \<noteq> None) (tt_extern_regions task)) (cfg_tasks toml)
      then Inl RegionInUse else Inr ())"

fun check_slots :: "Config \<Rightarrow> string \<Rightarrow> TaskToml \<Rightarrow> string list \<Rightarrow> image_error + unit" where
  "check_slots toml name task [] = Inr ()"
| "check_slots toml name task (callee # callees) =
     (case map_of (cfg_tasks toml) callee of
        None \<Rightarrow> Inl BadTaskSlot
      | Some t \<Rightarrow>
          if tt_priority task \<le> tt_priority t \<and> name \<noteq> callee then Inl PriorityInversion
          else check_slots toml name task callees)"

fun check_priorities :: "Config \<Rightarrow> u8 \<Rightarrow> nat \<Rightarrow> (string \<times> TaskToml) list \<Rightarrow> image_error + unit" where
  "check_priorities toml idle_priority i [] = Inr ()"
| "check_priorities toml idle_priority i ((name, task) # rest) =
     ebind (check_slots toml name task (map snd (tt_task_slots task))) (\<lambda>_.
       if idle_priority \<le> tt_priority task \<and> name \<noteq> ''idle'' then Inl BadPriority
       else if i = 0 \<and> tt_priority task \<noteq> 0 then Inl BadPriority
       else if i \<noteq> 0 \<and> tt_priority task = 0 then Inl BadPriority
       else check_priorities toml idle_priority (Suc i) rest)"

definition check_task_priorities :: "Config \<Rightarrow> image_error + unit" where
  "check_task_priorities toml =
     (case map_of (cfg_tasks toml) ''idle'' of
        None \<Rightarrow> Inl ImagePanic
      | Some idle \<Rightarrow> check_priorities toml (tt_priority idle) 0 (cfg_tasks toml))"

definition check_dump_config :: "Config \<Rightarrow> image_error + unit" where
  "check_dump_config toml =
     (let dump_support = ''dump'' \<in> set (kernel_features toml) in
      case map_of (cfg_tasks toml) ''dump_agent'' of
        Some task \<Rightarrow>
          if tt_extern_regions task = [] then Inl BadDumpConfig
          else if map_of (tt_task_slots task) ''jefe'' = None then Inl BadDumpConfig
          else (case map_of (cfg_tasks toml) ''jefe'' of
                  None \<Rightarrow> Inl BadDumpConfig
                | Some jefe \<Rightarrow>
                    if ''dump'' \<notin> set (tt_features jefe) then Inl BadDumpConfig
                    else if \<not> dump_support then Inl BadDumpConfig
                    else if \<not> set (tt_extern_regions task) \<subseteq> set (tt_extern_regions jefe) then Inl BadDumpConfig
                    else Inr ())
      | None \<Rightarrow> if dump_support then Inl BadDumpConfig else Inr ())"

text \<open>The index that is written into a task slot of a linked task.\<close>

definition resolve_task_slot :: "Config \<Rightarrow> string \<Rightarrow> string \<Rightarrow> image_error + u16" where
  "resolve_task_slot toml task_name slot_name =
     (case map_of (cfg_tasks toml) task_name of None \<Rightarrow> Inl ImagePanic | Some task \<Rightarrow>
      (case map_of (tt_task_slots task) slot_name of None \<Rightarrow> Inl BadTaskSlot | Some target \<Rightarrow>
       (case get_index_of target (cfg_tasks toml) of None \<Rightarrow> Inl BadTaskSlot | Some i \<Rightarrow> Inr (word_of_nat i))))"

subsection \<open>The kernel's configuration\<close>

definition cfg_attrs :: "bool \<Rightarrow> bool \<Rightarrow> bool \<Rightarrow> SpecialRole option \<Rightarrow> RegionAttributes" where
  "cfg_attrs r w x role = \<lparr>attr_read = r, attr_write = w, attr_execute = x, special_role = role\<rparr>"

fun add_shared :: "bool \<Rightarrow> RegionAttributes \<Rightarrow> (string \<times> Peripheral) list \<Rightarrow> (string \<times> RegionConfig) list
    \<Rightarrow> image_error + (string \<times> RegionConfig) list" where
  "add_shared p2_required atts [] flat = Inr flat"
| "add_shared p2_required atts ((name, p) # ps) flat =
     (if p2_required \<and> \<not> is_power_of_two (p_size p) then Inl BadPeripheral
      else add_shared p2_required atts ps
        (btree_insert name \<lparr>rc_base = p_address p, rc_size = p_size p, rc_attributes = atts\<rparr> flat))"

definition flat_shared :: "Config \<Rightarrow> (string \<times> u32) list \<Rightarrow> image_error + (string \<times> RegionConfig) list" where
  "flat_shared toml entry_points =
     (let p2_required = (cfg_mpu toml = PowerOfTwo) in
      ebind (add_shared p2_required (cfg_attrs True True False (Some RoleDevice)) (peripherals toml) []) (\<lambda>flat.
      ebind (add_shared p2_required (cfg_attrs True False True None) (extratext toml) flat) (\<lambda>flat.
      case cfg_caboose toml of
        None \<Rightarrow> Inr flat
      | Some c \<Rightarrow>
          (case map_of entry_points ''caboose'' of
             None \<Rightarrow> Inl ImagePanic
           | Some base \<Rightarrow> Inr (btree_insert ''caboose''
               \<lparr>rc_base = base, rc_size = cc_size c, rc_attributes = cfg_attrs True False False None\<rparr> flat)))))"

definition push_owned :: "string \<Rightarrow> u32 \<Rightarrow> u32 \<Rightarrow> RegionAttributes \<Rightarrow> (string \<times> MultiRegionConfig) list \<Rightarrow> (string \<times> MultiRegionConfig) list" where
  "push_owned name base sz atts owned = btree_insert name
     (case map_of owned name of
        None \<Rightarrow> \<lparr>mrc_base = base, mrc_sizes = [sz], mrc_attributes = atts\<rparr>
      | Some r \<Rightarrow> r\<lparr>mrc_sizes := mrc_sizes r @ [sz]\<rparr>) owned"

fun add_owned :: "Config \<Rightarrow> string \<Rightarrow> (string \<times> range32) list \<Rightarrow> (string \<times> MultiRegionConfig) list
    \<Rightarrow> image_error + (string \<times> MultiRegionConfig) list" where
  "add_owned toml image_name [] owned = Inr owned"
| "add_owned toml image_name ((name, r) # rs) owned =
     ebind (output_for ImagePanic toml image_name name) (\<lambda>out.
       if snd r < fst r then Inl ImagePanic
       else if cfg_mpu toml = PowerOfTwo \<and> \<not> is_power_of_two (snd r - fst r) then Inl NotPowerOfTwo
       else add_owned toml image_name rs (push_owned name (fst r) (snd r - fst r)
         (cfg_attrs (out_read out) (out_write out) (out_execute out) (if out_dma out then Some RoleDma else None)) owned))"

text \<open>Interrupts are named \<^verbatim>\<open>peripheral.interrupt\<close>.\<close>

definition irq_number :: "Config \<Rightarrow> string \<Rightarrow> image_error + u32" where
  "irq_number toml irq_str =
     (if CHR ''.'' \<in> set irq_str then
        (let pname = takeWhile (\<lambda>c. c \<noteq> CHR ''.'') irq_str; iname = tl (dropWhile (\<lambda>c. c \<noteq> CHR ''.'') irq_str) in
         case map_of (peripherals toml) pname of
           None \<Rightarrow> Inl BadInterrupt
         | Some periph \<Rightarrow> (case map_of (p_interrupts periph) iname of None \<Rightarrow> Inl BadInterrupt | Some n \<Rightarrow> Inr n))
      else Inl BadInterrupt)"

fun position :: "'a \<Rightarrow> 'a list \<Rightarrow> nat option" where
  "position x [] = None"
| "position x (y # ys) = (if y = x then Some 0 else map_option Suc (position x ys))"

definition notification_bit :: "TaskToml \<Rightarrow> string \<Rightarrow> image_error + nat" where
  "notification_bit task name =
     (case position name (tt_notifications task) of
        None \<Rightarrow> Inl BadNotification
      | Some i \<Rightarrow> if i < 32 then Inr i else Inl BadNotification)"

definition toml_notification_mask :: "TaskToml \<Rightarrow> string \<Rightarrow> image_error + u32" where
  "toml_notification_mask task name = ebind (notification_bit task name) (\<lambda>i. Inr (push_bit i 1))"

definition ends_with :: "string \<Rightarrow> string \<Rightarrow> bool" where
  "ends_with s t \<longleftrightarrow> length t \<le> length s \<and> drop (length s - length t) s = t"

fun add_irqs :: "Config \<Rightarrow> nat \<Rightarrow> TaskToml \<Rightarrow> (string \<times> string) list \<Rightarrow> (u32 \<times> InterruptConfig) list
    \<Rightarrow> image_error + (u32 \<times> InterruptConfig) list" where
  "add_irqs toml i task [] irqs = Inr irqs"
| "add_irqs toml i task ((irq_str, notification) # rest) irqs =
     ebind (irq_number toml irq_str) (\<lambda>irq_num.
       if \<not> ends_with notification ''-irq'' then Inl BadNotification
       else ebind (toml_notification_mask task notification) (\<lambda>m.
         add_irqs toml i task rest (btree_insert irq_num \<lparr>ic_task_index = i, ic_notification = m\<rparr> irqs)))"

text \<open>The ranges of a task in all memories, in the order of the map of allocations.\<close>

definition flat_ranges :: "(string \<times> range32 list) list \<Rightarrow> (string \<times> range32) list" where
  "flat_ranges ms = concat (map (\<lambda>(name, rs). map (\<lambda>r. (name, r)) rs) ms)"

definition task_shared :: "Config \<Rightarrow> string \<Rightarrow> TaskToml \<Rightarrow> string list" where
  "task_shared toml name task = sort (remdups (tt_uses task @ (if caboose_user toml name then [''caboose''] else [])))"

definition kconfig_task :: "Config \<Rightarrow> (string \<times> (string \<times> range32 list) list) list \<Rightarrow> (string \<times> u32) list \<Rightarrow> string
    \<Rightarrow> string \<Rightarrow> TaskToml \<Rightarrow> image_error + TaskConfig" where
  "kconfig_task toml task_allocations entry_points image_name name task =
     (case (case tt_stacksize task of Some s \<Rightarrow> Some s | None \<Rightarrow> cfg_stacksize toml) of None \<Rightarrow> Inl ImagePanic | Some stacksize \<Rightarrow>
      (case map_of task_allocations name of None \<Rightarrow> Inl ImagePanic | Some ms \<Rightarrow>
      (case map_of ms ''flash'' of None \<Rightarrow> Inl ImagePanic | Some flash \<Rightarrow>
      (case map_of entry_points name of None \<Rightarrow> Inl ImagePanic | Some entry \<Rightarrow>
       if flash = [] then Inl ImagePanic
       else if \<not> (fst (hd flash) \<le> entry \<and> entry < snd (last flash)) then Inl BadEntryPoint
       else ebind (extern_regions_for toml name image_name) (\<lambda>ext.
            ebind (add_owned toml image_name (flat_ranges ms @ ext) []) (\<lambda>owned.
            Inr \<lparr>owned_regions = owned, tc_shared_regions = task_shared toml name task,
              tc_entry_point = \<lparr>oa_region_name = ''flash'', oa_offset = entry - fst (hd flash)\<rparr>,
              tc_initial_stack = \<lparr>oa_region_name = ''ram'', oa_offset = stacksize\<rparr>,
              tc_priority = tt_priority task, start_at_boot = tt_start task\<rparr>))))))"

fun kconfig_tasks :: "Config \<Rightarrow> (string \<times> (string \<times> range32 list) list) list \<Rightarrow> (string \<times> u32) list \<Rightarrow> string \<Rightarrow> nat
    \<Rightarrow> (string \<times> TaskToml) list \<Rightarrow> (u32 \<times> InterruptConfig) list \<Rightarrow> image_error + (TaskConfig list \<times> (u32 \<times> InterruptConfig) list)" where
  "kconfig_tasks toml task_allocations entry_points image_name i [] irqs = Inr ([], irqs)"
| "kconfig_tasks toml task_allocations entry_points image_name i ((name, task) # rest) irqs =
     ebind (kconfig_task toml task_allocations entry_points image_name name task) (\<lambda>t.
     ebind (add_irqs toml i task (tt_interrupts task) irqs) (\<lambda>irqs.
     ebind (kconfig_tasks toml task_allocations entry_points image_name (Suc i) rest irqs) (\<lambda>(ts, irqs).
     Inr (t # ts, irqs))))"

definition used_shared :: "Config \<Rightarrow> string list" where
  "used_shared toml = concat (map (\<lambda>(name, task). task_shared toml name task) (cfg_tasks toml))"

definition make_kconfig :: "Config \<Rightarrow> (string \<times> (string \<times> range32 list) list) list \<Rightarrow> (string \<times> u32) list \<Rightarrow> string
    \<Rightarrow> image_error + KernelConfig" where
  "make_kconfig toml task_allocations entry_points image_name =
     ebind (flat_shared toml entry_points) (\<lambda>flat.
     ebind (kconfig_tasks toml task_allocations entry_points image_name 0 (cfg_tasks toml) []) (\<lambda>(ts, irqs).
     Inr \<lparr>kc_tasks = ts, kc_shared_regions = filter (\<lambda>(name, r). name \<in> set (used_shared toml)) flat, kc_irqs = irqs\<rparr>))"

end
