(* ===== verification/Build_Sizes.thy ===== *)
theory Build_Sizes
  imports Build_Alloc
begin

section \<open>The region sizes suggested for an amount\<close>

text \<open>
  \<^verbatim>\<open>suggest_memory_region_size\<close> covers an amount by a descending list of powers of two, each of
  at least 32 bytes, no longer than the number of regions that may be used, and no larger in
  total than one region would be.
\<close>

named_theorems err_simps \<open>steps of the error monad and checked arithmetic\<close>

lemma ebind_simps [err_simps, simp]: "ebind (Inr x) f = f x" "ebind (Inl e) f = Inl e"
  by (simp_all add: ebind_def)

lemma add32_Inr: "unat a + unat b < 2 ^ 32 \<Longrightarrow> add32 a b = Inr (a + b)"
  by (simp add: add32_def)

lemma sub32_Inr: "b \<le> a \<Longrightarrow> sub32 a b = Inr (a - b)"
  by (simp add: sub32_def)

subsection \<open>Powers of two\<close>

definition pow2 :: "nat \<Rightarrow> bool" where
  "pow2 x \<longleftrightarrow> (\<exists>k. x = 2 ^ k)"

lemma pow2_pos: "pow2 x \<Longrightarrow> 0 < x"
  by (auto simp: pow2_def)

lemma pow2_dvd: "pow2 x \<Longrightarrow> pow2 y \<Longrightarrow> x \<le> y \<Longrightarrow> x dvd y"
  by (auto simp: pow2_def le_imp_power_dvd)

lemma pow2_less: "pow2 x \<Longrightarrow> pow2 y \<Longrightarrow> x < y \<Longrightarrow> 2 * x \<le> y"
proof -
  assume "pow2 x" "pow2 y" "x < y"
  then obtain i j where "x = 2 ^ i" "y = 2 ^ j" "i < j" by (auto simp: pow2_def)
  then show ?thesis using power_increasing [of "Suc i" j "2 :: nat"] by simp
qed

lemma pow2_double [simp]: "pow2 (x * 2) \<longleftrightarrow> pow2 x \<or> False"
proof
  assume "pow2 (x * 2)"
  then obtain k where k: "x * 2 = 2 ^ k" by (auto simp: pow2_def)
  then show "pow2 x \<or> False" by (cases k) (auto simp: pow2_def)
next
  assume "pow2 x \<or> False"
  then obtain k where "x = 2 ^ k" by (auto simp: pow2_def)
  then have "x * 2 = 2 ^ Suc k" by simp
  then show "pow2 (x * 2)" unfolding pow2_def by blast
qed

lemma pow2_half: "pow2 x \<Longrightarrow> 2 \<le> x \<Longrightarrow> pow2 (x div 2) \<and> 2 * (x div 2) = x"
proof -
  assume "pow2 x" "2 \<le> x"
  then obtain k where "x = 2 ^ k" by (auto simp: pow2_def)
  with \<open>2 \<le> x\<close> show ?thesis by (cases k) (auto simp: pow2_def)
qed

lemma pow2_32 [simp]: "pow2 32"
  unfolding pow2_def by (rule exI [of _ 5]) simp

lemma pow2_least:
  assumes "n = 0 \<or> 2 ^ (n - 1) < x"
  shows "pow2 (2 ^ n) \<and> (\<forall>q. pow2 q \<longrightarrow> x \<le> q \<longrightarrow> 2 ^ n \<le> q)"
proof -
  have "2 ^ n \<le> q" if q: "pow2 q" "x \<le> q" for q :: nat
  proof -
    obtain j where j: "q = 2 ^ j" using q(1) by (auto simp: pow2_def)
    have "n \<le> j"
    proof (rule ccontr)
      assume "\<not> n \<le> j"
      then have "2 ^ j \<le> (2 :: nat) ^ (n - 1)" "n \<noteq> 0" by (auto intro: power_increasing)
      with assms q(2) j show False by linarith
    qed
    then show ?thesis by (simp add: j)
  qed
  then show ?thesis by (auto simp: pow2_def)
qed

lemma least_power_Some:
  assumes "x \<le> 2 ^ (k + n)" "n = 0 \<or> 2 ^ (n - 1) < x"
  shows "\<exists>p. least_power (Suc k) (2 ^ n) x = Some p \<and> pow2 p \<and> x \<le> p \<and> (\<forall>q. pow2 q \<longrightarrow> x \<le> q \<longrightarrow> p \<le> q)"
  using assms
proof (induction k arbitrary: n)
  case (Suc k)
  show ?case
  proof (cases "x \<le> 2 ^ n")
    case False
    with Suc.prems(1) obtain p where "least_power (Suc k) (2 ^ Suc n) x = Some p" "pow2 p" "x \<le> p" "\<forall>q. pow2 q \<longrightarrow> x \<le> q \<longrightarrow> p \<le> q"
      using Suc.IH [of "Suc n"] by auto
    with False show ?thesis by (simp add: least_power.simps [of "Suc (Suc k)"])
  qed (use Suc.prems(2) in \<open>simp add: least_power.simps [of "Suc (Suc k)"] pow2_least\<close>)
qed (simp add: least_power.simps [of "Suc 0"] pow2_least)

lemma next_power_of_two_Inr:
  assumes "x \<le> 2 ^ 63"
  shows "\<exists>p. next_power_of_two x = Inr p \<and> pow2 p \<and> x \<le> p \<and> (\<forall>q. pow2 q \<longrightarrow> x \<le> q \<longrightarrow> p \<le> q)"
  using least_power_Some [of x 63 0] assms by (auto simp: next_power_of_two_def)

subsection \<open>Suggested sizes\<close>

definition regions_ok :: "nat list \<Rightarrow> bool" where
  "regions_ok out \<longleftrightarrow> out \<noteq> [] \<and> (\<forall>s \<in> set out. pow2 s \<and> 32 \<le> s) \<and> sorted_wrt (\<ge>) out"

text \<open>All but the last two sizes differ strictly before the split.\<close>

definition steep :: "nat list \<Rightarrow> bool" where
  "steep out \<longleftrightarrow> regions_ok out \<and> sorted_wrt (>) (butlast out)"

text \<open>
  What the first loop has taken of an amount: \<open>q\<close> stands for any size of which two cover the
  amount, in particular half of the next power of two.
\<close>

definition taken :: "nat \<Rightarrow> nat \<Rightarrow> nat list \<Rightarrow> nat \<Rightarrow> bool" where
  "taken n sz out left \<longleftrightarrow> steep out \<and> length out \<le> n
     \<and> (left = 0 \<longrightarrow> sz \<le> sum_list out)
     \<and> (0 < left \<longrightarrow> sum_list out + left = sz \<and> sorted_wrt (>) out \<and> left \<le> last out)
     \<and> (\<forall>q. pow2 q \<longrightarrow> 32 \<le> q \<longrightarrow> sz \<le> 2 * q \<longrightarrow>
          hd out \<le> q \<and> sum_list out + (if 0 < left then last out else 0) \<le> 2 * q)"

lemma sorted_wrt_ge_hd: "sorted_wrt (\<ge>) xs \<Longrightarrow> x \<in> set xs \<Longrightarrow> x \<le> (hd xs :: nat)"
  by (cases xs) auto

lemma regions_ok_Cons:
  "pow2 s \<Longrightarrow> 32 \<le> s \<Longrightarrow> regions_ok out \<Longrightarrow> hd out \<le> s \<Longrightarrow> regions_ok (s # out)"
  by (auto simp: regions_ok_def dest: sorted_wrt_ge_hd)

lemma steep_Cons:
  assumes "pow2 s" "32 \<le> s" "steep out" "hd out < s"
  shows "steep (s # out)" and "sorted_wrt (>) out \<Longrightarrow> sorted_wrt (>) (s # out)"
proof -
  have "\<forall>x \<in> set out. x < s"
    using assms(3,4) sorted_wrt_ge_hd [of out] by (fastforce simp: steep_def regions_ok_def)
  then show "steep (s # out)" "sorted_wrt (>) out \<Longrightarrow> sorted_wrt (>) (s # out)"
    using assms regions_ok_Cons [of s out] by (auto simp: steep_def dest: in_set_butlastD)
qed

lemma steep_single: "pow2 s \<Longrightarrow> 32 \<le> s \<Longrightarrow> steep [s]"
  by (simp add: steep_def regions_ok_def)

lemma first_region:
  assumes "sz \<le> 2 ^ 63"
  shows "\<exists>p s. next_power_of_two sz = Inr p \<and> s = max (p div 2) MIN_MPU_REGION_SIZE \<and> pow2 s \<and> 32 \<le> s
    \<and> sz - s \<le> s \<and> (sz \<le> 32 \<longrightarrow> s = 32) \<and> (\<forall>q. pow2 q \<longrightarrow> 32 \<le> q \<longrightarrow> sz \<le> 2 * q \<longrightarrow> s \<le> q)"
proof -
  obtain p where p: "next_power_of_two sz = Inr p" "pow2 p" "sz \<le> p" "\<forall>q. pow2 q \<longrightarrow> sz \<le> q \<longrightarrow> p \<le> q"
    using next_power_of_two_Inr [OF assms] by blast
  define s where s: "s = max (p div 2) MIN_MPU_REGION_SIZE"
  have half: "2 \<le> p \<Longrightarrow> pow2 (p div 2) \<and> 2 * (p div 2) = p" using pow2_half [OF p(2)] by blast
  have "pow2 s" "32 \<le> s" using half by (auto simp: s max_def MIN_MPU_REGION_SIZE_def)
  moreover have "sz - s \<le> s" using half p(3) by (cases "2 \<le> p") (auto simp: s max_def MIN_MPU_REGION_SIZE_def)
  moreover have "s = 32" if "sz \<le> 32"
    using p(4) [rule_format, OF pow2_32 that] by (simp add: s MIN_MPU_REGION_SIZE_def)
  moreover have "s \<le> q" if q: "pow2 q" "32 \<le> q" "sz \<le> 2 * q" for q
    using p(4) [rule_format, of "q * 2"] q by (auto simp: s MIN_MPU_REGION_SIZE_def)
  ultimately show ?thesis using p(1) s by blast
qed

lemma take_regions_ok:
  "sz \<le> 2 ^ 63 \<Longrightarrow> \<exists>out left. take_regions (Suc n) sz = Inr (out, left) \<and> taken (Suc n) sz out left"
proof (induction n arbitrary: sz)
  case 0
  obtain p s where p: "next_power_of_two sz = Inr p" "s = max (p div 2) MIN_MPU_REGION_SIZE" "pow2 s" "32 \<le> s"
      "sz - s \<le> s" "\<forall>q. pow2 q \<longrightarrow> 32 \<le> q \<longrightarrow> sz \<le> 2 * q \<longrightarrow> s \<le> q"
    using first_region [OF 0] by blast
  have "taken 1 sz [s] (sz - s)"
    using p(4,5,6) steep_single [OF p(3,4)] by (force simp: taken_def)
  then show ?case using p(1,2) by (auto simp: Let_def)
next
  case (Suc n)
  obtain p s where p: "next_power_of_two sz = Inr p" "s = max (p div 2) MIN_MPU_REGION_SIZE" "pow2 s" "32 \<le> s"
      "sz - s \<le> s" "\<forall>q. pow2 q \<longrightarrow> 32 \<le> q \<longrightarrow> sz \<le> 2 * q \<longrightarrow> s \<le> q"
    using first_region [OF Suc.prems] by blast
  show ?case
  proof (cases "sz - s = 0")
    case True
    then have "taken (Suc (Suc n)) sz [s] 0"
      using p(4,6) steep_single [OF p(3,4)] by (force simp: taken_def)
    with True show ?thesis using p(1,2) by (auto simp: Let_def)
  next
    case False
    have "sz - s \<le> 2 ^ 63" using Suc.prems by simp
    then obtain out left where o: "take_regions (Suc n) (sz - s) = Inr (out, left)" "taken (Suc n) (sz - s) out left"
      using Suc.IH by blast
    have "taken (Suc (Suc n)) sz (s # out) left"
    proof (cases "s = 32")
      case True
      have "take_regions (Suc n) (sz - s) = Inr ([32], 0)"
      proof -
        have le: "sz - s \<le> 32" using p(5) True by simp
        obtain p' s' where p': "next_power_of_two (sz - s) = Inr p'" "s' = max (p' div 2) MIN_MPU_REGION_SIZE" "s' = 32"
          using first_region [of "sz - s"] Suc.prems le by auto
        then show ?thesis using le by (auto simp: Let_def)
      qed
      with o p(5) True show ?thesis
        by (auto simp: taken_def steep_def regions_ok_def)
    next
      case False
      with p(3,4) have half: "pow2 (s div 2)" "2 * (s div 2) = s" "32 \<le> s div 2"
        using pow2_half [of s] pow2_less [OF pow2_32, of s] by auto
      have b: "hd out \<le> s div 2" "sum_list out + (if 0 < left then last out else 0) \<le> s"
        using o(2) half p(5) by (auto simp: taken_def)
      with p(4) have "hd out < s" by linarith
      with o(2) steep_Cons [OF p(3,4), of out] have st: "steep (s # out)" "0 < left \<longrightarrow> sorted_wrt (>) (s # out)"
        by (auto simp: taken_def)
      moreover have "out \<noteq> []" using o(2) by (auto simp: taken_def steep_def regions_ok_def)
      moreover have "s + (sum_list out + (if 0 < left then last out else 0)) \<le> 2 * q"
        if "pow2 q" "32 \<le> q" "sz \<le> 2 * q" for q using p(6) [rule_format, OF that] b(2) by linarith
      ultimately show ?thesis using o(2) p(6) by (auto simp: taken_def add.assoc split: if_splits)
    qed
    with False o(1) p(1,2) show ?thesis by (auto simp: Let_def)
  qed
qed

lemma cover_rest_ok:
  assumes "taken (Suc n) sz out left" and "sz \<le> 2 ^ 63"
  shows "\<exists>out'. cover_rest out left = Inr out' \<and> steep out' \<and> length out' \<le> Suc n \<and> sz \<le> sum_list out'
    \<and> (\<forall>q. pow2 q \<longrightarrow> 32 \<le> q \<longrightarrow> sz \<le> 2 * q \<longrightarrow> sum_list out' \<le> 2 * q)"
proof (cases "0 < left")
  case True
  have o: "steep out" "out \<noteq> []" using assms(1) by (auto simp: taken_def steep_def regions_ok_def)
  then obtain ys y where ys: "out = ys @ [y]" by (metis rev_exhaust)
  have y: "pow2 y" "32 \<le> y" "sorted_wrt (>) ys" "\<forall>x \<in> set ys. pow2 x \<and> 32 \<le> x \<and> y < x"
    using o True assms(1) by (auto simp: ys taken_def steep_def regions_ok_def sorted_wrt_append)
  then have dbl: "\<forall>x \<in> set ys. y * 2 \<le> x" using pow2_less [of y] by fastforce
  have st: "steep (ys @ [y * 2])"
    using y dbl by (auto simp: steep_def regions_ok_def sorted_wrt_append intro: sorted_wrt_mono_rel [rotated])
  have "pow2 (2 ^ 62)" unfolding pow2_def by (rule exI [of _ 62]) (rule refl)
  then have "sum_list out + last out \<le> 2 * 2 ^ 62"
    using assms True unfolding taken_def by (auto dest!: spec [of _ "2 ^ 62 :: nat"])
  then have "y * 2 < 2 ^ 64" by (simp add: ys)
  then have "cover_rest out left = Inr (ys @ [y * 2])" using True by (simp add: cover_rest_def in64_def ys)
  moreover have "sum_list out + left = sz" "left \<le> y" "length out \<le> Suc n"
      "\<forall>q. pow2 q \<longrightarrow> 32 \<le> q \<longrightarrow> sz \<le> 2 * q \<longrightarrow> sum_list out + y \<le> 2 * q"
    using assms(1) True by (simp_all add: taken_def ys)
  ultimately show ?thesis using st by (intro exI [of _ "ys @ [y * 2]"]) (fastforce simp: ys)
next
  case False
  with assms(1) show ?thesis by (auto simp: cover_rest_def taken_def)
qed

lemma merge_tail_ok:
  assumes "steep (rev out)" and "sum_list out < 2 ^ 64"
  shows "\<exists>out'. merge_tail out = Inr out' \<and> regions_ok (rev out') \<and> length out' \<le> length out \<and> sum_list out' = sum_list out"
  using assms
proof (induction out rule: merge_tail.induct)
  case (1 x y out)
  show ?case
  proof (cases "x = y")
    case True
    have o: "pow2 y" "32 \<le> y" "sorted_wrt (>) (rev out)" "\<forall>z \<in> set out. pow2 z \<and> 32 \<le> z \<and> y < z"
      using "1.prems"(1) True by (auto simp: steep_def regions_ok_def sorted_wrt_append butlast_append)
    then have "\<forall>z \<in> set out. y * 2 \<le> z" using pow2_less [of y] by fastforce
    with o have "steep (rev (y * 2 # out))"
      by (auto simp: steep_def regions_ok_def sorted_wrt_append intro: sorted_wrt_mono_rel [rotated])
    moreover have "y * 2 < 2 ^ 64" using "1.prems"(2) True by simp
    ultimately show ?thesis
      using "1.IH" [of "y * 2"] "1.prems"(2) True by (auto simp: in64_def)
  qed (use "1.prems" in \<open>simp add: steep_def\<close>)
qed (simp_all add: steep_def)

lemma sorted_wrt_ge_replicate: "sorted_wrt (\<ge>) (replicate k (x :: 'a::linorder))"
  by (induction k) simp_all

text \<open>The copies of the first element of an ordered list stand together.\<close>

lemma head_block:
  fixes x :: "'a::linorder"
  assumes "sorted_wrt (\<ge>) (x # xs) \<or> sorted (x # xs)" and "k = length (filter (\<lambda>y. y = x) xs)"
  shows "xs = replicate k x @ drop k xs \<and> x \<notin> set (drop k xs)"
  using assms
proof (induction xs arbitrary: k)
  case (Cons y ys)
  show ?case
  proof (cases "y = x")
    case True
    with Cons show ?thesis by auto
  next
    case False
    then have "x \<notin> set ys" using Cons.prems(1) by auto
    moreover from this have "filter (\<lambda>y. y = x) ys = []" by (auto simp: filter_empty_conv)
    ultimately show ?thesis using False Cons.prems(2) by simp
  qed
qed simp

lemma split_largest_ok:
  assumes "regions_ok out" and "length out \<le> n"
  shows "\<exists>out'. split_largest n out = Inr out' \<and> regions_ok out' \<and> length out' \<le> n \<and> sum_list out' = sum_list out"
  using assms
proof (induction n out rule: split_largest.induct)
  case (2 n largest rest)
  define k where k: "k = length (filter (\<lambda>c. c = largest) (largest # rest))"
  show ?case
  proof (cases "MIN_MPU_REGION_SIZE < largest \<and> \<not> n < length (largest # rest) + k")
    case True
    define k' where k': "k' = length (filter (\<lambda>c. c = largest) rest)"
    have "sorted_wrt (\<ge>) (largest # rest)" using "2.prems"(1) by (simp add: regions_ok_def)
    then have b: "rest = replicate k' largest @ drop k' rest" "largest \<notin> set (drop k' rest)"
      using head_block [of largest rest k'] k' by auto
    have kk: "k = Suc k'" by (simp add: k k')
    have l: "pow2 largest" "32 < largest" using "2.prems"(1) True by (auto simp: regions_ok_def MIN_MPU_REGION_SIZE_def)
    then have half: "pow2 (largest div 2)" "2 * (largest div 2) = largest" "32 \<le> largest div 2"
      using pow2_half [of largest] pow2_less [OF pow2_32, of largest] by auto
    have small: "pow2 z \<and> 32 \<le> z \<and> z \<le> largest div 2" if "z \<in> set (drop k' rest)" for z
    proof -
      have "z \<in> set rest" using that by (rule in_set_dropD)
      then have z: "pow2 z" "32 \<le> z" "z \<le> largest" using "2.prems"(1) by (auto simp: regions_ok_def)
      moreover have "z \<noteq> largest" using b(2) that by auto
      ultimately show ?thesis using pow2_less [OF z(1) l(1)] by simp
    qed
    let ?new = "replicate (k * 2) (largest div 2) @ drop k (largest # rest)"
    have "sorted_wrt (\<ge>) (drop k' rest)"
      using "2.prems"(1) by (simp add: regions_ok_def sorted_wrt_drop)
    then have ok: "regions_ok ?new"
      using small half by (auto simp: regions_ok_def kk sorted_wrt_append sorted_wrt_ge_replicate)
    moreover have "length ?new \<le> n"
      using True k' length_filter_le [of "\<lambda>c. c = largest" rest] by (simp add: kk)
    moreover have "sum_list ?new = sum_list (largest # rest)"
    proof -
      have "sum_list rest = k' * largest + sum_list (drop k' rest)" by (subst b(1)) (simp add: sum_list_replicate)
      moreover have "k * 2 * (largest div 2) = k * largest" using half(2) by (metis mult.assoc)
      ultimately show ?thesis by (simp add: kk sum_list_replicate algebra_simps)
    qed
    ultimately show ?thesis using "2.IH" [of k] True k by auto
  next
    case False
    with "2.prems" show ?thesis by (auto simp: Let_def k)
  qed
qed (simp add: regions_ok_def)

text \<open>
  The sizes suggested for an amount on a processor that needs powers of two: at most as many
  regions as there are, together at least the amount and at most the power of two that a single
  region would take.
\<close>

lemma suggest_power_of_two:
  assumes "sz \<le> 2 ^ 63" and "1 \<le> n"
  shows "\<exists>out. mpu_suggest_size PowerOfTwo sz n = Inr out \<and> regions_ok out \<and> length out \<le> n \<and> sz \<le> sum_list out
    \<and> (\<forall>q. pow2 q \<longrightarrow> 32 \<le> q \<longrightarrow> sz \<le> 2 * q \<longrightarrow> sum_list out \<le> 2 * q)"
proof -
  obtain m where n: "n = Suc m" using assms(2) by (cases n) auto
  obtain out left where t: "take_regions n sz = Inr (out, left)" "taken n sz out left"
    using take_regions_ok [OF assms(1)] n by blast
  obtain out1 where c: "cover_rest out left = Inr out1" "steep out1" "length out1 \<le> n" "sz \<le> sum_list out1"
      "\<forall>q. pow2 q \<longrightarrow> 32 \<le> q \<longrightarrow> sz \<le> 2 * q \<longrightarrow> sum_list out1 \<le> 2 * q"
    using cover_rest_ok [of m, folded n, OF t(2) assms(1)] by blast
  have "pow2 (2 ^ 62)" unfolding pow2_def by (rule exI [of _ 62]) (rule refl)
  then have "sum_list out1 \<le> 2 * 2 ^ 62" using c(5) assms(1) by (auto dest!: spec [of _ "2 ^ 62 :: nat"])
  then obtain out2 where m: "merge_tail (rev out1) = Inr out2" "regions_ok (rev out2)" "length out2 \<le> length out1"
      "sum_list out2 = sum_list out1"
    using merge_tail_ok [of "rev out1"] c(2) by auto
  then obtain out3 where "split_largest n (rev out2) = Inr out3" "regions_ok out3" "length out3 \<le> n"
      "sum_list out3 = sum_list out1"
    using split_largest_ok [OF m(2), of n] c(3) by auto
  with t(1) c(1,4,5) m(1) show ?thesis by (auto simp: mpu_suggest_size_def)
qed

end
