(* ===== verification/Build_AllocProps.thy ===== *)
theory Build_AllocProps
  imports Build_Sizes
begin

section \<open>Correctness of the memory allocator\<close>

text \<open>
  The allocator places every task in contiguous ranges the memory protection unit can express,
  disjoint from all others, without ever failing one of its own assertions.
\<close>

subsection \<open>Alignment of words\<close>

lemma unat_exp: "k < 32 \<Longrightarrow> unat (2 ^ k :: u32) = 2 ^ k"
proof -
  assume k: "k < 32"
  then have "unat (word_of_nat (2 ^ k) :: u32) = 2 ^ k"
    unfolding unsigned_of_nat by (simp add: take_bit_nat_eq_self)
  then show ?thesis by simp
qed

lemma is_power_of_two_iff: "is_power_of_two w \<longleftrightarrow> pow2 (unat w)"
proof
  assume "is_power_of_two w"
  then obtain k where "k < 32" "w = 2 ^ k" by (auto simp: is_power_of_two_def list_ex_iff)
  then show "pow2 (unat w)" by (auto simp: pow2_def unat_exp)
next
  assume "pow2 (unat w)"
  then obtain k where k: "unat w = 2 ^ k" by (auto simp: pow2_def)
  have "(2 :: nat) ^ k < 2 ^ 32" using unat_lt_u32 [of w] unfolding k by simp
  then have "k < 32" by (simp add: power_strict_increasing_iff del: power_numeral)
  moreover from this k have "w = 2 ^ k" by (simp add: word_unat_eq_iff unat_exp)
  ultimately show "is_power_of_two w" by (auto simp: is_power_of_two_def list_ex_iff)
qed

lemma pow2_word:
  assumes "pow2 (unat (a :: u32))"
  obtains k where "k < 32" "a = 2 ^ k" "unat a = 2 ^ k" "a - 1 = mask k" "unat (a - 1) = unat a - 1" "1 \<le> a"
proof -
  obtain k where k: "k < 32" "a = 2 ^ k"
    using assms by (auto simp: is_power_of_two_iff [symmetric] is_power_of_two_def list_ex_iff)
  then have u: "unat a = 2 ^ k" by (simp add: unat_exp)
  moreover have "1 \<le> a" using u by (simp add: word_le_nat_alt)
  moreover from this have "unat (a - 1) = unat a - 1" by (simp add: unat_sub)
  ultimately show thesis using that k by (simp add: mask_eq_exp_minus_1)
qed

lemma unat_and_not_mask: "unat (y AND NOT (mask k) :: u32) = unat y div 2 ^ k * 2 ^ k"
proof -
  have "y AND NOT (mask k) = push_bit k (drop_bit k y)"
    by (rule bit_word_eqI) (auto simp: bit_and_iff bit_not_iff bit_mask_iff bit_push_bit_iff bit_drop_bit_eq)
  moreover have "unat y div 2 ^ k * 2 ^ k < 2 ^ 32"
    using div_times_less_eq_dividend [of "unat y" "2 ^ k"] unat_lt_u32 [of y] by (simp del: unat_lt_u32 div_times_less_eq_dividend)
  moreover have "unat (push_bit k (drop_bit k y)) = take_bit 32 (push_bit k (drop_bit k (unat y)))"
    unfolding unsigned_push_bit_eq unsigned_drop_bit_eq using unat_lt_u32 [of y] by (simp add: take_bit_nat_eq_self del: unat_lt_u32)
  ultimately show ?thesis
    by (simp only: push_bit_eq_mult drop_bit_eq_div take_bit_nat_eq_self)
qed

lemma and_mask_eq_0: "(y AND mask k = (0 :: u32)) \<longleftrightarrow> 2 ^ k dvd unat y"
proof -
  have "unat (y AND mask k) = unat y mod 2 ^ k"
    unfolding take_bit_eq_mask [symmetric] unsigned_take_bit_eq by (rule take_bit_eq_mod)
  then show ?thesis by (simp add: word_unat_eq_iff dvd_eq_mod_eq_0)
qed

lemma and_aligned:
  assumes "pow2 (unat (a :: u32))"
  shows "y AND (a - 1) = 0 \<longleftrightarrow> unat a dvd unat y" and "sub32 a 1 = Inr (a - 1)"
  using assms by (auto elim!: pow2_word simp: and_mask_eq_0 sub32_def)

definition up :: "nat \<Rightarrow> nat \<Rightarrow> nat" where
  "up x a = (x + (a - 1)) div a * a"

lemma up_bounds: "0 < a \<Longrightarrow> x \<le> up x a \<and> up x a < x + a \<and> a dvd up x a"
proof -
  assume a: "0 < a"
  have "up x a + (x + (a - 1)) mod a = x + (a - 1)" unfolding up_def by simp
  moreover have "(x + (a - 1)) mod a < a" using a by simp
  moreover have "a dvd up x a" by (simp add: up_def)
  ultimately show ?thesis by linarith
qed

lemma up_aligned:
  assumes "0 < a" and "a dvd x" shows "up x a = x"
proof -
  have "a dvd up x a - x" "up x a - x < a" using up_bounds [OF assms(1), of x] assms(2) by (auto simp: dvd_diff_nat)
  then show ?thesis using up_bounds [OF assms(1), of x] by (auto dest: nat_dvd_not_less)
qed

lemma round_up_Inr:
  assumes "pow2 (unat a)" and "unat x + (unat a - 1) < 2 ^ 32"
  shows "\<exists>b. round_up x (a - 1) = Inr b \<and> unat b = up (unat x) (unat a)"
proof -
  obtain k where k: "a - 1 = mask k" "unat (a - 1) = unat a - 1" "unat a = 2 ^ k" by (rule pow2_word [OF assms(1)])
  have "add32 x (a - 1) = Inr (x + (a - 1))" using assms(2) k(2) by (simp add: add32_Inr)
  moreover have "unat (x + (a - 1)) = unat x + (unat a - 1)" using assms(2) k(2) by (simp add: unat_add_nowrap)
  ultimately show ?thesis using k by (simp add: round_up_def unat_and_not_mask up_def)
qed

lemma trailing_zeros_le:
  assumes "bit x k" and "k < 32" shows "trailing_zeros x \<le> k"
proof (rule ccontr)
  assume "\<not> trailing_zeros x \<le> k"
  then have l: "k < length (takeWhile (\<lambda>k. \<not> bit x k) [0..<32])" by (simp add: trailing_zeros_def)
  then have "takeWhile (\<lambda>k. \<not> bit x k) [0..<32] ! k = k" using assms(2) by (simp add: takeWhile_nth)
  then show False using nth_mem [OF l] assms(1) by (auto dest: set_takeWhileD)
qed

lemma trailing_zeros_ge:
  assumes "\<forall>j < k. \<not> bit x j" and "k \<le> 32" shows "k \<le> trailing_zeros x"
proof -
  have "[0..<32] = [0..<k] @ [k..<32]" using assms(2) upt_add_eq_append [of 0 k "32 - k"] by simp
  moreover have "takeWhile (\<lambda>k. \<not> bit x k) ([0..<k] @ [k..<32]) = [0..<k] @ takeWhile (\<lambda>k. \<not> bit x k) [k..<32]"
    using assms(1) by (intro takeWhile_append2) simp
  ultimately show ?thesis unfolding trailing_zeros_def by simp
qed

lemma trailing_zeros_aligned:
  assumes "pow2 (unat a)" and "unat a dvd unat x" shows "trailing_zeros a \<le> trailing_zeros x"
proof -
  obtain k where k: "k < 32" "a = 2 ^ k" "unat a = 2 ^ k" by (rule pow2_word [OF assms(1)])
  have "trailing_zeros a \<le> k" using k by (intro trailing_zeros_le) (simp_all add: bit_exp_iff)
  moreover have "take_bit k x = 0" using assms(2) k and_mask_eq_0 [of x k] by (simp add: take_bit_eq_mask)
  then have "\<forall>j < k. \<not> bit x j" by (metis bit_take_bit_iff bit_0_eq bot_apply bot_bool_def)
  then have "k \<le> trailing_zeros x" using k(1) by (intro trailing_zeros_ge) simp_all
  ultimately show ?thesis by simp
qed

subsection \<open>Chunks at their places\<close>

definition mpu_ok :: "MpuAlignment \<Rightarrow> bool" where
  "mpu_ok mpu \<longleftrightarrow> mpu = PowerOfTwo \<or> mpu = Chunk 32"

fun align_of :: "MpuAlignment \<Rightarrow> nat \<Rightarrow> nat" where
  "align_of PowerOfTwo s = s"
| "align_of (Chunk c) s = c"

definition chunk_ok :: "MpuAlignment \<Rightarrow> nat \<Rightarrow> bool" where
  "chunk_ok mpu s \<longleftrightarrow> 32 \<le> s \<and> (case mpu of PowerOfTwo \<Rightarrow> pow2 s | Chunk c \<Rightarrow> c dvd s)"

lemma memory_region_alignment_Inr:
  assumes "mpu_ok mpu" and "chunk_ok mpu (unat s)"
  shows "\<exists>a. memory_region_alignment mpu s = Inr a \<and> unat a = align_of mpu (unat s) \<and> pow2 (unat a) \<and> unat a \<le> unat s"
  using assms by (auto simp: mpu_ok_def chunk_ok_def memory_region_alignment_def is_power_of_two_iff)

text \<open>The whole request: an ordered deque of powers of two, or one region on ARMv8-M.\<close>

definition chunks_ok :: "MpuAlignment \<Rightarrow> u32 list \<Rightarrow> bool" where
  "chunks_ok mpu sizes \<longleftrightarrow> (\<forall>s \<in> set sizes. chunk_ok mpu (unat s))
     \<and> (case mpu of PowerOfTwo \<Rightarrow> sorted_wrt (\<ge>) sizes \<or> sorted sizes | Chunk _ \<Rightarrow> length sizes \<le> 1)"

definition total_of :: "u32 list \<Rightarrow> nat" where
  "total_of sizes = sum_list (map unat sizes)"

lemma total_of_simps [simp]:
  "total_of [] = 0" "total_of (x # xs) = unat x + total_of xs" "total_of (xs @ ys) = total_of xs + total_of ys" "total_of (rev xs) = total_of xs"
  "total_of (replicate k x) = k * unat x"
  by (simp_all add: total_of_def rev_map [symmetric] sum_list_replicate)

fun fits :: "MpuAlignment \<Rightarrow> nat \<Rightarrow> u32 list \<Rightarrow> bool" where
  "fits mpu pos [] \<longleftrightarrow> True"
| "fits mpu pos (s # ss) \<longleftrightarrow> align_of mpu (unat s) dvd pos \<and> fits mpu (pos + unat s) ss"

lemma fits_append: "fits mpu pos (xs @ ys) \<longleftrightarrow> fits mpu pos xs \<and> fits mpu (pos + total_of xs) ys"
  by (induction xs arbitrary: pos) (auto simp: add.assoc)

lemma fits_replicate: "unat s dvd pos \<Longrightarrow> fits PowerOfTwo pos (replicate k s)"
  by (induction k arbitrary: pos) auto

lemma fits_forward:
  assumes "chunks_ok mpu (s # sizes)" "sorted_wrt (\<ge>) (s # sizes)" "align_of mpu (unat s) dvd pos"
  shows "fits mpu pos (s # sizes)"
  using assms
proof (induction sizes arbitrary: s pos)
  case (Cons x xs)
  then have m: "mpu = PowerOfTwo" by (cases mpu) (auto simp: chunks_ok_def)
  have "unat x dvd unat s" using Cons.prems(1,2) by (auto simp: m chunks_ok_def chunk_ok_def word_le_nat_alt intro: pow2_dvd)
  then have "unat x dvd pos + unat s" using Cons.prems(3) by (auto simp: m elim: dvd_trans)
  moreover have "chunks_ok mpu (x # xs)" using Cons.prems by (auto simp: m chunks_ok_def)
  ultimately show ?case using Cons by (simp add: m)
qed simp

lemma fits_reverse:
  assumes "\<forall>s \<in> set sizes. pow2 (unat s)" "sorted sizes" "sizes \<noteq> []" "unat (last sizes) dvd pos + total_of sizes"
  shows "fits PowerOfTwo pos sizes \<and> unat (hd sizes) dvd pos"
  using assms
proof (induction sizes arbitrary: pos)
  case (Cons x xs)
  show ?case
  proof (cases "xs = []")
    case False
    then have f: "fits PowerOfTwo (pos + unat x) xs" "unat (hd xs) dvd pos + unat x"
      using Cons by (auto simp: add.assoc)
    have "hd xs \<in> set xs" "x \<le> hd xs" using False Cons.prems(2) by (cases xs; simp)+
    then have "unat x dvd unat (hd xs)" using Cons.prems(1) by (intro pow2_dvd) (auto simp: word_le_nat_alt)
    then have "unat x dvd pos + unat x" using f(2) by (rule dvd_trans)
    with f(1) show ?thesis by simp
  qed (use Cons.prems in simp)
qed simp

lemma double_word:
  assumes "2 * unat (s :: u32) < 2 ^ 32"
  shows "mul32 s 2 = Inr (s * 2)" and "unat (s * 2) = 2 * unat s"
  using assms unat_mult_nowrap [of s 2] by (simp_all add: mul32_def)

text \<open>Merging keeps an ordered, aligned deque of the same total size.\<close>

lemma merged_chunks_ok:
  assumes ok: "chunks_ok PowerOfTwo (replicate k s @ rest)" and f: "fits PowerOfTwo pos (replicate k s @ rest)"
    and s: "s \<notin> set rest" "pow2 (unat s)" "32 \<le> unat s" "2 * unat s < 2 ^ 32" "2 * unat s dvd pos" and k: "2 \<le> k"
  shows "chunks_ok PowerOfTwo (replicate (k div 2) (s * 2) @ replicate (k mod 2) s @ rest)"
    and "fits PowerOfTwo pos (replicate (k div 2) (s * 2) @ replicate (k mod 2) s @ rest)"
proof -
  note d = double_word [OF s(4)]
  have p2: "pow2 (unat (s * 2))" using s(2) pow2_double [of "unat s"] d(2) by (simp add: mult.commute)
  have "k * unat s = (k div 2 * 2 + k mod 2) * unat s" by simp
  then have kk: "k * unat s = k div 2 * (2 * unat s) + k mod 2 * unat s" by (simp only: distrib_right mult.assoc)
  have sd: "unat s dvd pos" using s(5) by (rule dvd_mult_right)
  have rest: "fits PowerOfTwo (pos + k * unat s) rest" using f by (simp add: fits_append)
  have "unat s dvd pos + k div 2 * (2 * unat s)" using sd by simp
  then show "fits PowerOfTwo pos (replicate (k div 2) (s * 2) @ replicate (k mod 2) s @ rest)"
    using rest kk s(5) d(2) by (auto simp: fits_append add.assoc intro!: fits_replicate)
  have el: "\<forall>x \<in> set (replicate (k div 2) (s * 2) @ replicate (k mod 2) s @ rest). chunk_ok PowerOfTwo (unat x)"
    using ok p2 s(2,3) d(2) by (auto simp: chunks_ok_def chunk_ok_def)
  have lt: "s \<le> s * 2" using d(2) by (simp add: word_le_nat_alt)
  show "chunks_ok PowerOfTwo (replicate (k div 2) (s * 2) @ replicate (k mod 2) s @ rest)"
  proof (cases "sorted_wrt (\<ge>) (replicate k s @ rest)")
    case True
    then have "\<forall>x \<in> set rest. x \<le> s" "sorted_wrt (\<ge>) rest" using k by (auto simp: sorted_wrt_append)
    then have "sorted_wrt (\<ge>) (replicate (k div 2) (s * 2) @ replicate (k mod 2) s @ rest)"
      using lt by (auto simp: sorted_wrt_append sorted_wrt_ge_replicate intro: order_trans)
    with el show ?thesis by (simp add: chunks_ok_def)
  next
    case False
    then have asc: "sorted (replicate k s @ rest)" using ok by (auto simp: chunks_ok_def)
    then have big: "\<forall>x \<in> set rest. s < x" using s(1) k by (fastforce simp: sorted_append order_le_less)
    have big2: "\<forall>x \<in> set rest. 2 * unat s \<le> unat x"
      using big ok pow2_less [OF s(2)] by (auto simp: chunks_ok_def chunk_ok_def word_less_nat_alt)
    show ?thesis
    proof (cases "k mod 2 = 0")
      case True
      have "sorted (replicate (k div 2) (s * 2) @ rest)"
        using big2 asc d(2) by (auto simp: sorted_append word_le_nat_alt sorted_replicate)
      with el True show ?thesis by (simp add: chunks_ok_def)
    next
      case False
      have "rest = []"
      proof (rule ccontr)
        assume "rest \<noteq> []"
        then obtain x xs where x: "rest = x # xs" by (cases rest) auto
        have "2 * unat s dvd unat x"
          using big2 x ok s(2) by (intro pow2_dvd) (auto simp: chunks_ok_def chunk_ok_def mult.commute [of 2])
        moreover have "unat x dvd pos + k * unat s" using rest x by simp
        ultimately have "2 * unat s dvd k * unat s" using s(5) by (meson dvd_add_right_iff dvd_trans)
        then have "2 dvd k" using s(3) by simp
        with False show False by auto
      qed
      with lt have "sorted_wrt (\<ge>) (replicate (k div 2) (s * 2) @ replicate (k mod 2) s @ rest)"
        by (auto simp: sorted_wrt_append sorted_wrt_ge_replicate)
      with el show ?thesis by (simp add: chunks_ok_def)
    qed
  qed
qed

lemma merge_front_ok:
  assumes "mpu_ok mpu" and ok: "chunks_ok mpu (s # ss)" and f: "fits mpu (unat start) (s # ss)" and "total_of (s # ss) < 2 ^ 32"
  shows "\<exists>s' ss'. merge_front mpu start s ss = Inr (s', ss') \<and> chunks_ok mpu (s' # ss') \<and> fits mpu (unat start) (s' # ss')
    \<and> total_of (s' # ss') = total_of (s # ss)"
proof -
  define k where k: "k = length (filter (\<lambda>x. x = s) ss)"
  show ?thesis
  proof (cases "0 < k \<and> mpu = PowerOfTwo")
    case False
    then have "k = 0 \<or> ss = []" using ok assms(1) by (cases mpu) (auto simp: chunks_ok_def)
    then have "k = 0" by (auto simp: k)
    then have "merge_front mpu start s ss = Inr (s, ss)" by (simp add: merge_front_def k)
    with ok f show ?thesis by auto
  next
    case True
    then have m: "mpu = PowerOfTwo" by simp
    have "sorted_wrt (\<ge>) (s # ss) \<or> sorted (s # ss)" using ok by (simp add: m chunks_ok_def)
    then have b: "ss = replicate k s @ drop k ss" "s \<notin> set (drop k ss)" using head_block [of s ss k] k by auto
    then have all: "s # ss = replicate (Suc k) s @ drop k ss" by simp
    have s: "pow2 (unat s)" "32 \<le> unat s" using ok by (auto simp: m chunks_ok_def chunk_ok_def)
    have "total_of (s # ss) = Suc k * unat s + total_of (drop k ss)" by (subst all) simp
    moreover have "2 * unat s \<le> Suc k * unat s" using True by (intro mult_le_mono) auto
    ultimately have lt: "2 * unat s < 2 ^ 32" using assms(4) by linarith
    note d = double_word [OF lt]
    have p2: "pow2 (unat (s * 2))" using s(1) pow2_double [of "unat s"] d(2) by (simp add: mult.commute)
    then have al: "memory_region_alignment mpu (s * 2) = Inr (s * 2)"
      by (simp add: m memory_region_alignment_def is_power_of_two_iff)
    let ?n = "Suc k - Suc k mod 2"
    have n: "?n div 2 = Suc k div 2" "?n - 1 = k - Suc k mod 2"
      by (simp add: minus_mod_eq_mult_div) (cases "even k"; simp add: even_iff_mod_2_eq_zero mod_Suc)
    have new: "s * 2 # replicate (?n div 2 - 1) (s * 2) @ drop (?n - 1) ss
        = replicate (Suc k div 2) (s * 2) @ replicate (Suc k mod 2) s @ drop k ss"
    proof -
      have "drop (k - Suc k mod 2) ss = replicate (Suc k mod 2) s @ drop k ss"
        using True by (subst b(1)) (cases "even k", auto simp: Suc_leI even_iff_mod_2_eq_zero odd_iff_mod_2_eq_one mod_Suc)
      moreover obtain j where "Suc k div 2 = Suc j" using True by (cases "Suc k div 2") auto
      ultimately show ?thesis unfolding n by simp
    qed
    show ?thesis
    proof (cases "2 * unat s dvd unat start")
      case dvd: True
      have "merge_front mpu start s ss = Inr (s * 2, replicate (?n div 2 - 1) (s * 2) @ drop (?n - 1) ss)"
        using dvd True and_aligned [OF p2] d al by (simp add: merge_front_def k [symmetric] Let_def)
      moreover note merged_chunks_ok [of "Suc k" s "drop k ss" "unat start", folded all, folded m, OF ok f b(2) s lt dvd]
      moreover have "total_of (s # ss) = total_of (replicate (Suc k div 2) (s * 2) @ replicate (Suc k mod 2) s @ drop k ss)"
      proof -
        have "Suc k * unat s = (Suc k div 2 * 2 + Suc k mod 2) * unat s" by simp
        then have "Suc k * unat s = Suc k div 2 * (2 * unat s) + Suc k mod 2 * unat s" by (simp only: distrib_right mult.assoc)
        then show ?thesis unfolding all by (simp add: d(2) add.assoc)
      qed
      ultimately show ?thesis using True unfolding new [symmetric] m by auto
    next
      case False
      then have "merge_front mpu start s ss = Inr (s, ss)"
        using True and_aligned [OF p2] d al by (simp add: merge_front_def k [symmetric] Let_def)
      with ok f show ?thesis by auto
    qed
  qed
qed

lemma allocate_one_eq:
  assumes "pow2 (unat a)" "unat (fst avail) + (unat a - 1) < 2 ^ 32"
  shows "\<exists>b. unat b = up (unat (fst avail)) (unat a) \<and> allocate_one sz a avail =
     (if unat b < unat (snd avail) \<and> unat b + unat sz \<le> unat (snd avail) then Inr ((b, b + sz), (b + sz, snd avail)) else Inl OutOf)"
proof -
  obtain b where b: "round_up (fst avail) (a - 1) = Inr b" "unat b = up (unat (fst avail)) (unat a)"
    using round_up_Inr [OF assms] by blast
  have "snd avail \<le> b \<or> snd avail - b < sz \<longleftrightarrow> \<not> (unat b < unat (snd avail) \<and> unat b + unat sz \<le> unat (snd avail))"
    by (cases "snd avail \<le> b") (auto simp: word_le_nat_alt word_less_nat_alt unat_sub)
  moreover have "add32 b sz = Inr (b + sz)" if "unat b + unat sz \<le> unat (snd avail)"
    using that unat_lt_u32 [of "snd avail"] by (intro add32_Inr) (simp del: unat_lt_u32)
  ultimately show ?thesis
    using assms(1) b by (intro exI [of _ b]) (simp add: allocate_one_def is_power_of_two_iff)
qed

lemma allocate_one_Inr:
  assumes "pow2 (unat a)" "unat a dvd unat (fst avail)" "unat a \<le> unat sz" "unat (fst avail) + unat sz < 2 ^ 32"
  shows "allocate_one sz a avail =
     (if unat (fst avail) + unat sz \<le> unat (snd avail) then Inr ((fst avail, fst avail + sz), (fst avail + sz, snd avail)) else Inl OutOf)"
proof -
  have a: "0 < unat a" using assms(1) by (rule pow2_pos)
  have "unat (fst avail) + (unat a - 1) < 2 ^ 32" using a assms(3,4) by linarith
  from allocate_one_eq [OF assms(1) this, of sz] obtain b where b: "unat b = up (unat (fst avail)) (unat a)"
      "allocate_one sz a avail = (if unat b < unat (snd avail) \<and> unat b + unat sz \<le> unat (snd avail)
        then Inr ((b, b + sz), (b + sz, snd avail)) else Inl OutOf)"
    by blast
  moreover have "b = fst avail" using b(1) up_aligned [OF a assms(2)] by (simp add: word_unat_eq_iff)
  ultimately show ?thesis using a assms(3) by auto
qed

subsection \<open>Placing one task\<close>

fun span_ok :: "MpuAlignment \<Rightarrow> nat \<Rightarrow> range32 list \<Rightarrow> nat \<Rightarrow> bool" where
  "span_ok mpu a [] b \<longleftrightarrow> a = b"
| "span_ok mpu a (r # rs) b \<longleftrightarrow> unat (fst r) = a \<and> a < unat (snd r) \<and> chunk_ok mpu (unat (snd r) - a)
     \<and> align_of mpu (unat (snd r) - a) dvd a \<and> span_ok mpu (unat (snd r)) rs b"

lemma span_ok_append: "span_ok mpu a (xs @ ys) c \<longleftrightarrow> (\<exists>b. span_ok mpu a xs b \<and> span_ok mpu b ys c)"
  by (induction xs arbitrary: a) auto

text \<open>The only change of the allocations is to the ranges of one task in one memory.\<close>

definition only_ranges :: "string \<Rightarrow> string \<Rightarrow> range32 list \<Rightarrow> allocations \<Rightarrow> allocations \<Rightarrow> bool" where
  "only_ranges name region rs allocs allocs' \<longleftrightarrow>
     (\<forall>n r. ranges_of allocs' n r = (if n = name \<and> r = region then rs else ranges_of allocs n r))
     \<and> al_kernel allocs' = al_kernel allocs \<and> al_caboose allocs' = al_caboose allocs"

lemma push_alloc_Inr:
  assumes "ranges_of allocs name region = rs" "rs = [] \<or> snd (last rs) = fst r"
  shows "\<exists>allocs'. push_alloc name region r allocs = Inr allocs' \<and> only_ranges name region (rs @ [r]) allocs allocs'"
  using assms
  by (auto simp: push_alloc_def ranges_push_def only_ranges_def ranges_of_def Let_def split: option.splits)

lemma only_ranges_trans:
  "only_ranges n r rs a b \<Longrightarrow> only_ranges n r rs' b c \<Longrightarrow> only_ranges n r rs' a c"
  by (simp add: only_ranges_def)

lemma place_chunks_ok:
  assumes "mpu_ok mpu" "chunks_ok mpu sizes" "fits mpu (unat (fst avail)) sizes"
    and "unat (fst avail) + total_of sizes < 2 ^ 32" "ranges_of allocs name region = rs0" "rs0 = [] \<or> snd (last rs0) = fst avail"
  shows "place_chunks mpu name region sizes avail allocs = Inl OutOf
    \<or> (\<exists>rs e allocs'. place_chunks mpu name region sizes avail allocs = Inr ((e, snd avail), allocs')
        \<and> unat e = unat (fst avail) + total_of sizes \<and> (sizes \<noteq> [] \<longrightarrow> unat e \<le> unat (snd avail))
        \<and> (if sizes = [] then allocs' = allocs \<and> rs = [] else only_ranges name region (rs0 @ rs) allocs allocs')
        \<and> span_ok mpu (unat (fst avail)) rs (unat e) \<and> length rs \<le> length sizes)"
  using assms
proof (induction mpu name region sizes avail allocs arbitrary: rs0 rule: place_chunks.induct)
  case (1 mpu name region avail allocs)
  then show ?case by (cases avail) (auto intro: exI [of _ "[]"])
next
  case (2 mpu name region s ss avail allocs)
  have tot: "total_of (s # ss) < 2 ^ 32" using "2.prems"(4) by linarith
  obtain s' ss' where m: "merge_front mpu (fst avail) s ss = Inr (s', ss')" "chunks_ok mpu (s' # ss')"
      "fits mpu (unat (fst avail)) (s' # ss')" "total_of (s' # ss') = total_of (s # ss)"
    using merge_front_ok [OF "2.prems"(1-3) tot] by blast
  have c: "chunk_ok mpu (unat s')" using m(2) by (simp add: chunks_ok_def)
  obtain a where a: "memory_region_alignment mpu s' = Inr a" "unat a = align_of mpu (unat s')" "pow2 (unat a)" "unat a \<le> unat s'"
    using memory_region_alignment_Inr [OF "2.prems"(1) c] by blast
  have dvd: "unat a dvd unat (fst avail)" using m(3) a(2) by simp
  have lt: "unat (fst avail) + unat s' < 2 ^ 32" using m(4) "2.prems"(4) by simp
  note one = allocate_one_Inr [OF a(3) dvd a(4) lt]
  show ?case
  proof (cases "unat (fst avail) + unat s' \<le> unat (snd avail)")
    case False
    with m(1) a(1) and_aligned [OF a(3)] dvd one show ?thesis by simp
  next
    case True
    let ?r = "(fst avail, fst avail + s')" and ?av = "(fst avail + s', snd avail)"
    have r: "unat (fst avail + s') = unat (fst avail) + unat s'" using lt by (simp add: unat_add_nowrap)
    obtain allocs1 where p: "push_alloc name region ?r allocs = Inr allocs1" "only_ranges name region (rs0 @ [?r]) allocs allocs1"
      using push_alloc_Inr [of allocs name region rs0 ?r] "2.prems"(5,6) by auto
    have step: "place_chunks mpu name region (s # ss) avail allocs = place_chunks mpu name region ss' ?av allocs1"
      using m(1) a(1) and_aligned [OF a(3)] dvd one True p(1) by simp
    have pre: "chunks_ok mpu ss'" "fits mpu (unat (fst ?av)) ss'" "unat (fst ?av) + total_of ss' < 2 ^ 32"
        "ranges_of allocs1 name region = rs0 @ [?r]"
      using m(2-4) "2.prems"(4) p(2) r by (auto simp: chunks_ok_def only_ranges_def split: MpuAlignment.splits)
    have s1: "span_ok mpu (unat (fst avail)) [?r] (unat (fst avail) + unat s')"
      using c m(3) r by (auto simp: chunk_ok_def)
    have "rs0 @ [?r] = [] \<or> snd (last (rs0 @ [?r])) = fst ?av" by simp
    note rest = "2.IH" [OF m(1) refl _ "2.prems"(1) pre this, of "a - 1"]
    have z: "\<not> fst avail AND (a - 1) \<noteq> 0" using and_aligned [OF a(3)] dvd by simp
    show ?thesis
    proof (cases "place_chunks mpu name region ss' ?av allocs1 = Inl OutOf")
      case True
      then show ?thesis using step by simp
    next
      case False
      with rest [OF z] obtain rs e allocs' where
        2: "place_chunks mpu name region ss' ?av allocs1 = Inr ((e, snd avail), allocs')"
          "unat e = unat (fst ?av) + total_of ss'" "ss' \<noteq> [] \<longrightarrow> unat e \<le> unat (snd avail)"
          "if ss' = [] then allocs' = allocs1 \<and> rs = [] else only_ranges name region ((rs0 @ [?r]) @ rs) allocs1 allocs'"
          "span_ok mpu (unat (fst ?av)) rs (unat e)" "length rs \<le> length ss'"
        unfolding snd_conv by blast
      have "only_ranges name region (rs0 @ ?r # rs) allocs allocs'"
        using 2(4) p(2) only_ranges_trans [OF p(2)] by (auto split: if_splits)
      moreover have "span_ok mpu (unat (fst avail)) (?r # rs) (unat e)" using s1 2(5) r by simp
      moreover have "unat e = unat (fst avail) + total_of (s # ss)" "unat e \<le> unat (snd avail)"
        using 2(2,3) r m(4) True by (cases "ss' = []"; simp)+
      moreover have "length (?r # rs) \<le> length (s # ss)" using 2(6) merge_front_length [OF m(1)] by simp
      ultimately show ?thesis using step 2(1) by (intro disjI2 exI [of _ "?r # rs"] exI [of _ e] exI [of _ allocs']) simp
    qed
  qed
qed

lemma check_ranges_ok:
  assumes "mpu_ok mpu" "span_ok mpu a rs b" "case prev of None \<Rightarrow> True | Some p \<Rightarrow> unat (snd p) = a"
  shows "check_ranges mpu prev rs = Inr ()"
  using assms(2,3)
proof (induction rs arbitrary: a prev)
  case (Cons r rs)
  have r: "unat (fst r) = a" "a < unat (snd r)" "chunk_ok mpu (unat (snd r) - a)" "align_of mpu (unat (snd r) - a) dvd a"
    using Cons.prems(1) by auto
  then have le: "fst r \<le> snd r" "unat (snd r - fst r) = unat (snd r) - a" by (simp_all add: word_le_nat_alt unat_sub)
  then obtain al where al: "memory_region_alignment mpu (snd r - fst r) = Inr al" "unat al = align_of mpu (unat (snd r) - a)" "pow2 (unat al)"
    using memory_region_alignment_Inr [OF assms(1), of "snd r - fst r"] r(3) by auto
  have "\<not> snd r - fst r < 32" using r(3) le(2) by (simp add: chunk_ok_def word_less_nat_alt)
  moreover have "trailing_zeros al \<le> trailing_zeros (fst r)" using al r by (intro trailing_zeros_aligned) simp_all
  moreover have "check_ranges mpu (Some r) rs = Inr ()" using Cons.IH [of "unat (snd r)" "Some r"] Cons.prems(1) by simp
  moreover have "\<not> (case prev of None \<Rightarrow> False | Some p \<Rightarrow> snd p \<noteq> fst r)"
    using Cons.prems(2) r(1) by (auto simp: word_unat_eq_iff split: option.splits)
  ultimately show ?case using le(1) al(1) by (simp add: sub32_Inr)
qed simp

lemma span_ok_bounds:
  "span_ok mpu a rs b \<Longrightarrow> a \<le> b \<and> (\<forall>r \<in> set rs. a \<le> unat (fst r) \<and> unat (fst r) < unat (snd r) \<and> unat (snd r) \<le> b)"
  by (induction rs arbitrary: a) fastforce+

subsection \<open>Choosing a task\<close>

definition request_ok :: "MpuAlignment \<Rightarrow> u32 list \<Rightarrow> bool" where
  "request_ok mpu sizes \<longleftrightarrow> sizes \<noteq> [] \<and> chunks_ok mpu sizes \<and> sorted_wrt (\<ge>) sizes"

text \<open>A match names a task and the gap to one of its two placements.\<close>

definition candidate :: "MpuAlignment \<Rightarrow> nat \<Rightarrow> string \<times> u32 list \<Rightarrow> alloc_match \<Rightarrow> bool" where
  "candidate mpu start x best \<longleftrightarrow> m_name best = fst x
     \<and> (let t = total_of (snd x); a = align_of mpu (unat (hd (snd x))) in
        unat (m_gap best) = (case m_dir best of Forward \<Rightarrow> up start a - start | Reverse \<Rightarrow> up (start + t) a - start - t))"

lemma sum32_Inr: "unat acc + total_of xs < 2 ^ 32 \<Longrightarrow> \<exists>t. sum32 acc xs = Inr t \<and> unat t = unat acc + total_of xs"
proof (induction xs arbitrary: acc)
  case (Cons x xs)
  have lt: "unat acc + unat x < 2 ^ 32" using Cons.prems by simp
  then have "unat (acc + x) = unat acc + unat x" by (simp add: unat_add_nowrap)
  then show ?case using Cons.IH [of "acc + x"] Cons.prems lt by (auto simp: add32_Inr add.assoc)
qed simp

lemma match_update_cases:
  "match_update gap align sz name dir best = best
   \<or> match_update gap align sz name dir best = \<lparr>m_gap = gap, m_align = align, m_size = sz, m_name = name, m_dir = dir\<rparr>"
  by (simp add: match_update_def Let_def)

lemma match_update_init:
  assumes "unat gap < 2 ^ 32 - 1"
  shows "match_update gap align sz name dir match_init = \<lparr>m_gap = gap, m_align = align, m_size = sz, m_name = name, m_dir = dir\<rparr>"
proof -
  have "gap < - 1" using assms by (simp add: word_less_nat_alt)
  then show ?thesis by (simp add: match_update_def match_init_def Let_def)
qed

lemma request_bounds:
  assumes "mpu_ok mpu" "request_ok mpu sizes"
  shows "\<exists>a. memory_region_alignment mpu (hd sizes) = Inr a \<and> unat a = align_of mpu (unat (hd sizes)) \<and> pow2 (unat a)
      \<and> unat a \<le> total_of sizes"
    and "\<exists>b. memory_region_alignment mpu (last sizes) = Inr b"
proof -
  have h: "hd sizes \<in> set sizes" "last sizes \<in> set sizes" "chunk_ok mpu (unat (hd sizes))" "chunk_ok mpu (unat (last sizes))"
    using assms(2) by (auto simp: request_ok_def chunks_ok_def)
  have "unat (hd sizes) \<le> total_of sizes" using assms(2) by (cases sizes) (auto simp: request_ok_def)
  then show "\<exists>a. memory_region_alignment mpu (hd sizes) = Inr a \<and> unat a = align_of mpu (unat (hd sizes)) \<and> pow2 (unat a)
      \<and> unat a \<le> total_of sizes"
    using memory_region_alignment_Inr [OF assms(1) h(3)] by auto
  show "\<exists>b. memory_region_alignment mpu (last sizes) = Inr b"
    using memory_region_alignment_Inr [OF assms(1) h(4)] by auto
qed

lemma consider_task_ok:
  assumes "mpu_ok mpu" "request_ok mpu sizes" "unat start + 2 * total_of sizes \<le> 2 ^ 32"
  shows "\<exists>best'. consider_task mpu start name sizes best = Inr best'
    \<and> (best' = best \<or> candidate mpu (unat start) (name, sizes) best')
    \<and> (best = match_init \<longrightarrow> candidate mpu (unat start) (name, sizes) best')"
proof -
  obtain a where a: "memory_region_alignment mpu (hd sizes) = Inr a" "unat a = align_of mpu (unat (hd sizes))" "pow2 (unat a)"
      "unat a \<le> total_of sizes"
    using request_bounds(1) [OF assms(1,2)] by blast
  obtain b where b: "memory_region_alignment mpu (last sizes) = Inr b" using request_bounds(2) [OF assms(1,2)] by blast
  have a0: "0 < unat a" using a(3) by (rule pow2_pos)
  have "total_of sizes < 2 ^ 32" using assms(3) a0 a(4) by linarith
  then obtain t where t: "sum32 0 sizes = Inr t" "unat t = total_of sizes" using sum32_Inr [of 0 sizes] by auto
  have st: "unat start + unat t < 2 ^ 32" using assms(3) t(2) a0 a(4) by linarith
  then have x: "add32 start t = Inr (start + t)" "unat (start + t) = unat start + unat t" by (simp_all add: add32_Inr unat_add_nowrap)
  obtain r where r: "round_up (start + t) (a - 1) = Inr r" "unat r = up (unat start + unat t) (unat a)"
    using round_up_Inr [OF a(3), of "start + t"] x(2) assms(3) t(2) a(4) a0 by fastforce
  obtain f where f: "round_up start (a - 1) = Inr f" "unat f = up (unat start) (unat a)"
    using round_up_Inr [OF a(3), of start] assms(3) a(4) a0 by fastforce
  note ub = up_bounds [OF a0, of "unat start + unat t"] and uf = up_bounds [OF a0, of "unat start"]
  have r1: "sub32 r start = Inr (r - start)" "unat (r - start) = unat r - unat start"
    using ub r(2) by (simp_all add: sub32_def word_le_nat_alt unat_sub)
  have tr: "t \<le> r - start" unfolding word_le_nat_alt r1(2) using ub r(2) by linarith
  have r2: "sub32 (r - start) t = Inr (r - start - t)" "unat (r - start - t) = unat r - unat start - unat t"
    using unat_sub [OF tr] r1(2) tr by (simp_all add: sub32_Inr)
  have f1: "sub32 f start = Inr (f - start)" "unat (f - start) = unat f - unat start"
    using uf f(2) by (simp_all add: sub32_def word_le_nat_alt unat_sub)
  have ne: "sizes \<noteq> []" using assms(2) by (simp add: request_ok_def)
  let ?b1 = "match_update (r - start - t) a t name Reverse best"
  have eq: "consider_task mpu start name sizes best = Inr (match_update (f - start) b t name Forward ?b1)"
    using ne a(1) b t(1) x(1) r(1) r1(1) r2(1) f(1) f1(1) and_aligned(2) [OF a(3)]
    by (cases sizes) (simp_all add: consider_task_def Let_def)
  have c1: "?b1 = best \<or> candidate mpu (unat start) (name, sizes) ?b1"
    using match_update_cases [of "r - start - t" a t name Reverse best] r2(2) r(2) t(2) a(2) by (auto simp: candidate_def Let_def)
  have "unat (r - start - t) < unat a" using r2(2) r(2) ub by linarith
  then have "unat (r - start - t) < 2 ^ 32 - 1" using unat_lt_u32 [of a] by (simp del: unat_lt_u32)
  then have i1: "best = match_init \<longrightarrow> candidate mpu (unat start) (name, sizes) ?b1"
    using match_update_init r2(2) r(2) t(2) a(2) by (simp add: candidate_def Let_def)
  have "match_update (f - start) b t name Forward ?b1 = ?b1
      \<or> candidate mpu (unat start) (name, sizes) (match_update (f - start) b t name Forward ?b1)"
    using match_update_cases [of "f - start" b t name Forward ?b1] f1(2) f(2) a(2) by (auto simp: candidate_def Let_def)
  with c1 i1 eq show ?thesis by metis
qed

lemma find_best_ok:
  assumes "mpu_ok mpu" "\<forall>(name, sizes) \<in> set reqs. request_ok mpu sizes \<and> unat start + 2 * total_of sizes \<le> 2 ^ 32"
  shows "\<exists>best'. find_best mpu start reqs best = Inr best'
    \<and> (best' = best \<or> (\<exists>x \<in> set reqs. candidate mpu (unat start) x best'))
    \<and> (best = match_init \<longrightarrow> reqs \<noteq> [] \<longrightarrow> (\<exists>x \<in> set reqs. candidate mpu (unat start) x best'))"
  using assms(2)
proof (induction reqs arbitrary: best)
  case (Cons x reqs)
  obtain name sizes where x: "x = (name, sizes)" by (cases x)
  obtain b1 where b1: "consider_task mpu start name sizes best = Inr b1"
      "b1 = best \<or> candidate mpu (unat start) x b1" "best = match_init \<longrightarrow> candidate mpu (unat start) x b1"
    using consider_task_ok [OF assms(1), of sizes start name best] Cons.prems x by auto
  obtain b2 where "find_best mpu start reqs b1 = Inr b2" "b2 = b1 \<or> (\<exists>y \<in> set reqs. candidate mpu (unat start) y b2)"
    using Cons.IH [of b1] Cons.prems by auto
  with b1 show ?case unfolding x by (intro exI [of _ b2]) auto
qed simp

subsection \<open>All tasks of a memory\<close>

text \<open>The deque of the chosen task fits at the address after the gap.\<close>

lemma candidate_fits:
  assumes "mpu_ok mpu" "request_ok mpu sizes" "unat start + 2 * total_of sizes \<le> 2 ^ 32"
    "candidate mpu (unat start) (name, sizes) best"
  defines "ss \<equiv> (case m_dir best of Forward \<Rightarrow> sizes | Reverse \<Rightarrow> rev sizes)"
  shows "\<exists>start'. add32 start (m_gap best) = Inr start' \<and> start \<le> start' \<and> unat start' + total_of ss < 2 ^ 32
    \<and> chunks_ok mpu ss \<and> fits mpu (unat start') ss \<and> ss \<noteq> [] \<and> total_of ss = total_of sizes \<and> length ss = length sizes"
proof -
  let ?t = "total_of sizes" and ?a = "align_of mpu (unat (hd sizes))"
  have ne: "sizes \<noteq> []" and ok: "chunks_ok mpu sizes" and desc: "sorted_wrt (\<ge>) sizes"
    using assms(2) by (auto simp: request_ok_def)
  have a: "0 < ?a" "?a \<le> ?t" using request_bounds(1) [OF assms(1,2)] by (auto dest: pow2_pos)
  define pos where pos: "pos = unat start + unat (m_gap best)"
  note ub = up_bounds [OF a(1), of "unat start + ?t"] and uf = up_bounds [OF a(1), of "unat start"]
  have p: "pos + ?t < 2 ^ 32 \<and> fits mpu pos ss \<and> chunks_ok mpu ss \<and> ss \<noteq> [] \<and> total_of ss = ?t \<and> length ss = length sizes"
  proof (cases "m_dir best")
    case Forward
    then have e: "pos = up (unat start) ?a" "ss = sizes"
      using assms(4) uf by (auto simp: candidate_def Let_def pos ss_def)
    then have "fits mpu pos ss" using fits_forward [of mpu "hd sizes" "tl sizes" pos] ne ok desc uf by simp
    moreover have "pos + ?t < 2 ^ 32" using e(1) uf a(2) assms(3) by linarith
    ultimately show ?thesis using e(2) ok ne by simp
  next
    case Reverse
    then have g: "unat (m_gap best) = up (unat start + ?t) ?a - unat start - ?t" and ss: "ss = rev sizes"
      using assms(4) by (auto simp: candidate_def Let_def ss_def)
    have e: "pos + ?t = up (unat start + ?t) ?a" using g ub unfolding pos by linarith
    have asc: "sorted (rev sizes)" using desc by (simp add: sorted_wrt_rev)
    have "fits mpu pos ss"
    proof (cases mpu)
      case PowerOfTwo
      then have "\<forall>s \<in> set (rev sizes). pow2 (unat s)" using ok by (simp add: chunks_ok_def chunk_ok_def)
      then show ?thesis
        using fits_reverse [of "rev sizes" pos] asc ne e ub PowerOfTwo by (simp add: ss last_rev)
    next
      case (Chunk c)
      then obtain s where s: "sizes = [s]" "c dvd unat s"
        using ok ne by (cases sizes) (auto simp: chunks_ok_def chunk_ok_def)
      have "c dvd pos + ?t" using e ub Chunk by simp
      then show ?thesis using s Chunk by (simp add: ss dvd_add_left_iff)
    qed
    moreover have "pos + ?t < 2 ^ 32" using e ub a(2) assms(3) by linarith
    moreover have "chunks_ok mpu ss" using ok asc by (auto simp: chunks_ok_def ss split: MpuAlignment.splits)
    ultimately show ?thesis using ne by (simp add: ss)
  qed
  then have lt: "unat start + unat (m_gap best) < 2 ^ 32" using pos by simp
  then have "unat (start + m_gap best) = pos" by (simp add: unat_add_nowrap pos)
  with p lt show ?thesis by (auto simp: add32_Inr word_le_nat_alt pos)
qed

definition names_of :: "(string \<times> 'a) list \<Rightarrow> string set" where
  "names_of reqs = fst ` set reqs"

text \<open>Every task of the requests has a span of its own between two addresses.\<close>

definition placed :: "MpuAlignment \<Rightarrow> string \<Rightarrow> nat \<Rightarrow> nat \<Rightarrow> allocations \<Rightarrow> string \<times> u32 list \<Rightarrow> bool" where
  "placed mpu region lo hi allocs x \<longleftrightarrow>
     length (ranges_of allocs (fst x) region) \<le> length (snd x)
     \<and> (\<exists>a. lo \<le> a \<and> a + total_of (snd x) \<le> hi \<and> span_ok mpu a (ranges_of allocs (fst x) region) (a + total_of (snd x)))"

lemma placed_mono: "placed mpu region lo hi allocs x \<Longrightarrow> lo' \<le> lo \<Longrightarrow> hi \<le> hi' \<Longrightarrow> placed mpu region lo' hi' allocs x"
  unfolding placed_def using le_trans by blast

definition apart :: "range32 list \<Rightarrow> range32 list \<Rightarrow> bool" where
  "apart rs rs' \<longleftrightarrow> (\<forall>r \<in> set rs. \<forall>r' \<in> set rs'. snd r \<le> fst r' \<or> snd r' \<le> fst r)"

lemma apart_commute: "apart rs rs' \<longleftrightarrow> apart rs' rs"
  by (auto simp: apart_def)

lemma apart_ordered: "span_ok mpu a rs b \<Longrightarrow> span_ok mpu c rs' d \<Longrightarrow> b \<le> c \<Longrightarrow> apart rs rs'"
  unfolding apart_def using span_ok_bounds [of mpu a rs b] span_ok_bounds [of mpu c rs' d]
  by (fastforce simp: word_le_nat_alt)

definition same_elsewhere :: "(string \<times> u32 list) list \<Rightarrow> string \<Rightarrow> allocations \<Rightarrow> allocations \<Rightarrow> bool" where
  "same_elsewhere reqs region allocs allocs' \<longleftrightarrow> al_kernel allocs' = al_kernel allocs \<and> al_caboose allocs' = al_caboose allocs
     \<and> (\<forall>n r. n \<notin> names_of reqs \<or> r \<noteq> region \<longrightarrow> ranges_of allocs' n r = ranges_of allocs n r)"

lemma allocate_tasks_ok:
  assumes "mpu_ok mpu" "distinct (map fst reqs)" "unat start \<le> unat e"
    and "\<forall>x \<in> set reqs. request_ok mpu (snd x) \<and> unat e + 2 * total_of (snd x) \<le> 2 ^ 32 \<and> ranges_of allocs (fst x) region = []"
  shows "allocate_tasks mpu region reqs (start, e) allocs = Inl OutOf
    \<or> (\<exists>start' allocs'. allocate_tasks mpu region reqs (start, e) allocs = Inr ((start', e), allocs')
        \<and> start \<le> start' \<and> start' \<le> e \<and> same_elsewhere reqs region allocs allocs'
        \<and> (\<forall>x \<in> set reqs. placed mpu region (unat start) (unat start') allocs' x)
        \<and> (\<forall>x \<in> set reqs. \<forall>y \<in> set reqs. fst x \<noteq> fst y \<longrightarrow> apart (ranges_of allocs' (fst x) region) (ranges_of allocs' (fst y) region)))"
  using assms(2-)
proof (induction "length reqs" arbitrary: reqs start allocs rule: less_induct)
  case less
  note prems = less.prems
  show ?case
  proof (cases "reqs = []")
    case True
    with prems show ?thesis by (simp add: allocate_tasks.simps same_elsewhere_def word_le_nat_alt)
  next
    case False
    have ok: "\<forall>(name, sizes) \<in> set reqs. request_ok mpu sizes \<and> unat start + 2 * total_of sizes \<le> 2 ^ 32"
      using prems(2,3) by fastforce
    obtain best name sizes where best: "find_best mpu start reqs match_init = Inr best" "(name, sizes) \<in> set reqs"
        "candidate mpu (unat start) (name, sizes) best"
      using find_best_ok [OF assms(1) ok, of match_init] False by fastforce
    have nm: "m_name best = name" using best(3) by (simp add: candidate_def)
    obtain reqs' where rm: "swap_remove name reqs = Some (sizes, reqs')" "set reqs = insert (name, sizes) (set reqs')"
        "distinct (map fst reqs')" "name \<notin> fst ` set reqs'"
      using swap_remove_Some [OF prems(1) best(2)] by blast
    define ss where ss: "ss = (case m_dir best of Forward \<Rightarrow> sizes | Reverse \<Rightarrow> rev sizes)"
    have req: "request_ok mpu sizes" "unat start + 2 * total_of sizes \<le> 2 ^ 32" using ok best(2) by auto
    obtain st where st: "add32 start (m_gap best) = Inr st" "start \<le> st" "unat st + total_of ss < 2 ^ 32"
        "chunks_ok mpu ss" "fits mpu (unat st) ss" "ss \<noteq> []" "total_of ss = total_of sizes" "length ss = length sizes"
      using candidate_fits [OF assms(1) req best(3), folded ss] by blast
    have "ranges_of allocs name region = []" using prems(3) best(2) by auto
    note pl = place_chunks_ok [OF assms(1) st(4), of "(st, e)" allocs name region "[]", unfolded fst_conv snd_conv, OF st(5,3) this]
    show ?thesis
    proof (cases "place_chunks mpu name region ss (st, e) allocs = Inl OutOf")
      case True
      with False best(1) rm(1) st(1) nm show ?thesis by (simp add: allocate_tasks.simps ss)
    next
      case False
      then obtain rs f allocs1 where p: "place_chunks mpu name region ss (st, e) allocs = Inr ((f, e), allocs1)"
          "unat f = unat st + total_of sizes" "unat f \<le> unat e" "only_ranges name region rs allocs allocs1"
          "span_ok mpu (unat st) rs (unat f)" "length rs \<le> length sizes"
        using pl st(6,7,8) by auto
      have rs: "ranges_of allocs1 name region = rs" using p(4) by (simp add: only_ranges_def)
      have step: "allocate_tasks mpu region reqs (start, e) allocs = allocate_tasks mpu region reqs' (f, e) allocs1"
        using \<open>reqs \<noteq> []\<close> best(1) rm(1) st(1) nm p(1) rs check_ranges_ok [OF assms(1) p(5), of None]
        by (subst allocate_tasks.simps) (simp add: ss)
      have keep: "\<forall>x \<in> set reqs'. ranges_of allocs1 (fst x) region = ranges_of allocs (fst x) region"
        using p(4) rm(4) by (auto simp: only_ranges_def)
      then have "\<forall>x \<in> set reqs'. request_ok mpu (snd x) \<and> unat e + 2 * total_of (snd x) \<le> 2 ^ 32 \<and> ranges_of allocs1 (fst x) region = []"
        using prems(3) rm(2) by auto
      note IH = less.hyps [OF swap_remove_length [OF rm(1)] rm(3) p(3) this]
      show ?thesis
      proof (cases "allocate_tasks mpu region reqs' (f, e) allocs1 = Inl OutOf")
        case False
        then obtain start' allocs' where q: "allocate_tasks mpu region reqs' (f, e) allocs1 = Inr ((start', e), allocs')"
            "f \<le> start'" "start' \<le> e" "same_elsewhere reqs' region allocs1 allocs'"
            "\<forall>x \<in> set reqs'. placed mpu region (unat f) (unat start') allocs' x"
            "\<forall>x \<in> set reqs'. \<forall>y \<in> set reqs'. fst x \<noteq> fst y \<longrightarrow> apart (ranges_of allocs' (fst x) region) (ranges_of allocs' (fst y) region)"
          using IH by blast
        have rs': "ranges_of allocs' name region = rs"
          using q(4) rm(4) rs by (simp add: same_elsewhere_def names_of_def)
        have far: "apart rs (ranges_of allocs' (fst x) region)" if "x \<in> set reqs'" for x
          using q(5) that p(5) by (auto simp: placed_def intro: apart_ordered)
        have "placed mpu region (unat start) (unat start') allocs' (name, sizes)"
          using p(2,5,6) q(2) st(2) rs' by (auto simp: placed_def word_le_nat_alt intro!: exI [of _ "unat st"])
        moreover have "\<forall>x \<in> set reqs'. placed mpu region (unat start) (unat start') allocs' x"
          using q(5) p(2) st(2) by (auto simp: word_le_nat_alt intro: placed_mono)
        moreover have "\<forall>x \<in> set reqs. \<forall>y \<in> set reqs. fst x \<noteq> fst y \<longrightarrow> apart (ranges_of allocs' (fst x) region) (ranges_of allocs' (fst y) region)"
          using far rs' q(6) apart_commute unfolding rm(2) by (metis fst_conv insert_iff)
        moreover have "same_elsewhere reqs region allocs allocs'"
          using q(4) p(4) unfolding same_elsewhere_def names_of_def rm(2) only_ranges_def by auto
        moreover have "start \<le> start'" using st(2) p(2) q(2) by (simp add: word_le_nat_alt)
        ultimately show ?thesis using step q(1,3) unfolding rm(2) by auto
      qed (use step in simp)
    qed
  qed
qed

subsection \<open>From amounts to requests\<close>

definition good_request :: "MpuAlignment \<Rightarrow> nat \<Rightarrow> nat \<Rightarrow> u32 list \<Rightarrow> bool" where
  "good_request mpu n amt sizes \<longleftrightarrow> request_ok mpu sizes \<and> length sizes \<le> n \<and> amt \<le> total_of sizes
     \<and> (\<forall>q. pow2 q \<longrightarrow> 32 \<le> q \<longrightarrow> amt \<le> 2 * q \<longrightarrow> total_of sizes \<le> 2 * q)"

lemma to_deque_Inr:
  assumes "sorted_wrt (\<ge>) (map unat bs @ bytes)" "\<forall>b \<in> set bytes. b < 2 ^ 32"
  shows "to_deque bs bytes = Inr (bs @ map word_of_nat bytes)"
  using assms
proof (induction bytes arbitrary: bs)
  case (Cons b bytes)
  let ?w = "word_of_nat b :: u32"
  have w: "unat ?w = b" using Cons.prems(2) by (simp add: unsigned_of_nat take_bit_nat_eq_self)
  have "b \<le> unat x" if "x \<in> set bs" for x using Cons.prems(1) that by (simp add: sorted_wrt_append)
  then have "bs = [] \<or> ?w \<le> last bs" using w last_in_set [of bs] by (metis word_le_nat_alt)
  then have "push_back ?w bs = Inr (bs @ [?w])" by (simp add: push_back_def)
  moreover have "sorted_wrt (\<ge>) (map unat (bs @ [?w]) @ bytes)" using Cons.prems(1) w by simp
  ultimately show ?case using Cons.IH [of "bs @ [?w]"] Cons.prems(2) by simp
qed simp

lemma unat_of_nat_list: "\<forall>b \<in> set bytes. b < 2 ^ 32 \<Longrightarrow> map unat (map word_of_nat bytes :: u32 list) = bytes"
  by (induction bytes) (simp_all add: unsigned_of_nat take_bit_nat_eq_self)

lemma suggest_ok:
  assumes "mpu_ok mpu" "name \<noteq> ''kernel''" "0 < amt" "amt \<le> 2 ^ 30" "1 \<le> n"
  shows "\<exists>bytes. suggest_memory_region_size mpu name amt n = Inr bytes \<and> sum_list bytes < 2 ^ 32
    \<and> to_deque [] bytes = Inr (map word_of_nat bytes) \<and> good_request mpu n amt (map word_of_nat bytes)"
proof -
  have "\<exists>bytes. mpu_suggest_size mpu amt n = Inr bytes \<and> bytes \<noteq> [] \<and> length bytes \<le> n \<and> amt \<le> sum_list bytes
    \<and> sorted_wrt (\<ge>) bytes \<and> (\<forall>s \<in> set bytes. chunk_ok mpu s) \<and> (mpu = Chunk 32 \<longrightarrow> length bytes \<le> 1)
    \<and> (\<forall>q. pow2 q \<longrightarrow> 32 \<le> q \<longrightarrow> amt \<le> 2 * q \<longrightarrow> sum_list bytes \<le> 2 * q)"
  proof (cases "mpu = PowerOfTwo")
    case True
    then show ?thesis
      using suggest_power_of_two [of amt n] assms(4,5) by (fastforce simp: regions_ok_def chunk_ok_def)
  next
    case False
    then have m: "mpu = Chunk 32" using assms(1) by (simp add: mpu_ok_def)
    define x where x: "x = (amt + 31) div 32 * 32"
    have q: "x \<le> 2 * q" if "pow2 q" "32 \<le> q" "amt \<le> 2 * q" for q
    proof -
      have "32 dvd q" using pow2_dvd [OF pow2_32 that(1,2)] .
      then obtain j where "q = 32 * j" by (elim dvdE)
      with that(3) show ?thesis by (simp add: x)
    qed
    have "x + (amt + 31) mod 32 = amt + 31" "(amt + 31) mod 32 < 32" by (simp_all add: x)
    moreover have "1 \<le> (amt + 31) div 32" using assms(3) by simp
    ultimately have b: "amt \<le> x" "32 \<le> x" "x \<le> amt + 31" unfolding x by linarith+
    have "mpu_suggest_size mpu amt n = Inr [x]"
      using b(3) assms(4) by (simp add: mpu_suggest_size_def in64_def m flip: x) (simp add: x add.commute)
    with q b m assms(5) show ?thesis by (simp add: chunk_ok_def x)
  qed
  then obtain bytes where b: "mpu_suggest_size mpu amt n = Inr bytes" "bytes \<noteq> []" "length bytes \<le> n" "amt \<le> sum_list bytes"
      "sorted_wrt (\<ge>) bytes" "\<forall>s \<in> set bytes. chunk_ok mpu s" "mpu = Chunk 32 \<longrightarrow> length bytes \<le> 1"
      "\<forall>q. pow2 q \<longrightarrow> 32 \<le> q \<longrightarrow> amt \<le> 2 * q \<longrightarrow> sum_list bytes \<le> 2 * q"
    by blast
  have "pow2 (2 ^ 29)" unfolding pow2_def by (rule exI [of _ 29]) (rule refl)
  then have sum: "sum_list bytes \<le> 2 ^ 30" using b(8) assms(4) by (auto dest!: spec [of _ "2 ^ 29 :: nat"])
  then have lt: "\<forall>s \<in> set bytes. s < 2 ^ 32" using member_le_sum_list [of _ bytes] by fastforce
  note un = unat_of_nat_list [OF lt]
  have el: "\<forall>w \<in> set (map word_of_nat bytes :: u32 list). unat w \<in> set bytes" using lt by (auto simp: unsigned_of_nat take_bit_nat_eq_self)
  have sw: "sorted_wrt (\<ge>) (map word_of_nat bytes :: u32 list)"
    using b(5) un sorted_wrt_map [of "(\<ge>)" unat "map word_of_nat bytes :: u32 list"] by (simp add: word_le_nat_alt)
  have "request_ok mpu (map word_of_nat bytes)"
    using b(2,6,7) el sw assms(1) by (auto simp: request_ok_def chunks_ok_def mpu_ok_def split: MpuAlignment.splits)
  then have "good_request mpu n amt (map word_of_nat bytes)" using b(3,4,8) un by (simp add: good_request_def total_of_def)
  moreover have "to_deque [] bytes = Inr (map word_of_nat bytes)" using to_deque_Inr [of "[]" bytes] b(5) lt by simp
  ultimately show ?thesis using b(1) sum assms(2) by (auto simp: suggest_memory_region_size_def)
qed

text \<open>The amount a task asks for in a memory, and how many regions it may use there.\<close>

definition wants :: "(string \<times> TaskRequest) list \<Rightarrow> string \<Rightarrow> string \<Rightarrow> nat option" where
  "wants task_sizes t mem = (case map_of task_sizes t of None \<Rightarrow> None | Some req \<Rightarrow> map_of (req_memory req) mem)"

definition regions_for :: "(string \<times> TaskRequest) list \<Rightarrow> string \<Rightarrow> string \<Rightarrow> nat" where
  "regions_for task_sizes t mem =
     (if mem = ''flash'' then (case map_of task_sizes t of None \<Rightarrow> 0 | Some req \<Rightarrow> spare_regions req) + 1 else 1)"

lemma add_request_ok:
  assumes "mpu_ok mpu" "name \<noteq> ''kernel''" "0 < amt" "amt \<le> 2 ^ 30"
  shows "add_request mpu name task spare (mem, amt) reqs = Inl OverMaxSize
    \<or> (\<exists>reqs' sizes. add_request mpu name task spare (mem, amt) reqs = Inr reqs'
        \<and> good_request mpu (if mem = ''flash'' then spare + 1 else 1) amt sizes
        \<and> (\<forall>m. requests_in reqs' m = (if m = mem then index_map_insert name sizes (requests_in reqs m) else requests_in reqs m)))"
proof -
  let ?n = "if mem = ''flash'' then spare + 1 else 1"
  obtain bytes where b: "suggest_memory_region_size mpu name amt ?n = Inr bytes" "sum_list bytes < 2 ^ 32"
      "to_deque [] bytes = Inr (map word_of_nat bytes)" "good_request mpu ?n amt (map word_of_nat bytes)"
    using suggest_ok [OF assms, of ?n] by (cases "mem = ''flash''") auto
  have in64: "in64 (sum_list bytes) = Inr (sum_list bytes)" using b(2) by (simp add: in64_def)
  have "requests_in (btree_insert mem v reqs) m = (if m = mem then v else requests_in reqs m)" for v m
    by (simp add: requests_in_def)
  with b(1,3,4) in64 show ?thesis
    unfolding add_request_def Let_def fst_conv snd_conv by (auto split: option.splits)
qed

lemma add_requests_ok:
  assumes "mpu_ok mpu" "name \<noteq> ''kernel''" "distinct (map fst xs)" "\<forall>(mem, amt) \<in> set xs. 0 < amt \<and> amt \<le> 2 ^ 30"
  shows "add_requests mpu name task spare xs reqs = Inl OverMaxSize
    \<or> (\<exists>reqs'. add_requests mpu name task spare xs reqs = Inr reqs'
        \<and> (\<forall>m. case map_of xs m of
              None \<Rightarrow> requests_in reqs' m = requests_in reqs m
            | Some amt \<Rightarrow> \<exists>sizes. good_request mpu (if m = ''flash'' then spare + 1 else 1) amt sizes
                \<and> requests_in reqs' m = index_map_insert name sizes (requests_in reqs m)))"
  using assms(3,4)
proof (induction xs arbitrary: reqs)
  case (Cons x xs)
  obtain mem amt where x: "x = (mem, amt)" by (cases x)
  have amt: "0 < amt" "amt \<le> 2 ^ 30" using Cons.prems(2) x by auto
  show ?case
  proof (cases "add_request mpu name task spare x reqs = Inl OverMaxSize")
    case False
    then obtain r1 sizes where r1: "add_request mpu name task spare x reqs = Inr r1"
        "good_request mpu (if mem = ''flash'' then spare + 1 else 1) amt sizes"
        "\<forall>m. requests_in r1 m = (if m = mem then index_map_insert name sizes (requests_in reqs m) else requests_in reqs m)"
      using add_request_ok [OF assms(1,2) amt, of task spare mem reqs] x by auto
    have no: "map_of xs mem = None" using Cons.prems(1) x by (auto simp: map_of_eq_None_iff)
    show ?thesis
    proof (cases "add_requests mpu name task spare xs r1 = Inl OverMaxSize")
      case False
      then obtain r2 where r2: "add_requests mpu name task spare xs r1 = Inr r2"
          "\<forall>m. case map_of xs m of
              None \<Rightarrow> requests_in r2 m = requests_in r1 m
            | Some amt \<Rightarrow> \<exists>sizes. good_request mpu (if m = ''flash'' then spare + 1 else 1) amt sizes
                \<and> requests_in r2 m = index_map_insert name sizes (requests_in r1 m)"
        using Cons.IH [of r1] Cons.prems by auto
      have "case map_of (x # xs) m of
              None \<Rightarrow> requests_in r2 m = requests_in reqs m
            | Some amt \<Rightarrow> \<exists>sizes. good_request mpu (if m = ''flash'' then spare + 1 else 1) amt sizes
                \<and> requests_in r2 m = index_map_insert name sizes (requests_in reqs m)" for m
        using r2(2) [rule_format, of m] r1(2,3) no by (cases "m = mem") (auto simp: x split: option.splits)
      with r1(1) r2(1) show ?thesis by auto
    qed (simp add: r1(1))
  qed simp
qed simp

definition requested :: "MpuAlignment \<Rightarrow> (string \<times> TaskRequest) list \<Rightarrow> string set \<Rightarrow> requests \<Rightarrow> bool" where
  "requested mpu task_sizes ts reqs \<longleftrightarrow> (\<forall>m. distinct (map fst (requests_in reqs m))
     \<and> (\<forall>t. case map_of (requests_in reqs m) t of
           None \<Rightarrow> t \<in> ts \<longrightarrow> wants task_sizes t m = None
         | Some sizes \<Rightarrow> t \<in> ts \<and> (\<exists>amt. wants task_sizes t m = Some amt \<and> good_request mpu (regions_for task_sizes t m) amt sizes)))"

definition tasks_ok :: "(string \<times> TaskRequest) list \<Rightarrow> (string \<times> TaskToml) list \<Rightarrow> bool" where
  "tasks_ok task_sizes tasks \<longleftrightarrow> distinct (map fst tasks) \<and> (\<forall>(name, task) \<in> set tasks. name \<noteq> ''kernel''
     \<and> (\<exists>req. map_of task_sizes name = Some req \<and> distinct (map fst (req_memory req))
          \<and> (\<forall>(mem, amt) \<in> set (req_memory req). 0 < amt \<and> amt \<le> 2 ^ 30)))"

lemma task_requests_ok:
  assumes "mpu_ok mpu" "tasks_ok task_sizes tasks" "requested mpu task_sizes ts reqs" "ts \<inter> names_of tasks = {}"
  shows "task_requests mpu task_sizes tasks reqs = Inl OverMaxSize
    \<or> (\<exists>reqs'. task_requests mpu task_sizes tasks reqs = Inr reqs' \<and> requested mpu task_sizes (ts \<union> names_of tasks) reqs')"
  using assms(2-)
proof (induction tasks arbitrary: reqs ts)
  case (Cons x tasks)
  obtain name task where x: "x = (name, task)" by (cases x)
  obtain req where req: "map_of task_sizes name = Some req" "distinct (map fst (req_memory req))"
      "\<forall>(mem, amt) \<in> set (req_memory req). 0 < amt \<and> amt \<le> 2 ^ 30" "name \<noteq> ''kernel''"
    using Cons.prems(1) by (auto simp: tasks_ok_def x)
  show ?case
  proof (cases "add_requests mpu name task (spare_regions req) (req_memory req) reqs = Inl OverMaxSize")
    case False
    then obtain r1 where r1: "add_requests mpu name task (spare_regions req) (req_memory req) reqs = Inr r1"
        "\<forall>m. case map_of (req_memory req) m of
              None \<Rightarrow> requests_in r1 m = requests_in reqs m
            | Some amt \<Rightarrow> \<exists>sizes. good_request mpu (if m = ''flash'' then spare_regions req + 1 else 1) amt sizes
                \<and> requests_in r1 m = index_map_insert name sizes (requests_in reqs m)"
      using add_requests_ok [OF assms(1) req(4,2,3), of task "spare_regions req" reqs] by blast
    have w: "wants task_sizes name m = map_of (req_memory req) m"
        "regions_for task_sizes name m = (if m = ''flash'' then spare_regions req + 1 else 1)" for m
      by (simp_all add: wants_def regions_for_def req(1))
    have nts: "name \<notin> ts" using Cons.prems(3) by (auto simp: x names_of_def)
    have "requested mpu task_sizes (insert name ts) r1"
      unfolding requested_def
    proof (intro allI conjI)
      fix m t
      note rm = r1(2) [rule_format, of m]
      have old: "distinct (map fst (requests_in reqs m))"
          "case map_of (requests_in reqs m) t of
           None \<Rightarrow> t \<in> ts \<longrightarrow> wants task_sizes t m = None
         | Some sizes \<Rightarrow> t \<in> ts \<and> (\<exists>amt. wants task_sizes t m = Some amt \<and> good_request mpu (regions_for task_sizes t m) amt sizes)"
        using Cons.prems(2) unfolding requested_def by blast+
      show "distinct (map fst (requests_in r1 m))"
        using rm old(1) by (auto simp: distinct_index_map_insert split: option.splits)
      show "case map_of (requests_in r1 m) t of
           None \<Rightarrow> t \<in> insert name ts \<longrightarrow> wants task_sizes t m = None
         | Some sizes \<Rightarrow> t \<in> insert name ts \<and> (\<exists>amt. wants task_sizes t m = Some amt \<and> good_request mpu (regions_for task_sizes t m) amt sizes)"
        using rm old(2) nts w [of m] by (cases "map_of (req_memory req) m"; cases "t = name") (auto split: option.splits)
    qed
    moreover have "tasks_ok task_sizes tasks" "insert name ts \<inter> names_of tasks = {}"
      using Cons.prems(1,3) by (auto simp: tasks_ok_def x names_of_def)
    moreover have "ts \<union> names_of (x # tasks) = insert name ts \<union> names_of tasks" by (auto simp: x names_of_def)
    ultimately show ?thesis using Cons.IH [of "insert name ts" r1] r1(1) req(1) by (auto simp: x)
  qed (simp add: x req(1))
qed (simp add: names_of_def)

subsection \<open>A memory with the kernel\<close>

lemma allocate_k_ok:
  assumes "0 < sz" "unat start + 15 + unat sz < 2 ^ 32"
  shows "allocate_k sz (start, e) = Inl OutOf
    \<or> (\<exists>b. allocate_k sz (start, e) = Inr ((b, b + sz), (b + sz, e)) \<and> start \<le> b \<and> 16 dvd unat b
        \<and> unat (b + sz) = unat b + unat sz \<and> unat b + unat sz \<le> unat e)"
proof -
  have "pow2 (unat (16 :: u32))" unfolding pow2_def by (rule exI [of _ 4]) simp
  then obtain b where b: "round_up start 15 = Inr b" "unat b = up (unat start) 16"
    using round_up_Inr [of 16 start] assms(2) by auto
  have ub: "unat start \<le> unat b" "unat b < unat start + 16" "16 dvd unat b"
    using up_bounds [of 16 "unat start"] b(2) by auto
  then have lt: "unat b + unat sz < 2 ^ 32" using assms(2) by linarith
  then have bs: "add32 b sz = Inr (b + sz)" "unat (b + sz) = unat b + unat sz" by (simp_all add: add32_Inr unat_add_nowrap)
  have s0: "0 < unat sz" using assms(1) by (simp add: word_less_nat_alt)
  then have one: "1 \<le> b + sz" using bs(2) unfolding word_le_nat_alt by simp
  then have f: "sub32 (b + sz) 1 = Inr (b + sz - 1)" "unat (b + sz - 1) = unat b + unat sz - 1"
    using bs(2) by (simp_all add: sub32_Inr unat_sub)
  have "start \<le> b + sz - 1 \<and> b + sz - 1 < e \<longleftrightarrow> unat b + unat sz \<le> unat e"
    unfolding word_le_nat_alt word_less_nat_alt f(2) using ub s0 by linarith
  then show ?thesis using b(1) bs f(1) ub by (auto simp: allocate_k_def word_le_nat_alt)
qed

definition no_allocations :: allocations where
  "no_allocations = \<lparr>al_kernel = [], al_tasks = [], al_caboose = None\<rparr>"

text \<open>
  The layout of one memory between two addresses: the kernel first, then every task that wants
  memory there, in a span of at least the amount it wants and of as many regions as it may use.
\<close>

definition laid_out :: "MpuAlignment \<Rightarrow> u32 option \<Rightarrow> (string \<Rightarrow> nat option) \<Rightarrow> (string \<Rightarrow> nat) \<Rightarrow> string set
    \<Rightarrow> allocations \<Rightarrow> string \<Rightarrow> nat \<Rightarrow> nat \<Rightarrow> bool" where
  "laid_out mpu k_req want n ts allocs region lo hi \<longleftrightarrow> (\<exists>mid. lo \<le> mid \<and> mid \<le> hi
     \<and> (case k_req of
          None \<Rightarrow> True
        | Some sz \<Rightarrow> \<exists>b. map_of (al_kernel allocs) region = Some (b, b + sz) \<and> lo \<le> unat b \<and> 16 dvd unat b
            \<and> unat b + unat sz = mid)
     \<and> (\<forall>t \<in> ts. \<forall>amt. want t = Some amt \<longrightarrow> length (ranges_of allocs t region) \<le> n t
          \<and> (\<exists>a b. mid \<le> a \<and> a + amt \<le> b \<and> b \<le> hi \<and> span_ok mpu a (ranges_of allocs t region) b))
     \<and> (\<forall>t \<in> ts. \<forall>t' \<in> ts. t \<noteq> t' \<longrightarrow> want t \<noteq> None \<longrightarrow> want t' \<noteq> None \<longrightarrow>
          apart (ranges_of allocs t region) (ranges_of allocs t' region))
     \<and> (\<forall>t. t \<notin> ts \<or> want t = None \<longrightarrow> ranges_of allocs t region = []))"

text \<open>What the layout of a memory depends on.\<close>

definition same_memory :: "string \<Rightarrow> allocations \<Rightarrow> allocations \<Rightarrow> bool" where
  "same_memory region allocs allocs' \<longleftrightarrow> map_of (al_kernel allocs') region = map_of (al_kernel allocs) region
     \<and> (\<forall>t. ranges_of allocs' t region = ranges_of allocs t region)"

lemma laid_out_cong: "same_memory region allocs allocs' \<Longrightarrow>
    laid_out mpu k want n ts allocs' region lo hi \<longleftrightarrow> laid_out mpu k want n ts allocs region lo hi"
proof -
  assume "same_memory region allocs allocs'"
  then have e: "map_of (al_kernel allocs') region = map_of (al_kernel allocs) region"
      "\<And>t. ranges_of allocs' t region = ranges_of allocs t region"
    by (simp_all add: same_memory_def)
  show ?thesis unfolding laid_out_def e ..
qed

lemma requested_Some:
  assumes "requested mpu task_sizes ts reqs" "map_of (requests_in reqs m) t = Some sizes"
  shows "t \<in> ts \<and> (\<exists>amt. wants task_sizes t m = Some amt \<and> good_request mpu (regions_for task_sizes t m) amt sizes)"
proof -
  have "case map_of (requests_in reqs m) t of
           None \<Rightarrow> t \<in> ts \<longrightarrow> wants task_sizes t m = None
         | Some sizes \<Rightarrow> t \<in> ts \<and> (\<exists>amt. wants task_sizes t m = Some amt \<and> good_request mpu (regions_for task_sizes t m) amt sizes)"
    using assms(1) unfolding requested_def by blast
  then show ?thesis by (simp add: assms(2))
qed

lemma requested_wanted:
  assumes "requested mpu task_sizes ts reqs" "t \<in> ts" "wants task_sizes t m = Some amt"
  shows "\<exists>sizes. (t, sizes) \<in> set (requests_in reqs m) \<and> good_request mpu (regions_for task_sizes t m) amt sizes"
proof (cases "map_of (requests_in reqs m) t")
  case None
  have "case map_of (requests_in reqs m) t of None \<Rightarrow> t \<in> ts \<longrightarrow> wants task_sizes t m = None
         | Some sizes \<Rightarrow> t \<in> ts \<and> (\<exists>amt. wants task_sizes t m = Some amt \<and> good_request mpu (regions_for task_sizes t m) amt sizes)"
    using assms(1) unfolding requested_def by blast
  then show ?thesis using None assms(2,3) by simp
next
  case (Some sizes)
  then show ?thesis using requested_Some [OF assms(1) Some] assms(3) by (auto dest: map_of_SomeD)
qed

lemma allocate_region_ok:
  assumes "mpu_ok mpu" and req: "requested mpu task_sizes ts reqs" and "start \<le> e" "unat e \<le> 2 ^ 31"
    and amts: "\<forall>t \<in> ts. \<forall>amt. wants task_sizes t region = Some amt \<longrightarrow> amt \<le> 2 ^ 30"
    and k: "case k_req of None \<Rightarrow> True | Some sz \<Rightarrow> 0 < sz \<and> unat sz \<le> 2 ^ 30"
    and none: "\<forall>t. ranges_of allocs t region = []"
  shows "allocate_region mpu region k_req (requests_in reqs region) (start, e) allocs = Inl OutOf
    \<or> (\<exists>start' allocs'. allocate_region mpu region k_req (requests_in reqs region) (start, e) allocs = Inr ((start', e), allocs')
        \<and> start' \<le> e \<and> al_caboose allocs' = al_caboose allocs \<and> (\<forall>r. r \<noteq> region \<longrightarrow> same_memory r allocs allocs')
        \<and> laid_out mpu k_req (\<lambda>t. wants task_sizes t region) (\<lambda>t. regions_for task_sizes t region) ts allocs' region (unat start) (unat start'))"
proof -
  define kern where "kern = (case k_req of None \<Rightarrow> Inr ((start, e), allocs)
      | Some sz \<Rightarrow> ebind (allocate_k sz (start, e)) (\<lambda>(r, avail').
          Inr (avail', allocs\<lparr>al_kernel := btree_insert region r (al_kernel allocs)\<rparr>)))"
  have kern: "kern = Inl OutOf \<or> (\<exists>mid allocs1. kern = Inr ((mid, e), allocs1) \<and> start \<le> mid \<and> mid \<le> e
      \<and> al_tasks allocs1 = al_tasks allocs \<and> al_caboose allocs1 = al_caboose allocs
      \<and> (\<forall>r. r \<noteq> region \<longrightarrow> map_of (al_kernel allocs1) r = map_of (al_kernel allocs) r)
      \<and> (case k_req of None \<Rightarrow> True
         | Some sz \<Rightarrow> \<exists>b. map_of (al_kernel allocs1) region = Some (b, b + sz) \<and> unat start \<le> unat b \<and> 16 dvd unat b
            \<and> unat b + unat sz = unat mid))"
  proof (cases k_req)
    case None
    then show ?thesis using assms(3) by (simp add: kern_def)
  next
    case (Some sz)
    have "unat start + 15 + unat sz < 2 ^ 32" using k Some assms(3,4) by (simp add: word_le_nat_alt)
    then show ?thesis
      using allocate_k_ok [of sz start e] k Some by (auto simp: kern_def word_le_nat_alt)
  qed
  have eq: "allocate_region mpu region k_req (requests_in reqs region) (start, e) allocs
      = ebind kern (\<lambda>(avail, allocs). allocate_tasks mpu region (requests_in reqs region) avail allocs)"
    by (simp add: allocate_region_def kern_def)
  show ?thesis
  proof (cases "kern = Inl OutOf")
    case True
    then show ?thesis using eq by simp
  next
    case False
    then obtain mid allocs1 where m: "kern = Inr ((mid, e), allocs1)" "start \<le> mid" "mid \<le> e"
        "al_tasks allocs1 = al_tasks allocs" "al_caboose allocs1 = al_caboose allocs"
        "\<forall>r. r \<noteq> region \<longrightarrow> map_of (al_kernel allocs1) r = map_of (al_kernel allocs) r"
        "case k_req of None \<Rightarrow> True
         | Some sz \<Rightarrow> \<exists>b. map_of (al_kernel allocs1) region = Some (b, b + sz) \<and> unat start \<le> unat b \<and> 16 dvd unat b
            \<and> unat b + unat sz = unat mid"
      using kern by blast
    let ?reqs = "requests_in reqs region"
    have d: "distinct (map fst ?reqs)" using req by (simp add: requested_def)
    have look: "\<exists>amt. fst x \<in> ts \<and> wants task_sizes (fst x) region = Some amt
        \<and> good_request mpu (regions_for task_sizes (fst x) region) amt (snd x)" if "x \<in> set ?reqs" for x
    proof -
      have "map_of ?reqs (fst x) = Some (snd x)" using that d by simp
      from requested_Some [OF req this] show ?thesis by blast
    qed
    have p29: "pow2 (2 ^ 29)" unfolding pow2_def by (rule exI [of _ 29]) (rule refl)
    have small: "total_of (snd x) \<le> 2 ^ 30 \<and> request_ok mpu (snd x)" if x: "x \<in> set ?reqs" for x
    proof -
      obtain amt where a: "fst x \<in> ts" "wants task_sizes (fst x) region = Some amt"
          "good_request mpu (regions_for task_sizes (fst x) region) amt (snd x)" using look [OF x] by blast
      have "amt \<le> 2 * 2 ^ 29" using amts a(1,2) by auto
      then have "total_of (snd x) \<le> 2 * 2 ^ 29" using a(3) p29 unfolding good_request_def by (auto dest!: spec [of _ "2 ^ 29 :: nat"])
      then show ?thesis using a(3) by (simp add: good_request_def)
    qed
    have r1: "ranges_of allocs1 t r = ranges_of allocs t r" for t r using m(4) by (simp add: ranges_of_def)
    have all: "\<forall>x \<in> set ?reqs. request_ok mpu (snd x) \<and> unat e + 2 * total_of (snd x) \<le> 2 ^ 32 \<and> ranges_of allocs1 (fst x) region = []"
      using small assms(4) none r1 by fastforce
    have "unat mid \<le> unat e" using m(3) by (simp add: word_le_nat_alt)
    note at = allocate_tasks_ok [OF assms(1) d this all]
    show ?thesis
    proof (cases "allocate_tasks mpu region ?reqs (mid, e) allocs1 = Inl OutOf")
      case True
      then show ?thesis using eq m(1) by simp
    next
      case False
      then obtain start' allocs' where q: "allocate_tasks mpu region ?reqs (mid, e) allocs1 = Inr ((start', e), allocs')"
          "mid \<le> start'" "start' \<le> e" "same_elsewhere ?reqs region allocs1 allocs'"
          "\<forall>x \<in> set ?reqs. placed mpu region (unat mid) (unat start') allocs' x"
          "\<forall>x \<in> set ?reqs. \<forall>y \<in> set ?reqs. fst x \<noteq> fst y \<longrightarrow> apart (ranges_of allocs' (fst x) region) (ranges_of allocs' (fst y) region)"
        using at by blast
      have wanted: "\<exists>sizes. (t, sizes) \<in> set ?reqs \<and> good_request mpu (regions_for task_sizes t region) amt sizes"
        if t: "t \<in> ts" "wants task_sizes t region = Some amt" for t amt
        using requested_wanted [OF req t] .
      have "laid_out mpu k_req (\<lambda>t. wants task_sizes t region) (\<lambda>t. regions_for task_sizes t region) ts allocs' region (unat start) (unat start')"
        unfolding laid_out_def
      proof (rule exI [of _ "unat mid"], intro conjI ballI allI impI)
        show "unat start \<le> unat mid" "unat mid \<le> unat start'" using m(2) q(2) by (simp_all add: word_le_nat_alt)
        show "case k_req of None \<Rightarrow> True
          | Some sz \<Rightarrow> \<exists>b. map_of (al_kernel allocs') region = Some (b, b + sz) \<and> unat start \<le> unat b \<and> 16 dvd unat b
            \<and> unat b + unat sz = unat mid" using m(7) q(4) by (cases k_req) (auto simp: same_elsewhere_def)
      next
        fix t amt assume t: "t \<in> ts" "wants task_sizes t region = Some amt"
        obtain sizes where z: "(t, sizes) \<in> set ?reqs" "good_request mpu (regions_for task_sizes t region) amt sizes"
          using wanted [OF t] by blast
        then have "placed mpu region (unat mid) (unat start') allocs' (t, sizes)" using q(5) by blast
        with z(2) show "length (ranges_of allocs' t region) \<le> regions_for task_sizes t region"
          and "\<exists>a b. unat mid \<le> a \<and> a + amt \<le> b \<and> b \<le> unat start' \<and> span_ok mpu a (ranges_of allocs' t region) b"
          unfolding placed_def good_request_def by (auto, meson add_left_mono)
      next
        fix t t' assume "t \<in> ts" "t' \<in> ts" "t \<noteq> t'" "wants task_sizes t region \<noteq> None" "wants task_sizes t' region \<noteq> None"
        then show "apart (ranges_of allocs' t region) (ranges_of allocs' t' region)"
          using wanted q(6) by (metis fst_conv not_None_eq)
      next
        fix t assume t: "t \<notin> ts \<or> wants task_sizes t region = None"
        have "t \<notin> names_of ?reqs"
        proof
          assume "t \<in> names_of ?reqs"
          then obtain x where x: "x \<in> set ?reqs" "t = fst x" by (auto simp: names_of_def)
          show False using look [OF x(1)] t x(2) by auto
        qed
        then show "ranges_of allocs' t region = []" using q(4) r1 none by (simp add: same_elsewhere_def)
      qed
      moreover have "al_caboose allocs' = al_caboose allocs" using q(4) m(5) by (simp add: same_elsewhere_def)
      moreover have "\<forall>r. r \<noteq> region \<longrightarrow> same_memory r allocs allocs'"
        using q(4) m(6) r1 by (simp add: same_elsewhere_def same_memory_def)
      ultimately show ?thesis using eq m(1) q(1,3) by auto
    qed
  qed
qed

subsection \<open>A whole image\<close>

lemma laid_out_le: "laid_out mpu k want n ts allocs region lo hi \<Longrightarrow> lo \<le> hi"
  by (auto simp: laid_out_def)

lemma allocate_regions_ok:
  assumes "mpu_ok mpu" "requested mpu task_sizes ts reqs"
    and amts: "\<forall>t \<in> ts. \<forall>m amt. wants task_sizes t m = Some amt \<longrightarrow> amt \<le> 2 ^ 30"
    and k: "\<forall>(r, sz) \<in> set kreqs. 0 < sz \<and> unat sz \<le> 2 ^ 30"
    and free: "distinct (map fst free)" "\<forall>(r, lo, hi) \<in> set free. lo \<le> hi \<and> unat hi \<le> 2 ^ 31"
    and none: "\<forall>t. \<forall>r \<in> names_of free. ranges_of allocs t r = []"
  shows "allocate_regions mpu kreqs reqs free allocs = Inl OutOf
    \<or> (\<exists>free' allocs'. allocate_regions mpu kreqs reqs free allocs = Inr (free', allocs')
        \<and> al_caboose allocs' = al_caboose allocs \<and> (\<forall>r. r \<notin> names_of free \<longrightarrow> same_memory r allocs allocs' \<and> map_of free' r = None)
        \<and> (\<forall>(r, lo, hi) \<in> set free. \<exists>mid. map_of free' r = Some (mid, hi) \<and> mid \<le> hi
             \<and> laid_out mpu (map_of kreqs r) (\<lambda>t. wants task_sizes t r) (\<lambda>t. regions_for task_sizes t r) ts allocs' r (unat lo) (unat mid)))"
  using free none
proof (induction free arbitrary: allocs)
  case (Cons x free)
  obtain r lo hi where x: "x = (r, lo, hi)" by (cases x)
  have kr: "case map_of kreqs r of None \<Rightarrow> True | Some sz \<Rightarrow> 0 < sz \<and> unat sz \<le> 2 ^ 30"
    using k by (auto split: option.splits dest!: map_of_SomeD)
  have mem: "lo \<le> hi" "unat hi \<le> 2 ^ 31" "\<forall>t. ranges_of allocs t r = []"
    using Cons.prems(2,3) by (auto simp: x names_of_def)
  have "\<forall>t \<in> ts. \<forall>amt. wants task_sizes t r = Some amt \<longrightarrow> amt \<le> 2 ^ 30" using amts by blast
  note ar = allocate_region_ok [OF assms(1,2) mem(1,2) this kr mem(3)]
  show ?case
  proof (cases "allocate_region mpu r (map_of kreqs r) (requests_in reqs r) (lo, hi) allocs = Inl OutOf")
    case True
    then show ?thesis by (simp add: x)
  next
    case False
    then obtain mid allocs1 where a: "allocate_region mpu r (map_of kreqs r) (requests_in reqs r) (lo, hi) allocs = Inr ((mid, hi), allocs1)"
        "mid \<le> hi" "al_caboose allocs1 = al_caboose allocs" "\<forall>r'. r' \<noteq> r \<longrightarrow> same_memory r' allocs allocs1"
        "laid_out mpu (map_of kreqs r) (\<lambda>t. wants task_sizes t r) (\<lambda>t. regions_for task_sizes t r) ts allocs1 r (unat lo) (unat mid)"
      using ar by blast
    have nr: "r \<notin> names_of free" using Cons.prems(1) by (auto simp: x names_of_def)
    have "\<forall>t. \<forall>r' \<in> names_of free. ranges_of allocs1 t r' = []"
    proof (intro allI ballI)
      fix t r' assume r': "r' \<in> names_of free"
      then have "r' \<noteq> r" using nr by blast
      with a(4) have "ranges_of allocs1 t r' = ranges_of allocs t r'" by (simp add: same_memory_def)
      then show "ranges_of allocs1 t r' = []" using Cons.prems(3) r' by (auto simp: names_of_def)
    qed
    then have IH: "allocate_regions mpu kreqs reqs free allocs1 = Inl OutOf
      \<or> (\<exists>free' allocs'. allocate_regions mpu kreqs reqs free allocs1 = Inr (free', allocs')
        \<and> al_caboose allocs' = al_caboose allocs1 \<and> (\<forall>r. r \<notin> names_of free \<longrightarrow> same_memory r allocs1 allocs' \<and> map_of free' r = None)
        \<and> (\<forall>(r, lo, hi) \<in> set free. \<exists>mid. map_of free' r = Some (mid, hi) \<and> mid \<le> hi
             \<and> laid_out mpu (map_of kreqs r) (\<lambda>t. wants task_sizes t r) (\<lambda>t. regions_for task_sizes t r) ts allocs' r (unat lo) (unat mid)))"
      using Cons.IH [of allocs1] Cons.prems(1,2) by simp
    show ?thesis
    proof (cases "allocate_regions mpu kreqs reqs free allocs1 = Inl OutOf")
      case True
      then show ?thesis using a(1) by (simp add: x)
    next
      case False
      then obtain free' allocs' where q: "allocate_regions mpu kreqs reqs free allocs1 = Inr (free', allocs')"
          "al_caboose allocs' = al_caboose allocs1" "\<forall>r. r \<notin> names_of free \<longrightarrow> same_memory r allocs1 allocs' \<and> map_of free' r = None"
          "\<forall>(r, lo, hi) \<in> set free. \<exists>mid. map_of free' r = Some (mid, hi) \<and> mid \<le> hi
             \<and> laid_out mpu (map_of kreqs r) (\<lambda>t. wants task_sizes t r) (\<lambda>t. regions_for task_sizes t r) ts allocs' r (unat lo) (unat mid)"
        using IH by blast
      let ?free = "(r, mid, hi) # free'"
      have "laid_out mpu (map_of kreqs r) (\<lambda>t. wants task_sizes t r) (\<lambda>t. regions_for task_sizes t r) ts allocs' r (unat lo) (unat mid)"
        using a(5) q(3) nr laid_out_cong by blast
      moreover have "map_of ?free r' = map_of free' r'" if "r' \<in> names_of free" for r' using that nr by auto
      ultimately have "\<forall>(r, lo, hi) \<in> set (x # free). \<exists>mid. map_of ?free r = Some (mid, hi) \<and> mid \<le> hi
             \<and> laid_out mpu (map_of kreqs r) (\<lambda>t. wants task_sizes t r) (\<lambda>t. regions_for task_sizes t r) ts allocs' r (unat lo) (unat mid)"
        using q(4) a(2) by (force simp: x names_of_def)
      moreover have "same_memory r' allocs allocs' \<and> map_of ?free r' = None" if "r' \<notin> names_of (x # free)" for r'
        using that q(3) a(4) by (auto simp: x names_of_def same_memory_def)
      ultimately show ?thesis using q(1,2) a(1,3) by (simp add: x)
    qed
  qed
qed (simp add: names_of_def same_memory_def)

lemma memories_Inr:
  assumes "memories toml image_name = Inr mems"
  shows "map fst mems = map fst (outputs toml)"
    and "\<forall>(r, lo, hi) \<in> set mems. \<exists>os. (r, os) \<in> set (outputs toml) \<and> (\<exists>o' \<in> set os. lo = out_address o'
           \<and> unat hi = unat (out_address o') + unat (out_size o'))"
proof -
  have step: "fst y = fst x \<and> (\<exists>o' \<in> set (snd x). fst (snd y) = out_address o' \<and> unat (snd (snd y)) = unat (out_address o') + unat (out_size o'))"
    if "memory_of image_name x = Inr y" for x y
  proof -
    from that obtain o' where o: "filter (\<lambda>r. out_name r = image_name) (snd x) = [o']"
      by (auto simp: memory_of_def split: list.splits)
    then have "o' \<in> set (filter (\<lambda>r. out_name r = image_name) (snd x))" by simp
    then have "o' \<in> set (snd x)" by simp
    with o that show ?thesis
      by (auto simp: memory_of_def dest: checked_add_SomeD split: option.splits intro!: bexI [of _ o'])
  qed
  have "map fst mems = map fst os \<and> (\<forall>(r, lo, hi) \<in> set mems. \<exists>us. (r, us) \<in> set os \<and> (\<exists>o' \<in> set us. lo = out_address o'
           \<and> unat hi = unat (out_address o') + unat (out_size o')))"
    if "collect (memory_of image_name) os = Inr mems" for os mems
    using that
  proof (induction os arbitrary: mems)
    case (Cons x os)
    then obtain y ys where y: "memory_of image_name x = Inr y" "collect (memory_of image_name) os = Inr ys" "mems = y # ys"
      by (auto simp: ebind_def split: sum.splits)
    then show ?case using Cons.IH [OF y(2)] step [OF y(1)] by (cases x; cases y) fastforce
  qed simp
  then show "map fst mems = map fst (outputs toml)"
    and "\<forall>(r, lo, hi) \<in> set mems. \<exists>os. (r, os) \<in> set (outputs toml) \<and> (\<exists>o' \<in> set os. lo = out_address o'
           \<and> unat hi = unat (out_address o') + unat (out_size o'))"
    using assms unfolding memories_def by blast+
qed

lemma memories_Inl: "memories toml image_name = Inl err \<Longrightarrow> err = BadMemory"
proof -
  have "collect (memory_of image_name) os = Inl err \<Longrightarrow> err = BadMemory" for os
    by (induction os) (auto simp: ebind_def memory_of_def split: sum.splits list.splits option.splits)
  then show "memories toml image_name = Inl err \<Longrightarrow> err = BadMemory" by (simp add: memories_def)
qed

lemma place_caboose_ok:
  assumes "mpu_ok (cfg_mpu toml)" "\<forall>r mid hi. map_of free r = Some (mid, hi) \<longrightarrow> mid \<le> hi \<and> unat hi \<le> 2 ^ 31"
  shows "case place_caboose toml c free allocs of
      Inl err \<Rightarrow> err \<noteq> Panicked
    | Inr (free', allocs') \<Rightarrow> \<exists>mid hi r. map_of free (cc_region c) = Some (mid, hi) \<and> mid \<le> fst r \<and> snd r \<le> hi
        \<and> allocs' = allocs\<lparr>al_caboose := Some (cc_region c, r)\<rparr>"
proof (cases "''caboose'' \<in> set (map fst (cfg_tasks toml)) \<or> \<not> is_power_of_two (cc_size c) \<or> map_of free (cc_region c) = None")
  case True
  then show ?thesis by (auto simp: place_caboose_def)
next
  case False
  then obtain mid hi where f: "map_of free (cc_region c) = Some (mid, hi)" "is_power_of_two (cc_size c)" by auto
  then have b: "mid \<le> hi" "unat hi \<le> 2 ^ 31" using assms(2) by auto
  obtain a where a: "memory_region_alignment (cfg_mpu toml) (cc_size c) = Inr a" "pow2 (unat a)"
    using assms(1) f(2) by (auto simp: mpu_ok_def memory_region_alignment_def is_power_of_two_iff)
  obtain k where k: "k < 32" "unat a = 2 ^ k" by (rule pow2_word [OF a(2)])
  have "(2 :: nat) ^ k \<le> 2 ^ 31" using k(1) by (intro power_increasing) auto
  then have "unat mid + (unat a - 1) < 2 ^ 32" using b k(2) by (simp add: word_le_nat_alt)
  then obtain s where s: "unat s = up (unat mid) (unat a)" "allocate_one (cc_size c) a (mid, hi) =
     (if unat s < unat hi \<and> unat s + unat (cc_size c) \<le> unat hi then Inr ((s, s + cc_size c), (s + cc_size c, hi)) else Inl OutOf)"
    using allocate_one_eq [OF a(2), of "(mid, hi)" "cc_size c"] by auto
  have "mid \<le> s" using up_bounds [OF pow2_pos [OF a(2)], of "unat mid"] s(1) by (simp add: word_le_nat_alt)
  moreover have "unat (s + cc_size c) \<le> unat hi" if "unat s + unat (cc_size c) \<le> unat hi"
  proof -
    have "unat s + unat (cc_size c) < 2 ^ 32" using that b(2) by simp
    then show ?thesis using that by (simp add: unat_add_nowrap)
  qed
  ultimately show ?thesis using False f a(1) s(2)
    by (auto simp: place_caboose_def word_le_nat_alt)
qed

definition alloc_input_ok :: "Config \<Rightarrow> (string \<times> TaskRequest) list \<Rightarrow> bool" where
  "alloc_input_ok toml task_sizes \<longleftrightarrow> mpu_ok (cfg_mpu toml) \<and> tasks_ok task_sizes (cfg_tasks toml)
     \<and> distinct (map fst (outputs toml)) \<and> (\<forall>(r, sz) \<in> set (kernel_requires toml). 0 < sz \<and> unat sz \<le> 2 ^ 30)
     \<and> (\<forall>(r, os) \<in> set (outputs toml). \<forall>m \<in> set os. unat (out_address m) + unat (out_size m) \<le> 2 ^ 31)"

lemma tasks_ok_amount:
  assumes "tasks_ok task_sizes tasks" "t \<in> names_of tasks" "wants task_sizes t m = Some amt"
  shows "amt \<le> 2 ^ 30"
proof -
  obtain task where "(t, task) \<in> set tasks" using assms(2) by (auto simp: names_of_def)
  then obtain req where req: "map_of task_sizes t = Some req" "\<forall>(mem, amt) \<in> set (req_memory req). 0 < amt \<and> amt \<le> 2 ^ 30"
    using assms(1) by (force simp: tasks_ok_def)
  then have "map_of (req_memory req) m = Some amt" using assms(3) by (simp add: wants_def)
  with req(2) show ?thesis by (auto dest: map_of_SomeD)
qed

lemma image_regions:
  assumes "alloc_input_ok toml task_sizes" and mems: "memories toml image_name = Inr mems"
  shows "(\<exists>err. allocate_image toml task_sizes caboose image_name = Inl err \<and> err \<noteq> Panicked)
    \<or> (\<exists>free allocs. al_caboose allocs = None
        \<and> allocate_image toml task_sizes caboose image_name
            = ebind (case caboose of None \<Rightarrow> Inr (free, allocs) | Some c \<Rightarrow> place_caboose toml c free allocs) (\<lambda>(free, allocs). Inr (allocs, free))
        \<and> (\<forall>r mid hi. map_of free r = Some (mid, hi) \<longrightarrow> mid \<le> hi \<and> unat hi \<le> 2 ^ 31)
        \<and> (\<forall>t r. r \<notin> names_of mems \<longrightarrow> ranges_of allocs t r = [])
        \<and> (\<forall>(r, lo, hi) \<in> set mems. \<exists>mid. map_of free r = Some (mid, hi) \<and> unat mid \<le> unat hi
             \<and> laid_out (cfg_mpu toml) (map_of (kernel_requires toml) r) (\<lambda>t. wants task_sizes t r) (\<lambda>t. regions_for task_sizes t r)
                 (names_of (cfg_tasks toml)) allocs r (unat lo) (unat mid)))"
proof -
  note ok = assms(1) [unfolded alloc_input_ok_def]
  have m: "mpu_ok (cfg_mpu toml)" "tasks_ok task_sizes (cfg_tasks toml)" using ok by auto
  have d: "distinct (map fst mems)" using memories_Inr(1) [OF mems] ok by simp
  have bnd: "\<forall>(r, lo, hi) \<in> set mems. lo \<le> hi \<and> unat hi \<le> 2 ^ 31"
    using memories_Inr(2) [OF mems] ok by (fastforce simp: word_le_nat_alt)
  have "requested (cfg_mpu toml) task_sizes {} []" by (simp add: requested_def requests_in_def)
  note req = task_requests_ok [OF m this]
  show ?thesis
  proof (cases "task_requests (cfg_mpu toml) task_sizes (cfg_tasks toml) []")
    case (Inl err)
    then show ?thesis using req mems by (auto simp: allocate_image_def)
  next
    case (Inr reqs)
    have rq: "requested (cfg_mpu toml) task_sizes (names_of (cfg_tasks toml)) reqs" using req Inr by auto
    have amts: "\<forall>t \<in> names_of (cfg_tasks toml). \<forall>m amt. wants task_sizes t m = Some amt \<longrightarrow> amt \<le> 2 ^ 30"
      using tasks_ok_amount [OF m(2)] by blast
    have k: "\<forall>(r, sz) \<in> set (kernel_requires toml). 0 < sz \<and> unat sz \<le> 2 ^ 30" using ok by blast
    have none: "\<forall>t. \<forall>r \<in> names_of mems. ranges_of no_allocations t r = []" by (simp add: ranges_of_def no_allocations_def)
    note reg = allocate_regions_ok [OF m(1) rq amts k d bnd none]
    show ?thesis
    proof (cases "allocate_regions (cfg_mpu toml) (kernel_requires toml) reqs mems no_allocations = Inl OutOf")
      case True
      then show ?thesis using Inr mems by (simp add: allocate_image_def no_allocations_def)
    next
      case False
      then obtain free allocs where q: "allocate_regions (cfg_mpu toml) (kernel_requires toml) reqs mems no_allocations = Inr (free, allocs)"
          "al_caboose allocs = None" "\<forall>r. r \<notin> names_of mems \<longrightarrow> same_memory r no_allocations allocs \<and> map_of free r = None"
          "\<forall>(r, lo, hi) \<in> set mems. \<exists>mid. map_of free r = Some (mid, hi) \<and> mid \<le> hi
             \<and> laid_out (cfg_mpu toml) (map_of (kernel_requires toml) r) (\<lambda>t. wants task_sizes t r) (\<lambda>t. regions_for task_sizes t r)
                 (names_of (cfg_tasks toml)) allocs r (unat lo) (unat mid)"
        using reg by (auto simp: no_allocations_def)
      have none': "\<forall>t r. r \<notin> names_of mems \<longrightarrow> ranges_of allocs t r = []"
        using q(3) by (simp add: same_memory_def ranges_of_def no_allocations_def)
      have "mid \<le> hi \<and> unat hi \<le> 2 ^ 31" if f: "map_of free r = Some (mid, hi)" for r mid hi
      proof -
        obtain lo' hi' where x: "(r, lo', hi') \<in> set mems" using q(3) f by (fastforce simp: names_of_def)
        with q(4) f have "hi' = hi" "mid \<le> hi" by force+
        with bnd x show ?thesis by auto
      qed
      then show ?thesis
        using q(1,2,4) none' Inr mems
        by (intro disjI2 exI [of _ free] exI [of _ allocs]) (simp add: allocate_image_def no_allocations_def word_le_nat_alt)
    qed
  qed
qed


text \<open>An image for ARMv8-M with one memory and one task.\<close>

definition example_task :: "TaskToml" where
  "example_task = \<lparr>tt_priority = 0, tt_stacksize = None, tt_start = True, tt_uses = [], tt_features = [], tt_notifications = [''timer''],
     tt_extern_regions = [], tt_task_slots = [], tt_interrupts = [], tt_max_sizes = [(''flash'', 8192)]\<rparr>"

definition example_output :: "u32 \<Rightarrow> u32 \<Rightarrow> bool \<Rightarrow> Output list" where
  "example_output a sz w = [\<lparr>out_name = ''default'', out_address = a, out_size = sz, out_read = True, out_write = w,
     out_execute = \<not> w, out_dma = False\<rparr>]"

definition example_toml :: Config where
  "example_toml = \<lparr>image_names = [''default''], cfg_mpu = Chunk 32, cfg_stacksize = Some 512,
     kernel_requires = [(''flash'', 72)], kernel_features = [], outputs = [(''flash'', example_output 0x08000000 1024 False)],
     cfg_tasks = [(''jefe'', example_task)], peripherals = [], extratext = [], cfg_caboose = None\<rparr>"

definition example_sizes :: "(string \<times> TaskRequest) list" where
  "example_sizes = [(''jefe'', \<lparr>req_memory = [(''flash'', 90)], spare_regions = 2\<rparr>)]"

lemmas checked_defs = round_up_def add32_def sub32_def mul32_def memory_region_alignment_def saturating_sub_def Let_def

lemma example_requests:
  "task_requests (Chunk 32) example_sizes (cfg_tasks example_toml) [] = Inr [(''flash'', [(''jefe'', [96])])]"
  by (simp add: suggest_memory_region_size_def mpu_suggest_size_def Let_def in64_def example_sizes_def example_toml_def
      add_request_def push_back_def requests_in_def example_task_def)

lemma example_best: "find_best (Chunk 32) 0x08000048 [(''jefe'', [96])] match_init
    = Inr \<lparr>m_gap = 24, m_align = 32, m_size = 96, m_name = ''jefe'', m_dir = Reverse\<rparr>"
  by (simp add: checked_defs consider_task_def match_update_init) (simp add: match_update_def saturating_sub_def Let_def)

lemma example_place: "place_chunks (Chunk 32) ''jefe'' ''flash'' [96] (0x08000060, 0x08000400) allocs =
    (case push_alloc ''jefe'' ''flash'' (0x08000060, 0x080000c0) allocs of
       Inl err \<Rightarrow> Inl err | Inr allocs' \<Rightarrow> Inr ((0x080000c0, 0x08000400), allocs'))"
proof -
  have "is_power_of_two 32" by code_simp
  then show ?thesis by (simp add: merge_front_def allocate_one_def checked_defs ebind_def split: sum.splits)
qed

lemma example_tasks:
  "allocate_tasks (Chunk 32) ''flash'' [(''jefe'', [96])] (0x08000048, 0x08000400) \<lparr>al_kernel = k, al_tasks = [], al_caboose = None\<rparr> =
   Inr ((0x080000c0, 0x08000400), \<lparr>al_kernel = k, al_tasks = [(''jefe'', [(''flash'', [(0x08000060, 0x080000c0)])])], al_caboose = None\<rparr>)"
proof -
  have "trailing_zeros 32 = 5" "trailing_zeros 0x08000060 = 5" by code_simp+
  then show ?thesis
    by (subst allocate_tasks.simps) (simp add: example_best example_place add32_def push_alloc_def ranges_push_def ranges_of_def
        Let_def sub32_def memory_region_alignment_def allocate_tasks.simps [of _ _ "[]"] del: find_best.simps place_chunks.simps)
qed


end
