(* ===== verification/Build_ImageProps.thy ===== *)
theory Build_ImageProps
  imports Build_Image Build_AllocProps
begin

section \<open>Images that the build accepts\<close>

text \<open>
  Two consequences of a successful build for the running system: tasks that send only along their
  task slots cannot wait for each other in a circle, and the descriptors made from an
  allocation keep the tasks' own memory apart.
\<close>

subsection \<open>Uphill sends\<close>

lemma check_slots_ok:
  "check_slots toml name task callees = Inr () \<longleftrightarrow>
   (\<forall>c \<in> set callees. \<exists>t. map_of (cfg_tasks toml) c = Some t \<and> (tt_priority t < tt_priority task \<or> c = name))"
  by (induction callees) (auto split: option.splits simp: not_le)

lemma check_priorities_ok:
  assumes "check_priorities toml idle k xs = Inr ()" "i < length xs"
  shows "check_slots toml (fst (xs ! i)) (snd (xs ! i)) (map snd (tt_task_slots (snd (xs ! i)))) = Inr ()
    \<and> (tt_priority (snd (xs ! i)) < idle \<or> fst (xs ! i) = ''idle'') \<and> (tt_priority (snd (xs ! i)) = 0 \<longleftrightarrow> i + k = 0)"
  using assms
proof (induction xs arbitrary: i k)
  case (Cons x xs)
  obtain name task where x: "x = (name, task)" by (cases x)
  have c: "check_slots toml name task (map snd (tt_task_slots task)) = Inr ()" "tt_priority task < idle \<or> name = ''idle''"
      "tt_priority task = 0 \<longleftrightarrow> k = 0" "check_priorities toml idle (Suc k) xs = Inr ()"
    using Cons.prems(1) by (auto simp: x ebind_def not_le split: sum.splits if_splits)
  show ?case
  proof (cases i)
    case (Suc j)
    then show ?thesis using Cons.IH [OF c(4), of j] Cons.prems(2) by simp
  qed (use c in \<open>simp add: x\<close>)
qed simp

text \<open>A call from one task to another through a slot, by indices into the task table.\<close>

definition slot_call :: "Config \<Rightarrow> nat \<Rightarrow> nat \<Rightarrow> bool" where
  "slot_call toml i j \<longleftrightarrow> i < length (cfg_tasks toml) \<and> j < length (cfg_tasks toml) \<and> i \<noteq> j
     \<and> (\<exists>slot. resolve_task_slot toml (fst (cfg_tasks toml ! i)) slot = Inr (word_of_nat j))"

definition waits_on :: "kstate \<Rightarrow> nat \<Rightarrow> nat \<Rightarrow> bool" where
  "waits_on s i j \<longleftrightarrow> i < length (tasks s)
     \<and> (\<exists>p. (state (tasks s ! i) = Healthy (InSend p) \<or> state (tasks s ! i) = Healthy (InReply p)) \<and> j = tid_index p)"

definition prio_of :: "Config \<Rightarrow> nat \<Rightarrow> nat" where
  "prio_of toml i = unat (tt_priority (snd (cfg_tasks toml ! i)))"

lemma get_index_of_map:
  "get_index_of k m = Some n \<Longrightarrow> n < length m \<and> fst (m ! n) = k \<and> map_of m k = Some (snd (m ! n))"
  by (induction m arbitrary: n) (auto split: if_splits)

lemma slot_call_uphill:
  assumes "check_task_priorities toml = Inr ()" "distinct (map fst (cfg_tasks toml))" "length (cfg_tasks toml) \<le> 2 ^ 16"
    "slot_call toml i j"
  shows "prio_of toml j < prio_of toml i"
proof -
  let ?ts = "cfg_tasks toml"
  obtain slot where s: "i < length ?ts" "j < length ?ts" "i \<noteq> j" "resolve_task_slot toml (fst (?ts ! i)) slot = Inr (word_of_nat j)"
    using assms(4) by (auto simp: slot_call_def)
  have m: "map_of ?ts (fst (?ts ! i)) = Some (snd (?ts ! i))" using s(1) assms(2) by (simp add: map_of_is_SomeI)
  then obtain target n where t: "map_of (tt_task_slots (snd (?ts ! i))) slot = Some target" "get_index_of target ?ts = Some n"
      "(word_of_nat n :: u16) = word_of_nat j"
    using s(4) by (auto simp: resolve_task_slot_def split: option.splits)
  note n = get_index_of_map [OF t(2)]
  have "n = j"
  proof -
    have "unat (word_of_nat n :: u16) = n" "unat (word_of_nat j :: u16) = j"
      using n s(2) assms(3) by (auto simp: unsigned_of_nat take_bit_nat_eq_self)
    with t(3) show ?thesis by metis
  qed
  obtain idle where "check_priorities toml idle 0 ?ts = Inr ()"
    using assms(1) by (auto simp: check_task_priorities_def split: option.splits)
  from check_priorities_ok [OF this s(1)]
  have "check_slots toml (fst (?ts ! i)) (snd (?ts ! i)) (map snd (tt_task_slots (snd (?ts ! i)))) = Inr ()" by blast
  moreover have "target \<in> set (map snd (tt_task_slots (snd (?ts ! i))))" using t(1) by (force dest: map_of_SomeD)
  ultimately have "tt_priority (snd (?ts ! j)) < tt_priority (snd (?ts ! i)) \<or> target = fst (?ts ! i)"
    using n \<open>n = j\<close> by (fastforce simp: check_slots_ok)
  moreover have "target \<noteq> fst (?ts ! i)"
    using n \<open>n = j\<close> s(1-3) assms(2) nth_eq_iff_index_eq [of "map fst ?ts" i j] by auto
  ultimately show ?thesis by (simp add: prio_of_def word_less_nat_alt)
qed

text \<open>
  C16: The check of task priorities rules out deadlock. If the build accepts the priorities and
  every task that is blocked in a send or waits for a reply does so on a task that one of its
  task slots names, other than itself, then calls go only to more important tasks, and the chain
  of blocked tasks from any one of them ends at a task that waits for nobody; the supervisor is
  the only task of priority 0, and no task but the idle task has a priority as low as its.
\<close>

theorem uphill_sends_end:
  assumes "check_task_priorities toml = Inr ()" "distinct (map fst (cfg_tasks toml))" "length (cfg_tasks toml) \<le> 2 ^ 16"
    and "\<forall>i j. waits_on s i j \<longrightarrow> slot_call toml i j"
  shows "(\<forall>i j. slot_call toml i j \<longrightarrow> prio_of toml j < prio_of toml i)
    \<and> (\<forall>i j. waits_on s i j \<longrightarrow> (\<exists>k. (i, k) \<in> {(a, b). waits_on s a b}\<^sup>+ \<and> (\<forall>l. \<not> waits_on s k l)))
    \<and> (\<forall>i < length (cfg_tasks toml). (prio_of toml i = 0 \<longleftrightarrow> i = 0)
        \<and> (\<forall>k < length (cfg_tasks toml). fst (cfg_tasks toml ! k) = ''idle'' \<longrightarrow> i \<noteq> k \<longrightarrow> prio_of toml i < prio_of toml k))"
proof -
  note up = slot_call_uphill [OF assms(1-3)]
  have chain: "\<exists>k. (i, k) \<in> {(a, b). waits_on s a b}\<^sup>+ \<and> (\<forall>l. \<not> waits_on s k l)" if "waits_on s i j" for i j
    using that
  proof (induction "prio_of toml i" arbitrary: i j rule: less_induct)
    case less
    show ?case
    proof (cases "\<exists>l. waits_on s j l")
      case True
      then obtain l where l: "waits_on s j l" by blast
      have "prio_of toml j < prio_of toml i" using up assms(4) less.prems by blast
      from less.hyps [OF this l] less.prems show ?thesis by (auto intro: trancl_into_trancl2)
    qed (use less.prems in auto)
  qed
  obtain idle where idle: "map_of (cfg_tasks toml) ''idle'' = Some idle" "check_priorities toml (tt_priority idle) 0 (cfg_tasks toml) = Inr ()"
    using assms(1) by (auto simp: check_task_priorities_def split: option.splits)
  have last: "prio_of toml i < prio_of toml k"
    if k: "k < length (cfg_tasks toml)" "fst (cfg_tasks toml ! k) = ''idle''" "i \<noteq> k" and i: "i < length (cfg_tasks toml)" for i k
  proof -
    have "snd (cfg_tasks toml ! k) = idle" using map_of_is_SomeI [OF assms(2), of "''idle''" "snd (cfg_tasks toml ! k)"] k(1,2) idle(1)
      by (metis nth_mem option.inject prod.collapse)
    moreover have "fst (cfg_tasks toml ! i) \<noteq> ''idle''"
      using k i assms(2) nth_eq_iff_index_eq [of "map fst (cfg_tasks toml)" i k] by auto
    ultimately show ?thesis
      using check_priorities_ok [OF idle(2) i] by (auto simp: prio_of_def word_less_nat_alt)
  qed
  have sup: "prio_of toml i = 0 \<longleftrightarrow> i = 0" if "i < length (cfg_tasks toml)" for i
    using check_priorities_ok [OF idle(2) that] by (simp add: prio_of_def unat_eq_0)
  show ?thesis by (intro conjI allI impI; ((rule up, assumption) | (rule chain, assumption) | (rule sup, assumption) | (rule last; assumption)))
qed

text \<open>Three tasks of which one waits for the supervisor.\<close>

definition example_app :: Config where
  "example_app = example_toml\<lparr>cfg_tasks :=
     [(''jefe'', example_task), (''net'', example_task\<lparr>tt_priority := 1, tt_task_slots := [(''jefe'', ''jefe'')]\<rparr>),
      (''idle'', example_task\<lparr>tt_priority := 5\<rparr>)]\<rparr>"

definition example_waiting :: kstate where
  "example_waiting = demo_state [
     demo_task (demo_descs ! 0) (demo_regs 0x20000300 16 1 0) (InRecv None),
     demo_task (demo_descs ! 1) (demo_regs 0x20000700 16 2 0) (InSend (TaskId 0)),
     demo_task (demo_descs ! 2) (demo_regs 0x20000700 16 2 0) Runnable] 2"

lemma example_waits: "waits_on example_waiting i j \<longleftrightarrow> i = 1 \<and> j = 0"
  by (auto simp: waits_on_def example_waiting_def demo_state_def demo_task_def nth_Cons' tid_index_def)

theorem uphill_sends_end_witness:
  "prio_of example_app 0 < prio_of example_app 1
    \<and> (\<exists>k. (1, k) \<in> {(a, b). waits_on example_waiting a b}\<^sup>+ \<and> (\<forall>l. \<not> waits_on example_waiting k l))"
proof -
  have c: "check_task_priorities example_app = Inr ()"
    by (simp add: check_task_priorities_def example_app_def example_task_def example_toml_def word_le_nat_alt)
  have sl: "slot_call example_app 1 0"
    by (auto simp: slot_call_def example_app_def resolve_task_slot_def intro!: exI [of _ "''jefe''"])
  have "\<forall>i j. waits_on example_waiting i j \<longrightarrow> slot_call example_app i j" using sl by (simp add: example_waits)
  note u = uphill_sends_end [OF c _ _ this]
  have "distinct (map fst (cfg_tasks example_app))" "length (cfg_tasks example_app) \<le> 2 ^ 16"
    by (simp_all add: example_app_def)
  from u [OF this] sl show ?thesis by (auto simp: example_waits)
qed

subsection \<open>The allocation as a map\<close>

definition ms_wf :: "(string \<times> range32 list) list \<Rightarrow> bool" where
  "ms_wf ms \<longleftrightarrow> sorted_wrt (<) (map fst ms) \<and> (\<forall>x \<in> set ms. snd x \<noteq> [])"

definition alloc_wf :: "allocations \<Rightarrow> bool" where
  "alloc_wf allocs \<longleftrightarrow> sorted_wrt (<) (map fst (al_tasks allocs)) \<and> (\<forall>x \<in> set (al_tasks allocs). ms_wf (snd x))"

lemma push_alloc_wf:
  assumes "alloc_wf allocs" "push_alloc name region r allocs = Inr allocs'"
  shows "alloc_wf allocs'"
proof -
  define ms where "ms = (case map_of (al_tasks allocs) name of None \<Rightarrow> [] | Some ms \<Rightarrow> ms)"
  define rs where "rs = ranges_of allocs name region @ [r]"
  have rs: "al_tasks allocs' = btree_insert name (btree_insert region rs ms) (al_tasks allocs)"
    using assms(2) by (auto simp: ms_def rs_def push_alloc_def ranges_push_def Let_def ebind_def split: if_splits)
  have "ms_wf ms"
    using assms(1) map_of_SomeD [of "al_tasks allocs" name]
    by (cases "map_of (al_tasks allocs) name") (fastforce simp: alloc_wf_def ms_wf_def ms_def)+
  then have "ms_wf (btree_insert region rs ms)"
    using set_btree_insert [of region rs ms] by (auto simp: ms_wf_def sorted_btree_insert rs_def)
  then show ?thesis
    using assms(1) set_btree_insert [of name "btree_insert region rs ms" "al_tasks allocs"]
    by (auto simp: alloc_wf_def rs sorted_btree_insert)
qed

lemma place_chunks_wf:
  "place_chunks mp name region sizes avail allocs = Inr (avail', allocs') \<Longrightarrow> alloc_wf allocs \<Longrightarrow> alloc_wf allocs'"
proof (induction mp name region sizes avail allocs rule: place_chunks.induct)
  case (2 mp name region s ss avail allocs)
  then show ?case
    by (auto simp: ebind_def split: sum.splits prod.splits if_splits dest: push_alloc_wf)
qed simp

lemma allocate_tasks_wf:
  "allocate_tasks mp region reqs avail allocs = Inr (avail', allocs') \<Longrightarrow> alloc_wf allocs \<Longrightarrow> alloc_wf allocs'"
proof (induction mp region reqs avail allocs rule: allocate_tasks.induct)
  case (1 mp region reqs avail allocs)
  from "1.prems" show ?case
    by (subst (asm) allocate_tasks.simps)
      (auto simp: ebind_def Let_def split: sum.splits prod.splits if_splits option.splits
        dest: place_chunks_wf intro: "1.IH")
qed

lemma allocate_regions_wf:
  "allocate_regions mp kreqs reqs free allocs = Inr (free', allocs') \<Longrightarrow> alloc_wf allocs \<Longrightarrow> alloc_wf allocs'"
proof (induction free arbitrary: allocs free')
  case (Cons x free)
  obtain region avail where x: "x = (region, avail)" by (cases x)
  obtain avail1 allocs1 free1 where a: "allocate_region mp region (map_of kreqs region) (requests_in reqs region) avail allocs = Inr (avail1, allocs1)"
      "allocate_regions mp kreqs reqs free allocs1 = Inr (free1, allocs')"
    using Cons.prems(1) by (auto simp: x ebind_def split: sum.splits prod.splits)
  have "alloc_wf allocs1"
    using a(1) Cons.prems(2)
    by (auto simp: allocate_region_def ebind_def alloc_wf_def [of "allocs\<lparr>al_kernel := _\<rparr>"] alloc_wf_def [of allocs, symmetric]
        split: sum.splits prod.splits option.splits dest!: allocate_tasks_wf)
  with Cons.IH [OF a(2)] show ?case by blast
qed simp

text \<open>What an allocation that succeeds says of the tasks' ranges.\<close>

definition allocated :: "Config \<Rightarrow> (string \<times> TaskRequest) list \<Rightarrow> (string \<times> range32) list \<Rightarrow> allocations \<Rightarrow> bool" where
  "allocated toml reqs mems allocs \<longleftrightarrow> alloc_wf allocs \<and> (\<forall>t r. r \<notin> names_of mems \<longrightarrow> ranges_of allocs t r = [])
     \<and> (\<forall>(r, lo, hi) \<in> set mems. \<exists>mid. mid \<le> unat hi
          \<and> laid_out (cfg_mpu toml) (map_of (kernel_requires toml) r) (\<lambda>t. wants reqs t r) (\<lambda>t. regions_for reqs t r)
              (names_of (cfg_tasks toml)) allocs r (unat lo) mid)"

lemma allocated_caboose: "allocated toml reqs mems (allocs\<lparr>al_caboose := x\<rparr>) \<longleftrightarrow> allocated toml reqs mems allocs"
proof -
  have "laid_out a k want n ts (allocs\<lparr>al_caboose := x\<rparr>) r lo h = laid_out a k want n ts allocs r lo h" for a k want n ts r lo h
    by (intro laid_out_cong) (simp add: same_memory_def ranges_of_def)
  then show ?thesis by (simp add: allocated_def alloc_wf_def ranges_of_def)
qed

lemma allocate_image_allocated:
  assumes "alloc_input_ok toml reqs" "allocate_image toml reqs caboose image_name = Inr (allocs, free)"
  shows "\<exists>mems. memories toml image_name = Inr mems \<and> allocated toml reqs mems allocs"
proof -
  obtain mems where m: "memories toml image_name = Inr mems"
    using assms(2) by (auto simp: allocate_image_def ebind_def split: sum.splits)
  obtain free0 allocs0 where q: "allocate_image toml reqs caboose image_name
        = ebind (case caboose of None \<Rightarrow> Inr (free0, allocs0) | Some c \<Rightarrow> place_caboose toml c free0 allocs0) (\<lambda>(free, allocs). Inr (allocs, free))"
      "\<forall>t r. r \<notin> names_of mems \<longrightarrow> ranges_of allocs0 t r = []"
      "\<forall>(r, lo, hi) \<in> set mems. \<exists>mid. map_of free0 r = Some (mid, hi) \<and> unat mid \<le> unat hi
         \<and> laid_out (cfg_mpu toml) (map_of (kernel_requires toml) r) (\<lambda>t. wants reqs t r) (\<lambda>t. regions_for reqs t r)
             (names_of (cfg_tasks toml)) allocs0 r (unat lo) (unat mid)"
    using image_regions [OF assms(1) m, of caboose] assms(2) by auto
  obtain x where x: "allocs = allocs0\<lparr>al_caboose := x\<rparr>"
  proof (cases caboose)
    case None
    then have "allocs = allocs0\<lparr>al_caboose := al_caboose allocs0\<rparr>" using q(1) assms(2) by simp
    then show thesis by (rule that)
  next
    case (Some c)
    then have "\<exists>x. allocs = allocs0\<lparr>al_caboose := x\<rparr>"
      using q(1) assms(2) by (auto simp: place_caboose_def ebind_def split: sum.splits if_splits option.splits)
    then show thesis using that by blast
  qed
  have "alloc_wf allocs"
    using assms(2) m by (auto simp: allocate_image_def ebind_def alloc_wf_def [of "_\<lparr>al_caboose := _\<rparr>"]
      place_caboose_def alloc_wf_def [symmetric] split: sum.splits if_splits option.splits
      dest!: allocate_regions_wf) (simp_all add: alloc_wf_def)
  then have "allocated toml reqs mems allocs0"
    using q(2,3) unfolding allocated_def x by (fastforce simp: alloc_wf_def)
  then show ?thesis using m unfolding x allocated_caboose by blast
qed

subsection \<open>Owned regions\<close>

definition ranges_named :: "string \<Rightarrow> (string \<times> range32) list \<Rightarrow> range32 list" where
  "ranges_named m xs = map snd (filter (\<lambda>x. fst x = m) xs)"

lemma ranges_named_simps [simp]:
  "ranges_named m [] = []" "ranges_named m (xs @ ys) = ranges_named m xs @ ranges_named m ys"
  "ranges_named m ((n, r) # xs) = (if n = m then r # ranges_named m xs else ranges_named m xs)"
  by (simp_all add: ranges_named_def)

lemma ranges_named_flat: "distinct (map fst ms) \<Longrightarrow> ranges_named m (flat_ranges ms) = (case map_of ms m of None \<Rightarrow> [] | Some rs \<Rightarrow> rs)"
proof (induction ms)
  case (Cons x ms)
  obtain n rs where x: "x = (n, rs)" by (cases x)
  have one: "ranges_named m (map (\<lambda>r. (n, r)) rs) = (if n = m then rs else [])" by (induction rs) auto
  have "flat_ranges (x # ms) = map (\<lambda>r. (n, r)) rs @ flat_ranges ms" by (simp add: flat_ranges_def x)
  moreover have "n = m \<Longrightarrow> map_of ms m = None" using Cons.prems by (auto simp: x map_of_eq_None_iff)
  ultimately show ?case using Cons by (auto simp: x one)
qed (simp add: flat_ranges_def)

lemma ranges_named_map: "distinct (map fst xs) \<Longrightarrow> ranges_named m xs = (case map_of xs m of None \<Rightarrow> [] | Some r \<Rightarrow> [r])"
proof (induction xs)
  case (Cons x xs)
  obtain n r where x: "x = (n, r)" by (cases x)
  have "n = m \<Longrightarrow> map_of xs m = None" using Cons.prems by (auto simp: x map_of_eq_None_iff)
  with Cons show ?case by (auto simp: x)
qed simp

definition range_size :: "range32 \<Rightarrow> u32" where
  "range_size r = snd r - fst r"

text \<open>The region of a memory has the ranges of that name, in order.\<close>

definition region_of :: "range32 list \<Rightarrow> MultiRegionConfig option \<Rightarrow> bool" where
  "region_of rs x \<longleftrightarrow> (case x of None \<Rightarrow> rs = [] | Some r \<Rightarrow> rs \<noteq> [] \<and> mrc_base r = fst (hd rs) \<and> mrc_sizes r = map range_size rs)"

lemma add_owned_ok:
  assumes "add_owned toml image_name xs owned = Inr owned'" "\<forall>m. region_of (done m) (map_of owned m)" "sorted_wrt (<) (map fst owned)"
  shows "(\<forall>m. region_of (done m @ ranges_named m xs) (map_of owned' m)) \<and> sorted_wrt (<) (map fst owned')
    \<and> sum_list (map (length \<circ> mrc_sizes \<circ> snd) owned') = sum_list (map (length \<circ> mrc_sizes \<circ> snd) owned) + length xs"
  using assms
proof (induction xs arbitrary: owned "done")
  case (Cons x xs)
  obtain n r where x: "x = (n, r)" by (cases x)
  obtain atts where a: "add_owned toml image_name xs (push_owned n (fst r) (range_size r) atts owned) = Inr owned'"
    using Cons.prems(1) by (auto simp: x ebind_def range_size_def split: sum.splits if_splits)
  let ?owned = "push_owned n (fst r) (range_size r) atts owned" and ?done = "\<lambda>m. if m = n then done m @ [r] else done m"
  have "region_of (?done m) (map_of ?owned m)" for m
    using spec [OF Cons.prems(2), of m] by (cases "map_of owned n") (auto simp: push_owned_def region_of_def)
  then have "\<forall>m. region_of (?done m) (map_of ?owned m)" by blast
  moreover have "sorted_wrt (<) (map fst ?owned)" using Cons.prems(3) by (simp add: push_owned_def sorted_btree_insert)
  moreover have "sum_list (map (length \<circ> mrc_sizes \<circ> snd) ?owned) = sum_list (map (length \<circ> mrc_sizes \<circ> snd) owned) + 1"
    using sum_btree_insert [OF Cons.prems(3), of "length \<circ> mrc_sizes" n "case map_of owned n of
        None \<Rightarrow> \<lparr>mrc_base = fst r, mrc_sizes = [range_size r], mrc_attributes = atts\<rparr>
      | Some q \<Rightarrow> q\<lparr>mrc_sizes := mrc_sizes q @ [range_size r]\<rparr>"]
    by (cases "map_of owned n") (simp_all add: push_owned_def comp_def)
  moreover have "?done m @ ranges_named m xs = done m @ ranges_named m (x # xs)" for m by (simp add: x)
  ultimately show ?case using Cons.IH [OF a, of ?done] by (simp add: comp_def)
qed auto

end
