(* ===== verification/Build_Isolation.thy ===== *)
theory Build_Isolation
  imports Build_ImageProps
begin

section \<open>Isolation of tasks in a built image\<close>

text \<open>
  The chain from the application's configuration to the descriptors in the kernel: requests,
  allocation, kernel configuration, build script. The regions of a task's descriptor are the
  ranges allocated to it, the memories it borrows as external regions, and the null and shared
  regions. Allocated ranges belong to one task alone, and no borrowed memory is allocated from.
\<close>

subsection \<open>Counting regions\<close>

lemma names_index_map_insert: "fst ` set (index_map_insert k v m) = insert k (fst ` set m)"
  by (induction k v m rule: index_map_insert.induct) auto

lemma set_index_map_insert: "set (index_map_insert k v m) \<subseteq> insert (k, v) (set m)"
  by (induction k v m rule: index_map_insert.induct) auto

lemma extern_ranges_names:
  "extern_ranges toml image_name rs acc = Inr ext \<Longrightarrow> distinct (map fst acc) \<Longrightarrow>
    fst ` set ext = fst ` set acc \<union> set rs \<and> distinct (map fst ext)"
proof (induction toml image_name rs acc rule: extern_ranges.induct)
  case (2 toml image_name r rs acc)
  obtain out e where e: "output_for BadExternRegion toml image_name r = Inr out"
      "checked_add (out_address out) (out_size out) = Some e"
      "extern_ranges toml image_name rs (index_map_insert r (out_address out, e) acc) = Inr ext"
    using "2.prems"(1) by (auto simp: ebind_def split: sum.splits option.splits)
  have "distinct (map fst (index_map_insert r (out_address out, e) acc))"
    using "2.prems"(2) by (simp add: distinct_index_map_insert)
  from "2.IH" [OF e(2,3) this] show ?case by (auto simp: names_index_map_insert)
qed simp

lemma extern_regions_names:
  assumes "extern_regions_for toml name image_name = Inr ext" "map_of (cfg_tasks toml) name = Some task"
  shows "fst ` set ext = set (tt_extern_regions task)" "distinct (map fst ext)" "length ext = card (set (tt_extern_regions task))"
proof -
  show n: "fst ` set ext = set (tt_extern_regions task)" and d: "distinct (map fst ext)"
    using assms extern_ranges_names [of toml image_name _ "[]" ext] by (auto simp: extern_regions_for_def)
  show "length ext = card (set (tt_extern_regions task))" using distinct_card [OF d] n by simp
qed

lemma length_flat_ranges:
  assumes "distinct (map fst ms)" "\<forall>(m, rs) \<in> set ms. length rs \<le> (if m = f then k + 1 else 1)"
  shows "length (flat_ranges ms) \<le> (if f \<in> fst ` set ms then k else 0) + length ms"
  using assms
proof (induction ms)
  case (Cons x ms)
  obtain m rs where x: "x = (m, rs)" by (cases x)
  have "length (flat_ranges (x # ms)) = length rs + length (flat_ranges ms)" by (simp add: flat_ranges_def x)
  moreover have "length (flat_ranges ms) \<le> (if f \<in> fst ` set ms then k else 0) + length ms" using Cons by simp
  moreover have "length rs \<le> (if m = f then k + 1 else 1)" "m \<notin> fst ` set ms" using Cons.prems by (simp_all add: x)
  ultimately show ?case by (cases "m = f"; cases "f \<in> fst ` set ms") (simp_all add: x)
qed (simp add: flat_ranges_def)

lemma make_requests_lookup:
  "make_requests toml sizes = Inr reqs \<Longrightarrow> map_of reqs t = Some req \<Longrightarrow> \<exists>sz. make_request toml t sz = Inr req"
proof (induction toml sizes arbitrary: reqs rule: make_requests.induct)
  case (2 toml t' sz task_sizes)
  then show ?case by (auto simp: ebind_def split: sum.splits if_splits)
qed simp

lemma make_request_count:
  assumes "make_request toml t sz = Inr req" "map_of (cfg_tasks toml) t = Some task"
  shows "length (req_memory req) + spare_regions req + card (set (tt_extern_regions task)) + length (tt_uses task)
    + (if caboose_user toml t then 1 else 0) = 7"
  using assms extern_regions_names(3) [OF _ assms(2)]
  by (fastforce simp: make_request_def Let_def split: list.splits sum.splits option.splits if_splits)

subsection \<open>The kernel configuration of an allocation\<close>

lemma kconfig_tasks_nth:
  assumes "kconfig_tasks toml allocs entries image_name i ts irqs = Inr (cs, irqs')"
  shows "length cs = length ts
    \<and> (\<forall>k < length ts. kconfig_task toml allocs entries image_name (fst (ts ! k)) (snd (ts ! k)) = Inr (cs ! k))"
  using assms
proof (induction ts arbitrary: i irqs cs)
  case (Cons x ts)
  obtain name task where x: "x = (name, task)" by (cases x)
  obtain c irqs1 cs1 where c: "kconfig_task toml allocs entries image_name name task = Inr c" "cs = c # cs1"
      "kconfig_tasks toml allocs entries image_name (Suc i) ts irqs1 = Inr (cs1, irqs')"
    using Cons.prems by (auto simp: x ebind_def split: sum.splits prod.splits)
  have "kconfig_task toml allocs entries image_name (fst ((x # ts) ! k)) (snd ((x # ts) ! k)) = Inr (cs ! k)"
    if "k < length (x # ts)" for k
    using Cons.IH [OF c(3)] c(1,2) that by (cases k) (simp_all add: x)
  with Cons.IH [OF c(3)] c(2) show ?case by simp
qed simp

lemma add_shared_names:
  "add_shared p2 atts ps flat = Inr flat' \<Longrightarrow> sorted_wrt (<) (map fst flat) \<Longrightarrow>
    sorted_wrt (<) (map fst flat') \<and> dom (map_of flat') = dom (map_of flat) \<union> fst ` set ps"
  by (induction p2 atts ps flat rule: add_shared.induct) (auto simp: sorted_btree_insert split: if_splits)

lemma flat_shared_names:
  assumes "flat_shared toml entries = Inr flat"
  shows "sorted_wrt (<) (map fst flat)" "names_of (peripherals toml) \<union> names_of (extratext toml) \<subseteq> dom (map_of flat)"
    "caboose_user toml name \<Longrightarrow> ''caboose'' \<in> dom (map_of flat)"
proof -
  let ?p2 = "cfg_mpu toml = PowerOfTwo"
  obtain f1 f2 where f: "add_shared ?p2 (cfg_attrs True True False (Some RoleDevice)) (peripherals toml) [] = Inr f1"
      "add_shared ?p2 (cfg_attrs True False True None) (extratext toml) f1 = Inr f2"
      "case cfg_caboose toml of None \<Rightarrow> flat = f2
       | Some c \<Rightarrow> \<exists>base. flat = btree_insert ''caboose'' \<lparr>rc_base = base, rc_size = cc_size c, rc_attributes = cfg_attrs True False False None\<rparr> f2"
    using assms by (auto simp: flat_shared_def Let_def ebind_def split: sum.splits option.splits)
  have s: "sorted_wrt (<) (map fst f2)" "dom (map_of f2) = names_of (peripherals toml) \<union> names_of (extratext toml)"
    using add_shared_names [OF f(1)] add_shared_names [OF f(2)] by (auto simp: names_of_def)
  have "dom (map_of f2) \<subseteq> dom (map_of flat)" using f(3) by (auto split: option.splits)
  with s(2) show "names_of (peripherals toml) \<union> names_of (extratext toml) \<subseteq> dom (map_of flat)" by simp
  show "sorted_wrt (<) (map fst flat)" using f(3) s(1) by (auto simp: sorted_btree_insert split: option.splits)
  show "caboose_user toml name \<Longrightarrow> ''caboose'' \<in> dom (map_of flat)"
    using f(3) by (auto simp: caboose_user_def split: option.splits)
qed

text \<open>The chunks of an owned region are its ranges when these are contiguous.\<close>

lemma chunks_ranges:
  assumes "span_ok m a rs b" "rs = [] \<or> base = fst (hd rs)"
  shows "map (\<lambda>c. (rc_base c, rc_size c)) (chunks atts base (map range_size rs)) = map (\<lambda>r. (fst r, range_size r)) rs"
  using assms
proof (induction rs arbitrary: a base)
  case (Cons r rs)
  have "rs = [] \<or> snd r = fst (hd rs)" using Cons.prems(1) by (cases rs) (auto simp: word_unat_eq_iff)
  moreover have "base + range_size r = snd r" using Cons.prems(2) by (simp add: range_size_def)
  ultimately show ?case using Cons.IH [of "unat (snd r)" "snd r"] Cons.prems by simp
qed simp

lemma region_chunks:
  assumes "region_of rs (Some q)" "span_ok m a rs b \<or> length rs = 1" "c \<in> set (span_chunks q)"
  shows "\<exists>r \<in> set rs. rc_base c = fst r \<and> rc_size c = range_size r"
proof -
  have q: "rs \<noteq> []" "mrc_base q = fst (hd rs)" "mrc_sizes q = map range_size rs" using assms(1) by (simp_all add: region_of_def)
  have "map (\<lambda>c. (rc_base c, rc_size c)) (span_chunks q) = map (\<lambda>r. (fst r, range_size r)) rs"
    using assms(2)
  proof
    assume "span_ok m a rs b"
    from chunks_ranges [OF this, of "mrc_base q"] q show ?thesis by (simp add: span_chunks_def)
  next
    assume "length rs = 1"
    then show ?thesis using q by (auto simp: span_chunks_def length_Suc_conv)
  qed
  then have "(rc_base c, rc_size c) \<in> set (map (\<lambda>r. (fst r, range_size r)) rs)"
    using assms(3) by (metis (no_types, lifting) image_eqI list.set_map)
  then show ?thesis by auto
qed

subsection \<open>A build that succeeds\<close>

text \<open>
  The conditions on the configuration: every task has RAM and uses known shared regions, and the
  memories of the image do not overlap.
\<close>

definition image_input_ok :: "Config \<Rightarrow> (string \<times> TaskRequest) list \<Rightarrow> string \<Rightarrow> bool" where
  "image_input_ok toml reqs image_name \<longleftrightarrow> length (cfg_tasks toml) \<le> 2 ^ 16 \<and> ''ram'' \<in> names_of (outputs toml)
     \<and> (\<forall>(name, task) \<in> set (cfg_tasks toml). wants reqs name ''ram'' \<noteq> None
         \<and> set (tt_uses task) \<subseteq> names_of (peripherals toml) \<union> names_of (extratext toml))
     \<and> (case memories toml image_name of Inl e \<Rightarrow> True | Inr mems \<Rightarrow>
          \<forall>x \<in> set mems. \<forall>y \<in> set mems. x = y \<or> snd (snd x) \<le> fst (snd y) \<or> snd (snd y) \<le> fst (snd x))"

definition built :: "Config \<Rightarrow> (string \<times> (string \<times> nat) list) list \<Rightarrow> (string \<times> TaskRequest) list \<Rightarrow> allocations
    \<Rightarrow> (string \<times> range32) list \<Rightarrow> (string \<times> u32) list \<Rightarrow> string \<Rightarrow> KernelConfig \<Rightarrow> bool" where
  "built toml sizes reqs allocs mems entries image_name cfg \<longleftrightarrow> alloc_input_ok toml reqs \<and> image_input_ok toml reqs image_name
     \<and> make_requests toml sizes = Inr reqs \<and> memories toml image_name = Inr mems \<and> allocated toml reqs mems allocs
     \<and> check_extern_regions toml allocs = Inr () \<and> make_kconfig toml (al_tasks allocs) entries image_name = Inr cfg"

text \<open>The ranges of a task in a memory are one span, and there are none where it wants nothing.\<close>

lemma ranges_span:
  assumes "allocated toml reqs mems allocs" "t \<in> names_of (cfg_tasks toml)"
  shows "(\<exists>a b. span_ok (cfg_mpu toml) a (ranges_of allocs t m) b) \<and> length (ranges_of allocs t m) \<le> regions_for reqs t m
    \<and> (wants reqs t m = None \<longrightarrow> ranges_of allocs t m = [])
    \<and> (wants reqs t m = Some amt \<longrightarrow> 0 < amt \<longrightarrow> m \<in> names_of mems \<longrightarrow> ranges_of allocs t m \<noteq> [])"
proof (cases "m \<in> names_of mems")
  case False
  then have "ranges_of allocs t m = []" using assms(1) by (simp add: allocated_def)
  with False show ?thesis by (auto intro: exI [of _ 0])
next
  case True
  then obtain lo hi mid where l: "laid_out (cfg_mpu toml) (map_of (kernel_requires toml) m) (\<lambda>t. wants reqs t m)
      (\<lambda>t. regions_for reqs t m) (names_of (cfg_tasks toml)) allocs m lo hi"
    using assms(1) by (fastforce simp: allocated_def names_of_def)
  show ?thesis
  proof (cases "wants reqs t m")
    case None
    then have "ranges_of allocs t m = []" using l assms(2) by (auto simp: laid_out_def)
    with None show ?thesis by (auto intro: exI [of _ 0])
  next
    case (Some amt')
    then obtain a b where "length (ranges_of allocs t m) \<le> regions_for reqs t m" "a + amt' \<le> b"
        "span_ok (cfg_mpu toml) a (ranges_of allocs t m) b"
      using l assms(2) unfolding laid_out_def by blast
    with Some show ?thesis by auto
  qed
qed

lemma flat_ranges_count:
  assumes al: "allocated toml reqs mems allocs" and t: "t \<in> names_of (cfg_tasks toml)"
    and ms: "map_of (al_tasks allocs) t = Some ms" and req: "map_of reqs t = Some req"
  shows "distinct (map fst ms)" "length (flat_ranges ms) \<le> spare_regions req + length (req_memory req)"
proof -
  have wf: "ms_wf ms" using al map_of_SomeD [OF ms] by (force simp: allocated_def alloc_wf_def)
  then show d: "distinct (map fst ms)" by (simp add: ms_wf_def sorted_distinct_keys)
  have r: "ranges_of allocs t m = rs" if "(m, rs) \<in> set ms" for m rs
    using that d ms by (simp add: ranges_of_def map_of_is_SomeI)
  note sp = ranges_span [OF al t]
  have "length rs \<le> regions_for reqs t m" if "(m, rs) \<in> set ms" for m rs using sp [of m] r [OF that] by blast
  then have "\<forall>(m, rs) \<in> set ms. length rs \<le> (if m = ''flash'' then spare_regions req + 1 else 1)"
    using req unfolding regions_for_def by (metis (no_types, lifting) case_prodI2 option.simps(5))
  from length_flat_ranges [OF d this] have "length (flat_ranges ms) \<le> spare_regions req + length ms" by (auto split: if_splits)
  moreover have "length ms \<le> length (req_memory req)"
  proof -
    have "m \<in> fst ` set (req_memory req)" if "(m, rs) \<in> set ms" for m rs
    proof -
      have "ranges_of allocs t m \<noteq> []" using r [OF that] wf that by (auto simp: ms_wf_def)
      then have "map_of (req_memory req) m \<noteq> None" using sp [of m] req by (auto simp: wants_def)
      then show ?thesis by (simp add: map_of_eq_None_iff)
    qed
    then have "fst ` set ms \<subseteq> fst ` set (req_memory req)" by auto
    then have "card (fst ` set ms) \<le> card (fst ` set (req_memory req))" by (simp add: card_mono)
    also have "\<dots> \<le> length (req_memory req)" by (metis card_length length_map list.set_map)
    finally show ?thesis using distinct_card [OF d] by simp
  qed
  ultimately show "length (flat_ranges ms) \<le> spare_regions req + length (req_memory req)" by linarith
qed

text \<open>What the kernel configuration says of one task.\<close>

definition task_built :: "Config \<Rightarrow> allocations \<Rightarrow> string \<Rightarrow> string \<times> TaskToml \<Rightarrow> (string \<times> range32) list \<Rightarrow> TaskConfig \<Rightarrow> bool" where
  "task_built toml allocs image_name x ext c \<longleftrightarrow> extern_regions_for toml (fst x) image_name = Inr ext \<and> distinct (map fst ext)
     \<and> fst ` set ext = set (tt_extern_regions (snd x)) \<and> distinct (map fst (owned_regions c))
     \<and> (\<forall>m. region_of (ranges_of allocs (fst x) m @ ranges_named m ext) (map_of (owned_regions c) m))
     \<and> sum_list (map (length \<circ> mrc_sizes \<circ> snd) (owned_regions c)) + length (tc_shared_regions c) \<le> 7
     \<and> tc_shared_regions c = task_shared toml (fst x) (snd x) \<and> ranges_of allocs (fst x) ''flash'' \<noteq> []
     \<and> oa_region_name (tc_entry_point c) = ''flash'' \<and> oa_region_name (tc_initial_stack c) = ''ram''
     \<and> tc_priority c = tt_priority (snd x)"

lemma length_task_shared: "length (task_shared toml name task) \<le> length (tt_uses task) + (if caboose_user toml name then 1 else 0)"
  using length_remdups_leq [of "tt_uses task @ (if caboose_user toml name then [''caboose''] else [])"]
  by (auto simp: task_shared_def split: if_splits)

lemma built_length:
  assumes "built toml sizes reqs allocs mems entries image_name cfg"
  shows "length (kc_tasks cfg) = length (cfg_tasks toml)"
    and "i < length (cfg_tasks toml) \<Longrightarrow> kconfig_task toml (al_tasks allocs) entries image_name
      (fst (cfg_tasks toml ! i)) (snd (cfg_tasks toml ! i)) = Inr (kc_tasks cfg ! i)"
  using assms kconfig_tasks_nth [of toml "al_tasks allocs" entries image_name 0 "cfg_tasks toml" "[]" "kc_tasks cfg"]
  by (auto simp: built_def make_kconfig_def ebind_def split: sum.splits prod.splits)

lemma kconfig_task_Inr:
  assumes "kconfig_task toml task_allocations entries image_name name task = Inr c"
  shows "\<exists>ms flash ext. map_of task_allocations name = Some ms \<and> map_of ms ''flash'' = Some flash \<and> flash \<noteq> []
    \<and> extern_regions_for toml name image_name = Inr ext \<and> add_owned toml image_name (flat_ranges ms @ ext) [] = Inr (owned_regions c)
    \<and> tc_shared_regions c = task_shared toml name task \<and> tc_priority c = tt_priority task
    \<and> oa_region_name (tc_entry_point c) = ''flash'' \<and> oa_region_name (tc_initial_stack c) = ''ram''"
  using assms by (auto simp: kconfig_task_def ebind_def split: option.splits sum.splits if_splits)

lemma built_task:
  assumes b: "built toml sizes reqs allocs mems entries image_name cfg" and i: "i < length (cfg_tasks toml)"
  shows "\<exists>ext. task_built toml allocs image_name (cfg_tasks toml ! i) ext (kc_tasks cfg ! i)"
proof -
  obtain name task where x: "cfg_tasks toml ! i = (name, task)" by fastforce
  then have mem: "(name, task) \<in> set (cfg_tasks toml)" using i by (metis nth_mem)
  have al: "allocated toml reqs mems allocs" and tok: "tasks_ok reqs (cfg_tasks toml)"
    using b by (simp_all add: built_def alloc_input_ok_def)
  have task: "map_of (cfg_tasks toml) name = Some task" using mem tok by (simp add: tasks_ok_def)
  obtain ms flash ext owned where c: "map_of (al_tasks allocs) name = Some ms" "map_of ms ''flash'' = Some flash" "flash \<noteq> []"
      "extern_regions_for toml name image_name = Inr ext" "add_owned toml image_name (flat_ranges ms @ ext) [] = Inr owned"
      "owned_regions (kc_tasks cfg ! i) = owned" "tc_shared_regions (kc_tasks cfg ! i) = task_shared toml name task"
      "oa_region_name (tc_entry_point (kc_tasks cfg ! i)) = ''flash''" "oa_region_name (tc_initial_stack (kc_tasks cfg ! i)) = ''ram''"
      "tc_priority (kc_tasks cfg ! i) = tt_priority task"
    using kconfig_task_Inr [OF built_length(2) [OF b i]] unfolding x by auto
  obtain req where req: "map_of reqs name = Some req" using tok mem by (force simp: tasks_ok_def)
  have t: "name \<in> names_of (cfg_tasks toml)" using mem by (force simp: names_of_def)
  note cnt = flat_ranges_count [OF al t c(1) req]
  note ext = extern_regions_names [OF c(4) task]
  obtain sz where "make_request toml name sz = Inr req" using make_requests_lookup [of toml sizes reqs] b req by (auto simp: built_def)
  from make_request_count [OF this task]
  have seven: "length (flat_ranges ms @ ext) + length (task_shared toml name task) \<le> 7"
    using cnt(2) ext(3) length_task_shared [of toml name task] by simp
  have own: "\<forall>m. region_of (ranges_named m (flat_ranges ms @ ext)) (map_of owned m)" "sorted_wrt (<) (map fst owned)"
      "sum_list (map (length \<circ> mrc_sizes \<circ> snd) owned) = length (flat_ranges ms @ ext)"
    using add_owned_ok [OF c(5), of "\<lambda>m. []"] by (auto simp: region_of_def)
  moreover have fl: "ranges_named m (flat_ranges ms) = ranges_of allocs name m" for m
    using ranges_named_flat [OF cnt(1)] c(1) by (simp add: ranges_of_def)
  ultimately have "\<forall>m. region_of (ranges_of allocs name m @ ranges_named m ext) (map_of owned m)" by simp
  moreover have "ranges_of allocs name ''flash'' \<noteq> []" using c(1-3) by (simp add: ranges_of_def)
  ultimately have "task_built toml allocs image_name (name, task) ext (kc_tasks cfg ! i)"
    using own(2,3) c(4,6-10) ext seven by (simp add: task_built_def sorted_distinct_keys)
  then show ?thesis unfolding x by blast
qed

lemma length_granted: "length (granted cfg c) = 1 + sum_list (map (length \<circ> mrc_sizes \<circ> snd) (owned_regions c)) + length (tc_shared_regions c)"
  by (simp add: granted_def length_concat comp_def)

lemma names_of_memories: "memories toml image_name = Inr mems \<Longrightarrow> names_of mems = names_of (outputs toml)"
  using memories_Inr(1) [of toml image_name mems] unfolding names_of_def by (metis list.set_map)

lemma built_names_ok:
  assumes b: "built toml sizes reqs allocs mems entries image_name cfg"
  shows "names_ok cfg"
proof -
  note len = built_length [OF b]
  have io: "image_input_ok toml reqs image_name" "alloc_input_ok toml reqs" using b by (simp_all add: built_def)
  obtain flat where flat: "flat_shared toml entries = Inr flat"
      "kc_shared_regions cfg = filter (\<lambda>(name, r). name \<in> set (used_shared toml)) flat"
    using b by (auto simp: built_def make_kconfig_def ebind_def split: sum.splits)
  note fs = flat_shared_names [OF flat(1)]
  have one: "distinct (map fst (owned_regions c)) \<and> set (tc_shared_regions c) \<subseteq> set (map fst (kc_shared_regions cfg))
      \<and> length (granted cfg c) \<le> 8
      \<and> (\<forall>a \<in> {tc_entry_point c, tc_initial_stack c}. \<exists>r. map_of (owned_regions c) (oa_region_name a) = Some r \<and> mrc_sizes r \<noteq> [])"
    if ci: "i < length (cfg_tasks toml)" "c = kc_tasks cfg ! i" for c i
  proof -
    obtain name task where x: "cfg_tasks toml ! i = (name, task)" by fastforce
    with ci have mem: "(name, task) \<in> set (cfg_tasks toml)" by (metis nth_mem)
    obtain ext where t: "task_built toml allocs image_name (name, task) ext c"
      using built_task [OF b ci(1)] ci(2) x by auto
    have ram: "ranges_of allocs name ''ram'' \<noteq> []"
    proof -
      obtain amt where w: "wants reqs name ''ram'' = Some amt" using io(1) mem by (force simp: image_input_ok_def)
      obtain req where req: "map_of reqs name = Some req" "\<forall>(mem, amt) \<in> set (req_memory req). 0 < amt \<and> amt \<le> 2 ^ 30"
        using io(2) mem unfolding alloc_input_ok_def tasks_ok_def by blast
      then have "(''ram'', amt) \<in> set (req_memory req)" using w by (simp add: wants_def map_of_SomeD)
      with req(2) have "0 < amt" by blast
      moreover have "''ram'' \<in> names_of mems"
        using io(1) names_of_memories [of toml image_name mems] b unfolding image_input_ok_def built_def by blast
      moreover have "name \<in> names_of (cfg_tasks toml)" using mem by (force simp: names_of_def)
      ultimately show ?thesis using ranges_span [of toml reqs mems allocs name "''ram''" amt] w b by (auto simp: built_def)
    qed
    have reg: "\<exists>r. map_of (owned_regions c) m = Some r \<and> mrc_sizes r \<noteq> []" if "ranges_of allocs name m \<noteq> []" for m
      using t that by (auto simp: task_built_def region_of_def split: option.splits dest!: spec [of _ m])
    have "n \<in> set (map fst (kc_shared_regions cfg))" if n: "n \<in> set (tc_shared_regions c)" for n
    proof -
      have "n \<in> set (task_shared toml name task)" using n t by (simp add: task_built_def)
      then have "n \<in> dom (map_of flat)" "n \<in> set (used_shared toml)"
        using fs(2,3) io(1) mem by (fastforce simp: task_shared_def image_input_ok_def used_shared_def split: if_splits)+
      then show ?thesis unfolding flat(2) by (force dest: map_of_SomeD)
    qed
    then show ?thesis using t ram reg by (auto simp: task_built_def length_granted)
  qed
  have "distinct (map fst (kc_shared_regions cfg))"
    unfolding flat(2) using sorted_distinct_keys [OF fs(1)] by (rule distinct_map_filter)
  moreover have "length (kc_tasks cfg) \<le> 2 ^ 16" using len io(1) by (simp add: image_input_ok_def)
  ultimately show ?thesis unfolding names_ok_def using one len(1) by (metis in_set_conv_nth)
qed

subsection \<open>Borrowed memory\<close>

definition unused :: "allocations \<Rightarrow> string \<Rightarrow> bool" where
  "unused allocs m \<longleftrightarrow> map_of (al_kernel allocs) m = None \<and> (\<forall>t. ranges_of allocs t m = [])"

lemma fold_names:
  "dom (map_of (fold (\<lambda>(region, name) out. btree_insert region (f region name out) out) xs out)) = fst ` set xs \<union> dom (map_of out)"
  by (induction xs arbitrary: out) auto

lemma extern_unused:
  assumes "check_extern_regions toml allocs = Inr ()" "(name, task) \<in> set (cfg_tasks toml)" "r \<in> set (tt_extern_regions task)"
  shows "unused allocs r"
proof -
  have "map_of (allocation_regions allocs) r = None"
    using assms by (force simp: check_extern_regions_def list_ex_iff split: if_splits)
  then have n: "r \<notin> dom (map_of (allocation_regions allocs))" by (simp add: domIff)
  then have "r \<notin> fst ` set (al_kernel allocs)" and t: "\<forall>x \<in> set (al_tasks allocs). r \<notin> fst ` set (snd x)"
    unfolding allocation_regions_def fold_names by (auto simp: split_beta image_Un image_UN image_image)
  moreover have "ranges_of allocs t' r = []" for t'
  proof (cases "map_of (al_tasks allocs) t'")
    case (Some ms)
    with t have "map_of ms r = None" by (force simp: map_of_eq_None_iff dest!: map_of_SomeD)
    with Some show ?thesis by (simp add: ranges_of_def)
  qed (simp add: ranges_of_def)
  ultimately show ?thesis by (simp add: unused_def map_of_eq_None_iff)
qed

lemma extern_ranges_memories:
  assumes "extern_ranges toml image_name rs acc = Inr ext" "memories toml image_name = Inr mems" "distinct (map fst (outputs toml))"
    "set acc \<subseteq> set mems"
  shows "set ext \<subseteq> set mems"
  using assms(1,4)
proof (induction rs arbitrary: acc)
  case (Cons r rs)
  obtain out e os where e: "output_for BadExternRegion toml image_name r = Inr out"
      "checked_add (out_address out) (out_size out) = Some e"
      "extern_ranges toml image_name rs (index_map_insert r (out_address out, e) acc) = Inr ext"
      "map_of (outputs toml) r = Some os" "filter (\<lambda>q. out_name q = image_name) os = [out]"
    using Cons.prems(1) by (auto simp: ebind_def output_for_def split: sum.splits option.splits list.splits)
  have "collect f xs = Inr ys \<Longrightarrow> x \<in> set xs \<Longrightarrow> f x = Inr y \<Longrightarrow> y \<in> set ys" for f :: "string \<times> Output list \<Rightarrow> alloc_error + (string \<times> range32)" and xs ys x y
    by (induction xs arbitrary: ys) (auto simp: ebind_def split: sum.splits)
  moreover have "memory_of image_name (r, os) = Inr (r, out_address out, e)" using e by (simp add: memory_of_def)
  ultimately have "(r, out_address out, e) \<in> set mems" using assms(2) map_of_SomeD [OF e(4)] unfolding memories_def by blast
  then have "set (index_map_insert r (out_address out, e) acc) \<subseteq> set mems"
    using set_index_map_insert [of r "(out_address out, e)" acc] Cons.prems(2) by blast
  then show ?case by (rule Cons.IH [OF e(3)])
qed simp

lemma extern_regions_memories:
  assumes "extern_regions_for toml name image_name = Inr ext" "memories toml image_name = Inr mems" "distinct (map fst (outputs toml))"
  shows "set ext \<subseteq> set mems"
  using assms extern_ranges_memories [of toml image_name _ "[]" ext] by (auto simp: extern_regions_for_def split: option.splits)

subsection \<open>Regions that no other task has\<close>

definition shared_region :: "Config \<Rightarrow> KernelConfig \<Rightarrow> nat \<Rightarrow> RegionDesc \<Rightarrow> bool" where
  "shared_region toml cfg i d \<longleftrightarrow> d = fmt_region null_region
     \<or> (\<exists>n \<in> set (task_shared toml (fst (cfg_tasks toml ! i)) (snd (cfg_tasks toml ! i))).
          \<exists>r. map_of (kc_shared_regions cfg) n = Some r \<and> d = fmt_region r)"

definition extern_region :: "Config \<Rightarrow> string \<Rightarrow> nat \<Rightarrow> RegionDesc \<Rightarrow> bool" where
  "extern_region toml image_name i d \<longleftrightarrow>
     (case extern_regions_for toml (fst (cfg_tasks toml ! i)) image_name of
        Inl e \<Rightarrow> False
      | Inr ext \<Rightarrow> \<exists>(n, r) \<in> set ext. region_base d = fst r \<and> region_size d = range_size r)"

definition desc_apart :: "RegionDesc \<Rightarrow> nat \<Rightarrow> nat \<Rightarrow> bool" where
  "desc_apart d lo hi \<longleftrightarrow> unat (region_base d) + unat (region_size d) \<le> lo \<or> hi \<le> unat (region_base d)"

text \<open>Where a region that is not shared comes from.\<close>

definition holds :: "Config \<Rightarrow> allocations \<Rightarrow> string \<Rightarrow> (string \<times> range32) list \<Rightarrow> nat \<Rightarrow> RegionDesc \<Rightarrow> string \<Rightarrow> range32 \<Rightarrow> bool" where
  "holds toml allocs image_name mems i d m r \<longleftrightarrow> region_base d = fst r \<and> region_size d = range_size r
     \<and> (r \<in> set (ranges_of allocs (fst (cfg_tasks toml ! i)) m)
        \<or> extern_region toml image_name i d \<and> (m, r) \<in> set mems \<and> unused allocs m)"

lemma built_regions:
  assumes b: "built toml sizes reqs allocs mems entries image_name cfg" and i: "i < length (cfg_tasks toml)"
    and d: "described cfg (kc_tasks cfg ! i) i desc" "d \<in> set (regions desc)" "\<not> shared_region toml cfg i d"
  shows "\<exists>m r. holds toml allocs image_name mems i d m r"
proof -
  let ?c = "kc_tasks cfg ! i"
  obtain name task where x: "cfg_tasks toml ! i = (name, task)" by fastforce
  then have mem: "(name, task) \<in> set (cfg_tasks toml)" using i by (metis nth_mem)
  obtain ext where t: "task_built toml allocs image_name (name, task) ext ?c" using built_task [OF b i] x by auto
  have "set (regions desc) = fmt_region ` set (granted cfg ?c)" using d(1) by (simp add: described_def)
  then obtain c where c: "c \<in> set (granted cfg ?c)" "d = fmt_region c" using d(2) by auto
  have sh: "\<exists>r. map_of (kc_shared_regions cfg) n = Some r" if "n \<in> set (tc_shared_regions ?c)" for n
  proof -
    have "set (tc_shared_regions ?c) \<subseteq> set (map fst (kc_shared_regions cfg))"
      using built_names_ok [OF b] i built_length(1) [OF b] by (simp add: names_ok_def)
    with that show ?thesis by (metis (no_types, lifting) map_of_eq_None_iff not_None_eq list.set_map subsetD)
  qed
  from c d(3) sh t obtain m q where q: "(m, q) \<in> set (owned_regions ?c)" "c \<in> set (span_chunks q)"
    by (force simp: granted_def shared_region_def x task_built_def)
  then have reg: "region_of (ranges_of allocs name m @ ranges_named m ext) (Some q)"
    using t by (auto simp: task_built_def map_of_is_SomeI dest!: spec [of _ m])
  have tn: "name \<in> names_of (cfg_tasks toml)" using mem by (force simp: names_of_def)
  have al: "allocated toml reqs mems allocs" using b by (simp add: built_def)
  have me: "ranges_named m ext = (case map_of ext m of None \<Rightarrow> [] | Some r \<Rightarrow> [r])" using t by (simp add: task_built_def ranges_named_map)
  show ?thesis
  proof (cases "map_of ext m")
    case None
    obtain a b where "span_ok (cfg_mpu toml) a (ranges_of allocs name m) b" using conjunct1 [OF ranges_span [OF al tn, of m]] by blast
    then obtain r where "r \<in> set (ranges_of allocs name m)" "rc_base c = fst r" "rc_size c = range_size r"
      using region_chunks [OF reg _ q(2), where m = "cfg_mpu toml" and a = a and b = b] None me by auto
    then show ?thesis using c(2) by (intro exI [of _ m] exI [of _ r]) (simp add: holds_def x)
  next
    case (Some r)
    then have "m \<in> set (tt_extern_regions task)" using t by (force simp: task_built_def dest: map_of_SomeD)
    then have u: "unused allocs m" using b extern_unused [OF _ mem] by (simp add: built_def)
    then have "ranges_of allocs name m = []" by (simp add: unused_def)
    then have rc: "rc_base c = fst r" "rc_size c = range_size r" using region_chunks [OF reg _ q(2)] Some me by simp_all
    have "(m, r) \<in> set mems"
      using extern_regions_memories [of toml name image_name ext mems] t b map_of_SomeD [OF Some]
      by (auto simp: task_built_def built_def alloc_input_ok_def)
    moreover have "extern_region toml image_name i d"
      using rc t c(2) map_of_SomeD [OF Some] by (auto simp: extern_region_def x task_built_def)
    ultimately show ?thesis using rc u c(2) by (intro exI [of _ m] exI [of _ r]) (simp add: holds_def)
  qed
qed

lemma ranges_memory:
  assumes al: "allocated toml reqs mems allocs" and t: "t \<in> names_of (cfg_tasks toml)" and r: "r \<in> set (ranges_of allocs t m)"
  shows "\<exists>lo hi. (m, lo, hi) \<in> set mems \<and> lo \<le> fst r \<and> fst r < snd r \<and> snd r \<le> hi
    \<and> (\<forall>sz. map_of (kernel_requires toml) m = Some sz \<longrightarrow>
         (\<exists>b. map_of (al_kernel allocs) m = Some (b, b + sz) \<and> lo \<le> b \<and> unat b + unat sz \<le> unat (fst r)))
    \<and> (\<forall>t' \<in> names_of (cfg_tasks toml). t' \<noteq> t \<longrightarrow> apart (ranges_of allocs t m) (ranges_of allocs t' m))"
proof -
  have "ranges_of allocs t m \<noteq> []" using r by force
  then have "m \<in> names_of mems" using al unfolding allocated_def by blast
  then obtain lo hi mid where m: "(m, lo, hi) \<in> set mems" "mid \<le> unat hi"
      "laid_out (cfg_mpu toml) (map_of (kernel_requires toml) m) (\<lambda>t. wants reqs t m) (\<lambda>t. regions_for reqs t m)
         (names_of (cfg_tasks toml)) allocs m (unat lo) mid"
    using al by (fastforce simp: allocated_def names_of_def)
  obtain mid' where l: "unat lo \<le> mid'" "mid' \<le> mid"
      "case map_of (kernel_requires toml) m of
          None \<Rightarrow> True
        | Some sz \<Rightarrow> \<exists>b. map_of (al_kernel allocs) m = Some (b, b + sz) \<and> unat lo \<le> unat b \<and> 16 dvd unat b \<and> unat b + unat sz = mid'"
      "\<forall>t \<in> names_of (cfg_tasks toml). \<forall>amt. wants reqs t m = Some amt \<longrightarrow> length (ranges_of allocs t m) \<le> regions_for reqs t m
          \<and> (\<exists>a b. mid' \<le> a \<and> a + amt \<le> b \<and> b \<le> mid \<and> span_ok (cfg_mpu toml) a (ranges_of allocs t m) b)"
      "\<forall>t \<in> names_of (cfg_tasks toml). \<forall>t' \<in> names_of (cfg_tasks toml). t \<noteq> t' \<longrightarrow> wants reqs t m \<noteq> None \<longrightarrow> wants reqs t' m \<noteq> None \<longrightarrow>
          apart (ranges_of allocs t m) (ranges_of allocs t' m)"
      "\<forall>t. t \<notin> names_of (cfg_tasks toml) \<or> wants reqs t m = None \<longrightarrow> ranges_of allocs t m = []"
    using m(3) unfolding laid_out_def by (elim exE conjE) (rule that)
  have "wants reqs t m \<noteq> None" using r l(6) by force
  then obtain a b where "mid' \<le> a" "b \<le> mid" "span_ok (cfg_mpu toml) a (ranges_of allocs t m) b" using l(4) t by blast
  with span_ok_bounds r have f: "mid' \<le> unat (fst r)" "unat (fst r) < unat (snd r)" "unat (snd r) \<le> mid" by fastforce+
  have ap: "apart (ranges_of allocs t m) (ranges_of allocs t' m)" if "t' \<in> names_of (cfg_tasks toml)" "t' \<noteq> t" for t'
    using l(5) t that l(6) \<open>wants reqs t m \<noteq> None\<close> by (cases "wants reqs t' m") (auto simp: apart_def)
  have k: "\<exists>b. map_of (al_kernel allocs) m = Some (b, b + sz) \<and> lo \<le> b \<and> unat b + unat sz \<le> unat (fst r)"
    if "map_of (kernel_requires toml) m = Some sz" for sz
    using l(3) that f(1) by (auto simp: word_le_nat_alt)
  have "lo \<le> fst r" "fst r < snd r" "snd r \<le> hi" using l(1) f m(2) by (simp_all add: word_le_nat_alt word_less_nat_alt)
  with m(1) k ap show ?thesis by blast
qed

lemma kernel_memory:
  assumes "allocated toml reqs mems allocs" "(m, lo, hi) \<in> set mems" "map_of (kernel_requires toml) m = Some sz"
  shows "\<exists>b. map_of (al_kernel allocs) m = Some (b, b + sz) \<and> lo \<le> b \<and> unat b + unat sz \<le> unat hi"
proof -
  obtain mid where "mid \<le> unat hi" "laid_out (cfg_mpu toml) (Some sz) (\<lambda>t. wants reqs t m) (\<lambda>t. regions_for reqs t m)
         (names_of (cfg_tasks toml)) allocs m (unat lo) mid"
    using assms by (fastforce simp: allocated_def)
  then show ?thesis by (auto simp: laid_out_def word_le_nat_alt)
qed

text \<open>A region that is not shared lies inside its memory.\<close>

lemma holds_inside:
  assumes b: "built toml sizes reqs allocs mems entries image_name cfg" and i: "i < length (cfg_tasks toml)"
    and h: "holds toml allocs image_name mems i d m r"
  shows "\<exists>lo hi. (m, lo, hi) \<in> set mems \<and> lo \<le> fst r \<and> snd r \<le> hi \<and> unat (region_base d) + unat (region_size d) = unat (snd r)"
proof -
  have "\<exists>lo hi. (m, lo, hi) \<in> set mems \<and> lo \<le> fst r \<and> snd r \<le> hi \<and> fst r \<le> snd r"
  proof (cases "(m, r) \<in> set mems")
    case True
    then have "fst r \<le> snd r"
      using memories_Inr(2) [of toml image_name mems] b by (fastforce simp: built_def word_le_nat_alt)
    with True show ?thesis by (intro exI [of _ "fst r"] exI [of _ "snd r"]) simp
  next
    case False
    have "fst (cfg_tasks toml ! i) \<in> names_of (cfg_tasks toml)" using i by (simp add: names_of_def)
    from ranges_memory [OF _ this, of reqs mems allocs r m] False h b show ?thesis by (fastforce simp: holds_def built_def)
  qed
  moreover have "fst r \<le> snd r \<Longrightarrow> unat (region_base d) + unat (region_size d) = unat (snd r)"
    using h by (simp add: holds_def range_size_def unat_sub_le word_le_nat_alt)
  ultimately show ?thesis by blast
qed

lemma memories_apart:
  assumes "built toml sizes reqs allocs mems entries image_name cfg" "(m, lo, hi) \<in> set mems" "(m', lo', hi') \<in> set mems" "m' \<noteq> m"
  shows "hi \<le> lo' \<or> hi' \<le> lo"
  using assms by (fastforce simp: built_def image_input_ok_def)

lemma holds_apart:
  assumes b: "built toml sizes reqs allocs mems entries image_name cfg" and i: "i < length (cfg_tasks toml)" "j < length (cfg_tasks toml)" "i \<noteq> j"
    and h: "holds toml allocs image_name mems i d m r" "holds toml allocs image_name mems j d' m' r'"
  shows "(extern_region toml image_name i d \<and> extern_region toml image_name j d')
    \<or> desc_apart d (unat (region_base d')) (unat (region_base d') + unat (region_size d'))"
proof -
  let ?t = "\<lambda>i. fst (cfg_tasks toml ! i)"
  obtain lo hi lo' hi' where p: "(m, lo, hi) \<in> set mems" "lo \<le> fst r" "snd r \<le> hi" "unat (region_base d) + unat (region_size d) = unat (snd r)"
      "(m', lo', hi') \<in> set mems" "lo' \<le> fst r'" "snd r' \<le> hi'" "unat (region_base d') + unat (region_size d') = unat (snd r')"
    using holds_inside [OF b i(1) h(1)] holds_inside [OF b i(2) h(2)] by blast
  have base: "region_base d = fst r" "region_base d' = fst r'" using h by (simp_all add: holds_def)
  show ?thesis
  proof (cases "m' = m")
    case False
    from memories_apart [OF b p(1,5) False] p base show ?thesis by (auto simp: desc_apart_def word_le_nat_alt)
  next
    case True
    show ?thesis
    proof (cases "unused allocs m")
      case True
      with h \<open>m' = m\<close> show ?thesis by (auto simp: holds_def unused_def)
    next
      case False
      then have own: "r \<in> set (ranges_of allocs (?t i) m)" "r' \<in> set (ranges_of allocs (?t j) m)" using h \<open>m' = m\<close> by (auto simp: holds_def)
      have n: "?t i \<in> names_of (cfg_tasks toml)" "?t j \<in> names_of (cfg_tasks toml)" using i by (simp_all add: names_of_def)
      have "?t j \<noteq> ?t i"
        using i b nth_eq_iff_index_eq [of "map fst (cfg_tasks toml)" j i] by (simp add: built_def alloc_input_ok_def tasks_ok_def)
      then have "apart (ranges_of allocs (?t i) m) (ranges_of allocs (?t j) m)"
        using ranges_memory [OF _ n(1) own(1), of reqs mems] n(2) b by (auto simp: built_def)
      then have "snd r \<le> fst r' \<or> snd r' \<le> fst r" using own by (auto simp: apart_def)
      then show ?thesis using p base by (auto simp: desc_apart_def word_le_nat_alt)
    qed
  qed
qed

lemma holds_apart_kernel:
  assumes b: "built toml sizes reqs allocs mems entries image_name cfg" and i: "i < length (cfg_tasks toml)"
    and h: "holds toml allocs image_name mems i d m r" and k: "m' \<in> names_of mems" "map_of (kernel_requires toml) m' = Some sz"
  shows "\<exists>b. map_of (al_kernel allocs) m' = Some (b, b + sz) \<and> desc_apart d (unat b) (unat b + unat sz)"
proof -
  obtain lo hi where p: "(m, lo, hi) \<in> set mems" "lo \<le> fst r" "snd r \<le> hi" "unat (region_base d) + unat (region_size d) = unat (snd r)"
    using holds_inside [OF b i h] by blast
  have base: "region_base d = fst r" using h by (simp add: holds_def)
  have al: "allocated toml reqs mems allocs" using b by (simp add: built_def)
  obtain lo' hi' where m': "(m', lo', hi') \<in> set mems" using k(1) by (auto simp: names_of_def)
  then obtain b' where kb: "map_of (al_kernel allocs) m' = Some (b', b' + sz)" "lo' \<le> b'" "unat b' + unat sz \<le> unat hi'"
    using kernel_memory [OF al _ k(2)] by blast
  show ?thesis
  proof (cases "m' = m")
    case False
    from memories_apart [OF b p(1) m' False] p base kb show ?thesis by (auto simp: desc_apart_def word_le_nat_alt)
  next
    case True
    then have own: "r \<in> set (ranges_of allocs (fst (cfg_tasks toml ! i)) m)" using h kb(1) by (auto simp: holds_def unused_def)
    have "fst (cfg_tasks toml ! i) \<in> names_of (cfg_tasks toml)" using i by (simp add: names_of_def)
    from ranges_memory [OF al this own] k(2) True show ?thesis by (auto simp: desc_apart_def base)
  qed
qed


text \<open>An image of two tasks, one of which calls the other, for ARMv8-M.\<close>

definition pair_tasks :: "(string \<times> TaskToml) list" where
  "pair_tasks = [(''jefe'', example_task), (''net'', example_task\<lparr>tt_priority := 1, tt_uses := [''eth'']\<rparr>)]"

definition pair_toml :: Config where
  "pair_toml = example_toml\<lparr>kernel_requires := [(''flash'', 96), (''ram'', 512)],
     outputs := [(''flash'', example_output 0x08000000 0x1000 False), (''ram'', example_output 0x20000000 0x2000 True)],
     cfg_tasks := pair_tasks, peripherals := [(''eth'', \<lparr>p_address = 0x40000000, p_size = 1024, p_interrupts = []\<rparr>)]\<rparr>"

definition pair_sizes :: "(string \<times> (string \<times> nat) list) list" where
  "pair_sizes = [(''jefe'', [(''flash'', 64), (''ram'', 1024)]), (''net'', [(''flash'', 128), (''ram'', 2048)])]"

definition pair_reqs :: "(string \<times> TaskRequest) list" where
  "pair_reqs = [(''jefe'', \<lparr>req_memory = [(''flash'', 64), (''ram'', 1024)], spare_regions = 5\<rparr>),
     (''net'', \<lparr>req_memory = [(''flash'', 128), (''ram'', 2048)], spare_regions = 4\<rparr>)]"

lemmas pair_defs = pair_toml_def pair_tasks_def pair_sizes_def pair_reqs_def example_toml_def example_task_def example_output_def

lemma pair_make_requests: "make_requests pair_toml pair_sizes = Inr pair_reqs"
  by (simp add: pair_defs make_request_def extern_regions_for_def caboose_user_def)

lemma pair_requests: "task_requests (Chunk 32) pair_reqs pair_tasks []
    = Inr [(''flash'', [(''jefe'', [64]), (''net'', [128])]), (''ram'', [(''jefe'', [1024]), (''net'', [2048])])]"
  by (simp add: suggest_memory_region_size_def mpu_suggest_size_def Let_def in64_def pair_defs
      add_request_def push_back_def requests_in_def)

text \<open>Each task follows the one before without a gap.\<close>

lemma pair_words:
  "is_power_of_two 32" "trailing_zeros 32 = 5" "trailing_zeros 0x08000060 = 5" "trailing_zeros 0x080000a0 = 5"
  "trailing_zeros 0x20000200 = 9" "trailing_zeros 0x20000600 = 9"
  by code_simp+

lemma pair_best:
  "find_best (Chunk 32) 0x08000060 [(''jefe'', [64]), (''net'', [128])] match_init
    = Inr \<lparr>m_gap = 0, m_align = 32, m_size = 64, m_name = ''jefe'', m_dir = Reverse\<rparr>"
  "find_best (Chunk 32) 0x080000a0 [(''net'', [128])] match_init
    = Inr \<lparr>m_gap = 0, m_align = 32, m_size = 128, m_name = ''net'', m_dir = Reverse\<rparr>"
  "find_best (Chunk 32) 0x20000200 [(''jefe'', [1024]), (''net'', [2048])] match_init
    = Inr \<lparr>m_gap = 0, m_align = 32, m_size = 1024, m_name = ''jefe'', m_dir = Reverse\<rparr>"
  "find_best (Chunk 32) 0x20000600 [(''net'', [2048])] match_init
    = Inr \<lparr>m_gap = 0, m_align = 32, m_size = 2048, m_name = ''net'', m_dir = Reverse\<rparr>"
  by (simp add: checked_defs consider_task_def match_update_init, simp add: match_update_def saturating_sub_def Let_def)+

lemmas pair_steps = pair_words pair_best checked_defs merge_front_def allocate_one_def push_alloc_def ranges_push_def ranges_of_def

lemma pair_flash:
  "allocate_tasks (Chunk 32) ''flash'' [(''jefe'', [64]), (''net'', [128])] (0x08000060, 0x08001000) \<lparr>al_kernel = k, al_tasks = [], al_caboose = None\<rparr> =
   Inr ((0x08000120, 0x08001000), \<lparr>al_kernel = k, al_tasks = [(''jefe'', [(''flash'', [(0x08000060, 0x080000a0)])]),
     (''net'', [(''flash'', [(0x080000a0, 0x08000120)])])], al_caboose = None\<rparr>)"
  by (subst allocate_tasks.simps, simp add: pair_steps del: find_best.simps)
    (subst allocate_tasks.simps, simp add: pair_steps allocate_tasks.simps [of _ _ "[]"] del: find_best.simps)

lemma pair_ram:
  "allocate_tasks (Chunk 32) ''ram'' [(''jefe'', [1024]), (''net'', [2048])] (0x20000200, 0x20002000)
     \<lparr>al_kernel = k, al_tasks = [(''jefe'', [(''flash'', a)]), (''net'', [(''flash'', b)])], al_caboose = None\<rparr> =
   Inr ((0x20000e00, 0x20002000), \<lparr>al_kernel = k, al_tasks = [(''jefe'', [(''flash'', a), (''ram'', [(0x20000200, 0x20000600)])]),
     (''net'', [(''flash'', b), (''ram'', [(0x20000600, 0x20000e00)])])], al_caboose = None\<rparr>)"
  by (subst allocate_tasks.simps, simp add: pair_steps del: find_best.simps)
    (subst allocate_tasks.simps, simp add: pair_steps allocate_tasks.simps [of _ _ "[]"] del: find_best.simps)

definition pair_allocs :: allocations where
  "pair_allocs = \<lparr>al_kernel = [(''flash'', (0x08000000, 0x08000060)), (''ram'', (0x20000000, 0x20000200))],
     al_tasks = [(''jefe'', [(''flash'', [(0x08000060, 0x080000a0)]), (''ram'', [(0x20000200, 0x20000600)])]),
       (''net'', [(''flash'', [(0x080000a0, 0x08000120)]), (''ram'', [(0x20000600, 0x20000e00)])])], al_caboose = None\<rparr>"

lemma pair_memories: "memories pair_toml ''default'' = Inr [(''flash'', (0x08000000, 0x08001000)), (''ram'', (0x20000000, 0x20002000))]"
  by (simp add: memories_def memory_of_def pair_defs checked_add_def)

lemma pair_allocate: "\<exists>free. allocate_image pair_toml pair_reqs None ''default'' = Inr (pair_allocs, free)"
proof -
  have "task_requests (cfg_mpu pair_toml) pair_reqs (cfg_tasks pair_toml) [] = task_requests (Chunk 32) pair_reqs pair_tasks []"
    by (simp add: pair_toml_def example_toml_def)
  with pair_requests pair_memories show ?thesis
    by (simp add: allocate_image_def) (simp add: pair_toml_def example_toml_def requests_in_def allocate_region_def allocate_k_def checked_defs
      pair_flash pair_ram pair_allocs_def)
qed

lemma pair_alloc_input: "alloc_input_ok pair_toml pair_reqs"
  by (simp add: alloc_input_ok_def mpu_ok_def tasks_ok_def pair_defs)

lemma pair_image_input: "image_input_ok pair_toml pair_reqs ''default''"
proof -
  have "case memories pair_toml ''default'' of Inl e \<Rightarrow> True | Inr mems \<Rightarrow>
      \<forall>x \<in> set mems. \<forall>y \<in> set mems. x = y \<or> snd (snd x) \<le> fst (snd y) \<or> snd (snd y) \<le> fst (snd x)"
    unfolding pair_memories by (simp add: word_le_nat_alt)
  then show ?thesis unfolding image_input_ok_def by (simp add: pair_defs wants_def names_of_def)
qed

definition pair_cfg :: KernelConfig where
  "pair_cfg = (let task = (\<lambda>f0 fs r0 rs shared entry p.
       \<lparr>owned_regions = [(''flash'', \<lparr>mrc_base = f0, mrc_sizes = [fs], mrc_attributes = cfg_attrs True False True None\<rparr>),
          (''ram'', \<lparr>mrc_base = r0, mrc_sizes = [rs], mrc_attributes = cfg_attrs True True False None\<rparr>)],
        tc_shared_regions = shared, tc_entry_point = \<lparr>oa_region_name = ''flash'', oa_offset = entry\<rparr>,
        tc_initial_stack = \<lparr>oa_region_name = ''ram'', oa_offset = 512\<rparr>, tc_priority = p, start_at_boot = True\<rparr>) in
     \<lparr>kc_tasks = [task 0x08000060 64 0x20000200 1024 [] 8 0, task 0x080000a0 128 0x20000600 2048 [''eth''] 16 1],
      kc_shared_regions = [(''eth'', \<lparr>rc_base = 0x40000000, rc_size = 1024, rc_attributes = cfg_attrs True True False (Some RoleDevice)\<rparr>)],
      kc_irqs = []\<rparr>)"

lemma pair_kconfig:
  "make_kconfig pair_toml (al_tasks pair_allocs) [(''jefe'', 0x08000068), (''net'', 0x080000b0)] ''default'' = Inr pair_cfg"
  by (simp add: make_kconfig_def flat_shared_def kconfig_task_def extern_regions_for_def flat_ranges_def output_for_def push_owned_def
      task_shared_def caboose_user_def used_shared_def pair_allocs_def pair_defs pair_cfg_def Let_def word_le_nat_alt word_less_nat_alt)

lemma pair_extern: "check_extern_regions pair_toml pair_allocs = Inr ()"
  by (simp add: check_extern_regions_def pair_defs)


end
