(* ===== verification/Lib_Fixedmap.thy ===== *)
theory Lib_Fixedmap
  imports Kern_Prelude "HOL-Library.AList"
begin

section \<open>A fixed-size map\<close>

text \<open>
  \<^verbatim>\<open>lib/fixedmap\<close>: an array of optional pairs, filled from the front. An insertion into a
  full map panics, here \<open>None\<close>. A removal moves the last entry into the hole. The interface
  is the locale \<open>bounded_map\<close>, which the code is shown to implement.
\<close>

type_synonym ('k, 'v) FixedMap = "('k \<times> 'v) option list"

definition fixedmap_default :: "nat \<Rightarrow> ('k, 'v) FixedMap" where
  "fixedmap_default n = replicate n None"

fun fixedmap_get :: "('k, 'v) FixedMap \<Rightarrow> 'k \<Rightarrow> 'v option" where
  "fixedmap_get [] key = None"
| "fixedmap_get (None # contents) key = None"
| "fixedmap_get (Some (k, v) # contents) key =
     (if k = key then Some v else fixedmap_get contents key)"

fun fixedmap_insert :: "('k, 'v) FixedMap \<Rightarrow> 'k \<Rightarrow> 'v \<Rightarrow> ('k, 'v) FixedMap option" where
  "fixedmap_insert [] key v = None"
| "fixedmap_insert (None # contents) key v = Some (Some (key, v) # contents)"
| "fixedmap_insert (Some (k, u) # contents) key v =
     (if k = key then Some (Some (key, v) # contents)
      else map_option (Cons (Some (k, u))) (fixedmap_insert contents key v))"

fun remove_scan ::
  "nat \<Rightarrow> ('k, 'v) FixedMap \<Rightarrow> 'k \<Rightarrow> nat option \<Rightarrow> nat option \<Rightarrow> nat option \<times> nat option" where
  "remove_scan i [] key found swp = (found, swp)"
| "remove_scan i (None # contents) key found swp = (found, swp)"
| "remove_scan i (Some (k, v) # contents) key found swp =
     (if k = key then remove_scan (Suc i) contents key (Some i) swp
      else if found \<noteq> None then remove_scan (Suc i) contents key found (Some i)
      else remove_scan (Suc i) contents key found swp)"

definition fixedmap_remove :: "('k, 'v) FixedMap \<Rightarrow> 'k \<Rightarrow> ('k, 'v) FixedMap" where
  "fixedmap_remove contents key =
     (case remove_scan 0 contents key None None of
        (Some found, Some swp) \<Rightarrow> contents[found := contents ! swp, swp := None]
      | (Some found, None) \<Rightarrow> contents[found := None]
      | _ \<Rightarrow> contents)"

subsection \<open>The interface\<close>

text \<open>
  A map that may refuse an insertion: what a client may rely on, with the abstraction to a
  partial function and the capacity.
\<close>

locale bounded_map =
  fixes new :: "nat \<Rightarrow> 'm"
    and lookup :: "'m \<Rightarrow> 'k \<Rightarrow> 'v option"
    and insert :: "'m \<Rightarrow> 'k \<Rightarrow> 'v \<Rightarrow> 'm option"
    and remove :: "'m \<Rightarrow> 'k \<Rightarrow> 'm"
    and inv :: "'m \<Rightarrow> bool"
    and capacity :: "'m \<Rightarrow> nat"
  assumes new_ok: "inv (new n)" "capacity (new n) = n" "lookup (new n) k = None"
    and fits: "inv m \<Longrightarrow> finite (dom (lookup m)) \<and> card (dom (lookup m)) \<le> capacity m"
    and insert_ok: "inv m \<Longrightarrow> insert m k v = Some m' \<Longrightarrow>
      inv m' \<and> capacity m' = capacity m \<and> lookup m' = (lookup m)(k \<mapsto> v)"
    and insert_full: "inv m \<Longrightarrow> insert m k v = None \<longleftrightarrow> card (dom (lookup m)) = capacity m \<and> k \<notin> dom (lookup m)"
    and remove_ok: "inv m \<Longrightarrow> inv (remove m k) \<and> capacity (remove m k) = capacity m
      \<and> lookup (remove m k) = (lookup m)(k := None)"
begin

text \<open>An entry that is removed makes room for another.\<close>

lemma insert_after_remove:
  assumes "inv m" and "k \<in> dom (lookup m)"
  shows "\<exists>m'. insert (remove m k) k' v = Some m' \<and> inv m' \<and> lookup m' = (lookup m)(k := None, k' \<mapsto> v)"
proof -
  note r = remove_ok [OF assms(1), of k]
  have "dom (lookup (remove m k)) = dom (lookup m) - {k}" using r by auto
  then have "card (dom (lookup (remove m k))) < card (dom (lookup m))"
    using assms fits [of m] card_Diff1_less [of "dom (lookup m)" k] by simp
  then have "insert (remove m k) k' v \<noteq> None"
    using insert_full [of "remove m k" k' v] r fits [OF assms(1)] by auto
  then obtain m' where m': "insert (remove m k) k' v = Some m'" by auto
  with insert_ok [OF _ m'] r show ?thesis by auto
qed

lemma overwrite:
  assumes "inv m" and "k \<in> dom (lookup m)"
  shows "\<exists>m'. insert m k v = Some m' \<and> inv m' \<and> lookup m' = (lookup m)(k \<mapsto> v)"
  using insert_full [OF assms(1), of k v] insert_ok [OF assms(1)] assms(2) by (cases "insert m k v") auto

end

subsection \<open>The code implements it\<close>

definition fixedmap_ok :: "('k, 'v) FixedMap \<Rightarrow> bool" where
  "fixedmap_ok m \<longleftrightarrow> (\<exists>kvs n. m = map Some kvs @ replicate n None \<and> distinct (map fst kvs))"

lemma get_empty: "fixedmap_get (replicate n None) k = None"
  by (cases n) simp_all

lemma get_entries: "fixedmap_get (map Some kvs @ replicate n None) = map_of kvs"
proof
  show "fixedmap_get (map Some kvs @ replicate n None) k = map_of kvs k" for k
    by (induction kvs) (auto simp: get_empty)
qed

lemma insert_empty: "fixedmap_insert (replicate n None) k v =
    (if n = 0 then None else Some (Some (k, v) # replicate (n - 1) None))"
  by (cases n) simp_all

lemma insert_entries:
  "fixedmap_insert (map Some kvs @ replicate n None) k v =
     (if map_of kvs k \<noteq> None then Some (map Some (AList.update k v kvs) @ replicate n None)
      else if n = 0 then None else Some (map Some (kvs @ [(k, v)]) @ replicate (n - 1) None))"
  by (induction kvs) (auto simp: insert_empty)

lemma scan_none: "remove_scan i (replicate n None) k f w = (f, w)"
  by (cases n) simp_all

lemma scan_found:
  "k \<notin> fst ` set kvs \<Longrightarrow> remove_scan i (map Some kvs @ replicate n None) k (Some f) w =
     (Some f, if kvs = [] then w else Some (i + length kvs - 1))"
  by (induction kvs arbitrary: i w) (auto simp: scan_none)

lemma scan_search:
  "k \<notin> fst ` set xs \<Longrightarrow> remove_scan i (map Some xs @ rest) k None w = remove_scan (i + length xs) rest k None w"
  by (induction xs arbitrary: i) auto

lemma remove_entries:
  assumes "k \<notin> fst ` set xs" and "k \<notin> fst ` set ys"
  shows "fixedmap_remove (map Some (xs @ (k, v) # ys) @ replicate n None) k =
    (if ys = [] then map Some xs @ replicate (Suc n) None
     else map Some (xs @ last ys # butlast ys) @ replicate (Suc n) None)"
proof -
  have sc: "remove_scan 0 (map Some (xs @ (k, v) # ys) @ replicate n None) k None None
      = (Some (length xs), if ys = [] then None else Some (length xs + length ys))"
    using assms scan_search [of k xs 0 "Some (k, v) # map Some ys @ replicate n None" None]
    by (simp add: scan_found)
  show ?thesis
  proof (cases ys rule: rev_cases)
    case Nil
    with sc show ?thesis by (simp add: fixedmap_remove_def list_update_append)
  next
    case (snoc zs z)
    with sc show ?thesis by (simp add: fixedmap_remove_def nth_append list_update_append)
  qed
qed

lemma remove_absent: "k \<notin> fst ` set kvs \<Longrightarrow>
    fixedmap_remove (map Some kvs @ replicate n None) k = map Some kvs @ replicate n None"
  using scan_search [of k kvs 0 "replicate n None" None] by (simp add: fixedmap_remove_def scan_none)

lemma fixedmap_remove_ok:
  assumes "fixedmap_ok m"
  shows "fixedmap_ok (fixedmap_remove m k) \<and> length (fixedmap_remove m k) = length m
    \<and> fixedmap_get (fixedmap_remove m k) = (fixedmap_get m)(k := None)"
proof -
  from assms obtain kvs n where m: "m = map Some kvs @ replicate n None" "distinct (map fst kvs)"
    by (auto simp: fixedmap_ok_def)
  show ?thesis
  proof (cases "k \<in> fst ` set kvs")
    case False
    then have "map_of kvs k = None" by (simp add: map_of_eq_None_iff)
    with False assms show ?thesis by (simp add: m(1) remove_absent get_entries fun_upd_idem)
  next
    case True
    then obtain v xs ys where kvs: "kvs = xs @ (k, v) # ys" by (auto dest: split_list)
    with m(2) have k: "k \<notin> fst ` set xs" "k \<notin> fst ` set ys" by auto
    define zs where "zs = (if ys = [] then xs else xs @ last ys # butlast ys)"
    have set_zs: "set zs = set xs \<union> set ys" "distinct (map fst zs)" "length zs + 1 = length kvs"
      using m(2) kvs by (cases ys rule: rev_cases; force simp: zs_def)+
    have r: "fixedmap_remove m k = map Some zs @ replicate (Suc n) None"
      unfolding m(1) kvs zs_def using remove_entries [OF k, of v n] by simp
    have "distinct (map fst (xs @ ys))" using m(2) kvs by auto
    then have "map_of zs = map_of (xs @ ys)" using set_zs by (subst map_of_inject_set) auto
    moreover have "map_of xs k = None" "map_of ys k = None" using k by (simp_all add: map_of_eq_None_iff)
    then have "map_of (xs @ ys) = (map_of kvs)(k := None)"
      by (auto simp: kvs map_add_def fun_eq_iff split: option.splits)
    ultimately have "fixedmap_get (fixedmap_remove m k) = (fixedmap_get m)(k := None)"
      unfolding r unfolding m(1) by (simp only: get_entries)
    moreover have "fixedmap_ok (fixedmap_remove m k)"
      unfolding r fixedmap_ok_def using set_zs(2) by blast
    moreover have "length (fixedmap_remove m k) = length m" unfolding r using m(1) set_zs(3) by simp
    ultimately show ?thesis by blast
  qed
qed

lemma fixedmap_insert_ok:
  assumes "fixedmap_ok m" and "fixedmap_insert m k v = Some m'"
  shows "fixedmap_ok m' \<and> length m' = length m \<and> fixedmap_get m' = (fixedmap_get m)(k \<mapsto> v)"
proof -
  from assms(1) obtain kvs n where m: "m = map Some kvs @ replicate n None" "distinct (map fst kvs)"
    by (auto simp: fixedmap_ok_def)
  have "\<exists>kvs' n'. m' = map Some kvs' @ replicate n' None \<and> distinct (map fst kvs')
      \<and> length kvs' + n' = length kvs + n \<and> map_of kvs' = (map_of kvs)(k \<mapsto> v)"
  proof (cases "map_of kvs k")
    case (Some u)
    with assms(2) m have "m' = map Some (AList.update k v kvs) @ replicate n None" by (simp add: insert_entries)
    moreover have "length (AList.update k v kvs) = length kvs"
      using Some by (induction kvs) auto
    ultimately show ?thesis using m(2) by (metis distinct_update update_conv')
  next
    case None
    with assms(2) m have m': "m' = map Some (kvs @ [(k, v)]) @ replicate (n - 1) None" "n \<noteq> 0"
      by (auto simp: insert_entries split: if_splits)
    have "map_of (kvs @ [(k, v)]) = (map_of kvs)(k \<mapsto> v)"
      using None by (auto simp: map_add_def fun_eq_iff split: option.splits)
    moreover have "distinct (map fst (kvs @ [(k, v)]))" using m(2) None by (auto simp: map_of_eq_None_iff)
    ultimately show ?thesis using m' by (intro exI [of _ "kvs @ [(k, v)]"] exI [of _ "n - 1"]) auto
  qed
  then show ?thesis using m(1) by (auto simp: fixedmap_ok_def get_entries)
qed

lemma fixedmap_insert_full:
  assumes "fixedmap_ok m"
  shows "fixedmap_insert m k v = None \<longleftrightarrow> card (dom (fixedmap_get m)) = length m \<and> k \<notin> dom (fixedmap_get m)"
    and "finite (dom (fixedmap_get m))" "card (dom (fixedmap_get m)) \<le> length m"
proof -
  from assms obtain kvs n where m: "m = map Some kvs @ replicate n None" "distinct (map fst kvs)"
    by (auto simp: fixedmap_ok_def)
  have "card (dom (map_of kvs)) = length kvs"
    using m(2) distinct_card [of "map fst kvs"] by (simp add: dom_map_of_conv_image_fst)
  then show "fixedmap_insert m k v = None \<longleftrightarrow> card (dom (fixedmap_get m)) = length m \<and> k \<notin> dom (fixedmap_get m)"
    "finite (dom (fixedmap_get m))" "card (dom (fixedmap_get m)) \<le> length m"
    by (auto simp: m(1) insert_entries get_entries finite_dom_map_of)
qed

interpretation fixedmap: bounded_map fixedmap_default fixedmap_get fixedmap_insert fixedmap_remove fixedmap_ok length
proof
  show "fixedmap_ok (fixedmap_default n)" for n
    by (auto simp: fixedmap_ok_def fixedmap_default_def intro!: exI [of _ "[]"])
qed (auto simp: fixedmap_default_def get_empty fixedmap_remove_ok fixedmap_insert_full dest: fixedmap_insert_ok)

subsection \<open>Properties\<close>

text \<open>
  A fixed-size map behaves as a partial function with a bound on its domain: an insertion
  panics exactly when the map is full and the key is new and otherwise updates that key alone;
  a removal forgets that key alone and makes room for one more; both keep the array compact
  with distinct keys.
\<close>

theorem fixedmap_refines_map:
  assumes "fixedmap_ok m"
  shows "(case fixedmap_insert m k v of
      None \<Rightarrow> card (dom (fixedmap_get m)) = length m \<and> fixedmap_get m k = None
    | Some m' \<Rightarrow> fixedmap_ok m' \<and> length m' = length m \<and> fixedmap_get m' = (fixedmap_get m)(k \<mapsto> v))
    \<and> fixedmap_ok (fixedmap_remove m k) \<and> fixedmap_get (fixedmap_remove m k) = (fixedmap_get m)(k := None)
    \<and> (fixedmap_get m k \<noteq> None \<longrightarrow> fixedmap_insert (fixedmap_remove m k) k' v \<noteq> None)"
  using fixedmap.insert_ok [OF assms, of k v] fixedmap.insert_full [OF assms, of k v] fixedmap.remove_ok [OF assms, of k]
    fixedmap.insert_after_remove [OF assms, of k k' v]
  by (auto split: option.splits simp: domIff)

theorem fixedmap_refines_map_witness:
  "fixedmap_insert [Some (1 :: nat, True), Some (2, False)] 3 True = None
   \<and> fixedmap_get (fixedmap_remove [Some (1 :: nat, True), Some (2, False)] 1) = [2 \<mapsto> False]"
proof -
  have ok: "fixedmap_ok [Some (1 :: nat, True), Some (2, False)]"
    unfolding fixedmap_ok_def by (intro exI [of _ "[(1, True), (2, False)]"] exI [of _ 0]) simp
  have "fixedmap_get [Some (1 :: nat, True), Some (2, False)] = [1 \<mapsto> True, 2 \<mapsto> False]" by auto
  with fixedmap_refines_map [OF ok, of 1 True 3] show ?thesis by auto
qed

end
