(* ===== verification/Lib_Gnarle.thy ===== *)
theory Lib_Gnarle
  imports Kern_Prelude
begin

section \<open>Run-length compression\<close>

text \<open>
  \<^verbatim>\<open>lib/gnarle\<close>: the compressor hands its output in small pieces to a function of the caller
  that may fail, here a state transformer; the decompressor is a resumable state machine that
  stops when its input or its output buffer is exhausted. \<open>expand\<close> is the whole decompressed
  form of an input, independent of buffers.
\<close>

definition ESC :: u8 where "ESC = 0xBA"

datatype ('s, 'e) out_result = OutOk 's | OutErr 'e | OutPanic

type_synonym ('s, 'e) out_fun = "u8 list \<Rightarrow> 's \<Rightarrow> ('s, 'e) out_result"

fun out_bind :: "('s, 'e) out_result \<Rightarrow> ('s \<Rightarrow> ('s, 'e) out_result) \<Rightarrow> ('s, 'e) out_result" where
  "out_bind (OutOk s) f = f s"
| "out_bind (OutErr e) f = OutErr e"
| "out_bind OutPanic f = OutPanic"

fun emit_bytes :: "('s, 'e) out_fun \<Rightarrow> u8 \<Rightarrow> nat \<Rightarrow> 's \<Rightarrow> ('s, 'e) out_result" where
  "emit_bytes out byte 0 s = OutOk s"
| "emit_bytes out byte (Suc n) s = out_bind (out [byte] s) (emit_bytes out byte n)"

text \<open>\<^verbatim>\<open>count - 1\<close> panics on zero, and the conversion to the run type above 255.\<close>

definition generate_run :: "('s, 'e) out_fun \<Rightarrow> u8 \<Rightarrow> nat \<Rightarrow> 's \<Rightarrow> ('s, 'e) out_result" where
  "generate_run out byte count s =
     (if count < 4 \<and> byte \<noteq> ESC then emit_bytes out byte count s
      else out_bind (out [ESC, byte] s) (\<lambda>s.
        if count = 0 \<or> 255 < count - 1 then OutPanic
        else out [word_of_nat (count - 1)] s))"

fun compress_loop ::
  "('s, 'e) out_fun \<Rightarrow> u8 list \<Rightarrow> (u8 \<times> nat) option \<Rightarrow> 's \<Rightarrow> ('s, 'e) out_result" where
  "compress_loop out [] current_run s =
     (case current_run of
        Some (current_byte, current_len) \<Rightarrow> generate_run out current_byte current_len s
      | None \<Rightarrow> OutOk s)"
| "compress_loop out (byte # input) current_run s =
     (case current_run of
        Some (current_byte, current_len) \<Rightarrow>
          if byte = current_byte \<and> current_len < 255 + 1
          then compress_loop out input (Some (current_byte, current_len + 1)) s
          else out_bind (generate_run out current_byte current_len s)
                 (\<lambda>s. compress_loop out input (Some (byte, 1)) s)
      | None \<Rightarrow> compress_loop out input (Some (byte, 1)) s)"

definition compress :: "('s, 'e) out_fun \<Rightarrow> u8 list \<Rightarrow> 's \<Rightarrow> ('s, 'e) out_result" where
  "compress out input s = compress_loop out input None s"

definition compress_to_vec :: "u8 list \<Rightarrow> (u8 list, unit) out_result" where
  "compress_to_vec input = compress (\<lambda>chunk output. OutOk (output @ chunk)) input []"

subsection \<open>Decompression\<close>

datatype DState = Copying | Repeating u8 u8 | AwaitingByte | AwaitingCount u8

definition is_idle :: "DState \<Rightarrow> bool" where
  "is_idle st \<longleftrightarrow> st = Copying"

definition decompressor_default :: DState where
  "decompressor_default = Copying"

record dec =
  dec_state :: DState
  dec_input :: "u8 list"
  dec_output :: "u8 list"
  dec_n :: nat

text \<open>One iteration of the loop; \<open>None\<close> is its \<^verbatim>\<open>break\<close>.\<close>

definition decompress_step :: "dec \<Rightarrow> dec option" where
  "decompress_step d =
     (case dec_state d of
        Repeating byte count \<Rightarrow>
          Some (d\<lparr>dec_output := (dec_output d)[dec_n d := byte], dec_n := dec_n d + 1,
            dec_state := (if count \<noteq> 0 then Repeating byte (count - 1) else Copying)\<rparr>)
      | Copying \<Rightarrow>
          (case dec_input d of
             [] \<Rightarrow> None
           | byte # rest \<Rightarrow>
               if byte = ESC then Some (d\<lparr>dec_input := rest, dec_state := AwaitingByte\<rparr>)
               else Some (d\<lparr>dec_input := rest,
                 dec_output := (dec_output d)[dec_n d := byte], dec_n := dec_n d + 1\<rparr>))
      | AwaitingByte \<Rightarrow>
          (case dec_input d of
             [] \<Rightarrow> None
           | byte # rest \<Rightarrow> Some (d\<lparr>dec_input := rest, dec_state := AwaitingCount byte\<rparr>))
      | AwaitingCount byte \<Rightarrow>
          (case dec_input d of
             [] \<Rightarrow> None
           | count # rest \<Rightarrow> Some (d\<lparr>dec_input := rest, dec_state := Repeating byte count\<rparr>)))"

lemma decompress_step_progress:
  "decompress_step d = Some d' \<Longrightarrow> dec_n d < length (dec_output d) \<Longrightarrow>
     (length (dec_output d') - dec_n d') + length (dec_input d') < (length (dec_output d) - dec_n d) + length (dec_input d)"
  by (auto simp: decompress_step_def split: DState.splits list.splits if_splits)

function decompress_loop :: "dec \<Rightarrow> dec" where
  "decompress_loop d =
     (if dec_n d < length (dec_output d) then
        (case decompress_step d of None \<Rightarrow> d | Some d' \<Rightarrow> decompress_loop d')
      else d)"
  by pat_completeness auto
termination
  by (relation "measure (\<lambda>d. (length (dec_output d) - dec_n d) + length (dec_input d))")
    (auto dest: decompress_step_progress)

declare decompress_loop.simps [simp del]

text \<open>State, remaining input and the prefix of the buffer that was written.\<close>

definition decompress :: "DState \<Rightarrow> u8 list \<Rightarrow> u8 list \<Rightarrow> DState \<times> u8 list \<times> u8 list" where
  "decompress st input output =
     (let d = decompress_loop \<lparr>dec_state = st, dec_input = input, dec_output = output, dec_n = 0\<rparr>
      in (dec_state d, dec_input d, take (dec_n d) (dec_output d)))"

subsection \<open>The decompressed form of an input\<close>

function expand :: "DState \<Rightarrow> u8 list \<Rightarrow> u8 list \<times> DState" where
  "expand (Repeating byte count) input =
     (let (os, st) = expand Copying input in (replicate (unat count + 1) byte @ os, st))"
| "expand Copying [] = ([], Copying)"
| "expand Copying (b # input) =
     (if b = ESC then expand AwaitingByte input
      else let (os, st) = expand Copying input in (b # os, st))"
| "expand AwaitingByte [] = ([], AwaitingByte)"
| "expand AwaitingByte (b # input) = expand (AwaitingCount b) input"
| "expand (AwaitingCount b) [] = ([], AwaitingCount b)"
| "expand (AwaitingCount b) (c # input) = expand (Repeating b c) input"
  by pat_completeness auto
termination
  by (relation "measure (\<lambda>(st, input). 2 * length input + (case st of Repeating _ _ \<Rightarrow> 1 | _ \<Rightarrow> 0))") auto

text \<open>
  One call of the decompressor: what it writes, followed by what is left to expand, is the
  expansion of what it was given; it stops early only on an exhausted input.
\<close>

definition prepend :: "u8 list \<Rightarrow> u8 list \<times> DState \<Rightarrow> u8 list \<times> DState" where
  "prepend os p = (os @ fst p, snd p)"

lemma prepend_simps [simp]:
  "prepend [] p = p" "prepend xs (prepend ys p) = prepend (xs @ ys) p"
  "fst (prepend os p) = os @ fst p" "snd (prepend os p) = snd p"
  by (simp_all add: prepend_def)

lemma expand_step:
  "expand (Repeating b c) input = prepend (replicate (unat c + 1) b) (expand Copying input)"
  "b \<noteq> ESC \<Longrightarrow> expand Copying (b # input) = prepend [b] (expand Copying input)"
  by (simp_all add: prepend_def split: prod.splits)

lemma repeat_once:
  "expand (Repeating b c) input =
     prepend [b] (expand (if c \<noteq> 0 then Repeating b (c - 1) else Copying) input)"
proof (cases "c = 0")
  case True
  then show ?thesis by (simp add: expand_step(1) del: expand.simps(1))
next
  case False
  then have "unat c = Suc (unat (c - 1))" by (simp add: unat_minus_one unat_gt_0)
  with False show ?thesis by (simp add: expand_step(1) del: expand.simps(1))
qed

definition dec_post :: "dec \<Rightarrow> dec \<Rightarrow> bool" where
  "dec_post d d' \<longleftrightarrow> dec_n d \<le> dec_n d' \<and> dec_n d' \<le> length (dec_output d)
     \<and> length (dec_output d') = length (dec_output d)
     \<and> take (dec_n d) (dec_output d') = take (dec_n d) (dec_output d)
     \<and> expand (dec_state d) (dec_input d) =
         prepend (drop (dec_n d) (take (dec_n d') (dec_output d'))) (expand (dec_state d') (dec_input d'))
     \<and> (dec_n d' < length (dec_output d) \<longrightarrow> dec_input d' = [] \<and> (\<forall>b c. dec_state d' \<noteq> Repeating b c))"

lemma dec_post_write:
  assumes "dec_n d < length (dec_output d)"
    and "dec_post (d\<lparr>dec_input := inp, dec_output := (dec_output d)[dec_n d := b], dec_n := dec_n d + 1, dec_state := st\<rparr>) d'"
    and "expand (dec_state d) (dec_input d) = prepend [b] (expand st inp)"
  shows "dec_post d d'"
proof -
  let ?n = "dec_n d" and ?o = "dec_output d'"
  note p = assms(2) [unfolded dec_post_def, simplified]
  have n: "?n < dec_n d'" "?n < length ?o" using p assms(1) by auto
  have "?o ! ?n = take (Suc ?n) ?o ! ?n" by simp
  also have "\<dots> = b" using p assms(1) by simp
  finally have b: "?o ! ?n = b" .
  have dr: "drop ?n (take (dec_n d') ?o) = b # drop (Suc ?n) (take (dec_n d') ?o)"
    using n b by (simp add: Cons_nth_drop_Suc [symmetric])
  have "take ?n ?o = take ?n (take (Suc ?n) ?o)" by (simp add: min_def)
  also have "\<dots> = take ?n (dec_output d)" using p by (simp add: min_def)
  finally have "take ?n ?o = take ?n (dec_output d)" .
  with p n dr assms(3) show ?thesis by (simp add: dec_post_def)
qed

lemma dec_post_read:
  assumes "dec_post (d\<lparr>dec_input := inp, dec_state := st\<rparr>) d'"
    and "expand (dec_state d) (dec_input d) = expand st inp"
  shows "dec_post d d'"
  using assms by (simp add: dec_post_def)

lemma decompress_step_post:
  assumes "decompress_step d = Some d1" and "dec_n d < length (dec_output d)" and "dec_post d1 d'"
  shows "dec_post d d'"
proof (cases "dec_state d")
  case (Repeating b c)
  let ?st = "if c \<noteq> 0 then Repeating b (c - 1) else Copying"
  have d1: "d1 = d\<lparr>dec_input := dec_input d, dec_output := (dec_output d)[dec_n d := b], dec_n := dec_n d + 1, dec_state := ?st\<rparr>"
    using assms(1) Repeating by (simp add: decompress_step_def)
  have e: "expand (dec_state d) (dec_input d) = prepend [b] (expand ?st (dec_input d))"
    unfolding Repeating by (rule repeat_once)
  show ?thesis by (rule dec_post_write [OF assms(2) assms(3) [unfolded d1] e])
next
  case Copying
  show ?thesis
  proof (cases "\<exists>rest. dec_input d = ESC # rest")
    case True
    with assms Copying show ?thesis by (auto simp: decompress_step_def intro: dec_post_read)
  next
    case False
    with assms(1) Copying obtain b rest where b: "dec_input d = b # rest" "b \<noteq> ESC"
      by (auto simp: decompress_step_def split: list.splits)
    have d1: "d1 = d\<lparr>dec_input := rest, dec_output := (dec_output d)[dec_n d := b], dec_n := dec_n d + 1, dec_state := Copying\<rparr>"
      using assms(1) Copying b by (cases d) (auto simp: decompress_step_def)
    have e: "expand (dec_state d) (dec_input d) = prepend [b] (expand Copying rest)"
      unfolding Copying b(1) by (rule expand_step(2) [OF b(2)])
    show ?thesis by (rule dec_post_write [OF assms(2) assms(3) [unfolded d1] e])
  qed
next
  case AwaitingByte
  with assms show ?thesis by (auto simp: decompress_step_def intro: dec_post_read split: list.splits)
next
  case (AwaitingCount b)
  with assms show ?thesis
    by (auto simp: decompress_step_def simp del: expand.simps(1) intro: dec_post_read split: list.splits)
qed

lemma decompress_step_None:
  "decompress_step d = None \<Longrightarrow> dec_input d = [] \<and> (\<forall>b c. dec_state d \<noteq> Repeating b c)"
  by (auto simp: decompress_step_def split: DState.splits list.splits if_splits)

lemma decompress_step_bound:
  "decompress_step d = Some d' \<Longrightarrow> dec_n d < length (dec_output d) \<Longrightarrow> dec_n d' \<le> length (dec_output d')"
  by (auto simp: decompress_step_def split: DState.splits list.splits if_splits)

lemma decompress_loop_post: "dec_n d \<le> length (dec_output d) \<Longrightarrow> dec_post d (decompress_loop d)"
proof (induction d rule: decompress_loop.induct)
  case (1 d)
  consider "dec_n d = length (dec_output d)" | "dec_n d < length (dec_output d)" "decompress_step d = None"
    | d1 where "dec_n d < length (dec_output d)" "decompress_step d = Some d1"
    using 1(2) by (cases "decompress_step d"; cases "dec_n d = length (dec_output d)") auto
  then show ?case
  proof cases
    case 1
    then show ?thesis by (subst decompress_loop.simps) (simp add: dec_post_def)
  next
    case 2
    then show ?thesis using decompress_step_None [of d] by (subst decompress_loop.simps) (simp add: dec_post_def)
  next
    case (3 d1)
    with 1(1) decompress_step_bound decompress_step_post show ?thesis by (subst decompress_loop.simps) simp
  qed
qed

lemma decompress_spec:
  assumes "decompress st input output = (st', input', written)"
  shows "expand st input = prepend written (expand st' input')" and "length written \<le> length output"
    and "length written < length output \<Longrightarrow> input' = [] \<and> (\<forall>b c. st' \<noteq> Repeating b c)"
proof -
  let ?d = "\<lparr>dec_state = st, dec_input = input, dec_output = output, dec_n = 0\<rparr>"
  have "dec_post ?d (decompress_loop ?d)" by (rule decompress_loop_post) simp
  with assms show "expand st input = prepend written (expand st' input')" "length written \<le> length output"
    "length written < length output \<Longrightarrow> input' = [] \<and> (\<forall>b c. st' \<noteq> Repeating b c)"
    by (auto simp: dec_post_def decompress_def Let_def)
qed

subsection \<open>Compression\<close>

text \<open>What the compressor emits for a run, and that it expands to the run.\<close>

definition encode_run :: "u8 \<Rightarrow> nat \<Rightarrow> u8 list" where
  "encode_run b n = (if n < 4 \<and> b \<noteq> ESC then replicate n b else [ESC, b, word_of_nat (n - 1)])"

lemma expand_encode_run:
  assumes "0 < n" and "n \<le> 256"
  shows "expand Copying (encode_run b n @ rest) = prepend (replicate n b) (expand Copying rest)"
proof (cases "n < 4 \<and> b \<noteq> ESC")
  case True
  then have "expand Copying (replicate k b @ rest) = prepend (replicate k b) (expand Copying rest)" for k
    by (induction k) (simp_all add: expand_step(2) del: expand.simps)
  with True show ?thesis by (simp add: encode_run_def)
next
  case False
  obtain k where k: "n = Suc k" "k < 256" using assms by (cases n) auto
  then have "unat (word_of_nat k :: u8) = k" by (simp add: unsigned_of_nat take_bit_nat_eq_self)
  moreover from False k have "encode_run b n = [ESC, b, word_of_nat k]" by (auto simp: encode_run_def)
  ultimately show ?thesis using k by (simp add: expand_step(1) del: expand.simps(1))
qed

lemma emit_bytes_vec: "emit_bytes (\<lambda>chunk output. OutOk (output @ chunk)) b n acc = OutOk (acc @ replicate n b)"
  by (induction n arbitrary: acc) simp_all

lemma generate_run_vec:
  "0 < n \<Longrightarrow> n \<le> 256 \<Longrightarrow>
     generate_run (\<lambda>chunk output. OutOk (output @ chunk)) b n acc = OutOk (acc @ encode_run b n)"
  by (auto simp: generate_run_def encode_run_def emit_bytes_vec)

lemma compress_loop_vec:
  "0 < n \<Longrightarrow> n \<le> 256 \<Longrightarrow> \<exists>code. compress_loop (\<lambda>chunk output. OutOk (output @ chunk)) input (Some (b, n)) acc
       = (OutOk (acc @ code) :: (u8 list, 'e) out_result)
     \<and> (\<forall>rest. expand Copying (code @ rest) = prepend (replicate n b @ input) (expand Copying rest))"
proof (induction input arbitrary: b n acc)
  case Nil
  then show ?case by (simp add: generate_run_vec expand_encode_run)
next
  case (Cons x input)
  show ?case
  proof (cases "x = b \<and> n < 256")
    case True
    with Cons.IH [of "Suc n" b acc] show ?thesis by (simp add: replicate_app_Cons_same)
  next
    case False
    from Cons.IH [of 1 x "acc @ encode_run b n"] obtain code where
      "compress_loop (\<lambda>chunk output. OutOk (output @ chunk)) input (Some (x, 1)) (acc @ encode_run b n)
         = (OutOk (acc @ encode_run b n @ code) :: (u8 list, 'e) out_result)"
      "\<forall>rest. expand Copying (code @ rest) = prepend (x # input) (expand Copying rest)" by auto
    with False Cons.prems show ?thesis
      by (intro exI [of _ "encode_run b n @ code"]) (auto simp: generate_run_vec expand_encode_run)
  qed
qed

lemma compress_to_vec_expand:
  "\<exists>code. compress_to_vec input = OutOk code \<and> (\<forall>rest. expand Copying (code @ rest) = prepend input (expand Copying rest))"
proof (cases input)
  case (Cons x xs)
  with compress_loop_vec [of 1 xs x "[]"] show ?thesis by (simp add: compress_to_vec_def compress_def)
qed (simp add: compress_to_vec_def compress_def)

subsection \<open>Properties\<close>

text \<open>A sequence of calls with buffers of the given sizes; the state and input carry over.\<close>

fun decompress_calls :: "DState \<Rightarrow> u8 list \<Rightarrow> u8 list list \<Rightarrow> DState \<times> u8 list \<times> u8 list" where
  "decompress_calls st input [] = (st, input, [])"
| "decompress_calls st input (buffer # buffers) =
     (let (st1, input1, w1) = decompress st input buffer;
          (st2, input2, w2) = decompress_calls st1 input1 buffers
      in (st2, input2, w1 @ w2))"

lemma decompress_calls_expand:
  "decompress_calls st input buffers = (st', input', written) \<Longrightarrow>
     expand st input = prepend written (expand st' input')"
proof (induction buffers arbitrary: st input written)
  case (Cons buffer buffers)
  obtain st1 input1 w1 where 1: "decompress st input buffer = (st1, input1, w1)" by (metis prod_cases3)
  obtain st2 input2 w2 where 2: "decompress_calls st1 input1 buffers = (st2, input2, w2)" by (metis prod_cases3)
  from Cons.prems 1 2 have "st2 = st'" "input2 = input'" "written = w1 @ w2" by auto
  with decompress_spec(1) [OF 1] Cons.IH 2 show ?case by auto
qed simp

lemma expand_nonempty: "expand st input = ([], Copying) \<Longrightarrow> st = Copying \<and> input = []"
  by (cases st; cases input; cases "tl input"; cases "tl (tl input)")
    (auto split: if_splits prod.splits)



end
