(* ===== verification/Lib_Phash.thy ===== *)
theory Lib_Phash
  imports Kern_Abi "HOL-Library.Multiset"
begin

section \<open>Interrupt tables as perfect hash maps\<close>

text \<open>
  The tables behind \<^verbatim>\<open>HUBRIS_IRQ_TASK_LOOKUP\<close> and \<^verbatim>\<open>HUBRIS_TASK_IRQ_LOOKUP\<close>: the lookups of
  \<^verbatim>\<open>lib/phash\<close>, which the kernel calls, the generator \<^verbatim>\<open>build/phash-gen\<close>, and the part of
  \<^verbatim>\<open>sys/kern/build.rs\<close> that derives both maps from the configuration and writes them out.
  The random numbers of the generator are a parameter, the sequence of its draws. Where the
  generator asserts, the result is \<open>GenPanic\<close>, where it bails, \<open>GenBail\<close>.
\<close>

subsection \<open>Hash functions and lookups\<close>

definition phash_u32 :: "u32 \<Rightarrow> u32 \<Rightarrow> nat" where
  "phash_u32 k b = unat (k * b)"

definition phash_owner :: "InterruptOwner \<Rightarrow> u32 \<Rightarrow> nat" where
  "phash_owner k v = unat (io_task k * v + io_notification k * (NOT v))"

record ('k, 'v) PerfectHashMap =
  ph_m :: u32
  ph_values :: "('k \<times> 'v) list"

definition phash_get :: "('k \<Rightarrow> u32 \<Rightarrow> nat) \<Rightarrow> ('k, 'v) PerfectHashMap \<Rightarrow> 'k \<Rightarrow> 'v option" where
  "phash_get phash t key =
     (if ph_values t = [] then None
      else let i = phash key (ph_m t) mod length (ph_values t) in
        if key = fst (ph_values t ! i) then Some (snd (ph_values t ! i)) else None)"

subsection \<open>The generator\<close>

datatype 'a gen_result = Gen 'a | GenBail | GenPanic

type_synonym ('k, 'v) OwnedPerfectHashMap = "u32 \<times> ('k \<times> 'v) option list"

text \<open>\<^verbatim>\<open>sort_unstable\<close>, \<^verbatim>\<open>dedup\<close> and the comparison of lengths.\<close>

definition count_distinct :: "nat list \<Rightarrow> nat" where
  "count_distinct vs = length (remdups_adj (sort vs))"

definition phash_check :: "('k \<Rightarrow> u32 \<Rightarrow> nat) \<Rightarrow> ('k \<times> 'v) list \<Rightarrow> nat \<Rightarrow> u32 \<Rightarrow> bool gen_result" where
  "phash_check phash kvs slots m =
     (if slots < length kvs then GenPanic
      else Gen (count_distinct (map (\<lambda>v. phash (fst v) m mod slots) kvs) = length kvs))"

fun phash_fill :: "('k \<Rightarrow> u32 \<Rightarrow> nat) \<Rightarrow> u32 \<Rightarrow> ('k \<times> 'v) list \<Rightarrow> ('k \<times> 'v) option list
    \<Rightarrow> ('k \<times> 'v) option list gen_result" where
  "phash_fill phash m [] out = Gen out"
| "phash_fill phash m (v # kvs) out =
     (let index = phash (fst v) m mod length out in
      if index < length out \<and> out ! index = None then phash_fill phash m kvs (out[index := Some v])
      else GenPanic)"

text \<open>The tries for one number of slots; \<open>None\<close> when none of the draws works.\<close>

fun phash_tries :: "('k \<Rightarrow> u32 \<Rightarrow> nat) \<Rightarrow> ('k \<times> 'v) list \<Rightarrow> nat \<Rightarrow> u32 list
    \<Rightarrow> ('k, 'v) OwnedPerfectHashMap option gen_result" where
  "phash_tries phash kvs slots [] = Gen None"
| "phash_tries phash kvs slots (m # ms) =
     (case phash_check phash kvs slots m of
        Gen True \<Rightarrow>
          (case phash_fill phash m kvs (replicate slots None) of
             Gen out \<Rightarrow> Gen (Some (m, out)) | GenBail \<Rightarrow> GenBail | GenPanic \<Rightarrow> GenPanic)
      | Gen False \<Rightarrow> phash_tries phash kvs slots ms
      | GenBail \<Rightarrow> GenBail | GenPanic \<Rightarrow> GenPanic)"

definition TRY_COUNT :: nat where "TRY_COUNT = 1000"

fun phash_slots :: "('k \<Rightarrow> u32 \<Rightarrow> nat) \<Rightarrow> ('k \<times> 'v) list \<Rightarrow> (nat \<Rightarrow> u32) \<Rightarrow> nat list \<Rightarrow> nat
    \<Rightarrow> ('k, 'v) OwnedPerfectHashMap gen_result" where
  "phash_slots phash kvs rng [] drawn = GenBail"
| "phash_slots phash kvs rng (slots # rest) drawn =
     (case phash_tries phash kvs slots (map rng [drawn..<drawn + TRY_COUNT]) of
        Gen (Some t) \<Rightarrow> Gen t
      | Gen None \<Rightarrow> phash_slots phash kvs rng rest (drawn + TRY_COUNT)
      | GenBail \<Rightarrow> GenBail | GenPanic \<Rightarrow> GenPanic)"

definition phash_build ::
  "('k \<Rightarrow> u32 \<Rightarrow> nat) \<Rightarrow> (nat \<Rightarrow> u32) \<Rightarrow> ('k \<times> 'v) list \<Rightarrow> ('k, 'v) OwnedPerfectHashMap gen_result" where
  "phash_build phash rng kvs =
     (if length (remdups (map fst kvs)) \<noteq> length kvs then GenBail
      else phash_slots phash kvs rng [length kvs..<2 * length kvs + 1] 0)"

text \<open>\<^verbatim>\<open>fmt_perfect_hash_map\<close>: an empty slot is written as a key no lookup uses.\<close>

definition fmt_perfect_hash_map :: "'k \<times> 'v \<Rightarrow> ('k, 'v) OwnedPerfectHashMap \<Rightarrow> ('k, 'v) PerfectHashMap" where
  "fmt_perfect_hash_map invalid t =
     \<lparr>ph_m = fst t, ph_values = map (\<lambda>e. case e of Some v \<Rightarrow> v | None \<Rightarrow> invalid) (snd t)\<rparr>"

definition interrupt_num_invalid :: u32 where "interrupt_num_invalid = - 1"

definition interrupt_owner_invalid :: InterruptOwner where
  "interrupt_owner_invalid = \<lparr>io_task = - 1, io_notification = 0\<rparr>"

text \<open>
  The two maps of the configuration: from each interrupt to its owner, and from each owner to
  its interrupts, accumulated in the order of the configuration. The latter is a hash map in
  the source, listed in an order of its own: the properties hold for every order.
\<close>

definition irq_task_map :: "(u32 \<times> InterruptOwner) list \<Rightarrow> (u32 \<times> InterruptOwner) list" where
  "irq_task_map irqs = irqs"

fun per_task_irqs :: "(u32 \<times> InterruptOwner) list \<Rightarrow> (InterruptOwner \<times> u32 list) list
    \<Rightarrow> (InterruptOwner \<times> u32 list) list" where
  "per_task_irqs [] acc = acc"
| "per_task_irqs ((irq, own) # irqs) acc =
     per_task_irqs irqs
       (case map_of acc own of
          None \<Rightarrow> acc @ [(own, [irq])]
        | Some _ \<Rightarrow> map (\<lambda>(ow, js). if ow = own then (ow, js @ [irq]) else (ow, js)) acc)"

definition task_irq_map :: "(u32 \<times> InterruptOwner) list \<Rightarrow> (InterruptOwner \<times> u32 list) list" where
  "task_irq_map irqs = per_task_irqs irqs []"

subsection \<open>A generated table answers as the map it was built from\<close>

lemma sorted_distinct_adj: "sorted xs \<Longrightarrow> distinct_adj xs \<Longrightarrow> distinct xs"
proof (induction xs)
  case (Cons x xs)
  then have "x \<notin> set xs" by (cases xs) (auto simp: order.order_iff_strict)
  with Cons show ?case by (cases xs) auto
qed simp

lemma count_distinct_full: "count_distinct vs = length vs \<Longrightarrow> distinct vs"
proof -
  assume "count_distinct vs = length vs"
  then have "distinct_adj (sort vs)"
    by (simp add: count_distinct_def distinct_adj_conv_length_remdups_adj)
  then have "distinct (sort vs)" by (intro sorted_distinct_adj) simp_all
  then show ?thesis by simp
qed

text \<open>Filling the slots: every value lands in its slot, and the assertion never fires.\<close>

lemma phash_fill_props:
  "phash_fill phash m kvs out = Gen out' \<Longrightarrow>
     length out' = length out
     \<and> (\<forall>i < length out. out ! i \<noteq> None \<longrightarrow> out' ! i = out ! i)
     \<and> (\<forall>v \<in> set kvs. phash (fst v) m mod length out < length out \<and> out' ! (phash (fst v) m mod length out) = Some v)
     \<and> (\<forall>i v. i < length out \<longrightarrow> out' ! i = Some v \<longrightarrow> out ! i = Some v \<or> v \<in> set kvs)"
proof (induction kvs arbitrary: out)
  case (Cons v kvs)
  let ?i = "phash (fst v) m mod length out"
  from Cons.prems have i: "?i < length out" "out ! ?i = None"
    and f: "phash_fill phash m kvs (out[?i := Some v]) = Gen out'"
    by (auto simp: Let_def split: if_splits)
  note ih = Cons.IH [OF f, unfolded length_list_update]
  have "out[?i := Some v] ! ?i = Some v" using i by simp
  with ih i(1) have "out' ! ?i = Some v" by (metis option.distinct(1))
  moreover have "out' ! j = out ! j" if "out ! j \<noteq> None" "j < length out" for j
  proof -
    have "j \<noteq> ?i" using that i by auto
    with ih that show ?thesis by auto
  qed
  moreover have "out ! j = Some u \<or> u \<in> set (v # kvs)" if "j < length out" "out' ! j = Some u" for j u
    using ih that i by (cases u; cases "j = ?i") auto
  ultimately show ?case using ih i(1) by auto
qed simp

lemma phash_fill_total:
  "distinct (map (\<lambda>v. phash (fst v) m mod length out) kvs) \<Longrightarrow>
     \<forall>v \<in> set kvs. out ! (phash (fst v) m mod length out) = None \<Longrightarrow> kvs \<noteq> [] \<longrightarrow> 0 < length out \<Longrightarrow>
     \<exists>out'. phash_fill phash m kvs out = Gen out'"
proof (induction kvs arbitrary: out)
  case (Cons v kvs)
  let ?i = "phash (fst v) m mod length out"
  have "\<exists>out'. phash_fill phash m kvs (out[?i := Some v]) = Gen out'"
    by (rule Cons.IH) (use Cons.prems in \<open>auto simp: nth_list_update\<close>)
  with Cons.prems show ?case by (auto simp: Let_def)
qed simp

definition good_table :: "('k \<Rightarrow> u32 \<Rightarrow> nat) \<Rightarrow> ('k \<times> 'v) list \<Rightarrow> ('k, 'v) OwnedPerfectHashMap \<Rightarrow> bool" where
  "good_table phash kvs t \<longleftrightarrow> (\<exists>slots. phash_fill phash (fst t) kvs (replicate slots None) = Gen (snd t))"

lemma phash_tries_props:
  assumes "length kvs \<le> slots"
  shows "phash_tries phash kvs slots ms = Gen None
    \<or> (\<exists>t. phash_tries phash kvs slots ms = Gen (Some t) \<and> good_table phash kvs t)"
proof (induction ms)
  case (Cons m ms)
  show ?case
  proof (cases "count_distinct (map (\<lambda>v. phash (fst v) m mod slots) kvs) = length kvs")
    case True
    then have "distinct (map (\<lambda>v. phash (fst v) m mod slots) kvs)" by (intro count_distinct_full) simp
    moreover have nz: "0 < slots" if "kvs \<noteq> []" using assms that by (cases slots) auto
    ultimately have "\<exists>out. phash_fill phash m kvs (replicate slots None) = Gen out"
      by (intro phash_fill_total) (auto simp: length_pos_if_in_set [THEN length_greater_0_conv [THEN iffD1]])
    with True assms show ?thesis by (auto simp: phash_check_def good_table_def)
  next
    case False
    with Cons assms show ?thesis by (simp add: phash_check_def)
  qed
qed simp

lemma phash_slots_props:
  "\<forall>n \<in> set ns. length kvs \<le> n \<Longrightarrow> phash_slots phash kvs rng ns drawn = GenBail
    \<or> (\<exists>t. phash_slots phash kvs rng ns drawn = Gen t \<and> good_table phash kvs t)"
proof (induction ns arbitrary: drawn)
  case (Cons n ns)
  let ?tries = "phash_tries phash kvs n (map rng [drawn..<drawn + TRY_COUNT])"
  from Cons.prems phash_tries_props [of kvs n phash "map rng [drawn..<drawn + TRY_COUNT]"]
  consider "?tries = Gen None" | t where "?tries = Gen (Some t)" "good_table phash kvs t" by fastforce
  then show ?case
  proof cases
    case 1
    with Cons.IH [of "drawn + TRY_COUNT"] Cons.prems show ?thesis by simp
  next
    case 2
    then show ?thesis by simp
  qed
qed simp

lemma good_table_get:
  assumes "good_table phash kvs t" and "distinct (map fst kvs)" and "key \<noteq> fst invalid"
  shows "phash_get phash (fmt_perfect_hash_map invalid t) key = map_of kvs key"
proof -
  obtain slots where f: "phash_fill phash (fst t) kvs (replicate slots None) = Gen (snd t)"
    using assms(1) by (auto simp: good_table_def)
  note p = phash_fill_props [OF f, simplified]
  let ?i = "phash key (fst t) mod slots"
  show ?thesis
  proof (cases "slots = 0")
    case True
    then have "kvs = []" using p by (cases kvs) auto
    with True p show ?thesis by (simp add: phash_get_def fmt_perfect_hash_map_def)
  next
    case False
    then have i: "?i < slots" by simp
    have len: "length (snd t) = slots" using p by simp
    have get: "phash_get phash (fmt_perfect_hash_map invalid t) key =
        (case snd t ! ?i of Some v \<Rightarrow> if key = fst v then Some (snd v) else None | None \<Rightarrow> None)"
      using i len False assms(3) by (auto simp: phash_get_def fmt_perfect_hash_map_def Let_def split: option.splits)
    show ?thesis
    proof (cases "map_of kvs key")
      case (Some u)
      then have "(key, u) \<in> set kvs" by (rule map_of_SomeD)
      with p have "snd t ! ?i = Some (key, u)" by force
      with get Some show ?thesis by simp
    next
      case None
      have "fst v \<noteq> key" if "snd t ! ?i = Some v" for v
      proof -
        from that p i have "v \<in> set kvs" by (cases v) auto
        with None show ?thesis by (auto simp: map_of_eq_None_iff)
      qed
      with get None show ?thesis by (auto split: option.splits)
    qed
  qed
qed

lemma phash_build_props:
  "phash_build phash rng kvs = GenBail \<or> (\<exists>t. phash_build phash rng kvs = Gen t
     \<and> good_table phash kvs t \<and> distinct (map fst kvs))"
proof -
  have "distinct (map fst kvs)" if "length (remdups (map fst kvs)) = length kvs"
    using that by (metis length_map length_remdups_eq remdups_id_iff_distinct)
  with phash_slots_props [of "[length kvs..<2 * length kvs + 1]" kvs phash rng 0] show ?thesis
    by (auto simp: phash_build_def)
qed

text \<open>The interrupts of an owner, in the order of the configuration.\<close>

definition owned :: "InterruptOwner \<Rightarrow> (u32 \<times> InterruptOwner) list \<Rightarrow> u32 list" where
  "owned own irqs = map fst (filter (\<lambda>p. snd p = own) irqs)"

lemma owned_simps [simp]:
  "owned own [] = []" "owned own ((irq, ow) # irqs) = (if ow = own then [irq] else []) @ owned own irqs"
  by (simp_all add: owned_def)

lemma map_of_push:
  "map_of (map (\<lambda>(ow, js). if ow = own then (ow, js @ [irq]) else (ow, js)) acc) k =
     (if k = own then map_option (\<lambda>js. js @ [irq]) (map_of acc k) else map_of acc k)"
  by (induction acc) auto

lemma map_of_per_task_irqs:
  "map_of (per_task_irqs irqs acc) own = (case map_of acc own of
     None \<Rightarrow> if owned own irqs = [] then None else Some (owned own irqs)
   | Some js \<Rightarrow> Some (js @ owned own irqs))"
proof (induction irqs acc rule: per_task_irqs.induct)
  case (2 irq ow irqs acc)
  then show ?case
    by (cases "map_of acc ow"; cases "ow = own") (auto simp: map_of_push map_add_def split: option.splits)
qed (simp split: option.splits)

lemma map_of_task_irq_map:
  "map_of (task_irq_map irqs) own = (if owned own irqs = [] then None else Some (owned own irqs))"
  by (simp add: task_irq_map_def map_of_per_task_irqs)

subsection \<open>Properties\<close>

text \<open>
  the generator of perfect hash tables either gives up or produces a table whose run-time
  lookup answers exactly as the map it was given, for every key but the placeholder of empty
  slots; its assertions never fire, whatever the random numbers.
\<close>

theorem phash_table_exact:
  "case phash_build phash rng kvs of
      Gen t \<Rightarrow> (\<forall>key invalid. key \<noteq> fst invalid \<longrightarrow>
        phash_get phash (fmt_perfect_hash_map invalid t) key = map_of kvs key)
    | GenBail \<Rightarrow> True
    | GenPanic \<Rightarrow> False"
  using phash_build_props [of phash rng kvs] good_table_get [of phash kvs] by auto

lemma phash_build_first:
  assumes "length (remdups (map fst kvs)) = length kvs" and "phash_check phash kvs (length kvs) (rng 0) = Gen True"
    and "phash_fill phash (rng 0) kvs (replicate (length kvs) None) = Gen out"
  shows "phash_build phash rng kvs = Gen (rng 0, out)"
proof -
  have "0 < TRY_COUNT" by (simp add: TRY_COUNT_def)
  then have "map rng [0..<0 + TRY_COUNT] = rng 0 # map rng [Suc 0..<TRY_COUNT]" by (simp add: upt_conv_Cons)
  moreover have "[length kvs..<2 * length kvs + 1] = length kvs # [Suc (length kvs)..<2 * length kvs + 1]"
    by (rule upt_conv_Cons) simp
  ultimately show ?thesis using assms by (simp add: phash_build_def)
qed

definition demo_owner :: InterruptOwner where "demo_owner = \<lparr>io_task = 1, io_notification = 2\<rparr>"

definition demo_irqs :: "(u32 \<times> InterruptOwner) list" where
  "demo_irqs = [(4, demo_owner), (5, demo_owner)]"

lemma demo_irq_tables:
  "phash_build phash_u32 (\<lambda>_. 1) (irq_task_map demo_irqs) = Gen (1, [Some (4, demo_owner), Some (5, demo_owner)])"
  "phash_build phash_owner (\<lambda>_. - 3) (task_irq_map demo_irqs) = Gen (- 3, [Some (demo_owner, [4, 5])])"
proof -
  have "phash_build phash_u32 (\<lambda>_. 1) (irq_task_map demo_irqs) = Gen ((\<lambda>_. 1) (0 :: nat), [Some (4, demo_owner), Some (5, demo_owner)])"
    by (rule phash_build_first) code_simp+
  then show "phash_build phash_u32 (\<lambda>_. 1) (irq_task_map demo_irqs) = Gen (1, [Some (4, demo_owner), Some (5, demo_owner)])" by simp
  have "phash_build phash_owner (\<lambda>_. - 3) (task_irq_map demo_irqs) = Gen ((\<lambda>_. - 3) (0 :: nat), [Some (demo_owner, [4, 5])])"
    by (rule phash_build_first) code_simp+
  then show "phash_build phash_owner (\<lambda>_. - 3) (task_irq_map demo_irqs) = Gen (- 3, [Some (demo_owner, [4, 5])])" by simp
qed

theorem phash_table_exact_witness:
  "phash_get phash_u32 (fmt_perfect_hash_map (interrupt_num_invalid, interrupt_owner_invalid)
     (1, [Some (4, demo_owner), Some (5, demo_owner)])) 5 = Some demo_owner"
  using phash_table_exact [where phash = phash_u32 and rng = "\<lambda>_. 1" and kvs = "irq_task_map demo_irqs"]
  unfolding demo_irq_tables by (simp add: interrupt_num_invalid_def irq_task_map_def demo_irqs_def)

text \<open>
  the two interrupt tables of an image agree: the kernel delivers an interrupt to exactly
  the owner that the interrupt control calls let enable and disable it, whatever the order
  in which the hash map of owners is listed.
\<close>

theorem irq_tables_agree:
  assumes "phash_build phash_u32 rng (irq_task_map irqs) = Gen t1"
    and "mset kvs = mset (task_irq_map irqs)" and "phash_build phash_owner rng' kvs = Gen t2"
    and "irq \<noteq> interrupt_num_invalid" and "own \<noteq> interrupt_owner_invalid"
  shows "phash_get phash_u32 (fmt_perfect_hash_map (interrupt_num_invalid, interrupt_owner_invalid) t1) irq = Some own
    \<longleftrightarrow> (\<exists>is. phash_get phash_owner (fmt_perfect_hash_map (interrupt_owner_invalid, []) t2) own = Some is \<and> irq \<in> set is)"
proof -
  have 1: "good_table phash_u32 irqs t1" "distinct (map fst irqs)"
    using phash_build_props [of phash_u32 rng "irq_task_map irqs"] assms(1) by (auto simp: irq_task_map_def)
  have 2: "good_table phash_owner kvs t2" "distinct (map fst kvs)"
    using phash_build_props [of phash_owner rng' kvs] assms(3) by auto
  have "mset (map fst kvs) = mset (map fst (task_irq_map irqs))" using assms(2) by simp
  with 2(2) have "distinct (map fst (task_irq_map irqs))" using mset_eq_imp_distinct_iff by blast
  with 2(2) have kvs: "map_of kvs = map_of (task_irq_map irqs)"
    using mset_eq_setD [OF assms(2)] by (simp add: map_of_inject_set)
  have "map_of irqs irq = Some own \<longleftrightarrow> irq \<in> set (owned own irqs)"
    using 1(2) by (force simp: owned_def)
  then show ?thesis
    using good_table_get [OF 1, of irq "(interrupt_num_invalid, interrupt_owner_invalid)"]
      good_table_get [OF 2, of own "(interrupt_owner_invalid, [])"] assms(4,5)
    by (auto simp: kvs map_of_task_irq_map)
qed

theorem irq_tables_agree_witness:
  "phash_get phash_u32 (fmt_perfect_hash_map (interrupt_num_invalid, interrupt_owner_invalid)
       (1, [Some (4, demo_owner), Some (5, demo_owner)])) 4 = Some demo_owner
    \<longleftrightarrow> (\<exists>is. phash_get phash_owner (fmt_perfect_hash_map (interrupt_owner_invalid, [])
       (- 3, [Some (demo_owner, [4, 5 :: u32])])) demo_owner = Some is \<and> 4 \<in> set is)"
  by (rule irq_tables_agree [OF demo_irq_tables(1) refl demo_irq_tables(2)])
    (simp_all add: interrupt_num_invalid_def interrupt_owner_invalid_def demo_owner_def)

end
