(* ===== verification/User_Lib.thy ===== *)
theory User_Lib
  imports Kern_Reach Kern_Demo
begin

section \<open>System call stubs\<close>

text \<open>
  The user side of the system call interface (\<^verbatim>\<open>sys/userlib/src/lib.rs\<close>). A wrapper packs
  its arguments, its stub moves them into \<^verbatim>\<open>r4\<close> and the following registers and the number of
  the call into \<^verbatim>\<open>r11\<close>, and after the call moves result registers back, where the wrapper
  unpacks them. Both variants of a stub, for ARMv6-M and for the later profiles, make the same
  moves, so each call has one function for the registers at the \<^verbatim>\<open>svc\<close> instruction and, where it
  has results, one that reads them. A Rust slice is its pointer and its length.
\<close>

fun sysnum_code :: "Sysnum \<Rightarrow> u32" where
  "sysnum_code Send = 0"
| "sysnum_code Recv = 1"
| "sysnum_code Reply = 2"
| "sysnum_code SetTimer = 3"
| "sysnum_code BorrowRead = 4"
| "sysnum_code BorrowWrite = 5"
| "sysnum_code BorrowInfo = 6"
| "sysnum_code IrqControl = 7"
| "sysnum_code PanicCall = 8"
| "sysnum_code GetTimer = 9"
| "sysnum_code RefreshTaskId = 10"
| "sysnum_code Post = 11"
| "sysnum_code ReplyFault = 12"
| "sysnum_code IrqStatusCall = 13"

fun reply_fault_reason_code :: "ReplyFaultReason \<Rightarrow> u32" where
  "reply_fault_reason_code UndefinedOperation = 0"
| "reply_fault_reason_code BadMessageSize = 1"
| "reply_fault_reason_code BadMessageContents = 2"
| "reply_fault_reason_code BadLeases = 3"
| "reply_fault_reason_code ReplyBufferTooSmall = 4"
| "reply_fault_reason_code AccessViolation = 5"

type_synonym rust_slice = "u32 \<times> u32"

subsection \<open>Leases\<close>

definition lease_read_only :: "rust_slice \<Rightarrow> ULease" where
  "lease_read_only x = \<lparr>attributes = LEASE_READ, base_address = fst x, length_bytes = snd x\<rparr>"

definition lease_read_write :: "rust_slice \<Rightarrow> ULease" where
  "lease_read_write x = \<lparr>attributes = LEASE_READ OR LEASE_WRITE, base_address = fst x, length_bytes = snd x\<rparr>"

definition lease_write_only :: "rust_slice \<Rightarrow> ULease" where
  "lease_write_only x = \<lparr>attributes = LEASE_WRITE, base_address = fst x, length_bytes = snd x\<rparr>"

subsection \<open>Message passing\<close>

definition sys_send_regs ::
  "TaskId \<Rightarrow> u16 \<Rightarrow> rust_slice \<Rightarrow> rust_slice \<Rightarrow> rust_slice \<Rightarrow> SavedState \<Rightarrow> SavedState" where
  "sys_send_regs target operation outgoing incoming leases sv =
     sv\<lparr>r4 := push_bit 16 (ucast (tid_bits target)) OR ucast operation,
        r5 := fst outgoing, r6 := snd outgoing, r7 := fst incoming, r8 := snd incoming,
        r9 := fst leases, r10 := snd leases, r11 := sysnum_code Send\<rparr>"

definition rc_len :: "SavedState \<Rightarrow> u32 \<times> u32" where
  "rc_len sv = (r4 sv, r5 sv)"

definition sys_recv_regs :: "rust_slice \<Rightarrow> u32 \<Rightarrow> TaskId option \<Rightarrow> SavedState \<Rightarrow> SavedState" where
  "sys_recv_regs buffer nmask sender sv =
     (let specific_sender_bits = (case sender of Some tid \<Rightarrow> push_bit 31 1 OR ucast (tid_bits tid) | None \<Rightarrow> 0) in
      sv\<lparr>r4 := fst buffer, r5 := snd buffer, r6 := nmask, r7 := specific_sender_bits, r11 := sysnum_code Recv\<rparr>)"

record RecvMessage =
  rm_sender :: TaskId
  rm_operation :: u32
  rm_message_len :: u32
  rm_response_capacity :: u32
  rm_lease_count :: u32

definition sys_recv_result :: "SavedState \<Rightarrow> u32 + RecvMessage" where
  "sys_recv_result sv =
     (if r4 sv = 0
      then Inr \<lparr>rm_sender = TaskId (ucast (r5 sv)), rm_operation = r6 sv, rm_message_len = r7 sv,
             rm_response_capacity = r8 sv, rm_lease_count = r9 sv\<rparr>
      else Inl (r4 sv))"

text \<open>\<^verbatim>\<open>ClosedRecvError::Dead\<close> carries the low byte of the response code.\<close>

definition sys_recv_closed_result :: "SavedState \<Rightarrow> Generation + RecvMessage" where
  "sys_recv_closed_result sv = map_sum (\<lambda>code. Generation (ucast code)) id (sys_recv_result sv)"

text \<open>
  An open receive and a receive of notifications continue with \<^verbatim>\<open>unreachable_unchecked\<close> on a
  nonzero response code; this undefined behaviour is \<open>None\<close>.
\<close>

definition sys_recv_open_result :: "SavedState \<Rightarrow> RecvMessage option" where
  "sys_recv_open_result sv = (case sys_recv_result sv of Inr rm \<Rightarrow> Some rm | Inl _ \<Rightarrow> None)"

definition sys_recv_notification_result :: "SavedState \<Rightarrow> u32 option" where
  "sys_recv_notification_result sv = (case sys_recv_result sv of Inr rm \<Rightarrow> Some (rm_operation rm) | Inl _ \<Rightarrow> None)"

definition sys_recv_notification_regs :: "rust_slice \<Rightarrow> u32 \<Rightarrow> SavedState \<Rightarrow> SavedState" where
  "sys_recv_notification_regs buf nmask = sys_recv_regs buf nmask (Some KERNEL)"

definition sys_reply_regs :: "TaskId \<Rightarrow> u32 \<Rightarrow> rust_slice \<Rightarrow> SavedState \<Rightarrow> SavedState" where
  "sys_reply_regs peer code message sv =
     sv\<lparr>r4 := ucast (tid_bits peer), r5 := code, r6 := fst message, r7 := snd message, r11 := sysnum_code Reply\<rparr>"

definition sys_reply_fault_regs :: "TaskId \<Rightarrow> ReplyFaultReason \<Rightarrow> SavedState \<Rightarrow> SavedState" where
  "sys_reply_fault_regs tid reason sv =
     sv\<lparr>r4 := ucast (tid_bits tid), r5 := reply_fault_reason_code reason, r11 := sysnum_code ReplyFault\<rparr>"

subsection \<open>Borrows\<close>

definition sys_borrow_regs :: "Sysnum \<Rightarrow> TaskId \<Rightarrow> u32 \<Rightarrow> u32 \<Rightarrow> rust_slice \<Rightarrow> SavedState \<Rightarrow> SavedState" where
  "sys_borrow_regs nr lender index offset buf sv =
     sv\<lparr>r4 := ucast (tid_bits lender), r5 := index, r6 := offset, r7 := fst buf, r8 := snd buf, r11 := sysnum_code nr\<rparr>"

definition sys_borrow_read_regs :: "TaskId \<Rightarrow> u32 \<Rightarrow> u32 \<Rightarrow> rust_slice \<Rightarrow> SavedState \<Rightarrow> SavedState" where
  "sys_borrow_read_regs = sys_borrow_regs BorrowRead"

definition sys_borrow_write_regs :: "TaskId \<Rightarrow> u32 \<Rightarrow> u32 \<Rightarrow> rust_slice \<Rightarrow> SavedState \<Rightarrow> SavedState" where
  "sys_borrow_write_regs = sys_borrow_regs BorrowWrite"

definition sys_borrow_info_regs :: "TaskId \<Rightarrow> u32 \<Rightarrow> SavedState \<Rightarrow> SavedState" where
  "sys_borrow_info_regs lender index sv =
     sv\<lparr>r4 := ucast (tid_bits lender), r5 := index, r11 := sysnum_code BorrowInfo\<rparr>"

record BorrowInfo =
  bi_attributes :: u32
  bi_len :: u32

definition sys_borrow_info_result :: "SavedState \<Rightarrow> BorrowInfo option" where
  "sys_borrow_info_result sv =
     (if r4 sv = 0
      then Some \<lparr>bi_attributes = r5 sv AND (LEASE_READ OR LEASE_WRITE), bi_len = r6 sv\<rparr>
      else None)"

subsection \<open>Timers, notifications and interrupts\<close>

definition sys_set_timer_regs :: "u64 option \<Rightarrow> u32 \<Rightarrow> SavedState \<Rightarrow> SavedState" where
  "sys_set_timer_regs dl notifs sv =
     (let raw_deadline = (case dl of Some d \<Rightarrow> d | None \<Rightarrow> 0) in
      sv\<lparr>r4 := (if dl \<noteq> None then 1 else 0), r5 := ucast raw_deadline,
        r6 := ucast (drop_bit 32 raw_deadline), r7 := notifs, r11 := sysnum_code SetTimer\<rparr>)"

definition sys_get_timer_regs :: "SavedState \<Rightarrow> SavedState" where
  "sys_get_timer_regs sv = sv\<lparr>r11 := sysnum_code GetTimer\<rparr>"

record user_timer_state =
  ts_now :: u64
  ts_deadline :: "u64 option"
  ts_on_dl :: u32

definition sys_get_timer_result :: "SavedState \<Rightarrow> user_timer_state" where
  "sys_get_timer_result sv =
     \<lparr>ts_now = ucast (r4 sv) OR push_bit 32 (ucast (r5 sv)),
      ts_deadline = (if r6 sv \<noteq> 0 then Some (ucast (r7 sv) OR push_bit 32 (ucast (r8 sv))) else None),
      ts_on_dl = r9 sv\<rparr>"

definition sys_irq_control_regs :: "u32 \<Rightarrow> bool \<Rightarrow> SavedState \<Rightarrow> SavedState" where
  "sys_irq_control_regs nmask enable sv =
     sv\<lparr>r4 := nmask, r5 := (if enable then 1 else 0), r11 := sysnum_code IrqControl\<rparr>"

definition sys_irq_status_regs :: "u32 \<Rightarrow> SavedState \<Rightarrow> SavedState" where
  "sys_irq_status_regs nmask sv = sv\<lparr>r4 := nmask, r11 := sysnum_code IrqStatusCall\<rparr>"

definition sys_irq_status_result :: "SavedState \<Rightarrow> u32" where
  "sys_irq_status_result sv = r4 sv AND (IRQ_ENABLED OR IRQ_PENDING OR IRQ_POSTED)"

definition sys_panic_regs :: "rust_slice \<Rightarrow> SavedState \<Rightarrow> SavedState" where
  "sys_panic_regs msg sv = sv\<lparr>r4 := fst msg, r5 := snd msg, r11 := sysnum_code PanicCall\<rparr>"

definition sys_refresh_task_id_regs :: "TaskId \<Rightarrow> SavedState \<Rightarrow> SavedState" where
  "sys_refresh_task_id_regs tid sv = sv\<lparr>r4 := ucast (tid_bits tid), r11 := sysnum_code RefreshTaskId\<rparr>"

definition sys_refresh_task_id_result :: "SavedState \<Rightarrow> TaskId" where
  "sys_refresh_task_id_result sv = TaskId (ucast (r4 sv))"

definition sys_post_regs :: "TaskId \<Rightarrow> u32 \<Rightarrow> SavedState \<Rightarrow> SavedState" where
  "sys_post_regs tid bits sv = sv\<lparr>r4 := ucast (tid_bits tid), r5 := bits, r11 := sysnum_code Post\<rparr>"

definition sys_post_result :: "SavedState \<Rightarrow> u32" where
  "sys_post_result sv = r4 sv"

lemmas stub_defs = sys_send_regs_def sys_recv_regs_def sys_recv_notification_regs_def sys_reply_regs_def
  sys_reply_fault_regs_def sys_borrow_regs_def sys_borrow_read_regs_def sys_borrow_write_regs_def
  sys_borrow_info_regs_def sys_set_timer_regs_def sys_get_timer_regs_def sys_irq_control_regs_def
  sys_irq_status_regs_def sys_panic_regs_def sys_refresh_task_id_regs_def sys_post_regs_def

lemmas stub_result_defs = rc_len_def sys_recv_result_def sys_recv_closed_result_def sys_recv_open_result_def sys_recv_notification_result_def sys_borrow_info_result_def
  sys_get_timer_result_def sys_irq_status_result_def sys_refresh_task_id_result_def sys_post_result_def

subsection \<open>Agreement with the kernel\<close>

lemma sysnum_roundtrip [simp]: "sysnum_try_from (sysnum_code n) = Some n"
  by (cases n) (simp_all add: sysnum_try_from_def)

lemma reply_fault_reason_roundtrip [simp]: "reply_fault_reason_try_from (reply_fault_reason_code r) = Some r"
  by (cases r) (simp_all add: reply_fault_reason_try_from_def)

lemma ucast_u16_u32 [simp]: "ucast (ucast x :: u32) = (x :: u16)"
  by (rule bit_word_eqI) (simp add: bit_simps)

lemma not_bit_beyond [simp]: "\<not> bit (y :: u16) (16 + n)"
  using bit_imp_le_length [of y "16 + n"] by auto

lemma packed_halves [simp]:
  "ucast (drop_bit 16 (push_bit 16 (ucast x) :: u32) OR drop_bit 16 (ucast y)) = (x :: u16)"
  "ucast (push_bit 16 (ucast x) OR ucast y :: u32) = (y :: u16)"
  by (auto intro!: bit_word_eqI simp: bit_simps)

lemma bit_top [simp]: "bit (2147483648 :: u32) n \<longleftrightarrow> n = 31"
proof -
  have "bit (push_bit k 1 :: u32) n \<longleftrightarrow> n = k" if "k < 32" for k using that by (auto simp: bit_simps)
  from this [of 31] show ?thesis by simp
qed

lemma sender_flag [simp]:
  "(2147483648 OR ucast x) AND 2147483648 \<noteq> (0 :: u32)"
  "ucast (2147483648 OR ucast x :: u32) = (x :: u16)"
proof -
  have "bit ((2147483648 OR ucast x) AND 2147483648 :: u32) 31" by (simp add: bit_or_iff bit_and_iff)
  then show "(2147483648 OR ucast x) AND 2147483648 \<noteq> (0 :: u32)" by auto
  have z: "(2147483648 :: u16) = 0" by code_simp
  have "ucast (2147483648 OR ucast x :: u32) = 2147483648 OR x" by (simp add: unsigned_or_eq)
  then show "ucast (2147483648 OR ucast x :: u32) = x" unfolding z by simp
qed

lemma closed_recv_dead_code:
  "sys_recv_closed_result (set_error_response (dead_response_code g) sv) = Inl g"
proof -
  let ?c = "dead_response_code g"
  have "?c AND FIRST_DEAD_CODE = FIRST_DEAD_CODE" "Generation (ucast ?c) = g"
    using extract_dead_response_code [of g] by (auto simp: extract_new_generation_def split: if_splits)
  moreover from this(1) have "?c \<noteq> 0" by (auto simp: FIRST_DEAD_CODE_def)
  ultimately show ?thesis by (simp add: sys_recv_closed_result_def sys_recv_result_def result_defs reg_defs)
qed

lemma u64_halves [simp]:
  "push_bit 32 (ucast (ucast (drop_bit 32 d) :: u32)) OR ucast (ucast d :: u32) = (d :: u64)"
  "ucast (ucast d :: u32) OR push_bit 32 (ucast (ucast (drop_bit 32 d) :: u32)) = (d :: u64)"
  by (auto intro!: bit_word_eqI simp: bit_simps)


end
