(* ===== verification/Lib_Multitimer.thy ===== *)
theory Lib_Multitimer
  imports User_Lib
begin

section \<open>The timer multiplexer on the kernel timer\<close>

text \<open>
  \<^verbatim>\<open>lib/multitimer\<close> shares one kernel timer among the timers of a task. The model joins it
  with the kernel: the system call goes through the registers its stub loads into the caller's
  control block (\<open>sys_set_timer_regs\<close> of \<open>User_Lib\<close>) into \<open>set_timer\<close> of
  \<open>Kern_Syscalls\<close>. The timers of the enumeration are a list indexed by variant; a shift by
  32 or more, which panics, is \<open>None\<close>.
\<close>

definition sys_set_timer :: "u64 option \<Rightarrow> u32 \<Rightarrow> Timestamp \<Rightarrow> Task \<Rightarrow> Task" where
  "sys_set_timer dl notifs time t = set_timer (t\<lparr>save := sys_set_timer_regs dl notifs (save t)\<rparr>) time"

datatype Repeat = AfterWake u64 | AfterDeadline u64

record Timer =
  tm_deadline :: "(u64 \<times> Repeat option) option"
  fired_but_not_observed :: bool

record Multitimer =
  notification_bit :: u8
  current_setting :: "u64 option"
  timers :: "Timer list"

definition multitimer_new :: "nat \<Rightarrow> u8 \<Rightarrow> Multitimer" where
  "multitimer_new variants nb = \<lparr>notification_bit = nb, current_setting = None,
     timers = replicate variants \<lparr>tm_deadline = None, fired_but_not_observed = False\<rparr>\<rparr>"

definition shl1 :: "u8 \<Rightarrow> u32 option" where
  "shl1 nb = (if nb < 32 then Some (push_bit (unat nb) 1) else None)"

definition saturating_add :: "u64 \<Rightarrow> u64 \<Rightarrow> u64" where
  "saturating_add a b = (if a + b < a then - 1 else a + b)"

definition set_system_timer :: "u64 option \<Rightarrow> Timestamp \<Rightarrow> Multitimer \<times> Task \<Rightarrow> (Multitimer \<times> Task) option" where
  "set_system_timer dl time p =
     (case shl1 (notification_bit (fst p)) of
        None \<Rightarrow> None
      | Some m \<Rightarrow> Some ((fst p)\<lparr>current_setting := dl\<rparr>, sys_set_timer dl m time (snd p)))"

definition multitimer_set_timer ::
  "nat \<Rightarrow> u64 \<Rightarrow> Repeat option \<Rightarrow> Timestamp \<Rightarrow> Multitimer \<times> Task \<Rightarrow> (Multitimer \<times> Task) option" where
  "multitimer_set_timer which dl repeat time p =
     (let mt = fst p;
          mt' = mt\<lparr>timers := (timers mt)[which := \<lparr>tm_deadline = Some (dl, repeat),
            fired_but_not_observed = fired_but_not_observed (timers mt ! which)\<rparr>]\<rparr> in
      case current_setting mt' of
        Some cur \<Rightarrow> if cur \<le> dl then Some (mt', snd p) else set_system_timer (Some dl) time (mt', snd p)
      | None \<Rightarrow> set_system_timer (Some dl) time (mt', snd p))"

definition multitimer_get_timer :: "nat \<Rightarrow> Multitimer \<Rightarrow> (u64 \<times> Repeat option) option" where
  "multitimer_get_timer which mt = tm_deadline (timers mt ! which)"

fun min_option :: "u64 list \<Rightarrow> u64 option" where
  "min_option [] = None"
| "min_option (d # ds) = (case min_option ds of None \<Rightarrow> Some d | Some e \<Rightarrow> Some (min d e))"

definition deadlines :: "Timer list \<Rightarrow> u64 list" where
  "deadlines ts = map fst (List.map_filter tm_deadline ts)"

definition multitimer_clear_timer ::
  "nat \<Rightarrow> Timestamp \<Rightarrow> Multitimer \<times> Task \<Rightarrow> (bool \<times> Multitimer \<times> Task) option" where
  "multitimer_clear_timer which time p =
     (let mt = fst p; former_setting = tm_deadline (timers mt ! which);
          mt' = mt\<lparr>timers := (timers mt)[which := (timers mt ! which)\<lparr>tm_deadline := None\<rparr>]\<rparr> in
      case former_setting of
        None \<Rightarrow> Some (False, mt', snd p)
      | Some (former_dl, _) \<Rightarrow>
          if current_setting mt' = Some former_dl
          then map_option (Pair True) (set_system_timer (min_option (deadlines (timers mt'))) time (mt', snd p))
          else Some (True, mt', snd p))"

definition fire_timer :: "Timestamp \<Rightarrow> Timer \<Rightarrow> Timer" where
  "fire_timer t tm =
     (case tm_deadline tm of
        None \<Rightarrow> tm
      | Some (d, r) \<Rightarrow>
          if d \<le> t
          then \<lparr>tm_deadline =
                  (case r of
                     Some (AfterWake period) \<Rightarrow> Some (saturating_add t period, r)
                   | Some (AfterDeadline period) \<Rightarrow> Some (saturating_add d period, r)
                   | None \<Rightarrow> None),
                fired_but_not_observed = True\<rparr>
          else tm)"

text \<open>The pass over the table, which keeps the earliest deadline still on as it goes.\<close>

fun fire_timers :: "Timestamp \<Rightarrow> Timer list \<Rightarrow> u64 option \<Rightarrow> Timer list \<times> u64 option" where
  "fire_timers t [] new_earliest = ([], new_earliest)"
| "fire_timers t (tm # tms) new_earliest =
     (let tm' = fire_timer t tm;
          earliest' = (if tm_deadline tm = None then new_earliest
            else case tm_deadline tm' of
              Some (new_d, _) \<Rightarrow> Some (case new_earliest of Some e \<Rightarrow> min new_d e | None \<Rightarrow> new_d)
            | None \<Rightarrow> new_earliest);
          (tms', e') = fire_timers t tms earliest'
      in (tm' # tms', e'))"

definition handle_notification :: "u32 \<Rightarrow> Timestamp \<Rightarrow> Multitimer \<times> Task \<Rightarrow> (Multitimer \<times> Task) option" where
  "handle_notification notification time p =
     (let mt = fst p in
      case shl1 (notification_bit mt) of
        None \<Rightarrow> None
      | Some m \<Rightarrow>
          if notification AND m = 0 then Some p
          else let (tms, new_earliest) = fire_timers time (timers mt) None in
            set_system_timer new_earliest time (mt\<lparr>timers := tms\<rparr>, snd p))"

definition poll_now :: "Timestamp \<Rightarrow> Multitimer \<times> Task \<Rightarrow> (Multitimer \<times> Task) option" where
  "poll_now time p =
     (case shl1 (notification_bit (fst p)) of
        None \<Rightarrow> None | Some m \<Rightarrow> handle_notification m time p)"

definition iter_fired :: "Multitimer \<Rightarrow> nat list \<times> Multitimer" where
  "iter_fired mt = (filter (\<lambda>i. fired_but_not_observed (timers mt ! i)) [0..<length (timers mt)],
     mt\<lparr>timers := map (\<lambda>tm. tm\<lparr>fired_but_not_observed := False\<rparr>) (timers mt)\<rparr>)"

subsection \<open>What the kernel does with the call\<close>

lemma timer_args_roundtrip [simp]:
  "as_set_timer_args (sys_set_timer_regs dl notifs sv) = \<lparr>st_deadline = dl, st_notification = notifs\<rparr>"
  by (simp add: as_set_timer_args_def sys_set_timer_regs_def reg_defs split: option.splits)

lemma sys_set_timer_effect:
  assumes "\<not> can_accept_notification (state t)"
  shows "timer (sys_set_timer dl n time t) = (case dl of
      Some d \<Rightarrow> if d \<le> time then \<lparr>deadline = None, to_post = n\<rparr> else \<lparr>deadline = Some d, to_post = n\<rparr>
    | None \<Rightarrow> \<lparr>deadline = None, to_post = n\<rparr>)"
    and "notifications (sys_set_timer dl n time t) = (case dl of
      Some d \<Rightarrow> if d \<le> time then notifications t OR n else notifications t | None \<Rightarrow> notifications t)"
  using assms
  by (auto simp: sys_set_timer_def set_timer_def task_set_timer_def task_post_def Let_def split: option.splits)

subsection \<open>Earliest deadlines\<close>

lemma min_option_le: "d \<in> set ds \<Longrightarrow> \<exists>c. min_option ds = Some c \<and> c \<le> d"
  by (induction ds) (auto split: option.splits simp: min_le_iff_disj)

lemma deadlines_iff: "d \<in> set (deadlines ts) \<longleftrightarrow> (\<exists>tm \<in> set ts. \<exists>r. tm_deadline tm = Some (d, r))"
  by (force simp: deadlines_def List.map_filter_def)

definition covered :: "u64 option \<Rightarrow> Timer list \<Rightarrow> bool" where
  "covered cs ts \<longleftrightarrow> (\<forall>tm \<in> set ts. \<forall>d r. tm_deadline tm = Some (d, r) \<longrightarrow> (\<exists>c. cs = Some c \<and> c \<le> d))"

lemma covered_min: "covered (min_option (deadlines ts)) ts"
  unfolding covered_def
proof (intro ballI allI impI)
  fix tm d r assume "tm \<in> set ts" "tm_deadline tm = Some (d, r)"
  then have "d \<in> set (deadlines ts)" by (auto simp: deadlines_iff)
  then show "\<exists>c. min_option (deadlines ts) = Some c \<and> c \<le> d" by (rule min_option_le)
qed

definition opt_le :: "u64 option \<Rightarrow> u64 option \<Rightarrow> bool" where
  "opt_le a b \<longleftrightarrow> (\<forall>d. b = Some d \<longrightarrow> (\<exists>c. a = Some c \<and> c \<le> d))"

lemma opt_le_trans: "opt_le a b \<Longrightarrow> opt_le b c \<Longrightarrow> opt_le a c"
  by (cases a; cases b; cases c) (auto simp: opt_le_def)

lemma fire_timers_covers:
  "fire_timers t ts e = (ts', e') \<Longrightarrow> opt_le e' e \<and> covered e' ts' \<and> ts' = map (fire_timer t) ts"
proof (induction ts arbitrary: e ts' e')
  case (Cons tm ts)
  let ?e1 = "if tm_deadline tm = None then e
      else case tm_deadline (fire_timer t tm) of
        Some (new_d, _) \<Rightarrow> Some (case e of Some e \<Rightarrow> min new_d e | None \<Rightarrow> new_d) | None \<Rightarrow> e"
  obtain us where us: "fire_timers t ts ?e1 = (us, e')" "ts' = fire_timer t tm # us"
    using Cons.prems by (auto simp: Let_def split: prod.splits)
  note ih = Cons.IH [OF us(1)]
  have "opt_le ?e1 e" by (auto simp: opt_le_def split: option.splits)
  moreover have "opt_le ?e1 (map_option fst (tm_deadline (fire_timer t tm)))"
    by (auto simp: opt_le_def fire_timer_def split: option.splits)
  ultimately have le: "opt_le e' e" "opt_le e' (map_option fst (tm_deadline (fire_timer t tm)))"
    using ih opt_le_trans by blast+
  then have "covered e' ts'" using ih us(2) by (force simp: covered_def opt_le_def)
  with le ih us show ?case by simp
qed (simp add: opt_le_def covered_def)

subsection \<open>The task, its timers and the kernel together\<close>

text \<open>
  \<open>ms_owed\<close> records that a notification with the timer's bit has been delivered to the task
  and not yet been handed to \<open>handle_notification\<close>. The task changes its own registers and
  scheduling state in any way; anyone may post to it; the kernel ticks.
\<close>

record mt_sys =
  ms_mt :: Multitimer
  ms_task :: Task
  ms_now :: Timestamp
  ms_owed :: bool

abbreviation tbit :: "Multitimer \<Rightarrow> nat" where
  "tbit mt \<equiv> unat (notification_bit mt)"

inductive mt_step :: "mt_sys \<Rightarrow> mt_sys \<Rightarrow> bool" where
  set: "is_runnable (ms_task s) \<Longrightarrow> which < length (timers (ms_mt s)) \<Longrightarrow>
    multitimer_set_timer which dl rep (ms_now s) (ms_mt s, ms_task s) = Some (mt, t) \<Longrightarrow>
    mt_step s (s\<lparr>ms_mt := mt, ms_task := t\<rparr>)"
| clear: "is_runnable (ms_task s) \<Longrightarrow> which < length (timers (ms_mt s)) \<Longrightarrow>
    multitimer_clear_timer which (ms_now s) (ms_mt s, ms_task s) = Some (b, mt, t) \<Longrightarrow>
    mt_step s (s\<lparr>ms_mt := mt, ms_task := t\<rparr>)"
| handle: "is_runnable (ms_task s) \<Longrightarrow>
    handle_notification n (ms_now s) (ms_mt s, ms_task s) = Some (mt, t) \<Longrightarrow>
    mt_step s (s\<lparr>ms_mt := mt, ms_task := t, ms_owed := (ms_owed s \<and> \<not> bit n (tbit (ms_mt s)))\<rparr>)"
| fired: "mt_step s (s\<lparr>ms_mt := snd (iter_fired (ms_mt s))\<rparr>)"
| user: "mt_step s (s\<lparr>ms_task := (ms_task s)\<lparr>save := sv, state := st\<rparr>\<rparr>)"
| post: "task_post n (ms_task s) = (woke, t) \<Longrightarrow>
    mt_step s (s\<lparr>ms_task := t, ms_owed := (ms_owed s \<or> woke \<and> bit (arg2 (save t)) (tbit (ms_mt s)))\<rparr>)"
| take: "take_notifications (ms_task s) = (Some firing, t) \<Longrightarrow>
    mt_step s (s\<lparr>ms_task := t, ms_owed := (ms_owed s \<or> bit firing (tbit (ms_mt s)))\<rparr>)"
| tick: "ms_now s \<noteq> - 1 \<Longrightarrow> timer_step (ms_now s + 1) (ms_task s) = (woke, t) \<Longrightarrow>
    mt_step s (s\<lparr>ms_task := t, ms_now := ms_now s + 1,
      ms_owed := (ms_owed s \<or> woke \<and> bit (arg2 (save t)) (tbit (ms_mt s)))\<rparr>)"

definition alarm :: "mt_sys \<Rightarrow> bool" where
  "alarm s \<longleftrightarrow> ms_owed s \<or> bit (notifications (ms_task s)) (tbit (ms_mt s))"

definition mt_inv :: "mt_sys \<Rightarrow> bool" where
  "mt_inv s \<longleftrightarrow> notification_bit (ms_mt s) < 32
     \<and> (alarm s \<or> deadline (timer (ms_task s)) = current_setting (ms_mt s)
         \<and> (current_setting (ms_mt s) \<noteq> None \<longrightarrow> to_post (timer (ms_task s)) = push_bit (tbit (ms_mt s)) 1))
     \<and> covered (current_setting (ms_mt s)) (timers (ms_mt s))
     \<and> (\<forall>c. deadline (timer (ms_task s)) = Some c \<longrightarrow> ms_now s < c)"

text \<open>A pending or posted bit is pending or delivered after a post.\<close>

lemma task_post_bit:
  assumes "task_post n t = (w, t')" and "bit (notifications t) b \<or> bit n b"
  shows "bit (notifications t') b \<or> w \<and> bit (arg2 (save t')) b"
proof (cases w)
  case True
  with task_post_woken [of n t t'] assms show ?thesis
    by (auto simp: result_defs reg_defs bit_simps dest: bit_imp_le_length)
next
  case False
  with task_post_not_woken [of n t t'] assms show ?thesis by (auto simp: bit_simps)
qed

lemma mt_inv_sys:
  assumes "mt_inv s" and "is_runnable (ms_task s)" and "covered dl (timers mt)"
    and "notification_bit mt = notification_bit (ms_mt s)"
    and "set_system_timer dl (ms_now s) (mt, ms_task s) = Some (mt', t)"
  shows "mt_inv (s\<lparr>ms_mt := mt', ms_task := t, ms_owed := b\<rparr>)"
proof -
  have nb: "notification_bit mt < 32" using assms(1,4) by (simp add: mt_inv_def)
  then have mt': "mt' = mt\<lparr>current_setting := dl\<rparr>" "t = sys_set_timer dl (push_bit (tbit mt) 1) (ms_now s) (ms_task s)"
    using assms(5) by (auto simp: set_system_timer_def shl1_def)
  have na: "\<not> can_accept_notification (state (ms_task s))"
    using assms(2) by (simp add: is_runnable_def can_accept_notification_def)
  have l: "tbit mt < 32" using nb by (simp add: word_less_nat_alt)
  show ?thesis
    using sys_set_timer_effect [OF na, of dl "push_bit (tbit mt) 1" "ms_now s"] nb assms(3) l
    by (auto simp: mt_inv_def alarm_def mt' bit_simps split: option.splits if_splits)
qed

lemma mt_inv_no_alarm_change:
  assumes "mt_inv s" and "notification_bit mt = notification_bit (ms_mt s)" and "current_setting mt = current_setting (ms_mt s)"
    and "covered (current_setting mt) (timers mt)"
  shows "mt_inv (s\<lparr>ms_mt := mt\<rparr>)"
  using assms by (simp add: mt_inv_def alarm_def)

lemma covered_update: "covered cs ts \<Longrightarrow> (\<And>d r. tm_deadline tm = Some (d, r) \<Longrightarrow> \<exists>c. cs = Some c \<and> c \<le> d) \<Longrightarrow>
    covered cs (ts[i := tm])"
  unfolding covered_def by (metis insert_iff set_update_subset_insert subsetD)

lemma covered_mono: "covered (Some c) ts \<Longrightarrow> c' \<le> c \<Longrightarrow> covered (Some c') ts"
  by (auto simp: covered_def intro: order_trans)

lemma mt_inv_set:
  assumes "mt_inv s" and "is_runnable (ms_task s)"
    and "multitimer_set_timer which dl rep (ms_now s) (ms_mt s, ms_task s) = Some (mt, t)"
  shows "mt_inv (s\<lparr>ms_mt := mt, ms_task := t\<rparr>)"
proof -
  let ?tm = "\<lparr>tm_deadline = Some (dl, rep), fired_but_not_observed = fired_but_not_observed (timers (ms_mt s) ! which)\<rparr>"
  let ?mt = "(ms_mt s)\<lparr>timers := (timers (ms_mt s))[which := ?tm]\<rparr>"
  have c: "covered (current_setting (ms_mt s)) (timers (ms_mt s))" using assms(1) by (simp add: mt_inv_def)
  show ?thesis
  proof (cases "\<exists>cur. current_setting (ms_mt s) = Some cur \<and> cur \<le> dl")
    case True
    then have "mt = ?mt" "t = ms_task s" using assms(3) by (auto simp: multitimer_set_timer_def Let_def)
    moreover have "covered (current_setting ?mt) (timers ?mt)" using c True by (auto intro: covered_update)
    ultimately show ?thesis using mt_inv_no_alarm_change [OF assms(1), of ?mt] by simp
  next
    case False
    then have sys: "set_system_timer (Some dl) (ms_now s) (?mt, ms_task s) = Some (mt, t)"
      using assms(3) by (auto simp: multitimer_set_timer_def Let_def split: option.splits if_splits)
    have "covered (Some dl) (timers (ms_mt s))"
    proof (cases "current_setting (ms_mt s)")
      case None
      with c show ?thesis by (auto simp: covered_def)
    next
      case (Some cur)
      with False have "dl \<le> cur" by auto
      with c Some show ?thesis by (auto intro: covered_mono)
    qed
    then have "covered (Some dl) (timers ?mt)" by (auto intro: covered_update)
    from mt_inv_sys [OF assms(1,2) this _ sys, of "ms_owed s"] show ?thesis by simp
  qed
qed

lemma mt_inv_clear:
  assumes "mt_inv s" and "is_runnable (ms_task s)"
    and "multitimer_clear_timer which (ms_now s) (ms_mt s, ms_task s) = Some (b, mt, t)"
  shows "mt_inv (s\<lparr>ms_mt := mt, ms_task := t\<rparr>)"
proof -
  let ?mt = "(ms_mt s)\<lparr>timers := (timers (ms_mt s))[which := (timers (ms_mt s) ! which)\<lparr>tm_deadline := None\<rparr>]\<rparr>"
  have "covered (current_setting (ms_mt s)) (timers (ms_mt s))" using assms(1) by (simp add: mt_inv_def)
  then have c: "covered (current_setting ?mt) (timers ?mt)" by (auto intro: covered_update)
  show ?thesis
  proof (cases "\<exists>former r. tm_deadline (timers (ms_mt s) ! which) = Some (former, r) \<and> current_setting (ms_mt s) = Some former")
    case True
    then have "set_system_timer (min_option (deadlines (timers ?mt))) (ms_now s) (?mt, ms_task s) = Some (mt, t)"
      using assms(3) by (auto simp: multitimer_clear_timer_def Let_def)
    from mt_inv_sys [OF assms(1,2) covered_min _ this, of "ms_owed s"] show ?thesis by simp
  next
    case False
    then have "mt = ?mt" "t = ms_task s"
      using assms(3) by (auto simp: multitimer_clear_timer_def Let_def split: option.splits if_splits)
    with mt_inv_no_alarm_change [OF assms(1) _ _ c] show ?thesis by simp
  qed
qed

lemma shl1_bit: "nb < 32 \<Longrightarrow> \<exists>m. shl1 nb = Some m \<and> (n AND m = 0 \<longleftrightarrow> \<not> bit n (unat nb))"
proof -
  assume nb: "nb < 32"
  then have l: "unat nb < 32" by (simp add: word_less_nat_alt)
  have "n AND push_bit k 1 = 0 \<longleftrightarrow> \<not> bit n k" if "k < 32" for k
  proof -
    have b: "bit (n AND push_bit k 1) i \<longleftrightarrow> i = k \<and> bit n k" for i
      using that by (auto simp: bit_simps)
    show ?thesis
    proof
      assume "n AND push_bit k 1 = 0"
      with b [of k] show "\<not> bit n k" by simp
    next
      assume "\<not> bit n k"
      with b show "n AND push_bit k 1 = 0" by (intro bit_word_eqI) simp
    qed
  qed
  from this [OF l] nb show ?thesis by (simp add: shl1_def)
qed

lemma mt_inv_handle:
  assumes "mt_inv s" and "is_runnable (ms_task s)"
    and "handle_notification n (ms_now s) (ms_mt s, ms_task s) = Some (mt, t)"
  shows "mt_inv (s\<lparr>ms_mt := mt, ms_task := t, ms_owed := (ms_owed s \<and> \<not> bit n (tbit (ms_mt s)))\<rparr>)"
proof -
  have "notification_bit (ms_mt s) < 32" using assms(1) by (simp add: mt_inv_def)
  from shl1_bit [OF this, of n] obtain m where m: "shl1 (notification_bit (ms_mt s)) = Some m"
    "n AND m = 0 \<longleftrightarrow> \<not> bit n (tbit (ms_mt s))" by blast
  show ?thesis
  proof (cases "n AND m = 0")
    case True
    then have "mt = ms_mt s" "t = ms_task s" using assms(3) m by (simp_all add: handle_notification_def)
    with assms(1) True m(2) show ?thesis by simp
  next
    case False
    obtain tms e where f: "fire_timers (ms_now s) (timers (ms_mt s)) None = (tms, e)" by fastforce
    have sys: "set_system_timer e (ms_now s) ((ms_mt s)\<lparr>timers := tms\<rparr>, ms_task s) = Some (mt, t)"
      using assms(3) False m f by (simp add: handle_notification_def)
    have "covered e tms" using fire_timers_covers [OF f] by blast
    then have "covered e (timers ((ms_mt s)\<lparr>timers := tms\<rparr>))" by simp
    from mt_inv_sys [OF assms(1,2) this _ sys] show ?thesis by simp
  qed
qed

text \<open>
  A kernel step on the task that keeps its timer, or clears it and posts its bits, keeps
  the invariant: a delivered bit is owed, an undelivered one is pending.
\<close>

lemma mt_inv_task:
  assumes "mt_inv s" and "timer t = timer (ms_task s)"
    and "alarm s \<Longrightarrow> ms_owed s \<or> b \<or> bit (notifications t) (tbit (ms_mt s))"
  shows "mt_inv (s\<lparr>ms_task := t, ms_owed := (ms_owed s \<or> b)\<rparr>)"
  using assms by (auto simp: mt_inv_def alarm_def)

lemma task_post_timer: "task_post n t = (w, t') \<Longrightarrow> timer t' = timer t"
  by (auto simp: task_post_def take_notifications_def Let_def split: if_splits prod.splits option.splits)

lemma mt_inv_post:
  assumes "mt_inv s" and p: "task_post n (ms_task s) = (woke, t)"
  shows "mt_inv (s\<lparr>ms_task := t, ms_owed := (ms_owed s \<or> woke \<and> bit (arg2 (save t)) (tbit (ms_mt s)))\<rparr>)"
  using task_post_bit [OF p, of "tbit (ms_mt s)"]
  by (intro mt_inv_task [OF assms(1) task_post_timer [OF p]]) (auto simp: alarm_def)

lemma mt_inv_take:
  assumes "mt_inv s" and "take_notifications (ms_task s) = (Some firing, t)"
  shows "mt_inv (s\<lparr>ms_task := t, ms_owed := (ms_owed s \<or> bit firing (tbit (ms_mt s)))\<rparr>)"
proof -
  have "tbit (ms_mt s) < 32" using assms(1) by (simp add: mt_inv_def word_less_nat_alt)
  with assms(2) show ?thesis
    by (intro mt_inv_task [OF assms(1)])
      (auto simp: take_notifications_def Let_def alarm_def bit_simps split: if_splits)
qed

lemma mt_inv_tick:
  assumes inv: "mt_inv s" and now: "ms_now s \<noteq> - 1"
    and step: "timer_step (ms_now s + 1) (ms_task s) = (woke, t)"
  shows "mt_inv (s\<lparr>ms_task := t, ms_now := ms_now s + 1,
    ms_owed := (ms_owed s \<or> woke \<and> bit (arg2 (save t)) (tbit (ms_mt s)))\<rparr>)"
proof (cases "\<exists>c. deadline (timer (ms_task s)) = Some c \<and> c \<le> ms_now s + 1")
  case True
  let ?u = "(ms_task s)\<lparr>timer := (timer (ms_task s))\<lparr>deadline := None\<rparr>\<rparr>"
  from True step have p: "task_post (to_post (timer (ms_task s))) ?u = (woke, t)"
    by (auto simp: timer_step_def)
  have l: "tbit (ms_mt s) < 32" using inv by (simp add: mt_inv_def word_less_nat_alt)
  have "alarm s \<or> to_post (timer (ms_task s)) = push_bit (tbit (ms_mt s)) 1"
    using inv True by (auto simp: mt_inv_def)
  then have "ms_owed s \<or> bit (notifications ?u) (tbit (ms_mt s)) \<or> bit (to_post (timer (ms_task s))) (tbit (ms_mt s))"
    using l by (auto simp: alarm_def bit_simps)
  with task_post_bit [OF p, of "tbit (ms_mt s)"]
  have "ms_owed s \<or> woke \<and> bit (arg2 (save t)) (tbit (ms_mt s)) \<or> bit (notifications t) (tbit (ms_mt s))"
    by blast
  with inv task_post_timer [OF p] show ?thesis by (auto simp: mt_inv_def alarm_def)
next
  case False
  then have t: "\<not> woke" "t = ms_task s" using step by (auto simp: timer_step_def split: option.splits if_splits)
  with inv False show ?thesis by (auto simp: mt_inv_def alarm_def not_le)
qed

lemma covered_fired: "covered cs ts \<Longrightarrow> covered cs (map (\<lambda>tm. tm\<lparr>fired_but_not_observed := b\<rparr>) ts)"
  by (auto simp: covered_def)

lemma mt_step_inv: "mt_step s s' \<Longrightarrow> mt_inv s \<Longrightarrow> mt_inv s'"
proof (induction rule: mt_step.induct)
  case (fired s)
  then show ?case by (intro mt_inv_no_alarm_change) (simp_all add: iter_fired_def mt_inv_def covered_fired)
next
  case (user s sv st)
  then show ?case by (simp add: mt_inv_def alarm_def)
qed (blast intro: mt_inv_set mt_inv_clear mt_inv_handle mt_inv_post mt_inv_take mt_inv_tick)+

lemma mt_reach_inv: "mt_step\<^sup>*\<^sup>* s s' \<Longrightarrow> mt_inv s \<Longrightarrow> mt_inv s'"
  by (induction rule: rtranclp_induct) (auto intro: mt_step_inv)

lemma mt_inv_start:
  "nb < 32 \<Longrightarrow> deadline (timer t) = None \<Longrightarrow>
     mt_inv \<lparr>ms_mt = multitimer_new k nb, ms_task = t, ms_now = time, ms_owed = False\<rparr>"
  by (auto simp: mt_inv_def multitimer_new_def covered_def)

text \<open>
  C19: no timer of a multitimer is ever lost. Start from a fresh multitimer on a notification
  bit below 32 in a task whose kernel timer is off, and let the task set and clear timers,
  handle notifications, collect the fired timers, change its registers and state, and let
  others post to it and the kernel tick, in any order. Whenever a timer is on and its
  deadline has passed, the multitimer's notification bit is pending in the task's
  notifications or has been delivered and not yet been handed to \<open>handle_notification\<close>.
\<close>

theorem multitimer_no_lost_alarm:
  assumes "nb < 32" and "deadline (timer t) = None"
    and "mt_step\<^sup>*\<^sup>* \<lparr>ms_mt = multitimer_new k nb, ms_task = t, ms_now = time, ms_owed = False\<rparr> s"
    and "which < length (timers (ms_mt s))"
    and "multitimer_get_timer which (ms_mt s) = Some (d, r)" and "d \<le> ms_now s"
  shows "ms_owed s \<or> bit (notifications (ms_task s)) (unat (notification_bit (ms_mt s)))"
proof -
  have inv: "mt_inv s" by (rule mt_reach_inv [OF assms(3) mt_inv_start [OF assms(1,2)]])
  obtain c where c: "current_setting (ms_mt s) = Some c" "c \<le> d"
    using inv assms(5) nth_mem [OF assms(4)]
    unfolding mt_inv_def covered_def multitimer_get_timer_def by blast
  with inv assms(6) show ?thesis by (auto simp: mt_inv_def alarm_def)
qed

text \<open>A timer set to a deadline already past, on the demonstration task.\<close>

theorem multitimer_no_lost_alarm_witness:
  "\<exists>s. mt_step\<^sup>*\<^sup>* \<lparr>ms_mt = multitimer_new 2 3, ms_task = demo_task (demo_descs ! 0) (demo_regs 0 0 1 0) Runnable,
        ms_now = 10, ms_owed = False\<rparr> s
    \<and> multitimer_get_timer 1 (ms_mt s) = Some (5, None) \<and> 5 \<le> ms_now s
    \<and> (ms_owed s \<or> bit (notifications (ms_task s)) 3)"
proof -
  let ?t = "demo_task (demo_descs ! 0) (demo_regs 0 0 1 0) Runnable"
  let ?s = "\<lparr>ms_mt = multitimer_new 2 3, ms_task = ?t, ms_now = 10, ms_owed = False\<rparr>"
  let ?tm = "\<lparr>tm_deadline = Some (5, None), fired_but_not_observed = False\<rparr>"
  let ?mt = "(multitimer_new 2 3)\<lparr>timers := (timers (multitimer_new 2 3))[1 := ?tm], current_setting := Some 5\<rparr>"
  let ?u = "?s\<lparr>ms_mt := ?mt, ms_task := sys_set_timer (Some 5) 8 10 ?t\<rparr>"
  have "multitimer_set_timer 1 5 None 10 (multitimer_new 2 3, ?t) = Some (?mt, sys_set_timer (Some 5) 8 10 ?t)"
    by (simp add: multitimer_set_timer_def set_system_timer_def shl1_def multitimer_new_def)
  then have st: "mt_step\<^sup>*\<^sup>* ?s ?u"
    by (intro r_into_rtranclp mt_step.set [of ?s 1])
      (simp_all add: multitimer_new_def demo_task_def is_runnable_def)
  have g: "multitimer_get_timer 1 (ms_mt ?u) = Some (5, None)" "1 < length (timers (ms_mt ?u))" "5 \<le> ms_now ?u"
    by (simp_all add: multitimer_get_timer_def multitimer_new_def)
  have "ms_owed ?u \<or> bit (notifications (ms_task ?u)) (unat (notification_bit (ms_mt ?u)))"
    by (rule multitimer_no_lost_alarm [OF _ _ st g(2,1,3)]) (simp_all add: demo_defs timer_default_def)
  then have "ms_owed ?u \<or> bit (notifications (ms_task ?u)) 3" by (simp add: multitimer_new_def)
  with st g show ?thesis by blast
qed

text \<open>
  when the multitimer is handed a notification that has its bit, the call returns, every
  timer whose deadline has passed is marked fired and is off, or moved by its period (from
  now, or from its deadline, saturating), every other timer is unchanged, and for every timer
  still on the kernel timer is set to a deadline no later than its own, or the alarm is
  already pending.
\<close>

theorem handle_notification_outcome:
  assumes "notification_bit mt < 32" and "bit n (unat (notification_bit mt))" and "is_runnable t"
  shows "case handle_notification n time (mt, t) of
      None \<Rightarrow> False
    | Some (mt', t') \<Rightarrow> timers mt' = map (fire_timer time) (timers mt)
        \<and> (\<forall>i < length (timers mt'). \<forall>d r. multitimer_get_timer i mt' = Some (d, r) \<longrightarrow>
             bit (notifications t') (unat (notification_bit mt))
             \<or> (\<exists>c \<le> d. timer t' = \<lparr>deadline = Some c, to_post = push_bit (unat (notification_bit mt)) 1\<rparr>))"
proof -
  from shl1_bit [OF assms(1), of n] assms(2) obtain m where m: "shl1 (notification_bit mt) = Some m" "n AND m \<noteq> 0" by blast
  then have p: "m = push_bit (tbit mt) 1" by (auto simp: shl1_def split: if_splits)
  have l: "tbit mt < 32" using assms(1) by (simp add: word_less_nat_alt)
  obtain tms e where f: "fire_timers time (timers mt) None = (tms, e)" by fastforce
  have h: "handle_notification n time (mt, t) = Some (mt\<lparr>timers := tms, current_setting := e\<rparr>, sys_set_timer e m time t)"
    using m f by (simp add: handle_notification_def set_system_timer_def)
  have na: "\<not> can_accept_notification (state t)"
    using assms(3) by (simp add: is_runnable_def can_accept_notification_def)
  have c: "\<exists>c. e = Some c \<and> c \<le> d" if "i < length tms" "tm_deadline (tms ! i) = Some (d, r)" for i d r
    using fire_timers_covers [OF f] that nth_mem unfolding covered_def by blast
  have "bit (notifications (sys_set_timer e m time t)) (tbit mt)
      \<or> (\<exists>c \<le> d. timer (sys_set_timer e m time t) = \<lparr>deadline = Some c, to_post = m\<rparr>)"
    if "i < length tms" "tm_deadline (tms ! i) = Some (d, r)" for i d r
  proof -
    from c [OF that] obtain c' where "e = Some c'" "c' \<le> d" by blast
    with sys_set_timer_effect [OF na, of e m time] l show ?thesis
      by (cases "c' \<le> time") (auto simp: p bit_simps)
  qed
  then show ?thesis
    using fire_timers_covers [OF f] p unfolding h by (auto simp: multitimer_get_timer_def)
qed

theorem handle_notification_outcome_witness:
  "case handle_notification 8 10 ((multitimer_new 1 3)\<lparr>timers := [\<lparr>tm_deadline = Some (4, Some (AfterWake 7)), fired_but_not_observed = False\<rparr>]\<rparr>,
        demo_task (demo_descs ! 0) (demo_regs 0 0 1 0) Runnable) of
      None \<Rightarrow> False
    | Some (mt', t') \<Rightarrow> timers mt' = [\<lparr>tm_deadline = Some (17, Some (AfterWake 7)), fired_but_not_observed = True\<rparr>]
        \<and> (bit (notifications t') 3 \<or> (\<exists>c \<le> 17. timer t' = \<lparr>deadline = Some c, to_post = 8\<rparr>))"
  using handle_notification_outcome [where n = 8 and time = 10
      and mt = "(multitimer_new 1 3)\<lparr>timers := [\<lparr>tm_deadline = Some (4, Some (AfterWake 7)), fired_but_not_observed = False\<rparr>]\<rparr>"
      and t = "demo_task (demo_descs ! 0) (demo_regs 0 0 1 0) Runnable"]
  by (auto simp: multitimer_new_def multitimer_get_timer_def fire_timer_def saturating_add_def demo_defs
      is_runnable_def bit_simps split: option.splits)

end
