(* ===== verification/Lib_Ringbuf.thy ===== *)
theory Lib_Ringbuf
  imports Kern_Prelude
begin

section \<open>Trace ring buffers\<close>

text \<open>
  \<^verbatim>\<open>lib/ringbuf\<close>, the trace buffers of every task, inside the \<^verbatim>\<open>StaticCell\<close> of \<^verbatim>\<open>lib/static-cell\<close>
  that guards them. A buffer is read only by a debugger, so what matters is what its memory
  holds. The counters of a \<^verbatim>\<open>CountedRingbuf\<close> come from a derived implementation and are a
  parameter. A panic is \<open>None\<close>.
\<close>

subsection \<open>Static cells\<close>

record 'a StaticCell =
  borrowed :: bool
  cell :: 'a

definition static_cell_new :: "'a \<Rightarrow> 'a StaticCell" where
  "static_cell_new x = \<lparr>borrowed = False, cell = x\<rparr>"

definition borrow_mut :: "'a StaticCell \<Rightarrow> ('a \<times> 'a StaticCell) option" where
  "borrow_mut c = (if borrowed c then None else Some (cell c, c\<lparr>borrowed := True\<rparr>))"

text \<open>Dropping the reference after its holder left \<open>x\<close> in the cell.\<close>

definition static_ref_drop :: "'a \<Rightarrow> 'a StaticCell \<Rightarrow> 'a StaticCell" where
  "static_ref_drop x c = c\<lparr>cell := x, borrowed := False\<rparr>"

subsection \<open>Buffers\<close>

record ('p, 'c) RingbufEntry =
  rb_line :: u16
  rb_generation :: u16
  rb_payload :: 'p
  rb_count :: 'c

record ('p, 'c) Ringbuf =
  rb_last :: "usize option"
  rb_buffer :: "('p, 'c) RingbufEntry list"

definition ringbuf_new :: "nat \<Rightarrow> 'c \<Rightarrow> 'p \<Rightarrow> ('p, 'c) Ringbuf" where
  "ringbuf_new n c init = \<lparr>rb_last = None,
     rb_buffer = replicate n \<lparr>rb_line = 0, rb_generation = 0, rb_payload = init, rb_count = c\<rparr>\<rparr>"

definition usize_MAX :: usize where "usize_MAX = - 1"

definition do_record :: "usize \<Rightarrow> u16 \<Rightarrow> 'c \<Rightarrow> 'p \<Rightarrow> ('p, 'c) Ringbuf \<Rightarrow> ('p, 'c) Ringbuf option" where
  "do_record lst line count payload ring =
     (let last_plus_1 = lst + 1;
          ndx = (if length (rb_buffer ring) \<le> unat last_plus_1 then 0 else last_plus_1) in
      if unat ndx < length (rb_buffer ring) then
        let ent = rb_buffer ring ! unat ndx in
        Some (ring\<lparr>rb_buffer := (rb_buffer ring)[unat ndx :=
             \<lparr>rb_line = line, rb_generation = rb_generation ent + 1, rb_payload = payload, rb_count = count\<rparr>],
           rb_last := Some ndx\<rparr>)
      else None)"

text \<open>\<^verbatim>\<open>record_entry\<close> with and without deduplication.\<close>

definition record_dedup :: "u16 \<Rightarrow> 'p \<Rightarrow> ('p, u16) Ringbuf \<Rightarrow> ('p, u16) Ringbuf option" where
  "record_dedup line payload ring =
     (let lst = (case rb_last ring of Some l \<Rightarrow> l | None \<Rightarrow> usize_MAX);
          reuse = (if unat lst < length (rb_buffer ring) then
             let ent = rb_buffer ring ! unat lst in
             if rb_line ent = line \<and> rb_payload ent = payload
             then map_option (\<lambda>new_count. ent\<lparr>rb_count := new_count\<rparr>) (checked_add (rb_count ent) 1)
             else None
           else None) in
      case reuse of
        Some ent \<Rightarrow> Some (ring\<lparr>rb_buffer := (rb_buffer ring)[unat lst := ent]\<rparr>)
      | None \<Rightarrow> do_record lst line 1 payload ring)"

definition record_no_dedup :: "u16 \<Rightarrow> 'p \<Rightarrow> ('p, unit) Ringbuf \<Rightarrow> ('p, unit) Ringbuf option" where
  "record_no_dedup line payload ring =
     do_record (case rb_last ring of Some l \<Rightarrow> l | None \<Rightarrow> usize_MAX) line () payload ring"

definition with_cell :: "('a \<Rightarrow> 'a option) \<Rightarrow> 'a StaticCell \<Rightarrow> 'a StaticCell option" where
  "with_cell f c = (case borrow_mut c of
     None \<Rightarrow> None
   | Some (x, c) \<Rightarrow> (case f x of None \<Rightarrow> None | Some x' \<Rightarrow> Some (static_ref_drop x' c)))"

definition record_entry :: "u16 \<Rightarrow> 'p \<Rightarrow> ('p, u16) Ringbuf StaticCell \<Rightarrow> ('p, u16) Ringbuf StaticCell option" where
  "record_entry line payload = with_cell (record_dedup line payload)"

definition record_entry_no_dedup :: "u16 \<Rightarrow> 'p \<Rightarrow> ('p, unit) Ringbuf StaticCell \<Rightarrow> ('p, unit) Ringbuf StaticCell option" where
  "record_entry_no_dedup line payload = with_cell (record_no_dedup line payload)"

text \<open>A counted buffer: the counters first, then the buffer.\<close>

definition record_counted ::
  "('p \<Rightarrow> 'k \<Rightarrow> 'k) \<Rightarrow> u16 \<Rightarrow> 'p \<Rightarrow> 'k \<times> ('p, u16) Ringbuf StaticCell \<Rightarrow> ('k \<times> ('p, u16) Ringbuf StaticCell) option" where
  "record_counted count line payload b = map_option (Pair (count payload (fst b))) (record_entry line payload (snd b))"

subsection \<open>The log a buffer is a window of\<close>

text \<open>
  All entries ever recorded as runs of equal ones: a run ends when line or payload change or
  its count is full. \<open>expand_log\<close> gives the entries back.
\<close>

type_synonym 'p log = "((u16 \<times> 'p) \<times> nat) list"

definition log_record :: "u16 \<times> 'p \<Rightarrow> 'p log \<Rightarrow> 'p log" where
  "log_record e runs =
     (if runs \<noteq> [] \<and> fst (last runs) = e \<and> snd (last runs) < 2 ^ 16 - 1
      then butlast runs @ [(e, Suc (snd (last runs)))] else runs @ [(e, 1)])"

definition expand_log :: "'p log \<Rightarrow> (u16 \<times> 'p) list" where
  "expand_log runs = concat (map (\<lambda>(e, n). replicate n e) runs)"

lemma expand_log_record: "expand_log (log_record e runs) = expand_log runs @ [e]"
proof (cases runs rule: rev_cases)
  case Nil
  then show ?thesis by (simp add: log_record_def expand_log_def)
next
  case (snoc ys y)
  then show ?thesis by (cases y) (simp add: log_record_def expand_log_def replicate_append_same)
qed

lemma expand_log_records: "expand_log (fold log_record es runs) = expand_log runs @ es"
  by (induction es arbitrary: runs) (simp_all add: expand_log_record)

text \<open>Slot \<open>j\<close> holds run \<open>k\<close> of the log, with the number of runs the slot has seen.\<close>

definition slot_holds :: "('p, u16) RingbufEntry \<Rightarrow> nat \<Rightarrow> 'p log \<Rightarrow> nat \<Rightarrow> bool" where
  "slot_holds ent n runs k \<longleftrightarrow> (rb_line ent, rb_payload ent) = fst (runs ! k)
     \<and> unat (rb_count ent) = snd (runs ! k) \<and> rb_generation ent = word_of_nat (k div n + 1)"

definition holds_log :: "('p, u16) Ringbuf \<Rightarrow> nat \<Rightarrow> 'p log \<Rightarrow> bool" where
  "holds_log ring n runs \<longleftrightarrow> length (rb_buffer ring) = n
     \<and> rb_last ring = (if runs = [] then None else Some (word_of_nat ((length runs - 1) mod n)))
     \<and> (\<forall>k < length runs. length runs \<le> k + n \<longrightarrow> slot_holds (rb_buffer ring ! (k mod n)) n runs k)
     \<and> (\<forall>j < n. length runs \<le> j \<longrightarrow> rb_generation (rb_buffer ring ! j) = 0)
     \<and> (\<forall>k < length runs. 1 \<le> snd (runs ! k))"

lemma holds_log_new: "holds_log (ringbuf_new n c init) n []"
  by (simp add: holds_log_def ringbuf_new_def)

lemma window_slots:
  fixes k m n :: nat
  assumes "k < m" and "m < k + n"
  shows "k mod n \<noteq> m mod n"
proof
  assume "k mod n = m mod n"
  then have "n dvd m - k" using assms(1) by (metis mod_eq_dvd_iff_nat less_imp_le_nat)
  moreover have "0 < m - k" "m - k < n" using assms by simp_all
  ultimately show False using dvd_imp_le by fastforce
qed

lemma unat_index: "j < 2 ^ 32 \<Longrightarrow> unat (word_of_nat j :: usize) = j"
  by (simp add: unsigned_of_nat take_bit_nat_eq_self)

text \<open>The index the code computes without a division.\<close>

lemma next_slot:
  assumes "holds_log ring n runs" and "0 < n" and "n < 2 ^ 32"
  shows "(let lst = (case rb_last ring of Some l \<Rightarrow> l | None \<Rightarrow> usize_MAX) in
     if n \<le> unat (lst + 1) then 0 else lst + 1) = word_of_nat (length runs mod n)"
proof (cases "runs = []")
  case True
  with assms show ?thesis by (simp add: holds_log_def usize_MAX_def)
next
  case False
  let ?l = "(length runs - 1) mod n"
  have l: "?l < n" using assms(2) by simp
  have r: "rb_last ring = Some (word_of_nat ?l)" using assms(1) False by (simp add: holds_log_def)
  have w: "word_of_nat ?l + 1 = (word_of_nat (Suc ?l) :: usize)" by simp
  have u: "unat (word_of_nat (Suc ?l) :: usize) = Suc ?l" using l assms(3) by (intro unat_index) simp
  have m: "length runs mod n = (if Suc ?l = n then 0 else Suc ?l)" using False mod_Suc [of "length runs - 1" n] by simp
  show ?thesis using l unfolding r m option.case Let_def w u by simp
qed

lemma do_record_holds:
  assumes h: "holds_log ring n runs" and n: "0 < n" "n < 2 ^ 32"
  shows "\<exists>ring'. do_record (case rb_last ring of Some l \<Rightarrow> l | None \<Rightarrow> usize_MAX) line 1 payload ring = Some ring'
     \<and> holds_log ring' n (runs @ [((line, payload), 1)])"
proof -
  let ?m = "length runs"
  let ?j = "?m mod n"
  let ?ent = "rb_buffer ring ! ?j"
  let ?new = "\<lparr>rb_line = line, rb_generation = rb_generation ?ent + 1, rb_payload = payload, rb_count = 1\<rparr>"
  have j: "?j < n" using n by simp
  have len: "length (rb_buffer ring) = n" using h by (simp add: holds_log_def)
  have uj: "unat (word_of_nat ?j :: usize) = ?j" using j n(2) by (intro unat_index) simp
  have eq: "do_record (case rb_last ring of Some l \<Rightarrow> l | None \<Rightarrow> usize_MAX) line 1 payload ring
      = Some (ring\<lparr>rb_buffer := (rb_buffer ring)[?j := ?new], rb_last := Some (word_of_nat ?j)\<rparr>)"
    using next_slot [OF h n] j uj by (simp add: do_record_def len Let_def)
  have gen: "rb_generation ?ent + 1 = word_of_nat (?m div n + 1)"
  proof (cases "?m < n")
    case True
    with h show ?thesis by (simp add: holds_log_def)
  next
    case False
    then have "slot_holds (rb_buffer ring ! ((?m - n) mod n)) n runs (?m - n)" using h n(1) by (auto simp: holds_log_def)
    moreover have "(?m - n) mod n = ?j" "?m div n = (?m - n) div n + 1" using False n(1) by (simp_all add: le_mod_geq le_div_geq)
    ultimately show ?thesis by (simp add: slot_holds_def)
  qed
  have slots: "slot_holds ((rb_buffer ring)[?j := ?new] ! (k mod n)) n (runs @ [((line, payload), 1)]) k"
    if k: "k < Suc ?m" "Suc ?m \<le> k + n" for k
  proof (cases "k = ?m")
    case True
    with gen j len show ?thesis by (simp add: slot_holds_def)
  next
    case False
    with k window_slots [of k ?m n] have "k mod n \<noteq> ?j" by simp
    moreover have "slot_holds (rb_buffer ring ! (k mod n)) n runs k" using h k False by (simp add: holds_log_def)
    ultimately show ?thesis using k False by (simp add: slot_holds_def nth_append)
  qed
  have gens: "rb_generation ((rb_buffer ring)[?j := ?new] ! i) = 0" if "i < n" "Suc ?m \<le> i" for i
  proof -
    have "?j \<noteq> i" using that by simp
    with h that show ?thesis by (simp add: holds_log_def)
  qed
  have pos: "1 \<le> snd ((runs @ [((line, payload), 1)]) ! k)" if "k < Suc ?m" for k
    using h that by (auto simp: holds_log_def nth_append less_Suc_eq)
  have "holds_log (ring\<lparr>rb_buffer := (rb_buffer ring)[?j := ?new], rb_last := Some (word_of_nat ?j)\<rparr>) n (runs @ [((line, payload), 1)])"
    unfolding holds_log_def using len slots gens pos by simp
  with eq show ?thesis by blast
qed

lemma reuse_holds:
  assumes h: "holds_log ring n (runs @ [(e, c)])" and n: "0 < n" "n < 2 ^ 32" and c: "c < 2 ^ 16 - 1"
  defines "j \<equiv> length runs mod n"
  shows "holds_log (ring\<lparr>rb_buffer := (rb_buffer ring)[j := (rb_buffer ring ! j)\<lparr>rb_count := rb_count (rb_buffer ring ! j) + 1\<rparr>]\<rparr>)
    n (runs @ [(e, Suc c)])"
proof -
  let ?ent = "rb_buffer ring ! j"
  have j: "j < length (rb_buffer ring)" "length (rb_buffer ring) = n" using h n by (auto simp: holds_log_def j_def)
  have "slot_holds ?ent n (runs @ [(e, c)]) (length runs)" using h n by (simp add: holds_log_def j_def)
  then have ent: "(rb_line ?ent, rb_payload ?ent) = e" "unat (rb_count ?ent) = c" "rb_generation ?ent = word_of_nat (length runs div n + 1)"
    by (simp_all add: slot_holds_def)
  have "unat (rb_count ?ent + 1) = Suc c" using ent(2) c by (subst unat_add_nowrap) simp_all
  with ent j have new: "slot_holds (?ent\<lparr>rb_count := rb_count ?ent + 1\<rparr>) n (runs @ [(e, Suc c)]) (length runs)"
    by (simp add: slot_holds_def)
  have "slot_holds ((rb_buffer ring)[j := ?ent\<lparr>rb_count := rb_count ?ent + 1\<rparr>] ! (k mod n)) n (runs @ [(e, Suc c)]) k"
    if k: "k < Suc (length runs)" "Suc (length runs) \<le> k + n" for k
  proof (cases "k = length runs")
    case True
    with new j show ?thesis by (simp add: j_def)
  next
    case False
    with k window_slots [of k "length runs" n] have "k mod n \<noteq> j" by (simp add: j_def)
    moreover have "slot_holds (rb_buffer ring ! (k mod n)) n (runs @ [(e, c)]) k" using h k by (simp add: holds_log_def)
    ultimately show ?thesis using k False by (simp add: slot_holds_def nth_append)
  qed
  moreover have "rb_generation ((rb_buffer ring)[j := ?ent\<lparr>rb_count := rb_count ?ent + 1\<rparr>] ! i) = 0" if "i < n" "Suc (length runs) \<le> i" for i
  proof -
    have "j \<noteq> i" using that by (simp add: j_def)
    with h that show ?thesis by (simp add: holds_log_def)
  qed
  ultimately show ?thesis using h j by (auto simp: holds_log_def nth_append less_Suc_eq)
qed

lemma record_dedup_holds:
  assumes h: "holds_log ring n runs" and n: "0 < n" "n < 2 ^ 32"
  shows "\<exists>ring'. record_dedup line payload ring = Some ring' \<and> holds_log ring' n (log_record (line, payload) runs)"
proof (cases runs rule: rev_cases)
  case Nil
  then have "rb_last ring = None" using h by (simp add: holds_log_def)
  moreover have "\<not> unat usize_MAX < length (rb_buffer ring)" using h n by (simp add: holds_log_def usize_MAX_def)
  ultimately show ?thesis using do_record_holds [OF h n] Nil by (simp add: record_dedup_def log_record_def Let_def)
next
  case (snoc rs r)
  obtain e c where r: "r = (e, c)" by (cases r)
  let ?j = "length rs mod n"
  let ?ent = "rb_buffer ring ! ?j"
  have j: "?j < length (rb_buffer ring)" using h n snoc by (simp add: holds_log_def)
  have l: "rb_last ring = Some (word_of_nat ?j)" using h snoc by (simp add: holds_log_def)
  have uj: "unat (word_of_nat ?j :: usize) = ?j" using n by (intro unat_index) (meson less_trans mod_less_divisor)
  have "slot_holds ?ent n runs (length rs)" using h n snoc by (simp add: holds_log_def)
  then have ent: "(rb_line ?ent, rb_payload ?ent) = e" "unat (rb_count ?ent) = c" by (simp_all add: slot_holds_def snoc r)
  show ?thesis
  proof (cases "e = (line, payload) \<and> c < 2 ^ 16 - 1")
    case True
    have "checked_add (rb_count ?ent) 1 = Some (rb_count ?ent + 1)" using ent True by (simp add: checked_add_def)
    moreover have "log_record (line, payload) runs = rs @ [(e, Suc c)]" using True snoc r by (simp add: log_record_def)
    ultimately show ?thesis
      using reuse_holds [OF _ n, of ring rs e c] h snoc r True ent j by (auto simp: record_dedup_def l uj Let_def)
  next
    case False
    have "checked_add (rb_count ?ent) 1 = None" if "rb_line ?ent = line" "rb_payload ?ent = payload"
      using ent False that by (auto simp: checked_add_def)
    moreover have "log_record (line, payload) runs = runs @ [((line, payload), 1)]" using False snoc r by (auto simp: log_record_def)
    ultimately show ?thesis
      using do_record_holds [OF h n] by (auto simp: record_dedup_def l uj Let_def)
  qed
qed

subsection \<open>What a debugger finds\<close>

fun record_all :: "(u16 \<times> 'p) list \<Rightarrow> ('p, u16) Ringbuf StaticCell \<Rightarrow> ('p, u16) Ringbuf StaticCell option" where
  "record_all [] c = Some c"
| "record_all ((line, payload) # es) c =
     (case record_entry line payload c of None \<Rightarrow> None | Some c' \<Rightarrow> record_all es c')"

lemma record_all_holds:
  assumes "0 < n" and "n < 2 ^ 32" and "holds_log (cell c) n runs" and "\<not> borrowed c"
  shows "\<exists>c'. record_all es c = Some c' \<and> \<not> borrowed c' \<and> holds_log (cell c') n (fold log_record es runs)"
  using assms(3,4)
proof (induction es arbitrary: c runs)
  case (Cons e es)
  obtain line payload where e: "e = (line, payload)" by (cases e)
  obtain ring where r: "record_dedup line payload (cell c) = Some ring" "holds_log ring n (log_record e runs)"
    using record_dedup_holds [OF Cons.prems(1) assms(1,2), of line payload] e by auto
  let ?c = "c\<lparr>borrowed := False, cell := ring\<rparr>"
  have "record_entry line payload c = Some ?c"
    using r(1) Cons.prems(2) by (simp add: record_entry_def with_cell_def borrow_mut_def static_ref_drop_def)
  with e Cons.IH [of ?c "log_record e runs"] r(2) show ?case by simp
qed simp

text \<open>
  C24: recording never panics, and the buffer of a task always holds the end of its trace. The
  runs of equal entries, in which nothing is lost or reordered (they expand to exactly the
  entries recorded), are laid out round robin: run \<open>k\<close> is in slot \<open>k mod n\<close> while it is among the
  last \<open>n\<close>, with its line, payload and count, and the generation of the slot is the number of
  runs it has held. The index of the last run is stored.
\<close>

theorem ringbuf_holds_recent_runs:
  assumes "0 < n" and "n < 2 ^ 32" and "runs = fold log_record es []"
  shows "\<exists>c. record_all es (static_cell_new (ringbuf_new n 0 init)) = Some c \<and> \<not> borrowed c \<and> expand_log runs = es
    \<and> length (rb_buffer (cell c)) = n
    \<and> (es \<noteq> [] \<longrightarrow> rb_last (cell c) = Some (word_of_nat ((length runs - 1) mod n)))
    \<and> (\<forall>k < length runs. length runs \<le> k + n \<longrightarrow> slot_holds (rb_buffer (cell c) ! (k mod n)) n runs k)
    \<and> (\<forall>j < n. length runs \<le> j \<longrightarrow> rb_generation (rb_buffer (cell c) ! j) = 0)"
proof -
  have h: "holds_log (cell (static_cell_new (ringbuf_new n 0 init))) n []" "\<not> borrowed (static_cell_new (ringbuf_new n 0 init))"
    using holds_log_new by (simp_all add: static_cell_new_def)
  obtain c where c: "record_all es (static_cell_new (ringbuf_new n 0 init)) = Some c" "\<not> borrowed c" "holds_log (cell c) n runs"
    using record_all_holds [OF assms(1,2) h, of es] assms(3) by blast
  have x: "expand_log runs = es" using expand_log_records [of es "[]"] assms(3) by (simp add: expand_log_def)
  then have "es \<noteq> [] \<Longrightarrow> runs \<noteq> []" by (auto simp: expand_log_def)
  with c x show ?thesis by (intro exI [of _ c]) (simp add: holds_log_def)
qed

theorem ringbuf_holds_recent_runs_witness:
  "\<exists>c. record_all [(7, True), (7, True), (9, False), (7, True)] (static_cell_new (ringbuf_new 2 0 False)) = Some c
    \<and> rb_count (rb_buffer (cell c) ! 0) = 1 \<and> rb_generation (rb_buffer (cell c) ! 0) = 2
    \<and> rb_line (rb_buffer (cell c) ! 1) = 9"
proof -
  let ?es = "[(7, True), (7, True), (9, False), (7, True)] :: (u16 \<times> bool) list"
  have r: "fold log_record ?es [] = [((7, True), 2), ((9, False), 1), ((7, True), 1)]" by (simp add: log_record_def)
  have n: "(0 :: nat) < 2" "(2 :: nat) < 2 ^ 32" by simp_all
  obtain c where c: "record_all ?es (static_cell_new (ringbuf_new 2 0 False)) = Some c"
      "\<forall>k < 3. 3 \<le> k + 2 \<longrightarrow> slot_holds (rb_buffer (cell c) ! (k mod 2)) 2 [((7, True), 2), ((9, False), 1), ((7, True), 1)] k"
    using ringbuf_holds_recent_runs [OF n refl, of ?es False] unfolding r by auto
  from c(2) [rule_format, of 1] c(2) [rule_format, of 2] have "slot_holds (rb_buffer (cell c) ! 1) 2 [((7, True), 2), ((9, False), 1), ((7, True), 1)] 1"
      "slot_holds (rb_buffer (cell c) ! 0) 2 [((7, True), 2), ((9, False), 1), ((7, True), 1)] 2" by simp_all
  with c(1) show ?thesis by (auto simp: slot_holds_def word_unat_eq_iff [of "rb_count _"])
qed

end
