(* ===== verification/Lib_UpdateBuffer.thy ===== *)
theory Lib_UpdateBuffer
  imports Kern_Prelude
begin

section \<open>The shared update buffer\<close>

text \<open>
  \<^verbatim>\<open>lib/update-buffer\<close>: one static buffer that several clients borrow in turn, each with a capacity
  of its own. The owner tag and the data have a lock each, which \<^verbatim>\<open>borrow\<close> and the end of a loan
  take in opposite orders; the comments argue that this cannot deadlock. The model runs any
  number of threads, each at a point between two accesses to shared state. Of \<^verbatim>\<open>spin::Mutex\<close> it
  uses that \<^verbatim>\<open>lock\<close> returns only when the lock is free and then excludes others until the guard
  is dropped. A capacity above the size of the buffer panics, which ends the task; such calls
  are \<open>None\<close>.
\<close>

record BorrowedUpdateBuffer =
  ub_len :: nat
  ub_cap :: nat

record 'o UpdateBuffer =
  current_owner :: "'o option"
  owner_lock :: "nat option"
  data_lock :: "nat option"
  ub_data :: "u8 list"

definition update_buffer_new :: "nat \<Rightarrow> 'o UpdateBuffer" where
  "update_buffer_new n = \<lparr>current_owner = None, owner_lock = None, data_lock = None, ub_data = replicate n 0\<rparr>"

subsection \<open>Operations of a borrowed buffer\<close>

definition ub_is_empty :: "BorrowedUpdateBuffer \<Rightarrow> bool" where
  "ub_is_empty b \<longleftrightarrow> ub_len b = 0"

definition ub_as_slice :: "'o UpdateBuffer \<Rightarrow> BorrowedUpdateBuffer \<Rightarrow> u8 list" where
  "ub_as_slice s b = take (ub_len b) (ub_data s)"

definition ub_clear :: "BorrowedUpdateBuffer \<Rightarrow> BorrowedUpdateBuffer" where
  "ub_clear b = b\<lparr>ub_len := 0\<rparr>"

text \<open>\<^verbatim>\<open>extend_from_slice\<close>; the slicing panics when the borrowed part leaves the buffer.\<close>

definition extend_from_slice ::
  "u8 list \<Rightarrow> BorrowedUpdateBuffer \<Rightarrow> 'o UpdateBuffer \<Rightarrow> (u8 list \<times> BorrowedUpdateBuffer \<times> 'o UpdateBuffer) option" where
  "extend_from_slice xs b s =
     (if ub_cap b < ub_len b then None
      else let n = min (length xs) (ub_cap b - ub_len b) in
        if length (ub_data s) < ub_len b + n then None
        else Some (drop n xs, b\<lparr>ub_len := ub_len b + n\<rparr>,
          s\<lparr>ub_data := take (ub_len b) (ub_data s) @ take n xs @ drop (ub_len b + n) (ub_data s)\<rparr>))"

subsection \<open>Threads\<close>

text \<open>
  Where a thread stands in \<^verbatim>\<open>borrow\<close> (before taking the owner lock, before reading the owner,
  before taking the data lock, before writing the owner), in \<^verbatim>\<open>drop\<close> and in \<^verbatim>\<open>reborrow\<close>.
\<close>

datatype 'o pc =
    Idle
  | BorrowLock 'o nat | BorrowCheck 'o nat | BorrowData 'o nat | BorrowSet 'o nat
  | Refused 'o
  | Holding 'o BorrowedUpdateBuffer
  | DropLock 'o | DropClear | DropUnlock
  | ReborrowLock 'o 'o nat | ReborrowSet 'o nat

definition borrow_call :: "nat \<Rightarrow> 'o \<Rightarrow> nat \<Rightarrow> 'o pc option" where
  "borrow_call n new_owner capacity = (if n < capacity then None else Some (BorrowLock new_owner capacity))"

definition reborrow_call :: "nat \<Rightarrow> 'o \<Rightarrow> 'o \<Rightarrow> nat \<Rightarrow> 'o pc option" where
  "reborrow_call n old_owner new_owner capacity = (if n < capacity then None else Some (ReborrowLock old_owner new_owner capacity))"

text \<open>The next access of thread \<open>t\<close>; \<open>None\<close> while it waits for a lock or is in no call.\<close>

fun thread_step :: "nat \<Rightarrow> 'o pc \<Rightarrow> 'o UpdateBuffer \<Rightarrow> ('o pc \<times> 'o UpdateBuffer) option" where
  "thread_step t (BorrowLock own cap) s =
     (if owner_lock s = None then Some (BorrowCheck own cap, s\<lparr>owner_lock := Some t\<rparr>) else None)"
| "thread_step t (BorrowCheck own cap) s =
     (case current_owner s of
        Some owner \<Rightarrow> Some (Refused owner, s\<lparr>owner_lock := None\<rparr>)
      | None \<Rightarrow> Some (BorrowData own cap, s))"
| "thread_step t (BorrowData own cap) s =
     (if data_lock s = None then Some (BorrowSet own cap, s\<lparr>data_lock := Some t\<rparr>) else None)"
| "thread_step t (BorrowSet own cap) s =
     Some (Holding own \<lparr>ub_len = 0, ub_cap = cap\<rparr>, s\<lparr>current_owner := Some own, owner_lock := None\<rparr>)"
| "thread_step t (DropLock own) s =
     (if owner_lock s = None then Some (DropClear, s\<lparr>owner_lock := Some t\<rparr>) else None)"
| "thread_step t DropClear s = Some (DropUnlock, s\<lparr>current_owner := None, owner_lock := None\<rparr>)"
| "thread_step t DropUnlock s = Some (Idle, s\<lparr>data_lock := None\<rparr>)"
| "thread_step t (ReborrowLock old own cap) s =
     (if owner_lock s = None then Some (ReborrowSet own cap, s\<lparr>owner_lock := Some t\<rparr>) else None)"
| "thread_step t (ReborrowSet own cap) s =
     Some (Holding own \<lparr>ub_len = 0, ub_cap = cap\<rparr>, s\<lparr>current_owner := Some own, owner_lock := None\<rparr>)"
| "thread_step t Idle s = None"
| "thread_step t (Refused owner) s = None"
| "thread_step t (Holding own b) s = None"

text \<open>All threads, with what their clients may do between calls.\<close>

inductive ub_step :: "nat \<Rightarrow> (nat \<Rightarrow> 'o pc) \<times> 'o UpdateBuffer \<Rightarrow> (nat \<Rightarrow> 'o pc) \<times> 'o UpdateBuffer \<Rightarrow> bool" for n where
  step_access: "thread_step t (pcs t) s = Some (p, s') \<Longrightarrow> ub_step n (pcs, s) (pcs(t := p), s')"
| step_borrow: "pcs t = Idle \<Longrightarrow> borrow_call n own cap = Some p \<Longrightarrow> ub_step n (pcs, s) (pcs(t := p), s)"
| step_refused: "pcs t = Refused owner \<Longrightarrow> ub_step n (pcs, s) (pcs(t := Idle), s)"
| step_extend: "pcs t = Holding own b \<Longrightarrow> extend_from_slice xs b s = Some (rest, b', s') \<Longrightarrow>
    ub_step n (pcs, s) (pcs(t := Holding own b'), s')"
| step_clear: "pcs t = Holding own b \<Longrightarrow> ub_step n (pcs, s) (pcs(t := Holding own (ub_clear b)), s)"
| step_reborrow: "pcs t = Holding own b \<Longrightarrow> reborrow_call n own own' cap = Some p \<Longrightarrow> ub_step n (pcs, s) (pcs(t := p), s)"
| step_drop: "pcs t = Holding own b \<Longrightarrow> ub_step n (pcs, s) (pcs(t := DropLock own), s)"

inductive_cases ub_stepE: "ub_step n x y"

subsection \<open>Invariant\<close>

fun has_owner_lock :: "'o pc \<Rightarrow> bool" where
  "has_owner_lock (BorrowCheck _ _) = True"
| "has_owner_lock (BorrowData _ _) = True"
| "has_owner_lock (BorrowSet _ _) = True"
| "has_owner_lock DropClear = True"
| "has_owner_lock (ReborrowSet _ _) = True"
| "has_owner_lock _ = False"

fun has_data_lock :: "'o pc \<Rightarrow> bool" where
  "has_data_lock (BorrowSet _ _) = True"
| "has_data_lock (Holding _ _) = True"
| "has_data_lock (DropLock _) = True"
| "has_data_lock DropClear = True"
| "has_data_lock DropUnlock = True"
| "has_data_lock (ReborrowLock _ _ _) = True"
| "has_data_lock (ReborrowSet _ _) = True"
| "has_data_lock _ = False"

text \<open>A loan lasts from \<^verbatim>\<open>borrow\<close> to the moment \<^verbatim>\<open>drop\<close> clears the owner; \<open>loan_owner\<close> is its tag.\<close>

fun on_loan :: "'o pc \<Rightarrow> bool" where
  "on_loan (Holding _ _) = True"
| "on_loan (DropLock _) = True"
| "on_loan DropClear = True"
| "on_loan (ReborrowLock _ _ _) = True"
| "on_loan (ReborrowSet _ _) = True"
| "on_loan _ = False"

fun loan_owner :: "'o pc \<Rightarrow> 'o option" where
  "loan_owner (Holding own _) = Some own"
| "loan_owner (DropLock own) = Some own"
| "loan_owner (ReborrowLock own _ _) = Some own"
| "loan_owner _ = None"

fun saw_no_owner :: "'o pc \<Rightarrow> bool" where
  "saw_no_owner (BorrowData _ _) = True"
| "saw_no_owner (BorrowSet _ _) = True"
| "saw_no_owner _ = False"

fun sizes_ok :: "nat \<Rightarrow> 'o pc \<Rightarrow> bool" where
  "sizes_ok n (BorrowLock _ cap) = (cap \<le> n)"
| "sizes_ok n (BorrowCheck _ cap) = (cap \<le> n)"
| "sizes_ok n (BorrowData _ cap) = (cap \<le> n)"
| "sizes_ok n (BorrowSet _ cap) = (cap \<le> n)"
| "sizes_ok n (ReborrowLock _ _ cap) = (cap \<le> n)"
| "sizes_ok n (ReborrowSet _ cap) = (cap \<le> n)"
| "sizes_ok n (Holding _ b) = (ub_len b \<le> ub_cap b \<and> ub_cap b \<le> n)"
| "sizes_ok n _ = True"

definition ub_inv :: "nat \<Rightarrow> (nat \<Rightarrow> 'o pc) \<times> 'o UpdateBuffer \<Rightarrow> bool" where
  "ub_inv n x \<longleftrightarrow> (case x of (pcs, s) \<Rightarrow> length (ub_data s) = n
     \<and> (\<forall>t. has_owner_lock (pcs t) = (owner_lock s = Some t)) \<and> (\<forall>t. has_data_lock (pcs t) = (data_lock s = Some t))
     \<and> (\<forall>t. saw_no_owner (pcs t) \<longrightarrow> current_owner s = None)
     \<and> (\<forall>t own. loan_owner (pcs t) = Some own \<longrightarrow> current_owner s = Some own)
     \<and> (\<forall>own. current_owner s = Some own \<longrightarrow> (\<exists>t. on_loan (pcs t))) \<and> (\<forall>t. sizes_ok n (pcs t)))"

lemma ub_inv_start: "ub_inv n (\<lambda>_. Idle, update_buffer_new n)"
  by (simp add: ub_inv_def update_buffer_new_def)

lemma ub_inv_locks:
  assumes "ub_inv n (pcs, s)"
  shows "has_owner_lock (pcs t) = (owner_lock s = Some t)" "has_data_lock (pcs t) = (data_lock s = Some t)"
    "saw_no_owner (pcs t) \<Longrightarrow> current_owner s = None" "loan_owner (pcs t) = Some own \<Longrightarrow> current_owner s = Some own"
    "sizes_ok n (pcs t)"
  using assms by (auto simp: ub_inv_def)

lemma on_loan_has_data: "on_loan p \<Longrightarrow> has_data_lock p"
  by (cases p) simp_all

lemma loan_owner_on_loan: "loan_owner p = Some own \<Longrightarrow> on_loan p"
  by (cases p) simp_all

text \<open>A step of one thread keeps the invariant when the parts that mention this thread do.\<close>

lemma ub_inv_update:
  assumes i: "ub_inv n (pcs, s)" and l: "length (ub_data s') = length (ub_data s)" and z: "sizes_ok n p"
    and o: "has_owner_lock p = (owner_lock s' = Some t)" "\<And>u. u \<noteq> t \<Longrightarrow> (owner_lock s' = Some u) = (owner_lock s = Some u)"
    and d: "has_data_lock p = (data_lock s' = Some t)" "\<And>u. u \<noteq> t \<Longrightarrow> (data_lock s' = Some u) = (data_lock s = Some u)"
    and c: "current_owner s' = current_owner s \<and> on_loan p = on_loan (pcs t)
      \<or> has_owner_lock (pcs t) \<and> has_data_lock (pcs t) \<and> (current_owner s' \<noteq> None \<longrightarrow> on_loan p)"
    and t: "saw_no_owner p \<longrightarrow> current_owner s' = None" "\<And>own. loan_owner p = Some own \<Longrightarrow> current_owner s' = Some own"
  shows "ub_inv n (pcs(t := p), s')"
proof -
  note inv = i [unfolded ub_inv_def prod.case]
  have other: "current_owner s' = current_owner s" if "u \<noteq> t" "saw_no_owner (pcs u) \<or> loan_owner (pcs u) \<noteq> None" for u
  proof -
    have "\<not> (has_owner_lock (pcs t) \<and> has_data_lock (pcs t))"
    proof
      assume "has_owner_lock (pcs t) \<and> has_data_lock (pcs t)"
      then have "\<not> has_owner_lock (pcs u)" "\<not> has_data_lock (pcs u)" using inv that(1) by auto
      with that(2) show False by (cases "pcs u") simp_all
    qed
    with c show ?thesis by blast
  qed
  have loan: "\<exists>u. on_loan ((pcs(t := p)) u)" if "current_owner s' = Some own" for own
    using c
  proof
    assume a: "current_owner s' = current_owner s \<and> on_loan p = on_loan (pcs t)"
    with inv that obtain u where "on_loan (pcs u)" by force
    with a show ?thesis by (cases "u = t") (auto intro!: exI [of _ u])
  next
    assume "has_owner_lock (pcs t) \<and> has_data_lock (pcs t) \<and> (current_owner s' \<noteq> None \<longrightarrow> on_loan p)"
    with that show ?thesis by (intro exI [of _ t]) simp
  qed
  have locks: "has_owner_lock ((pcs(t := p)) u) = (owner_lock s' = Some u)" "has_data_lock ((pcs(t := p)) u) = (data_lock s' = Some u)" for u
    using ub_inv_locks [OF i, of u] o d by (cases "u = t"; simp)+
  have saw: "current_owner s' = None" if "saw_no_owner ((pcs(t := p)) u)" for u
    using that inv t(1) other [of u] by (cases "u = t") (simp, metis fun_upd_other)
  have tag: "current_owner s' = Some own" if "loan_owner ((pcs(t := p)) u) = Some own" for u own
    using that inv t(2) other [of u] by (cases "u = t") (simp, metis fun_upd_other option.distinct(1))
  have size: "sizes_ok n ((pcs(t := p)) u)" for u using inv z by simp
  have len: "length (ub_data s') = n" using inv l by simp
  show ?thesis unfolding ub_inv_def prod.case using len locks saw tag loan size by blast
qed

lemma ub_inv_data:
  assumes "ub_inv n (pcs, s)" and "length xs = length (ub_data s)"
  shows "ub_inv n (pcs, s\<lparr>ub_data := xs\<rparr>)"
  using assms by (simp add: ub_inv_def)

lemma thread_step_inv:
  assumes i: "ub_inv n (pcs, s)" and st: "thread_step t (pcs t) s = Some (p, s')"
  shows "ub_inv n (pcs(t := p), s')"
  by (rule ub_inv_update [OF i])
    (use st ub_inv_locks [OF i, of t] in \<open>cases "pcs t"; auto split: if_splits option.splits\<close>)+

lemma ub_inv_client:
  assumes i: "ub_inv n (pcs, s)" and "has_owner_lock p = has_owner_lock (pcs t)" and "has_data_lock p = has_data_lock (pcs t)"
    and "on_loan p = on_loan (pcs t)" and "\<not> saw_no_owner p" and "loan_owner p = loan_owner (pcs t)" and "sizes_ok n p"
    and "length (ub_data s') = length (ub_data s)" and "s' = s\<lparr>ub_data := ub_data s'\<rparr>"
  shows "ub_inv n (pcs(t := p), s')"
proof -
  have s: "owner_lock s' = owner_lock s" "data_lock s' = data_lock s" "current_owner s' = current_owner s"
    by (subst assms(9), simp)+
  have tag: "current_owner s' = Some own" if "loan_owner p = Some own" for own
    using assms(6) ub_inv_locks(4) [OF i, of t own] that s by simp
  show ?thesis
    by (rule ub_inv_update [OF i]) (use assms(2-5,7,8) ub_inv_locks(1,2) [OF i] tag in \<open>simp_all add: s\<close>)
qed

lemma ub_step_inv:
  assumes "ub_step n x y" and "ub_inv n x"
  shows "ub_inv n y"
  using assms
proof (cases rule: ub_step.cases)
  case (step_access t pcs s p s')
  with assms(2) thread_step_inv show ?thesis by blast
next
  case (step_extend pcs t own b xs s rest b' s')
  then have i: "ub_inv n (pcs, s)" using assms(2) by simp
  show ?thesis
    unfolding step_extend(2)
    by (rule ub_inv_client [OF i])
      (use step_extend ub_inv_locks [OF i, of t] in \<open>auto simp: extend_from_slice_def Let_def split: if_splits\<close>)
next
  case (step_borrow pcs t own cap p s)
  then have i: "ub_inv n (pcs, s)" using assms(2) by simp
  show ?thesis
    unfolding step_borrow(2) by (rule ub_inv_client [OF i]) (use step_borrow in \<open>auto simp: borrow_call_def split: if_splits\<close>)
next
  case (step_refused pcs t owner s)
  then have i: "ub_inv n (pcs, s)" using assms(2) by simp
  show ?thesis unfolding step_refused(2) by (rule ub_inv_client [OF i]) (use step_refused in auto)
next
  case (step_clear pcs t own b s)
  then have i: "ub_inv n (pcs, s)" using assms(2) by simp
  show ?thesis
    unfolding step_clear(2)
    by (rule ub_inv_client [OF i]) (use step_clear ub_inv_locks [OF i, of t] in \<open>auto simp: ub_clear_def\<close>)
next
  case (step_reborrow pcs t own b own' cap p s)
  then have i: "ub_inv n (pcs, s)" using assms(2) by simp
  show ?thesis
    unfolding step_reborrow(2) by (rule ub_inv_client [OF i]) (use step_reborrow in \<open>auto simp: reborrow_call_def split: if_splits\<close>)
next
  case (step_drop pcs t own b s)
  then have i: "ub_inv n (pcs, s)" using assms(2) by simp
  show ?thesis unfolding step_drop(2) by (rule ub_inv_client [OF i]) (use step_drop in auto)
qed

lemma ub_reach_inv: "(ub_step n)\<^sup>*\<^sup>* (\<lambda>_. Idle, update_buffer_new n) x \<Longrightarrow> ub_inv n x"
  by (induction rule: rtranclp_induct) (auto intro: ub_inv_start ub_step_inv)

subsection \<open>Exclusion and progress\<close>

text \<open>Whether a thread is inside \<^verbatim>\<open>borrow\<close>, \<^verbatim>\<open>drop\<close> or \<^verbatim>\<open>reborrow\<close>.\<close>

fun in_call :: "'o pc \<Rightarrow> bool" where
  "in_call Idle = False"
| "in_call (Refused _) = False"
| "in_call (Holding _ _) = False"
| "in_call _ = True"

lemma holder_steps:
  assumes "has_owner_lock p" and "thread_step t p s = None"
  shows "\<exists>own cap. p = BorrowData own cap \<and> data_lock s \<noteq> None"
  using assms by (cases p) (auto split: option.splits if_splits)

lemma data_holder_steps:
  assumes "has_data_lock p" and "\<not> has_owner_lock p" and "loan_owner p = None"
  shows "thread_step t p s \<noteq> None"
  using assms by (cases p) auto

lemma no_deadlock:
  assumes i: "ub_inv n (pcs, s)" and "in_call (pcs t)"
  shows "\<exists>u. thread_step u (pcs u) s \<noteq> None"
proof (rule ccontr)
  assume stuck: "\<not> ?thesis"
  then have "thread_step t (pcs t) s = None" by blast
  with assms(2) have "owner_lock s \<noteq> None \<or> has_owner_lock (pcs t)" by (cases "pcs t") (auto split: if_splits)
  then obtain u where u: "has_owner_lock (pcs u)" using ub_inv_locks(1) [OF i] by auto
  obtain own cap where b: "pcs u = BorrowData own cap" "data_lock s \<noteq> None" using holder_steps [OF u] stuck by blast
  then obtain v where v: "has_data_lock (pcs v)" using ub_inv_locks(2) [OF i] by auto
  have "current_owner s = None" using ub_inv_locks(3) [OF i, of u] b by simp
  then have "loan_owner (pcs v) = None" using ub_inv_locks(4) [OF i, of v] by (cases "loan_owner (pcs v)") auto
  moreover have "\<not> has_owner_lock (pcs v)"
  proof
    assume "has_owner_lock (pcs v)"
    then have "v = u" using u ub_inv_locks(1) [OF i] by simp
    with v b show False by simp
  qed
  ultimately show False using data_holder_steps [OF v] stuck by blast
qed

lemma extend_total:
  assumes "ub_len b \<le> ub_cap b" and "ub_cap b \<le> length (ub_data s)"
  shows "\<exists>rest b' s'. extend_from_slice xs b s = Some (rest, b', s') \<and> ub_as_slice s' b' @ rest = ub_as_slice s b @ xs
    \<and> (rest = [] \<or> ub_len b' = ub_cap b)"
  using assms by (auto simp: extend_from_slice_def ub_as_slice_def Let_def min_def)

text \<open>
  C23: however the calls of any number of threads interleave, at most one of them has the
  buffer on loan; while a client holds it the owner tag is that client's, extending it never
  panics and appends exactly the data that fits below the capacity, handing back the rest; a
  borrow that is about to be refused sees the tag of a loan that exists; and although the two
  locks are taken in opposite orders there is no deadlock: whenever some thread is inside a
  call, some thread can take its next step.
\<close>

theorem update_buffer_safe:
  assumes "(ub_step n)\<^sup>*\<^sup>* (\<lambda>_. Idle, update_buffer_new n) (pcs, s)"
  shows "(\<forall>t u. on_loan (pcs t) \<and> on_loan (pcs u) \<longrightarrow> t = u)
    \<and> (\<forall>t own b. pcs t = Holding own b \<longrightarrow> current_owner s = Some own
         \<and> (\<forall>xs. \<exists>rest b' s'. extend_from_slice xs b s = Some (rest, b', s') \<and> ub_as_slice s' b' @ rest = ub_as_slice s b @ xs
              \<and> (rest = [] \<or> ub_len b' = ub_cap b)))
    \<and> (current_owner s \<noteq> None \<longrightarrow> (\<exists>t. on_loan (pcs t)))
    \<and> ((\<exists>t. in_call (pcs t)) \<longrightarrow> (\<exists>t. thread_step t (pcs t) s \<noteq> None))"
proof -
  have i: "ub_inv n (pcs, s)" by (rule ub_reach_inv [OF assms])
  then have len: "length (ub_data s) = n" and loan: "current_owner s \<noteq> None \<longrightarrow> (\<exists>t. on_loan (pcs t))" by (auto simp: ub_inv_def)
  have one: "t = u" if "on_loan (pcs t)" "on_loan (pcs u)" for t u
    using on_loan_has_data that ub_inv_locks(2) [OF i] by (metis option.inject)
  have "current_owner s = Some own \<and> ub_len b \<le> ub_cap b \<and> ub_cap b \<le> length (ub_data s)" if "pcs t = Holding own b" for t own b
    using ub_inv_locks(4,5) [OF i, of t] that len by simp
  with one loan no_deadlock [OF i] extend_total show ?thesis by metis
qed

theorem update_buffer_safe_witness:
  "\<exists>pcs s. (ub_step 4)\<^sup>*\<^sup>* (\<lambda>_. Idle, update_buffer_new 4) (pcs, s :: string UpdateBuffer) \<and> pcs 1 = BorrowLock ''a'' 2
    \<and> (\<exists>t. thread_step t (pcs t) s \<noteq> None)"
proof -
  let ?s = "update_buffer_new 4 :: string UpdateBuffer"
  let ?pcs = "(\<lambda>_. Idle)(1 := BorrowLock ''a'' 2)"
  have "ub_step 4 (\<lambda>_. Idle, ?s) (?pcs, ?s)" by (rule ub_step.step_borrow [of _ 1 _ "''a''" 2]) (simp_all add: borrow_call_def)
  then have r: "(ub_step 4)\<^sup>*\<^sup>* (\<lambda>_. Idle, ?s) (?pcs, ?s)" by (rule r_into_rtranclp)
  have "in_call (?pcs 1)" by simp
  with update_buffer_safe [OF r] have "\<exists>t. thread_step t (?pcs t) ?s \<noteq> None" by blast
  with r show ?thesis by (intro exI [of _ ?pcs] exI [of _ ?s]) simp
qed

end
