(* ===== verification/User_Kipc.thy ===== *)
theory User_Kipc
  imports User_Lib Kern_Restart
begin

section \<open>Kernel IPC from the caller's side\<close>

text \<open>
  The wrappers of \<^verbatim>\<open>sys/userlib/src/kipc.rs\<close>, run against the kernel: a wrapper stores its
  message in a buffer of the calling task, executes the SEND system call of the kernel model,
  and decodes the response from the task's memory. The addresses the compiler chooses for the
  buffers and the \<^verbatim>\<open>ssmarshal\<close> functions of the caller's side are parameters (\<open>kipc_io\<close>). A
  failed assertion or \<^verbatim>\<open>unwrap_lite\<close> is the error \<open>UserPanic\<close>; \<open>Descheduled\<close> means that the
  caller does not continue when the system call ends.
\<close>

subsection \<open>Executing a system call\<close>

datatype user_stop = UserPanic | Descheduled

definition svc :: "kenv \<Rightarrow> (SavedState \<Rightarrow> SavedState) \<Rightarrow> (SavedState, user_stop) kfun" where
  "svc env regs =
     kbind (kget current) (\<lambda>task.
     kbind (modify_save task regs) (\<lambda>_.
     kbind (get_task task) (\<lambda>t.
     kbind (kmap_err (\<lambda>_ :: UserError. Descheduled) (syscall_entry env (syscall_descriptor (save t)))) (\<lambda>_.
     kbind (kget current) (\<lambda>task'.
     kbind (get_task task) (\<lambda>t'.
     if task' \<noteq> task \<or> generation t' \<noteq> generation t then kerr Descheduled else kret (save t')))))))"

record kipc_io =
  io_msg :: u32
  io_resp :: u32
  io_none :: u32
  se_u32_bool :: "u32 \<times> bool \<Rightarrow> u8 list"
  se_u32_u32 :: "u32 \<times> u32 \<Rightarrow> u8 list"
  se_u32_region :: "u32 \<times> TaskDumpRegion \<Rightarrow> u8 list"
  de_task_state :: "u8 list \<Rightarrow> TaskState option"
  de_dump_region :: "u8 list \<Rightarrow> TaskDumpRegion option option"
  de_u64 :: "u8 list \<Rightarrow> u64 option"
  sz_task_state :: nat
  sz_dump_region :: nat

text \<open>\<^verbatim>\<open>as_bytes\<close> of a word, and a value serialised into a zeroed array of \<open>n\<close> bytes.\<close>

definition le_bytes :: "u32 \<Rightarrow> u8 list" where
  "le_bytes w = [ucast w, ucast (drop_bit 8 w), ucast (drop_bit 16 w), ucast (drop_bit 24 w)]"

definition marshalled :: "nat \<Rightarrow> u8 list \<Rightarrow> (u8 list, user_stop) kfun" where
  "marshalled n bs = (if length bs \<le> n then kret (bs @ replicate (n - length bs) 0) else kerr UserPanic)"

fun kipcnum_code :: "Kipcnum \<Rightarrow> u16" where
  "kipcnum_code ReadTaskStatus = 1"
| "kipcnum_code RestartTask = 2"
| "kipcnum_code FaultTask = 3"
| "kipcnum_code ReadImageId = 4"
| "kipcnum_code Reset = 5"
| "kipcnum_code GetTaskDumpRegion = 6"
| "kipcnum_code ReadTaskDumpRegion = 7"
| "kipcnum_code SoftwareIrq = 8"

text \<open>
  \<^verbatim>\<open>sys_send\<close> to the kernel with the message stored in its buffer and no leases. The array for
  the response is zeroed when it is a local of the wrapper.
\<close>

definition kipc_send ::
  "kenv \<Rightarrow> kipc_io \<Rightarrow> Kipcnum \<Rightarrow> u8 list \<Rightarrow> rust_slice \<Rightarrow> (u32 \<times> u32, user_stop) kfun" where
  "kipc_send env io oper msg resp =
     kbind (kmodify (\<lambda>s. s\<lparr>mem := mem_write (mem s) (io_msg io) msg\<rparr>)) (\<lambda>_.
     kbind (svc env (sys_send_regs KERNEL (kipcnum_code oper)
              (io_msg io, word_of_nat (length msg)) resp (io_none io, 0))) (\<lambda>sv.
     kret (rc_len sv)))"

definition zero_buf :: "u32 \<Rightarrow> nat \<Rightarrow> (unit, user_stop) kfun" where
  "zero_buf a n = kmodify (\<lambda>s. s\<lparr>mem := mem_write (mem s) a (replicate n 0)\<rparr>)"

text \<open>\<^verbatim>\<open>deserialize(&response[..len]).unwrap_lite().0\<close> for an array of \<open>n\<close> bytes.\<close>

definition unmarshal :: "(u8 list \<Rightarrow> 'a option) \<Rightarrow> u32 \<Rightarrow> nat \<Rightarrow> u32 \<Rightarrow> ('a, user_stop) kfun" where
  "unmarshal de a n len =
     (if n < unat len then kerr UserPanic
      else kbind (kget mem) (\<lambda>m.
        case de (mem_bytes m a (unat len)) of Some v \<Rightarrow> kret v | None \<Rightarrow> kerr UserPanic))"

subsection \<open>The wrappers\<close>

definition kipc_read_task_status :: "kenv \<Rightarrow> kipc_io \<Rightarrow> nat \<Rightarrow> (TaskState, user_stop) kfun" where
  "kipc_read_task_status env io task =
     kbind (zero_buf (io_resp io) (sz_task_state io)) (\<lambda>_.
     kbind (kipc_send env io ReadTaskStatus (le_bytes (word_of_nat task))
              (io_resp io, word_of_nat (sz_task_state io))) (\<lambda>(rc, len).
     if rc \<noteq> 0 then kerr UserPanic
     else unmarshal (de_task_state io) (io_resp io) (sz_task_state io) len))"

definition kipc_get_task_dump_region ::
  "kenv \<Rightarrow> kipc_io \<Rightarrow> nat \<Rightarrow> nat \<Rightarrow> (TaskDumpRegion option, user_stop) kfun" where
  "kipc_get_task_dump_region env io task region =
     kbind (marshalled 8 (se_u32_u32 io (word_of_nat task, word_of_nat region))) (\<lambda>buf.
     kbind (zero_buf (io_resp io) (sz_dump_region io)) (\<lambda>_.
     kbind (kipc_send env io GetTaskDumpRegion buf (io_resp io, word_of_nat (sz_dump_region io))) (\<lambda>(rc, len).
     if rc \<noteq> 0 then kerr UserPanic
     else unmarshal (de_dump_region io) (io_resp io) (sz_dump_region io) len)))"

definition kipc_read_task_dump_region ::
  "kenv \<Rightarrow> kipc_io \<Rightarrow> nat \<Rightarrow> TaskDumpRegion \<Rightarrow> rust_slice \<Rightarrow> (u32, user_stop) kfun" where
  "kipc_read_task_dump_region env io task region response =
     kbind (marshalled 12 (se_u32_region io (word_of_nat task, region))) (\<lambda>buf.
     kbind (kipc_send env io ReadTaskDumpRegion buf response) (\<lambda>(rc, len).
     if rc \<noteq> 0 then kerr UserPanic else kret len))"

definition kipc_restart_task :: "kenv \<Rightarrow> kipc_io \<Rightarrow> nat \<Rightarrow> bool \<Rightarrow> (unit, user_stop) kfun" where
  "kipc_restart_task env io task start =
     kbind (marshalled 8 (se_u32_bool io (word_of_nat task, start))) (\<lambda>buf.
     kbind (kipc_send env io RestartTask buf (io_resp io, 0)) (\<lambda>(rc, len).
     if rc \<noteq> 0 then kerr UserPanic else kret ()))"

definition kipc_fault_task :: "kenv \<Rightarrow> kipc_io \<Rightarrow> nat \<Rightarrow> (unit, user_stop) kfun" where
  "kipc_fault_task env io task =
     kbind (kipc_send env io FaultTask (le_bytes (word_of_nat task)) (io_resp io, 0)) (\<lambda>(rc, len).
     if rc \<noteq> 0 then kerr UserPanic else kret ())"

definition kipc_system_restart :: "kenv \<Rightarrow> kipc_io \<Rightarrow> ('a, user_stop) kfun" where
  "kipc_system_restart env io = kbind (kipc_send env io Reset [] (io_resp io, 0)) (\<lambda>_. kerr UserPanic)"

definition kipc_read_image_id :: "kenv \<Rightarrow> kipc_io \<Rightarrow> (u64, user_stop) kfun" where
  "kipc_read_image_id env io =
     kbind (zero_buf (io_resp io) 8) (\<lambda>_.
     kbind (kipc_send env io ReadImageId [] (io_resp io, 8)) (\<lambda>(rc, len).
     if rc \<noteq> 0 \<or> len \<noteq> 8 then kerr UserPanic else unmarshal (de_u64 io) (io_resp io) 8 len))"

definition kipc_software_irq :: "kenv \<Rightarrow> kipc_io \<Rightarrow> nat \<Rightarrow> u32 \<Rightarrow> (unit, user_stop) kfun" where
  "kipc_software_irq env io task nmask =
     kbind (marshalled 8 (se_u32_u32 io (word_of_nat task, nmask))) (\<lambda>buf.
     kbind (kipc_send env io SoftwareIrq buf (io_resp io, 0)) (\<lambda>(rc, len).
     if rc \<noteq> 0 then kerr UserPanic else kret ()))"

subsection \<open>Other calls used by the supervisor\<close>

definition user_get_timer :: "kenv \<Rightarrow> (user_timer_state, user_stop) kfun" where
  "user_get_timer env = kbind (svc env sys_get_timer_regs) (\<lambda>sv. kret (sys_get_timer_result sv))"

definition user_set_timer :: "kenv \<Rightarrow> u64 option \<Rightarrow> u32 \<Rightarrow> (unit, user_stop) kfun" where
  "user_set_timer env dl notifs = kbind (svc env (sys_set_timer_regs dl notifs)) (\<lambda>_. kret ())"

definition set_timer_relative :: "kenv \<Rightarrow> u32 \<Rightarrow> u32 \<Rightarrow> (u64, user_stop) kfun" where
  "set_timer_relative env interval notifs =
     kbind (user_get_timer env) (\<lambda>ts.
     let wake = ts_now ts + ucast interval in
     kbind (user_set_timer env (Some wake) notifs) (\<lambda>_. kret wake))"

definition user_refresh_task_id :: "kenv \<Rightarrow> TaskId \<Rightarrow> (TaskId, user_stop) kfun" where
  "user_refresh_task_id env tid =
     kbind (svc env (sys_refresh_task_id_regs tid)) (\<lambda>sv. kret (sys_refresh_task_id_result sv))"

definition user_post :: "kenv \<Rightarrow> TaskId \<Rightarrow> u32 \<Rightarrow> (u32, user_stop) kfun" where
  "user_post env tid bits = kbind (svc env (sys_post_regs tid bits)) (\<lambda>sv. kret (sys_post_result sv))"

subsection \<open>A system call that keeps its caller running\<close>

lemma wp_syscall_Same:
  assumes "kinv env s"
    and "wp (dispatch env nr (current s)) (\<lambda>h s'. h = Same \<and> Q () (s'\<lparr>table_in_use := False\<rparr>))
      (\<lambda>_ _. False) (\<lambda>_. False) (s\<lparr>table_in_use := True\<rparr>)"
  shows "wp (syscall_entry env nr) Q E H s"
proof -
  note ki = kinv_parts [OF assms(1)]
  have "wp (safe_syscall_entry env nr (current s)) (\<lambda>h s'. h = Same \<and> Q () (s'\<lparr>table_in_use := False\<rparr>))
      E H (s\<lparr>table_in_use := True\<rparr>)"
    unfolding safe_syscall_entry_def wp_kmatch by (rule wp_mono [OF assms(2)]) (simp_all add: wp_kret)
  then have "wp (safe_syscall_entry env nr (current s)) (\<lambda>h. wp (case h of Same \<Rightarrow> kret () | Specific i \<Rightarrow> switch_to env i
      | Other \<Rightarrow> kbind (select (current s)) (\<lambda>next. switch_to env next)) (\<lambda>a s'. Q a (s'\<lparr>table_in_use := False\<rparr>)) E H)
      E H (s\<lparr>table_in_use := True\<rparr>)"
    by (rule wp_mono) (simp_all add: wp_kret)
  with ki show ?thesis
    by (simp add: syscall_entry_def wp_kbind wp_kget wp_get_task wp_with_task_table Let_def)
qed

lemma kinv_save:
  assumes "kinv env s"
  shows "kinv env (s\<lparr>tasks := (tasks s)[current s := (tasks s ! current s)\<lparr>save := sv\<rparr>]\<rparr>)"
  by (rule kinv_quiet_task(1) [OF assms kinv_parts(5) [OF assms]]) simp

text \<open>
  A call whose handler keeps the caller scheduled returns to it: the postcondition of the
  handler and the invariant hold, and the wrapper sees the caller's registers.
\<close>

lemma wp_svc:
  fixes env s regs
  defines "c \<equiv> current s"
  defines "s1 \<equiv> s\<lparr>tasks := (tasks s)[c := (tasks s ! c)\<lparr>save := regs (save (tasks s ! c))\<rparr>]\<rparr>"
  assumes k: "kinv env s"
    and d: "wp (dispatch env (syscall_descriptor (regs (save (tasks s ! c)))) c)
      (\<lambda>h s'. h = Same \<and> P (s'\<lparr>table_in_use := False\<rparr>)) (\<lambda>_ _. False) (\<lambda>_. False) (s1\<lparr>table_in_use := True\<rparr>)"
    and q: "\<And>s'. P s' \<Longrightarrow> kinv env s' \<Longrightarrow> current s' = c \<Longrightarrow> kframe False s s' \<Longrightarrow>
      generation (tasks s' ! c) = generation (tasks s ! c) \<and> Q (save (tasks s' ! c)) s'"
  shows "wp (svc env regs) Q E H s"
proof -
  let ?nr = "syscall_descriptor (regs (save (tasks s ! c)))"
  note ki = kinv_parts [OF k, folded c_def]
  have k1: "kinv env s1" unfolding s1_def c_def by (rule kinv_save [OF k])
  have f: "kframe False s (s'\<lparr>table_in_use := False\<rparr>)" if "kframe b (s1\<lparr>table_in_use := True\<rparr>) s'" for b s'
  proof (rule kframe_trans)
    show "kframe False s s1" unfolding s1_def using ki(5) by (intro kframe_update) simp_all
    show "kframe False s1 (s'\<lparr>table_in_use := False\<rparr>)"
      using that kinv_parts(2) [OF k1] by (simp add: kframe_def)
  qed
  have "serviced env (leases_ok s1) (dispatch env ?nr c) c (s1\<lparr>table_in_use := True\<rparr>)"
    using serviced_dispatch [of "s1\<lparr>table_in_use := True\<rparr>" c env ?nr] kinv_parts(1,3) [OF k1]
    by (simp add: s1_def c_def image_ok_def stacks_ok_def irqs_ok_def)
  from wp_conj [OF this [unfolded serviced_def] d]
  have "wp (dispatch env ?nr c) (\<lambda>h s'. h = Same \<and> (\<lambda>s'. P s' \<and> kframe False s s') (s'\<lparr>table_in_use := False\<rparr>))
      (\<lambda>_ _. False) (\<lambda>_. False) (s1\<lparr>table_in_use := True\<rparr>)"
    by (rule wp_mono) (auto simp: good_def dest: f)
  then have "wp (syscall_entry env ?nr) (\<lambda>_ s'. P s' \<and> kframe False s s') (\<lambda>_ :: UserError. \<lambda>_. False) (\<lambda>_. False) s1"
    by (intro wp_syscall_Same [OF k1]) (simp add: s1_def c_def)
  from wp_conj [OF this wp_syscall_entry [OF k1, of ?nr "\<lambda>_ _. True"]]
  have "wp (syscall_entry env ?nr) (\<lambda>_ s'. (P s' \<and> kframe False s s') \<and> kinv env s') (\<lambda>_ :: UserError. \<lambda>_. False) (\<lambda>_. False) s1"
    by (rule wp_mono) auto
  then have "wp (syscall_entry env ?nr) (\<lambda>_ s'. current s' = c \<and> c < length (tasks s')
      \<and> generation (tasks s' ! c) = generation (tasks s ! c) \<and> Q (save (tasks s' ! c)) s')
      (\<lambda>_ :: UserError. E Descheduled) H s1"
  proof (rule wp_mono)
    fix a s'
    assume p: "(P s' \<and> kframe False s s') \<and> kinv env s'"
    then have cur: "current s' = c" by (simp add: kframe_def c_def)
    with p q [of s'] kinv_parts(5) [of env s']
    show "current s' = c \<and> c < length (tasks s') \<and> generation (tasks s' ! c) = generation (tasks s ! c) \<and> Q (save (tasks s' ! c)) s'"
      by simp
  qed simp_all
  then show ?thesis
    using ki(5) by (simp add: svc_def wp_kbind wp_kget wp_modify_save wp_get_task wp_kmap_err s1_def flip: c_def)
      (erule wp_mono; auto simp: wp_simps)
qed

subsection \<open>Buffers and encodings\<close>

text \<open>
  \<open>buf_ok\<close>: the task may read and write the \<open>n\<close> bytes at \<open>a\<close>. \<open>marshal_ok\<close> is what is relied on of
  the serialisation crate: the two sides are inverse to each other, a decoder ignores bytes
  after the value, the tuple \<^verbatim>\<open>(u32, bool)\<close> takes at most eight bytes, and a response array of the
  size of a task state has room for one.
\<close>

definition buf_ok :: "Task \<Rightarrow> u32 \<Rightarrow> nat \<Rightarrow> bool" where
  "buf_ok t a n \<longleftrightarrow> unat a + n < 2 ^ 32 \<and> can_read t 1 \<lparr>slice_base = a, slice_len = word_of_nat n\<rparr>
     \<and> can_write t 1 \<lparr>slice_base = a, slice_len = word_of_nat n\<rparr>"

definition marshal_ok :: "kenv \<Rightarrow> kipc_io \<Rightarrow> bool" where
  "marshal_ok env io \<longleftrightarrow> (\<forall>w. de_u32 env (le_bytes w) = Some w)
     \<and> (\<forall>v rest. length (se_u32_bool io v) \<le> 8 \<and> de_u32_bool env (se_u32_bool io v @ rest) = Some v)
     \<and> (\<forall>st buf. length buf = sz_task_state io \<longrightarrow>
          (\<exists>sz bytes. ser env (SerTaskState st) buf = (SerOk sz, bytes) \<and> unat sz \<le> sz_task_state io
             \<and> unat sz \<le> length bytes \<and> de_task_state io (take (unat sz) bytes) = Some st))"

definition io_ok :: "kipc_io \<Rightarrow> Task \<Rightarrow> bool" where
  "io_ok io t \<longleftrightarrow> buf_ok t (io_msg io) 4 \<and> buf_ok t (io_msg io) 8 \<and> buf_ok t (io_resp io) (sz_task_state io)"

lemma byte_slice_Inr:
  "unat a + n < 2 ^ 32 \<Longrightarrow> byte_slice a (word_of_nat n) = Inr \<lparr>slice_base = a, slice_len = word_of_nat n\<rparr>"
  by (subst from_raw_iff) (auto simp: slice_ok_def unat_of_nat)

lemma io_ok_cong:
  assumes "same_task t t'"
  shows "io_ok io t' = io_ok io t"
  using assms
  by (simp add: io_ok_def buf_ok_def can_read_def can_write_def task_can_access_def region_table_def same_task_def)

lemma wp_dispatch_kernel:
  assumes "c < length (tasks s)" and "send_callee (as_send_args (save (tasks s ! c))) = KERNEL"
    and "nr = sysnum_code Send"
  shows "wp (dispatch env nr c) Q E H s = wp (handle_kernel_message env c) Q E H s"
  using assms by (simp add: dispatch_def sysnum_try_from_def send_def wp_kbind wp_get_task Let_def)

lemma kipcnum_roundtrip [simp]: "kipcnum_try_from (kipcnum_code n) = Some n"
  by (cases n) (simp_all add: kipcnum_try_from_def)

lemma sent_args [simp]:
  "as_send_args (sys_send_regs tid oper out inc leases sv) =
     \<lparr>send_callee = tid, send_operation = oper, send_message = byte_slice (fst out) (snd out),
      send_response = byte_slice (fst inc) (snd inc), send_lease_table = lease_slice (fst leases) (snd leases)\<rparr>"
  "syscall_descriptor (sys_send_regs tid oper out inc leases sv) = sysnum_code Send"
  by (simp_all add: sys_send_regs_def as_send_args_def reg_defs)

text \<open>The state in which the kernel handles a request, and what the wrapper gets back.\<close>

definition sent :: "kipc_io \<Rightarrow> Kipcnum \<Rightarrow> u8 list \<Rightarrow> rust_slice \<Rightarrow> kstate \<Rightarrow> kstate" where
  "sent io oper msg resp s = s\<lparr>mem := mem_write (mem s) (io_msg io) msg,
     tasks := (tasks s)[current s := (tasks s ! current s)\<lparr>save := sys_send_regs KERNEL (kipcnum_code oper)
       (io_msg io, word_of_nat (length msg)) resp (io_none io, 0) (save (tasks s ! current s))\<rparr>],
     table_in_use := True\<rparr>"

lemma wp_kipc_send:
  assumes k: "kinv env s"
    and h: "wp (handle_kernel_message env (current s)) (\<lambda>h s'. h = Same \<and> P (s'\<lparr>table_in_use := False\<rparr>))
      (\<lambda>_ _. False) (\<lambda>_. False) (sent io oper msg resp s)"
    and q: "\<And>s'. P s' \<Longrightarrow> kinv env s' \<Longrightarrow> current s' = current s \<Longrightarrow> kframe False s s' \<Longrightarrow>
      generation (tasks s' ! current s) = generation (tasks s ! current s) \<and> Q (rc_len (save (tasks s' ! current s))) s'"
  shows "wp (kipc_send env io oper msg resp) Q E H s"
proof -
  let ?regs = "sys_send_regs KERNEL (kipcnum_code oper) (io_msg io, word_of_nat (length msg)) resp (io_none io, 0)"
  let ?s = "s\<lparr>mem := mem_write (mem s) (io_msg io) msg\<rparr>"
  have k1: "kinv env ?s" using k by simp
  have fr: "kframe False s s' = kframe False ?s s'" for s' by (simp add: kframe_def)
  have "wp (svc env ?regs) (\<lambda>sv s'. Q (rc_len sv) s') E H ?s"
  proof (rule wp_svc [OF k1, of ?regs P])
    show "wp (dispatch env (syscall_descriptor (?regs (save (tasks ?s ! current ?s)))) (current ?s))
      (\<lambda>h s'. h = Same \<and> P (s'\<lparr>table_in_use := False\<rparr>)) (\<lambda>_ _. False) (\<lambda>_. False)
      (?s\<lparr>tasks := (tasks ?s)[current ?s := (tasks ?s ! current ?s)\<lparr>save := ?regs (save (tasks ?s ! current ?s))\<rparr>]\<rparr>
        \<lparr>table_in_use := True\<rparr>)"
      using h kinv_parts(5) [OF k] by (subst wp_dispatch_kernel) (simp_all add: sent_def)
  qed (use q fr in auto)
  then show ?thesis by (simp add: kipc_send_def wp_kbind wp_kmodify wp_kret)
qed

lemma sent_facts:
  assumes "kinv env s"
  shows "pre (sent io oper msg resp s) (current s)" "image_ok env (sent io oper msg resp s)"
    "length (tasks (sent io oper msg resp s)) = length (tasks s)"
    "same_task (tasks s ! current s) (tasks (sent io oper msg resp s) ! current s)"
proof -
  let ?s = "s\<lparr>mem := mem_write (mem s) (io_msg io) msg\<rparr>"
  have "kinv env ?s" using assms by simp
  note kinv_save [OF this, of "sys_send_regs KERNEL (kipcnum_code oper)
       (io_msg io, word_of_nat (length msg)) resp (io_none io, 0) (save (tasks s ! current s))"]
  from kinv_parts(1,3) [OF this]
  show "pre (sent io oper msg resp s) (current s)" "image_ok env (sent io oper msg resp s)"
    by (simp_all add: sent_def)
qed (use kinv_parts(5) [OF assms] in \<open>simp_all add: sent_def\<close>)

lemma sent_message:
  "length msg \<le> 2 ^ 32 \<Longrightarrow> mem_bytes (mem (sent io oper msg resp s)) (io_msg io) (length msg) = msg"
  by (simp add: sent_def mem_bytes_write)

lemma io_okD:
  assumes "io_ok io t" and "n \<in> {4, 8}"
  shows "byte_slice (io_msg io) (word_of_nat n) = Inr \<lparr>slice_base = io_msg io, slice_len = word_of_nat n\<rparr>"
    "can_read t 1 \<lparr>slice_base = io_msg io, slice_len = word_of_nat n\<rparr>"
  using assms by (auto simp: io_ok_def buf_ok_def intro!: byte_slice_Inr simp del: of_nat_numeral)

subsection \<open>What the wrappers achieve\<close>

lemma kinv_index:
  assumes "kinv env s" and "i < length (tasks s)"
  shows "unat (word_of_nat i :: u32) = i"
  using assms by (simp add: kinv_def pre_def tinv_def unat_of_nat)

lemma sent_can_read:
  assumes "kinv env s" and "io_ok io (tasks s ! current s)" and "n \<in> {4, 8}"
  shows "can_read (tasks (sent io oper msg resp s) ! current s) 1 \<lparr>slice_base = io_msg io, slice_len = word_of_nat n\<rparr>"
  using io_ok_cong [OF sent_facts(4) [OF assms(1)]] assms(2,3) by (intro io_okD(2)) simp_all

lemma sent_save:
  assumes "kinv env s"
  shows "save (tasks (sent io oper msg resp s) ! current s) = sys_send_regs KERNEL (kipcnum_code oper)
    (io_msg io, word_of_nat (length msg)) resp (io_none io, 0) (save (tasks s ! current s))"
  using kinv_parts(5) [OF assms] by (simp add: sent_def)

lemma kipc_restart_spec:
  fixes env s
  defines "c \<equiv> current s"
  assumes k: "kinv env s" and m: "marshal_ok env io" and b: "io_ok io (tasks s ! c)"
    and i: "i < length (tasks s)" "i \<noteq> c"
  shows "wp (kipc_restart_task env io i start) (\<lambda>_ s'. kinv env s' \<and> current s' = c \<and> kframe False s s'
      \<and> (\<exists>sv sv'. tasks s' = restarted ((tasks s)[c := (tasks s ! c)\<lparr>save := sv'\<rparr>]) c i start sv)) E H s"
proof -
  let ?se = "se_u32_bool io (word_of_nat i, start)"
  define msg where "msg = ?se @ replicate (8 - length ?se) 0"
  let ?m = "\<lparr>slice_base = io_msg io, slice_len = word_of_nat 8\<rparr>"
  let ?s1 = "sent io RestartTask msg (io_resp io, 0) s"
  let ?P = "\<lambda>s'. \<exists>sv. tasks s' = restarted (tasks ?s1) c i start sv"
  note sf = sent_facts [OF k, of io RestartTask msg "(io_resp io, 0)", folded c_def]
  have cl: "c < length (tasks s)" using kinv_parts(5) [OF k] by (simp add: c_def)
  have se: "length ?se \<le> 8" and de: "de_u32_bool env msg = Some (word_of_nat i, start)"
    using m by (auto simp: marshal_ok_def msg_def)
  have len: "length msg = 8" using se by (simp add: msg_def)
  have idx: "unat (word_of_nat i :: u32) = i" by (rule kinv_index [OF k i(1)])
  have "unat (word_of_nat 8 :: u32) = 8" by simp
  then have "\<exists>s' sv. restart_task env c ?m ?s1 = Ok Same s' \<and> tasks s' = restarted (tasks ?s1) c i start sv"
    using restart_result [OF sf(1), of env ?m "word_of_nat i" start] sent_message [of msg io RestartTask "(io_resp io, 0)" s]
      sent_can_read [OF k, of io 8 RestartTask msg "(io_resp io, 0)", folded c_def] sf i b idx len de
    by (simp add: image_ok_def del: of_nat_numeral)
  then have "wp (restart_task env c ?m) (\<lambda>h s'. h = Same \<and> ?P (s'\<lparr>table_in_use := False\<rparr>)) (\<lambda>_ _. False) (\<lambda>_. False) ?s1"
    by (auto simp: wp_def)
  then have h: "wp (handle_kernel_message env c) (\<lambda>h s'. h = Same \<and> ?P (s'\<lparr>table_in_use := False\<rparr>)) (\<lambda>_ _. False) (\<lambda>_. False) ?s1"
    using sf cl sent_save [OF k, of io RestartTask msg "(io_resp io, 0)", folded c_def] io_okD(1) [OF b, of 8] len
    by (simp add: handle_kernel_message_def wp_kbind wp_get_task wp_klift Let_def kipcnum_try_from_def del: of_nat_numeral)
  have ts: "tasks ?s1 = (tasks s)[c := (tasks s ! c)\<lparr>save := save (tasks ?s1 ! c)\<rparr>]"
    using cl by (simp add: sent_def c_def)
  have "wp (kipc_send env io RestartTask msg (io_resp io, 0)) (\<lambda>r s'. r = (0, 0) \<and> kinv env s' \<and> current s' = c \<and> kframe False s s'
      \<and> (\<exists>sv sv'. tasks s' = restarted ((tasks s)[c := (tasks s ! c)\<lparr>save := sv'\<rparr>]) c i start sv)) E H s"
  proof (rule wp_kipc_send [OF k h [unfolded c_def]], goal_cases)
    case (1 s')
    then obtain sv where t: "tasks s' = restarted (tasks ?s1) c i start sv" by (auto simp: c_def)
    have "tasks s' ! c = (tasks ?s1 ! c)\<lparr>save := set_send_response_and_length 0 0 (save (tasks ?s1 ! c))\<rparr>"
      unfolding t using nth_restarted [of i "tasks ?s1" c c start sv] sf(3) cl i by simp
    moreover have "generation (tasks ?s1 ! c) = generation (tasks s ! c)" by (subst ts) (simp add: cl)
    moreover have "tasks s' = restarted ((tasks s)[c := (tasks s ! c)\<lparr>save := save (tasks ?s1 ! c)\<rparr>]) c i start sv"
      unfolding t by (rule arg_cong [OF ts, of "\<lambda>ts. restarted ts c i start sv"])
    ultimately show ?case
      using 1(2-4) by (auto simp: rc_len_def result_defs reg_defs c_def)
  qed
  then show ?thesis
    using se by (simp add: kipc_restart_task_def marshalled_def wp_kbind wp_kret flip: msg_def)
      (erule wp_mono; auto simp: wp_kret)
qed

lemma mem_bytes_write_take:
  "k \<le> length bs \<Longrightarrow> length bs \<le> 2 ^ 32 \<Longrightarrow> mem_bytes (mem_write m base bs) base k = take k bs"
  by (intro nth_equalityI) (simp_all add: mem_bytes_def mem_write_def unat_word_of_nat_small)

lemma read_task_status_result:
  assumes m: "marshal_ok env io" and c: "c < length (tasks s)" and i: "unat w < length (tasks s)"
    and msg: "can_read (tasks s ! c) 1 msg" "de_u32 env (mem_bytes (mem s) (slice_base msg) (unat (slice_len msg))) = Some w"
    and r: "buf_ok (tasks s ! c) a (sz_task_state io)"
  shows "wp (read_task_status env c msg \<lparr>slice_base = a, slice_len = word_of_nat (sz_task_state io)\<rparr>)
    (\<lambda>h s'. h = Same \<and> (\<exists>sz. tasks s' = (tasks s)[c := (tasks s ! c)\<lparr>save := set_send_response_and_length 0 sz (save (tasks s ! c))\<rparr>]
      \<and> unat sz \<le> sz_task_state io \<and> de_task_state io (mem_bytes (mem s') a (unat sz)) = Some (state (tasks s ! unat w)))) E H s"
proof -
  let ?n = "sz_task_state io" and ?st = "state (tasks s ! unat w)"
  have n: "unat (word_of_nat ?n :: u32) = ?n" "?n < 2 ^ 32" using r by (simp_all add: buf_ok_def unat_of_nat)
  have "length (mem_bytes (mem s) a ?n) = ?n" by (simp add: mem_bytes_def)
  then obtain sz bytes where ser: "ser env (SerTaskState ?st) (mem_bytes (mem s) a ?n) = (SerOk sz, bytes)"
    and sz: "unat sz \<le> ?n" "unat sz \<le> length bytes" and de: "de_task_state io (take (unat sz) bytes) = Some ?st"
    using m unfolding marshal_ok_def by blast
  have "mem_bytes (mem_write (mem s) a (take ?n bytes)) a (unat sz) = take (unat sz) bytes"
    using sz n by (subst mem_bytes_write_take) (auto simp: min_def)
  with c i msg r ser de sz n show ?thesis
    by (simp add: read_task_status_def serialize_response_def wp_simps wp_deserialize_ok try_write_def buf_ok_def Let_def)
      (intro exI [of _ sz], simp)
qed

lemma kipc_read_task_status_spec:
  fixes env s
  defines "c \<equiv> current s"
  assumes k: "kinv env s" and m: "marshal_ok env io" and b: "io_ok io (tasks s ! c)" and i: "i < length (tasks s)"
  shows "wp (kipc_read_task_status env io i) (\<lambda>st s'. st = state (tasks s ! i) \<and> kinv env s' \<and> current s' = c \<and> kframe False s s'
      \<and> (\<exists>sv. tasks s' = (tasks s)[c := (tasks s ! c)\<lparr>save := sv\<rparr>])) E H s"
proof -
  let ?n = "sz_task_state io" and ?w = "word_of_nat i :: u32"
  define s0 where "s0 = s\<lparr>mem := mem_write (mem s) (io_resp io) (replicate ?n 0)\<rparr>"
  let ?resp = "(io_resp io, word_of_nat ?n)" and ?msg = "le_bytes ?w"
  let ?s1 = "sent io ReadTaskStatus ?msg ?resp s0"
  let ?P = "\<lambda>s'. \<exists>sz. tasks s' = (tasks ?s1)[c := (tasks ?s1 ! c)\<lparr>save := set_send_response_and_length 0 sz (save (tasks ?s1 ! c))\<rparr>]
      \<and> unat sz \<le> ?n \<and> de_task_state io (mem_bytes (mem s') (io_resp io) (unat sz)) = Some (state (tasks s ! i))"
  have k0: "kinv env s0" and s0: "tasks s0 = tasks s" "current s0 = c" using k by (simp_all add: s0_def c_def)
  have cl: "c < length (tasks s)" using kinv_parts(5) [OF k] by (simp add: c_def)
  note sf = sent_facts [OF k0, of io ReadTaskStatus ?msg ?resp, unfolded s0]
  have ts: "tasks ?s1 = (tasks s)[c := (tasks s ! c)\<lparr>save := save (tasks ?s1 ! c)\<rparr>]"
    using cl by (simp add: sent_def s0)
  have st: "state (tasks ?s1 ! i) = state (tasks s ! i)" by (subst ts) (use i cl in \<open>simp add: nth_list_update\<close>)
  have idx: "unat ?w = i" by (rule kinv_index [OF k i])
  have io1: "io_ok io (tasks ?s1 ! c)" using io_ok_cong [OF sf(4)] b by simp
  have len: "length ?msg = 4" by (simp add: le_bytes_def)
  have de: "de_u32 env (mem_bytes (mem ?s1) (io_msg io) 4) = Some ?w"
    using sent_message [of ?msg io ReadTaskStatus ?resp s0] m by (simp add: len marshal_ok_def)
  let ?m = "\<lparr>slice_base = io_msg io, slice_len = word_of_nat 4\<rparr>" and ?r = "\<lparr>slice_base = io_resp io, slice_len = word_of_nat ?n\<rparr>"
  have "wp (read_task_status env c ?m ?r) (\<lambda>h s'. h = Same \<and> ?P s') (\<lambda>_ _. False) (\<lambda>_. False) ?s1"
    using read_task_status_result [OF m, of c ?s1 ?w ?m "io_resp io" "\<lambda>_ _. False" "\<lambda>_. False"]
      sent_can_read [OF k0, of io 4 ReadTaskStatus ?msg ?resp] io1 sf(3) cl i b idx de st
    by (simp add: s0 io_ok_def)
  then have h: "wp (handle_kernel_message env (current s0)) (\<lambda>h s'. h = Same \<and> ?P (s'\<lparr>table_in_use := False\<rparr>)) (\<lambda>_ _. False) (\<lambda>_. False) ?s1"
    using sf cl sent_save [OF k0, of io ReadTaskStatus ?msg ?resp] io_okD(1) [OF b, of 4] b
      byte_slice_Inr [of "io_resp io" ?n]
    by (simp add: handle_kernel_message_def wp_kbind wp_get_task wp_klift Let_def kipcnum_try_from_def s0 len io_ok_def buf_ok_def)
  have "wp (kipc_send env io ReadTaskStatus ?msg ?resp) (\<lambda>r s'. fst r = 0 \<and> unat (snd r) \<le> ?n
      \<and> de_task_state io (mem_bytes (mem s') (io_resp io) (unat (snd r))) = Some (state (tasks s ! i))
      \<and> kinv env s' \<and> current s' = c \<and> kframe False s s' \<and> (\<exists>sv. tasks s' = (tasks s)[c := (tasks s ! c)\<lparr>save := sv\<rparr>])) E H s0"
  proof (rule wp_kipc_send [OF k0 h], goal_cases)
    case (1 s')
    have fr: "kframe False s s'" using 1(4) by (simp add: kframe_def s0_def)
    from 1(1) obtain sz where t: "tasks s' = (tasks ?s1)[c := (tasks ?s1 ! c)\<lparr>save := set_send_response_and_length 0 sz (save (tasks ?s1 ! c))\<rparr>]"
      and sz: "unat sz \<le> ?n" "de_task_state io (mem_bytes (mem s') (io_resp io) (unat sz)) = Some (state (tasks s ! i))" by blast
    define sv where "sv = set_send_response_and_length 0 sz (save (tasks ?s1 ! c))"
    have "tasks s' = (tasks s)[c := (tasks s ! c)\<lparr>save := sv\<rparr>]"
      unfolding t sv_def [symmetric] by (subst (1 2) ts) (simp add: cl)
    moreover have "rc_len sv = (0, sz)" by (simp add: sv_def rc_len_def result_defs reg_defs)
    ultimately show ?case using 1(2,3) fr sz cl by (auto simp: s0)
  qed
  then show ?thesis
    by (simp add: kipc_read_task_status_def zero_buf_def wp_kbind wp_kmodify flip: s0_def)
      (erule wp_mono; auto simp: wp_simps unmarshal_def)
qed

lemma kipc_fault_spec:
  fixes env s
  defines "c \<equiv> current s"
  assumes k: "kinv env s" and m: "marshal_ok env io" and b: "io_ok io (tasks s ! c)"
    and i: "i < length (tasks s)" "i \<noteq> c" "i \<noteq> 0"
  shows "wp (kipc_fault_task env io i) (\<lambda>_ s'. kinv env s' \<and> current s' = c \<and> kframe False s s'
      \<and> (\<exists>f sc. state (tasks s' ! i) = Faulted f sc) \<and> generation (tasks s' ! i) = generation (tasks s ! i)
      \<and> (\<forall>j < length (tasks s). j \<noteq> i \<longrightarrow> quiet (tasks s ! j) (tasks s' ! j))) E H s"
proof -
  let ?w = "word_of_nat i :: u32"
  let ?msg = "le_bytes ?w" and ?resp = "(io_resp io, 0 :: u32)"
  let ?s1 = "sent io FaultTask ?msg ?resp s"
  let ?m = "\<lparr>slice_base = io_msg io, slice_len = word_of_nat 4\<rparr>"
  let ?P = "\<lambda>s'. (\<exists>f sc. state (tasks s' ! i) = Faulted f sc) \<and> generation (tasks s' ! i) = generation (tasks s ! i)
      \<and> (\<forall>j < length (tasks s). j \<noteq> i \<longrightarrow> quiet (tasks ?s1 ! j) (tasks s' ! j)) \<and> rc_len (save (tasks s' ! c)) = (0, 0)"
  note sf = sent_facts [OF k, of io FaultTask ?msg ?resp, folded c_def]
  have cl: "c < length (tasks s)" using kinv_parts(5) [OF k] by (simp add: c_def)
  have q1: "quiet (tasks s ! j) (tasks ?s1 ! j)" if "j < length (tasks s)" for j
    using that cl by (simp add: sent_def c_def nth_list_update)
  have g1: "generation (tasks ?s1 ! i) = generation (tasks s ! i)" using q1 [OF i(1)] by (simp add: quiet_def)
  have idx: "unat ?w = i" by (rule kinv_index [OF k i(1)])
  have len: "length ?msg = 4" by (simp add: le_bytes_def)
  have de: "de_u32 env (mem_bytes (mem ?s1) (io_msg io) 4) = Some ?w"
    using sent_message [of ?msg io FaultTask ?resp s] m by (simp add: len marshal_ok_def)
  have ff: "wp (force_fault i f) (\<lambda>h s'. wp (modify_save c (set_send_response_and_length 0 0))
      (\<lambda>_. ?P) E' H' s') E' H' ?s1" for f and E' :: "UserError \<Rightarrow> kstate \<Rightarrow> bool" and H'
  proof (rule wp_force_fault)
    show "tinv (tasks ?s1)" "i < length (tasks ?s1)" using sf i by (simp_all add: pre_def)
    fix h s' assume a: "ff_post ?s1 i h s'"
    then have l: "length (tasks s') = length (tasks s)" using sf(3) by (simp add: ff_post_def kframe_def)
    have "quiet (tasks ?s1 ! j) ((tasks s' ! j)\<lparr>save := sv\<rparr>)" if "j < length (tasks s)" "j \<noteq> i" for j sv
      using a that sf(3) by (intro quiet_trans [OF _ quiet_save]) (simp add: ff_post_def)
    with a l cl i(1,2) g1 sf(3) show "wp (modify_save c (set_send_response_and_length 0 0)) (\<lambda>_. ?P) E' H' s'"
      by (auto simp: ff_post_def wp_modify_save nth_list_update rc_len_def result_defs reg_defs)
  qed
  have "wp (fault_task env c ?m) (\<lambda>h s'. h = Same \<and> ?P s') (\<lambda>_ _. False) (\<lambda>_. False) ?s1"
    using sf(3) cl i idx de sent_can_read [OF k, of io 4 FaultTask ?msg ?resp, folded c_def] b ff
    by (simp add: fault_task_def wp_kbind wp_get_task wp_deserialize_ok wp_kget wp_current_id wp_kret Let_def)
  then have h: "wp (handle_kernel_message env c) (\<lambda>h s'. h = Same \<and> ?P (s'\<lparr>table_in_use := False\<rparr>)) (\<lambda>_ _. False) (\<lambda>_. False) ?s1"
    using sf cl sent_save [OF k, of io FaultTask ?msg ?resp, folded c_def] io_okD(1) [OF b, of 4]
    by (simp add: handle_kernel_message_def wp_kbind wp_get_task wp_klift Let_def kipcnum_try_from_def len)
  have "wp (kipc_send env io FaultTask ?msg ?resp) (\<lambda>r s'. r = (0, 0) \<and> kinv env s' \<and> current s' = c \<and> kframe False s s'
      \<and> (\<exists>f sc. state (tasks s' ! i) = Faulted f sc) \<and> generation (tasks s' ! i) = generation (tasks s ! i)
      \<and> (\<forall>j < length (tasks s). j \<noteq> i \<longrightarrow> quiet (tasks s ! j) (tasks s' ! j))) E H s"
  proof (rule wp_kipc_send [OF k h [unfolded c_def]], goal_cases)
    case (1 s')
    then have q: "quiet (tasks s ! j) (tasks s' ! j)" if "j < length (tasks s)" "j \<noteq> i" for j
      using that by (intro quiet_trans [OF q1]) auto
    from q [OF cl] i(2) have "generation (tasks s' ! c) = generation (tasks s ! c)" by (auto simp: quiet_def)
    with 1 q show ?case by (auto simp: c_def)
  qed
  then show ?thesis
    by (simp add: kipc_fault_task_def wp_kbind) (erule wp_mono; auto simp: wp_kret)
qed

end
