(* ===== verification/Task_Jefe.thy ===== *)
theory Task_Jefe
  imports User_Kipc
begin

section \<open>The supervisor\<close>

text \<open>
  The task \<^verbatim>\<open>task/jefe\<close> (\<^verbatim>\<open>main.rs\<close>, \<^verbatim>\<open>external.rs\<close>), run against the kernel: its requests to the
  kernel are the wrappers of \<open>User_Kipc\<close>, which execute the kernel model. What the build
  generates (the notification masks, the tasks to hold, the mailing list) is the record
  \<open>jefe_config\<close>. Trace entries in ring buffers and the feature \<^verbatim>\<open>dump\<close> are left out; a counter of
  the debugger interface is a word that wraps.
\<close>

datatype Disposition = Restart | Hold

record TaskStatus =
  disposition :: Disposition
  holding_fault :: bool

datatype ResetReason = PowerOn | Pin | SystemCall | Brownout | SystemWatchdog | IndependentWatchdog
  | LowPowerSecurity | ExitStandby | OtherReason u32 | Unknown

record jefe_config =
  FAULT_MASK :: u32
  TIMER_MASK :: u32
  HELD_TASKS :: "nat list"
  MAILING_LIST :: "(nat \<times> u32) list"

record jefe =
  jefe_state :: u32
  task_states :: "TaskStatus list"
  jefe_deadline :: u64
  reset_reason :: ResetReason
  EXTERNAL_READY :: u32
  EXTERNAL_REQUEST :: u32
  EXTERNAL_TASKINDEX :: u32
  EXTERNAL_KICK :: u32
  EXTERNAL_REQUESTS :: u32
  EXTERNAL_ERRORS :: u32

definition TIMER_INTERVAL :: u32 where "TIMER_INTERVAL = 100"

definition task_status_default :: TaskStatus where
  "task_status_default = \<lparr>disposition = Restart, holding_fault = False\<rparr>"

definition set_disposition :: "nat \<Rightarrow> Disposition \<Rightarrow> TaskStatus list \<Rightarrow> TaskStatus list" where
  "set_disposition i d sts = sts[i := (sts ! i)\<lparr>disposition := d\<rparr>]"

text \<open>\<^verbatim>\<open>main\<close> up to its loop; an index of a held task outside the table panics.\<close>

definition jefe_init :: "kenv \<Rightarrow> jefe_config \<Rightarrow> nat \<Rightarrow> (jefe, user_stop) kfun" where
  "jefe_init env cfg num_tasks =
     (if \<exists>h \<in> set (HELD_TASKS cfg). num_tasks \<le> h then kerr UserPanic
      else kbind (set_timer_relative env TIMER_INTERVAL (TIMER_MASK cfg)) (\<lambda>dl.
        kret \<lparr>jefe_state = 0,
          task_states = fold (\<lambda>h. set_disposition h Hold) (HELD_TASKS cfg) (replicate num_tasks task_status_default),
          jefe_deadline = dl, reset_reason = Unknown, EXTERNAL_READY = 1, EXTERNAL_REQUEST = 0,
          EXTERNAL_TASKINDEX = 0, EXTERNAL_KICK = 0, EXTERNAL_REQUESTS = 0, EXTERNAL_ERRORS = 0\<rparr>))"

subsection \<open>Requests of a debugger\<close>

datatype Request = ReqNone | ReqStart | ReqHold | ReqRelease | ReqFault

datatype jefe_error = IllegalTaskReq | BadTask | BadRequest

definition request_from_u32 :: "u32 \<Rightarrow> Request option" where
  "request_from_u32 x =
     (if x = 0 then Some ReqNone else if x = 1 then Some ReqStart else if x = 2 then Some ReqHold
      else if x = 3 then Some ReqRelease else if x = 4 then Some ReqFault else None)"

definition run_request :: "kenv \<Rightarrow> kipc_io \<Rightarrow> Request \<Rightarrow> nat \<Rightarrow> TaskStatus list \<Rightarrow> (TaskStatus list, user_stop) kfun" where
  "run_request env io request ndx states =
     (case request of
        ReqNone \<Rightarrow> kret states
      | ReqHold \<Rightarrow> kret (set_disposition ndx Hold states)
      | ReqStart \<Rightarrow> kbind (kipc_restart_task env io ndx True) (\<lambda>_. kret states)
      | ReqRelease \<Rightarrow>
          let states = set_disposition ndx Restart states in
          if holding_fault (states ! ndx) then
            let states = states[ndx := (states ! ndx)\<lparr>holding_fault := False\<rparr>] in
            kbind (kipc_restart_task env io ndx True) (\<lambda>_. kret states)
          else kret states
      | ReqFault \<Rightarrow>
          let states = set_disposition ndx Hold states in
          kbind (kipc_fault_task env io ndx) (\<lambda>_. kret states))"

definition check_inner :: "kenv \<Rightarrow> kipc_io \<Rightarrow> jefe \<Rightarrow> (jefe \<times> (jefe_error + bool), user_stop) kfun" where
  "check_inner env io j =
     (let kick = EXTERNAL_KICK j; j = j\<lparr>EXTERNAL_KICK := 0\<rparr> in
      if kick = 0 then kret (j, Inr False)
      else case request_from_u32 (EXTERNAL_REQUEST j) of
          None \<Rightarrow> kret (j, Inl BadRequest)
        | Some request \<Rightarrow>
            let ndx = unat (EXTERNAL_TASKINDEX j) in
            if ndx = 0 then kret (j, Inl IllegalTaskReq)
            else if length (task_states j) \<le> ndx then kret (j, Inl BadTask)
            else kbind (run_request env io request ndx (task_states j)) (\<lambda>states.
              kret (j\<lparr>task_states := states\<rparr>, Inr True)))"

definition jefe_check :: "kenv \<Rightarrow> kipc_io \<Rightarrow> jefe \<Rightarrow> (jefe, user_stop) kfun" where
  "jefe_check env io j =
     kbind (check_inner env io j) (\<lambda>(j, r).
     case r of
       Inr True \<Rightarrow> kret (j\<lparr>EXTERNAL_REQUESTS := EXTERNAL_REQUESTS j + 1\<rparr>)
     | Inr False \<Rightarrow> kret j
     | Inl e \<Rightarrow> kret (j\<lparr>EXTERNAL_ERRORS := EXTERNAL_ERRORS j + 1\<rparr>))"

subsection \<open>Notifications\<close>

text \<open>The pass over the tasks that looks for faults, from index \<open>i\<close> on.\<close>

fun fault_pass :: "(nat \<Rightarrow> (TaskState, user_stop) kfun) \<Rightarrow> (nat \<Rightarrow> bool \<Rightarrow> (unit, user_stop) kfun)
    \<Rightarrow> nat \<Rightarrow> TaskStatus list \<Rightarrow> (TaskStatus list, user_stop) kfun" where
  "fault_pass read_status restart i [] = kret []"
| "fault_pass read_status restart i (status # rest) =
     kbind (if holding_fault status then kret status
            else kbind (read_status i) (\<lambda>st.
              case st of
                Faulted _ _ \<Rightarrow>
                  if disposition status = Restart
                  then kbind (restart i True) (\<lambda>_. kret status)
                  else kret (status\<lparr>holding_fault := True\<rparr>)
              | Healthy _ \<Rightarrow> kret status)) (\<lambda>status'.
     kbind (fault_pass read_status restart (Suc i) rest) (\<lambda>rest'.
     kret (status' # rest')))"

text \<open>The part of the handler that sets the supervisor's timer again.\<close>

definition rearm :: "kenv \<Rightarrow> jefe_config \<Rightarrow> u32 \<Rightarrow> jefe \<Rightarrow> (jefe, user_stop) kfun" where
  "rearm env cfg bits j =
     (if bits AND TIMER_MASK cfg \<noteq> 0 then
        kbind (user_get_timer env) (\<lambda>ts.
        if jefe_deadline j \<le> ts_now ts then
          kbind (set_timer_relative env TIMER_INTERVAL (TIMER_MASK cfg)) (\<lambda>dl. kret (j\<lparr>jefe_deadline := dl\<rparr>))
        else kret j)
      else kret j)"

definition jefe_handle_notification :: "kenv \<Rightarrow> jefe_config \<Rightarrow> kipc_io \<Rightarrow> u32 \<Rightarrow> jefe \<Rightarrow> (jefe, user_stop) kfun" where
  "jefe_handle_notification env cfg io bits j =
     kbind (jefe_check env io j) (\<lambda>j.
     kbind (rearm env cfg bits j) (\<lambda>j.
     if bits AND FAULT_MASK cfg \<noteq> 0 then
       kbind (fault_pass (kipc_read_task_status env io) (kipc_restart_task env io) 0 (task_states j)) (\<lambda>sts.
       kret (j\<lparr>task_states := sts\<rparr>))
     else kret j))"

subsection \<open>Messages\<close>

definition jefe_request_reset :: "kenv \<Rightarrow> kipc_io \<Rightarrow> jefe \<Rightarrow> (jefe, user_stop) kfun" where
  "jefe_request_reset env io j = kipc_system_restart env io"

definition get_reset_reason :: "jefe \<Rightarrow> ResetReason" where
  "get_reset_reason j = reset_reason j"

definition set_reset_reason :: "ResetReason \<Rightarrow> jefe \<Rightarrow> jefe" where
  "set_reset_reason reason j = j\<lparr>reset_reason := reason\<rparr>"

definition jefe_get_state :: "jefe \<Rightarrow> u32" where
  "jefe_get_state j = jefe_state j"

fun post_all :: "kenv \<Rightarrow> (nat \<times> u32) list \<Rightarrow> (unit, user_stop) kfun" where
  "post_all env [] = kret ()"
| "post_all env ((task, bits) # rest) =
     kbind (user_refresh_task_id env (for_index_and_gen task (Generation 0))) (\<lambda>taskid.
     kbind (user_post env taskid bits) (\<lambda>_. post_all env rest))"

definition jefe_set_state :: "kenv \<Rightarrow> jefe_config \<Rightarrow> u32 \<Rightarrow> jefe \<Rightarrow> (jefe, user_stop) kfun" where
  "jefe_set_state env cfg st j =
     (if jefe_state j \<noteq> st
      then kbind (post_all env (MAILING_LIST cfg)) (\<lambda>_. kret (j\<lparr>jefe_state := st\<rparr>))
      else kret j)"

definition restart_me_raw :: "kenv \<Rightarrow> kipc_io \<Rightarrow> TaskId \<Rightarrow> jefe \<Rightarrow> (jefe, user_stop) kfun" where
  "restart_me_raw env io sender j = kbind (kipc_restart_task env io (tid_index sender) True) (\<lambda>_. kret j)"

subsection \<open>Supervision\<close>

text \<open>
  What a pass over the tasks does to a task: \<open>released\<close> says that it keeps its generation and its
  state, or is unblocked; \<open>recovered\<close> that it is released, or, if it is faulted and to be
  restarted, runs as the next generation. \<open>noted\<close> is the supervisor's record of the task afterwards.
\<close>

definition faulted :: "Task \<Rightarrow> bool" where
  "faulted t = (case state t of Faulted _ _ \<Rightarrow> True | Healthy _ \<Rightarrow> False)"

definition released :: "Task \<Rightarrow> Task \<Rightarrow> bool" where
  "released t t' \<longleftrightarrow> task_generation t' = task_generation t
     \<and> (state t' = state t \<or> \<not> faulted t \<and> state t' = Healthy Runnable)"

definition to_restart :: "TaskStatus \<Rightarrow> Task \<Rightarrow> bool" where
  "to_restart st t \<longleftrightarrow> faulted t \<and> \<not> holding_fault st \<and> disposition st = Restart"

definition recovered :: "TaskStatus \<Rightarrow> Task \<Rightarrow> Task \<Rightarrow> bool" where
  "recovered st t t' = (if to_restart st t
     then state t' = Healthy Runnable \<and> task_generation t' = gen_next (task_generation t) else released t t')"

definition noted :: "TaskStatus \<Rightarrow> Task \<Rightarrow> TaskStatus" where
  "noted st t = (if faulted t \<and> \<not> holding_fault st \<and> disposition st \<noteq> Restart then st\<lparr>holding_fault := True\<rparr> else st)"

lemma released_refl [simp]: "released t t"
  by (simp add: released_def)

lemma released_faulted: "released t t' \<Longrightarrow> faulted t' = faulted t"
  by (auto simp: released_def faulted_def split: TaskState.splits)

lemma released_trans: "released t t' \<Longrightarrow> released t' t'' \<Longrightarrow> released t t''"
  using released_faulted [of t t'] by (auto simp: released_def)

lemma released_same: "state t' = state t \<Longrightarrow> task_generation t' = task_generation t \<Longrightarrow> released t t'"
  by (simp add: released_def)

lemma recovered_released:
  assumes "recovered st t t'" and "released t' t''"
  shows "recovered st t t''"
proof (cases "to_restart st t")
  case True
  with assms show ?thesis by (auto simp: recovered_def released_def)
next
  case False
  with assms released_trans [of t t' t''] show ?thesis by (simp add: recovered_def)
qed

lemma released_recovered:
  assumes "released t t'" and "recovered st t' t''"
  shows "recovered st t t''"
proof -
  have f: "to_restart st t' = to_restart st t" using released_faulted [OF assms(1)] by (simp add: to_restart_def)
  show ?thesis
    using assms f released_trans [OF assms(1), of t'']
    by (auto simp: recovered_def released_def [of t t'] split: if_splits)
qed

lemma noted_released: "released t t' \<Longrightarrow> noted st t' = noted st t"
  by (simp add: noted_def released_faulted)

text \<open>
  The contract of the kernel's operations that the supervisor relies on: reading a status
  changes no task, and a restart makes the task run as the next generation and can only
  unblock others; both return to the supervisor.
\<close>

locale supervised_kernel =
  fixes ready :: "kstate \<Rightarrow> bool"
    and read_status :: "nat \<Rightarrow> (TaskState, user_stop) kfun"
    and restart :: "nat \<Rightarrow> bool \<Rightarrow> (unit, user_stop) kfun"
  assumes ready_current: "ready s \<Longrightarrow> \<not> faulted (tasks s ! current s)"
    and read_law: "ready s \<Longrightarrow> i < length (tasks s) \<Longrightarrow>
      wp (read_status i) (\<lambda>st s'. st = state (tasks s ! i) \<and> ready s' \<and> current s' = current s
        \<and> length (tasks s') = length (tasks s)
        \<and> (\<forall>j < length (tasks s). state (tasks s' ! j) = state (tasks s ! j)
             \<and> task_generation (tasks s' ! j) = task_generation (tasks s ! j))) (\<lambda>_ _. False) (\<lambda>_. False) s"
    and restart_law: "ready s \<Longrightarrow> i < length (tasks s) \<Longrightarrow> i \<noteq> current s \<Longrightarrow>
      wp (restart i True) (\<lambda>_ s'. ready s' \<and> current s' = current s \<and> length (tasks s') = length (tasks s)
        \<and> state (tasks s' ! i) = Healthy Runnable
        \<and> task_generation (tasks s' ! i) = gen_next (task_generation (tasks s ! i))
        \<and> (\<forall>j < length (tasks s). j \<noteq> i \<longrightarrow> released (tasks s ! j) (tasks s' ! j))) (\<lambda>_ _. False) (\<lambda>_. False) s"
begin

definition passed :: "kstate \<Rightarrow> kstate \<Rightarrow> bool" where
  "passed s s' \<longleftrightarrow> ready s' \<and> current s' = current s \<and> length (tasks s') = length (tasks s)"

definition step_done :: "kstate \<Rightarrow> nat \<Rightarrow> TaskStatus \<Rightarrow> TaskStatus \<Rightarrow> kstate \<Rightarrow> bool" where
  "step_done s i st st' s' \<longleftrightarrow> passed s s' \<and> st' = noted st (tasks s ! i) \<and> recovered st (tasks s ! i) (tasks s' ! i)
     \<and> (\<forall>j < length (tasks s). j \<noteq> i \<longrightarrow> released (tasks s ! j) (tasks s' ! j))"

lemma fault_step:
  assumes r: "ready s" and i: "i < length (tasks s)"
  shows "wp (if holding_fault st then kret st
      else kbind (read_status i) (\<lambda>x. case x of
          Faulted _ _ \<Rightarrow> if disposition st = Restart then kbind (restart i True) (\<lambda>_. kret st)
            else kret (st\<lparr>holding_fault := True\<rparr>)
        | Healthy _ \<Rightarrow> kret st)) (step_done s i st) (\<lambda>_ _. False) (\<lambda>_. False) s"
proof (cases "holding_fault st")
  case True
  with r show ?thesis
    by (simp add: wp_kret step_done_def passed_def noted_def recovered_def to_restart_def)
next
  case False
  let ?k = "\<lambda>x. case x of Faulted _ _ \<Rightarrow> if disposition st = Restart then kbind (restart i True) (\<lambda>_. kret st)
            else kret (st\<lparr>holding_fault := True\<rparr>) | Healthy _ \<Rightarrow> kret st"
  have "wp (read_status i) (\<lambda>x. wp (?k x) (step_done s i st) (\<lambda>_ _. False) (\<lambda>_. False)) (\<lambda>_ _. False) (\<lambda>_. False) s"
  proof (rule wp_mono [OF read_law [OF r i]])
    fix x s1
    assume a: "x = state (tasks s ! i) \<and> ready s1 \<and> current s1 = current s \<and> length (tasks s1) = length (tasks s)
        \<and> (\<forall>j < length (tasks s). state (tasks s1 ! j) = state (tasks s ! j)
             \<and> task_generation (tasks s1 ! j) = task_generation (tasks s ! j))"
    then have rel: "\<forall>j < length (tasks s). released (tasks s ! j) (tasks s1 ! j)" by (auto intro: released_same)
    have i1: "i < length (tasks s1)" using a i by simp
    show "wp (?k x) (step_done s i st) (\<lambda>_ _. False) (\<lambda>_. False) s1"
    proof (cases "faulted (tasks s ! i) \<and> disposition st = Restart")
      case True
      have r1: "ready s1" using a by blast
      from True have "i \<noteq> current s1" using i released_faulted rel ready_current [OF r1] by blast
      from restart_law [OF r1 i1 this]
      have "wp (restart i True) (\<lambda>_. step_done s i st st) (\<lambda>_ _. False) (\<lambda>_. False) s1"
        by (rule wp_mono) (use a i True False rel in
          \<open>auto simp: step_done_def passed_def noted_def recovered_def to_restart_def intro: released_trans\<close>)
      with True a show ?thesis by (simp add: faulted_def wp_kbind wp_kret split: TaskState.splits)
    next
      case nr: False
      then show ?thesis
        using a rel i False
        by (auto simp: faulted_def wp_kret step_done_def passed_def noted_def recovered_def to_restart_def
            split: TaskState.splits)
    qed
  qed simp_all
  with False show ?thesis by (simp add: wp_kbind)
qed

lemma fault_pass_outcome:
  assumes "ready s" and "i + length sts = length (tasks s)"
  shows "wp (fault_pass read_status restart i sts) (\<lambda>sts' s'. passed s s' \<and> length sts' = length sts
      \<and> (\<forall>k < length sts. sts' ! k = noted (sts ! k) (tasks s ! (i + k)) \<and> recovered (sts ! k) (tasks s ! (i + k)) (tasks s' ! (i + k)))
      \<and> (\<forall>j < i. released (tasks s ! j) (tasks s' ! j))) (\<lambda>_ _. False) (\<lambda>_. False) s"
  using assms
proof (induction sts arbitrary: i s)
  case Nil
  then show ?case by (simp add: wp_kret passed_def)
next
  case (Cons st sts)
  let ?post = "\<lambda>st' s1 sts' s'. passed s s' \<and> length (st' # sts') = length (st # sts)
      \<and> (\<forall>k < length (st # sts). (st' # sts') ! k = noted ((st # sts) ! k) (tasks s ! (i + k))
           \<and> recovered ((st # sts) ! k) (tasks s ! (i + k)) (tasks s' ! (i + k)))
      \<and> (\<forall>j < i. released (tasks s ! j) (tasks s' ! j))"
  have i: "i < length (tasks s)" using Cons.prems by simp
  have rest: "wp (fault_pass read_status restart (Suc i) sts) (?post st' s1) (\<lambda>_ _. False) (\<lambda>_. False) s1"
    if d: "step_done s i st st' s1" for st' s1
  proof -
    have s1: "ready s1" "Suc i + length sts = length (tasks s1)" "length (tasks s1) = length (tasks s)"
      using d Cons.prems by (auto simp: step_done_def passed_def)
    have rel: "released (tasks s ! j) (tasks s1 ! j)" if "j < length (tasks s)" "j \<noteq> i" for j
      using d that by (simp add: step_done_def)
    show ?thesis
    proof (rule wp_mono [OF Cons.IH [OF s1(1,2)]], goal_cases)
      case (1 sts' s')
      have all: "(st' # sts') ! k = noted ((st # sts) ! k) (tasks s ! (i + k))
           \<and> recovered ((st # sts) ! k) (tasks s ! (i + k)) (tasks s' ! (i + k))" if k: "k < length (st # sts)" for k
      proof (cases k)
        case 0
        have "released (tasks s1 ! i) (tasks s' ! i)" using 1 by simp
        with 0 d show ?thesis by (auto simp: step_done_def intro: recovered_released)
      next
        case (Suc m)
        have rj: "released (tasks s ! Suc (i + m)) (tasks s1 ! Suc (i + m))" using k Suc Cons.prems(2) by (intro rel) simp_all
        show ?thesis using 1 k Suc by (auto simp: noted_released [OF rj] intro: released_recovered [OF rj])
      qed
      have "released (tasks s ! j) (tasks s' ! j)" if "j < i" for j
        using 1 that i rel [of j] released_trans [of "tasks s ! j" "tasks s1 ! j" "tasks s' ! j"] by simp
      with 1 all d show ?case by (simp add: step_done_def passed_def)
    qed simp_all
  qed
  show ?case
    unfolding fault_pass.simps
    by (subst wp_kbind, rule wp_mono [OF fault_step [OF Cons.prems(1) i, of st]])
      (use rest in \<open>simp_all add: wp_kbind wp_kret\<close>)
qed

end

text \<open>The wrappers of \<open>User_Kipc\<close>, run on the kernel model, satisfy the contract.\<close>

definition kipc_ready :: "kenv \<Rightarrow> kipc_io \<Rightarrow> kstate \<Rightarrow> bool" where
  "kipc_ready env io s \<longleftrightarrow> kinv env s \<and> marshal_ok env io \<and> io_ok io (tasks s ! current s)"

lemma kipc_ready_frame:
  assumes "kipc_ready env io s" and "kinv env s'" and "current s' = current s" and "kframe False s s'"
  shows "kipc_ready env io s'" and "length (tasks s') = length (tasks s)"
proof -
  have "current s < length (tasks s)" using assms(1) by (auto simp: kipc_ready_def dest: kinv_parts(5))
  then have "same_task (tasks s ! current s) (tasks s' ! current s')" using assms(3,4) by (simp add: kframe_def)
  from io_ok_cong [OF this] assms show "kipc_ready env io s'" by (simp add: kipc_ready_def)
  show "length (tasks s') = length (tasks s)" by (rule kframe_length [OF assms(4)])
qed

lemma task_generation_frame [simp]:
  "task_generation (t\<lparr>save := sv\<rparr>) = task_generation t"
  "task_generation (t\<lparr>state := st\<rparr>) = task_generation t"
  by (simp_all add: task_generation_def)

lemma condole_released: "released t (condole old t)"
proof (cases "waits_for (state t) old")
  case True
  then have "\<not> faulted t" by (auto simp: waits_for_def faulted_def)
  with True show ?thesis by (simp add: condole_waiting released_def task_generation_def)
next
  case False
  then show ?thesis by (simp add: condole_other)
qed

lemma restarted_recovers:
  fixes sv sv' :: SavedState
  assumes "i < length ts" and "c < length ts" and "i \<noteq> c" and "j < length ts"
    and ts': "ts' = restarted (ts[c := (ts ! c)\<lparr>save := sv'\<rparr>]) c i True sv"
  shows "if j = i then state (ts' ! i) = Healthy Runnable \<and> task_generation (ts' ! i) = gen_next (task_generation (ts ! i))
    else released (ts ! j) (ts' ! j)"
proof -
  let ?ts = "ts[c := (ts ! c)\<lparr>save := sv'\<rparr>]"
  note n = nth_restarted [of i ?ts j c True sv]
  consider "j = i" | "j = c" "j \<noteq> i" | "j \<noteq> c" "j \<noteq> i" by blast
  then show ?thesis
  proof cases
    case 1
    then show ?thesis using n assms(1-4) unfolding ts'
      by (simp add: task_generation_reinitialize)
  next
    case 2
    then show ?thesis using n assms(1-4) unfolding ts' by (simp add: released_def)
  next
    case 3
    then show ?thesis using n assms(1-4) condole_released unfolding ts' by simp
  qed
qed

interpretation kipc: supervised_kernel "kipc_ready env io" "kipc_read_task_status env io" "kipc_restart_task env io" for env io
proof (unfold_locales, goal_cases)
  case (1 s)
  then show ?case using kinv_parts(6) [of env s] by (simp add: kipc_ready_def faulted_def is_runnable_def)
next
  case (2 s i)
  then have r: "kinv env s" "marshal_ok env io" "io_ok io (tasks s ! current s)" by (simp_all add: kipc_ready_def)
  have "current s < length (tasks s)" by (rule kinv_parts(5) [OF r(1)])
  then show ?case
    by (intro wp_mono [OF kipc_read_task_status_spec [OF r 2(2)]])
      (auto simp: kipc_ready_frame [OF 2(1)] nth_list_update)
next
  case (3 s i)
  then have r: "kinv env s" "marshal_ok env io" "io_ok io (tasks s ! current s)" by (simp_all add: kipc_ready_def)
  have c: "current s < length (tasks s)" by (rule kinv_parts(5) [OF r(1)])
  show ?case
  proof (rule wp_mono [OF kipc_restart_spec [OF r 3(2,3)]], goal_cases)
    case (1 u s')
    then obtain sv sv' where t: "tasks s' = restarted ((tasks s)[current s := (tasks s ! current s)\<lparr>save := sv'\<rparr>]) (current s) i True sv"
      by blast
    note rr = restarted_recovers [OF 3(2) c 3(3) _ t]
    from 1 rr [OF 3(2)] rr show ?case by (auto simp: kipc_ready_frame [OF 3(1)])
  qed simp_all
qed

subsection \<open>Timer calls of a running task\<close>

definition steady :: "kenv \<Rightarrow> kstate \<Rightarrow> kstate \<Rightarrow> bool" where
  "steady env s s' \<longleftrightarrow> kinv env s' \<and> current s' = current s \<and> kframe False s s'
     \<and> (\<forall>j < length (tasks s). state (tasks s' ! j) = state (tasks s ! j) \<and> generation (tasks s' ! j) = generation (tasks s ! j))"

lemma set_timer_running:
  assumes "is_runnable t"
  shows "state (set_timer t time) = state t" "generation (set_timer t time) = generation t"
  using assms
  by (auto simp: set_timer_def task_set_timer_def task_post_def is_runnable_def can_accept_notification_def Let_def
      split: option.splits)

lemma get_timer_running: "state (get_timer t time) = state t" "generation (get_timer t time) = generation t"
  by (simp_all add: get_timer_def Let_def split: prod.splits)

lemma wp_svc_timer:
  assumes k: "kinv env s" and nr: "\<And>sv. syscall_descriptor (regs sv) = 3 \<or> syscall_descriptor (regs sv) = 9"
  shows "wp (svc env regs) (\<lambda>_ s'. steady env s s') E H s"
proof -
  let ?c = "current s"
  let ?t = "(tasks s ! ?c)\<lparr>save := regs (save (tasks s ! ?c))\<rparr>"
  let ?P = "\<lambda>s'. \<exists>t'. tasks s' = (tasks s)[?c := t'] \<and> state t' = state (tasks s ! ?c) \<and> generation t' = generation (tasks s ! ?c)"
  note ki = kinv_parts [OF k]
  have run: "is_runnable ?t" using ki(6) by (simp add: is_runnable_def)
  show ?thesis
  proof (rule wp_svc [OF k, of regs ?P], goal_cases)
    case 1
    show ?case
      using nr [of "save (tasks s ! ?c)"] ki(5) set_timer_running [OF run] get_timer_running [of ?t]
      by (auto simp: dispatch_def sysnum_try_from_def wp_kbind wp_modify_task wp_kret now_def wp_kget wp_klift)
  next
    case (2 s')
    then show ?case using ki(5) by (auto simp: steady_def nth_list_update)
  qed
qed

lemma steady_refl: "kinv env s \<Longrightarrow> steady env s s"
  by (simp add: steady_def)

lemma steady_trans:
  assumes "steady env s s'" and "steady env s' s''"
  shows "steady env s s''"
  using assms kframe_trans [of False s s' s''] kframe_length [of False s s'] by (auto simp: steady_def)

lemma steady_ready: "kipc_ready env io s \<Longrightarrow> steady env s s' \<Longrightarrow> kipc_ready env io s'"
  using kipc_ready_frame by (auto simp: steady_def)

lemma wp_user_get_timer: "kinv env s \<Longrightarrow> wp (user_get_timer env) (\<lambda>_ s'. steady env s s') E H s"
  unfolding user_get_timer_def wp_kbind wp_kret
  by (rule wp_svc_timer) (simp_all add: sys_get_timer_regs_def syscall_descriptor_def)

lemma wp_user_set_timer: "kinv env s \<Longrightarrow> wp (user_set_timer env dl n) (\<lambda>_ s'. steady env s s') E H s"
  unfolding user_set_timer_def wp_kbind wp_kret
  by (rule wp_svc_timer) (simp_all add: sys_set_timer_regs_def syscall_descriptor_def Let_def)

lemma wp_set_timer_relative:
  assumes "kinv env s"
  shows "wp (set_timer_relative env interval n) (\<lambda>_ s'. steady env s s') E H s"
proof -
  have "wp (user_set_timer env dl n) (\<lambda>_ s'. steady env s s') E H s1" if "steady env s s1" for dl s1
    using that by (intro wp_mono [OF wp_user_set_timer]) (auto simp: steady_def [of env s s1] intro: steady_trans [OF that])
  then show ?thesis
    by (simp add: set_timer_relative_def wp_kbind wp_let wp_kret Let_def) (rule wp_mono [OF wp_user_get_timer [OF assms]], auto)
qed

lemma wp_rearm:
  assumes k: "kinv env s"
  shows "wp (rearm env cfg bits j) (\<lambda>j' s'. steady env s s' \<and> task_states j' = task_states j) E H s"
proof -
  have "wp (set_timer_relative env i n) (\<lambda>_ s'. steady env s s') E H s1" if "steady env s s1" for i n s1
    using that by (intro wp_mono [OF wp_set_timer_relative]) (auto simp: steady_def [of env s s1] intro: steady_trans [OF that])
  then have "wp (user_get_timer env) (\<lambda>ts s1. wp (if jefe_deadline j \<le> ts_now ts then
          kbind (set_timer_relative env TIMER_INTERVAL (TIMER_MASK cfg)) (\<lambda>dl. kret (j\<lparr>jefe_deadline := dl\<rparr>))
        else kret j) (\<lambda>j' s'. steady env s s' \<and> task_states j' = task_states j) E H s1) E H s"
    by (intro wp_mono [OF wp_user_get_timer [OF k]]) (auto simp: wp_kbind wp_kret)
  with k show ?thesis by (simp add: rearm_def wp_kbind wp_kret steady_refl)
qed

end
