(* ===== verification/Task_JefeProps.thy ===== *)
theory Task_JefeProps
  imports Task_Jefe
begin

section \<open>Properties of the supervisor\<close>

text \<open>
  Fault recovery end to end, from the notification the kernel posts to the restarted tasks, and
  the requests of a debugger. For the instances the demonstration image is given an encoding of
  task states in eleven bytes, the role of the serialisation crate.
\<close>

subsection \<open>An encoding of task states\<close>

definition enc_tid :: "TaskId \<Rightarrow> u8 list" where
  "enc_tid p = [ucast (tid_bits p), ucast (drop_bit 8 (tid_bits p))]"

definition dec_tid :: "u8 \<Rightarrow> u8 \<Rightarrow> TaskId" where
  "dec_tid lo hi = TaskId (ucast lo OR push_bit 8 (ucast hi))"

fun enc_sched :: "SchedState \<Rightarrow> u8 list" where
  "enc_sched Stopped = [0, 0, 0]"
| "enc_sched Runnable = [1, 0, 0]"
| "enc_sched (InSend p) = 2 # enc_tid p"
| "enc_sched (InReply p) = 3 # enc_tid p"
| "enc_sched (InRecv None) = [4, 0, 0]"
| "enc_sched (InRecv (Some p)) = 5 # enc_tid p"

definition dec_sched :: "u8 \<Rightarrow> u8 \<Rightarrow> u8 \<Rightarrow> SchedState" where
  "dec_sched tag lo hi =
     (if tag = 0 then Stopped else if tag = 1 then Runnable else if tag = 2 then InSend (dec_tid lo hi)
      else if tag = 3 then InReply (dec_tid lo hi) else if tag = 4 then InRecv None else InRecv (Some (dec_tid lo hi)))"

fun usage_code :: "UsageError \<Rightarrow> u8" where
  "usage_code BadSyscallNumber = 0"
| "usage_code InvalidSlice = 1"
| "usage_code TaskOutOfRange = 2"
| "usage_code IllegalTask = 3"
| "usage_code LeaseOutOfRange = 4"
| "usage_code OffsetOutOfRange = 5"
| "usage_code NoIrq = 6"
| "usage_code BadKernelMessage = 7"
| "usage_code BadReplyFaultReason = 8"
| "usage_code NotSupervisor = 9"

definition dec_usage :: "u8 \<Rightarrow> UsageError" where
  "dec_usage x = [BadSyscallNumber, InvalidSlice, TaskOutOfRange, IllegalTask, LeaseOutOfRange, OffsetOutOfRange,
     NoIrq, BadKernelMessage, BadReplyFaultReason, NotSupervisor] ! unat x"

fun enc_fault :: "FaultInfo \<Rightarrow> u8 list" where
  "enc_fault (MemoryAccess (Some a) src) = 0 # le_bytes a @ [1, if src = User then 0 else 1]"
| "enc_fault (MemoryAccess None src) = 0 # le_bytes 0 @ [0, if src = User then 0 else 1]"
| "enc_fault (StackOverflow a) = 1 # le_bytes a @ [0, 0]"
| "enc_fault (BusError (Some a) src) = 2 # le_bytes a @ [1, if src = User then 0 else 1]"
| "enc_fault (BusError None src) = 2 # le_bytes 0 @ [0, if src = User then 0 else 1]"
| "enc_fault DivideByZero = 3 # le_bytes 0 @ [0, 0]"
| "enc_fault IllegalText = 4 # le_bytes 0 @ [0, 0]"
| "enc_fault IllegalInstruction = 5 # le_bytes 0 @ [0, 0]"
| "enc_fault (InvalidOperation a) = 6 # le_bytes a @ [0, 0]"
| "enc_fault (SyscallUsage e) = 7 # le_bytes 0 @ [usage_code e, 0]"
| "enc_fault Panic = 8 # le_bytes 0 @ [0, 0]"
| "enc_fault (Injected p) = 9 # le_bytes 0 @ enc_tid p"
| "enc_fault (FromServer p r) = 10 # le_bytes (reply_fault_reason_code r) @ enc_tid p"

definition dec_fault :: "u8 \<Rightarrow> u32 \<Rightarrow> u8 \<Rightarrow> u8 \<Rightarrow> FaultInfo" where
  "dec_fault tag w x y =
     (let a = (if x = 1 then Some w else None); src = (if y = 0 then User else Kernel) in
      if tag = 0 then MemoryAccess a src else if tag = 1 then StackOverflow w
      else if tag = 2 then BusError a src else if tag = 3 then DivideByZero
      else if tag = 4 then IllegalText else if tag = 5 then IllegalInstruction
      else if tag = 6 then InvalidOperation w else if tag = 7 then SyscallUsage (dec_usage x)
      else if tag = 8 then Panic else if tag = 9 then Injected (dec_tid x y)
      else FromServer (dec_tid x y) (the (reply_fault_reason_try_from w)))"

fun enc_state :: "TaskState \<Rightarrow> u8 list" where
  "enc_state (Healthy sc) = 0 # replicate 7 0 @ enc_sched sc"
| "enc_state (Faulted f sc) = 1 # enc_fault f @ enc_sched sc"

definition dec_state :: "u8 list \<Rightarrow> TaskState option" where
  "dec_state bs =
     (case demo_u32 (drop 2 bs) of
        None \<Rightarrow> None
      | Some w \<Rightarrow>
          if length bs < 11 then None
          else let sc = dec_sched (bs ! 8) (bs ! 9) (bs ! 10) in
            Some (if bs ! 0 = 0 then Healthy sc else Faulted (dec_fault (bs ! 1) w (bs ! 6) (bs ! 7)) sc))"

lemma tid_bytes [simp]: "dec_tid (ucast (tid_bits p)) (ucast (drop_bit 8 (tid_bits p))) = p"
proof -
  have "ucast (ucast x :: u8) OR push_bit 8 (ucast (ucast (drop_bit 8 x) :: u8)) = x" for x :: u16
    by (rule bit_word_eqI) (auto simp: bit_simps)
  then show ?thesis by (simp add: dec_tid_def)
qed

lemma demo_u32_le_bytes [simp]: "demo_u32 (le_bytes w @ rest) = Some w"
proof -
  have "ucast (ucast w :: u8) OR push_bit 8 (ucast (ucast (drop_bit 8 w) :: u8))
      OR push_bit 16 (ucast (ucast (drop_bit 16 w) :: u8)) OR push_bit 24 (ucast (ucast (drop_bit 24 w) :: u8)) = w"
  proof (rule bit_word_eqI)
    fix n assume "n < LENGTH(32)"
    moreover have "24 + (n - 24) = n \<or> n - 16 < 8" by linarith
    ultimately show "bit (ucast (ucast w :: u8) OR push_bit 8 (ucast (ucast (drop_bit 8 w) :: u8))
      OR push_bit 16 (ucast (ucast (drop_bit 16 w) :: u8)) OR push_bit 24 (ucast (ucast (drop_bit 24 w) :: u8)) :: u32) n = bit w n"
      by (auto simp: bit_simps)
  qed
  then show ?thesis by (simp add: demo_u32_def le_bytes_def)
qed

lemma dec_enc_sched:
  "\<exists>a b c. enc_sched sc = [a, b, c] \<and> dec_sched a b c = sc"
  by (cases sc rule: enc_sched.cases) (simp_all add: dec_sched_def enc_tid_def)

lemma dec_usage_code [simp]: "dec_usage (usage_code e) = e"
  by (cases e) (simp_all add: dec_usage_def)

lemma dec_enc_fault:
  "\<exists>tag w x y. enc_fault f = tag # le_bytes w @ [x, y] \<and> dec_fault tag w x y = f"
proof (cases f rule: enc_fault.cases)
  case (12 p)
  then show ?thesis by (intro exI [of _ 9] exI [of _ 0] exI) (auto simp: enc_tid_def dec_fault_def)
next
  case (13 p r)
  then show ?thesis
    by (intro exI [of _ 10] exI [of _ "reply_fault_reason_code r"] exI) (auto simp: enc_tid_def dec_fault_def)
qed (force simp: dec_fault_def Let_def intro: FaultSource.exhaust)+

lemma dec_enc_state: "length (enc_state st) = 11 \<and> dec_state (enc_state st) = Some st"
proof (cases st)
  case (Healthy sc)
  obtain a b c where sc: "enc_sched sc = [a, b, c]" "dec_sched a b c = sc" using dec_enc_sched by blast
  have "demo_u32 (le_bytes 0 @ [0, 0, a, b, c]) = Some 0" by (rule demo_u32_le_bytes)
  with Healthy sc show ?thesis by (simp add: dec_state_def le_bytes_def numeral_eq_Suc)
next
  case (Faulted f sc)
  obtain a b c where sc: "enc_sched sc = [a, b, c]" "dec_sched a b c = sc" using dec_enc_sched by blast
  obtain tag w x y where f: "enc_fault f = tag # le_bytes w @ [x, y]" "dec_fault tag w x y = f" using dec_enc_fault by blast
  have "demo_u32 (le_bytes w @ [x, y, a, b, c]) = Some w" by (rule demo_u32_le_bytes)
  with Faulted sc f show ?thesis by (simp add: dec_state_def le_bytes_def numeral_eq_Suc)
qed

subsection \<open>Recovery from faults\<close>

text \<open>
  C21: when the supervisor handles a fault notification and no debugger request is pending, the
  call completes through all its requests to the kernel, with the kernel invariant intact and
  the supervisor still running. Every faulted task with disposition \<^verbatim>\<open>Restart\<close> that is not being
  held runs again, as the next generation. Every other faulted task stays as it is and is on
  record as held. No other task changes its generation, and its state changes only if it was
  blocked and has been released. No disposition changes.
\<close>

theorem jefe_recovers:
  assumes "kinv env s" and "marshal_ok env io" and "io_ok io (tasks s ! current s)"
    and "EXTERNAL_KICK j = 0" and "length (task_states j) = length (tasks s)" and "bits AND FAULT_MASK cfg \<noteq> 0"
  shows "\<exists>j' s'. jefe_handle_notification env cfg io bits j s = Ok j' s' \<and> kinv env s' \<and> current s' = current s
    \<and> length (tasks s') = length (tasks s) \<and> length (task_states j') = length (task_states j)
    \<and> (\<forall>i < length (tasks s).
         let t = tasks s ! i; t' = tasks s' ! i; st = task_states j ! i; st' = task_states j' ! i in
         disposition st' = disposition st \<and>
         (if faulted t \<and> \<not> holding_fault st \<and> disposition st = Restart
          then state t' = Healthy Runnable \<and> task_generation t' = gen_next (task_generation t) \<and> \<not> holding_fault st'
          else task_generation t' = task_generation t
            \<and> (state t' = state t \<or> \<not> faulted t \<and> state t' = Healthy Runnable)
            \<and> (holding_fault st' \<longleftrightarrow> holding_fault st \<or> faulted t)))"
proof -
  let ?n = "length (tasks s)"
  let ?Q = "\<lambda>j' s'. kipc_ready env io s' \<and> current s' = current s \<and> length (tasks s') = ?n \<and> length (task_states j') = ?n
    \<and> (\<forall>i < ?n. task_states j' ! i = noted (task_states j ! i) (tasks s ! i) \<and> recovered (task_states j ! i) (tasks s ! i) (tasks s' ! i))"
  have r: "kipc_ready env io s" using assms(1-3) by (simp add: kipc_ready_def)
  have pass: "wp (kbind (fault_pass (kipc_read_task_status env io) (kipc_restart_task env io) 0 (task_states j2)) (\<lambda>sts.
       kret (j2\<lparr>task_states := sts\<rparr>))) ?Q (\<lambda>_ _. False) (\<lambda>_. False) s1"
    if st: "steady env s s1" and j2: "task_states j2 = task_states j" for j2 s1
  proof -
    have len: "length (tasks s1) = ?n" using st by (simp add: steady_def kframe_def)
    have rel: "released (tasks s ! i) (tasks s1 ! i)" if "i < ?n" for i
      using st that by (auto simp: steady_def task_generation_def intro!: released_same)
    have "wp (fault_pass (kipc_read_task_status env io) (kipc_restart_task env io) 0 (task_states j2))
        (\<lambda>sts. ?Q (j2\<lparr>task_states := sts\<rparr>)) (\<lambda>_ _. False) (\<lambda>_. False) s1"
      by (rule wp_mono [OF kipc.fault_pass_outcome [OF steady_ready [OF r st], of 0 "task_states j2"]])
        (use len assms(5) j2 st rel in
          \<open>auto simp: kipc.passed_def steady_def noted_released [OF rel] intro: released_recovered [OF rel]\<close>)
    then show ?thesis by (simp add: wp_kbind wp_kret)
  qed
  have "wp (jefe_handle_notification env cfg io bits j) ?Q (\<lambda>_ _. False) (\<lambda>_. False) s"
    using assms(4,6)
    by (simp add: jefe_handle_notification_def jefe_check_def check_inner_def wp_kbind wp_kret wp_case_prod)
      (rule wp_mono [OF wp_rearm [OF assms(1)]], use pass in \<open>auto simp: wp_kbind wp_kret\<close>)
  then obtain j' s' where o: "jefe_handle_notification env cfg io bits j s = Ok j' s'" and q: "?Q j' s'"
    by (auto simp: wp_def split: kres.splits)
  have "kinv env s'" using q by (simp add: kipc_ready_def)
  with o q assms(5) show ?thesis
    by (intro exI [of _ j'] exI [of _ s'])
      (auto simp: noted_def recovered_def to_restart_def released_def Let_def intro: Disposition.exhaust)
qed


definition jefe_env :: kenv where
  "jefe_env = demo_env\<lparr>ser := \<lambda>v buf. case v of
     SerTaskState st \<Rightarrow> if length buf < 11 then (SerEndOfStream, buf) else (SerOk 11, enc_state st @ drop 11 buf)
   | _ \<Rightarrow> (SerOtherError, buf)\<rparr>"

definition jefe_io :: kipc_io where
  "jefe_io = \<lparr>io_msg = 0x20000100, io_resp = 0x20000120, io_none = 4,
     se_u32_bool = (\<lambda>(w, b). le_bytes w @ [if b then 1 else 0]), se_u32_u32 = (\<lambda>(a, b). le_bytes a @ le_bytes b),
     se_u32_region = (\<lambda>(w, r). le_bytes w @ le_bytes (dump_base r) @ le_bytes (dump_size r)),
     de_task_state = dec_state, de_dump_region = (\<lambda>_. None), de_u64 = (\<lambda>_. None),
     sz_task_state = 11, sz_dump_region = 12\<rparr>"

text \<open>The supervisor running, the server faulted, the client waiting for the server's reply.\<close>

definition jefe_tasks :: "Task list" where
  "jefe_tasks = [
     demo_task (demo_descs ! 0) (demo_regs 0 0 0 0) Runnable,
     (demo_task (demo_descs ! 1) (demo_regs 0 0 0 0) Runnable)\<lparr>state := Faulted DivideByZero Runnable\<rparr>,
     demo_task (demo_descs ! 2) (demo_regs 0 0 0 0) (InReply (for_index_and_gen 1 (Generation 0)))]"

definition jefe_start :: jefe where
  "jefe_start = \<lparr>jefe_state = 0, task_states = replicate 3 task_status_default, jefe_deadline = 100, reset_reason = Unknown,
     EXTERNAL_READY = 1, EXTERNAL_REQUEST = 0, EXTERNAL_TASKINDEX = 0, EXTERNAL_KICK = 0, EXTERNAL_REQUESTS = 0, EXTERNAL_ERRORS = 0\<rparr>"

definition jefe_cfg :: jefe_config where
  "jefe_cfg = \<lparr>FAULT_MASK = 1, TIMER_MASK = 2, HELD_TASKS = [], MAILING_LIST = []\<rparr>"

lemma kinv_ser [simp]: "kinv (env\<lparr>ser := f\<rparr>) s = kinv env s"
proof -
  have f: "frame_size (env\<lparr>ser := f\<rparr>) = frame_size env" by (simp add: frame_size_def)
  have "stack_ok (env\<lparr>ser := f\<rparr>) t = stack_ok env t" for t
    by (simp add: stack_ok_def frame_slice_def zap_slice_def f split: option.splits)
  then show ?thesis by (simp add: kinv_def image_ok_def stacks_ok_def irqs_ok_def owners_ok_def)
qed

lemma jefe_marshal_ok: "marshal_ok jefe_env jefe_io"
proof -
  have "demo_u32 (le_bytes w @ b # rest) = Some w" for w b rest by (rule demo_u32_le_bytes)
  moreover have "demo_u32 (le_bytes w) = Some w" for w using demo_u32_le_bytes [of w "[]"] by simp
  ultimately show ?thesis
    using dec_enc_state by (auto simp: marshal_ok_def jefe_env_def jefe_io_def demo_env_def le_bytes_def nth_append)
qed

lemma jefe_demo_ready:
  "kinv jefe_env (demo_state jefe_tasks 0)" "io_ok jefe_io (tasks (demo_state jefe_tasks 0) ! 0)"
proof -
  have p: "list_all (\<lambda>t. peer_ok jefe_tasks (state t)) jefe_tasks" by code_simp
  have "kinv demo_env (demo_state jefe_tasks 0)"
    by (rule demo_kinv [OF _ p]) (simp_all add: jefe_tasks_def demo_defs is_runnable_def)
  then show "kinv jefe_env (demo_state jefe_tasks 0)" by (simp add: jefe_env_def)
  have "\<forall>a \<in> {(0x20000100, 4), (0x20000100, 8), (0x20000120, 11)}.
      can_read (jefe_tasks ! 0) 1 \<lparr>slice_base = fst a, slice_len = snd a\<rparr> \<and> can_write (jefe_tasks ! 0) 1 \<lparr>slice_base = fst a, slice_len = snd a\<rparr>"
    by code_simp
  then show "io_ok jefe_io (tasks (demo_state jefe_tasks 0) ! 0)"
    by (simp add: io_ok_def buf_ok_def jefe_io_def demo_state_def)
qed

theorem jefe_recovers_witness:
  "\<exists>j' s'. jefe_handle_notification jefe_env jefe_cfg jefe_io 1 jefe_start (demo_state jefe_tasks 0) = Ok j' s'
    \<and> state (tasks s' ! 1) = Healthy Runnable \<and> task_generation (tasks s' ! 1) = Generation 1"
proof -
  let ?s = "demo_state jefe_tasks 0"
  have cur: "current ?s = 0" "tasks ?s = jefe_tasks" by (simp_all add: demo_state_def)
  have f: "faulted (jefe_tasks ! 1)" "gen_next (task_generation (jefe_tasks ! 1)) = Generation 1" "length jefe_tasks = 3"
    by code_simp+
  have st: "task_states jefe_start ! 1 = task_status_default" "length (task_states jefe_start) = 3" "EXTERNAL_KICK jefe_start = 0"
    by (simp_all add: jefe_start_def)
  have m: "(1 :: u32) AND FAULT_MASK jefe_cfg \<noteq> 0" by (simp add: jefe_cfg_def)
  from jefe_recovers [OF jefe_demo_ready(1) jefe_marshal_ok, unfolded cur, OF jefe_demo_ready(2) [unfolded cur] st(3), of 1 jefe_cfg]
  show ?thesis using f st m by (auto simp: Let_def task_status_default_def dest!: spec [of _ 1])
qed

subsection \<open>Requests of a debugger\<close>

text \<open>
  The effect of a request on the record of its task, whether it restarts the task, and its
  effect on the tasks of the system.
\<close>

definition requested :: "Request \<Rightarrow> TaskStatus \<Rightarrow> TaskStatus" where
  "requested request st = (case request of
     ReqNone \<Rightarrow> st | ReqStart \<Rightarrow> st
   | ReqHold \<Rightarrow> st\<lparr>disposition := Hold\<rparr>
   | ReqRelease \<Rightarrow> st\<lparr>disposition := Restart, holding_fault := False\<rparr>
   | ReqFault \<Rightarrow> st\<lparr>disposition := Hold\<rparr>)"

definition request_effect :: "Request \<Rightarrow> TaskStatus \<Rightarrow> nat \<Rightarrow> kstate \<Rightarrow> kstate \<Rightarrow> bool" where
  "request_effect request st i s s' \<longleftrightarrow>
     (if request = ReqStart \<or> request = ReqRelease \<and> holding_fault st then
        state (tasks s' ! i) = Healthy Runnable \<and> task_generation (tasks s' ! i) = gen_next (task_generation (tasks s ! i))
        \<and> (\<forall>j < length (tasks s). j \<noteq> i \<longrightarrow> released (tasks s ! j) (tasks s' ! j))
      else if request = ReqFault then
        faulted (tasks s' ! i) \<and> task_generation (tasks s' ! i) = task_generation (tasks s ! i)
        \<and> (\<forall>j < length (tasks s). j \<noteq> i \<longrightarrow> released (tasks s ! j) (tasks s' ! j))
      else s' = s)"

lemma quiet_released: "quiet t t' \<Longrightarrow> released t t'"
  by (auto simp: quiet_def released_def task_generation_def faulted_def is_runnable_def can_accept_notification_def
      split: TaskState.splits)

lemma release_unheld: "\<not> holding_fault st \<Longrightarrow> st\<lparr>disposition := d, holding_fault := False\<rparr> = st\<lparr>disposition := d\<rparr>"
  by (cases st) simp

lemma wp_run_request:
  assumes r: "kipc_ready env io s" and c: "current s = 0" and i: "i < length (tasks s)" "i \<noteq> 0" "i < length sts"
  shows "wp (run_request env io request i sts) (\<lambda>sts' s'. sts' = sts[i := requested request (sts ! i)]
      \<and> kipc_ready env io s' \<and> current s' = 0 \<and> length (tasks s') = length (tasks s)
      \<and> request_effect request (sts ! i) i s s') (\<lambda>_ _. False) (\<lambda>_. False) s"
proof -
  let ?e = "\<lambda>s'. kipc_ready env io s' \<and> current s' = 0 \<and> length (tasks s') = length (tasks s)
      \<and> request_effect request (sts ! i) i s s'"
  have k: "kinv env s" "marshal_ok env io" "io_ok io (tasks s ! current s)" using r by (simp_all add: kipc_ready_def)
  have st: "wp (kipc_restart_task env io i True) (\<lambda>_. ?e) (\<lambda>_ _. False) (\<lambda>_. False) s"
    if "request = ReqStart \<or> request = ReqRelease \<and> holding_fault (sts ! i)"
    using kipc.restart_law [OF r i(1)] i(2) c that by (auto simp: request_effect_def elim!: wp_mono)
  have fl: "wp (kipc_fault_task env io i) (\<lambda>_. ?e) (\<lambda>_ _. False) (\<lambda>_. False) s" if "request = ReqFault"
    by (rule wp_mono [OF kipc_fault_spec [OF k i(1) _ i(2)]])
      (use that c i kipc_ready_frame [OF r] in
        \<open>auto simp: request_effect_def faulted_def task_generation_def intro: quiet_released\<close>)
  have none: "?e s" if "request \<notin> {ReqStart, ReqFault}" "request = ReqRelease \<longrightarrow> \<not> holding_fault (sts ! i)"
    using that r c by (auto simp: request_effect_def)
  show ?thesis
    using st fl none i
    by (cases request; cases "holding_fault (sts ! i)")
      (auto simp: release_unheld run_request_def requested_def set_disposition_def wp_simps Let_def nth_list_update elim!: wp_mono)
qed

text \<open>
  a request of the debugger is consumed once. An unknown request number, the supervisor's own
  index or an index outside the table changes nothing but the error counter. Any other request
  changes the record of its task only, as documented for it: \<^verbatim>\<open>Hold\<close> and \<^verbatim>\<open>Fault\<close> set the disposition
  to hold, \<^verbatim>\<open>Release\<close> sets it to restart and forgets a held fault. \<^verbatim>\<open>Start\<close>, and \<^verbatim>\<open>Release\<close> of a held task,
  make the task run as its next generation; \<^verbatim>\<open>Fault\<close> leaves it faulted. Other tasks are at most
  unblocked, and the kernel invariant holds.
\<close>

theorem debugger_request_outcome:
  assumes "kinv env s" and "marshal_ok env io" and "io_ok io (tasks s ! current s)" and "current s = 0"
    and "length (task_states j) = length (tasks s)" and "EXTERNAL_KICK j \<noteq> 0" and "i = unat (EXTERNAL_TASKINDEX j)"
  shows "\<exists>j' s'. jefe_check env io j s = Ok j' s' \<and> kinv env s' \<and> current s' = 0 \<and> length (tasks s') = length (tasks s)
    \<and> (case request_from_u32 (EXTERNAL_REQUEST j) of
         None \<Rightarrow> s' = s \<and> j' = j\<lparr>EXTERNAL_KICK := 0, EXTERNAL_ERRORS := EXTERNAL_ERRORS j + 1\<rparr>
       | Some request \<Rightarrow>
           if i = 0 \<or> length (tasks s) \<le> i
           then s' = s \<and> j' = j\<lparr>EXTERNAL_KICK := 0, EXTERNAL_ERRORS := EXTERNAL_ERRORS j + 1\<rparr>
           else j' = j\<lparr>EXTERNAL_KICK := 0, task_states := (task_states j)[i := requested request (task_states j ! i)],
                    EXTERNAL_REQUESTS := EXTERNAL_REQUESTS j + 1\<rparr>
             \<and> request_effect request (task_states j ! i) i s s')"
proof -
  let ?j0 = "j\<lparr>EXTERNAL_KICK := 0\<rparr>"
  have r: "kipc_ready env io s" using assms(1-3) by (simp add: kipc_ready_def)
  let ?bad = "request_from_u32 (EXTERNAL_REQUEST j) = None \<or> i = 0 \<or> length (tasks s) \<le> i"
  have bad: "jefe_check env io j s = Ok (?j0\<lparr>EXTERNAL_ERRORS := EXTERNAL_ERRORS j + 1\<rparr>) s" if ?bad
    using that assms(5-7)
    by (auto simp: jefe_check_def check_inner_def kbind_def kret_def Let_def split: option.splits)
  show ?thesis
  proof (cases ?bad)
    case True
    with bad assms(1,4) show ?thesis by (auto split: option.splits)
  next
    case False
    then obtain request where q: "request_from_u32 (EXTERNAL_REQUEST j) = Some request" and i: "i \<noteq> 0" "i < length (tasks s)" by auto
    let ?Q = "\<lambda>j' s'. kipc_ready env io s' \<and> current s' = 0 \<and> length (tasks s') = length (tasks s)
      \<and> request_effect request (task_states j ! i) i s s'
      \<and> j' = j\<lparr>EXTERNAL_KICK := 0, task_states := (task_states j)[i := requested request (task_states j ! i)],
            EXTERNAL_REQUESTS := EXTERNAL_REQUESTS j + 1\<rparr>"
    have "wp (jefe_check env io j) ?Q (\<lambda>_ _. False) (\<lambda>_. False) s"
      using wp_run_request [OF r assms(4) i(2,1), of "task_states j" request] i assms(5-7) q
      by (simp add: jefe_check_def check_inner_def wp_kbind wp_kret wp_case_prod Let_def) (erule wp_mono; auto)
    then obtain j' s' where "jefe_check env io j s = Ok j' s'" "?Q j' s'" by (auto simp: wp_def split: kres.splits)
    with q i show ?thesis by (auto simp: kipc_ready_def)
  qed
qed

theorem debugger_request_outcome_witness:
  "\<exists>j' s'. jefe_check jefe_env jefe_io (jefe_start\<lparr>EXTERNAL_KICK := 1, EXTERNAL_REQUEST := 1, EXTERNAL_TASKINDEX := 1\<rparr>)
      (demo_state jefe_tasks 0) = Ok j' s' \<and> EXTERNAL_REQUESTS j' = 1
    \<and> state (tasks s' ! 1) = Healthy Runnable \<and> task_generation (tasks s' ! 1) = Generation 1"
proof -
  let ?s = "demo_state jefe_tasks 0" and ?j = "jefe_start\<lparr>EXTERNAL_KICK := 1, EXTERNAL_REQUEST := 1, EXTERNAL_TASKINDEX := 1\<rparr>"
  have cur: "current ?s = 0" "tasks ?s = jefe_tasks" by (simp_all add: demo_state_def)
  have f: "gen_next (task_generation (jefe_tasks ! 1)) = Generation 1" "length jefe_tasks = 3" by code_simp+
  have j: "length (task_states ?j) = length (tasks ?s)" "EXTERNAL_KICK ?j \<noteq> 0" "1 = unat (EXTERNAL_TASKINDEX ?j)"
      "request_from_u32 (EXTERNAL_REQUEST ?j) = Some ReqStart" "EXTERNAL_REQUESTS ?j = 0"
    by (simp_all add: jefe_start_def f cur request_from_u32_def)
  from debugger_request_outcome [OF jefe_demo_ready(1) jefe_marshal_ok, unfolded cur(1), OF jefe_demo_ready(2) refl j(1-3)]
  show ?thesis using f unfolding j(4) by (auto simp: request_effect_def cur j(5))
qed

text \<open>
  The request \<^verbatim>\<open>Start\<close> runs a held task again but leaves the record of the held fault. A later
  \<^verbatim>\<open>Release\<close> therefore restarts the task a second time, although it is healthy and holds no fault.
\<close>

lemma start_then_release_restarts_twice:
  assumes "kinv env s" and "marshal_ok env io" and "io_ok io (tasks s ! current s)" and "current s = 0"
    and "i < length sts" and "i < length (tasks s)" and "i \<noteq> 0" and "holding_fault (sts ! i)"
  shows "wp (kbind (run_request env io ReqStart i sts) (run_request env io ReqRelease i))
    (\<lambda>_ s'. task_generation (tasks s' ! i) = gen_next (gen_next (task_generation (tasks s ! i)))) (\<lambda>_ _. False) (\<lambda>_. False) s"
proof -
  have r: "kipc_ready env io s" using assms(1-3) by (simp add: kipc_ready_def)
  note rr = wp_run_request [OF _ _ _ assms(7)]
  show ?thesis
    unfolding wp_kbind
    by (rule wp_mono [OF rr [OF r assms(4,6,5)]])
      (use assms(5,6,8) in \<open>auto simp: requested_def request_effect_def intro!: wp_mono [OF rr]\<close>)
qed

end
