(* ===== verification/Task_Sensor.thy ===== *)
theory Task_Sensor
  imports Kern_Prelude
begin

section \<open>The sensor task\<close>

text \<open>
  The server \<^verbatim>\<open>task/sensor\<close> and the types of \<^verbatim>\<open>task/sensor-api\<close>: for every sensor the last data
  reading, the last error, the extreme values and packed error counters. A reading is an IEEE
  single, kept as its bit pattern with the comparison of the standard written out. The number
  of sensors comes from the configuration and is an argument.
\<close>

type_synonym f32 = u32

definition f32_is_nan :: "f32 \<Rightarrow> bool" where
  "f32_is_nan x \<longleftrightarrow> 0x7F800000 < x AND 0x7FFFFFFF"

text \<open>Magnitude with sign; both zeros are the same number.\<close>

definition f32_key :: "f32 \<Rightarrow> int" where
  "f32_key x = (if bit x 31 then - uint (x AND 0x7FFFFFFF) else uint x)"

definition f32_lt :: "f32 \<Rightarrow> f32 \<Rightarrow> bool" where
  "f32_lt x y \<longleftrightarrow> \<not> f32_is_nan x \<and> \<not> f32_is_nan y \<and> f32_key x < f32_key y"

definition f32_NAN :: f32 where "f32_NAN = 0x7FC00000"

definition f32_MAX :: f32 where "f32_MAX = 0x7F7FFFFF"

definition f32_MIN :: f32 where "f32_MIN = 0xFF7FFFFF"

subsection \<open>Interface types\<close>

definition sensor_id_try_new :: "u32 \<Rightarrow> u32 \<Rightarrow> nat option" where
  "sensor_id_try_new num_sensors i = (if num_sensors \<le> i then None else Some (unat i))"

datatype NoData = DeviceOff | DeviceError | DeviceNotPresent | DeviceUnavailable | DeviceTimeout

datatype SensorError = SErrNoReading | SErrNotPresent | SErrDeviceError | SErrDeviceUnavailable | SErrDeviceTimeout | SErrDeviceOff

fun nodata_code :: "NoData \<Rightarrow> nat" where
  "nodata_code DeviceOff = 0"
| "nodata_code DeviceError = 1"
| "nodata_code DeviceNotPresent = 2"
| "nodata_code DeviceUnavailable = 3"
| "nodata_code DeviceTimeout = 4"

fun sensor_error_from :: "NoData \<Rightarrow> SensorError" where
  "sensor_error_from DeviceOff = SErrDeviceOff"
| "sensor_error_from DeviceNotPresent = SErrNotPresent"
| "sensor_error_from DeviceError = SErrDeviceError"
| "sensor_error_from DeviceUnavailable = SErrDeviceUnavailable"
| "sensor_error_from DeviceTimeout = SErrDeviceTimeout"

text \<open>\<^verbatim>\<open>counter_encoding\<close> for counters packed into a type of the given size in bytes.\<close>

definition counter_encoding :: "nat \<Rightarrow> NoData \<Rightarrow> nat \<times> nat" where
  "counter_encoding size_of nd = (let nbits = size_of * 8 div 5; shift = nodata_code nd * nbits in (nbits, shift))"

subsection \<open>The server\<close>

datatype LastReading = LastDataOnly | LastErrorOnly | LastData | LastError

record sensors =
  last_reading :: "LastReading option list"
  data_value :: "f32 list"
  data_time :: "u64 list"
  min_value :: "f32 list"
  min_time :: "u64 list"
  max_value :: "f32 list"
  max_time :: "u64 list"
  err_value :: "NoData list"
  err_time :: "u64 list"
  nerrors :: "u32 list"

definition sensor_init :: "nat \<Rightarrow> sensors" where
  "sensor_init n = \<lparr>last_reading = replicate n None, data_value = replicate n f32_NAN, data_time = replicate n 0,
     min_value = replicate n f32_MAX, min_time = replicate n 0, max_value = replicate n f32_MIN, max_time = replicate n 0,
     err_value = replicate n DeviceUnavailable, err_time = replicate n 0, nerrors = replicate n 0\<rparr>"

definition raw_reading :: "sensors \<Rightarrow> nat \<Rightarrow> ((NoData + f32) \<times> u64) option" where
  "raw_reading s i =
     (case last_reading s ! i of
        None \<Rightarrow> None
      | Some r \<Rightarrow> Some (
          if r = LastData \<or> r = LastDataOnly then (Inr (data_value s ! i), data_time s ! i)
          else (Inl (err_value s ! i), err_time s ! i)))"

definition get_reading :: "sensors \<Rightarrow> nat \<Rightarrow> SensorError + f32 \<times> u64" where
  "get_reading s i =
     (case raw_reading s i of
        None \<Rightarrow> Inl SErrNoReading
      | Some (Inl nd, timestamp) \<Rightarrow> Inl (sensor_error_from nd)
      | Some (Inr value, timestamp) \<Rightarrow> Inr (value, timestamp))"

definition sensor_get :: "sensors \<Rightarrow> nat \<Rightarrow> SensorError + f32" where
  "sensor_get s i = map_sum id fst (get_reading s i)"

definition get_last_data :: "sensors \<Rightarrow> nat \<Rightarrow> (f32 \<times> u64) option" where
  "get_last_data s i =
     (case last_reading s ! i of
        None \<Rightarrow> None
      | Some r \<Rightarrow> if r = LastErrorOnly then None else Some (data_value s ! i, data_time s ! i))"

definition get_last_nodata :: "sensors \<Rightarrow> nat \<Rightarrow> (NoData \<times> u64) option" where
  "get_last_nodata s i =
     (case last_reading s ! i of
        None \<Rightarrow> None
      | Some r \<Rightarrow> if r = LastDataOnly then None else Some (err_value s ! i, err_time s ! i))"

definition get_min :: "sensors \<Rightarrow> nat \<Rightarrow> f32 \<times> u64" where
  "get_min s i = (min_value s ! i, min_time s ! i)"

definition get_max :: "sensors \<Rightarrow> nat \<Rightarrow> f32 \<times> u64" where
  "get_max s i = (max_value s ! i, max_time s ! i)"

definition get_nerrors :: "sensors \<Rightarrow> nat \<Rightarrow> u32" where
  "get_nerrors s i = nerrors s ! i"

definition saturating_sub :: "u32 \<Rightarrow> u32 \<Rightarrow> u32" where
  "saturating_sub x y = (if x < y then 0 else x - y)"

definition sensor_post :: "nat \<Rightarrow> f32 \<Rightarrow> u64 \<Rightarrow> sensors \<Rightarrow> sensors" where
  "sensor_post i value timestamp s =
     (let r = (case last_reading s ! i of
                 None \<Rightarrow> LastDataOnly
               | Some l \<Rightarrow> if l = LastDataOnly then LastDataOnly else LastData);
          s = s\<lparr>last_reading := (last_reading s)[i := Some r],
                data_value := (data_value s)[i := value], data_time := (data_time s)[i := timestamp]\<rparr>;
          s = (if f32_lt value (min_value s ! i)
               then s\<lparr>min_value := (min_value s)[i := value], min_time := (min_time s)[i := timestamp]\<rparr> else s) in
      if f32_lt (max_value s ! i) value
      then s\<lparr>max_value := (max_value s)[i := value], max_time := (max_time s)[i := timestamp]\<rparr> else s)"

definition sensor_nodata :: "nat \<Rightarrow> NoData \<Rightarrow> u64 \<Rightarrow> sensors \<Rightarrow> sensors" where
  "sensor_nodata i nd timestamp s =
     (let r = (case last_reading s ! i of
                 None \<Rightarrow> LastErrorOnly
               | Some l \<Rightarrow> if l = LastErrorOnly then LastErrorOnly else LastError);
          s = s\<lparr>last_reading := (last_reading s)[i := Some r],
                err_value := (err_value s)[i := nd], err_time := (err_time s)[i := timestamp]\<rparr>;
          (nbits, shift) = counter_encoding 4 nd;
          msk = saturating_sub (push_bit nbits 1) 1;
          bitmask = push_bit shift msk;
          incr = push_bit shift 1 in
      if nerrors s ! i AND bitmask \<noteq> bitmask
      then s\<lparr>nerrors := (nerrors s)[i := nerrors s ! i + incr]\<rparr> else s)"

subsection \<open>Packed counters\<close>

text \<open>The counter for one kind of error inside the packed word.\<close>

definition counter_of :: "u32 \<Rightarrow> NoData \<Rightarrow> nat" where
  "counter_of w nd = unat w div 64 ^ nodata_code nd mod 64"

lemma counter_next:
  fixes x :: nat
  assumes "x div 64 ^ k mod 64 < 63"
  shows "(x + 64 ^ k) div 64 ^ k mod 64 = Suc (x div 64 ^ k mod 64)"
    and "j \<noteq> k \<Longrightarrow> (x + 64 ^ k) div 64 ^ j mod 64 = x div 64 ^ j mod 64"
proof -
  have s: "(x + 64 ^ k) div 64 ^ k = Suc (x div 64 ^ k)" using div_add_self2 [of "64 ^ k" x] by simp
  with assms show "(x + 64 ^ k) div 64 ^ k mod 64 = Suc (x div 64 ^ k mod 64)" by (simp add: mod_Suc)
  assume "j \<noteq> k"
  then consider d where "k = j + Suc d" | d where "j = k + Suc d"
    by (metis less_imp_Suc_add add_Suc_right linorder_neqE_nat)
  then show "(x + 64 ^ k) div 64 ^ j mod 64 = x div 64 ^ j mod 64"
  proof cases
    case 1
    then have "(x + 64 ^ k) div 64 ^ j = x div 64 ^ j + 64 * 64 ^ d"
      using div_mult_self1 [of "64 ^ j" x "64 * 64 ^ d"] by (simp add: power_add ac_simps)
    then show ?thesis by simp
  next
    case 2
    have "Suc (x div 64 ^ k) div 64 = x div 64 ^ k div 64" using assms by (simp add: div_Suc mod_Suc)
    moreover have "y div 64 ^ j = y div 64 ^ k div 64 div 64 ^ d" for y :: nat
      unfolding 2 power_add by (simp add: div_mult2_eq [symmetric] ac_simps)
    ultimately show ?thesis using s by simp
  qed
qed

lemma counter_full:
  assumes "n = nodata_code nd"
  shows "w AND push_bit (n * 6) 63 = push_bit (n * 6) 63 \<longleftrightarrow> counter_of w nd = 63"
proof -
  have n: "n * 6 + 6 \<le> 32" using assms by (cases nd) simp_all
  let ?v = "take_bit 6 (drop_bit (n * 6) w)"
  have m: "(63 :: u32) = mask 6" by (simp add: mask_eq_exp_minus_1)
  have v: "w AND push_bit (n * 6) 63 = push_bit (n * 6) ?v"
    unfolding m using n by (auto intro!: bit_word_eqI simp: bit_simps)
  have inj: "push_bit (n * 6) ?v = push_bit (n * 6) 63 \<longleftrightarrow> ?v = 63"
  proof
    assume a: "push_bit (n * 6) ?v = push_bit (n * 6) 63"
    have "bit ?v k = bit (mask 6 :: u32) k" for k
    proof (cases "k < 6")
      case True
      with n have "bit (push_bit (n * 6) ?v) (n * 6 + k) = bit (push_bit (n * 6) (63 :: u32)) (n * 6 + k)" using a by simp
      with True n show ?thesis by (simp add: m bit_simps)
    qed (simp add: bit_simps)
    then show "?v = 63" unfolding m by (auto intro: bit_eqI)
  qed simp
  have "unat ?v = take_bit 6 (drop_bit (n * 6) (unat w))" 
    using take_bit_nat_eq_self [of "unat w" 32] unat_lt_u32 [of w] by (simp add: unsigned_take_bit_eq unsigned_drop_bit_eq)
  also have "\<dots> = counter_of w nd"
    using assms power_mult [of "2 :: nat" 6 n] by (simp add: counter_of_def take_bit_eq_mod drop_bit_eq_div mult.commute)
  finally have "unat ?v = counter_of w nd" .
  then have "?v = 63 \<longleftrightarrow> counter_of w nd = 63" using word_unat_eq_iff [of ?v 63] by simp
  with v inj show ?thesis by simp
qed

lemma unat_shifted_one:
  "unat (push_bit (nodata_code nd * 6) 1 :: u32) = 64 ^ nodata_code nd"
  by (cases nd) simp_all

lemma counter_incr:
  assumes "counter_of w nd \<noteq> 63"
  shows "counter_of (w + push_bit (nodata_code nd * 6) 1) nd' = counter_of w nd' + (if nd' = nd then 1 else 0)"
proof -
  let ?k = "nodata_code nd"
  have c: "unat w div 64 ^ ?k mod 64 < 63" using assms by (simp add: counter_of_def)
  have "unat w + 64 ^ ?k < 2 ^ 32"
  proof -
    have "(64 :: nat) ^ ?k * (2 ^ 32 div 64 ^ ?k) = 2 ^ 32" by (cases nd) simp_all
    moreover have "64 dvd (2 ^ 32 div 64 ^ ?k :: nat)" by (cases nd) simp_all
    ultimately obtain q where q: "(2 :: nat) ^ 32 = 64 ^ ?k * (64 * q)" by (auto simp: dvd_def)
    have "unat w < 2 ^ 32" using unat_lt_u32 [of w] by simp
    also have "2 ^ 32 = 64 * q * 64 ^ ?k" using q by (simp only: ac_simps)
    finally have "unat w div 64 ^ ?k < 64 * q" by (rule less_mult_imp_div_less)
    moreover have "y + 1 < 64 * q" if "y mod 64 < 63" "y < 64 * q" for y
    proof -
      have "y div 64 < q" using that(2) by (simp add: less_mult_imp_div_less mult.commute)
      with that(1) div_mult_mod_eq [of y 64] show ?thesis by linarith
    qed
    ultimately have "unat w div 64 ^ ?k + 1 < 64 * q" using c by blast
    then have "(unat w div 64 ^ ?k + 2) * 64 ^ ?k \<le> 64 * q * 64 ^ ?k" by (intro mult_le_mono1) simp
    moreover have "unat w < (unat w div 64 ^ ?k + 1) * 64 ^ ?k" using dividend_less_div_times [of "64 ^ ?k" "unat w"] by (simp add: algebra_simps)
    ultimately show ?thesis unfolding q by (simp add: algebra_simps)
  qed
  then have u: "unat (w + push_bit (?k * 6) 1) = unat w + 64 ^ ?k" 
    using unat_add_nowrap [of w "push_bit (?k * 6) 1", unfolded unat_shifted_one] by simp
  have "nodata_code nd' \<noteq> ?k" if "nd' \<noteq> nd" using that by (cases nd; cases nd') simp_all
  then show ?thesis using counter_next [OF c] by (auto simp: counter_of_def u simp del: push_bit_of_1)
qed

subsection \<open>The server against the history of readings\<close>

text \<open>A request that changes the state, and the readings of one sensor in the order they came.\<close>

datatype sensor_op = Posted nat f32 u64 | Missing nat NoData u64

fun sensor_step :: "sensor_op \<Rightarrow> sensors \<Rightarrow> sensors" where
  "sensor_step (Posted i v t) = sensor_post i v t"
| "sensor_step (Missing i nd t) = sensor_nodata i nd t"

fun reading_of :: "nat \<Rightarrow> sensor_op \<Rightarrow> ((NoData + f32) \<times> u64) option" where
  "reading_of i (Posted j v t) = (if j = i then Some (Inr v, t) else None)"
| "reading_of i (Missing j nd t) = (if j = i then Some (Inl nd, t) else None)"

fun op_sensor :: "sensor_op \<Rightarrow> nat" where
  "op_sensor (Posted i _ _) = i"
| "op_sensor (Missing i _ _) = i"

definition readings :: "nat \<Rightarrow> sensor_op list \<Rightarrow> ((NoData + f32) \<times> u64) list" where
  "readings i ops = List.map_filter (reading_of i) ops"

definition datas :: "((NoData + f32) \<times> u64) list \<Rightarrow> (f32 \<times> u64) list" where
  "datas rs = List.map_filter (\<lambda>(r, t). case r of Inr v \<Rightarrow> Some (v, t) | Inl _ \<Rightarrow> None) rs"

definition errors :: "((NoData + f32) \<times> u64) list \<Rightarrow> (NoData \<times> u64) list" where
  "errors rs = List.map_filter (\<lambda>(r, t). case r of Inr _ \<Rightarrow> None | Inl nd \<Rightarrow> Some (nd, t)) rs"

definition last_opt :: "'a list \<Rightarrow> 'a option" where
  "last_opt xs = (if xs = [] then None else Some (last xs))"

definition latest :: "((NoData + f32) \<times> u64) list \<Rightarrow> LastReading option" where
  "latest rs = (if rs = [] then None else if errors rs = [] then Some LastDataOnly
     else if datas rs = [] then Some LastErrorOnly
     else Some (case fst (last rs) of Inr _ \<Rightarrow> LastData | Inl _ \<Rightarrow> LastError))"

lemma history_snoc [simp]:
  "datas (rs @ [(Inr v, t)]) = datas rs @ [(v, t)]" "errors (rs @ [(Inr v, t)]) = errors rs"
  "datas (rs @ [(Inl nd, t)]) = datas rs" "errors (rs @ [(Inl nd, t)]) = errors rs @ [(nd, t)]"
  "datas [] = []" "errors [] = []"
  by (simp_all add: datas_def errors_def map_filter_simps map_filter_def)

lemma history_empty: "datas rs = [] \<and> errors rs = [] \<longleftrightarrow> rs = []"
proof (induction rs rule: rev_induct)
  case (snoc x rs)
  then show ?case by (cases x; cases "fst x") auto
qed simp

text \<open>What the arrays hold for sensor \<open>i\<close> after the readings \<open>rs\<close>.\<close>

definition extreme :: "(f32 \<Rightarrow> f32 \<Rightarrow> bool) \<Rightarrow> f32 \<Rightarrow> (f32 \<times> u64) list \<Rightarrow> f32 \<times> u64 \<Rightarrow> bool" where
  "extreme better start ds e \<longleftrightarrow> (e = (start, 0) \<or> e \<in> set ds) \<and> (\<forall>d \<in> set ds. \<not> better (fst d) (fst e))
     \<and> (\<not> better start (fst e))"

definition tracks :: "sensors \<Rightarrow> nat \<Rightarrow> ((NoData + f32) \<times> u64) list \<Rightarrow> bool" where
  "tracks s i rs \<longleftrightarrow> last_reading s ! i = latest rs
     \<and> (datas rs \<noteq> [] \<longrightarrow> (data_value s ! i, data_time s ! i) = last (datas rs))
     \<and> (errors rs \<noteq> [] \<longrightarrow> (err_value s ! i, err_time s ! i) = last (errors rs))
     \<and> extreme f32_lt f32_MAX (datas rs) (get_min s i)
     \<and> extreme (\<lambda>x y. f32_lt y x) f32_MIN (datas rs) (get_max s i)
     \<and> (\<forall>nd. counter_of (nerrors s ! i) nd = min 63 (length (filter (\<lambda>e. fst e = nd) (errors rs))))"

definition arrays :: "nat \<Rightarrow> sensors \<Rightarrow> bool" where
  "arrays n s \<longleftrightarrow> length (last_reading s) = n \<and> length (data_value s) = n \<and> length (data_time s) = n
     \<and> length (min_value s) = n \<and> length (min_time s) = n \<and> length (max_value s) = n \<and> length (max_time s) = n
     \<and> length (err_value s) = n \<and> length (err_time s) = n \<and> length (nerrors s) = n"

lemma f32_lt_trans: "f32_lt x y \<Longrightarrow> f32_lt y z \<Longrightarrow> f32_lt x z"
  by (auto simp: f32_lt_def)

lemma f32_lt_irrefl [simp]: "\<not> f32_lt x x"
  by (simp add: f32_lt_def)

lemma extreme_snoc:
  assumes "\<And>x y z. better x y \<Longrightarrow> better y z \<Longrightarrow> better x z" and "\<And>x. \<not> better x x" and "extreme better start ds e"
  shows "extreme better start (ds @ [d]) (if better (fst d) (fst e) then d else e)"
  using assms unfolding extreme_def by (cases d) (auto split: if_splits; blast)

lemma arrays_step:
  assumes "arrays n s"
  shows "arrays n (sensor_step op s)"
  using assms
  by (cases op) (auto simp: arrays_def sensor_post_def sensor_nodata_def Let_def split: prod.splits)

lemma tracks_other:
  assumes "i \<noteq> op_sensor op"
  shows "tracks (sensor_step op s) i rs = tracks s i rs"
  using assms
  by (cases op) (simp_all add: tracks_def sensor_post_def sensor_nodata_def get_min_def get_max_def Let_def split: prod.splits)

lemma latest_snoc:
  "latest (rs @ [(Inr v, t)]) = Some (case latest rs of None \<Rightarrow> LastDataOnly
     | Some l \<Rightarrow> if l = LastDataOnly then LastDataOnly else LastData)"
  "latest (rs @ [(Inl nd, t)]) = Some (case latest rs of None \<Rightarrow> LastErrorOnly
     | Some l \<Rightarrow> if l = LastErrorOnly then LastErrorOnly else LastError)"
  using history_empty [of rs] by (auto simp: latest_def split: sum.splits)

lemma get_post:
  assumes "arrays n s" and "i < n"
  shows "get_min (sensor_post i v t s) i = (if f32_lt v (fst (get_min s i)) then (v, t) else get_min s i)"
    and "get_max (sensor_post i v t s) i = (if f32_lt (fst (get_max s i)) v then (v, t) else get_max s i)"
  using assms by (auto simp: arrays_def sensor_post_def get_min_def get_max_def Let_def)

lemma tracks_post:
  assumes "arrays n s" and "i < n" and "tracks s i rs"
  shows "tracks (sensor_post i v t s) i (rs @ [(Inr v, t)])"
proof -
  have e: "extreme f32_lt f32_MAX (datas rs @ [(v, t)]) (get_min (sensor_post i v t s) i)"
      "extreme (\<lambda>x y. f32_lt y x) f32_MIN (datas rs @ [(v, t)]) (get_max (sensor_post i v t s) i)"
    using assms(3) extreme_snoc [of f32_lt f32_MAX "datas rs" "get_min s i" "(v, t)"]
      extreme_snoc [of "\<lambda>x y. f32_lt y x" f32_MIN "datas rs" "get_max s i" "(v, t)"] f32_lt_trans
    by (auto simp: tracks_def get_post [OF assms(1,2)] split: if_splits)
  have f: "last_reading (sensor_post i v t s) ! i = latest (rs @ [(Inr v, t)])" "data_value (sensor_post i v t s) ! i = v"
      "data_time (sensor_post i v t s) ! i = t" "err_value (sensor_post i v t s) = err_value s"
      "err_time (sensor_post i v t s) = err_time s" "nerrors (sensor_post i v t s) = nerrors s"
    using assms by (simp_all add: sensor_post_def arrays_def Let_def latest_snoc tracks_def)
  show ?thesis using assms(3) e f by (simp add: tracks_def)
qed

lemma tracks_nodata:
  assumes "arrays n s" and "i < n" and "tracks s i rs"
  shows "tracks (sensor_nodata i nd t s) i (rs @ [(Inl nd, t)])"
proof -
  let ?s = "sensor_nodata i nd t s"
  have m: "saturating_sub (push_bit 6 1) 1 = 63" by (simp add: saturating_sub_def)
  have e: "nerrors ?s ! i = (if counter_of (nerrors s ! i) nd = 63 then nerrors s ! i
      else nerrors s ! i + push_bit (nodata_code nd * 6) 1)"
    using assms(1,2) counter_full [OF refl, of "nerrors s ! i" nd]
    by (simp add: sensor_nodata_def counter_encoding_def m Let_def arrays_def del: push_bit_of_1)
  have c: "counter_of (nerrors ?s ! i) nd' = min 63 (length (filter (\<lambda>e. fst e = nd') (errors rs @ [(nd, t)])))" for nd'
  proof -
    have "counter_of (nerrors s ! i) k = min 63 (length (filter (\<lambda>e. fst e = k) (errors rs)))" for k
      using assms(3) by (simp add: tracks_def)
    note c = this [of nd] this [of nd']
    show ?thesis using c counter_incr [of "nerrors s ! i" nd nd'] unfolding e by auto
  qed
  have f: "last_reading ?s ! i = latest (rs @ [(Inl nd, t)])" "err_value ?s ! i = nd" "err_time ?s ! i = t"
      "data_value ?s = data_value s" "data_time ?s = data_time s" "get_min ?s i = get_min s i" "get_max ?s i = get_max s i"
    using assms by (simp_all add: sensor_nodata_def counter_encoding_def arrays_def Let_def latest_snoc tracks_def get_min_def get_max_def)
  show ?thesis using assms(3) c f by (simp add: tracks_def del: filter_append)
qed

lemma tracks_init:
  assumes "i < n"
  shows "tracks (sensor_init n) i []"
proof -
  have "counter_of 0 nd = 0" for nd by (simp add: counter_of_def)
  then show ?thesis using assms by (simp add: tracks_def sensor_init_def latest_def extreme_def get_min_def get_max_def)
qed

lemma readings_snoc: "readings i (ops @ [op]) = readings i ops @ (case reading_of i op of None \<Rightarrow> [] | Some r \<Rightarrow> [r])"
  by (simp add: readings_def map_filter_def split: option.splits)

lemma tracks_run:
  assumes "i < n" and "\<forall>op \<in> set ops. op_sensor op < n"
  shows "arrays n (fold sensor_step ops (sensor_init n)) \<and> tracks (fold sensor_step ops (sensor_init n)) i (readings i ops)"
  using assms(2)
proof (induction ops rule: rev_induct)
  case Nil
  then show ?case using tracks_init [OF assms(1)] by (simp add: readings_def map_filter_def arrays_def sensor_init_def)
next
  case (snoc op ops)
  let ?s = "fold sensor_step ops (sensor_init n)"
  have s: "arrays n ?s" "tracks ?s i (readings i ops)" using snoc by simp_all
  have "tracks (sensor_step op ?s) i (readings i (ops @ [op]))"
  proof (cases "op_sensor op = i")
    case True
    then show ?thesis
      using tracks_post [OF s(1) assms(1) s(2)] tracks_nodata [OF s(1) assms(1) s(2)] by (cases op) (simp_all add: readings_snoc)
  next
    case False
    moreover from this have "reading_of i op = None" by (cases op) auto
    ultimately show ?thesis using s(2) by (simp add: readings_snoc tracks_other)
  qed
  with arrays_step [OF s(1)] show ?case by simp
qed

lemma tracks_last:
  assumes "tracks s i rs"
  shows "raw_reading s i = last_opt rs" "get_last_data s i = last_opt (datas rs)" "get_last_nodata s i = last_opt (errors rs)"
proof -
  note t = assms [unfolded tracks_def]
  have l: "(case fst (last rs) of Inr _ \<Rightarrow> datas rs \<noteq> [] \<and> last rs = (Inr (fst (last (datas rs))), snd (last (datas rs)))
      | Inl _ \<Rightarrow> errors rs \<noteq> [] \<and> last rs = (Inl (fst (last (errors rs))), snd (last (errors rs))))" if "rs \<noteq> []"
  proof (cases rs rule: rev_cases)
    case (snoc ys y)
    then show ?thesis by (cases y; cases "fst y") simp_all
  qed (simp add: that)
  have d: "data_value s ! i = fst (last (datas rs))" "data_time s ! i = snd (last (datas rs))" if "datas rs \<noteq> []"
    using t that by (metis fst_conv snd_conv)+
  have e: "err_value s ! i = fst (last (errors rs))" "err_time s ! i = snd (last (errors rs))" if "errors rs \<noteq> []"
    using t that by (metis fst_conv snd_conv)+
  show "get_last_data s i = last_opt (datas rs)"
    using t d history_empty [of rs] by (auto simp: get_last_data_def last_opt_def latest_def split: sum.splits)
  show "get_last_nodata s i = last_opt (errors rs)"
    using t e history_empty [of rs] by (auto simp: get_last_nodata_def last_opt_def latest_def split: sum.splits)
  show "raw_reading s i = last_opt rs"
    using t d e l history_empty [of rs] by (auto simp: raw_reading_def last_opt_def latest_def split: sum.splits)
qed

text \<open>
  C25: whatever valid sequence of readings and errors is posted, the sensor task answers every
  query from the history of the sensor alone. The raw reading is the last entry, the last data
  and the last error are the last ones of their kind. No posted number is below the minimum or
  above the maximum, and these are values posted with their time (or the start values). The
  packed counter of every kind of error is the number of such errors, saturated at 63.
\<close>

theorem sensor_history:
  assumes "sensor_id_try_new num w = Some i" and "\<forall>op \<in> set ops. \<exists>k. sensor_id_try_new num k = Some (op_sensor op)"
    and "s = fold sensor_step ops (sensor_init (unat num))" and "rs = readings i ops"
  shows "raw_reading s i = last_opt rs \<and> get_last_data s i = last_opt (datas rs) \<and> get_last_nodata s i = last_opt (errors rs)
    \<and> (\<forall>d \<in> set (datas rs). \<not> f32_lt (fst d) (fst (get_min s i)) \<and> \<not> f32_lt (fst (get_max s i)) (fst d))
    \<and> get_min s i \<in> insert (f32_MAX, 0) (set (datas rs)) \<and> get_max s i \<in> insert (f32_MIN, 0) (set (datas rs))
    \<and> (\<forall>nd. counter_of (get_nerrors s i) nd = min 63 (length (filter (\<lambda>e. fst e = nd) (errors rs))))"
proof -
  have v: "j < unat num" if "sensor_id_try_new num k = Some j" for k j
    using that by (auto simp: sensor_id_try_new_def word_le_nat_alt split: if_splits)
  have "\<forall>op \<in> set ops. op_sensor op < unat num" using assms(2) v by blast
  then have t: "tracks s i rs" using tracks_run v [OF assms(1)] assms(3,4) by blast
  then show ?thesis by (simp add: tracks_last tracks_def extreme_def get_nerrors_def)
qed

theorem sensor_history_witness:
  "raw_reading (fold sensor_step [Posted 0 0x41200000 5, Missing 0 DeviceError 6, Posted 1 0x3F800000 7] (sensor_init 2)) 0
     = Some (Inl DeviceError, 6)
   \<and> get_last_data (fold sensor_step [Posted 0 0x41200000 5, Missing 0 DeviceError 6, Posted 1 0x3F800000 7] (sensor_init 2)) 0
     = Some (0x41200000, 5)"
proof -
  let ?ops = "[Posted 0 0x41200000 5, Missing 0 DeviceError 6, Posted 1 0x3F800000 7]"
  have i: "sensor_id_try_new 2 0 = Some 0" "sensor_id_try_new 2 1 = Some 1" by (simp_all add: sensor_id_try_new_def word_le_nat_alt)
  have ops: "\<forall>op \<in> set ?ops. \<exists>k. sensor_id_try_new 2 k = Some (op_sensor op)" using i by auto
  have r: "readings 0 ?ops = [(Inr 0x41200000, 5), (Inl DeviceError, 6)]" by (simp add: readings_def map_filter_def)
  have d: "datas (readings 0 ?ops) = [(0x41200000, 5)]" unfolding r by (simp add: datas_def map_filter_def)
  show ?thesis using sensor_history [OF i(1) ops refl refl] unfolding d unfolding r by (simp add: last_opt_def)
qed

end
