(* ===== verification/Lib_Barcode.thy ===== *)
theory Lib_Barcode
  imports Kern_Prelude
begin

section \<open>Barcodes\<close>

text \<open>
  \<^verbatim>\<open>lib/oxide-barcode\<close>: the identity of a part and the parser of its barcode. Bytes are words, a slice
  is a list, \<^verbatim>\<open>split\<close> and the parser of decimal numbers are those of the standard library. A
  revision that is not UTF-8 and one that is not a number are the same error, so the decoding of
  UTF-8 is left out.
\<close>

datatype ParseError = MissingVersion | MissingPartNumber | MissingRevision | MissingSerial | UnexpectedFields | UnknownVersion
  | WrongPartNumberLength | WrongSerialLength | BadRevision

record VpdIdentity =
  part_number :: "u8 list"
  vpd_revision :: u32
  vpd_serial :: "u8 list"

definition PART_NUMBER_LEN :: nat where "PART_NUMBER_LEN = 11"
definition SERIAL_LEN :: nat where "SERIAL_LEN = 11"

definition colon :: u8 where "colon = 0x3A"

fun split_fields :: "u8 list \<Rightarrow> u8 list list" where
  "split_fields [] = [[]]"
| "split_fields (b # bs) =
     (if b = colon then [] # split_fields bs
      else (case split_fields bs of [] \<Rightarrow> [[b]] | f # fs \<Rightarrow> (b # f) # fs))"

fun parse_digits :: "u8 list \<Rightarrow> u32 \<Rightarrow> u32 option" where
  "parse_digits [] acc = Some acc"
| "parse_digits (c # cs) acc =
     (if 0x30 \<le> c \<and> c \<le> 0x39 then
        (case checked_mul acc 10 of None \<Rightarrow> None | Some m \<Rightarrow>
         (case checked_add m (ucast (c - 0x30)) of None \<Rightarrow> None | Some n \<Rightarrow> parse_digits cs n))
      else None)"

definition parse_u32 :: "u8 list \<Rightarrow> u32 option" where
  "parse_u32 src = (let digits = (if src \<noteq> [] \<and> hd src = 0x2B then tl src else src) in
     if digits = [] then None else parse_digits digits 0)"

definition OXV1 :: "u8 list" where "OXV1 = [0x4F, 0x58, 0x56, 0x31]"
definition ZXV1 :: "u8 list" where "ZXV1 = [0x30, 0x58, 0x56, 0x31]"
definition OXV2 :: "u8 list" where "OXV2 = [0x4F, 0x58, 0x56, 0x32]"
definition ZXV2 :: "u8 list" where "ZXV2 = [0x30, 0x58, 0x56, 0x32]"

definition barcode_part_number :: "u8 list \<Rightarrow> u8 list \<Rightarrow> ParseError + u8 list" where
  "barcode_part_number version pn =
     (if version = OXV1 \<or> version = ZXV1 then
        (if length pn \<noteq> PART_NUMBER_LEN - 1 then Inl WrongPartNumberLength else Inr (take 3 pn @ [0x2D] @ drop 3 pn))
      else if version = OXV2 \<or> version = ZXV2 then
        (if length pn \<noteq> PART_NUMBER_LEN then Inl WrongPartNumberLength else Inr pn)
      else Inl UnknownVersion)"

definition barcode_parse :: "u8 list \<Rightarrow> ParseError + VpdIdentity" where
  "barcode_parse barcode =
     (case split_fields barcode of
        [] \<Rightarrow> Inl MissingVersion
      | [version] \<Rightarrow> Inl MissingPartNumber
      | [version, pn] \<Rightarrow> Inl MissingRevision
      | [version, pn, rv] \<Rightarrow> Inl MissingSerial
      | [version, pn, rv, sn] \<Rightarrow>
          (case barcode_part_number version pn of
             Inl e \<Rightarrow> Inl e
           | Inr pn \<Rightarrow>
               (case parse_u32 rv of
                  None \<Rightarrow> Inl BadRevision
                | Some r \<Rightarrow>
                    if length sn \<noteq> SERIAL_LEN then Inl WrongSerialLength
                    else Inr \<lparr>part_number = pn, vpd_revision = r, vpd_serial = sn\<rparr>))
      | _ \<Rightarrow> Inl UnexpectedFields)"

subsection \<open>Fields\<close>

lemma split_fields_plain: "colon \<notin> set f \<Longrightarrow> split_fields f = [f]"
  by (induction f) auto

lemma split_fields_colon: "colon \<notin> set f \<Longrightarrow> split_fields (f @ colon # rest) = f # split_fields rest"
  by (induction f) auto

lemma split_fields_ne [simp]: "split_fields bs \<noteq> []"
  by (induction bs) (auto split: list.splits)

subsection \<open>Decimal numbers\<close>

text \<open>The digits of a number, most significant first.\<close>

fun decimal :: "nat \<Rightarrow> u8 list" where
  "decimal n = (if n < 10 then [0x30 + word_of_nat n] else decimal (n div 10) @ [0x30 + word_of_nat (n mod 10)])"

declare decimal.simps [simp del]

lemma digit_word:
  assumes "d < 10"
  shows "0x30 \<le> (0x30 + word_of_nat d :: u8)" "(0x30 + word_of_nat d :: u8) \<le> 0x39" "0x30 + word_of_nat d \<noteq> colon"
    "0x30 + word_of_nat d \<noteq> (0x2B :: u8)" "ucast (0x30 + word_of_nat d - 0x30 :: u8) = (word_of_nat d :: u32)"
proof -
  have "d = 0 \<or> d = 1 \<or> d = 2 \<or> d = 3 \<or> d = 4 \<or> d = 5 \<or> d = 6 \<or> d = 7 \<or> d = 8 \<or> d = 9" using assms by arith
  then show "0x30 \<le> (0x30 + word_of_nat d :: u8)" "(0x30 + word_of_nat d :: u8) \<le> 0x39" "0x30 + word_of_nat d \<noteq> colon"
    "0x30 + word_of_nat d \<noteq> (0x2B :: u8)" "ucast (0x30 + word_of_nat d - 0x30 :: u8) = (word_of_nat d :: u32)"
    by (elim disjE; simp add: colon_def word_le_nat_alt)+
qed

lemma parse_digits_append:
  "parse_digits (xs @ ys) acc = (case parse_digits xs acc of None \<Rightarrow> None | Some a \<Rightarrow> parse_digits ys a)"
  by (induction xs acc rule: parse_digits.induct) (auto split: option.splits)

lemma parse_digits_step:
  assumes "n * 10 + d < 2 ^ 32" "d < 10"
  shows "parse_digits [0x30 + word_of_nat d] (word_of_nat n) = Some (word_of_nat (n * 10 + d))"
proof -
  have u: "unat (word_of_nat n :: u32) = n" "unat (word_of_nat d :: u32) = d" using assms by (simp_all add: unsigned_of_nat take_bit_nat_eq_self)
  have "checked_mul (word_of_nat n :: u32) 10 = Some (word_of_nat n * 10)" using assms u by (simp add: checked_mul_def)
  moreover have "unat (word_of_nat n * 10 :: u32) = n * 10" using u assms by (subst unat_mult_nowrap) simp_all
  then have "checked_add (word_of_nat n * 10 :: u32) (word_of_nat d) = Some (word_of_nat n * 10 + word_of_nat d)"
    using u assms by (simp add: checked_add_def)
  ultimately show ?thesis using digit_word [OF assms(2)] by simp
qed

lemma parse_decimal: "n < 2 ^ 32 \<Longrightarrow> parse_digits (decimal n) 0 = Some (word_of_nat n)"
proof (induction n rule: decimal.induct)
  case (1 n)
  show ?case
  proof (cases "n < 10")
    case True
    then show ?thesis using parse_digits_step [of 0 n] by (simp add: decimal.simps [of n] del: parse_digits.simps)
  next
    case False
    then have "parse_digits (decimal (n div 10)) 0 = Some (word_of_nat (n div 10))" using 1 by simp
    moreover have "n div 10 * 10 + n mod 10 = n" by simp
    moreover from this have "parse_digits [0x30 + word_of_nat (n mod 10)] (word_of_nat (n div 10)) = Some (word_of_nat n)"
      using parse_digits_step [of "n div 10" "n mod 10"] "1.prems" by simp
    ultimately show ?thesis using False by (simp add: decimal.simps [of n] parse_digits_append del: parse_digits.simps)
  qed
qed

lemma parse_zeros: "parse_digits (replicate k 0x30 @ ds) 0 = parse_digits ds 0"
  by (induction k) (simp_all add: checked_mul_def checked_add_def)

lemma decimal_chars: "c \<in> set (decimal n) \<Longrightarrow> c \<noteq> colon \<and> c \<noteq> 0x2B"
  by (induction n rule: decimal.induct) (subst (asm) decimal.simps, auto simp: digit_word split: if_splits)

lemma decimal_ne: "decimal n \<noteq> []"
  by (subst decimal.simps) simp

lemma parse_u32_decimal: "n < 2 ^ 32 \<Longrightarrow> parse_u32 (replicate k 0x30 @ decimal n) = Some (word_of_nat n)"
proof -
  assume n: "n < 2 ^ 32"
  have "hd (replicate k 0x30 @ decimal n) \<noteq> 0x2B"
    using decimal_chars [of "hd (decimal n)" n] decimal_ne [of n] by (cases k) simp_all
  then show ?thesis using parse_zeros [of k "decimal n"] parse_decimal [OF n] decimal_ne [of n] by (simp add: parse_u32_def Let_def)
qed

subsection \<open>Parsing\<close>

fun join_fields :: "u8 list list \<Rightarrow> u8 list" where
  "join_fields [] = []"
| "join_fields [f] = f"
| "join_fields (f # fs) = f @ colon # join_fields fs"

lemma join_split: "join_fields (split_fields bs) = bs"
proof (induction bs)
  case (Cons b bs)
  obtain f fs where "split_fields bs = f # fs" by (cases "split_fields bs") auto
  with Cons show ?case by (cases fs) (auto simp: colon_def)
qed simp

lemma fields_plain: "f \<in> set (split_fields bs) \<Longrightarrow> colon \<notin> set f"
  by (induction bs arbitrary: f) (auto split: list.splits if_splits)

text \<open>What the two versions of a barcode say of the part number.\<close>

definition part_number_field :: "u8 list \<Rightarrow> u8 list \<Rightarrow> u8 list \<Rightarrow> bool" where
  "part_number_field version pn p \<longleftrightarrow>
     (version \<in> {OXV1, ZXV1} \<and> length pn = 10 \<and> p = take 3 pn @ [0x2D] @ drop 3 pn) \<or> (version \<in> {OXV2, ZXV2} \<and> length pn = 11 \<and> p = pn)"

lemma barcode_part_number_iff: "barcode_part_number version pn = Inr p \<longleftrightarrow> part_number_field version pn p"
  by (auto simp: barcode_part_number_def part_number_field_def PART_NUMBER_LEN_def OXV1_def ZXV1_def OXV2_def ZXV2_def)

lemma barcode_parse_fields:
  "barcode_parse bs = Inr ident \<longleftrightarrow> (\<exists>version pn rv. split_fields bs = [version, pn, rv, vpd_serial ident]
     \<and> part_number_field version pn (part_number ident) \<and> parse_u32 rv = Some (vpd_revision ident) \<and> length (vpd_serial ident) = 11)"
  unfolding barcode_part_number_iff [symmetric]
  by (cases ident) (auto simp: barcode_parse_def SERIAL_LEN_def split: list.splits sum.splits option.splits)

text \<open>
  The parser of barcodes accepts exactly the texts of four fields, none of which contains a
  colon, with a known version, a part number of the length of that version, a decimal revision of
  32 bits and a serial number of eleven bytes, and returns these fields, with the hyphen inserted
  into the part number of version 1. Printing an identity, with the revision padded to any width,
  and parsing the result gives the identity back.
\<close>

theorem barcode_roundtrip:
  "(barcode_parse bs = Inr ident \<longleftrightarrow> (\<exists>version pn rv.
      bs = version @ colon # pn @ colon # rv @ colon # vpd_serial ident
      \<and> colon \<notin> set version \<union> set pn \<union> set rv \<union> set (vpd_serial ident) \<and> part_number_field version pn (part_number ident)
      \<and> parse_u32 rv = Some (vpd_revision ident) \<and> length (vpd_serial ident) = 11))
   \<and> (colon \<notin> set pn \<union> set (vpd_serial ident) \<and> length (vpd_serial ident) = 11 \<and> part_number_field version pn (part_number ident) \<longrightarrow>
      barcode_parse (version @ colon # pn @ colon # (replicate k 0x30 @ decimal (unat (vpd_revision ident))) @ colon # vpd_serial ident)
        = Inr ident)"
proof -
  have split4: "split_fields (a @ colon # b @ colon # c @ colon # d) = [a, b, c, d]"
    if "colon \<notin> set a \<union> set b \<union> set c \<union> set d" for a b c d
    using that by (simp add: split_fields_colon split_fields_plain)
  have ver: "colon \<notin> set version" if "part_number_field version pn p" for version pn p
    using that by (auto simp: part_number_field_def colon_def OXV1_def ZXV1_def OXV2_def ZXV2_def)
  have iff: "barcode_parse bs = Inr ident \<longleftrightarrow> (\<exists>version pn rv.
      bs = version @ colon # pn @ colon # rv @ colon # vpd_serial ident
      \<and> colon \<notin> set version \<union> set pn \<union> set rv \<union> set (vpd_serial ident) \<and> part_number_field version pn (part_number ident)
      \<and> parse_u32 rv = Some (vpd_revision ident) \<and> length (vpd_serial ident) = 11)" for bs
  proof
    assume "barcode_parse bs = Inr ident"
    then obtain version pn rv where f: "split_fields bs = [version, pn, rv, vpd_serial ident]" "part_number_field version pn (part_number ident)"
        "parse_u32 rv = Some (vpd_revision ident)" "length (vpd_serial ident) = 11"
      unfolding barcode_parse_fields by blast
    have "bs = version @ colon # pn @ colon # rv @ colon # vpd_serial ident" using join_split [of bs] f(1) by simp
    moreover have "colon \<notin> set version \<union> set pn \<union> set rv \<union> set (vpd_serial ident)" using fields_plain [of _ bs] f(1) by simp
    ultimately show "\<exists>version pn rv. bs = version @ colon # pn @ colon # rv @ colon # vpd_serial ident
        \<and> colon \<notin> set version \<union> set pn \<union> set rv \<union> set (vpd_serial ident) \<and> part_number_field version pn (part_number ident)
        \<and> parse_u32 rv = Some (vpd_revision ident) \<and> length (vpd_serial ident) = 11"
      using f(2-4) by blast
  qed (use split4 in \<open>fastforce simp: barcode_parse_fields\<close>)
  have "colon \<notin> set (replicate k 0x30 @ decimal (unat (vpd_revision ident)))" using decimal_chars by (auto simp: colon_def)
  moreover have "parse_u32 (replicate k 0x30 @ decimal (unat (vpd_revision ident))) = Some (vpd_revision ident)"
    using parse_u32_decimal [of "unat (vpd_revision ident)" k] by simp
  ultimately show ?thesis using iff ver by blast
qed

theorem barcode_roundtrip_witness:
  "barcode_parse (ZXV1 @ colon # [0x31, 0x32, 0x33, 0x30, 0x30, 0x30, 0x30, 0x34, 0x35, 0x36] @ colon # (replicate 1 0x30 @ decimal (unat (23 :: u32)))
     @ colon # replicate 11 0x54)
   = Inr \<lparr>part_number = [0x31, 0x32, 0x33, 0x2D, 0x30, 0x30, 0x30, 0x30, 0x34, 0x35, 0x36], vpd_revision = 23, vpd_serial = replicate 11 0x54\<rparr>"
  using barcode_roundtrip [where version = ZXV1 and k = 1 and pn = "[0x31, 0x32, 0x33, 0x30, 0x30, 0x30, 0x30, 0x34, 0x35, 0x36]"
      and ident = "\<lparr>part_number = [0x31, 0x32, 0x33, 0x2D, 0x30, 0x30, 0x30, 0x30, 0x34, 0x35, 0x36], vpd_revision = 23, vpd_serial = replicate 11 0x54\<rparr>"]
  by (simp add: part_number_field_def colon_def)

end
