(* ===== verification/Task_Packrat.thy ===== *)
theory Task_Packrat
  imports Lib_Barcode
begin

section \<open>The cache of the board's data\<close>

text \<open>
  \<^verbatim>\<open>task/packrat\<close>: values that may be set once, the host's startup options and the contents of the
  memory modules' EEPROMs (the feature \<^verbatim>\<open>gimlet\<close>). The task is built with overflow checks; an index or a
  sum out of range is a panic. The sizes that the external crate \<^verbatim>\<open>spd\<close> defines are the record
  \<open>spd_sizes\<close>. A lease has a length, checked against its limit before the handler runs; reading it
  yields bytes and a flag that says whether the client was still there, and on failure the bytes
  may be anything.
\<close>

subsection \<open>State\<close>

record MacAddressBlock =
  base_mac :: "u8 list"
  mac_count :: u16
  mac_stride :: u8

record spd_sizes =
  MAX_SIZE :: nat
  MAX_DEVICES :: nat
  PAGE_SIZE :: nat

definition NUM_SPD_BANKS :: nat where "NUM_SPD_BANKS = 2"

definition SPD_DATA_LEN :: "spd_sizes \<Rightarrow> nat" where
  "SPD_DATA_LEN z = NUM_SPD_BANKS * MAX_SIZE z * MAX_DEVICES z"

definition SPD_PRESENT_LEN :: "spd_sizes \<Rightarrow> nat" where
  "SPD_PRESENT_LEN z = NUM_SPD_BANKS * MAX_DEVICES z"

record GimletData =
  host_startup_options :: u64
  spd_present :: "bool list"
  spd_data :: "u8 list"

record packrat =
  mac_address_block :: "MacAddressBlock option"
  identity :: "VpdIdentity option"
  gimlet_data :: "GimletData option"

datatype packrat_error = ValueNotSet | ValueAlreadySet | ClientBadContents | ClientBadLease | ClientWentAway

datatype 'a packrat_reply = Reply 'a | Fail packrat_error | PackratPanic

definition STARTUP_PROM :: u64 where "STARTUP_PROM = 2 ^ 3"
definition STARTUP_KMDB :: u64 where "STARTUP_KMDB = 2 ^ 4"
definition STARTUP_VERBOSE :: u64 where "STARTUP_VERBOSE = 2 ^ 8"

definition default_host_startup_options :: "bool \<Rightarrow> u64" where
  "default_host_startup_options boot_kmdb = (if boot_kmdb then or (or STARTUP_KMDB STARTUP_PROM) STARTUP_VERBOSE else 0)"

definition gimlet_new :: "spd_sizes \<Rightarrow> u64 \<Rightarrow> GimletData" where
  "gimlet_new z options = \<lparr>host_startup_options = options, spd_present = replicate (SPD_PRESENT_LEN z) False,
     spd_data = replicate (SPD_DATA_LEN z) 0\<rparr>"

definition packrat_init :: "GimletData option \<Rightarrow> packrat" where
  "packrat_init g = \<lparr>mac_address_block = None, identity = None, gimlet_data = g\<rparr>"

subsection \<open>Values that are set once\<close>

definition set_once :: "'a option \<Rightarrow> 'a \<Rightarrow> unit packrat_reply \<times> 'a option" where
  "set_once storage v =
     (case storage of
        Some prev \<Rightarrow> if prev = v then (Reply (), storage) else (Fail ValueAlreadySet, storage)
      | None \<Rightarrow> (Reply (), Some v))"

definition get_cached :: "'a option \<Rightarrow> 'a packrat_reply" where
  "get_cached storage = (case storage of None \<Rightarrow> Fail ValueNotSet | Some v \<Rightarrow> Reply v)"

definition get_mac_address_block :: "packrat \<Rightarrow> MacAddressBlock packrat_reply" where
  "get_mac_address_block s = get_cached (mac_address_block s)"

definition set_mac_address_block :: "MacAddressBlock \<Rightarrow> packrat \<Rightarrow> unit packrat_reply \<times> packrat" where
  "set_mac_address_block macs s = (let (r, m) = set_once (mac_address_block s) macs in (r, s\<lparr>mac_address_block := m\<rparr>))"

definition get_identity :: "packrat \<Rightarrow> VpdIdentity packrat_reply" where
  "get_identity s = get_cached (identity s)"

definition set_identity :: "VpdIdentity \<Rightarrow> packrat \<Rightarrow> unit packrat_reply \<times> packrat" where
  "set_identity ident s = (let (r, m) = set_once (identity s) ident in (r, s\<lparr>identity := m\<rparr>))"

subsection \<open>Data of a Gimlet\<close>

definition get_next_boot_host_startup_options :: "packrat \<Rightarrow> u64 packrat_reply" where
  "get_next_boot_host_startup_options s =
     (case gimlet_data s of None \<Rightarrow> Fail ClientBadContents | Some g \<Rightarrow> Reply (host_startup_options g))"

definition set_next_boot_host_startup_options :: "u64 \<Rightarrow> packrat \<Rightarrow> unit packrat_reply \<times> packrat" where
  "set_next_boot_host_startup_options options s =
     (case gimlet_data s of
        None \<Rightarrow> (Fail ClientBadContents, s)
      | Some g \<Rightarrow> (Reply (), s\<lparr>gimlet_data := Some (g\<lparr>host_startup_options := options\<rparr>)\<rparr>))"

definition gimlet_set_spd_eeprom :: "spd_sizes \<Rightarrow> u8 \<Rightarrow> bool \<Rightarrow> u8 \<Rightarrow> nat \<Rightarrow> u8 list \<times> bool \<Rightarrow> GimletData \<Rightarrow> unit packrat_reply \<times> GimletData" where
  "gimlet_set_spd_eeprom z index page1 offset len rd g =
     (let eeprom_base = MAX_SIZE z * unat index;
          eeprom_offset = PAGE_SIZE z * (if page1 then 1 else 0) + unat offset in
      if MAX_SIZE z < eeprom_offset + len then (Fail ClientBadContents, g)
      else
        (let addr = eeprom_base + eeprom_offset in
         if length (spd_data g) < addr + len then (Fail ClientBadContents, g)
         else if length (spd_present g) \<le> unat index then (PackratPanic, g)
         else
           (let g = g\<lparr>spd_present := (spd_present g)[unat index := True],
                      spd_data := take addr (spd_data g) @ fst rd @ drop (addr + len) (spd_data g)\<rparr> in
            (if snd rd then Reply () else Fail ClientWentAway, g))))"

definition gimlet_get_spd_present :: "nat \<Rightarrow> GimletData \<Rightarrow> bool packrat_reply" where
  "gimlet_get_spd_present index g = (if index < length (spd_present g) then Reply (spd_present g ! index) else Fail ClientBadContents)"

definition gimlet_get_spd_data :: "nat \<Rightarrow> GimletData \<Rightarrow> u8 packrat_reply" where
  "gimlet_get_spd_data index g = (if index < length (spd_data g) then Reply (spd_data g ! index) else Fail ClientBadContents)"

text \<open>The reply carries what is written into the client's lease; \<open>gone\<close> says that the client has left.\<close>

definition gimlet_get_full_spd_data :: "spd_sizes \<Rightarrow> u32 \<Rightarrow> nat \<Rightarrow> bool \<Rightarrow> GimletData \<Rightarrow> u8 list packrat_reply" where
  "gimlet_get_full_spd_data z dev out_len gone g =
     (if out_len \<noteq> MAX_SIZE z then Fail ClientBadLease
      else if 2 ^ 32 \<le> unat dev + 1 \<or> 2 ^ 32 \<le> (unat dev + 1) * MAX_SIZE z then PackratPanic
      else if (unat dev + 1) * MAX_SIZE z \<le> length (spd_data g) then
        (if gone then Fail ClientWentAway else Reply (take (MAX_SIZE z) (drop (unat dev * MAX_SIZE z) (spd_data g))))
      else Fail ClientBadContents)"

definition set_spd_eeprom :: "spd_sizes \<Rightarrow> u8 \<Rightarrow> bool \<Rightarrow> u8 \<Rightarrow> nat \<Rightarrow> u8 list \<times> bool \<Rightarrow> packrat \<Rightarrow> unit packrat_reply \<times> packrat" where
  "set_spd_eeprom z index page1 offset len rd s =
     (case gimlet_data s of
        None \<Rightarrow> (Fail ClientBadContents, s)
      | Some g \<Rightarrow> (let (r, g) = gimlet_set_spd_eeprom z index page1 offset len rd g in (r, s\<lparr>gimlet_data := Some g\<rparr>)))"

definition get_spd_present :: "nat \<Rightarrow> packrat \<Rightarrow> bool packrat_reply" where
  "get_spd_present index s = (case gimlet_data s of None \<Rightarrow> Fail ClientBadContents | Some g \<Rightarrow> gimlet_get_spd_present index g)"

definition get_spd_data :: "nat \<Rightarrow> packrat \<Rightarrow> u8 packrat_reply" where
  "get_spd_data index s = (case gimlet_data s of None \<Rightarrow> Fail ClientBadContents | Some g \<Rightarrow> gimlet_get_spd_data index g)"

definition get_full_spd_data :: "spd_sizes \<Rightarrow> u32 \<Rightarrow> nat \<Rightarrow> bool \<Rightarrow> packrat \<Rightarrow> u8 list packrat_reply" where
  "get_full_spd_data z dev out_len gone s =
     (case gimlet_data s of None \<Rightarrow> Fail ClientBadContents | Some g \<Rightarrow> gimlet_get_full_spd_data z dev out_len gone g)"

subsection \<open>Sequences of requests\<close>

datatype packrat_op = OpSetMac MacAddressBlock | OpSetIdentity VpdIdentity | OpSetOptions u64 | OpSetSpd u8 bool u8 "u8 list \<times> bool"

fun packrat_step :: "spd_sizes \<Rightarrow> packrat_op \<Rightarrow> packrat \<Rightarrow> unit packrat_reply \<times> packrat" where
  "packrat_step z (OpSetMac m) s = set_mac_address_block m s"
| "packrat_step z (OpSetIdentity i) s = set_identity i s"
| "packrat_step z (OpSetOptions p) s = set_next_boot_host_startup_options p s"
| "packrat_step z (OpSetSpd index page1 offset rd) s = set_spd_eeprom z index page1 offset (length (fst rd)) rd s"

fun packrat_run :: "spd_sizes \<Rightarrow> packrat_op list \<Rightarrow> packrat \<Rightarrow> unit packrat_reply list \<times> packrat" where
  "packrat_run z [] s = ([], s)"
| "packrat_run z (p # ps) s = (let (r, s) = packrat_step z p s; (rs, s) = packrat_run z ps s in (r # rs, s))"

text \<open>The abstract view of a value that is set once: the first value asked for.\<close>

definition macs_of :: "packrat_op list \<Rightarrow> MacAddressBlock list" where
  "macs_of ps = List.map_filter (\<lambda>p. case p of OpSetMac m \<Rightarrow> Some m | _ \<Rightarrow> None) ps"

definition identities_of :: "packrat_op list \<Rightarrow> VpdIdentity list" where
  "identities_of ps = List.map_filter (\<lambda>p. case p of OpSetIdentity i \<Rightarrow> Some i | _ \<Rightarrow> None) ps"

definition first_of :: "'a option \<Rightarrow> 'a list \<Rightarrow> 'a option" where
  "first_of prev xs = (case prev of Some v \<Rightarrow> Some v | None \<Rightarrow> (case xs of [] \<Rightarrow> None | x # _ \<Rightarrow> Some x))"

lemma first_of_simps [simp]: "first_of (Some v) xs = Some v" "first_of None [] = None" "first_of None (x # xs) = Some x" "first_of p [] = p"
  by (auto simp: first_of_def split: option.splits)

lemma of_simps [simp]:
  "macs_of [] = []" "macs_of (OpSetMac m # ps) = m # macs_of ps" "macs_of (OpSetIdentity i # ps) = macs_of ps"
  "macs_of (OpSetOptions p # ps) = macs_of ps" "macs_of (OpSetSpd a b c rd # ps) = macs_of ps"
  "identities_of [] = []" "identities_of (OpSetMac m # ps) = identities_of ps" "identities_of (OpSetIdentity i # ps) = i # identities_of ps"
  "identities_of (OpSetOptions p # ps) = identities_of ps" "identities_of (OpSetSpd a b c rd # ps) = identities_of ps"
  by (simp_all add: macs_of_def identities_of_def map_filter_simps)

lemma set_spd_same:
  "set_spd_eeprom z index page1 offset len rd s = (r, s') \<Longrightarrow> mac_address_block s' = mac_address_block s \<and> identity s' = identity s"
  by (auto simp: set_spd_eeprom_def split: option.splits prod.splits)

lemma packrat_run_length: "packrat_run z ps s = (rs, s') \<Longrightarrow> length rs = length ps"
  by (induction ps arbitrary: s rs) (auto split: prod.splits)

text \<open>
  The address block and the identity of the board can be set once. After any sequence of
  requests the cache holds the first value that was asked for (or what it held before), which is
  what every later query returns, and a request to set one of them is answered with success
  exactly when it asks for that value.
\<close>

theorem packrat_first_value_wins:
  assumes "packrat_run z ps s = (rs, s')"
  shows "mac_address_block s' = first_of (mac_address_block s) (macs_of ps)
    \<and> identity s' = first_of (identity s) (identities_of ps)
    \<and> (\<forall>k < length ps. (\<forall>m. ps ! k = OpSetMac m \<longrightarrow> rs ! k = (if mac_address_block s' = Some m then Reply () else Fail ValueAlreadySet))
        \<and> (\<forall>i. ps ! k = OpSetIdentity i \<longrightarrow> rs ! k = (if identity s' = Some i then Reply () else Fail ValueAlreadySet)))"
  using assms
proof (induction ps arbitrary: s rs)
  case (Cons p ps)
  obtain r s1 rs1 where r: "packrat_step z p s = (r, s1)" "packrat_run z ps s1 = (rs1, s')" "rs = r # rs1"
    using Cons.prems by (auto split: prod.splits)
  note IH = Cons.IH [OF r(2)]
  have step: "mac_address_block s1 = first_of (mac_address_block s) (macs_of [p]) \<and> identity s1 = first_of (identity s) (identities_of [p])"
    using r(1) by (cases p)
      (auto simp: set_mac_address_block_def set_identity_def set_next_boot_host_startup_options_def set_once_def
        dest: set_spd_same split: option.splits if_splits prod.splits)
  have mac: "mac_address_block s' = first_of (mac_address_block s) (macs_of (p # ps))" and ident: "identity s' = first_of (identity s) (identities_of (p # ps))"
    using step IH by (cases p; cases "mac_address_block s"; cases "identity s"; auto)+
  have head: "(\<forall>m. p = OpSetMac m \<longrightarrow> r = (if mac_address_block s' = Some m then Reply () else Fail ValueAlreadySet))
      \<and> (\<forall>i. p = OpSetIdentity i \<longrightarrow> r = (if identity s' = Some i then Reply () else Fail ValueAlreadySet))"
    using r(1) mac ident
    by (auto simp: set_mac_address_block_def set_identity_def set_once_def split: option.splits if_splits prod.splits)
  have "(\<forall>m. (p # ps) ! k = OpSetMac m \<longrightarrow> rs ! k = (if mac_address_block s' = Some m then Reply () else Fail ValueAlreadySet))
        \<and> (\<forall>i. (p # ps) ! k = OpSetIdentity i \<longrightarrow> rs ! k = (if identity s' = Some i then Reply () else Fail ValueAlreadySet))"
    if "k < length (p # ps)" for k
    using head IH that r(3) by (cases k) auto
  with mac ident show ?case by blast
qed simp

theorem packrat_first_value_wins_witness:
  "\<exists>z a b i rs s'. a \<noteq> b
    \<and> packrat_run z [OpSetMac a, OpSetOptions 3, OpSetMac b, OpSetIdentity i, OpSetMac a] (packrat_init (Some (gimlet_new z 0))) = (rs, s')
    \<and> mac_address_block s' = Some a \<and> identity s' = Some i \<and> rs ! 2 = Fail ValueAlreadySet \<and> rs ! 4 = Reply ()"
proof -
  define z where "z = \<lparr>MAX_SIZE = 512, MAX_DEVICES = 8, PAGE_SIZE = 256\<rparr>"
  define a where "a = \<lparr>base_mac = [2, 8, 32, 0, 0, 1], mac_count = 4, mac_stride = 1\<rparr>"
  define b where "b = \<lparr>base_mac = [2, 8, 32, 0, 0, 2], mac_count = 4, mac_stride = 1\<rparr>"
  define i where "i = \<lparr>part_number = [57], vpd_revision = 3, vpd_serial = [66]\<rparr>"
  define ps where "ps = [OpSetMac a, OpSetOptions 3, OpSetMac b, OpSetIdentity i, OpSetMac a]"
  have ab: "a \<noteq> b" by (simp add: a_def b_def)
  obtain rs s' where run: "packrat_run z ps (packrat_init (Some (gimlet_new z 0))) = (rs, s')" by fastforce
  note first = packrat_first_value_wins [OF run]
  have "mac_address_block s' = Some a" "identity s' = Some i"
    using first by (simp_all add: ps_def packrat_init_def)
  moreover have "rs ! 2 = Fail ValueAlreadySet" "rs ! 4 = Reply ()"
    using first ab calculation by (force simp: ps_def dest: spec [of _ 2] spec [of _ 4])+
  ultimately show ?thesis using ab run unfolding ps_def by blast
qed

subsection \<open>The memory modules' data\<close>

lemma splice_nth:
  "addr + length xs \<le> length ys \<Longrightarrow> a < length ys \<Longrightarrow>
   (take addr ys @ xs @ drop (addr + length xs) ys) ! a = (if addr \<le> a \<and> a < addr + length xs then xs ! (a - addr) else ys ! a)"
  by (auto simp: nth_append)

text \<open>What a write to module \<open>index\<close> touches.\<close>

definition eeprom_offset_of :: "spd_sizes \<Rightarrow> bool \<Rightarrow> u8 \<Rightarrow> nat" where
  "eeprom_offset_of z page1 offset = PAGE_SIZE z * (if page1 then 1 else 0) + unat offset"

definition spd_wf :: "spd_sizes \<Rightarrow> GimletData \<Rightarrow> bool" where
  "spd_wf z g \<longleftrightarrow> 0 < MAX_SIZE z \<and> length (spd_present g) = SPD_PRESENT_LEN z \<and> length (spd_data g) = SPD_DATA_LEN z"

lemma spd_data_len: "SPD_DATA_LEN z = MAX_SIZE z * SPD_PRESENT_LEN z"
  by (simp add: SPD_DATA_LEN_def SPD_PRESENT_LEN_def)

lemma module_fits_iff:
  fixes m i n e :: nat
  assumes "0 < m" "e \<le> m"
  shows "m * i + e \<le> m * n \<longleftrightarrow> i < n \<or> (i = n \<and> e = 0)"
proof -
  consider "i < n" | "i = n" | "n < i" by linarith
  then show ?thesis
  proof cases
    case 1
    then have "m * Suc i \<le> m * n" by (intro mult_le_mono2) simp
    then show ?thesis using 1 assms by simp
  next
    case 3
    then have "m * Suc n \<le> m * i" by (intro mult_le_mono2) simp
    then show ?thesis using 3 assms by simp
  qed simp
qed

lemma set_spd_cases:
  assumes wf: "spd_wf z g" and len: "length (fst rd) = len"
    and fit: "eeprom_offset_of z page1 offset + len \<le> MAX_SIZE z"
  shows "gimlet_set_spd_eeprom z index page1 offset len rd g =
    (if unat index < SPD_PRESENT_LEN z then
       (if snd rd then Reply () else Fail ClientWentAway,
        g\<lparr>spd_present := (spd_present g)[unat index := True],
          spd_data := take (MAX_SIZE z * unat index + eeprom_offset_of z page1 offset) (spd_data g) @ fst rd
            @ drop (MAX_SIZE z * unat index + eeprom_offset_of z page1 offset + len) (spd_data g)\<rparr>)
     else (if unat index = SPD_PRESENT_LEN z \<and> eeprom_offset_of z page1 offset + len = 0 then PackratPanic else Fail ClientBadContents, g))"
proof -
  let ?e = "eeprom_offset_of z page1 offset"
  have "MAX_SIZE z * unat index + (?e + len) \<le> length (spd_data g)
      \<longleftrightarrow> unat index < SPD_PRESENT_LEN z \<or> unat index = SPD_PRESENT_LEN z \<and> ?e + len = 0"
    using module_fits_iff [of "MAX_SIZE z" "?e + len" "unat index" "SPD_PRESENT_LEN z"] wf fit
    by (simp add: spd_wf_def spd_data_len)
  then show ?thesis
    using wf fit by (auto simp: gimlet_set_spd_eeprom_def spd_wf_def Let_def eeprom_offset_of_def [symmetric] add.assoc)
qed

lemma set_spd_bad:
  "MAX_SIZE z < eeprom_offset_of z page1 offset + len \<Longrightarrow> gimlet_set_spd_eeprom z index page1 offset len rd g = (Fail ClientBadContents, g)"
  by (simp add: gimlet_set_spd_eeprom_def eeprom_offset_of_def)

text \<open>A module's bytes are a slice of the array.\<close>

lemma slice_cong:
  assumes "length xs = length ys" "\<And>a. l \<le> a \<Longrightarrow> a < l + n \<Longrightarrow> a < length ys \<Longrightarrow> xs ! a = ys ! a"
  shows "take n (drop l xs) = take n (drop l ys)"
  using assms by (intro nth_equalityI) auto

lemma other_module:
  fixes m i d a e n :: nat
  assumes "i \<noteq> d" "m * d \<le> a" "a < m * d + m" "e + n \<le> m"
  shows "\<not> (m * i + e \<le> a \<and> a < m * i + e + n)"
proof
  assume c: "m * i + e \<le> a \<and> a < m * i + e + n"
  have "i < d \<Longrightarrow> m * Suc i \<le> m * d" "d < i \<Longrightarrow> m * Suc d \<le> m * i" by (intro mult_le_mono2; simp)+
  with c assms show False by (cases "i < d") auto
qed

text \<open>
  C38: The cache of the memory modules' contents. With the arrays at their declared sizes, a request
  to store \<open>len\<close> bytes for module \<open>index\<close> is accepted exactly when the module exists and the bytes
  fit in it, and then exactly those bytes change and the module is marked present; every other
  module's contents, as read by \<open>get_full_spd_data\<close>, is unchanged; every other request is refused
  and changes nothing. There is one exception: an empty request at offset 0 for the index just past
  the last module passes both checks and panics the task. Reading a module panics exactly when
  the end of the range overflows 32 bits, which a client's device number can cause.
\<close>

theorem spd_cache_exact:
  assumes wf: "spd_wf z g" and len: "length (fst rd) = len" and e: "e = eeprom_offset_of z page1 offset"
    and set: "gimlet_set_spd_eeprom z index page1 offset len rd g = (r, g')"
  shows "r = (if e + len \<le> MAX_SIZE z \<and> unat index < SPD_PRESENT_LEN z then (if snd rd then Reply () else Fail ClientWentAway)
              else if e + len = 0 \<and> unat index = SPD_PRESENT_LEN z then PackratPanic
              else Fail ClientBadContents)
    \<and> spd_wf z g' \<and> host_startup_options g' = host_startup_options g
    \<and> (\<forall>i < SPD_PRESENT_LEN z. spd_present g' ! i = (spd_present g ! i \<or> (i = unat index \<and> e + len \<le> MAX_SIZE z)))
    \<and> (\<forall>a < SPD_DATA_LEN z. spd_data g' ! a =
         (if e + len \<le> MAX_SIZE z \<and> unat index < SPD_PRESENT_LEN z
             \<and> MAX_SIZE z * unat index + e \<le> a \<and> a < MAX_SIZE z * unat index + e + len
          then fst rd ! (a - (MAX_SIZE z * unat index + e)) else spd_data g ! a))
    \<and> (\<forall>d ol gone. unat d \<noteq> unat index \<longrightarrow> gimlet_get_full_spd_data z d ol gone g' = gimlet_get_full_spd_data z d ol gone g)
    \<and> (\<forall>d ol gone. gimlet_get_full_spd_data z d ol gone g = PackratPanic \<longleftrightarrow> ol = MAX_SIZE z \<and> 2 ^ 32 \<le> (unat d + 1) * MAX_SIZE z)"
proof -
  have m0: "0 < MAX_SIZE z" using wf by (simp add: spd_wf_def)
  have panic: "gimlet_get_full_spd_data z d ol gone g = PackratPanic \<longleftrightarrow> ol = MAX_SIZE z \<and> 2 ^ 32 \<le> (unat d + 1) * MAX_SIZE z" for d ol gone
  proof -
    have "unat d + 1 \<le> (unat d + 1) * MAX_SIZE z" using m0 by (metis mult.right_neutral mult_le_mono2 One_nat_def Suc_leI)
    then show ?thesis by (auto simp: gimlet_get_full_spd_data_def)
  qed
  show ?thesis
  proof (cases "e + len \<le> MAX_SIZE z \<and> unat index < SPD_PRESENT_LEN z")
    case True
    let ?addr = "MAX_SIZE z * unat index + e"
    have room: "?addr + len \<le> length (spd_data g)"
      using module_fits_iff [of "MAX_SIZE z" "e + len" "unat index" "SPD_PRESENT_LEN z"] True m0 wf by (simp add: spd_wf_def spd_data_len add.assoc)
    have g': "g' = g\<lparr>spd_present := (spd_present g)[unat index := True], spd_data := take ?addr (spd_data g) @ fst rd @ drop (?addr + len) (spd_data g)\<rparr>"
      and r: "r = (if snd rd then Reply () else Fail ClientWentAway)"
      using set_spd_cases [OF wf len, of page1 offset index] True set e by simp_all
    have data: "spd_data g' ! a = (if ?addr \<le> a \<and> a < ?addr + len then fst rd ! (a - ?addr) else spd_data g ! a)" if "a < length (spd_data g)" for a
      using splice_nth [of ?addr "fst rd" "spd_data g" a] room that len g' by simp
    have wf': "spd_wf z g'" using wf room len g' by (simp add: spd_wf_def)
    have lens: "length (spd_data g') = length (spd_data g)" using wf wf' by (simp add: spd_wf_def)
    have "gimlet_get_full_spd_data z d ol gone g' = gimlet_get_full_spd_data z d ol gone g" if "unat d \<noteq> unat index" for d ol gone
    proof -
      have "take (MAX_SIZE z) (drop (unat d * MAX_SIZE z) (spd_data g')) = take (MAX_SIZE z) (drop (unat d * MAX_SIZE z) (spd_data g))"
        using lens data other_module [of "unat index" "unat d" "MAX_SIZE z" _ e len] that True
        by (intro slice_cong) (auto simp: mult.commute)
      then show ?thesis using lens by (simp add: gimlet_get_full_spd_data_def)
    qed
    then show ?thesis using True r wf' g' data panic wf by (auto simp: spd_wf_def nth_list_update)
  next
    case False
    have "g' = g \<and> r = (if e + len = 0 \<and> unat index = SPD_PRESENT_LEN z then PackratPanic else Fail ClientBadContents)"
    proof (cases "e + len \<le> MAX_SIZE z")
      case True then show ?thesis using set_spd_cases [OF wf len, of page1 offset index] False set e by auto
    next
      case f: False then show ?thesis using set_spd_bad [of z page1 offset len index rd g] set e by auto
    qed
    then show ?thesis using False wf panic by (auto simp: spd_wf_def)
  qed
qed

theorem spd_cache_exact_witness:
  "let z = \<lparr>MAX_SIZE = 512, MAX_DEVICES = 8, PAGE_SIZE = 256\<rparr>; g = gimlet_new z 0 in
   fst (gimlet_set_spd_eeprom z 16 False 0 0 ([], True) g) = PackratPanic
   \<and> fst (gimlet_set_spd_eeprom z 15 True 254 2 ([7, 9], True) g) = Reply ()
   \<and> spd_data (snd (gimlet_set_spd_eeprom z 15 True 254 2 ([7, 9], True) g)) ! 8191 = 9
   \<and> gimlet_get_full_spd_data z 0x7FFFFF 512 False g = PackratPanic"
proof -
  define z where "z = \<lparr>MAX_SIZE = 512, MAX_DEVICES = 8, PAGE_SIZE = 256\<rparr>"
  define g where "g = gimlet_new z 0"
  have z: "MAX_SIZE z = 512" "SPD_PRESENT_LEN z = 16" "SPD_DATA_LEN z = 8192" "PAGE_SIZE z = 256"
    by (simp_all add: z_def SPD_PRESENT_LEN_def SPD_DATA_LEN_def NUM_SPD_BANKS_def)
  have wf: "spd_wf z g" by (simp add: spd_wf_def g_def gimlet_new_def z)
  have a: "fst (gimlet_set_spd_eeprom z 16 False 0 0 ([], True) g) = PackratPanic
      \<and> gimlet_get_full_spd_data z 0x7FFFFF 512 False g = PackratPanic"
    using spd_cache_exact [OF wf _ refl prod.collapse [symmetric], where rd = "([], True)" and len = 0 and ?page1.0 = False and offset = 0 and index = 16]
    by (simp add: z eeprom_offset_of_def)
  have b: "fst (gimlet_set_spd_eeprom z 15 True 254 2 ([7, 9], True) g) = Reply ()
      \<and> spd_data (snd (gimlet_set_spd_eeprom z 15 True 254 2 ([7, 9], True) g)) ! 8191 = 9"
    using spd_cache_exact [OF wf _ refl prod.collapse [symmetric], where rd = "([7, 9], True)" and len = 2 and ?page1.0 = True and offset = 254 and index = 15]
    by (simp add: z eeprom_offset_of_def)
  show ?thesis using a b by (simp add: z_def g_def)
qed

end
