(* ===== verification/Drv_Gpio.thy ===== *)
theory Drv_Gpio
  imports Kern_Prelude
begin

section \<open>Pins of the STM32 family\<close>

text \<open>
  \<^verbatim>\<open>drv/stm32xx-gpio-common\<close>: the settings of a pin, the sets of pins of a port and the operations on
  the registers of a port (\<^verbatim>\<open>AnyGpioPeriph\<close>); and the client side of these operations in
  \<^verbatim>\<open>drv/stm32xx-sys-api\<close>. The registers of a port are a record of words; a write to the set/reset
  register is kept as the word written, since its effect is the hardware's. The model is of a part
  with all ports and all sixteen alternate functions.
\<close>

subsection \<open>Settings and sets of pins\<close>

datatype Port = PA | PB | PC | PD | PE | PF | PG | PH | PI | PJ | PK

record PinSet =
  ps_port :: Port
  pin_mask :: u16

datatype Mode = ModeInput | ModeOutput | ModeAlternate | ModeAnalog
datatype OutputType = PushPull | OpenDrain
datatype Speed = SpeedLow | SpeedMedium | SpeedHigh | SpeedVeryHigh
datatype Pull = PullNone | PullUp | PullDown
datatype Alternate = AF0 | AF1 | AF2 | AF3 | AF4 | AF5 | AF6 | AF7 | AF8 | AF9 | AF10 | AF11 | AF12 | AF13 | AF14 | AF15

fun mode_bits :: "Mode \<Rightarrow> u16" where
  "mode_bits ModeInput = 0" | "mode_bits ModeOutput = 1" | "mode_bits ModeAlternate = 2" | "mode_bits ModeAnalog = 3"

fun output_type_bits :: "OutputType \<Rightarrow> u16" where
  "output_type_bits PushPull = 0" | "output_type_bits OpenDrain = 1"

fun speed_bits :: "Speed \<Rightarrow> u16" where
  "speed_bits SpeedLow = 0" | "speed_bits SpeedMedium = 1" | "speed_bits SpeedHigh = 2" | "speed_bits SpeedVeryHigh = 3"

fun pull_bits :: "Pull \<Rightarrow> u16" where
  "pull_bits PullNone = 0" | "pull_bits PullUp = 1" | "pull_bits PullDown = 2"

fun alternate_bits :: "Alternate \<Rightarrow> u16" where
  "alternate_bits AF0 = 0" | "alternate_bits AF1 = 1" | "alternate_bits AF2 = 2" | "alternate_bits AF3 = 3"
| "alternate_bits AF4 = 4" | "alternate_bits AF5 = 5" | "alternate_bits AF6 = 6" | "alternate_bits AF7 = 7"
| "alternate_bits AF8 = 8" | "alternate_bits AF9 = 9" | "alternate_bits AF10 = 10" | "alternate_bits AF11 = 11"
| "alternate_bits AF12 = 12" | "alternate_bits AF13 = 13" | "alternate_bits AF14 = 14" | "alternate_bits AF15 = 15"

text \<open>Overflow checks are on, so a shift by the width of the mask or more panics: \<open>None\<close>.\<close>

definition pin_bit :: "nat \<Rightarrow> u16 option" where
  "pin_bit index = (if index < 16 then Some (push_bit index 1) else None)"

definition port_pin :: "Port \<Rightarrow> nat \<Rightarrow> PinSet option" where
  "port_pin port index = map_option (\<lambda>b. \<lparr>ps_port = port, pin_mask = b\<rparr>) (pin_bit index)"

fun or_pins :: "nat list \<Rightarrow> u16 \<Rightarrow> u16 option" where
  "or_pins [] m = Some m"
| "or_pins (i # indexes) m = (case pin_bit i of None \<Rightarrow> None | Some b \<Rightarrow> or_pins indexes (m OR b))"

definition port_pins :: "Port \<Rightarrow> nat list \<Rightarrow> PinSet option" where
  "port_pins port indexes = map_option (\<lambda>m. \<lparr>ps_port = port, pin_mask = m\<rparr>) (or_pins indexes 0)"

definition and_pin :: "PinSet \<Rightarrow> nat \<Rightarrow> PinSet option" where
  "and_pin ps index = map_option (\<lambda>b. ps\<lparr>pin_mask := pin_mask ps OR b\<rparr>) (pin_bit index)"

subsection \<open>The registers of a port\<close>

record gpio_regs =
  moder :: u32
  otyper :: u32
  ospeedr :: u32
  pupdr :: u32
  afrl :: u32
  afrh :: u32
  odr :: u32
  idr :: u32
  bsrr :: u32

definition delta_swap :: "u32 \<Rightarrow> nat \<Rightarrow> u32 \<Rightarrow> u32" where
  "delta_swap m s input = (let tmp = (input XOR drop_bit s input) AND m in input XOR (tmp XOR push_bit s tmp))"

definition outer_perfect_shuffle :: "u32 \<Rightarrow> u32" where
  "outer_perfect_shuffle input =
     delta_swap 0x22222222 1 (delta_swap 0x0c0c0c0c 2 (delta_swap 0x00f000f0 4 (delta_swap 0x0000ff00 8 input)))"

definition modify_fields :: "u32 \<Rightarrow> u32 \<Rightarrow> u32 \<Rightarrow> u32 \<Rightarrow> u32" where
  "modify_fields m val lsbs r = (r AND NOT m) OR (val * lsbs)"

definition gpio_port_configure :: "u16 \<Rightarrow> u16 \<Rightarrow> gpio_regs \<Rightarrow> gpio_regs" where
  "gpio_port_configure pins atts g =
     (let mask_1 = ucast pins :: u32;
          lsbs_1 = mask_1;
          lsbs_2 = outer_perfect_shuffle mask_1;
          lsbs_4l = outer_perfect_shuffle (lsbs_2 AND 0xFFFF);
          lsbs_4h = outer_perfect_shuffle (drop_bit 16 lsbs_2);
          mask_2 = lsbs_2 * 3;
          mask_4l = lsbs_4l * 15;
          mask_4h = lsbs_4h * 15;
          moder_val = ucast (atts AND 3);
          otyper_val = ucast (drop_bit 2 atts AND 1);
          ospeedr_val = ucast (drop_bit 3 atts AND 3);
          pupdr_val = ucast (drop_bit 5 atts AND 3);
          af_val = ucast (drop_bit 7 atts AND 15) in
      g\<lparr>moder := modify_fields mask_2 moder_val lsbs_2 (moder g),
        otyper := modify_fields mask_1 otyper_val lsbs_1 (otyper g),
        ospeedr := modify_fields mask_2 ospeedr_val lsbs_2 (ospeedr g),
        pupdr := modify_fields mask_2 pupdr_val lsbs_2 (pupdr g),
        afrl := modify_fields mask_4l af_val lsbs_4l (afrl g),
        afrh := modify_fields mask_4h af_val lsbs_4h (afrh g)\<rparr>)"

definition gpio_port_set_reset :: "u16 \<Rightarrow> u16 \<Rightarrow> gpio_regs \<Rightarrow> gpio_regs" where
  "gpio_port_set_reset set_pins reset_pins g = g\<lparr>bsrr := push_bit 16 (ucast reset_pins) OR ucast set_pins\<rparr>"

definition gpio_port_toggle :: "u16 \<Rightarrow> gpio_regs \<Rightarrow> gpio_regs" where
  "gpio_port_toggle pins g = (let st = ucast (odr g) :: u16 in gpio_port_set_reset (NOT st AND pins) (st AND pins) g)"

definition gpio_port_read :: "gpio_regs \<Rightarrow> u16" where
  "gpio_port_read g = ucast (idr g)"

subsection \<open>The client's operations\<close>

type_synonym ports = "Port \<Rightarrow> gpio_regs"

definition packed_attributes :: "Mode \<Rightarrow> OutputType \<Rightarrow> Speed \<Rightarrow> Pull \<Rightarrow> Alternate \<Rightarrow> u16" where
  "packed_attributes mode output_type speed pull af =
     mode_bits mode OR push_bit 2 (output_type_bits output_type) OR push_bit 3 (speed_bits speed)
     OR push_bit 5 (pull_bits pull) OR push_bit 7 (alternate_bits af)"

definition gpio_configure_raw :: "Port \<Rightarrow> u16 \<Rightarrow> u16 \<Rightarrow> ports \<Rightarrow> ports" where
  "gpio_configure_raw port pins atts ps = ps(port := gpio_port_configure pins atts (ps port))"

definition gpio_set_reset :: "Port \<Rightarrow> u16 \<Rightarrow> u16 \<Rightarrow> ports \<Rightarrow> ports" where
  "gpio_set_reset port set_pins reset_pins ps = ps(port := gpio_port_set_reset set_pins reset_pins (ps port))"

definition gpio_toggle :: "Port \<Rightarrow> u16 \<Rightarrow> ports \<Rightarrow> ports" where
  "gpio_toggle port pins ps = ps(port := gpio_port_toggle pins (ps port))"

definition gpio_read_input :: "Port \<Rightarrow> ports \<Rightarrow> u16" where
  "gpio_read_input port ps = gpio_port_read (ps port)"

definition gpio_configure :: "Port \<Rightarrow> u16 \<Rightarrow> Mode \<Rightarrow> OutputType \<Rightarrow> Speed \<Rightarrow> Pull \<Rightarrow> Alternate \<Rightarrow> ports \<Rightarrow> ports" where
  "gpio_configure port pins mode output_type speed pull af ps =
     gpio_configure_raw port pins (packed_attributes mode output_type speed pull af) ps"

definition gpio_configure_input :: "PinSet \<Rightarrow> Pull \<Rightarrow> ports \<Rightarrow> ports" where
  "gpio_configure_input pinset pull ps = gpio_configure (ps_port pinset) (pin_mask pinset) ModeInput PushPull SpeedHigh pull AF0 ps"

definition gpio_configure_output :: "PinSet \<Rightarrow> OutputType \<Rightarrow> Speed \<Rightarrow> Pull \<Rightarrow> ports \<Rightarrow> ports" where
  "gpio_configure_output pinset output_type speed pull ps =
     gpio_configure (ps_port pinset) (pin_mask pinset) ModeOutput output_type speed pull AF0 ps"

definition gpio_configure_alternate :: "PinSet \<Rightarrow> OutputType \<Rightarrow> Speed \<Rightarrow> Pull \<Rightarrow> Alternate \<Rightarrow> ports \<Rightarrow> ports" where
  "gpio_configure_alternate pinset output_type speed pull af ps =
     gpio_configure (ps_port pinset) (pin_mask pinset) ModeAlternate output_type speed pull af ps"

definition gpio_configure_alternate_input :: "PinSet \<Rightarrow> Pull \<Rightarrow> Alternate \<Rightarrow> ports \<Rightarrow> ports" where
  "gpio_configure_alternate_input pinset pull af ps = gpio_configure_alternate pinset OpenDrain SpeedHigh pull af ps"

definition gpio_set :: "PinSet \<Rightarrow> ports \<Rightarrow> ports" where
  "gpio_set pinset ps = gpio_set_reset (ps_port pinset) (pin_mask pinset) 0 ps"

definition gpio_reset :: "PinSet \<Rightarrow> ports \<Rightarrow> ports" where
  "gpio_reset pinset ps = gpio_set_reset (ps_port pinset) 0 (pin_mask pinset) ps"

definition gpio_set_to :: "PinSet \<Rightarrow> bool \<Rightarrow> ports \<Rightarrow> ports" where
  "gpio_set_to pinset flag ps = gpio_set_reset (ps_port pinset) (if flag then pin_mask pinset else 0) (if flag then 0 else pin_mask pinset) ps"

definition gpio_read :: "PinSet \<Rightarrow> ports \<Rightarrow> u16" where
  "gpio_read pinset ps = gpio_read_input (ps_port pinset) ps AND pin_mask pinset"

subsection \<open>Shuffling bits\<close>

text \<open>A step of the shuffle exchanges the bits under the mask with those \<open>s\<close> places up.\<close>

definition swap_index :: "u32 \<Rightarrow> nat \<Rightarrow> nat \<Rightarrow> nat" where
  "swap_index m s n = (if bit m n then n + s else if s \<le> n \<and> bit m (n - s) then n - s else n)"

definition swap_mask :: "u32 \<Rightarrow> nat \<Rightarrow> bool" where
  "swap_mask m s \<longleftrightarrow> (\<forall>k \<in> set [0..<32]. bit m k \<longrightarrow> k + s < 32 \<and> \<not> bit m (k + s))"

lemma bit_delta_swap:
  assumes "swap_mask m s" "n < 32"
  shows "bit (delta_swap m s x) n = bit x (swap_index m s n)" "swap_index m s n < 32"
proof -
  have m: "k + s < 32 \<and> \<not> bit m (k + s)" if "bit m k" for k
    using assms(1) bit_imp_le_length [OF that] that by (auto simp: swap_mask_def)
  show "swap_index m s n < 32" using assms(2) m by (auto simp: swap_index_def)
  show "bit (delta_swap m s x) n = bit x (swap_index m s n)"
  proof (cases "bit m n")
    case True
    then have "\<not> (s \<le> n \<and> bit m (n - s))" using m [of "n - s"] by auto
    with True assms(2) show ?thesis by (auto simp: swap_index_def delta_swap_def Let_def bit_simps add.commute)
  next
    case False
    with assms(2) show ?thesis by (auto simp: swap_index_def delta_swap_def Let_def bit_simps)
  qed
qed

lemma bit_outer_perfect_shuffle:
  assumes "n < 32"
  shows "bit (outer_perfect_shuffle x) n = bit x (if even n then n div 2 else 16 + n div 2)"
proof -
  have m: "swap_mask 0x22222222 1" "swap_mask 0x0c0c0c0c 2" "swap_mask 0x00f000f0 4" "swap_mask 0x0000ff00 8"
    by code_simp+
  have "\<forall>n \<in> set [0..<32]. swap_index 0x0000ff00 8 (swap_index 0x00f000f0 4 (swap_index 0x0c0c0c0c 2 (swap_index 0x22222222 1 n)))
      = (if even n then n div 2 else 16 + n div 2)"
    by code_simp
  then have "swap_index 0x0000ff00 8 (swap_index 0x00f000f0 4 (swap_index 0x0c0c0c0c 2 (swap_index 0x22222222 1 n)))
      = (if even n then n div 2 else 16 + n div 2)"
    using assms by simp
  then show ?thesis unfolding outer_perfect_shuffle_def using assms m by (simp add: bit_delta_swap)
qed

text \<open>Multiplying a mask of field positions by a value puts the value into each field.\<close>

lemma bit_spread_take:
  fixes l v :: u32
  assumes l: "\<forall>n. bit l n \<longrightarrow> k dvd n" and j: "j \<le> k"
  shows "bit (take_bit j v * l) n \<longleftrightarrow> (\<exists>b < j. bit v b \<and> b \<le> n \<and> bit l (n - b) \<and> n < 32)"
  using j
proof (induction j arbitrary: n)
  case (Suc j)
  let ?h = "if bit v j then push_bit j 1 else 0 :: u32"
  have "?h AND take_bit j v = 0" by (rule bit_word_eqI) (auto simp: bit_simps)
  then have "take_bit (Suc j) v = ?h + take_bit j v"
    by (subst disjunctive_add_eq_or) (auto intro!: bit_word_eqI simp: bit_simps less_Suc_eq)
  then have eq: "take_bit (Suc j) v * l = (if bit v j then push_bit j l else 0) + take_bit j v * l"
    by (simp add: push_bit_eq_mult algebra_simps)
  have "(if bit v j then push_bit j l else 0) AND take_bit j v * l = 0"
  proof (rule bit_word_eqI)
    fix n
    have False if n: "j \<le> n" "bit l (n - j)" and b: "b < j" "b \<le> n" "bit l (n - b)" for b
    proof -
      have "k dvd n - b - (n - j)" using l n b by (meson dvd_diff_nat)
      moreover have "n - b - (n - j) = j - b" using n(1) b(2) by linarith
      ultimately have "k \<le> j - b" using b(1) by (intro dvd_imp_le) simp_all
      then show False using Suc.prems by linarith
    qed
    then show "bit ((if bit v j then push_bit j l else 0) AND take_bit j v * l) n = bit 0 n"
      using Suc by (auto simp: bit_simps)
  qed
  from disjunctive_add_eq_or [OF this] eq
  have "bit (take_bit (Suc j) v * l) n \<longleftrightarrow> bit v j \<and> j \<le> n \<and> n < 32 \<and> bit l (n - j) \<or> bit (take_bit j v * l) n"
    by (auto simp: bit_simps)
  then show ?case using Suc by (auto simp: less_Suc_eq)
qed simp

lemma bit_spread:
  fixes l v :: u32
  assumes l: "\<forall>n. bit l n \<longrightarrow> k dvd n" and v: "\<forall>n. bit v n \<longrightarrow> n < k" and pb: "p * k + b < 32" "b < k"
  shows "bit (v * l) (p * k + b) \<longleftrightarrow> bit l (p * k) \<and> bit v b"
proof -
  have "take_bit k v = v" using v by (auto intro!: bit_word_eqI simp: bit_simps)
  then have ex: "bit (v * l) (p * k + b) \<longleftrightarrow> (\<exists>b' < k. bit v b' \<and> b' \<le> p * k + b \<and> bit l (p * k + b - b') \<and> p * k + b < 32)"
    using bit_spread_take [OF l order_refl, of v "p * k + b"] by simp
  have same: "b' = b" if "b' < k" "b' \<le> p * k + b" "bit l (p * k + b - b')" for b'
  proof -
    have "k dvd p * k + b - b'" using l that(3) by blast
    then have "(p * k + b) mod k = b' mod k" using that(2) mod_eq_dvd_iff_nat [of b' "p * k + b" k] by metis
    then show ?thesis using that(1) pb(2) by simp
  qed
  show ?thesis unfolding ex
  proof
    assume "bit l (p * k) \<and> bit v b"
    then show "\<exists>b' < k. bit v b' \<and> b' \<le> p * k + b \<and> bit l (p * k + b - b') \<and> p * k + b < 32"
      using pb by (intro exI [of _ b]) simp
  next
    assume "\<exists>b' < k. bit v b' \<and> b' \<le> p * k + b \<and> bit l (p * k + b - b') \<and> p * k + b < 32"
    then obtain b' where b': "b' < k" "bit v b'" "b' \<le> p * k + b" "bit l (p * k + b - b')" by blast
    then have "b' = b" using same by blast
    with b' show "bit l (p * k) \<and> bit v b" by simp
  qed
qed

subsection \<open>Fields of a register\<close>

definition pin_field :: "nat \<Rightarrow> nat \<Rightarrow> u32 \<Rightarrow> u32" where
  "pin_field k p w = take_bit k (drop_bit (p * k) w)"

lemma bit_pin_field: "bit (pin_field k p w) b \<longleftrightarrow> b < k \<and> p * k + b < 32 \<and> bit w (p * k + b)"
  using bit_imp_le_length [of w "p * k + b"] by (auto simp: pin_field_def bit_simps)

lemma pin_field_modify:
  assumes l: "\<forall>n. bit l n \<longleftrightarrow> n < 32 \<and> k dvd n \<and> P (n div k)" and v: "\<forall>n. bit v n \<longrightarrow> n < k" and m: "m = l * mask k"
    and p: "Suc p * k \<le> 32"
  shows "pin_field k p (modify_fields m v l r) = (if P p then v else pin_field k p r)"
proof (rule bit_word_eqI)
  fix b assume "b < LENGTH(32)"
  have at: "bit (modify_fields m v l r) (p * k + b) \<longleftrightarrow> (if P p then bit v b else bit r (p * k + b))" if b: "b < k" "p * k + b < 32"
  proof -
    have lp: "bit l (p * k) \<longleftrightarrow> P p" using l b by simp
    have d: "\<forall>n. bit l n \<longrightarrow> k dvd n" using l by blast
    have "bit (m) (p * k + b) \<longleftrightarrow> P p"
      unfolding m mult.commute [of l] using bit_spread [OF d, of "mask k" p b] b lp by (simp add: bit_mask_iff)
    moreover have "bit (v * l) (p * k + b) \<longleftrightarrow> P p \<and> bit v b" using bit_spread [OF d v b(2,1)] lp by simp
    ultimately show ?thesis using b(2) by (auto simp: modify_fields_def bit_simps)
  qed
  have "p * k + b < 32" if "b < k" using p that by simp
  with at v show "bit (pin_field k p (modify_fields m v l r)) b = bit (if P p then v else pin_field k p r) b"
    by (auto simp: bit_pin_field)
qed

lemma lsbs_2:
  fixes pins :: u16
  shows "bit (outer_perfect_shuffle (ucast pins)) n \<longleftrightarrow> n < 32 \<and> 2 dvd n \<and> bit pins (n div 2)"
  using bit_outer_perfect_shuffle [of n "ucast pins"] bit_imp_le_length [of pins] bit_imp_le_length [of "outer_perfect_shuffle (ucast pins)" n]
  by (cases "n < 32") (auto simp: bit_simps)

lemma lsbs_4:
  fixes pins :: u16
  defines "l \<equiv> outer_perfect_shuffle (ucast pins)"
  shows "bit (outer_perfect_shuffle (l AND 0xFFFF)) n \<longleftrightarrow> n < 32 \<and> 4 dvd n \<and> bit pins (n div 4)"
    and "bit (outer_perfect_shuffle (drop_bit 16 l)) n \<longleftrightarrow> n < 32 \<and> 4 dvd n \<and> bit pins (8 + n div 4)"
proof -
  have m: "(0xFFFF :: u32) = mask 16" by (simp add: mask_eq_exp_minus_1)
  have d: "2 dvd n \<and> 2 dvd n div 2 \<longleftrightarrow> 4 dvd n" "n div 2 div 2 = n div 4" by presburger+
  have h: "(16 + n div 2) div 2 = 8 + n div 2 div 2" by presburger
  have le: "bit (outer_perfect_shuffle x) n \<Longrightarrow> n < 32" for x using bit_imp_le_length [of "outer_perfect_shuffle x" n] by simp
  show "bit (outer_perfect_shuffle (l AND 0xFFFF)) n \<longleftrightarrow> n < 32 \<and> 4 dvd n \<and> bit pins (n div 4)"
  proof (cases "n < 32")
    case True
    then show ?thesis unfolding m bit_outer_perfect_shuffle [OF True] using d by (auto simp: l_def bit_simps lsbs_2 bit_mask_iff)
  qed (use le in blast)
  show "bit (outer_perfect_shuffle (drop_bit 16 l)) n \<longleftrightarrow> n < 32 \<and> 4 dvd n \<and> bit pins (8 + n div 4)"
  proof (cases "n < 32")
    case True
    then show ?thesis unfolding bit_outer_perfect_shuffle [OF True] using d h by (auto simp: l_def bit_simps lsbs_2)
  qed (use le in blast)
qed

lemma packed_fields:
  "packed_attributes mode output_type speed pull af AND 3 = mode_bits mode"
  "drop_bit 2 (packed_attributes mode output_type speed pull af) AND 1 = output_type_bits output_type"
  "drop_bit 3 (packed_attributes mode output_type speed pull af) AND 3 = speed_bits speed"
  "drop_bit 5 (packed_attributes mode output_type speed pull af) AND 3 = pull_bits pull"
  "drop_bit 7 (packed_attributes mode output_type speed pull af) AND 15 = alternate_bits af"
proof -
  have m: "(1 :: u16) = mask 1" "(3 :: u16) = mask 2" "(15 :: u16) = mask 4" by (simp_all add: mask_eq_exp_minus_1)
  have w: "take_bit 2 (mode_bits mode) = mode_bits mode" "take_bit 1 (output_type_bits output_type) = output_type_bits output_type"
    "take_bit 2 (speed_bits speed) = speed_bits speed" "take_bit 2 (pull_bits pull) = pull_bits pull"
    "take_bit 4 (alternate_bits af) = alternate_bits af"
    subgoal by (cases mode) simp_all
    subgoal by (cases output_type) simp_all
    subgoal by (cases speed) simp_all
    subgoal by (cases pull) simp_all
    subgoal by (cases af) simp_all
    done
  have "bit (mode_bits mode) n \<Longrightarrow> n < 2" "bit (output_type_bits output_type) n \<Longrightarrow> n < 1"
    "bit (speed_bits speed) n \<Longrightarrow> n < 2" "bit (pull_bits pull) n \<Longrightarrow> n < 2" "bit (alternate_bits af) n \<Longrightarrow> n < 4" for n
    using w by (metis bit_take_bit_iff)+
  then show
    "packed_attributes mode output_type speed pull af AND 3 = mode_bits mode"
    "drop_bit 2 (packed_attributes mode output_type speed pull af) AND 1 = output_type_bits output_type"
    "drop_bit 3 (packed_attributes mode output_type speed pull af) AND 3 = speed_bits speed"
    "drop_bit 5 (packed_attributes mode output_type speed pull af) AND 3 = pull_bits pull"
    "drop_bit 7 (packed_attributes mode output_type speed pull af) AND 15 = alternate_bits af"
    unfolding m packed_attributes_def
    by (auto intro!: bit_word_eqI simp: bit_simps bit_mask_iff) fastforce+
qed

subsection \<open>Configuring and toggling\<close>

text \<open>What a port's registers say of one pin.\<close>

definition pin_af :: "gpio_regs \<Rightarrow> nat \<Rightarrow> u32" where
  "pin_af g p = (if p < 8 then pin_field 4 p (afrl g) else pin_field 4 (p - 8) (afrh g))"

definition pin_settings :: "gpio_regs \<Rightarrow> nat \<Rightarrow> u32 \<times> u32 \<times> u32 \<times> u32 \<times> u32" where
  "pin_settings g p = (pin_field 2 p (moder g), pin_field 1 p (otyper g), pin_field 2 p (ospeedr g), pin_field 2 p (pupdr g), pin_af g p)"

lemma pin_settings_configure:
  assumes "p < 16"
  shows "pin_settings (gpio_port_configure pins atts g) p =
    (if bit pins p then (ucast (atts AND 3), ucast (drop_bit 2 atts AND 1), ucast (drop_bit 3 atts AND 3),
       ucast (drop_bit 5 atts AND 3), ucast (drop_bit 7 atts AND 15)) else pin_settings g p)"
proof -
  have m: "(1 :: u16) = mask 1" "(3 :: u16) = mask 2" "(15 :: u16) = mask 4" "(3 :: u32) = mask 2" "(15 :: u32) = mask 4"
    by (simp_all add: mask_eq_exp_minus_1)
  have v: "\<forall>n. bit (ucast (x AND mask k) :: u32) n \<longrightarrow> n < k" for x :: u16 and k by (auto simp: bit_simps bit_mask_iff)
  have l1: "\<forall>n. bit (ucast pins :: u32) n \<longleftrightarrow> n < 32 \<and> 1 dvd n \<and> bit pins (n div 1)"
    using bit_imp_le_length [of pins] by (auto simp: bit_simps)
  have m1: "ucast pins = (ucast pins :: u32) * mask 1" by (simp add: mask_eq_exp_minus_1)
  let ?l2 = "outer_perfect_shuffle (ucast pins)"
  let ?ll = "outer_perfect_shuffle (?l2 AND 0xFFFF)" and ?lh = "outer_perfect_shuffle (drop_bit 16 ?l2)"
  have f2: "pin_field 2 p (modify_fields (?l2 * 3) (ucast (x AND 3)) ?l2 r) = (if bit pins p then ucast (x AND 3) else pin_field 2 p r)"
    for x :: u16 and r
    unfolding m(2,4) by (rule pin_field_modify [OF allI [OF lsbs_2] v refl]) (use assms in simp)
  have f1: "pin_field 1 p (modify_fields (ucast pins) (ucast (x AND 1)) (ucast pins) r) = (if bit pins p then ucast (x AND 1) else pin_field 1 p r)"
    for x :: u16 and r
    by (rule pin_field_modify [OF l1 v [of _ 1, folded m(1)] m1]) (use assms in simp)
  have fl: "pin_field 4 p (modify_fields (?ll * 15) (ucast (x AND 15)) ?ll r) = (if bit pins p then ucast (x AND 15) else pin_field 4 p r)"
    if "p < 8" for x :: u16 and r
    unfolding m(3,5) by (rule pin_field_modify [OF allI [OF lsbs_4(1)] v refl]) (use that in simp)
  have fh: "pin_field 4 (p - 8) (modify_fields (?lh * 15) (ucast (x AND 15)) ?lh r)
      = (if bit pins (8 + (p - 8)) then ucast (x AND 15) else pin_field 4 (p - 8) r)" for x :: u16 and r
    unfolding m(3,5) by (rule pin_field_modify [where P = "\<lambda>i. bit pins (8 + i)", OF allI [OF lsbs_4(2)] v refl]) (use assms in simp)
  show ?thesis
    by (simp add: pin_settings_def pin_af_def gpio_port_configure_def Let_def f2 f1 [simplified] fl fh)
qed

text \<open>
  C27: Configuring a set of pins does exactly that, for all \<open>2^16\<close> sets and all settings, although it is
  computed by shuffling and multiplying whole registers: every pin of the set has the given mode,
  output type, speed, pull and alternate function, every other pin of the port keeps all of its
  settings, and no other port changes.
\<close>

theorem gpio_configure_exact:
  assumes "p < 16"
  shows "let ps' = gpio_configure port pins mode output_type speed pull af ps in
    pin_settings (ps' port) p =
      (if bit pins p then (ucast (mode_bits mode), ucast (output_type_bits output_type), ucast (speed_bits speed),
         ucast (pull_bits pull), ucast (alternate_bits af)) else pin_settings (ps port) p)
    \<and> (\<forall>q. q \<noteq> port \<longrightarrow> ps' q = ps q) \<and> odr (ps' port) = odr (ps port) \<and> bsrr (ps' port) = bsrr (ps port)"
  using pin_settings_configure [OF assms] packed_fields
  by (simp add: gpio_configure_def gpio_configure_raw_def Let_def) (simp add: gpio_port_configure_def Let_def)

text \<open>A toggle asks to set exactly the low pins of the set and to reset exactly the high ones.\<close>

lemma gpio_toggle_exact:
  assumes "p < 16"
  shows "let w = bsrr (gpio_toggle port pins ps port); high = bit (odr (ps port)) p in
    (bit w p \<longleftrightarrow> bit pins p \<and> \<not> high) \<and> (bit w (16 + p) \<longleftrightarrow> bit pins p \<and> high)"
  using assms bit_imp_le_length [of pins "16 + p"]
  by (auto simp: gpio_toggle_def gpio_port_toggle_def gpio_port_set_reset_def Let_def bit_simps)

theorem gpio_configure_exact_witness:
  "pin_settings (gpio_configure PB 0x0204 ModeAlternate OpenDrain SpeedHigh PullUp AF9 (\<lambda>_. \<lparr>moder = - 1, otyper = 0, ospeedr = 0,
     pupdr = 0, afrl = 0, afrh = 0, odr = 0, idr = 0, bsrr = 0\<rparr>) PB) 9 = (2, 1, 2, 1, 9)"
  using gpio_configure_exact [where p = "9" and port = PB and pins = "0x0204" and mode = ModeAlternate and output_type = OpenDrain
      and speed = SpeedHigh and pull = PullUp and af = AF9]
  by (simp add: Let_def)

end
