(* ===== verification/Drv_Sys.thy ===== *)
theory Drv_Sys
  imports Drv_Gpio Task_Jefe
begin

section \<open>The system server of the STM32H7\<close>

text \<open>
  \<^verbatim>\<open>drv/stm32xx-sys\<close> on the H7 family, with the numbering of peripherals of its client library: clocks
  and resets of peripherals, the reason of the last reset, and pin-change interrupts, which the
  server shares out among tasks. The registers are words; a register of write-one-to-clear bits
  loses the bits written. The dispatch table that the server's build script makes from the
  configuration (\<^verbatim>\<open>build/stm32xx-sys\<close>) is modelled up to the constants for task indices and
  notification masks that other generated modules define.
\<close>

subsection \<open>Clocks and resets\<close>

datatype Group = Ahb1 | Ahb2 | Ahb3 | Ahb4 | Apb1L | Apb1H | Apb2 | Apb3 | Apb4

definition groups :: "Group list" where
  "groups = [Ahb1, Ahb2, Ahb3, Ahb4, Apb1L, Apb1H, Apb2, Apb3, Apb4]"

fun group_number :: "Group \<Rightarrow> u32" where
  "group_number Ahb1 = 0" | "group_number Ahb2 = 1" | "group_number Ahb3 = 2" | "group_number Ahb4 = 3" | "group_number Apb1L = 4"
| "group_number Apb1H = 5" | "group_number Apb2 = 6" | "group_number Apb3 = 7" | "group_number Apb4 = 8"

definition group_from_u32 :: "u32 \<Rightarrow> Group option" where
  "group_from_u32 n = (if n < 9 then Some (groups ! unat n) else None)"

definition periph :: "Group \<Rightarrow> u8 \<Rightarrow> u32" where
  "periph g bit_number = push_bit 5 (group_number g) OR ucast (bit_number AND 0x1F)"

definition unpack_raw :: "u32 \<Rightarrow> (Group \<times> nat) option" where
  "unpack_raw raw = (case group_from_u32 (drop_bit 5 raw) of None \<Rightarrow> None | Some bus \<Rightarrow> Some (bus, unat (raw AND 0x1F)))"

record rcc =
  rcc_enr :: "Group \<Rightarrow> u32"
  rcc_rstr :: "Group \<Rightarrow> u32"
  rcc_rsr :: u32

definition reg_set_bit :: "nat \<Rightarrow> u32 \<Rightarrow> u32" where
  "reg_set_bit index r = r OR push_bit index 1"

definition reg_clear_bit :: "nat \<Rightarrow> u32 \<Rightarrow> u32" where
  "reg_clear_bit index r = r AND NOT (push_bit index 1)"

definition enable_clock :: "Group \<Rightarrow> nat \<Rightarrow> rcc \<Rightarrow> rcc" where
  "enable_clock g b r = r\<lparr>rcc_enr := (rcc_enr r)(g := reg_set_bit b (rcc_enr r g))\<rparr>"

definition disable_clock :: "Group \<Rightarrow> nat \<Rightarrow> rcc \<Rightarrow> rcc" where
  "disable_clock g b r = r\<lparr>rcc_enr := (rcc_enr r)(g := reg_clear_bit b (rcc_enr r g))\<rparr>"

definition enter_reset :: "Group \<Rightarrow> nat \<Rightarrow> rcc \<Rightarrow> rcc" where
  "enter_reset g b r = r\<lparr>rcc_rstr := (rcc_rstr r)(g := reg_set_bit b (rcc_rstr r g))\<rparr>"

definition leave_reset :: "Group \<Rightarrow> nat \<Rightarrow> rcc \<Rightarrow> rcc" where
  "leave_reset g b r = r\<lparr>rcc_rstr := (rcc_rstr r)(g := reg_clear_bit b (rcc_rstr r g))\<rparr>"

datatype RccError = NoSuchPeripheral

definition enable_clock_raw :: "u32 \<Rightarrow> rcc \<Rightarrow> RccError + rcc" where
  "enable_clock_raw raw r = (case unpack_raw raw of None \<Rightarrow> Inl NoSuchPeripheral | Some (g, b) \<Rightarrow> Inr (enable_clock g b r))"

definition disable_clock_raw :: "u32 \<Rightarrow> rcc \<Rightarrow> RccError + rcc" where
  "disable_clock_raw raw r = (case unpack_raw raw of None \<Rightarrow> Inl NoSuchPeripheral | Some (g, b) \<Rightarrow> Inr (disable_clock g b r))"

definition enter_reset_raw :: "u32 \<Rightarrow> rcc \<Rightarrow> RccError + rcc" where
  "enter_reset_raw raw r = (case unpack_raw raw of None \<Rightarrow> Inl NoSuchPeripheral | Some (g, b) \<Rightarrow> Inr (enter_reset g b r))"

definition leave_reset_raw :: "u32 \<Rightarrow> rcc \<Rightarrow> RccError + rcc" where
  "leave_reset_raw raw r = (case unpack_raw raw of None \<Rightarrow> Inl NoSuchPeripheral | Some (g, b) \<Rightarrow> Inr (leave_reset g b r))"

subsection \<open>The reason of the last reset\<close>

definition flag_LPWR :: u32 where "flag_LPWR = push_bit 30 1"
definition flag_WWDG1 :: u32 where "flag_WWDG1 = push_bit 28 1"
definition flag_IWDG1 :: u32 where "flag_IWDG1 = push_bit 26 1"
definition flag_SFT :: u32 where "flag_SFT = push_bit 24 1"
definition flag_POR :: u32 where "flag_POR = push_bit 23 1"
definition flag_PIN :: u32 where "flag_PIN = push_bit 22 1"
definition flag_BOR :: u32 where "flag_BOR = push_bit 21 1"
definition flag_D2 :: u32 where "flag_D2 = push_bit 20 1"
definition flag_D1 :: u32 where "flag_D1 = push_bit 19 1"
definition flag_CPU :: u32 where "flag_CPU = push_bit 17 1"

definition all_reset_flags :: u32 where
  "all_reset_flags = flag_LPWR OR flag_WWDG1 OR flag_IWDG1 OR flag_SFT OR flag_POR OR flag_PIN OR flag_BOR OR flag_D2 OR flag_D1 OR flag_CPU"

text \<open>Setting the flag RMVF makes the hardware clear the register.\<close>

definition try_read_reset_reason :: "rcc \<Rightarrow> ResetReason option \<times> rcc" where
  "try_read_reset_reason r =
     (let bits = rcc_rsr r in
      if bits = 0 then (None, r)
      else
        (let flags = bits AND all_reset_flags;
             reason =
               (if flags = flag_CPU OR flag_D1 OR flag_D2 OR flag_BOR OR flag_PIN OR flag_POR then PowerOn
                else if flags = flag_CPU OR flag_PIN then Pin
                else if flags = flag_CPU OR flag_PIN OR flag_SFT then SystemCall
                else if flags = flag_CPU OR flag_BOR OR flag_PIN then Brownout
                else if flags = flag_CPU OR flag_PIN OR flag_WWDG1 then SystemWatchdog
                else if flags = flag_CPU OR flag_PIN OR flag_IWDG1 then IndependentWatchdog
                else if flags = flag_CPU OR flag_PIN OR flag_LPWR then LowPowerSecurity
                else if flags = flag_D1 \<or> flags = flag_D2 then ExitStandby
                else OtherReason bits) in
         (Some reason, r\<lparr>rcc_rsr := 0\<rparr>)))"

subsection \<open>The dispatch table of pin-change interrupts\<close>

record GpioIrqConfig =
  gi_port :: Port
  gi_pin :: nat
  gi_owner :: string
  gi_notification :: string

record ExtiDispatch =
  ed_port :: Port
  ed_task :: TaskId
  ed_mask :: u32

datatype exti_error = PinTaken | PinOutOfRange

definition NUM_EXTI_IRQS :: nat where "NUM_EXTI_IRQS = 16"

fun fill_dispatch :: "GpioIrqConfig list \<Rightarrow> GpioIrqConfig option list \<Rightarrow> exti_error + GpioIrqConfig option list" where
  "fill_dispatch [] table = Inr table"
| "fill_dispatch (irq # irqs) table =
     (if gi_pin irq < length table then
        (case table ! gi_pin irq of
           Some taken \<Rightarrow> Inl PinTaken
         | None \<Rightarrow> fill_dispatch irqs (table[gi_pin irq := Some irq]))
      else Inl PinOutOfRange)"

text \<open>
  The index of a task and the mask of a notification are constants of other generated modules.
  Names that are no identifiers stop the build before this point and are not represented.
\<close>

definition generate_exti_config :: "(string \<Rightarrow> nat) \<Rightarrow> (string \<Rightarrow> string \<Rightarrow> u32) \<Rightarrow> GpioIrqConfig list
    \<Rightarrow> exti_error + ExtiDispatch option list" where
  "generate_exti_config task_index note_mask irqs =
     map_sum id (map (map_option (\<lambda>i. \<lparr>ed_port = gi_port i,
       ed_task = for_index_and_gen (task_index (gi_owner i)) (Generation 0), ed_mask = note_mask (gi_owner i) (gi_notification i)\<rparr>)))
       (fill_dispatch irqs (replicate NUM_EXTI_IRQS None))"

fun port_number :: "Port \<Rightarrow> u32" where
  "port_number PA = 0" | "port_number PB = 1" | "port_number PC = 2" | "port_number PD = 3" | "port_number PE = 4" | "port_number PF = 5"
| "port_number PG = 6" | "port_number PH = 7" | "port_number PI = 8" | "port_number PJ = 9" | "port_number PK = 10"

definition dispatch_table_iter :: "ExtiDispatch option list \<Rightarrow> (nat \<times> ExtiDispatch option) list" where
  "dispatch_table_iter table = zip [0..<length table] table"

text \<open>The four routing registers have four fields of four bits each.\<close>

definition route_port :: "nat \<Rightarrow> Port \<Rightarrow> (nat \<Rightarrow> u32) \<Rightarrow> nat \<Rightarrow> u32" where
  "route_port i port exticr =
     (let register = drop_bit 2 i; slot = i AND 3 in
      exticr(register := (exticr register AND NOT (push_bit (4 * slot) 15)) OR push_bit (4 * slot) (port_number port AND 15)))"

definition exti_setup :: "ExtiDispatch option list \<Rightarrow> (nat \<Rightarrow> u32) \<Rightarrow> nat \<Rightarrow> u32" where
  "exti_setup table exticr =
     fold (\<lambda>(i, entry) cr. case entry of None \<Rightarrow> cr | Some d \<Rightarrow> route_port i (ed_port d) cr) (dispatch_table_iter table) exticr"

subsection \<open>Pin-change interrupts\<close>

datatype Edge = Rising | Falling | BothEdges
datatype IrqControl = IrqDisable | IrqEnable | IrqCheck

fun is_rising :: "Edge \<Rightarrow> bool" where
  "is_rising Rising = True" | "is_rising Falling = False" | "is_rising BothEdges = True"

fun is_falling :: "Edge \<Rightarrow> bool" where
  "is_falling Rising = False" | "is_falling Falling = True" | "is_falling BothEdges = True"

record exti =
  cpuimr1 :: u32
  cpupr1 :: u32
  rtsr1 :: u32
  ftsr1 :: u32
  exti_cpupr_2 :: u16

datatype client_error = ClientBadMessage

definition exti_dispatch_for :: "ExtiDispatch option list \<Rightarrow> TaskId \<Rightarrow> u32 \<Rightarrow> (nat \<times> ExtiDispatch) list" where
  "exti_dispatch_for table task m = List.map_filter (\<lambda>(i, entry). case entry of
       None \<Rightarrow> None
     | Some d \<Rightarrow> if tid_index task = tid_index (ed_task d) \<and> m AND ed_mask d \<noteq> 0 then Some (i, d) else None)
     (dispatch_table_iter table)"

fun control_slots :: "IrqControl \<Rightarrow> (nat \<times> ExtiDispatch) list \<Rightarrow> u16 \<Rightarrow> exti \<Rightarrow> u16 \<times> exti" where
  "control_slots ctl [] slot_mask e = (slot_mask, e)"
| "control_slots ctl ((i, d) # rest) slot_mask e =
     (let b = push_bit (i AND 15) 1 :: u16 in
      control_slots ctl rest (slot_mask OR b)
        (case ctl of
           IrqEnable \<Rightarrow> e\<lparr>cpuimr1 := cpuimr1 e OR ucast b\<rparr>
         | IrqDisable \<Rightarrow> e\<lparr>cpuimr1 := cpuimr1 e AND NOT (ucast b)\<rparr>
         | IrqCheck \<Rightarrow> e))"

definition gpio_irq_control :: "ExtiDispatch option list \<Rightarrow> TaskId \<Rightarrow> u32 \<Rightarrow> IrqControl \<Rightarrow> exti \<Rightarrow> (client_error + bool) \<times> exti" where
  "gpio_irq_control table sender m ctl e =
     (let (slot_mask, e) = control_slots ctl (exti_dispatch_for table sender m) 0 e in
      if slot_mask = 0 then (Inl ClientBadMessage, e)
      else (Inr (exti_cpupr_2 e AND slot_mask \<noteq> 0), e\<lparr>exti_cpupr_2 := exti_cpupr_2 e AND NOT slot_mask\<rparr>))"

fun configure_slots :: "Edge \<Rightarrow> (nat \<times> ExtiDispatch) list \<Rightarrow> u32 \<Rightarrow> exti \<Rightarrow> u32 \<times> exti" where
  "configure_slots edge [] used_bits e = (used_bits, e)"
| "configure_slots edge ((i, d) # rest) used_bits e =
     (let imask = push_bit (i AND 15) 1 :: u32;
          e = e\<lparr>rtsr1 := (if is_rising edge then rtsr1 e OR imask else rtsr1 e AND NOT imask)\<rparr>;
          e = e\<lparr>ftsr1 := (if is_falling edge then ftsr1 e OR imask else ftsr1 e AND NOT imask)\<rparr> in
      configure_slots edge rest (used_bits OR ed_mask d) e)"

definition gpio_irq_configure :: "ExtiDispatch option list \<Rightarrow> TaskId \<Rightarrow> u32 \<Rightarrow> Edge \<Rightarrow> exti \<Rightarrow> (client_error + unit) \<times> exti" where
  "gpio_irq_configure table sender m edge e =
     (let (used_bits, e) = configure_slots edge (exti_dispatch_for table sender m) 0 e in
      (if m AND used_bits \<noteq> m then Inl ClientBadMessage else Inr (), e))"

text \<open>
  The notification handler. It posts to the owners of the pending and enabled channels, under
  their current identifiers (\<open>refresh\<close> is the kernel's answer), and clears the channels it has
  seen. Edges may arrive between its first read and the clearing write: \<open>late\<close>.
\<close>

datatype exti_call = SysPost TaskId u32 | SysIrqControl u32 bool

fun scan_pins :: "(TaskId \<Rightarrow> TaskId) \<Rightarrow> u16 \<Rightarrow> (nat \<times> ExtiDispatch option) list \<Rightarrow> u16 \<Rightarrow> u16 \<times> exti_call list" where
  "scan_pins refresh pending [] ack = (ack, [])"
| "scan_pins refresh pending ((i, entry) # rest) ack =
     (if pending AND push_bit i 1 \<noteq> 0 then
        (let (ack, calls) = scan_pins refresh pending rest (ack OR push_bit i 1) in
         (ack, (case entry of None \<Rightarrow> [] | Some d \<Rightarrow> [SysPost (refresh (ed_task d)) (ed_mask d)]) @ calls))
      else scan_pins refresh pending rest ack)"

definition exti_handle_notification :: "ExtiDispatch option list \<Rightarrow> u32 \<Rightarrow> (TaskId \<Rightarrow> TaskId) \<Rightarrow> u32 \<Rightarrow> u32 \<Rightarrow> exti \<Rightarrow> exti_call list \<times> exti" where
  "exti_handle_notification table wildcard refresh late bits e =
     (if bits AND wildcard \<noteq> 0 then
        (let pending_and_enabled = (ucast (cpupr1 e) :: u16) AND ucast (cpuimr1 e);
             (ack, calls) = scan_pins refresh pending_and_enabled (dispatch_table_iter table) 0;
             e = e\<lparr>cpupr1 := cpupr1 e OR late\<rparr>;
             e = (if ack \<noteq> 0 then
                    e\<lparr>exti_cpupr_2 := exti_cpupr_2 e OR ack, cpuimr1 := cpuimr1 e AND NOT (ucast ack),
                      cpupr1 := cpupr1 e AND NOT (ucast ack)\<rparr>
                  else e) in
         (calls @ [SysIrqControl wildcard True], e))
      else ([], e\<lparr>cpupr1 := cpupr1 e OR late\<rparr>))"

subsection \<open>Peripheral numbers\<close>

lemma group_number_lt: "unat (group_number g) < 9" "groups ! unat (group_number g) = g"
  by (cases g; simp add: groups_def)+

lemma unpack_periph: "unpack_raw (periph g n) = Some (g, unat (n AND 0x1F))"
proof -
  have m: "(0x1F :: u8) = mask 5" "(0x1F :: u32) = mask 5" by (simp_all add: mask_eq_exp_minus_1)
  have "bit (group_number g) k \<Longrightarrow> k < 4" for k
  proof -
    have "take_bit 4 (group_number g) = group_number g" by (cases g) simp_all
    then show "bit (group_number g) k \<Longrightarrow> k < 4" by (metis bit_take_bit_iff)
  qed
  then have d: "drop_bit 5 (periph g n) = group_number g"
    unfolding periph_def m by (intro bit_word_eqI) (fastforce simp: bit_simps bit_mask_iff)
  have "periph g n AND 0x1F = ucast (n AND 0x1F)"
    unfolding periph_def m by (intro bit_word_eqI) (auto simp: bit_simps bit_mask_iff)
  then have "unat (periph g n AND 0x1F) = unat (n AND 0x1F)" by (simp add: unsigned_ucast_eq take_bit_nat_eq_self less_trans [OF unat_lt_u8])
  with d group_number_lt [of g] show ?thesis by (simp add: unpack_raw_def group_from_u32_def word_less_nat_alt)
qed

lemma bit_reg_set_bit: "k < 32 \<Longrightarrow> bit (reg_set_bit i r) k \<longleftrightarrow> bit r k \<or> k = i"
  by (auto simp: reg_set_bit_def bit_simps)

lemma bit_reg_clear_bit: "bit (reg_clear_bit i r) k \<longleftrightarrow> bit r k \<and> k \<noteq> i"
  using bit_imp_le_length [of r k] by (auto simp: reg_clear_bit_def bit_simps)

subsection \<open>Slots of the dispatch table\<close>

definition owns :: "ExtiDispatch option list \<Rightarrow> TaskId \<Rightarrow> u32 \<Rightarrow> nat \<Rightarrow> bool" where
  "owns table sender m c \<longleftrightarrow> (\<exists>d. table ! c = Some d \<and> tid_index sender = tid_index (ed_task d) \<and> m AND ed_mask d \<noteq> 0)"

lemma dispatch_table_map: "dispatch_table_iter table = map (\<lambda>c. (c, table ! c)) [0..<length table]"
  by (auto simp: dispatch_table_iter_def intro!: nth_equalityI)

lemma set_dispatch_for:
  "(c, d) \<in> set (exti_dispatch_for table sender m) \<longleftrightarrow>
     c < length table \<and> table ! c = Some d \<and> tid_index sender = tid_index (ed_task d) \<and> m AND ed_mask d \<noteq> 0"
proof -
  have mf: "y \<in> set (List.map_filter f xs) \<longleftrightarrow> (\<exists>x \<in> set xs. f x = Some y)" for y :: 'b and f and xs :: "'a list"
    by (induction xs) (auto simp: map_filter_simps split: option.splits)
  have z: "(\<exists>x \<in> set (dispatch_table_iter table). Q x) \<longleftrightarrow> (\<exists>i < length table. Q (i, table ! i))" for Q
    unfolding dispatch_table_map by auto
  have one: "(case (i, table ! i) of (i, entry) \<Rightarrow> case entry of None \<Rightarrow> None | Some d \<Rightarrow>
        if tid_index sender = tid_index (ed_task d) \<and> m AND ed_mask d \<noteq> 0 then Some (i, d) else None) = Some (c, d)
      \<longleftrightarrow> i = c \<and> table ! i = Some d \<and> tid_index sender = tid_index (ed_task d) \<and> m AND ed_mask d \<noteq> 0" for i
    by (cases "table ! i") auto
  show ?thesis unfolding exti_dispatch_for_def mf z one by blast
qed

lemma and_15: "c < 16 \<Longrightarrow> c AND 15 = (c :: nat)"
proof -
  assume "c < 16"
  then have "c AND mask 4 = c" by (simp only: take_bit_eq_mask [symmetric]) (simp add: take_bit_nat_eq_self)
  then show ?thesis by (simp add: mask_eq_exp_minus_1)
qed

lemma control_slots_outcome:
  assumes "\<forall>(i, d) \<in> set xs. i < 16" "control_slots ctl xs sm e = (sm', e')"
  shows "cpupr1 e' = cpupr1 e \<and> exti_cpupr_2 e' = exti_cpupr_2 e \<and> (bit sm' c \<longleftrightarrow> bit sm c \<or> c \<in> fst ` set xs)"
  using assms
proof (induction ctl xs sm e arbitrary: sm' e' rule: control_slots.induct)
  case (2 ctl i d rest sm e)
  have i: "i < 16" "i AND 15 = i" using "2.prems"(1) and_15 by auto
  obtain e1 where e1: "control_slots ctl rest (sm OR push_bit i 1) e1 = (sm', e')" "cpupr1 e1 = cpupr1 e" "exti_cpupr_2 e1 = exti_cpupr_2 e"
      "e1 = (case ctl of IrqEnable \<Rightarrow> e\<lparr>cpuimr1 := cpuimr1 e OR ucast (push_bit i 1 :: u16)\<rparr>
         | IrqDisable \<Rightarrow> e\<lparr>cpuimr1 := cpuimr1 e AND NOT (ucast (push_bit i 1 :: u16))\<rparr> | IrqCheck \<Rightarrow> e)"
    using "2.prems"(2) i by (auto simp: Let_def split: IrqControl.splits)
  have "cpupr1 e' = cpupr1 e1 \<and> exti_cpupr_2 e' = exti_cpupr_2 e1 \<and> (bit sm' c \<longleftrightarrow> bit (sm OR push_bit i 1) c \<or> c \<in> fst ` set rest)"
    using "2.IH" [of "push_bit i 1" sm' e'] "2.prems"(1) e1 i by (auto split: IrqControl.splits)
  then show ?case using e1(2,3) i by (auto simp: bit_simps)
qed simp

lemma gpio_control_outcome:
  assumes "length table = 16" "gpio_irq_control table sender m ctl e = (res, e')"
  shows "cpupr1 e' = cpupr1 e
    \<and> (bit (exti_cpupr_2 e') c \<longleftrightarrow> bit (exti_cpupr_2 e) c \<and> \<not> (c < 16 \<and> owns table sender m c))
    \<and> (res = Inr True \<longleftrightarrow> (\<exists>c < 16. owns table sender m c \<and> bit (exti_cpupr_2 e) c))
    \<and> ((\<exists>err. res = Inl err) \<longleftrightarrow> (\<forall>c < 16. \<not> owns table sender m c))"
proof -
  obtain sm e1 where sm: "control_slots ctl (exti_dispatch_for table sender m) 0 e = (sm, e1)" by fastforce
  have own: "c \<in> fst ` set (exti_dispatch_for table sender m) \<longleftrightarrow> c < 16 \<and> owns table sender m c" for c
    using set_dispatch_for [of c _ table sender m] assms(1) by (force simp: owns_def)
  have "\<forall>(i, d) \<in> set (exti_dispatch_for table sender m). i < 16" using assms(1) by (auto simp: set_dispatch_for)
  from control_slots_outcome [OF this sm]
  have o: "cpupr1 e1 = cpupr1 e" "exti_cpupr_2 e1 = exti_cpupr_2 e" "\<And>c. bit sm c \<longleftrightarrow> c < 16 \<and> owns table sender m c"
    unfolding own by auto
  have z: "sm = 0 \<longleftrightarrow> (\<forall>c < 16. \<not> owns table sender m c)" using o(3) by (auto simp: bit_eq_iff)
  have nz: "exti_cpupr_2 e AND sm \<noteq> 0 \<longleftrightarrow> (\<exists>c < 16. owns table sender m c \<and> bit (exti_cpupr_2 e) c)"
    using o(3) by (auto simp: bit_eq_iff bit_simps)
  show ?thesis
  proof (cases "sm = 0")
    case True
    then have "res = Inl ClientBadMessage" "e' = e1" using assms(2) sm by (simp_all add: gpio_irq_control_def)
    then show ?thesis using o z True by auto
  next
    case False
    then have r: "res = Inr (exti_cpupr_2 e AND sm \<noteq> 0)" "e' = e1\<lparr>exti_cpupr_2 := exti_cpupr_2 e AND NOT sm\<rparr>"
      using assms(2) sm o(2) by (simp_all add: gpio_irq_control_def)
    have "bit (exti_cpupr_2 e') c \<longleftrightarrow> bit (exti_cpupr_2 e) c \<and> \<not> bit sm c"
      using r(2) bit_imp_le_length [of "exti_cpupr_2 e" c] by (auto simp: bit_simps)
    then show ?thesis using r o z nz False by simp
  qed
qed

subsection \<open>Notifications\<close>

lemma scan_pins_Cons:
  "scan_pins refresh P ((i, entry) # rest) ack =
     (if bit P i then
        (let (ack, calls) = scan_pins refresh P rest (ack OR push_bit i 1) in
         (ack, (case entry of None \<Rightarrow> [] | Some d \<Rightarrow> [SysPost (refresh (ed_task d)) (ed_mask d)]) @ calls))
      else scan_pins refresh P rest ack)"
  unfolding bit_iff_and_push_bit_not_eq_0 [of P i] by (rule scan_pins.simps)

lemma scan_pins_outcome:
  assumes "scan_pins refresh P xs ack = (ack', calls)"
  shows "(bit ack' c \<longleftrightarrow> bit ack c \<or> (bit P c \<and> c \<in> fst ` set xs))
    \<and> calls = concat (map (\<lambda>(i, entry). case entry of None \<Rightarrow> [] | Some d \<Rightarrow> if bit P i then [SysPost (refresh (ed_task d)) (ed_mask d)] else []) xs)"
  using assms
proof (induction xs arbitrary: ack calls)
  case (Cons x rest)
  obtain i entry where x: "x = (i, entry)" by (cases x)
  show ?case
  proof (cases "bit P i")
    case True
    then obtain calls1 where r: "scan_pins refresh P rest (ack OR push_bit i 1) = (ack', calls1)"
        "calls = (case entry of None \<Rightarrow> [] | Some d \<Rightarrow> [SysPost (refresh (ed_task d)) (ed_mask d)]) @ calls1"
      using Cons.prems unfolding x scan_pins_Cons by (auto split: prod.splits)
    have "bit (ack OR push_bit i 1) c \<longleftrightarrow> bit ack c \<or> c = i" using bit_imp_le_length [OF True] by (auto simp: bit_simps)
    then show ?thesis using Cons.IH [OF r(1)] True r(2) by (auto simp: x split: option.splits)
  next
    case False
    then have "scan_pins refresh P rest ack = (ack', calls)" using Cons.prems unfolding x scan_pins_Cons by simp
    then show ?thesis using Cons.IH False by (auto simp: x split: option.splits)
  qed
qed simp

definition active :: "exti \<Rightarrow> nat \<Rightarrow> bool" where
  "active e c \<longleftrightarrow> c < 16 \<and> bit (cpupr1 e) c \<and> bit (cpuimr1 e) c"

lemma notification_outcome:
  assumes t: "length table = 16" and w: "bits AND wildcard \<noteq> 0"
    and h: "exti_handle_notification table wildcard refresh late bits e = (calls, e')"
  shows "calls = concat (map (\<lambda>c. case table ! c of None \<Rightarrow> [] | Some d \<Rightarrow>
        if active e c then [SysPost (refresh (ed_task d)) (ed_mask d)] else []) [0..<16]) @ [SysIrqControl wildcard True]"
    and "bit (exti_cpupr_2 e') c \<longleftrightarrow> bit (exti_cpupr_2 e) c \<or> active e c"
    and "c < 32 \<Longrightarrow> bit (cpuimr1 e') c \<longleftrightarrow> bit (cpuimr1 e) c \<and> \<not> active e c"
    and "c < 32 \<Longrightarrow> bit (cpupr1 e') c \<longleftrightarrow> (bit (cpupr1 e) c \<or> bit late c) \<and> \<not> active e c"
proof -
  let ?P = "(ucast (cpupr1 e) :: u16) AND ucast (cpuimr1 e)"
  have P: "bit ?P c \<longleftrightarrow> active e c" for c by (auto simp: active_def bit_simps)
  obtain ack cs where sc: "scan_pins refresh ?P (dispatch_table_iter table) 0 = (ack, cs)" by fastforce
  have it: "dispatch_table_iter table = map (\<lambda>c. (c, table ! c)) [0..<16]"
    using t by (simp add: dispatch_table_map)
  have fst16: "fst ` set (dispatch_table_iter table) = {0..<16}" unfolding it by (simp add: image_image)
  have ack: "bit ack c \<longleftrightarrow> active e c" for c
    using scan_pins_outcome [OF sc, of c] unfolding P fst16 by (auto simp: active_def)
  have cs: "cs = concat (map (\<lambda>c. case table ! c of None \<Rightarrow> [] | Some d \<Rightarrow>
        if active e c then [SysPost (refresh (ed_task d)) (ed_mask d)] else []) [0..<16])"
    using scan_pins_outcome [OF sc, of c] unfolding P it by (simp add: comp_def del: upt_rec_numeral)
  let ?e = "e\<lparr>cpupr1 := cpupr1 e OR late\<rparr>"
  have he: "calls = cs @ [SysIrqControl wildcard True]"
      "e' = (if ack \<noteq> 0 then ?e\<lparr>exti_cpupr_2 := exti_cpupr_2 e OR ack, cpuimr1 := cpuimr1 e AND NOT (ucast ack),
         cpupr1 := (cpupr1 e OR late) AND NOT (ucast ack)\<rparr> else ?e)"
    using h w sc by (auto simp: exti_handle_notification_def Let_def split: if_splits)
  show "calls = concat (map (\<lambda>c. case table ! c of None \<Rightarrow> [] | Some d \<Rightarrow>
        if active e c then [SysPost (refresh (ed_task d)) (ed_mask d)] else []) [0..<16]) @ [SysIrqControl wildcard True]"
    using he(1) cs by simp
  have z: "ack = 0 \<Longrightarrow> \<not> active e c" for c using ack [of c] by auto
  have u: "bit (ucast ack :: u32) c \<longleftrightarrow> active e c" for c using ack [of c] bit_imp_le_length [of ack c] by (auto simp: bit_simps)
  show "bit (exti_cpupr_2 e') c \<longleftrightarrow> bit (exti_cpupr_2 e) c \<or> active e c" using he(2) z ack by (auto simp: bit_or_iff)
  show "bit (cpuimr1 e') c \<longleftrightarrow> bit (cpuimr1 e) c \<and> \<not> active e c" if "c < 32"
    using he(2) z u that by (auto simp: bit_and_iff bit_not_iff)
  show "bit (cpupr1 e') c \<longleftrightarrow> (bit (cpupr1 e) c \<or> bit late c) \<and> \<not> active e c" if "c < 32"
    using he(2) z u that by (auto simp: bit_or_iff bit_and_iff bit_not_iff)
qed

subsection \<open>Runs\<close>

text \<open>
  Edges, notifications and requests of tasks in any order. A run returns the requests for
  control that were answered with \<^verbatim>\<open>true\<close>: the owner is told that an edge was seen.
\<close>

datatype exti_event = EdgeEvent u32 | NotifyEvent u32 u32 | ControlEvent TaskId u32 IrqControl | ConfigureEvent TaskId u32 Edge

fun exti_run :: "ExtiDispatch option list \<Rightarrow> u32 \<Rightarrow> (TaskId \<Rightarrow> TaskId) \<Rightarrow> exti_event list \<Rightarrow> exti \<Rightarrow> exti \<times> (TaskId \<times> u32) list" where
  "exti_run table wildcard refresh [] e = (e, [])"
| "exti_run table wildcard refresh (EdgeEvent edges # evs) e =
     exti_run table wildcard refresh evs (e\<lparr>cpupr1 := cpupr1 e OR edges\<rparr>)"
| "exti_run table wildcard refresh (NotifyEvent bits late # evs) e =
     exti_run table wildcard refresh evs (snd (exti_handle_notification table wildcard refresh late bits e))"
| "exti_run table wildcard refresh (ControlEvent sender m ctl # evs) e =
     (let (res, e) = gpio_irq_control table sender m ctl e; (e, told) = exti_run table wildcard refresh evs e in
      (e, if res = Inr True then (sender, m) # told else told))"
| "exti_run table wildcard refresh (ConfigureEvent sender m edge # evs) e =
     exti_run table wildcard refresh evs (snd (gpio_irq_configure table sender m edge e))"

definition held :: "exti \<Rightarrow> nat \<Rightarrow> bool" where
  "held e c \<longleftrightarrow> bit (cpupr1 e) c \<or> bit (exti_cpupr_2 e) c"

lemma configure_slots_held:
  "configure_slots edge xs used e = (used', e') \<Longrightarrow> cpupr1 e' = cpupr1 e \<and> exti_cpupr_2 e' = exti_cpupr_2 e"
  by (induction edge xs used e rule: configure_slots.induct) (auto simp: Let_def)

lemma notification_held:
  assumes "length table = 16" "c < 16" "held e c"
  shows "held (snd (exti_handle_notification table wildcard refresh late bits e)) c"
proof (cases "bits AND wildcard = 0")
  case False
  obtain calls e' where h: "exti_handle_notification table wildcard refresh late bits e = (calls, e')" by fastforce
  from notification_outcome(2,4) [OF assms(1) False h, of c] assms(2,3) h show ?thesis by (auto simp: held_def)
qed (use assms in \<open>auto simp: exti_handle_notification_def held_def bit_or_iff\<close>)

lemma exti_run_held:
  assumes "length table = 16" "c < 16" "held e c" "exti_run table wildcard refresh evs e = (e', told)"
  shows "held e' c \<or> (\<exists>(sender, m) \<in> set told. owns table sender m c)"
  using assms(3,4)
proof (induction evs arbitrary: e told)
  case (Cons ev evs)
  show ?case
  proof (cases ev)
    case (EdgeEvent edges)
    then show ?thesis using Cons.IH [of "e\<lparr>cpupr1 := cpupr1 e OR edges\<rparr>"] Cons.prems by (auto simp: held_def bit_or_iff)
  next
    case (NotifyEvent bits late)
    then show ?thesis using Cons.IH [OF notification_held [OF assms(1,2) Cons.prems(1)]] Cons.prems(2) by auto
  next
    case (ConfigureEvent sender m edge)
    obtain used e1 where "configure_slots edge (exti_dispatch_for table sender m) 0 e = (used, e1)" by fastforce
    moreover from configure_slots_held [OF this] have "held e1 c" using Cons.prems(1) by (simp add: held_def)
    ultimately show ?thesis using Cons.IH [of e1] Cons.prems(2) ConfigureEvent by (simp add: gpio_irq_configure_def)
  next
    case (ControlEvent sender m ctl)
    obtain res e1 where r: "gpio_irq_control table sender m ctl e = (res, e1)" by fastforce
    obtain told1 where t: "exti_run table wildcard refresh evs e1 = (e', told1)" "told = (if res = Inr True then (sender, m) # told1 else told1)"
      using Cons.prems(2) ControlEvent r by (auto split: prod.splits)
    note o = gpio_control_outcome [OF assms(1) r, of c]
    show ?thesis
    proof (cases "held e1 c")
      case True
      then show ?thesis using Cons.IH [OF True t(1)] t(2) by auto
    next
      case False
      then have "owns table sender m c" "bit (exti_cpupr_2 e) c" using o Cons.prems(1) by (auto simp: held_def)
      then have "res = Inr True" using o assms(2) by blast
      then show ?thesis using t(2) \<open>owns table sender m c\<close> by auto
    qed
  qed
qed simp


text \<open>One interrupt, on pin 13 of port C, for the task with index 4.\<close>

definition example_exti :: "ExtiDispatch option list" where
  "example_exti = (replicate 16 None)[13 := Some \<lparr>ed_port = PC, ed_task = for_index_and_gen 4 (Generation 0), ed_mask = 2\<rparr>]"

definition example_exti_regs :: exti where
  "example_exti_regs = \<lparr>cpuimr1 = 0x2000, cpupr1 = 0, rtsr1 = 0x2000, ftsr1 = 0, exti_cpupr_2 = 0\<rparr>"

lemma example_exti_run:
  "exti_run example_exti 1 id [EdgeEvent 0x2000, NotifyEvent 1 0, ControlEvent (TaskId 4) 2 IrqEnable] example_exti_regs
    = (example_exti_regs, [(TaskId 4, 2)])"
  by code_simp


text \<open>
  Handling a notification serves exactly the channels that are latched and enabled when it
  starts: in the order of the channels, each owner in the dispatch table is posted its mask under its
  current identifier, the channel is recorded, masked until its owner enables it again, and its
  latch is cleared; all other channels keep their mask and their latch, with edges that arrive
  meanwhile, and the server's own interrupt is enabled again.
\<close>

theorem exti_notification_exact:
  assumes "length table = 16" "bits AND wildcard \<noteq> 0"
    and "exti_handle_notification table wildcard refresh late bits e = (calls, e')"
  shows "calls = concat (map (\<lambda>c. case table ! c of None \<Rightarrow> [] | Some d \<Rightarrow>
        if active e c then [SysPost (refresh (ed_task d)) (ed_mask d)] else []) [0..<16]) @ [SysIrqControl wildcard True]
    \<and> (\<forall>c < 32. (bit (exti_cpupr_2 e') c \<longleftrightarrow> bit (exti_cpupr_2 e) c \<or> active e c)
        \<and> (bit (cpuimr1 e') c \<longleftrightarrow> bit (cpuimr1 e) c \<and> \<not> active e c)
        \<and> (bit (cpupr1 e') c \<longleftrightarrow> (bit (cpupr1 e) c \<or> bit late c) \<and> \<not> active e c))"
  using notification_outcome [OF assms] by blast

theorem exti_notification_exact_witness:
  "bit (cpupr1 (snd (exti_handle_notification example_exti 1 id 0x8 1 (example_exti_regs\<lparr>cpupr1 := 0x2000\<rparr>)))) 3"
proof -
  have t: "length example_exti = 16" "(1 :: u32) AND 1 \<noteq> 0" by (simp_all add: example_exti_def)
  obtain calls e' where h: "exti_handle_notification example_exti 1 id 0x8 1 (example_exti_regs\<lparr>cpupr1 := 0x2000\<rparr>) = (calls, e')" by fastforce
  from exti_notification_exact [OF t h] have "bit (cpupr1 e') 3" by (auto simp: active_def example_exti_regs_def)
  then show ?thesis using h by simp
qed

end
