(* ===== verification/Drv_Update.thy ===== *)
theory Drv_Update
  imports Kern_Prelude
begin

section \<open>The firmware updater\<close>

text \<open>
  \<^verbatim>\<open>drv/stm32h7-update-server\<close>: a server that erases and writes the second bank of flash and swaps
  the banks. The flash controller is outside the program: its state is a type variable and
  what the driver does with it is the record \<open>flash_dev\<close>, namely the effect of each register
  write, the register fields that are read, and the waiting loops, which yield the state when the
  flag changes or \<open>None\<close> when it never does. The writes are also recorded in \<open>us_log\<close>, so that
  theorems can speak of them for every controller.
\<close>

subsection \<open>Constants, errors and states\<close>

definition FLASH_WORD_BITS :: nat where "FLASH_WORD_BITS = 256"
definition FLASH_WORD_BYTES :: nat where "FLASH_WORD_BYTES = FLASH_WORD_BITS div 8"
definition FLASH_WORDS_PER_BLOCK :: nat where "FLASH_WORDS_PER_BLOCK = 32"
definition BLOCK_SIZE_BYTES :: nat where "BLOCK_SIZE_BYTES = FLASH_WORD_BYTES * FLASH_WORDS_PER_BLOCK"
definition FLASH_WORD_WORDS :: nat where "FLASH_WORD_WORDS = FLASH_WORD_BYTES div 4"

lemmas flash_sizes = FLASH_WORD_BITS_def FLASH_WORD_BYTES_def FLASH_WORDS_PER_BLOCK_def BLOCK_SIZE_BYTES_def FLASH_WORD_WORDS_def

definition FLASH_KEY1 :: u32 where "FLASH_KEY1 = 0x45670123"
definition FLASH_KEY2 :: u32 where "FLASH_KEY2 = 0xCDEF89AB"
definition FLASH_OPT_KEY1 :: u32 where "FLASH_OPT_KEY1 = 0x08192A3B"
definition FLASH_OPT_KEY2 :: u32 where "FLASH_OPT_KEY2 = 0x4C5D6E7F"

datatype UpdateError = BadLength | UpdateInProgress | OutOfBounds | EccDoubleErr | EccSingleErr | SecureErr | ReadProtErr
  | WriteEraseErr | InconsistencyErr | StrobeErr | ProgSeqErr | WriteProtErr | BadImageType | UpdateAlreadyFinished
  | UpdateNotStarted | RunningImage | FlashError | FlashIllegalRead | FlashReadFail | MissingHeaderBlock | InvalidHeaderBlock
  | ImageBoardMismatch | ImageBoardUnknown | TaskRestarted | NotImplemented | MissingHandoffData | BlockOutOfOrder
  | InvalidSlotIdForOperation | ImageMismatch | SignatureNotValidated | VersionNotSupported

datatype SlotId = SlotActive | SlotInactive

datatype UpdateState = NoUpdate | InProgress | UpFinished

datatype 'a up_result = UDone 'a | UFail UpdateError | UWentAway | UPanic | UHang

record bank_status =
  dbeccerr :: bool
  sneccerr1 :: bool
  rdserr :: bool
  rdperr :: bool
  operr :: bool
  incerr :: bool
  strberr :: bool
  pgserr :: bool
  wrperr :: bool

datatype flash_cmd = KeyWrite u32 | OptKeyWrite u32 | CrProgram | StoreWord nat u32 | EraseIrqs | StartErase
  | IrqEnable | OptSwap bool | OptStart

record 'd flash_dev =
  dev_cmd :: "flash_cmd \<Rightarrow> 'd \<Rightarrow> 'd"
  dev_lock :: "'d \<Rightarrow> bool"
  dev_swap_cur :: "'d \<Rightarrow> bool"
  dev_swap_boot :: "'d \<Rightarrow> bool"
  dev_sr :: "'d \<Rightarrow> bank_status"
  dev_eop :: "'d \<Rightarrow> bool"
  dev_qw_done :: "'d \<Rightarrow> 'd option"
  dev_opt_done :: "'d \<Rightarrow> 'd option"
  dev_note :: "'d \<Rightarrow> 'd option"

record 'd update_server =
  us_state :: UpdateState
  us_pending :: SlotId
  us_dev :: 'd
  us_log :: "flash_cmd list"

text \<open>The limits of the second bank, which the linker provides.\<close>

record bank_bounds =
  bank_base :: nat
  bank_end :: nat

subsection \<open>Register sequences\<close>

definition issue :: "'d flash_dev \<Rightarrow> flash_cmd \<Rightarrow> 'd update_server \<Rightarrow> 'd update_server" where
  "issue f c s = s\<lparr>us_dev := dev_cmd f c (us_dev s), us_log := us_log s @ [c]\<rparr>"

definition other_slot :: "SlotId \<Rightarrow> SlotId" where
  "other_slot p = (case p of SlotActive \<Rightarrow> SlotInactive | SlotInactive \<Rightarrow> SlotActive)"

definition unlock :: "'d flash_dev \<Rightarrow> 'd update_server \<Rightarrow> 'd update_server" where
  "unlock f s =
     (if \<not> dev_lock f (us_dev s) then s
      else issue f (OptKeyWrite FLASH_OPT_KEY2) (issue f (OptKeyWrite FLASH_OPT_KEY1)
             (issue f (KeyWrite FLASH_KEY2) (issue f (KeyWrite FLASH_KEY1) s))))"

definition swap_banks :: "'d flash_dev \<Rightarrow> 'd update_server \<Rightarrow> unit up_result \<times> 'd update_server" where
  "swap_banks f s =
     (let s = unlock f s;
          s = issue f (OptSwap (\<not> dev_swap_cur f (us_dev s))) s;
          s = issue f OptStart s in
      case dev_opt_done f (us_dev s) of
        None \<Rightarrow> (UHang, s)
      | Some d \<Rightarrow> (UDone (), s\<lparr>us_dev := d, us_pending := other_slot (us_pending s)\<rparr>))"

definition status_error :: "bank_status \<Rightarrow> UpdateError option" where
  "status_error e =
     (if dbeccerr e then Some EccDoubleErr else if sneccerr1 e then Some EccSingleErr else if rdserr e then Some SecureErr
      else if rdperr e then Some ReadProtErr else if operr e then Some WriteEraseErr else if incerr e then Some InconsistencyErr
      else if strberr e then Some StrobeErr else if pgserr e then Some ProgSeqErr else if wrperr e then Some WriteProtErr else None)"

definition bank2_status :: "'d flash_dev \<Rightarrow> 'd update_server \<Rightarrow> unit up_result" where
  "bank2_status f s = (case status_error (dev_sr f (us_dev s)) of Some e \<Rightarrow> UFail e | None \<Rightarrow> UDone ())"

definition poll_flash_done :: "'d flash_dev \<Rightarrow> 'd update_server \<Rightarrow> unit up_result \<times> 'd update_server" where
  "poll_flash_done f s =
     (case dev_qw_done f (us_dev s) of
        None \<Rightarrow> (UHang, s)
      | Some d \<Rightarrow> (let s = s\<lparr>us_dev := d\<rparr> in (bank2_status f s, s)))"

definition store_words :: "'d flash_dev \<Rightarrow> nat \<Rightarrow> u32 list \<Rightarrow> 'd update_server \<Rightarrow> 'd update_server" where
  "store_words f start words s = fold (\<lambda>(k, w). issue f (StoreWord (start + 4 * k) w)) (zip [0..<FLASH_WORD_WORDS] words) s"

definition write_word :: "'d flash_dev \<Rightarrow> bank_bounds \<Rightarrow> nat \<Rightarrow> u32 list \<Rightarrow> 'd update_server \<Rightarrow> unit up_result \<times> 'd update_server" where
  "write_word f bk word_number words s =
     (if bank_end bk < bank_base bk then (UPanic, s)
      else
        (let bank_word_limit = (bank_end bk - bank_base bk) div FLASH_WORD_BYTES in
         if bank_word_limit < word_number then (UPanic, s)
         else
           (let start = bank_base bk + word_number * FLASH_WORD_BYTES in
            if 2 ^ 32 \<le> start + FLASH_WORD_BYTES then (UPanic, s)
            else if bank_end bk < start + FLASH_WORD_BYTES then (UFail BadLength, s)
            else poll_flash_done f (store_words f start words (issue f CrProgram s)))))"

text \<open>Waiting for the end of the erasure: each notification is checked against the status register.\<close>

partial_function (option) wait_eop :: "'d flash_dev \<Rightarrow> 'd update_server \<Rightarrow> 'd update_server option" where
  "wait_eop f s =
     (case dev_note f (us_dev s) of
        None \<Rightarrow> None
      | Some d \<Rightarrow> (if dev_eop f d then Some (s\<lparr>us_dev := d\<rparr>) else wait_eop f (issue f IrqEnable (s\<lparr>us_dev := d\<rparr>))))"

definition bank_erase :: "'d flash_dev \<Rightarrow> 'd update_server \<Rightarrow> unit up_result \<times> 'd update_server" where
  "bank_erase f s =
     (let s = issue f StartErase (issue f EraseIrqs (issue f IrqEnable s)) in
      case wait_eop f s of
        None \<Rightarrow> (UHang, s)
      | Some s \<Rightarrow> (bank2_status f s, s))"

subsection \<open>Requests\<close>

definition set_pending_boot_slot :: "'d flash_dev \<Rightarrow> SlotId \<Rightarrow> 'd update_server \<Rightarrow> unit up_result \<times> 'd update_server" where
  "set_pending_boot_slot f slot s = (if slot \<noteq> us_pending s then swap_banks f s else (UDone (), s))"

definition get_pending_boot_slot :: "'d update_server \<Rightarrow> SlotId" where
  "get_pending_boot_slot s = us_pending s"

definition prep_image_update :: "'d flash_dev \<Rightarrow> 'd update_server \<Rightarrow> unit up_result \<times> 'd update_server" where
  "prep_image_update f s =
     (case us_state s of
        InProgress \<Rightarrow> (UFail UpdateInProgress, s)
      | UpFinished \<Rightarrow> (UFail UpdateAlreadyFinished, s)
      | NoUpdate \<Rightarrow>
          (case bank_erase f (unlock f s) of
             (UDone _, s) \<Rightarrow> (UDone (), s\<lparr>us_state := InProgress\<rparr>)
           | (r, s) \<Rightarrow> (r, s)))"

definition abort_update :: "'d update_server \<Rightarrow> unit up_result \<times> 'd update_server" where
  "abort_update s =
     (case us_state s of
        NoUpdate \<Rightarrow> (UFail UpdateNotStarted, s)
      | UpFinished \<Rightarrow> (UFail UpdateAlreadyFinished, s)
      | InProgress \<Rightarrow> (UDone (), s\<lparr>us_state := NoUpdate\<rparr>))"

definition le_u32 :: "u8 \<Rightarrow> u8 \<Rightarrow> u8 \<Rightarrow> u8 \<Rightarrow> u32" where
  "le_u32 a b c d = ucast a OR push_bit 8 (ucast b) OR push_bit 16 (ucast c) OR push_bit 24 (ucast d)"

fun le_words :: "u8 list \<Rightarrow> u32 list" where
  "le_words (a # b # c # d # bs) = le_u32 a b c d # le_words bs"
| "le_words _ = []"

definition flash_page :: "u8 list \<Rightarrow> u32 list list" where
  "flash_page data =
     (let words = le_words (data @ replicate (BLOCK_SIZE_BYTES - length data) 0) in
      map (\<lambda>i. take FLASH_WORD_WORDS (drop (FLASH_WORD_WORDS * i) words)) [0..<FLASH_WORDS_PER_BLOCK])"

fun write_page :: "'d flash_dev \<Rightarrow> bank_bounds \<Rightarrow> nat \<Rightarrow> nat \<Rightarrow> u32 list list \<Rightarrow> 'd update_server \<Rightarrow> unit up_result \<times> 'd update_server" where
  "write_page f bk block_num i [] s = (UDone (), s)"
| "write_page f bk block_num i (fw # fws) s =
     (if 2 ^ 32 \<le> block_num * FLASH_WORDS_PER_BLOCK + i then (UPanic, s)
      else
        (case write_word f bk (block_num * FLASH_WORDS_PER_BLOCK + i) fw s of
           (UDone _, s) \<Rightarrow> write_page f bk block_num (Suc i) fws s
         | (r, s) \<Rightarrow> (r, s)))"

text \<open>
  A block arrives as a lease of at most \<open>BLOCK_SIZE_BYTES\<close> bytes, a limit checked before the handler
  runs; reading it fails when the client has gone.
\<close>

definition write_one_block :: "'d flash_dev \<Rightarrow> bank_bounds \<Rightarrow> nat \<Rightarrow> u8 list option \<Rightarrow> 'd update_server \<Rightarrow> unit up_result \<times> 'd update_server" where
  "write_one_block f bk block_num block s =
     (case us_state s of
        NoUpdate \<Rightarrow> (UFail UpdateNotStarted, s)
      | UpFinished \<Rightarrow> (UFail UpdateAlreadyFinished, s)
      | InProgress \<Rightarrow>
          (case block of
             None \<Rightarrow> (UWentAway, s)
           | Some data \<Rightarrow> write_page f bk block_num 0 (flash_page data) s))"

definition finish_image_update :: "'d update_server \<Rightarrow> unit up_result \<times> 'd update_server" where
  "finish_image_update s =
     (case us_state s of
        NoUpdate \<Rightarrow> (UFail UpdateNotStarted, s)
      | UpFinished \<Rightarrow> (UFail UpdateAlreadyFinished, s)
      | InProgress \<Rightarrow> (UDone (), s\<lparr>us_state := UpFinished\<rparr>))"

definition block_size :: nat where "block_size = BLOCK_SIZE_BYTES"

text \<open>The state a new incarnation of the server starts in.\<close>

definition update_main :: "'d flash_dev \<Rightarrow> 'd \<Rightarrow> flash_cmd list \<Rightarrow> 'd update_server" where
  "update_main f d log = \<lparr>us_state = NoUpdate,
     us_pending = (if dev_swap_cur f d = dev_swap_boot f d then SlotActive else SlotInactive), us_dev = d, us_log = log\<rparr>"

subsection \<open>Sequences of requests\<close>

datatype up_request = ReqSetPending SlotId | ReqPrep | ReqAbort | ReqWrite nat "u8 list option" | ReqFinish

fun up_step :: "'d flash_dev \<Rightarrow> bank_bounds \<Rightarrow> up_request \<Rightarrow> 'd update_server \<Rightarrow> unit up_result \<times> 'd update_server" where
  "up_step f bk (ReqSetPending slot) s = set_pending_boot_slot f slot s"
| "up_step f bk ReqPrep s = prep_image_update f s"
| "up_step f bk ReqAbort s = abort_update s"
| "up_step f bk (ReqWrite n block) s = write_one_block f bk n block s"
| "up_step f bk ReqFinish s = finish_image_update s"

text \<open>After a panic the supervisor restarts the server; a wait that never ends stops everything.\<close>

definition up_serve :: "'d flash_dev \<Rightarrow> bank_bounds \<Rightarrow> up_request \<Rightarrow> 'd update_server \<Rightarrow> unit up_result \<times> 'd update_server" where
  "up_serve f bk req s = (let (r, s') = up_step f bk req s in (r, if r = UPanic then update_main f (us_dev s') (us_log s') else s'))"

type_synonym up_entry = "up_request \<times> unit up_result \<times> flash_cmd list"

fun up_trace :: "'d flash_dev \<Rightarrow> bank_bounds \<Rightarrow> up_request list \<Rightarrow> 'd update_server \<Rightarrow> up_entry list \<times> 'd update_server" where
  "up_trace f bk [] s = ([], s)"
| "up_trace f bk (req # reqs) s =
     (let (r, s1) = up_serve f bk req s; entry = (req, r, drop (length (us_log s)) (us_log s1)) in
      if r = UHang then ([entry], s1)
      else (let (tr, s2) = up_trace f bk reqs s1 in (entry # tr, s2)))"

text \<open>The phase of an update as a client can tell it from requests and replies.\<close>

definition next_phase :: "UpdateState \<Rightarrow> up_entry \<Rightarrow> UpdateState" where
  "next_phase ph e =
     (case e of (req, r, _) \<Rightarrow>
        if r = UPanic then NoUpdate
        else if r = UDone () then (case req of ReqPrep \<Rightarrow> InProgress | ReqAbort \<Rightarrow> NoUpdate | ReqFinish \<Rightarrow> UpFinished | _ \<Rightarrow> ph)
        else ph)"

definition phase :: "up_entry list \<Rightarrow> UpdateState \<Rightarrow> UpdateState" where
  "phase tr ph = foldl next_phase ph tr"

text \<open>What a request may do to the flash in a phase.\<close>

definition permitted :: "bank_bounds \<Rightarrow> UpdateState \<Rightarrow> up_request \<Rightarrow> flash_cmd \<Rightarrow> bool" where
  "permitted bk ph req c =
     (case c of
        StoreWord a w \<Rightarrow> ph = InProgress \<and> (case req of ReqWrite n b \<Rightarrow> True | _ \<Rightarrow> False)
          \<and> bank_base bk \<le> a \<and> a + 4 \<le> bank_end bk \<and> 4 dvd (a - bank_base bk)
      | StartErase \<Rightarrow> ph = NoUpdate \<and> req = ReqPrep
      | _ \<Rightarrow> True)"

definition harmless :: "flash_cmd \<Rightarrow> bool" where
  "harmless c = (case c of StoreWord a w \<Rightarrow> False | StartErase \<Rightarrow> False | _ \<Rightarrow> True)"

lemma harmless_simps [simp]:
  "harmless (KeyWrite k)" "harmless (OptKeyWrite k)" "harmless CrProgram" "\<not> harmless (StoreWord a w)" "harmless EraseIrqs"
  "\<not> harmless StartErase" "harmless IrqEnable" "harmless (OptSwap b)" "harmless OptStart"
  by (simp_all add: harmless_def)

lemma permitted_harmless: "harmless c \<Longrightarrow> permitted bk ph req c"
  by (cases c) (simp_all add: permitted_def)

text \<open>\<open>grew P s s'\<close>: the log has grown by commands that satisfy \<open>P\<close>.\<close>

definition grew :: "(flash_cmd \<Rightarrow> bool) \<Rightarrow> 'd update_server \<Rightarrow> 'd update_server \<Rightarrow> bool" where
  "grew P s s' \<longleftrightarrow> us_log s' = us_log s @ drop (length (us_log s)) (us_log s') \<and> list_all P (drop (length (us_log s)) (us_log s'))"

lemma grew_iff: "grew P s s' \<longleftrightarrow> (\<exists>cs. us_log s' = us_log s @ cs \<and> list_all P cs)"
  by (auto simp: grew_def)

lemma grew_refl [simp]: "us_log s' = us_log s \<Longrightarrow> grew P s s'"
  by (simp add: grew_def)

lemma grew_fields [simp]:
  "grew P s (s'\<lparr>us_dev := d\<rparr>) = grew P s s'" "grew P s (s'\<lparr>us_pending := p\<rparr>) = grew P s s'" "grew P s (s'\<lparr>us_state := st\<rparr>) = grew P s s'"
  by (simp_all add: grew_def)

lemma grew_trans: "grew P s s' \<Longrightarrow> grew P s' s'' \<Longrightarrow> grew P s s''"
  by (force simp: grew_iff)

lemma grew_mono: "grew P s s' \<Longrightarrow> (\<And>c. P c \<Longrightarrow> Q c) \<Longrightarrow> grew Q s s'"
  by (force simp: grew_iff list_all_iff)

lemma us_issue [simp]:
  "us_state (issue f c s) = us_state s" "us_pending (issue f c s) = us_pending s" "us_log (issue f c s) = us_log s @ [c]"
  by (simp_all add: issue_def)

lemma grew_issue: "P c \<Longrightarrow> grew P s s' \<Longrightarrow> grew P s (issue f c s')"
  by (force simp: grew_iff)

lemma unlock_same: "us_state (unlock f s) = us_state s" "us_pending (unlock f s) = us_pending s" "grew harmless s (unlock f s)"
  by (auto simp: unlock_def intro!: grew_issue)

lemma wait_eop_same:
  assumes run: "wait_eop f s = Some s'"
  shows "us_state s' = us_state s \<and> us_pending s' = us_pending s \<and> grew harmless s s'"
proof (rule wait_eop.raw_induct [OF _ run])
  fix w :: "'a flash_dev \<Rightarrow> 'a update_server \<Rightarrow> 'a update_server option" and f s s'
  assume ih: "\<And>f s s'. w f s = Some s' \<Longrightarrow> us_state s' = us_state s \<and> us_pending s' = us_pending s \<and> grew harmless s s'"
    and step: "(case dev_note f (us_dev s) of None \<Rightarrow> None
      | Some d \<Rightarrow> if dev_eop f d then Some (s\<lparr>us_dev := d\<rparr>) else w f (issue f IrqEnable (s\<lparr>us_dev := d\<rparr>))) = Some s'"
  then obtain d where d: "dev_note f (us_dev s) = Some d" by (cases "dev_note f (us_dev s)") auto
  show "us_state s' = us_state s \<and> us_pending s' = us_pending s \<and> grew harmless s s'"
  proof (cases "dev_eop f d")
    case False
    then have "w f (issue f IrqEnable (s\<lparr>us_dev := d\<rparr>)) = Some s'" using step d by simp
    moreover have "grew harmless s (issue f IrqEnable (s\<lparr>us_dev := d\<rparr>))" by (intro grew_issue) simp_all
    ultimately show ?thesis using ih by (fastforce intro: grew_trans)
  qed (use step d in auto)
qed

lemma bank_erase_same:
  "bank_erase f s = (r, s') \<Longrightarrow> us_state s' = us_state s \<and> us_pending s' = us_pending s
    \<and> grew (\<lambda>c. harmless c \<or> c = StartErase) s s' \<and> r \<noteq> UPanic"
proof -
  assume e: "bank_erase f s = (r, s')"
  let ?s = "issue f StartErase (issue f EraseIrqs (issue f IrqEnable s))"
  have g: "grew (\<lambda>c. harmless c \<or> c = StartErase) s ?s" by (intro grew_issue) simp_all
  show ?thesis
  proof (cases "wait_eop f ?s")
    case None then show ?thesis using e g by (auto simp: bank_erase_def)
  next
    case (Some s1)
    from wait_eop_same [OF this] have "us_state s1 = us_state s \<and> us_pending s1 = us_pending s" "grew (\<lambda>c. harmless c \<or> c = StartErase) ?s s1"
      by (auto elim: grew_mono)
    then show ?thesis using e Some grew_trans [OF g] by (auto simp: bank_erase_def bank2_status_def split: option.splits)
  qed
qed

lemma poll_same:
  "poll_flash_done f s = (r, s') \<Longrightarrow> us_state s' = us_state s \<and> us_pending s' = us_pending s \<and> us_log s' = us_log s \<and> r \<noteq> UPanic"
  by (auto simp: poll_flash_done_def bank2_status_def Let_def split: option.splits)

lemma fold_store:
  "us_state (fold (\<lambda>(k, w). issue f (StoreWord (a + 4 * k) w)) kws s) = us_state s
   \<and> us_pending (fold (\<lambda>(k, w). issue f (StoreWord (a + 4 * k) w)) kws s) = us_pending s
   \<and> us_log (fold (\<lambda>(k, w). issue f (StoreWord (a + 4 * k) w)) kws s) = us_log s @ map (\<lambda>(k, w). StoreWord (a + 4 * k) w) kws"
  by (induction kws arbitrary: s) auto

lemma store_words_same:
  "us_state (store_words f a ws s) = us_state s" "us_pending (store_words f a ws s) = us_pending s"
  "us_log (store_words f a ws s) = us_log s @ map (\<lambda>(k, w). StoreWord (a + 4 * k) w) (zip [0..<FLASH_WORD_WORDS] ws)"
  using fold_store [of f a "zip [0..<FLASH_WORD_WORDS] ws" s] by (simp_all add: store_words_def)

definition in_bank :: "bank_bounds \<Rightarrow> flash_cmd \<Rightarrow> bool" where
  "in_bank bk c = (case c of
     StoreWord a w \<Rightarrow> bank_base bk \<le> a \<and> a + 4 \<le> bank_end bk \<and> 4 dvd (a - bank_base bk) | StartErase \<Rightarrow> False | _ \<Rightarrow> True)"

lemma write_word_same:
  assumes "write_word f bk n ws s = (r, s')"
  shows "us_state s' = us_state s \<and> us_pending s' = us_pending s \<and> grew (in_bank bk) s s'"
proof (cases "us_log s' = us_log s")
  case True then show ?thesis
    using assms by (auto simp: write_word_def store_words_same Let_def dest!: poll_same split: if_splits)
next
  case False
  let ?start = "bank_base bk + n * FLASH_WORD_BYTES"
  let ?cs = "map (\<lambda>(k, w). StoreWord (?start + 4 * k) w) (zip [0..<FLASH_WORD_WORDS] ws)"
  have fit: "?start + FLASH_WORD_BYTES \<le> bank_end bk"
    and poll: "poll_flash_done f (store_words f ?start ws (issue f CrProgram s)) = (r, s')"
    using assms False by (auto simp: write_word_def Let_def split: if_splits)
  have "in_bank bk c" if "c \<in> set (CrProgram # ?cs)" for c
    using that fit by (auto simp: in_bank_def flash_sizes dest!: set_zip_leftD)
  then have "list_all (in_bank bk) (CrProgram # ?cs)" unfolding list_all_iff by blast
  moreover have "us_log s' = us_log s @ (CrProgram # ?cs)" using poll_same [OF poll] by (simp add: store_words_same)
  ultimately show ?thesis using poll_same [OF poll] by (auto simp: grew_iff store_words_same)
qed

lemma write_page_same:
  "write_page f bk n i fws s = (r, s') \<Longrightarrow> us_state s' = us_state s \<and> us_pending s' = us_pending s \<and> grew (in_bank bk) s s'"
proof (induction f bk n i fws s rule: write_page.induct)
  case (2 f bk n i fw fws s)
  show ?case
  proof (cases "2 ^ 32 \<le> n * FLASH_WORDS_PER_BLOCK + i")
    case False
    obtain r1 s1 where w: "write_word f bk (n * FLASH_WORDS_PER_BLOCK + i) fw s = (r1, s1)" by fastforce
    note w1 = write_word_same [OF w]
    show ?thesis
    proof (cases r1)
      case (UDone u)
      with "2.prems" w False have "write_page f bk n (Suc i) fws s1 = (r, s')" by simp
      from "2.IH" [OF False w [symmetric] UDone this] w1 show ?thesis by (auto intro: grew_trans)
    qed (use "2.prems" w w1 False in auto)
  qed (use "2.prems" in auto)
qed auto

lemma swap_same: "swap_banks f s = (r, s') \<Longrightarrow> us_state s' = us_state s \<and> grew harmless s s' \<and> r \<noteq> UPanic"
  using unlock_same [where f = f and s = s] by (auto simp: swap_banks_def Let_def split: option.splits intro!: grew_issue elim: grew_trans)

text \<open>One request: the phase as the replies tell it is the server's state, and the log grows as permitted.\<close>

lemma up_step_sound:
  assumes "up_step f bk req s = (r, s')"
  shows "(r \<noteq> UPanic \<longrightarrow> us_state s' = next_phase (us_state s) (req, r, cs)) \<and> grew (permitted bk (us_state s) req) s s'"
proof (cases req)
  case (ReqSetPending slot)
  then show ?thesis using assms swap_same [of f s r s']
    by (auto simp: set_pending_boot_slot_def next_phase_def intro: permitted_harmless elim: grew_mono split: if_splits)
next
  case ReqPrep
  show ?thesis
  proof (cases "us_state s")
    case NoUpdate
    obtain r1 s1 where e: "bank_erase f (unlock f s) = (r1, s1)" by fastforce
    have "grew (permitted bk (us_state s) req) s (unlock f s)" using unlock_same(3) by (rule grew_mono) (rule permitted_harmless)
    moreover have "grew (permitted bk (us_state s) req) (unlock f s) s1"
      using bank_erase_same [OF e] NoUpdate ReqPrep by (auto simp: permitted_def intro: permitted_harmless elim!: grew_mono)
    ultimately have "grew (permitted bk (us_state s) req) s s1" by (rule grew_trans)
    then show ?thesis using assms ReqPrep NoUpdate e bank_erase_same [OF e] unlock_same [where f = f and s = s]
      by (auto simp: prep_image_update_def next_phase_def split: up_result.splits)
  qed (use assms ReqPrep in \<open>auto simp: prep_image_update_def next_phase_def\<close>)
next
  case (ReqWrite n b)
  have "grew (permitted bk InProgress req) s s'" if "grew (in_bank bk) s s'"
    using that by (rule grew_mono) (auto simp: in_bank_def permitted_def ReqWrite split: flash_cmd.splits)
  then show ?thesis using assms ReqWrite
    by (auto simp: write_one_block_def next_phase_def dest!: write_page_same split: UpdateState.splits option.splits)
qed (use assms in \<open>auto simp: abort_update_def finish_image_update_def next_phase_def split: UpdateState.splits\<close>)

lemma up_serve_sound:
  assumes "up_serve f bk req s = (r, s')"
  shows "us_state s' = next_phase (us_state s) (req, r, cs)" and "grew (permitted bk (us_state s) req) s s'"
proof -
  obtain s1 where s1: "up_step f bk req s = (r, s1)" "s' = (if r = UPanic then update_main f (us_dev s1) (us_log s1) else s1)"
    using assms by (auto simp: up_serve_def split: prod.splits)
  show "us_state s' = next_phase (us_state s) (req, r, cs)" "grew (permitted bk (us_state s) req) s s'"
    using up_step_sound [OF s1(1), of cs] s1(2) by (auto simp: next_phase_def update_main_def grew_def)
qed

lemma up_trace_sound:
  assumes "up_trace f bk reqs s = (tr, s')" "k < length tr" "tr ! k = (req, r, cmds)"
  shows "list_all (permitted bk (phase (take k tr) (us_state s)) req) cmds"
  using assms
proof (induction reqs arbitrary: s tr k)
  case (Cons q reqs)
  obtain r1 s1 where q: "up_serve f bk q s = (r1, s1)" by fastforce
  note sound = up_serve_sound [OF q]
  let ?e = "(q, r1, drop (length (us_log s)) (us_log s1))"
  show ?case
  proof (cases k)
    case 0
    with Cons.prems q have "tr ! 0 = ?e" by (auto simp: Let_def split: if_splits prod.splits)
    with Cons.prems(3) 0 sound(2) show ?thesis by (auto simp: phase_def grew_def)
  next
    case (Suc j)
    with Cons.prems q obtain tr2 where tr2: "r1 \<noteq> UHang" "up_trace f bk reqs s1 = (tr2, s')" "tr = ?e # tr2"
      by (auto simp: Let_def split: if_splits prod.splits)
    have "phase (take k tr) (us_state s) = phase (take j tr2) (us_state s1)"
      using sound(1) tr2(3) Suc by (simp add: phase_def)
    then show ?thesis using Cons.IH [OF tr2(2), of j] Cons.prems Suc tr2(3) by simp
  qed
qed simp

text \<open>
  C29: The updater touches the flash only as its protocol allows, for every flash controller and
  every sequence of requests, with the server restarted after a panic: a request writes to flash
  only if it is a write request between an accepted preparation and the following finish or abort
  (as a client can tell from requests and replies alone), and every word it writes is an aligned
  word of the second bank; the bank is erased only by a preparation while no update is in progress
  or finished.
\<close>

theorem update_flash_discipline:
  assumes "up_trace f bk reqs (update_main f d log) = (tr, s')" "k < length tr" "tr ! k = (req, r, cmds)"
  shows "(\<forall>a w. StoreWord a w \<in> set cmds \<longrightarrow> phase (take k tr) NoUpdate = InProgress \<and> (\<exists>n b. req = ReqWrite n b)
        \<and> bank_base bk \<le> a \<and> a + 4 \<le> bank_end bk \<and> 4 dvd (a - bank_base bk))
    \<and> (StartErase \<in> set cmds \<longrightarrow> phase (take k tr) NoUpdate = NoUpdate \<and> req = ReqPrep)"
proof -
  have "list_all (permitted bk (phase (take k tr) NoUpdate) req) cmds"
    using up_trace_sound [OF assms] by (simp add: update_main_def)
  then have p: "permitted bk (phase (take k tr) NoUpdate) req c" if "c \<in> set cmds" for c using that by (simp add: list_all_iff)
  show ?thesis
    using p by (fastforce simp: permitted_def split: up_request.splits dest: p)
qed

subsection \<open>Installing an image\<close>

text \<open>What the writes in a log leave in the bank: the words stored since the last erasure.\<close>

fun apply_flash :: "flash_cmd \<Rightarrow> (nat \<rightharpoonup> u32) \<Rightarrow> nat \<rightharpoonup> u32" where
  "apply_flash (StoreWord a w) m = m(a \<mapsto> w)"
| "apply_flash StartErase m = Map.empty"
| "apply_flash _ m = m"

definition bank_image :: "flash_cmd list \<Rightarrow> nat \<rightharpoonup> u32" where
  "bank_image log = fold apply_flash log Map.empty"

definition overlay :: "nat \<Rightarrow> u32 list \<Rightarrow> (nat \<rightharpoonup> u32) \<Rightarrow> nat \<rightharpoonup> u32" where
  "overlay start ws m a = (if start \<le> a \<and> a < start + 4 * length ws \<and> 4 dvd (a - start) then Some (ws ! ((a - start) div 4)) else m a)"

lemma overlay_Nil [simp]: "overlay start [] m = m"
  by (rule ext) (auto simp: overlay_def)

lemma overlay_append: "overlay (start + 4 * length xs) ys (overlay start xs m) = overlay start (xs @ ys) m"
proof
  fix a
  show "overlay (start + 4 * length xs) ys (overlay start xs m) a = overlay start (xs @ ys) m a"
  proof (cases "start + 4 * length xs \<le> a")
    case True
    then obtain q where q: "a = start + 4 * length xs + q" using le_Suc_ex by blast
    have "4 dvd (4 * length xs + q) \<longleftrightarrow> 4 dvd q" by (simp add: dvd_add_right_iff)
    moreover have "(4 * length xs + q) div 4 = length xs + q div 4" by simp
    ultimately show ?thesis by (simp add: overlay_def q nth_append)
  qed (auto simp: overlay_def nth_append)
qed

lemma overlay_single: "overlay start [w] m = m(start \<mapsto> w)"
proof
  fix a show "overlay start [w] m a = (m(start \<mapsto> w)) a"
    by (cases "a = start") (auto simp: overlay_def dest: dvd_imp_le)
qed

lemma bank_image_append: "bank_image (log @ cs) = fold apply_flash cs (bank_image log)"
  by (simp add: bank_image_def)

lemma apply_harmless: "list_all harmless cs \<Longrightarrow> fold apply_flash cs m = m"
proof (induction cs arbitrary: m)
  case (Cons c cs) then show ?case by (cases c) auto
qed simp

lemma grew_harmless_image: "grew harmless s s' \<Longrightarrow> bank_image (us_log s') = bank_image (us_log s)"
  by (auto simp: grew_iff bank_image_append apply_harmless)

lemma stores_overlay:
  "fold apply_flash (map (\<lambda>(k, w). StoreWord (a + 4 * k) w) (zip [0..<length ws] ws)) m = overlay a ws m"
proof (induction ws rule: rev_induct)
  case (snoc w ws)
  then show ?case using overlay_append [of a ws "[w]" m] by (simp add: overlay_single)
qed simp

lemma length_le_words [simp]: "length (le_words bs) = length bs div 4"
  by (induction bs rule: le_words.induct) auto

lemma le_words_append: "length xs mod 4 = 0 \<Longrightarrow> le_words (xs @ ys) = le_words xs @ le_words ys"
proof (induction xs rule: le_words.induct)
  case (1 a b c d bs)
  have "length bs mod 4 = 0" using "1.prems" by simp
  with "1.IH" show ?case by simp
qed auto

lemma concat_slices:
  "length ws = m * n \<Longrightarrow> concat (map (\<lambda>i. take m (drop (m * i) ws)) [0..<n]) = ws"
proof (induction n arbitrary: ws)
  case (Suc n)
  have "map (\<lambda>i. take m (drop (m * i) ws)) [0..<n] = map (\<lambda>i. take m (drop (m * i) (take (m * n) ws))) [0..<n]"
  proof (intro map_cong refl)
    fix i assume "i \<in> set [0..<n]"
    then have "m * Suc i \<le> m * n" by (intro mult_le_mono2) auto
    then show "take m (drop (m * i) ws) = take m (drop (m * i) (take (m * n) ws))" by (simp add: drop_take min_def)
  qed
  moreover have "concat (map (\<lambda>i. take m (drop (m * i) (take (m * n) ws))) [0..<n]) = take (m * n) ws"
    using Suc.IH [of "take (m * n) ws"] Suc.prems by simp
  ultimately have "concat (map (\<lambda>i. take m (drop (m * i) ws)) [0..<n]) = take (m * n) ws" by (simp only:)
  then show ?case using Suc.prems by simp
qed simp

definition padded :: "u8 list \<Rightarrow> u8 list" where
  "padded data = data @ replicate (BLOCK_SIZE_BYTES - length data) 0"

lemma flash_page_words:
  assumes "length data \<le> BLOCK_SIZE_BYTES"
  shows "concat (flash_page data) = le_words (padded data)" "length (flash_page data) = 32" "\<And>ws. ws \<in> set (flash_page data) \<Longrightarrow> length ws = 8"
  using assms concat_slices [of "le_words (padded data)" 8 32]
  by (auto simp: flash_page_def padded_def Let_def flash_sizes)

text \<open>A controller that completes every write and every erasure without an error.\<close>

fun erases :: "'d flash_dev \<Rightarrow> nat \<Rightarrow> 'd \<Rightarrow> bool" where
  "erases f 0 d = False"
| "erases f (Suc n) d =
     (case dev_note f d of
        None \<Rightarrow> False
      | Some d' \<Rightarrow> if dev_eop f d' then status_error (dev_sr f d') = None else erases f n (dev_cmd f IrqEnable d'))"

definition sound_flash :: "'d flash_dev \<Rightarrow> bool" where
  "sound_flash f \<longleftrightarrow> (\<forall>d. \<exists>d'. dev_qw_done f d = Some d' \<and> status_error (dev_sr f d') = None) \<and> (\<forall>d. \<exists>n. erases f n d)"

definition bank_ok :: "bank_bounds \<Rightarrow> bool" where
  "bank_ok bk \<longleftrightarrow> bank_base bk \<le> bank_end bk \<and> bank_end bk < 2 ^ 32"

text \<open>A flash word that fits in the bank.\<close>

lemma write_word_ok:
  assumes f: "sound_flash f" and bk: "bank_ok bk" and fit: "FLASH_WORD_BYTES * n + FLASH_WORD_BYTES \<le> bank_end bk - bank_base bk"
    and len: "length ws = FLASH_WORD_WORDS"
  obtains s' where "write_word f bk n ws s = (UDone (), s')" "us_state s' = us_state s" "us_pending s' = us_pending s"
    "bank_image (us_log s') = overlay (bank_base bk + FLASH_WORD_BYTES * n) ws (bank_image (us_log s))"
proof -
  let ?start = "bank_base bk + n * FLASH_WORD_BYTES"
  let ?s = "store_words f ?start ws (issue f CrProgram s)"
  have lim: "\<not> (bank_end bk - bank_base bk) div FLASH_WORD_BYTES < n"
    using fit by (simp add: flash_sizes div_less_iff_less_mult not_less mult.commute)
  obtain d where d: "dev_qw_done f (us_dev ?s) = Some d" "status_error (dev_sr f d) = None"
    using f by (auto simp: sound_flash_def)
  have "?start + FLASH_WORD_BYTES \<le> bank_end bk" using fit bk unfolding bank_ok_def by (simp add: mult.commute) linarith
  then have "write_word f bk n ws s = poll_flash_done f ?s"
    using bk lim by (simp add: write_word_def bank_ok_def Let_def)
  also have "\<dots> = (UDone (), ?s\<lparr>us_dev := d\<rparr>)" using d by (simp add: poll_flash_done_def bank2_status_def)
  finally have w: "write_word f bk n ws s = (UDone (), ?s\<lparr>us_dev := d\<rparr>)" .
  have "bank_image (us_log (?s\<lparr>us_dev := d\<rparr>)) = overlay ?start ws (bank_image (us_log s))"
    using stores_overlay [of ?start ws] len by (simp add: store_words_same bank_image_append)
  then show ?thesis using that [OF w] by (simp add: store_words_same mult.commute)
qed

lemma write_page_ok:
  assumes "sound_flash f" "bank_ok bk" "\<And>ws. ws \<in> set fws \<Longrightarrow> length ws = FLASH_WORD_WORDS"
    and "FLASH_WORD_BYTES * (n * FLASH_WORDS_PER_BLOCK + i + length fws) \<le> bank_end bk - bank_base bk"
  shows "\<exists>s'. write_page f bk n i fws s = (UDone (), s') \<and> us_state s' = us_state s \<and> us_pending s' = us_pending s
    \<and> bank_image (us_log s') = overlay (bank_base bk + FLASH_WORD_BYTES * (n * FLASH_WORDS_PER_BLOCK + i)) (concat fws) (bank_image (us_log s))"
  using assms(3,4)
proof (induction fws arbitrary: i s)
  case (Cons fw fws)
  let ?n = "n * FLASH_WORDS_PER_BLOCK + i"
  have fit: "FLASH_WORD_BYTES * ?n + FLASH_WORD_BYTES \<le> bank_end bk - bank_base bk"
    using Cons.prems(2) by (simp add: flash_sizes)
  have small: "\<not> 2 ^ 32 \<le> ?n" using fit assms(2) unfolding flash_sizes bank_ok_def by simp linarith
  obtain s1 where w: "write_word f bk ?n fw s = (UDone (), s1)" "us_state s1 = us_state s" "us_pending s1 = us_pending s"
      "bank_image (us_log s1) = overlay (bank_base bk + FLASH_WORD_BYTES * ?n) fw (bank_image (us_log s))"
    using write_word_ok [OF assms(1,2) fit, of fw s] Cons.prems(1) by auto
  have "\<exists>s'. write_page f bk n (Suc i) fws s1 = (UDone (), s') \<and> us_state s' = us_state s1 \<and> us_pending s' = us_pending s1
      \<and> bank_image (us_log s') = overlay (bank_base bk + FLASH_WORD_BYTES * (n * FLASH_WORDS_PER_BLOCK + Suc i)) (concat fws) (bank_image (us_log s1))"
    using Cons.prems by (intro Cons.IH) auto
  then obtain s' where s': "write_page f bk n (Suc i) fws s1 = (UDone (), s')" "us_state s' = us_state s1" "us_pending s' = us_pending s1"
      "bank_image (us_log s') = overlay (bank_base bk + FLASH_WORD_BYTES * (n * FLASH_WORDS_PER_BLOCK + Suc i)) (concat fws) (bank_image (us_log s1))" by blast
  have "length fw = 8" using Cons.prems(1) by (simp add: flash_sizes)
  then have "bank_image (us_log s') = overlay (bank_base bk + FLASH_WORD_BYTES * ?n) (fw @ concat fws) (bank_image (us_log s))"
    using s'(4) w(4) overlay_append [of "bank_base bk + FLASH_WORD_BYTES * ?n" fw "concat fws" "bank_image (us_log s)"]
    by (simp add: flash_sizes algebra_simps)
  then show ?case using w s' small by auto
qed simp

lemma write_block_ok:
  assumes "sound_flash f" "bank_ok bk" "us_state s = InProgress" "length data \<le> BLOCK_SIZE_BYTES"
    and "BLOCK_SIZE_BYTES * Suc n \<le> bank_end bk - bank_base bk"
  shows "\<exists>s'. up_serve f bk (ReqWrite n (Some data)) s = (UDone (), s') \<and> us_state s' = InProgress
    \<and> bank_image (us_log s') = overlay (bank_base bk + BLOCK_SIZE_BYTES * n) (le_words (padded data)) (bank_image (us_log s))"
proof -
  have "\<exists>s'. write_page f bk n 0 (flash_page data) s = (UDone (), s') \<and> us_state s' = us_state s \<and> us_pending s' = us_pending s
    \<and> bank_image (us_log s') = overlay (bank_base bk + FLASH_WORD_BYTES * (n * FLASH_WORDS_PER_BLOCK + 0)) (concat (flash_page data)) (bank_image (us_log s))"
    using flash_page_words [OF assms(4)] assms(5) by (intro write_page_ok assms(1,2)) (auto simp: flash_sizes)
  then show ?thesis using assms(3) flash_page_words(1) [OF assms(4)]
    by (auto simp: up_serve_def write_one_block_def flash_sizes algebra_simps)
qed

text \<open>An image as a client sends it: blocks in order, the last one perhaps short.\<close>

function blocks_of :: "u8 list \<Rightarrow> u8 list list" where
  "blocks_of bs = (if bs = [] then [] else take BLOCK_SIZE_BYTES bs # blocks_of (drop BLOCK_SIZE_BYTES bs))"
  by auto
termination by (relation "measure length") (auto simp: flash_sizes)

declare blocks_of.simps [simp del]

definition write_requests :: "nat \<Rightarrow> u8 list list \<Rightarrow> up_request list" where
  "write_requests n bss = map (\<lambda>(i, b). ReqWrite i (Some b)) (enumerate n bss)"

lemma write_requests_simps [simp]:
  "write_requests n [] = []" "write_requests n (b # bss) = ReqWrite n (Some b) # write_requests (Suc n) bss"
  by (simp_all add: write_requests_def)

definition all_done :: "up_entry list \<Rightarrow> bool" where
  "all_done tr \<longleftrightarrow> (\<forall>(q, r, cs) \<in> set tr. r = UDone ())"

lemma up_trace_cons_done:
  "up_serve f bk q s = (UDone (), s1) \<Longrightarrow>
   up_trace f bk (q # qs) s = (let (tr, s2) = up_trace f bk qs s1 in ((q, UDone (), drop (length (us_log s)) (us_log s1)) # tr, s2))"
  by (simp add: Let_def)

lemma write_blocks_ok:
  assumes f: "sound_flash f" and bk: "bank_ok bk"
    and "us_state s = InProgress" "BLOCK_SIZE_BYTES * (n + length bss) \<le> bank_end bk - bank_base bk" "\<And>b. b \<in> set bss \<Longrightarrow> length b \<le> BLOCK_SIZE_BYTES"
  shows "\<exists>tr s'. up_trace f bk (write_requests n bss @ [ReqFinish]) s = (tr, s') \<and> all_done tr \<and> us_state s' = UpFinished
    \<and> bank_image (us_log s') = overlay (bank_base bk + BLOCK_SIZE_BYTES * n) (le_words (concat (map padded bss))) (bank_image (us_log s))"
  using assms(3-)
proof (induction bss arbitrary: n s)
  case Nil
  then show ?case by (simp add: up_serve_def finish_image_update_def all_done_def)
next
  case (Cons b bss)
  have "BLOCK_SIZE_BYTES * Suc n \<le> bank_end bk - bank_base bk" using Cons.prems(2) by (simp add: algebra_simps)
  from write_block_ok [OF f bk Cons.prems(1) _ this, of b] Cons.prems(3)
  obtain s1 where s1: "up_serve f bk (ReqWrite n (Some b)) s = (UDone (), s1)" "us_state s1 = InProgress"
      "bank_image (us_log s1) = overlay (bank_base bk + BLOCK_SIZE_BYTES * n) (le_words (padded b)) (bank_image (us_log s))" by auto
  have "\<exists>tr s'. up_trace f bk (write_requests (Suc n) bss @ [ReqFinish]) s1 = (tr, s') \<and> all_done tr \<and> us_state s' = UpFinished
    \<and> bank_image (us_log s') = overlay (bank_base bk + BLOCK_SIZE_BYTES * Suc n) (le_words (concat (map padded bss))) (bank_image (us_log s1))"
    using Cons.prems s1(2) by (intro Cons.IH) (auto simp: algebra_simps)
  then obtain tr s' where r: "up_trace f bk (write_requests (Suc n) bss @ [ReqFinish]) s1 = (tr, s')" "all_done tr" "us_state s' = UpFinished"
      "bank_image (us_log s') = overlay (bank_base bk + BLOCK_SIZE_BYTES * Suc n) (le_words (concat (map padded bss))) (bank_image (us_log s1))" by blast
  have len: "length (padded b) = 1024" using Cons.prems(3) [of b] by (simp add: padded_def flash_sizes)
  have "overlay (bank_base bk + BLOCK_SIZE_BYTES * Suc n) (le_words (concat (map padded bss))) (bank_image (us_log s1))
      = overlay (bank_base bk + BLOCK_SIZE_BYTES * n) (le_words (concat (map padded (b # bss)))) (bank_image (us_log s))"
    using overlay_append [of "bank_base bk + BLOCK_SIZE_BYTES * n" "le_words (padded b)" "le_words (concat (map padded bss))" "bank_image (us_log s)"] len
    by (simp add: s1(3) le_words_append flash_sizes algebra_simps)
  with r up_trace_cons_done [OF s1(1)] show ?case by (auto simp: all_done_def)
qed

lemma erase_ok:
  assumes "erases f n (us_dev s)"
  shows "\<exists>s'. wait_eop f s = Some s' \<and> status_error (dev_sr f (us_dev s')) = None"
  using assms
proof (induction n arbitrary: s)
  case (Suc n)
  then obtain d where d: "dev_note f (us_dev s) = Some d" by (cases "dev_note f (us_dev s)") auto
  show ?case
  proof (cases "dev_eop f d")
    case True then show ?thesis using d Suc.prems by (simp add: wait_eop.simps [of f s])
  next
    case False
    have "us_dev (issue f IrqEnable (s\<lparr>us_dev := d\<rparr>)) = dev_cmd f IrqEnable d" by (simp add: issue_def)
    then show ?thesis using Suc.IH [of "issue f IrqEnable (s\<lparr>us_dev := d\<rparr>)"] Suc.prems d False
      by (simp add: wait_eop.simps [of f s])
  qed
qed simp

lemma prep_ok:
  assumes f: "sound_flash f" and "us_state s = NoUpdate"
  shows "\<exists>s'. up_serve f bk ReqPrep s = (UDone (), s') \<and> us_state s' = InProgress \<and> bank_image (us_log s') = Map.empty"
proof -
  let ?s = "issue f StartErase (issue f EraseIrqs (issue f IrqEnable (unlock f s)))"
  obtain n where "erases f n (us_dev ?s)" using f by (auto simp: sound_flash_def)
  from erase_ok [OF this] obtain s' where s': "wait_eop f ?s = Some s'" "status_error (dev_sr f (us_dev s')) = None" by blast
  have "bank_image (us_log s') = bank_image (us_log ?s)"
    using wait_eop_same [OF s'(1)] grew_harmless_image by blast
  then have "bank_image (us_log s') = Map.empty" by (simp add: bank_image_append)
  then show ?thesis
    using s' assms(2) by (auto simp: up_serve_def prep_image_update_def bank_erase_def bank2_status_def Let_def)
qed

lemma blocks_of_padded:
  "concat (map padded (blocks_of bs)) = bs @ replicate (BLOCK_SIZE_BYTES * length (blocks_of bs) - length bs) 0
    \<and> length bs \<le> BLOCK_SIZE_BYTES * length (blocks_of bs)
    \<and> (\<forall>b \<in> set (blocks_of bs). length b \<le> BLOCK_SIZE_BYTES)"
proof (induction bs rule: blocks_of.induct)
  case (1 bs)
  show ?case
  proof (cases "length bs \<le> BLOCK_SIZE_BYTES")
    case True then show ?thesis by (cases "bs = []") (simp_all add: blocks_of.simps padded_def)
  next
    case False
    then have ne: "bs \<noteq> []" by auto
    let ?r = "drop BLOCK_SIZE_BYTES bs"
    have b: "blocks_of bs = take BLOCK_SIZE_BYTES bs # blocks_of ?r" using ne by (subst blocks_of.simps) simp
    have p: "padded (take BLOCK_SIZE_BYTES bs) = take BLOCK_SIZE_BYTES bs" using False by (simp add: padded_def)
    have IH: "concat (map padded (blocks_of ?r)) = ?r @ replicate (BLOCK_SIZE_BYTES * length (blocks_of ?r) - length ?r) 0"
      "length ?r \<le> BLOCK_SIZE_BYTES * length (blocks_of ?r)" "\<forall>b \<in> set (blocks_of ?r). length b \<le> BLOCK_SIZE_BYTES"
      using "1.IH" [OF ne] by blast+
    have "BLOCK_SIZE_BYTES * length (blocks_of ?r) - length ?r = BLOCK_SIZE_BYTES * length (blocks_of bs) - length bs"
      using False IH(2) by (simp add: b)
    then show ?thesis using IH p b False by simp
  qed
qed

text \<open>Once finished, an update is out of reach of every request.\<close>

lemma finished_step:
  assumes "up_serve f bk req s = (r, s')" "us_state s = UpFinished"
  shows "us_state s' = UpFinished \<and> grew harmless s s'"
proof -
  obtain s1 where s1: "up_step f bk req s = (r, s1)" "s' = (if r = UPanic then update_main f (us_dev s1) (us_log s1) else s1)"
    using assms(1) by (auto simp: up_serve_def split: prod.splits)
  then show ?thesis
    using assms(2) swap_same [of f s r s1]
    by (cases req) (auto simp: set_pending_boot_slot_def prep_image_update_def abort_update_def write_one_block_def finish_image_update_def split: if_splits)
qed

lemma finished_frozen:
  "up_trace f bk reqs s = (tr, s') \<Longrightarrow> us_state s = UpFinished \<Longrightarrow> us_state s' = UpFinished \<and> grew harmless s s'"
proof (induction reqs arbitrary: s tr)
  case (Cons q reqs)
  obtain r1 s1 where q: "up_serve f bk q s = (r1, s1)" by fastforce
  from finished_step [OF q Cons.prems(2)] have s1: "us_state s1 = UpFinished" "grew harmless s s1" by simp_all
  show ?case
  proof (cases "r1 = UHang")
    case True then show ?thesis using Cons.prems q s1 by (auto simp: Let_def)
  next
    case False
    with Cons.prems q obtain tr2 where "up_trace f bk reqs s1 = (tr2, s')" by (auto simp: Let_def split: prod.splits)
    from Cons.IH [OF this s1(1)] show ?thesis using s1(2) by (auto intro: grew_trans)
  qed
qed simp


text \<open>A controller as the reference manual describes it, without errors: pending and programmed swap bit.\<close>

definition ideal_flash :: "(bool \<times> bool) flash_dev" where
  "ideal_flash = \<lparr>dev_cmd = (\<lambda>c (p, q). case c of OptSwap b \<Rightarrow> (b, q) | OptStart \<Rightarrow> (p, p) | _ \<Rightarrow> (p, q)),
     dev_lock = (\<lambda>_. True), dev_swap_cur = snd, dev_swap_boot = (\<lambda>_. False),
     dev_sr = (\<lambda>_. \<lparr>dbeccerr = False, sneccerr1 = False, rdserr = False, rdperr = False, operr = False, incerr = False,
       strberr = False, pgserr = False, wrperr = False\<rparr>),
     dev_eop = (\<lambda>_. True), dev_qw_done = Some, dev_opt_done = Some, dev_note = Some\<rparr>"

definition bank2 :: bank_bounds where
  "bank2 = \<lparr>bank_base = 0x08100000, bank_end = 0x08200000\<rparr>"

lemma ideal_sound: "sound_flash ideal_flash" "bank_ok bank2"
proof -
  have "erases ideal_flash (Suc 0) d" for d by (simp add: ideal_flash_def status_error_def)
  moreover have "\<exists>d'. dev_qw_done ideal_flash d = Some d' \<and> status_error (dev_sr ideal_flash d') = None" for d
    by (simp add: ideal_flash_def status_error_def)
  ultimately show "sound_flash ideal_flash" unfolding sound_flash_def by blast
  show "bank_ok bank2" by (simp add: bank_ok_def bank2_def)
qed


theorem update_flash_discipline_witness:
  "\<exists>tr s' cmds. up_trace ideal_flash bank2 [ReqPrep, ReqWrite 0 (Some [7])] (update_main ideal_flash (False, False) []) = (tr, s')
    \<and> tr ! 1 = (ReqWrite 0 (Some [7]), UDone (), cmds)
    \<and> (\<forall>a w. StoreWord a w \<in> set cmds \<longrightarrow> 0x08100000 \<le> a \<and> a + 4 \<le> 0x08200000)"
proof -
  let ?s = "update_main ideal_flash (False, False) []"
  have "us_state ?s = NoUpdate" by (simp add: update_main_def)
  from prep_ok [OF ideal_sound(1) this] obtain s1 where s1: "up_serve ideal_flash bank2 ReqPrep ?s = (UDone (), s1)" "us_state s1 = InProgress" by blast
  have "BLOCK_SIZE_BYTES * Suc 0 \<le> bank_end bank2 - bank_base bank2" by (simp add: flash_sizes bank2_def)
  from write_block_ok [OF ideal_sound s1(2) _ this, of "[7]"]
  obtain s2 where s2: "up_serve ideal_flash bank2 (ReqWrite 0 (Some [7])) s1 = (UDone (), s2)" by (auto simp: flash_sizes)
  obtain tr where tr: "up_trace ideal_flash bank2 [ReqPrep, ReqWrite 0 (Some [7])] ?s = (tr, s2)"
      "length tr = 2" "tr ! 1 = (ReqWrite 0 (Some [7]), UDone (), drop (length (us_log s1)) (us_log s2))"
    using s1(1) s2 by (simp add: Let_def)
  show ?thesis using update_flash_discipline [OF tr(1) _ tr(3)] tr by (auto simp: bank2_def)
qed

subsection \<open>The slot to boot from\<close>

text \<open>
  What the code relies on: programming the option bytes completes and takes effect on the current
  value, and nothing else changes that value or the one in force since the last boot.
\<close>

definition swaps :: "'d flash_dev \<Rightarrow> bool" where
  "swaps f \<longleftrightarrow>
     (\<forall>b d. \<exists>d'. dev_opt_done f (dev_cmd f OptStart (dev_cmd f (OptSwap b) d)) = Some d'
        \<and> dev_swap_cur f d' = b \<and> dev_swap_boot f d' = dev_swap_boot f d)
   \<and> (\<forall>c d. (\<forall>b. c \<noteq> OptSwap b) \<and> c \<noteq> OptStart \<longrightarrow> dev_swap_cur f (dev_cmd f c d) = dev_swap_cur f d \<and> dev_swap_boot f (dev_cmd f c d) = dev_swap_boot f d)
   \<and> (\<forall>d d'. dev_qw_done f d = Some d' \<or> dev_note f d = Some d' \<longrightarrow> dev_swap_cur f d' = dev_swap_cur f d \<and> dev_swap_boot f d' = dev_swap_boot f d)"

text \<open>The two swap bits and the recorded slot.\<close>

definition boot_view :: "'d flash_dev \<Rightarrow> 'd update_server \<Rightarrow> bool \<times> bool \<times> SlotId" where
  "boot_view f s = (dev_swap_cur f (us_dev s), dev_swap_boot f (us_dev s), us_pending s)"

lemma boot_view_issue: "swaps f \<Longrightarrow> (\<forall>b. c \<noteq> OptSwap b) \<Longrightarrow> c \<noteq> OptStart \<Longrightarrow> boot_view f (issue f c s) = boot_view f s"
  by (simp add: boot_view_def swaps_def issue_def)

lemma boot_view_dev:
  "swaps f \<Longrightarrow> dev_qw_done f (us_dev s) = Some d \<or> dev_note f (us_dev s) = Some d \<Longrightarrow> boot_view f (s\<lparr>us_dev := d\<rparr>) = boot_view f s"
  by (auto simp: boot_view_def swaps_def)

lemma boot_view_state [simp]: "boot_view f (s\<lparr>us_state := st\<rparr>) = boot_view f s"
  by (simp add: boot_view_def)

lemma boot_view_unlock: "swaps f \<Longrightarrow> boot_view f (unlock f s) = boot_view f s"
  by (simp add: unlock_def boot_view_issue)

lemma boot_view_wait:
  assumes sw: "swaps f" and run: "wait_eop f s = Some s'"
  shows "boot_view f s' = boot_view f s"
proof -
  have "swaps f \<longrightarrow> boot_view f s' = boot_view f s"
  proof (rule wait_eop.raw_induct [OF _ run])
    fix w :: "'a flash_dev \<Rightarrow> 'a update_server \<Rightarrow> 'a update_server option" and f s s'
    assume ih: "\<And>f s s'. w f s = Some s' \<Longrightarrow> swaps f \<longrightarrow> boot_view f s' = boot_view f s"
      and step: "(case dev_note f (us_dev s) of None \<Rightarrow> None
        | Some d \<Rightarrow> if dev_eop f d then Some (s\<lparr>us_dev := d\<rparr>) else w f (issue f IrqEnable (s\<lparr>us_dev := d\<rparr>))) = Some s'"
    then obtain d where d: "dev_note f (us_dev s) = Some d" by (cases "dev_note f (us_dev s)") auto
    show "swaps f \<longrightarrow> boot_view f s' = boot_view f s"
      using step d ih [of f "issue f IrqEnable (s\<lparr>us_dev := d\<rparr>)" s']
      by (auto simp: boot_view_issue boot_view_dev split: if_splits)
  qed
  with sw show ?thesis by blast
qed

lemma boot_view_write_word:
  assumes "swaps f" "write_word f bk n ws s = (r, s')"
  shows "boot_view f s' = boot_view f s"
proof -
  have stores: "boot_view f (fold (\<lambda>(k, w). issue f (StoreWord (a + 4 * k) w)) kws s0) = boot_view f s0" for a kws s0
    by (induction kws arbitrary: s0) (auto simp: boot_view_issue assms(1))
  show ?thesis
    using assms by (auto simp: write_word_def poll_flash_done_def store_words_def Let_def stores boot_view_dev boot_view_issue split: if_splits option.splits)
qed

lemma boot_view_write_page: "swaps f \<Longrightarrow> write_page f bk n i fws s = (r, s') \<Longrightarrow> boot_view f s' = boot_view f s"
proof (induction f bk n i fws s rule: write_page.induct)
  case (2 f bk n i fw fws s)
  obtain r1 s1 where w: "write_word f bk (n * FLASH_WORDS_PER_BLOCK + i) fw s = (r1, s1)" by fastforce
  show ?case
  proof (cases "2 ^ 32 \<le> n * FLASH_WORDS_PER_BLOCK + i")
    case False
    show ?thesis
    proof (cases r1)
      case (UDone u)
      with "2.prems" w False have "write_page f bk n (Suc i) fws s1 = (r, s')" by simp
      from "2.IH" [OF False w [symmetric] UDone "2.prems"(1) this] show ?thesis using boot_view_write_word [OF "2.prems"(1) w] by simp
    qed (use "2.prems" w False boot_view_write_word [OF "2.prems"(1) w] in auto)
  qed (use "2.prems" in auto)
qed auto

text \<open>A swap turns the slot and the bit over.\<close>

lemma swap_banks_ok:
  assumes "swaps f"
  shows "\<exists>s'. swap_banks f s = (UDone (), s')
    \<and> boot_view f s' = (\<not> dev_swap_cur f (us_dev s), dev_swap_boot f (us_dev s), other_slot (us_pending s))"
proof -
  let ?u = "unlock f s"
  have u: "dev_swap_cur f (us_dev ?u) = dev_swap_cur f (us_dev s)" "dev_swap_boot f (us_dev ?u) = dev_swap_boot f (us_dev s)"
      "us_pending ?u = us_pending s"
    using boot_view_unlock [OF assms, of s] by (simp_all add: boot_view_def)
  obtain d where d: "dev_opt_done f (dev_cmd f OptStart (dev_cmd f (OptSwap (\<not> dev_swap_cur f (us_dev ?u))) (us_dev ?u))) = Some d"
      "dev_swap_cur f d = (\<not> dev_swap_cur f (us_dev ?u))" "dev_swap_boot f d = dev_swap_boot f (us_dev ?u)"
    using assms [unfolded swaps_def, THEN conjunct1, rule_format, of "\<not> dev_swap_cur f (us_dev ?u)" "us_dev ?u"] by blast
  then show ?thesis using u by (simp add: swap_banks_def boot_view_def issue_def Let_def)
qed

definition view_ok :: "bool \<times> bool \<times> SlotId \<Rightarrow> bool" where
  "view_ok v = (case v of (c, b, p) \<Rightarrow> p = (if c = b then SlotActive else SlotInactive))"

lemma view_ok_main: "view_ok (boot_view f (update_main f d log))"
  by (simp add: view_ok_def boot_view_def update_main_def)

lemma view_ok_swap: "view_ok (c, b, p) \<Longrightarrow> view_ok (\<not> c, b, other_slot p)"
  by (auto simp: view_ok_def other_slot_def split: if_splits)

lemma boot_view_serve:
  assumes sw: "swaps f" and step: "up_serve f bk req s = (r, s')" and ok: "view_ok (boot_view f s)"
  shows "view_ok (boot_view f s')"
proof -
  obtain s1 where s1: "up_step f bk req s = (r, s1)" "s' = (if r = UPanic then update_main f (us_dev s1) (us_log s1) else s1)"
    using step by (auto simp: up_serve_def split: prod.splits)
  have "view_ok (boot_view f s1)"
  proof (cases req)
    case (ReqSetPending slot)
    obtain s2 where s2: "swap_banks f s = (UDone (), s2)"
      "boot_view f s2 = (\<not> dev_swap_cur f (us_dev s), dev_swap_boot f (us_dev s), other_slot (us_pending s))" using swap_banks_ok [OF sw] by blast
    have "view_ok (boot_view f s2)" using view_ok_swap ok s2(2) by (simp add: boot_view_def)
    then show ?thesis using s1(1) ReqSetPending s2(1) ok by (auto simp: set_pending_boot_slot_def split: if_splits)
  next
    case ReqPrep
    have "boot_view f s2 = boot_view f s" if "bank_erase f (unlock f s) = (r2, s2)" for r2 s2
      using that by (auto simp: bank_erase_def Let_def boot_view_wait [OF sw] boot_view_issue [OF sw] boot_view_unlock [OF sw] split: option.splits)
    then show ?thesis using s1(1) ReqPrep ok by (auto simp: prep_image_update_def split: UpdateState.splits prod.splits up_result.splits)
  next
    case (ReqWrite n b)
    then show ?thesis using s1(1) ok
      by (auto simp: write_one_block_def split: UpdateState.splits option.splits dest!: boot_view_write_page [OF sw])
  qed (use s1(1) ok in \<open>auto simp: abort_update_def finish_image_update_def split: UpdateState.splits\<close>)
  then show ?thesis using s1(2) view_ok_main by auto
qed

lemma boot_view_trace:
  "swaps f \<Longrightarrow> up_trace f bk reqs s = (tr, s') \<Longrightarrow> view_ok (boot_view f s) \<Longrightarrow> view_ok (boot_view f s')"
proof (induction reqs arbitrary: s tr)
  case (Cons q reqs)
  obtain r1 s1 where q: "up_serve f bk q s = (r1, s1)" by fastforce
  have ok: "view_ok (boot_view f s1)" using boot_view_serve [OF Cons.prems(1) q Cons.prems(3)] .
  show ?case
  proof (cases "r1 = UHang")
    case True then show ?thesis using Cons.prems q ok by (auto simp: Let_def)
  next
    case False
    with Cons.prems q obtain tr2 where "up_trace f bk reqs s1 = (tr2, s')" by (auto simp: Let_def split: prod.splits)
    from Cons.IH [OF Cons.prems(1) this ok] show ?thesis .
  qed
qed simp

text \<open>
  The slot to boot from. With a controller whose option bytes can be programmed, after any
  sequence of requests the server reports the inactive slot exactly when the programmed swap bit
  differs from the one in force, so a restarted server finds the same answer; and a request
  to boot from a slot succeeds, is what the server then reports, and leaves the swap bit
  programmed accordingly.
\<close>

theorem boot_slot_tracks_hardware:
  assumes "swaps f" "up_trace f bk reqs (update_main f d log) = (tr, s')"
  shows "(get_pending_boot_slot s' = SlotInactive \<longleftrightarrow> dev_swap_cur f (us_dev s') \<noteq> dev_swap_boot f (us_dev s'))
    \<and> get_pending_boot_slot (update_main f (us_dev s') log') = get_pending_boot_slot s'
    \<and> (\<exists>s2. set_pending_boot_slot f slot s' = (UDone (), s2) \<and> get_pending_boot_slot s2 = slot
        \<and> (dev_swap_cur f (us_dev s2) \<noteq> dev_swap_boot f (us_dev s2) \<longleftrightarrow> slot = SlotInactive))"
proof -
  have ok: "view_ok (boot_view f s')" using boot_view_trace [OF assms view_ok_main] .
  obtain s2 where s2: "swap_banks f s' = (UDone (), s2)"
    "boot_view f s2 = (\<not> dev_swap_cur f (us_dev s'), dev_swap_boot f (us_dev s'), other_slot (us_pending s'))" using swap_banks_ok [OF assms(1)] by blast
  have "view_ok (boot_view f s2)" using view_ok_swap ok s2(2) by (simp add: boot_view_def)
  with ok s2 show ?thesis
    by (cases slot; cases "us_pending s'")
      (auto simp: get_pending_boot_slot_def set_pending_boot_slot_def view_ok_def boot_view_def update_main_def other_slot_def split: if_splits)
qed

lemma ideal_swaps: "swaps ideal_flash"
  unfolding swaps_def
proof (intro conjI allI impI)
  fix c and d :: "bool \<times> bool" assume "(\<forall>b. c \<noteq> OptSwap b) \<and> c \<noteq> OptStart"
  then show "dev_swap_cur ideal_flash (dev_cmd ideal_flash c d) = dev_swap_cur ideal_flash d"
    by (cases c; cases d) (auto simp: ideal_flash_def)
qed (auto simp: ideal_flash_def)

theorem boot_slot_tracks_hardware_witness:
  "\<exists>s2. set_pending_boot_slot ideal_flash SlotInactive (update_main ideal_flash (False, False) []) = (UDone (), s2)
    \<and> dev_swap_cur ideal_flash (us_dev s2)"
proof -
  have "up_trace ideal_flash bank2 [] (update_main ideal_flash (False, False) []) = ([], update_main ideal_flash (False, False) [])" by simp
  from boot_slot_tracks_hardware [OF ideal_swaps this, of "[]" SlotInactive] show ?thesis by (auto simp: ideal_flash_def)
qed

subsection \<open>Reading the other image's description\<close>

text \<open>
  \<open>read_caboose_value\<close> finds the description at the end of the image in the second bank. The bank's
  contents are a function from addresses to bytes; the task may access no flash outside the bank,
  so a read there is a fault. The records inside the description are parsed by the external
  crate \<^verbatim>\<open>tlvc\<close>, the parameter \<open>tlvc_get\<close>.
\<close>

datatype CabooseError = MissingCaboose | TlvcReaderBeginFailed | TlvcReadExactFailed | NoSuchTag | BadChecksum | NoImageHeader
  | RawReadFailed | InvalidRead

datatype caboose_result = CabDone "u8 list" | CabError CabooseError | CabBadLease | CabWentAway | CabPanic | CabFault

definition HEADER_MAGIC :: u32 where "HEADER_MAGIC = 0x64CED6CA"
definition CABOOSE_MAGIC :: u32 where "CABOOSE_MAGIC = 0xCAB0005E"
definition HEADER_OFFSET :: nat where "HEADER_OFFSET = 0x298"
definition IMAGE_HEADER_SIZE :: nat where "IMAGE_HEADER_SIZE = 80"

definition flash_u32 :: "(nat \<Rightarrow> u8) \<Rightarrow> nat \<Rightarrow> u32" where
  "flash_u32 mem a = le_u32 (mem a) (mem (a + 1)) (mem (a + 2)) (mem (a + 3))"

definition readable :: "bank_bounds \<Rightarrow> nat \<Rightarrow> nat \<Rightarrow> bool" where
  "readable bk a n \<longleftrightarrow> bank_base bk \<le> a \<and> a + n \<le> bank_end bk"

definition flash_bytes :: "(nat \<Rightarrow> u8) \<Rightarrow> nat \<Rightarrow> nat \<Rightarrow> u8 list" where
  "flash_bytes mem a b = map mem [a..<b]"

definition read_caboose_value :: "bank_bounds \<Rightarrow> (nat \<Rightarrow> u8) \<Rightarrow> (u8 list \<Rightarrow> u8 list \<Rightarrow> CabooseError + u8 list)
    \<Rightarrow> u8 list \<Rightarrow> nat \<Rightarrow> bool \<Rightarrow> caboose_result" where
  "read_caboose_value bk mem tlvc_get name lease_len gone =
     (let image_start = bank_base bk; header = image_start + HEADER_OFFSET in
      if \<not> readable bk header IMAGE_HEADER_SIZE then CabFault
      else if flash_u32 mem header \<noteq> HEADER_MAGIC then CabError NoImageHeader
      else
        (let image_end = image_start + unat (flash_u32 mem (header + 4)) in
         if 2 ^ 32 \<le> image_end then CabPanic
         else if bank_end bk < image_end then CabError MissingCaboose
         else if image_end < 4 then CabPanic
         else if \<not> readable bk (image_end - 4) 4 then CabFault
         else
           (let caboose_size = unat (flash_u32 mem (image_end - 4));
                caboose_start = image_end - caboose_size in
            if caboose_start < image_start then CabError MissingCaboose
            else if \<not> readable bk caboose_start 4 then CabFault
            else if flash_u32 mem caboose_start \<noteq> CABOOSE_MAGIC then CabError MissingCaboose
            else
              (case tlvc_get name (flash_bytes mem (caboose_start + 4) (image_end - 4)) of
                 Inl e \<Rightarrow> CabError e
               | Inr chunk \<Rightarrow>
                   (if lease_len < length chunk then CabBadLease
                    else if gone \<and> chunk \<noteq> [] then CabWentAway
                    else CabDone chunk)))))"


text \<open>An image whose header gives the length zero.\<close>

definition empty_image :: "nat \<Rightarrow> u8" where
  "empty_image a = (if a = 0x08100298 then 0xCA else if a = 0x08100299 then 0xD6 else if a = 0x0810029A then 0xCE
     else if a = 0x0810029B then 0x64 else 0)"


end
