(* ===== verification/Drv_RotFlash.thy ===== *)
theory Drv_RotFlash
  imports Drv_Update
begin

section \<open>The flash driver of the root of trust\<close>

text \<open>
  \<^verbatim>\<open>drv/lpc55-flash\<close> and the reading functions of \<^verbatim>\<open>drv/lpc55-update-server\<close>. The controller is outside
  the program: its state is a type variable, and \<open>rot_dev\<close> has what the driver does with it, namely start
  a command with its operand registers, read the completion status and the data registers, and let time pass, busily or
  until an interrupt. Commands are also recorded in \<open>fl_log\<close>, so that theorems can
  speak of them for every controller. A function with an early return is a \<open>um\<close>: from a state to
  a result with a state.
\<close>

subsection \<open>Results and state\<close>

type_synonym ('s, 'a) um = "'s \<Rightarrow> 'a up_result \<times> 's"

definition uret :: "'a \<Rightarrow> ('s, 'a) um" where "uret a s = (UDone a, s)"
definition ufail :: "UpdateError \<Rightarrow> ('s, 'a) um" where "ufail e s = (UFail e, s)"
definition upanic :: "('s, 'a) um" where "upanic s = (UPanic, s)"
definition uwent_away :: "('s, 'a) um" where "uwent_away s = (UWentAway, s)"

definition ubind :: "('s, 'a) um \<Rightarrow> ('a \<Rightarrow> ('s, 'b) um) \<Rightarrow> ('s, 'b) um" where
  "ubind m f s =
     (case m s of
        (UDone a, s) \<Rightarrow> f a s
      | (UFail e, s) \<Rightarrow> (UFail e, s)
      | (UWentAway, s) \<Rightarrow> (UWentAway, s)
      | (UPanic, s) \<Rightarrow> (UPanic, s)
      | (UHang, s) \<Rightarrow> (UHang, s))"

text \<open>An error as a value, for the code that looks at it.\<close>

definition utry :: "('s, 'a) um \<Rightarrow> ('s, UpdateError + 'a) um" where
  "utry m s =
     (case m s of
        (UDone a, s) \<Rightarrow> (UDone (Inr a), s)
      | (UFail e, s) \<Rightarrow> (UDone (Inl e), s)
      | (UWentAway, s) \<Rightarrow> (UWentAway, s)
      | (UPanic, s) \<Rightarrow> (UPanic, s)
      | (UHang, s) \<Rightarrow> (UHang, s))"

subsection \<open>The controller and its driver\<close>

definition BYTES_PER_FLASH_WORD :: nat where "BYTES_PER_FLASH_WORD = 16"
definition BYTES_PER_FLASH_PAGE :: nat where "BYTES_PER_FLASH_PAGE = 512"
definition WORDS_PER_FLASH_PAGE :: nat where "WORDS_PER_FLASH_PAGE = BYTES_PER_FLASH_PAGE div BYTES_PER_FLASH_WORD"

lemmas rot_sizes = BYTES_PER_FLASH_WORD_def BYTES_PER_FLASH_PAGE_def WORDS_PER_FLASH_PAGE_def

datatype rot_cmd = ReadSingleWord nat | EraseRange nat nat | BlankCheck nat nat | WriteRow nat "u8 list" | Program nat

record flash_status =
  st_ecc_err :: bool
  st_err :: bool
  st_fail :: bool

record 'd rot_dev =
  rd_start :: "rot_cmd \<Rightarrow> 'd \<Rightarrow> 'd"
  rd_status :: "'d \<Rightarrow> flash_status option"
  rd_dataw :: "'d \<Rightarrow> nat \<Rightarrow> u32"
  rd_spin :: "'d \<Rightarrow> 'd"
  rd_irq :: "'d \<Rightarrow> 'd option"

record 'd rot_flash =
  fl_dev :: 'd
  fl_log :: "rot_cmd list"

definition flash_start :: "'d rot_dev \<Rightarrow> rot_cmd \<Rightarrow> ('d rot_flash, unit) um" where
  "flash_start D c f = (UDone (), f\<lparr>fl_dev := rd_start D c (fl_dev f), fl_log := fl_log f @ [c]\<rparr>)"

text \<open>Polling for the completion status, sleeping in between or not.\<close>

partial_function (option) wait_irq :: "'d rot_dev \<Rightarrow> 'd \<Rightarrow> (flash_status \<times> 'd) option" where
  "wait_irq D d =
     (case rd_status D d of
        Some st \<Rightarrow> Some (st, d)
      | None \<Rightarrow> (case rd_irq D d of None \<Rightarrow> None | Some d \<Rightarrow> wait_irq D d))"

partial_function (option) wait_spin :: "'d rot_dev \<Rightarrow> 'd \<Rightarrow> (flash_status \<times> 'd) option" where
  "wait_spin D d = (case rd_status D d of Some st \<Rightarrow> Some (st, d) | None \<Rightarrow> wait_spin D (rd_spin D d))"

definition flash_waited :: "('d \<Rightarrow> (flash_status \<times> 'd) option) \<Rightarrow> ('d rot_flash, flash_status) um" where
  "flash_waited w f = (case w (fl_dev f) of None \<Rightarrow> (UHang, f) | Some (st, d) \<Rightarrow> (UDone st, f\<lparr>fl_dev := d\<rparr>))"

datatype flash_outcome = FlashOk | FlashTimeout

definition poll_erase_or_program_result :: "flash_status \<Rightarrow> flash_outcome" where
  "poll_erase_or_program_result st = (if st_fail st then FlashTimeout else FlashOk)"

definition wait_for_erase_or_program :: "'d rot_dev \<Rightarrow> ('d rot_flash, flash_outcome) um" where
  "wait_for_erase_or_program D = ubind (flash_waited (wait_irq D)) (\<lambda>st. uret (poll_erase_or_program_result st))"

definition chunks_exact :: "nat \<Rightarrow> 'a list \<Rightarrow> 'a list list" where
  "chunks_exact n xs = map (\<lambda>i. take n (drop (n * i) xs)) [0..<length xs div n]"

fun write_rows :: "'d rot_dev \<Rightarrow> nat \<Rightarrow> u8 list list \<Rightarrow> ('d rot_flash, unit) um" where
  "write_rows D i [] = uret ()"
| "write_rows D i (row # rows) =
     ubind (flash_start D (WriteRow i row)) (\<lambda>_.
     ubind (flash_waited (wait_spin D)) (\<lambda>_.
     write_rows D (Suc i) rows))"

definition rot_write_page :: "'d rot_dev \<Rightarrow> nat \<Rightarrow> u8 list \<Rightarrow> ('d rot_flash, flash_outcome) um" where
  "rot_write_page D addr page =
     (let start_word = addr div BYTES_PER_FLASH_WORD in
      ubind (flash_start D (EraseRange start_word (start_word + (WORDS_PER_FLASH_PAGE - 1)))) (\<lambda>_.
      ubind (wait_for_erase_or_program D) (\<lambda>r.
      if r = FlashTimeout then uret r
      else
        ubind (write_rows D 0 (chunks_exact BYTES_PER_FLASH_WORD page)) (\<lambda>_.
        ubind (flash_start D (Program start_word)) (\<lambda>_.
        wait_for_erase_or_program D)))))"

text \<open>Whether every page of a range is programmed: a failed blank check means that the page is not blank.\<close>

fun blank_checks :: "'d rot_dev \<Rightarrow> nat list \<Rightarrow> ('d rot_flash, bool) um" where
  "blank_checks D [] = uret True"
| "blank_checks D (i # is) =
     (let word = i div BYTES_PER_FLASH_WORD in
      ubind (flash_start D (BlankCheck word (word + WORDS_PER_FLASH_PAGE - 1))) (\<lambda>_.
      ubind (flash_waited (wait_spin D)) (\<lambda>st.
      if st_fail st then blank_checks D is else uret False)))"

definition is_page_range_programmed :: "'d rot_dev \<Rightarrow> nat \<Rightarrow> nat \<Rightarrow> ('d rot_flash, bool) um" where
  "is_page_range_programmed D addr len =
     (if 2 ^ 32 \<le> addr + len then upanic
      else blank_checks D (map (\<lambda>k. addr + BYTES_PER_FLASH_PAGE * k) [0..<(len + BYTES_PER_FLASH_PAGE - 1) div BYTES_PER_FLASH_PAGE]))"

subsection \<open>Indirect reads\<close>

definition poll_read_result :: "flash_status \<Rightarrow> UpdateError option" where
  "poll_read_result st =
     (if st_ecc_err st then Some EccDoubleErr else if st_err st then Some FlashIllegalRead
      else if st_fail st then Some FlashReadFail else None)"

definition read_dataw :: "'d rot_dev \<Rightarrow> ('d rot_flash, u32 list) um" where
  "read_dataw D f = (UDone (map (rd_dataw D (fl_dev f)) [0..<4]), f)"

fun indirect_flash_read_words :: "'d rot_dev \<Rightarrow> nat \<Rightarrow> nat \<Rightarrow> ('d rot_flash, u32 list list) um" where
  "indirect_flash_read_words D wn 0 = uret []"
| "indirect_flash_read_words D wn (Suc n) =
     ubind (flash_start D (ReadSingleWord wn)) (\<lambda>_.
     ubind (flash_waited (wait_irq D)) (\<lambda>st.
     case poll_read_result st of
       Some e \<Rightarrow> ufail e
     | None \<Rightarrow>
         ubind (read_dataw D) (\<lambda>data.
         ubind (indirect_flash_read_words D (Suc wn) n) (\<lambda>rest.
         uret (data # rest)))))"

definition word_bytes :: "u32 \<Rightarrow> u8 list" where
  "word_bytes w = map (\<lambda>i. ucast (drop_bit (8 * i) w)) [0..<4]"

definition words_bytes :: "u32 list \<Rightarrow> u8 list" where
  "words_bytes ws = concat (map word_bytes ws)"

lemma read_offset:
  assumes "\<not> 16 < addr - addr div 16 mod 262144 * (16 :: nat)"
  shows "addr < 16 + addr div 16 mod 262144 * 16"
proof -
  define k r where "k = addr div 16 div 262144" and "r = addr div 16 mod 262144"
  have "addr div 16 = r + 262144 * k" by (simp add: k_def r_def)
  then have "addr = 16 * r + 4194304 * k + addr mod 16" using mult_div_mod_eq [of 16 addr] by simp
  then show ?thesis using assms unfolding r_def [symmetric] by (cases k) auto
qed

text \<open>
  Reads \<open>n\<close> bytes into a buffer; the result is the error, if any, and the bytes that were written
  to the buffer before it.
\<close>

function indirect_flash_read :: "'d rot_dev \<Rightarrow> nat \<Rightarrow> nat \<Rightarrow> ('d rot_flash, UpdateError option \<times> u8 list) um" where
  "indirect_flash_read D addr n =
     (if n = 0 then uret (None, [])
      else
        (let word = addr div 16 mod 2 ^ 18; offset = addr - word * 16; count = min (16 - offset) n in
         ubind (utry (indirect_flash_read_words D word 1)) (\<lambda>r.
         case r of
           Inl e \<Rightarrow> uret (Some e, [])
         | Inr ws \<Rightarrow>
             if 16 < offset then upanic
             else
               (let bytes = take count (drop offset (words_bytes (concat ws))) in
                if 2 ^ 32 \<le> addr + count then uret (Some OutOfBounds, bytes)
                else
                  ubind (indirect_flash_read D (addr + count) (n - count)) (\<lambda>(e, bs).
                  uret (e, bytes @ bs))))))"
  by auto
termination
  by (relation "measure (\<lambda>(D, addr, n). n)") (auto dest!: read_offset)

declare indirect_flash_read.simps [simp del]

end
