(* ===== verification/Drv_RotUpdate.thy ===== *)
theory Drv_RotUpdate
  imports Drv_RotFlash
begin

section \<open>The firmware updater of the root of trust\<close>

text \<open>
  \<^verbatim>\<open>drv/lpc55-update-server\<close> with the types of \<^verbatim>\<open>drv/lpc55-update-api\<close> and \<^verbatim>\<open>lib/stage0-handoff\<close>. The
  part has two slots for Hubris and two for its bootloader; a slot is written page by page with the header page
  last, and the slot to boot from is kept in a page of the part's protected flash. What the
  linker, the boot stage and the hash functions provide is the record \<open>rot_ctx\<close>.
\<close>

subsection \<open>Types\<close>

datatype RotComponent = Hubris | Stage0
datatype RotSlot = SlotA | SlotB
datatype UpdateTarget = TargetReserved | ImageA | ImageB | Bootloader
datatype SwitchDuration = Once | Forever
datatype RotPage = Cmpa | CfpaActive | CfpaScratch | CfpaInactive
datatype CfpaPage = CfpaPageActive | CfpaPageInactive

datatype RawCabooseError = RcInvalidRead | RcReadFailed | RcMissingCaboose | RcNoImageHeader

fun caboose_error_from :: "RawCabooseError \<Rightarrow> CabooseError" where
  "caboose_error_from RcInvalidRead = InvalidRead"
| "caboose_error_from RcReadFailed = RawReadFailed"
| "caboose_error_from RcMissingCaboose = MissingCaboose"
| "caboose_error_from RcNoImageHeader = NoImageHeader"

datatype ImageError = Unchecked | FirstPageErased | PartiallyProgrammed | InvalidLength | HeaderNotProgrammed | BootloaderTooSmall
  | ImgBadMagic | HeaderImageSize | UnalignedLength | UnsupportedType | ResetVectorNotThumb2 | ResetVector | Signature

datatype HandoffDataLoadError = Deserialize | BadMagic | UnexpectedVersion u32

record RotImageDetailsV2 =
  img_digest :: "u8 list"
  img_status :: "ImageError + unit"

record RotBootStateV2 =
  boot_active :: RotSlot
  boot_a :: RotImageDetailsV2
  boot_b :: RotImageDetailsV2
  boot_stage0 :: RotImageDetailsV2
  boot_stage0next :: RotImageDetailsV2

record ImageVersion =
  ver_epoch :: u32
  ver_version :: u32

record RotImageDetails =
  det_digest :: "u8 list"
  det_version :: ImageVersion

record RotBootState =
  old_active :: RotSlot
  old_a :: "RotImageDetails option"
  old_b :: "RotImageDetails option"

record RotBootInfo =
  info_active :: RotSlot
  persistent_boot_preference :: RotSlot
  pending_persistent_boot_preference :: "RotSlot option"
  transient_boot_preference :: "RotSlot option"
  slot_a_sha3_256_digest :: "u8 list option"
  slot_b_sha3_256_digest :: "u8 list option"

record RotBootInfoV2 =
  info2_active :: RotSlot
  info2_persistent :: RotSlot
  info2_pending :: "RotSlot option"
  info2_transient :: "RotSlot option"
  slot_a_fwid :: "u8 list"
  slot_b_fwid :: "u8 list"
  stage0_fwid :: "u8 list"
  stage0next_fwid :: "u8 list"
  slot_a_status :: "ImageError + unit"
  slot_b_status :: "ImageError + unit"
  stage0_status :: "ImageError + unit"
  stage0next_status :: "ImageError + unit"

datatype VersionedRotBootInfo = InfoV1 RotBootInfo | InfoV2 RotBootInfoV2

text \<open>The slots as the linker places them, each with its first byte and the byte after its last.\<close>

record rot_layout =
  lay_a :: "nat \<times> nat"
  lay_b :: "nat \<times> nat"
  lay_stage0 :: "nat \<times> nat"
  lay_stage0next :: "nat \<times> nat"
  lay_this :: nat

record 'd rot_ctx =
  rc_dev :: "'d rot_dev"
  rc_layout :: rot_layout
  rc_bootstate :: "HandoffDataLoadError + RotBootStateV2"
  rc_sha256 :: "u32 list \<Rightarrow> u32 list"
  rc_sha3 :: "u8 list \<Rightarrow> u8 list"

record 'd rot_server =
  rs_header_block :: "u8 list option"
  rs_state :: UpdateState
  rs_image :: "(RotComponent \<times> RotSlot) option"
  rs_next_block :: "nat option"
  rs_fw_cache :: "u32 list"
  rs_flash :: "'d rot_flash"

definition FW_CACHE_MAX :: nat where "FW_CACHE_MAX = 8192"
definition ROT_BLOCK_SIZE :: nat where "ROT_BLOCK_SIZE = BYTES_PER_FLASH_PAGE"
definition CMPA_FLASH_WORD :: nat where "CMPA_FLASH_WORD = 0x9E40"
definition CFPA_PING_FLASH_WORD :: nat where "CFPA_PING_FLASH_WORD = 0x9E00"
definition CFPA_PONG_FLASH_WORD :: nat where "CFPA_PONG_FLASH_WORD = 0x9E20"
definition CFPA_SCRATCH_FLASH_WORD :: nat where "CFPA_SCRATCH_FLASH_WORD = 0x9DE0"
definition CFPA_SCRATCH_FLASH_ADDR :: nat where "CFPA_SCRATCH_FLASH_ADDR = CFPA_SCRATCH_FLASH_WORD * 16"
definition BOOT_PREFERENCE_FLASH_WORD_OFFSET :: nat where "BOOT_PREFERENCE_FLASH_WORD_OFFSET = 0x10"
definition HEADER_BLOCK :: nat where "HEADER_BLOCK = 0"
definition RESET_VECTOR_OFFSET :: nat where "RESET_VECTOR_OFFSET = 4"
definition LENGTH_OFFSET :: nat where "LENGTH_OFFSET = 0x20"
definition ROT_HEADER_OFFSET :: nat where "ROT_HEADER_OFFSET = 0x130"

lemmas rot_consts = rot_sizes FW_CACHE_MAX_def ROT_BLOCK_SIZE_def CMPA_FLASH_WORD_def CFPA_PING_FLASH_WORD_def CFPA_PONG_FLASH_WORD_def
  CFPA_SCRATCH_FLASH_WORD_def CFPA_SCRATCH_FLASH_ADDR_def BOOT_PREFERENCE_FLASH_WORD_OFFSET_def HEADER_BLOCK_def RESET_VECTOR_OFFSET_def
  LENGTH_OFFSET_def ROT_HEADER_OFFSET_def

definition rot_main :: "'d rot_flash \<Rightarrow> 'd rot_server" where
  "rot_main f = \<lparr>rs_header_block = None, rs_state = NoUpdate, rs_image = None, rs_next_block = None,
     rs_fw_cache = replicate (FW_CACHE_MAX div 4) 0, rs_flash = f\<rparr>"

text \<open>The driver used by the server, and access to the server's own fields.\<close>

definition on_flash :: "('d rot_flash, 'a) um \<Rightarrow> ('d rot_server, 'a) um" where
  "on_flash m s = (let (r, f) = m (rs_flash s) in (r, s\<lparr>rs_flash := f\<rparr>))"

definition uget :: "('s \<Rightarrow> 'a) \<Rightarrow> ('s, 'a) um" where "uget f s = (UDone (f s), s)"
definition uput :: "('s \<Rightarrow> 's) \<Rightarrow> ('s, unit) um" where "uput f s = (UDone (), f s)"

definition map_flash_error :: "('s, flash_outcome) um \<Rightarrow> ('s, unit) um" where
  "map_flash_error m = ubind m (\<lambda>r. case r of FlashOk \<Rightarrow> uret () | FlashTimeout \<Rightarrow> ufail FlashError)"

subsection \<open>Images\<close>

fun image_range :: "rot_layout \<Rightarrow> RotComponent \<Rightarrow> RotSlot \<Rightarrow> (nat \<times> nat) \<times> (nat \<times> nat)" where
  "image_range L Hubris SlotA = (lay_a L, lay_a L)"
| "image_range L Hubris SlotB = (lay_b L, lay_b L)"
| "image_range L Stage0 SlotA = (lay_stage0 L, lay_stage0 L)"
| "image_range L Stage0 SlotB = (lay_stage0next L, lay_stage0 L)"

definition same_image :: "rot_layout \<Rightarrow> RotComponent \<Rightarrow> RotSlot \<Rightarrow> bool" where
  "same_image L c sl \<longleftrightarrow> fst (fst (image_range L c sl)) = lay_this L"

definition le_word_at :: "u8 list \<Rightarrow> nat \<Rightarrow> u32" where
  "le_word_at bs i = le_u32 (bs ! i) (bs ! (i + 1)) (bs ! (i + 2)) (bs ! (i + 3))"

definition validate_header_block :: "rot_layout \<Rightarrow> RotComponent \<Rightarrow> RotSlot \<Rightarrow> u8 list \<Rightarrow> UpdateError option" where
  "validate_header_block L c sl block =
     (let exec = snd (image_range L c sl);
          reset_vector = unat (le_word_at block RESET_VECTOR_OFFSET AND NOT (push_bit 28 1)) in
      if \<not> (fst exec \<le> reset_vector \<and> reset_vector < snd exec) then Some InvalidHeaderBlock
      else if c = Hubris \<and> le_word_at block ROT_HEADER_OFFSET \<noteq> HEADER_MAGIC then Some InvalidHeaderBlock
      else None)"

definition target_addr :: "rot_layout \<Rightarrow> RotComponent \<Rightarrow> RotSlot \<Rightarrow> nat \<Rightarrow> nat option" where
  "target_addr L c sl page_num =
     (let range = fst (image_range L c sl); addr = fst range + page_num * ROT_BLOCK_SIZE in
      if 2 ^ 32 \<le> addr + ROT_BLOCK_SIZE \<or> snd range < addr + ROT_BLOCK_SIZE then None else Some addr)"

definition do_block_write :: "'d rot_ctx \<Rightarrow> RotComponent \<Rightarrow> RotSlot \<Rightarrow> nat \<Rightarrow> u8 list \<Rightarrow> ('d rot_flash, unit) um" where
  "do_block_write C c sl block_num page =
     (if same_image (rc_layout C) c sl then ufail RunningImage
      else
        (case target_addr (rc_layout C) c sl block_num of
           None \<Rightarrow> ufail OutOfBounds
         | Some addr \<Rightarrow> map_flash_error (rot_write_page (rc_dev C) addr page)))"

definition flash_erase_range :: "'d rot_ctx \<Rightarrow> nat \<Rightarrow> nat \<Rightarrow> ('d rot_flash, unit) um" where
  "flash_erase_range C start stop =
     (if stop div BYTES_PER_FLASH_WORD = 0 then upanic
      else
        ubind (flash_start (rc_dev C) (EraseRange (start div BYTES_PER_FLASH_WORD) (stop div BYTES_PER_FLASH_WORD - 1))) (\<lambda>_.
        map_flash_error (ubind (flash_waited (wait_spin (rc_dev C))) (\<lambda>st. uret (poll_erase_or_program_result st)))))"

subsection \<open>Updating a slot\<close>

definition component_prep_image_update :: "RotComponent \<Rightarrow> RotSlot \<Rightarrow> ('d rot_server, unit) um" where
  "component_prep_image_update c sl s =
     (if rs_state s = InProgress then (UFail UpdateInProgress, s)
      else if c = Stage0 \<and> sl = SlotA then (UFail InvalidSlotIdForOperation, s)
      else (UDone (), s\<lparr>rs_image := Some (c, sl), rs_state := InProgress, rs_next_block := None,
              rs_fw_cache := replicate (length (rs_fw_cache s)) 0\<rparr>))"

definition rot_prep_image_update :: "UpdateTarget \<Rightarrow> ('d rot_server, unit) um" where
  "rot_prep_image_update image_type =
     (case image_type of
        ImageA \<Rightarrow> component_prep_image_update Hubris SlotA
      | ImageB \<Rightarrow> component_prep_image_update Hubris SlotB
      | Bootloader \<Rightarrow> component_prep_image_update Stage0 SlotB
      | TargetReserved \<Rightarrow> ufail InvalidSlotIdForOperation)"

definition rot_abort_update :: "('d rot_server, unit) um" where
  "rot_abort_update s =
     (if rs_state s = UpFinished then (UFail UpdateAlreadyFinished, s)
      else (UDone (), s\<lparr>rs_state := NoUpdate, rs_next_block := None, rs_fw_cache := replicate (length (rs_fw_cache s)) 0\<rparr>))"

text \<open>
  A block is a lease of bytes, at most 1024 by a check before the handler runs; \<open>gone\<close> is whether the
  client has died by the time the lease is read.
\<close>

definition padded_page :: "u8 list \<Rightarrow> u8 list" where
  "padded_page bs = bs @ replicate (ROT_BLOCK_SIZE - length bs) 0xFF"

definition rot_write_one_block :: "'d rot_ctx \<Rightarrow> nat \<Rightarrow> u8 list \<Rightarrow> bool \<Rightarrow> ('d rot_server, unit) um" where
  "rot_write_one_block C block_num block gone s =
     (case rs_state s of
        NoUpdate \<Rightarrow> (UFail UpdateNotStarted, s)
      | UpFinished \<Rightarrow> (UFail UpdateAlreadyFinished, s)
      | InProgress \<Rightarrow>
          (let next = (case rs_next_block s of Some n \<Rightarrow> n | None \<Rightarrow> 0); s = s\<lparr>rs_next_block := Some next\<rparr> in
           if block_num \<noteq> next then (UFail BlockOutOfOrder, s)
           else if 2 ^ 32 \<le> next + 1 then (UPanic, s)
           else
             (let s = s\<lparr>rs_next_block := Some (next + 1)\<rparr> in
              if ROT_BLOCK_SIZE < length block then (UFail BadLength, s)
              else
                (case rs_image s of
                   None \<Rightarrow> (UPanic, s)
                 | Some (c, sl) \<Rightarrow>
                     (if block_num = HEADER_BLOCK then
                        (let h = (case rs_header_block s of Some h \<Rightarrow> h | None \<Rightarrow> replicate ROT_BLOCK_SIZE 0);
                             s = s\<lparr>rs_header_block := Some h\<rparr> in
                         if gone then (UWentAway, s)
                         else
                           (let h = padded_page block; s = s\<lparr>rs_header_block := Some h\<rparr> in
                            case validate_header_block (rc_layout C) c sl h of
                              Some e \<Rightarrow> (UFail e, s\<lparr>rs_header_block := None\<rparr>)
                            | None \<Rightarrow> on_flash (do_block_write C c sl block_num (replicate ROT_BLOCK_SIZE 0xFF)) s))
                      else if gone then (UWentAway, s)
                      else on_flash (do_block_write C c sl block_num (padded_page block)) s)))))"

definition rot_finish_image_update :: "'d rot_ctx \<Rightarrow> ('d rot_server, unit) um" where
  "rot_finish_image_update C s =
     (case rs_state s of
        NoUpdate \<Rightarrow> (UFail UpdateNotStarted, s)
      | UpFinished \<Rightarrow> (UFail UpdateAlreadyFinished, s)
      | InProgress \<Rightarrow>
          (case rs_header_block s of
             None \<Rightarrow> (UFail MissingHeaderBlock, s)
           | Some header \<Rightarrow>
               (case rs_next_block s of
                  None \<Rightarrow> (UFail MissingHeaderBlock, s)
                | Some endblock \<Rightarrow>
                    (if endblock = 0 then (UFail MissingHeaderBlock, s)
                     else
                       (case rs_image s of
                          None \<Rightarrow> (UPanic, s)
                        | Some (c, sl) \<Rightarrow>
                            (let range = fst (image_range (rc_layout C) c sl);
                                 erase_start = fst range + endblock * BYTES_PER_FLASH_PAGE in
                             ubind (on_flash (do_block_write C c sl HEADER_BLOCK header)) (\<lambda>_.
                             ubind (if 2 ^ 32 \<le> erase_start then upanic else on_flash (flash_erase_range C erase_start (snd range))) (\<lambda>_.
                             uput (\<lambda>s. s\<lparr>rs_state := UpFinished, rs_image := None\<rparr>))) s))))))"

definition rot_block_size :: nat where "rot_block_size = ROT_BLOCK_SIZE"

text \<open>A reset is refused during an update; otherwise the chip restarts.\<close>

definition rot_reset :: "'d rot_server \<Rightarrow> UpdateError option" where
  "rot_reset s = (if rs_state s = InProgress then Some UpdateInProgress else None)"

subsection \<open>The slot to boot from\<close>

definition cfpa_word_number_and_version :: "'d rot_ctx \<Rightarrow> CfpaPage \<Rightarrow> ('d rot_flash, nat \<times> u32) um" where
  "cfpa_word_number_and_version C page =
     ubind (indirect_flash_read_words (rc_dev C) CFPA_PING_FLASH_WORD 1) (\<lambda>ping.
     ubind (indirect_flash_read_words (rc_dev C) CFPA_PONG_FLASH_WORD 1) (\<lambda>pong.
     uret (if ping ! 0 ! 1 \<ge> pong ! 0 ! 1 \<and> page = CfpaPageActive then (CFPA_PING_FLASH_WORD, ping ! 0 ! 1)
           else (CFPA_PONG_FLASH_WORD, pong ! 0 ! 1))))"

definition boot_preference_from_flash_word :: "u32 list \<Rightarrow> RotSlot" where
  "boot_preference_from_flash_word w = (if (w ! 0) AND 1 = 0 then SlotA else SlotB)"

definition boot_preferences :: "'d rot_ctx \<Rightarrow> ('d rot_flash, RotSlot \<times> RotSlot option \<times> RotSlot option) um" where
  "boot_preferences C =
     ubind (cfpa_word_number_and_version C CfpaPageActive) (\<lambda>(cfpa_word, cfpa_version).
     ubind (indirect_flash_read_words (rc_dev C) (cfpa_word + BOOT_PREFERENCE_FLASH_WORD_OFFSET) 1) (\<lambda>sel.
     ubind (utry (indirect_flash_read_words (rc_dev C) CFPA_SCRATCH_FLASH_WORD 1)) (\<lambda>scratch.
     case scratch of
       Inl e \<Rightarrow> if e = EccDoubleErr then uret (boot_preference_from_flash_word (sel ! 0), None, None) else ufail e
     | Inr header \<Rightarrow>
         if cfpa_version < header ! 0 ! 1 then
           ubind (indirect_flash_read_words (rc_dev C) (CFPA_SCRATCH_FLASH_WORD + BOOT_PREFERENCE_FLASH_WORD_OFFSET) 1) (\<lambda>pend.
           uret (boot_preference_from_flash_word (sel ! 0), Some (boot_preference_from_flash_word (pend ! 0)), None))
         else uret (boot_preference_from_flash_word (sel ! 0), None, None))))"

definition old_image_details :: "RotImageDetailsV2 \<Rightarrow> RotImageDetails option" where
  "old_image_details i =
     (case img_status i of
        Inr _ \<Rightarrow> Some \<lparr>det_digest = img_digest i, det_version = \<lparr>ver_epoch = 0, ver_version = 0\<rparr>\<rparr>
      | Inl _ \<Rightarrow> None)"

definition rot_boot_state_from :: "RotBootStateV2 \<Rightarrow> RotBootState" where
  "rot_boot_state_from v2 = \<lparr>old_active = boot_active v2, old_a = old_image_details (boot_a v2), old_b = old_image_details (boot_b v2)\<rparr>"

definition rot_status :: "'d rot_ctx \<Rightarrow> HandoffDataLoadError + RotBootState" where
  "rot_status C = (case rc_bootstate C of Inl e \<Rightarrow> Inl e | Inr v2 \<Rightarrow> Inr (rot_boot_state_from v2))"

definition versioned_rot_boot_info :: "'d rot_ctx \<Rightarrow> u8 \<Rightarrow> ('d rot_flash, VersionedRotBootInfo) um" where
  "versioned_rot_boot_info C version =
     (case rc_bootstate C of
        Inl _ \<Rightarrow> ufail MissingHandoffData
      | Inr b \<Rightarrow>
          ubind (boot_preferences C) (\<lambda>(persistent, pending, transient).
          if version = 0 then ufail VersionNotSupported
          else if version = 1 then
            uret (InfoV1 \<lparr>info_active = boot_active b, persistent_boot_preference = persistent,
              pending_persistent_boot_preference = pending, transient_boot_preference = transient,
              slot_a_sha3_256_digest = Some (img_digest (boot_a b)), slot_b_sha3_256_digest = Some (img_digest (boot_b b))\<rparr>)
          else
            uret (InfoV2 \<lparr>info2_active = boot_active b, info2_persistent = persistent, info2_pending = pending,
              info2_transient = transient, slot_a_fwid = img_digest (boot_a b), slot_b_fwid = img_digest (boot_b b),
              stage0_fwid = img_digest (boot_stage0 b), stage0next_fwid = img_digest (boot_stage0next b),
              slot_a_status = img_status (boot_a b), slot_b_status = img_status (boot_b b),
              stage0_status = img_status (boot_stage0 b), stage0next_status = img_status (boot_stage0next b)\<rparr>)))"

definition rot_boot_info :: "'d rot_ctx \<Rightarrow> ('d rot_flash, RotBootInfo) um" where
  "rot_boot_info C =
     (case rc_bootstate C of
        Inl _ \<Rightarrow> ufail MissingHandoffData
      | Inr b \<Rightarrow>
          ubind (boot_preferences C) (\<lambda>(persistent, pending, transient).
          uret \<lparr>info_active = boot_active b, persistent_boot_preference = persistent,
            pending_persistent_boot_preference = pending, transient_boot_preference = transient,
            slot_a_sha3_256_digest = Some (img_digest (boot_a b)), slot_b_sha3_256_digest = Some (img_digest (boot_b b))\<rparr>))"

definition set_cell :: "u32 list list \<Rightarrow> nat \<Rightarrow> nat \<Rightarrow> u32 \<Rightarrow> u32 list list" where
  "set_cell m i j v = m[i := (m ! i)[j := v]]"

text \<open>The page with the preference changed, its version raised and its hash renewed.\<close>

definition new_cfpa :: "'d rot_ctx \<Rightarrow> u32 list list \<Rightarrow> u32 \<Rightarrow> u32 \<Rightarrow> u32 list list" where
  "new_cfpa C cfpa new_bit new_version =
     (let offset = BOOT_PREFERENCE_FLASH_WORD_OFFSET;
          cfpa = set_cell cfpa offset 0 ((cfpa ! offset ! 0 AND NOT 1) OR new_bit);
          cfpa = set_cell cfpa 0 1 new_version;
          hash = rc_sha256 C (concat (take 30 cfpa)) in
      cfpa[30 := take 4 hash, 31 := drop 4 hash])"

definition switch_default_hubris_image :: "'d rot_ctx \<Rightarrow> RotSlot \<Rightarrow> SwitchDuration \<Rightarrow> ('d rot_flash, unit) um" where
  "switch_default_hubris_image C sl duration =
     (case duration of
        Once \<Rightarrow> ufail NotImplemented
      | Forever \<Rightarrow>
          ubind (cfpa_word_number_and_version C CfpaPageActive) (\<lambda>(cfpa_word, _).
          ubind (indirect_flash_read_words (rc_dev C) cfpa_word 32) (\<lambda>cfpa.
          let bit = cfpa ! BOOT_PREFERENCE_FLASH_WORD_OFFSET ! 0 AND 1; new_bit = (if sl = SlotA then 0 else 1) in
          if bit = new_bit then uret ()
          else
            (case checked_add (cfpa ! 0 ! 1) 1 of
               None \<Rightarrow> ufail SecureErr
             | Some new_version \<Rightarrow>
                 map_flash_error (rot_write_page (rc_dev C) CFPA_SCRATCH_FLASH_ADDR
                   (words_bytes (concat (new_cfpa C cfpa new_bit new_version))))))))"

subsection \<open>Replacing the bootloader\<close>

definition round_up_to_flash_page :: "u32 \<Rightarrow> nat option" where
  "round_up_to_flash_page offset =
     (let n = (unat offset + BYTES_PER_FLASH_PAGE - 1) div BYTES_PER_FLASH_PAGE * BYTES_PER_FLASH_PAGE in if 2 ^ 32 \<le> n then None else Some n)"

text \<open>A read into a buffer of the function's own, whose contents are lost when it fails.\<close>

definition read_bytes :: "'d rot_dev \<Rightarrow> nat \<Rightarrow> nat \<Rightarrow> ('d rot_flash, u8 list) um" where
  "read_bytes D addr n = ubind (indirect_flash_read D addr n) (\<lambda>(e, bs). case e of Some e \<Rightarrow> ufail e | None \<Rightarrow> uret bs)"

definition flash_image_len :: "'d rot_ctx \<Rightarrow> nat \<times> nat \<Rightarrow> ('d rot_flash, nat) um" where
  "flash_image_len C span =
     (if 2 ^ 32 \<le> fst span + LENGTH_OFFSET then upanic
      else
        ubind (read_bytes (rc_dev C) (fst span + LENGTH_OFFSET) 4) (\<lambda>buf.
        case round_up_to_flash_page (le_word_at buf 0) of
          Some len \<Rightarrow> if len \<le> snd span - fst span \<and> ROT_HEADER_OFFSET \<le> len then uret len else ufail BadLength
        | None \<Rightarrow> ufail BadLength))"

definition cache_image_len :: "u32 list \<Rightarrow> nat option" where
  "cache_image_len cache =
     (case round_up_to_flash_page (cache ! (LENGTH_OFFSET div 4)) of
        None \<Rightarrow> None
      | Some len \<Rightarrow> if 4 * length cache < len \<or> len < ROT_HEADER_OFFSET then None else Some len)"

definition load_cache :: "u8 list \<Rightarrow> u32 list \<Rightarrow> u32 list" where
  "load_cache bs cache = le_words (bs @ drop (length bs) (words_bytes cache))"

definition read_flash_image_to_cache :: "'d rot_ctx \<Rightarrow> nat \<times> nat \<Rightarrow> ('d rot_server, nat) um" where
  "read_flash_image_to_cache C span =
     (let staged = fst (image_range (rc_layout C) Stage0 SlotB) in
      ubind (on_flash (flash_image_len C staged)) (\<lambda>len.
      ubind (uget (\<lambda>s. 4 * length (rs_fw_cache s))) (\<lambda>cap.
      if snd span < len \<or> cap < len then ufail BadLength
      else
        ubind (on_flash (indirect_flash_read (rc_dev C) (fst span) len)) (\<lambda>(e, bs).
        ubind (uput (\<lambda>s. s\<lparr>rs_fw_cache := load_cache bs (rs_fw_cache s)\<rparr>)) (\<lambda>_.
        case e of Some e \<Rightarrow> ufail e | None \<Rightarrow> uret len)))))"

text \<open>The comparison reads the flash from address zero on, whatever the span.\<close>

fun compare_pages :: "'d rot_ctx \<Rightarrow> u8 list \<Rightarrow> nat \<Rightarrow> nat list \<Rightarrow> ('d rot_flash, unit) um" where
  "compare_pages C cached flen [] = uret ()"
| "compare_pages C cached flen (addr # addrs) =
     (let n = (if flen < addr + BYTES_PER_FLASH_PAGE then flen - addr else BYTES_PER_FLASH_PAGE) in
      ubind (read_bytes (rc_dev C) addr n) (\<lambda>page.
      if page \<noteq> take n (drop addr cached) then ufail ImageMismatch else compare_pages C cached flen addrs))"

definition compare_cache_to_flash :: "'d rot_ctx \<Rightarrow> nat \<times> nat \<Rightarrow> ('d rot_server, unit) um" where
  "compare_cache_to_flash C span =
     ubind (uget rs_fw_cache) (\<lambda>cache.
     case cache_image_len cache of
       None \<Rightarrow> ufail BadLength
     | Some clen \<Rightarrow>
         ubind (on_flash (flash_image_len C span)) (\<lambda>flen.
         if clen \<noteq> flen then ufail ImageMismatch
         else
           on_flash (compare_pages C (take flen (words_bytes cache)) flen
             (map (\<lambda>k. BYTES_PER_FLASH_PAGE * k) [0..<(flen + BYTES_PER_FLASH_PAGE - 1) div BYTES_PER_FLASH_PAGE]))))"

fun write_blocks :: "'d rot_ctx \<Rightarrow> RotComponent \<Rightarrow> RotSlot \<Rightarrow> nat \<Rightarrow> u8 list list \<Rightarrow> ('d rot_flash, unit) um" where
  "write_blocks C c sl k [] = uret ()"
| "write_blocks C c sl k (page # pages) = ubind (do_block_write C c sl k page) (\<lambda>_. write_blocks C c sl (Suc k) pages)"

definition write_cache_to_flash :: "'d rot_ctx \<Rightarrow> RotComponent \<Rightarrow> RotSlot \<Rightarrow> ('d rot_server, unit) um" where
  "write_cache_to_flash C c sl =
     ubind (uget rs_fw_cache) (\<lambda>cache.
     case cache_image_len cache of
       None \<Rightarrow> ufail BadLength
     | Some clen \<Rightarrow>
         (let span = fst (image_range (rc_layout C) c sl) in
          if clen mod BYTES_PER_FLASH_PAGE \<noteq> 0 then ufail BadLength
          else if 2 ^ 32 \<le> fst span + clen then upanic
          else if snd span < fst span + clen then ufail BadLength
          else on_flash (write_blocks C c sl 0 (chunks_exact BYTES_PER_FLASH_PAGE (words_bytes cache)))))"

definition validated :: "'d rot_ctx \<Rightarrow> RotBootStateV2 \<Rightarrow> u8 list \<Rightarrow> bool" where
  "validated C b bytes \<longleftrightarrow>
     img_status (boot_stage0next b) = Inr () \<and> rc_sha3 C bytes = img_digest (boot_stage0next b)
     \<or> img_status (boot_stage0 b) = Inr () \<and> rc_sha3 C bytes = img_digest (boot_stage0 b)"

definition switch_default_boot_image :: "'d rot_ctx \<Rightarrow> SwitchDuration \<Rightarrow> ('d rot_server, unit) um" where
  "switch_default_boot_image C duration =
     (if duration \<noteq> Forever then ufail NotImplemented
      else
        (let staged = fst (image_range (rc_layout C) Stage0 SlotB); stage0 = fst (image_range (rc_layout C) Stage0 SlotA) in
         ubind (read_flash_image_to_cache C staged) (\<lambda>len.
         ubind (uget (\<lambda>s. take len (words_bytes (rs_fw_cache s)))) (\<lambda>bootloader.
         case rc_bootstate C of
           Inl _ \<Rightarrow> ufail MissingHandoffData
         | Inr b \<Rightarrow>
             if \<not> validated C b bootloader then ufail SignatureNotValidated
             else
               ubind (utry (compare_cache_to_flash C stage0)) (\<lambda>r.
               ubind (case r of
                        Inl e \<Rightarrow> if e = ImageMismatch then write_cache_to_flash C Stage0 SlotA else ufail e
                      | Inr _ \<Rightarrow> uret ()) (\<lambda>_.
               if 2 ^ 32 \<le> fst stage0 + len then upanic
               else on_flash (flash_erase_range C (fst stage0 + len) (snd stage0))))))))"

definition component_switch_default_image :: "'d rot_ctx \<Rightarrow> RotComponent \<Rightarrow> RotSlot \<Rightarrow> SwitchDuration \<Rightarrow> ('d rot_server, unit) um" where
  "component_switch_default_image C c sl duration =
     (case c of
        Hubris \<Rightarrow> on_flash (switch_default_hubris_image C sl duration)
      | Stage0 \<Rightarrow> (case sl of SlotA \<Rightarrow> ufail InvalidSlotIdForOperation | SlotB \<Rightarrow> switch_default_boot_image C duration))"

subsection \<open>Reading pages and descriptions\<close>

text \<open>
  Copies to a client's lease go through a buffer of 128 bytes. The result is what has been copied when
  all of it has; \<open>gone\<close> is whether the client has died.
\<close>

function copy_to_lease :: "'d rot_dev \<Rightarrow> nat \<Rightarrow> nat \<Rightarrow> bool \<Rightarrow> ('d rot_flash, u8 list) um" where
  "copy_to_lease D addr remaining gone =
     (if remaining = 0 then uret []
      else if 2 ^ 32 \<le> addr then upanic
      else
        (let count = min remaining 128 in
         ubind (read_bytes D addr count) (\<lambda>buf.
         if gone then uwent_away
         else ubind (copy_to_lease D (addr + count) (remaining - count) gone) (\<lambda>rest. uret (buf @ rest)))))"
  by auto
termination by (relation "measure (\<lambda>(D, addr, n, g). n)") auto

declare copy_to_lease.simps [simp del]

text \<open>A lease shorter than a page is refused, which is \<open>None\<close>.\<close>

definition read_rot_page :: "'d rot_ctx \<Rightarrow> RotPage \<Rightarrow> nat \<Rightarrow> bool \<Rightarrow> ('d rot_flash, u8 list option) um" where
  "read_rot_page C page lease_len gone =
     ubind (case page of
              Cmpa \<Rightarrow> uret CMPA_FLASH_WORD
            | CfpaScratch \<Rightarrow> uret CFPA_SCRATCH_FLASH_WORD
            | CfpaActive \<Rightarrow> ubind (cfpa_word_number_and_version C CfpaPageActive) (\<lambda>(w, _). uret w)
            | CfpaInactive \<Rightarrow> ubind (cfpa_word_number_and_version C CfpaPageInactive) (\<lambda>(w, _). uret w)) (\<lambda>word.
     if lease_len < BYTES_PER_FLASH_PAGE then uret None
     else ubind (copy_to_lease (rc_dev C) (word * 16) BYTES_PER_FLASH_PAGE gone) (\<lambda>bs. uret (Some bs)))"

text \<open>Reads whose failure is reported as a failed read of the description.\<close>

definition caboose_read :: "'d rot_dev \<Rightarrow> nat \<Rightarrow> nat \<Rightarrow> ('d rot_flash, RawCabooseError + u8 list) um" where
  "caboose_read D addr n = ubind (indirect_flash_read D addr n) (\<lambda>(e, bs). uret (case e of Some _ \<Rightarrow> Inl RcReadFailed | None \<Rightarrow> Inr bs))"

definition ebind :: "('s, 'e + 'a) um \<Rightarrow> ('a \<Rightarrow> ('s, 'e + 'b) um) \<Rightarrow> ('s, 'e + 'b) um" where
  "ebind m f = ubind m (\<lambda>r. case r of Inl e \<Rightarrow> uret (Inl e) | Inr a \<Rightarrow> f a)"

definition caboose_slice :: "'d rot_ctx \<Rightarrow> RotComponent \<Rightarrow> RotSlot \<Rightarrow> ('d rot_flash, RawCabooseError + nat \<times> nat) um" where
  "caboose_slice C c sl =
     (let range = fst (image_range (rc_layout C) c sl); D = rc_dev C in
      if 2 ^ 32 \<le> fst range + ROT_HEADER_OFFSET then upanic
      else
        ebind (caboose_read D (fst range + ROT_HEADER_OFFSET) IMAGE_HEADER_SIZE) (\<lambda>header.
        if le_word_at header 0 \<noteq> HEADER_MAGIC then uret (Inl RcNoImageHeader)
        else
          (let image_end = fst range + unat (le_word_at header 4) in
           if 2 ^ 32 \<le> image_end then upanic
           else if snd range < image_end then uret (Inl RcMissingCaboose)
           else if image_end < 4 then upanic
           else
             ebind (caboose_read D (image_end - 4) 4) (\<lambda>sz.
             let caboose_start = image_end - unat (le_word_at sz 0) in
             if caboose_start < fst range then uret (Inl RcMissingCaboose)
             else
               ebind (caboose_read D caboose_start 4) (\<lambda>v.
               if le_word_at v 0 = CABOOSE_MAGIC then
                 (if 2 ^ 32 \<le> caboose_start + 4 then upanic else uret (Inr (caboose_start + 4, image_end - 4)))
               else uret (Inl RcMissingCaboose))))))"

definition component_caboose_size :: "'d rot_ctx \<Rightarrow> RotComponent \<Rightarrow> RotSlot \<Rightarrow> ('d rot_flash, RawCabooseError + nat) um" where
  "component_caboose_size C c sl =
     ebind (caboose_slice C c sl) (\<lambda>(start, stop). if stop < start then upanic else uret (Inr (stop - start)))"

function copy_from_caboose_chunk :: "'d rot_dev \<Rightarrow> nat \<Rightarrow> nat \<Rightarrow> bool \<Rightarrow> ('d rot_flash, RawCabooseError + u8 list) um" where
  "copy_from_caboose_chunk D addr remaining gone =
     (if remaining = 0 then uret (Inr [])
      else if 2 ^ 32 \<le> addr then upanic
      else
        (let count = min remaining 128 in
         ebind (caboose_read D addr count) (\<lambda>buf.
         if gone then uwent_away
         else ebind (copy_from_caboose_chunk D (addr + count) (remaining - count) gone) (\<lambda>rest. uret (Inr (buf @ rest))))))"
  by auto
termination by (relation "measure (\<lambda>(D, addr, n, g). n)") auto

declare copy_from_caboose_chunk.simps [simp del]

definition component_read_raw_caboose :: "'d rot_ctx \<Rightarrow> RotComponent \<Rightarrow> RotSlot \<Rightarrow> nat \<Rightarrow> nat \<Rightarrow> bool \<Rightarrow> ('d rot_flash, RawCabooseError + u8 list) um" where
  "component_read_raw_caboose C c sl offset lease_len gone =
     ebind (caboose_slice C c sl) (\<lambda>(start, stop).
     if 2 ^ 32 \<le> offset + lease_len then upanic
     else if stop - start < offset + lease_len then uret (Inl RcInvalidRead)
     else copy_from_caboose_chunk (rc_dev C) (start + offset) lease_len gone)"

subsection \<open>Requests\<close>

datatype rot_request = RotPrepTarget UpdateTarget | RotPrep RotComponent RotSlot | RotAbort | RotWrite nat "u8 list" bool | RotFinish
  | RotSwitch RotComponent RotSlot SwitchDuration | RotInfo u8 | RotReadPage RotPage nat bool
  | RotCabooseSize RotComponent RotSlot | RotReadCaboose RotComponent RotSlot nat nat bool

definition uvoid :: "('s, 'a) um \<Rightarrow> ('s, unit) um" where
  "uvoid m = ubind m (\<lambda>_. uret ())"

fun rot_step :: "'d rot_ctx \<Rightarrow> rot_request \<Rightarrow> ('d rot_server, unit) um" where
  "rot_step C (RotPrepTarget t) = rot_prep_image_update t"
| "rot_step C (RotPrep c sl) = component_prep_image_update c sl"
| "rot_step C RotAbort = rot_abort_update"
| "rot_step C (RotWrite n b gone) = rot_write_one_block C n b gone"
| "rot_step C RotFinish = rot_finish_image_update C"
| "rot_step C (RotSwitch c sl d) = component_switch_default_image C c sl d"
| "rot_step C (RotInfo v) = uvoid (on_flash (versioned_rot_boot_info C v))"
| "rot_step C (RotReadPage p n gone) = uvoid (on_flash (read_rot_page C p n gone))"
| "rot_step C (RotCabooseSize c sl) = uvoid (on_flash (component_caboose_size C c sl))"
| "rot_step C (RotReadCaboose c sl off n gone) = uvoid (on_flash (component_read_raw_caboose C c sl off n gone))"

text \<open>Serving a sequence of requests; a panic restarts the server, a wait that never ends serves no more.\<close>

fun rot_serve :: "'d rot_ctx \<Rightarrow> rot_request list \<Rightarrow> 'd rot_server \<Rightarrow> 'd rot_server" where
  "rot_serve C [] s = s"
| "rot_serve C (req # reqs) s =
     (case rot_step C req s of
        (UHang, s) \<Rightarrow> s
      | (UPanic, s) \<Rightarrow> rot_serve C reqs (rot_main (rs_flash s))
      | (_, s) \<Rightarrow> rot_serve C reqs s)"

end
