(* ===== verification/Drv_RotProps.thy ===== *)
theory Drv_RotProps
  imports Drv_RotUpdate "HOL-Library.Sublist"
begin

section \<open>Properties of the updater of the root of trust\<close>

text \<open>
  First what the updater asks of the flash, for every controller: which pages it erases and programs, and with what.
  Then, for a controller that carries out its commands, what the flash holds after an update and after a change
  of the slot to boot from.
\<close>

subsection \<open>The commands of an operation\<close>

fun is_write :: "rot_cmd \<Rightarrow> bool" where
  "is_write (EraseRange a b) \<longleftrightarrow> True"
| "is_write (WriteRow i bs) \<longleftrightarrow> True"
| "is_write (Program w) \<longleftrightarrow> True"
| "is_write _ \<longleftrightarrow> False"

text \<open>
  \<open>emits lg X m s\<close>: run in \<open>s\<close>, the operation issues the erasing and writing commands \<open>X\<close>, or a first part
  of them when it does not succeed.
\<close>

definition emits :: "('s \<Rightarrow> rot_cmd list) \<Rightarrow> rot_cmd list \<Rightarrow> ('s, 'a) um \<Rightarrow> 's \<Rightarrow> bool" where
  "emits lg X m s \<longleftrightarrow>
     (\<exists>cs. lg (snd (m s)) = lg s @ cs \<and> prefix (filter is_write cs) X \<and> ((\<exists>a. fst (m s) = UDone a) \<longrightarrow> filter is_write cs = X))"

named_theorems emits_intros \<open>commands of the basic operations\<close>

lemma emitsI:
  assumes "lg (snd (m s)) = lg s @ cs" "prefix (filter is_write cs) X" "\<And>a. fst (m s) = UDone a \<Longrightarrow> filter is_write cs = X"
  shows "emits lg X m s"
  using assms unfolding emits_def by blast

lemma emits_uret [emits_intros]: "emits lg [] (uret a) s"
  by (auto simp: emits_def uret_def)

lemma emits_fail [emits_intros]: "emits lg X (ufail e) s" "emits lg X upanic s" "emits lg X uwent_away s"
  by (auto simp: emits_def ufail_def upanic_def uwent_away_def)

lemma emits_ubind:
  assumes "emits lg X m s" "\<And>a s1. m s = (UDone a, s1) \<Longrightarrow> emits lg Y (f a) s1"
  shows "emits lg (X @ Y) (ubind m f) s"
proof -
  obtain r s1 where ms: "m s = (r, s1)" by force
  obtain cs where cs: "lg s1 = lg s @ cs" "prefix (filter is_write cs) X" "(\<exists>a. r = UDone a) \<longrightarrow> filter is_write cs = X"
    using assms(1) ms by (auto simp: emits_def)
  show ?thesis
  proof (cases "\<exists>a. r = UDone a")
    case True
    then obtain a where a: "r = UDone a" ..
    obtain ds where "lg (snd (f a s1)) = lg s1 @ ds" "prefix (filter is_write ds) Y" "(\<exists>b. fst (f a s1) = UDone b) \<longrightarrow> filter is_write ds = Y"
      using assms(2) [of a s1] ms a by (auto simp: emits_def)
    then show ?thesis using ms a cs by (intro emitsI [of _ _ _ "cs @ ds"]) (auto simp: ubind_def)
  next
    case False
    have "snd (ubind m f s) = s1" "\<not> (\<exists>b. fst (ubind m f s) = UDone b)" using ms False by (cases r; simp add: ubind_def)+
    then show ?thesis using cs by (intro emitsI [of _ _ _ cs]) (auto simp: prefix_def)
  qed
qed

lemma emits_ubind_quiet:
  assumes "emits lg [] m s" "\<And>a s1. m s = (UDone a, s1) \<Longrightarrow> emits lg Y (f a) s1"
  shows "emits lg Y (ubind m f) s"
  using emits_ubind [OF assms] by simp

text \<open>Operations that only read: no condition on what came before is needed.\<close>

lemma emits_seq:
  assumes "emits lg [] m s" "\<And>a s1. emits lg [] (f a) s1"
  shows "emits lg [] (ubind m f) s"
  using assms by (rule emits_ubind_quiet)

lemma emits_ubind_last:
  assumes "emits lg X m s" "\<And>a s1. m s = (UDone a, s1) \<Longrightarrow> emits lg [] (f a) s1"
  shows "emits lg X (ubind m f) s"
  using emits_ubind [OF assms] by simp

lemma emits_utry [emits_intros]: "emits lg [] m s \<Longrightarrow> emits lg [] (utry m) s"
  by (auto simp: emits_def utry_def split: prod.splits up_result.splits)

lemma emits_uget [emits_intros]: "emits lg [] (uget f) s"
  by (auto simp: emits_def uget_def)

lemma emits_uput: "lg (g s) = lg s \<Longrightarrow> emits lg [] (uput g) s"
  by (auto simp: emits_def uput_def)

lemma emits_flash_start: "emits fl_log (if is_write c then [c] else []) (flash_start D c) f"
  by (auto simp: emits_def flash_start_def)

lemma emits_start_quiet [emits_intros]: "\<not> is_write c \<Longrightarrow> emits fl_log [] (flash_start D c) f"
  using emits_flash_start [of c D f] by simp

lemma emits_start_write: "is_write c \<Longrightarrow> emits fl_log [c] (flash_start D c) f"
  using emits_flash_start [of c D f] by simp

lemma emits_flash_waited [emits_intros]: "emits fl_log [] (flash_waited w) f"
  by (auto simp: emits_def flash_waited_def split: option.splits)

lemma emits_read_dataw [emits_intros]: "emits fl_log [] (read_dataw D) f"
  by (auto simp: emits_def read_dataw_def)

abbreviation server_log :: "'d rot_server \<Rightarrow> rot_cmd list" where
  "server_log s \<equiv> fl_log (rs_flash s)"

lemma emits_on_flash: "emits fl_log X m (rs_flash s) \<Longrightarrow> emits server_log X (on_flash m) s"
  by (auto simp: emits_def on_flash_def split: prod.splits)

lemma emits_if: "(b \<Longrightarrow> emits lg X m s) \<Longrightarrow> (\<not> b \<Longrightarrow> emits lg X n s) \<Longrightarrow> emits lg X (if b then m else n) s"
  by simp

subsection \<open>Reads issue no writes\<close>

declare indirect_flash_read_words.simps(2) [simp del]

lemma emits_read_words [emits_intros]: "emits fl_log [] (indirect_flash_read_words D wn n) f"
proof (induction n arbitrary: wn f)
  case (Suc n)
  show ?case by (auto simp: indirect_flash_read_words.simps(2) intro!: emits_seq emits_intros Suc split: option.split)
qed (simp add: emits_intros)

lemma emits_read [emits_intros]: "emits fl_log [] (indirect_flash_read D addr n) f"
proof (induction n arbitrary: addr f rule: less_induct)
  case (less n)
  have "min (16 - (addr - addr div 16 mod 2 ^ 18 * 16)) n \<noteq> 0" if "n \<noteq> 0" "\<not> 16 < addr - addr div 16 mod 2 ^ 18 * 16"
    using that read_offset [of addr] by simp
  then show ?case
    by (subst indirect_flash_read.simps)
      (auto simp: Let_def simp del: min_0R min_0L intro!: emits_seq emits_intros less split: sum.split)
qed

lemma emits_read_bytes [emits_intros]: "emits fl_log [] (read_bytes D addr n) f"
  by (auto simp: read_bytes_def intro!: emits_seq emits_intros split: option.split prod.split)

lemma emits_copy [emits_intros]: "emits fl_log [] (copy_to_lease D addr n gone) f"
proof (induction n arbitrary: addr f rule: less_induct)
  case (less n)
  then show ?case by (subst copy_to_lease.simps) (cases gone; auto simp: Let_def intro!: emits_seq emits_intros)
qed

lemma emits_cfpa [emits_intros]: "emits fl_log [] (cfpa_word_number_and_version C page) f"
  by (auto simp: cfpa_word_number_and_version_def intro!: emits_seq emits_intros)

lemma emits_boot_preferences [emits_intros]: "emits fl_log [] (boot_preferences C) f"
  by (auto simp: boot_preferences_def intro!: emits_seq emits_intros split: prod.split sum.split)

lemma emits_info [emits_intros]: "emits fl_log [] (versioned_rot_boot_info C v) f"
  by (auto simp: versioned_rot_boot_info_def intro!: emits_seq emits_intros split: prod.split sum.split)

lemma emits_read_rot_page [emits_intros]: "emits fl_log [] (read_rot_page C p n gone) f"
  by (auto simp: read_rot_page_def intro!: emits_seq emits_intros split: RotPage.split prod.split)

lemma emits_caboose_read [emits_intros]: "emits fl_log [] (caboose_read D addr n) f"
  by (auto simp: caboose_read_def intro!: emits_seq emits_intros split: prod.split)

lemma emits_ebind: "emits lg [] m s \<Longrightarrow> (\<And>a s1. emits lg [] (f a) s1) \<Longrightarrow> emits lg [] (ebind m f) s"
  by (auto simp: ebind_def intro!: emits_seq emits_intros split: sum.split)

lemma emits_caboose_slice [emits_intros]: "emits fl_log [] (caboose_slice C c sl) f"
  by (auto simp: caboose_slice_def Let_def intro!: emits_ebind emits_intros)

lemma emits_caboose_size [emits_intros]: "emits fl_log [] (component_caboose_size C c sl) f"
  by (auto simp: component_caboose_size_def intro!: emits_ebind emits_intros split: prod.split)

lemma emits_caboose_chunk [emits_intros]: "emits fl_log [] (copy_from_caboose_chunk D addr n gone) f"
proof (induction n arbitrary: addr f rule: less_induct)
  case (less n)
  then show ?case by (subst copy_from_caboose_chunk.simps) (cases gone; auto simp: Let_def intro!: emits_ebind emits_intros)
qed

lemma emits_read_caboose [emits_intros]: "emits fl_log [] (component_read_raw_caboose C c sl off n gone) f"
  by (auto simp: component_read_raw_caboose_def intro!: emits_ebind emits_intros split: prod.split)

lemma emits_image_len [emits_intros]: "emits fl_log [] (flash_image_len C span) f"
  by (auto simp: flash_image_len_def intro!: emits_seq emits_intros split: option.split)

lemma emits_compare_pages [emits_intros]: "emits fl_log [] (compare_pages C cached flen addrs) f"
  by (induction addrs arbitrary: f) (auto simp: Let_def intro!: emits_seq emits_intros)

lemma emits_compare [emits_intros]: "emits server_log [] (compare_cache_to_flash C span) s"
  by (auto simp: compare_cache_to_flash_def intro!: emits_seq emits_intros emits_on_flash split: option.split)

lemma emits_read_image [emits_intros]: "emits server_log [] (read_flash_image_to_cache C span) s"
  by (auto simp: read_flash_image_to_cache_def Let_def intro!: emits_seq emits_intros emits_on_flash emits_uput split: option.split)

lemma emits_uvoid: "emits lg X m s \<Longrightarrow> emits lg X (uvoid m) s"
  unfolding uvoid_def by (rule emits_ubind_last) (auto intro: emits_intros)

subsection \<open>Pages\<close>

definition page_cmds :: "nat \<Rightarrow> u8 list \<Rightarrow> rot_cmd list" where
  "page_cmds addr page =
     (let w = addr div BYTES_PER_FLASH_WORD; rows = chunks_exact BYTES_PER_FLASH_WORD page in
      EraseRange w (w + (WORDS_PER_FLASH_PAGE - 1)) # map (\<lambda>(i, r). WriteRow i r) (enumerate 0 rows) @ [Program w])"

lemma emits_write_rows: "emits fl_log (map (\<lambda>(i, r). WriteRow i r) (enumerate i rows)) (write_rows D i rows) f"
proof (induction rows arbitrary: i f)
  case (Cons r rows i f)
  have "emits fl_log ([WriteRow i r] @ map (\<lambda>(i, r). WriteRow i r) (enumerate (Suc i) rows)) (write_rows D i (r # rows)) f"
    unfolding write_rows.simps
    by (rule emits_ubind [OF emits_start_write]) (auto intro!: emits_ubind_quiet emits_intros Cons)
  then show ?case by simp
qed (simp add: emits_intros)

lemma emits_wait [emits_intros]: "emits fl_log [] (wait_for_erase_or_program D) f"
  by (auto simp: wait_for_erase_or_program_def intro!: emits_seq emits_intros)

text \<open>An assignment of associativity: the error of the driver is the server's.\<close>

lemma map_flash_error_ubind: "map_flash_error (ubind m f) = ubind m (\<lambda>a. map_flash_error (f a))"
  by (rule ext) (auto simp: map_flash_error_def ubind_def split: prod.splits up_result.splits)

lemma map_flash_error_uret: "map_flash_error (uret r) = (case r of FlashOk \<Rightarrow> uret () | FlashTimeout \<Rightarrow> ufail FlashError)"
  by (rule ext) (auto simp: map_flash_error_def ubind_def uret_def split: flash_outcome.splits)

lemma emits_map_flash_error: "emits lg X m s \<Longrightarrow> emits lg X (map_flash_error m) s"
  unfolding map_flash_error_def by (rule emits_ubind_last) (auto intro!: emits_intros split: flash_outcome.split)

lemma emits_write_page: "emits fl_log (page_cmds addr page) (map_flash_error (rot_write_page D addr page)) f"
proof -
  let ?w = "addr div BYTES_PER_FLASH_WORD" and ?rows = "chunks_exact BYTES_PER_FLASH_WORD page"
  have "emits fl_log ([EraseRange ?w (?w + (WORDS_PER_FLASH_PAGE - 1))] @ map (\<lambda>(i, r). WriteRow i r) (enumerate 0 ?rows) @ [Program ?w])
      (map_flash_error (rot_write_page D addr page)) f"
    unfolding rot_write_page_def Let_def map_flash_error_ubind if_distrib [of map_flash_error] map_flash_error_uret
  proof (rule emits_ubind [OF emits_start_write])
    fix u s1
    show "emits fl_log (map (\<lambda>(i, r). WriteRow i r) (enumerate 0 ?rows) @ [Program ?w])
       (ubind (wait_for_erase_or_program D) (\<lambda>a.
          if a = FlashTimeout then case a of FlashOk \<Rightarrow> uret () | FlashTimeout \<Rightarrow> ufail FlashError
          else ubind (write_rows D 0 ?rows) (\<lambda>aa. ubind (flash_start D (Program ?w)) (\<lambda>ab. map_flash_error (wait_for_erase_or_program D))))) s1"
    proof (rule emits_ubind_quiet [OF emits_wait], rule emits_if)
      fix a s2
      show "emits fl_log (map (\<lambda>(i, r). WriteRow i r) (enumerate 0 ?rows) @ [Program ?w])
         (ubind (write_rows D 0 ?rows) (\<lambda>aa. ubind (flash_start D (Program ?w)) (\<lambda>ab. map_flash_error (wait_for_erase_or_program D)))) s2"
        by (rule emits_ubind [OF emits_write_rows], rule emits_ubind_last [OF emits_start_write]) (auto intro!: emits_intros emits_map_flash_error)
    qed (auto intro: emits_intros)
  qed simp
  then show ?thesis by (simp add: page_cmds_def Let_def)
qed

lemma emits_do_block_write:
  "emits fl_log (if same_image (rc_layout C) c sl then [] else case target_addr (rc_layout C) c sl k of None \<Rightarrow> [] | Some addr \<Rightarrow> page_cmds addr page)
     (do_block_write C c sl k page) f"
  by (auto simp: do_block_write_def intro!: emits_intros emits_write_page split: option.split)

lemma emits_erase_range:
  "emits fl_log [EraseRange (start div BYTES_PER_FLASH_WORD) (stop div BYTES_PER_FLASH_WORD - 1)] (flash_erase_range C start stop) f"
  unfolding flash_erase_range_def
  by (auto intro!: emits_ubind_last emits_intros emits_start_write emits_map_flash_error emits_seq)

subsection \<open>The flash a command alters\<close>

text \<open>
  Erasing and programming act on whole pages of 32 flash words. What the controller does with
  a range whose end is before its start is not documented; such a command alters nothing here.
\<close>

fun alters :: "rot_cmd \<Rightarrow> nat \<Rightarrow> bool" where
  "alters (EraseRange a b) w \<longleftrightarrow> a \<le> b \<and> a div 32 \<le> w div 32 \<and> w div 32 \<le> b div 32"
| "alters (Program p) w \<longleftrightarrow> p div 32 = w div 32"
| "alters _ w \<longleftrightarrow> False"

definition in_range :: "nat \<times> nat \<Rightarrow> nat \<Rightarrow> bool" where
  "in_range r w \<longleftrightarrow> fst r \<le> 16 * w \<and> 16 * w < snd r"

definition slot_ok :: "nat \<times> nat \<Rightarrow> bool" where
  "slot_ok r \<longleftrightarrow> 512 dvd fst r \<and> 512 dvd snd r \<and> fst r < snd r \<and> snd r \<le> CFPA_SCRATCH_FLASH_ADDR"

definition apart :: "nat \<times> nat \<Rightarrow> nat \<times> nat \<Rightarrow> bool" where
  "apart p q \<longleftrightarrow> snd p \<le> fst q \<or> snd q \<le> fst p"

text \<open>The linker's promise: four slots of whole pages, apart from each other and from the protected pages; the task runs in a slot for Hubris.\<close>

definition layout_ok :: "rot_layout \<Rightarrow> bool" where
  "layout_ok L \<longleftrightarrow> slot_ok (lay_a L) \<and> slot_ok (lay_b L) \<and> slot_ok (lay_stage0 L) \<and> slot_ok (lay_stage0next L)
    \<and> apart (lay_a L) (lay_b L) \<and> apart (lay_a L) (lay_stage0 L) \<and> apart (lay_a L) (lay_stage0next L)
    \<and> apart (lay_b L) (lay_stage0 L) \<and> apart (lay_b L) (lay_stage0next L) \<and> apart (lay_stage0 L) (lay_stage0next L)
    \<and> (lay_this L = fst (lay_a L) \<or> lay_this L = fst (lay_b L))"

lemma layout_slot: "layout_ok L \<Longrightarrow> slot_ok (fst (image_range L c sl))"
  by (cases c; cases sl) (simp_all add: layout_ok_def)

lemma layout_apart: "layout_ok L \<Longrightarrow> (c, sl) \<noteq> (c', sl') \<Longrightarrow> apart (fst (image_range L c sl)) (fst (image_range L c' sl'))"
  by (cases c; cases sl; cases c'; cases sl') (auto simp: layout_ok_def apart_def)

lemma in_range_apart: "apart p q \<Longrightarrow> in_range p w \<Longrightarrow> \<not> in_range q w"
  by (auto simp: apart_def in_range_def)

lemma page_cmds_alter:
  assumes "c \<in> set (page_cmds addr page)" "alters c w" "512 dvd addr"
  shows "addr \<le> 16 * w \<and> 16 * w < addr + 512"
proof -
  obtain k where k: "addr = 512 * k" using assms(3) by blast
  have "w div 32 = k" using assms(1,2) unfolding k by (auto simp: page_cmds_def Let_def rot_sizes)
  then show ?thesis using k by auto
qed

lemma target_addr_slot:
  assumes "slot_ok (fst (image_range L c sl))" "target_addr L c sl k = Some addr"
  shows "addr = fst (fst (image_range L c sl)) + 512 * k" "512 dvd addr" "addr + 512 \<le> snd (fst (image_range L c sl))"
  using assms by (auto simp: target_addr_def slot_ok_def Let_def rot_consts split: if_splits)

lemma erase_alters:
  assumes "alters (EraseRange (start div 16) (stop div 16 - 1)) w" "512 dvd start" "512 dvd stop" "0 < stop"
  shows "start \<le> 16 * w \<and> 16 * w < stop"
proof -
  obtain j k where jk: "start = 512 * j" "stop = 512 * k" using assms(2,3) by blast
  have "k \<noteq> 0" using assms(4) jk by (cases "k = 0") auto
  then obtain m where m: "k = Suc m" by (cases k) auto
  have "(512 * k div 16 - 1) div 32 = m" unfolding m by simp
  then have "j \<le> w div 32" "w div 32 \<le> m" using assms(1) unfolding jk by simp_all
  then show ?thesis using jk m by auto
qed

lemma block_alters:
  assumes "layout_ok L" "x \<in> set (if same_image L c sl then [] else case target_addr L c sl k of None \<Rightarrow> [] | Some addr \<Rightarrow> page_cmds addr page)"
    "alters x w"
  shows "\<not> same_image L c sl" "in_range (fst (image_range L c sl)) w"
proof -
  show "\<not> same_image L c sl" using assms(2) by (auto split: if_splits)
  then obtain addr where addr: "target_addr L c sl k = Some addr" "x \<in> set (page_cmds addr page)"
    using assms(2) by (cases "target_addr L c sl k") auto
  note t = target_addr_slot [OF layout_slot [OF assms(1)] addr(1)]
  show "in_range (fst (image_range L c sl)) w"
    using page_cmds_alter [OF addr(2) assms(3) t(2)] t by (auto simp: in_range_def)
qed

text \<open>What the operations of an update alter is the slot that is being updated, and not the running one.\<close>

definition only_slot :: "rot_layout \<Rightarrow> RotComponent \<Rightarrow> RotSlot \<Rightarrow> rot_cmd list \<Rightarrow> bool" where
  "only_slot L c sl X \<longleftrightarrow> (\<forall>x \<in> set X. \<forall>w. alters x w \<longrightarrow> in_range (fst (image_range L c sl)) w \<and> \<not> same_image L c sl)"

lemma write_emits:
  assumes "layout_ok (rc_layout C)"
  shows "\<exists>X. emits server_log X (rot_write_one_block C n b gone) s
    \<and> (X \<noteq> [] \<longrightarrow> (\<exists>c sl. rs_image s = Some (c, sl) \<and> only_slot (rc_layout C) c sl X))"
proof -
  have nil: ?thesis if "rs_flash (snd (rot_write_one_block C n b gone s)) = rs_flash s"
    using that by (intro exI [of _ "[]"]) (auto simp: emits_def)
  have do: ?thesis if "rs_image s = Some (c, sl)" "rot_write_one_block C n b gone s = on_flash (do_block_write C c sl n page) s1" "rs_flash s1 = rs_flash s" for c sl page s1
  proof -
    let ?X = "if same_image (rc_layout C) c sl then [] else case target_addr (rc_layout C) c sl n of None \<Rightarrow> [] | Some addr \<Rightarrow> page_cmds addr page"
    have "emits server_log ?X (on_flash (do_block_write C c sl n page)) s1" by (rule emits_on_flash [OF emits_do_block_write])
    then have "emits server_log ?X (rot_write_one_block C n b gone) s" using that(2,3) by (simp add: emits_def)
    moreover have "only_slot (rc_layout C) c sl ?X" unfolding only_slot_def using block_alters [OF assms] by blast
    ultimately show ?thesis using that(1) by blast
  qed
  show ?thesis
    by (cases "rs_flash (snd (rot_write_one_block C n b gone s)) = rs_flash s")
      (use nil do in \<open>auto simp: rot_write_one_block_def Let_def split: UpdateState.splits option.splits if_splits prod.splits\<close>)
qed

lemma finish_emits:
  assumes "layout_ok (rc_layout C)"
  shows "\<exists>X. emits server_log X (rot_finish_image_update C) s
    \<and> (X \<noteq> [] \<longrightarrow> (\<exists>c sl. rs_image s = Some (c, sl) \<and> only_slot (rc_layout C) c sl X))"
proof -
  have nil: ?thesis if "rs_flash (snd (rot_finish_image_update C s)) = rs_flash s"
    using that by (intro exI [of _ "[]"]) (auto simp: emits_def)
  have do: ?thesis
    if im: "rs_image s = Some (c, sl)" and run: "rot_finish_image_update C s =
        ubind (on_flash (do_block_write C c sl HEADER_BLOCK header)) (\<lambda>_.
        ubind (if 2 ^ 32 \<le> start then upanic else on_flash (flash_erase_range C start (snd (fst (image_range (rc_layout C) c sl))))) (\<lambda>_.
        uput (\<lambda>s. s\<lparr>rs_state := UpFinished, rs_image := None\<rparr>))) s"
      and start: "start = fst (fst (image_range (rc_layout C) c sl)) + n * BYTES_PER_FLASH_PAGE" for c sl header start n
  proof (cases "same_image (rc_layout C) c sl")
    case True
    then have "rs_flash (snd (rot_finish_image_update C s)) = rs_flash s"
      unfolding run by (simp add: do_block_write_def on_flash_def ufail_def ubind_def)
    then show ?thesis by (rule nil)
  next
    case False
    let ?L = "rc_layout C" let ?range = "fst (image_range ?L c sl)"
    let ?Y = "if same_image ?L c sl then [] else case target_addr ?L c sl HEADER_BLOCK of None \<Rightarrow> [] | Some addr \<Rightarrow> page_cmds addr header"
    let ?E = "EraseRange (start div BYTES_PER_FLASH_WORD) (snd ?range div BYTES_PER_FLASH_WORD - 1)"
    have "emits server_log (?Y @ [?E])
        (ubind (on_flash (do_block_write C c sl HEADER_BLOCK header)) (\<lambda>_.
        ubind (if 2 ^ 32 \<le> start then upanic else on_flash (flash_erase_range C start (snd ?range))) (\<lambda>_.
        uput (\<lambda>s. s\<lparr>rs_state := UpFinished, rs_image := None\<rparr>)))) s"
      by (rule emits_ubind [OF emits_on_flash [OF emits_do_block_write]], rule emits_ubind_last)
        (auto intro!: emits_intros emits_on_flash emits_erase_range [unfolded One_nat_def] emits_uput)
    then have "emits server_log (?Y @ [?E]) (rot_finish_image_update C) s" using run by (simp add: emits_def)
    moreover have "only_slot ?L c sl (?Y @ [?E])"
      unfolding only_slot_def
    proof (intro ballI allI impI)
      fix x w assume x: "x \<in> set (?Y @ [?E])" and w: "alters x w"
      have sl: "slot_ok ?range" using layout_slot [OF assms] .
      show "in_range ?range w \<and> \<not> same_image ?L c sl"
      proof (cases "x = ?E")
        case True
        then show ?thesis using w sl False start erase_alters [of start "snd ?range" w] by (auto simp: in_range_def slot_ok_def rot_sizes)
      next
        case f: False
        then show ?thesis using block_alters [OF assms _ w] x False by (metis (no_types, lifting) Un_iff empty_iff empty_set set_ConsD set_append)
      qed
    qed
    ultimately show ?thesis using im by blast
  qed
  show ?thesis
    by (cases "rs_flash (snd (rot_finish_image_update C s)) = rs_flash s")
      (use nil do in \<open>auto simp: rot_finish_image_update_def Let_def split: UpdateState.splits option.splits if_splits prod.splits\<close>)
qed

subsection \<open>Changing the slot to boot from alters the scratch page only\<close>

definition alters_only :: "('s \<Rightarrow> rot_cmd list) \<Rightarrow> (nat \<Rightarrow> bool) \<Rightarrow> ('s, 'a) um \<Rightarrow> 's \<Rightarrow> bool" where
  "alters_only lg P m s \<longleftrightarrow> (\<exists>X. emits lg X m s \<and> (\<forall>x \<in> set X. \<forall>w. alters x w \<longrightarrow> P w))"

lemma alters_onlyI: "emits lg X m s \<Longrightarrow> (\<And>x w. x \<in> set X \<Longrightarrow> alters x w \<Longrightarrow> P w) \<Longrightarrow> alters_only lg P m s"
  unfolding alters_only_def by blast

lemma alters_only_quiet: "emits lg [] m s \<Longrightarrow> alters_only lg P m s"
  by (rule alters_onlyI) auto

lemma alters_only_ubind:
  assumes "alters_only lg P m s" "\<And>a s1. m s = (UDone a, s1) \<Longrightarrow> alters_only lg P (f a) s1"
  shows "alters_only lg P (ubind m f) s"
proof -
  obtain X where X: "emits lg X m s" "\<forall>x \<in> set X. \<forall>w. alters x w \<longrightarrow> P w" using assms(1) unfolding alters_only_def by blast
  show ?thesis
  proof (cases "\<exists>a s1. m s = (UDone a, s1)")
    case True
    then obtain a s1 where r: "m s = (UDone a, s1)" by blast
    then obtain Y where Y: "emits lg Y (f a) s1" "\<forall>x \<in> set Y. \<forall>w. alters x w \<longrightarrow> P w" using assms(2) unfolding alters_only_def by blast
    have "emits lg (X @ Y) (ubind m f) s" using emits_ubind [OF X(1), of Y f] Y(1) r by simp
    then show ?thesis using X(2) Y(2) by (intro alters_onlyI [of lg "X @ Y"]) auto
  next
    case False
    have "emits lg (X @ []) (ubind m f) s" by (rule emits_ubind [OF X(1)]) (use False in blast)
    then show ?thesis using X(2) by (intro alters_onlyI [of lg X]) auto
  qed
qed

lemma scratch_page_alters:
  assumes "x \<in> set (page_cmds CFPA_SCRATCH_FLASH_ADDR page)" "alters x w"
  shows "w div 32 = CFPA_SCRATCH_FLASH_WORD div 32"
proof -
  have "CFPA_SCRATCH_FLASH_ADDR \<le> 16 * w \<and> 16 * w < CFPA_SCRATCH_FLASH_ADDR + 512"
    by (rule page_cmds_alter [OF assms]) (simp add: rot_consts)
  then show ?thesis by (auto simp: rot_consts intro!: div_nat_eqI)
qed

lemma switch_hubris_alters:
  "alters_only fl_log (\<lambda>w. w div 32 = CFPA_SCRATCH_FLASH_WORD div 32) (switch_default_hubris_image C sl d) f"
proof (cases d)
  case Forever
  show ?thesis
    unfolding switch_default_hubris_image_def Forever SwitchDuration.case case_prod_beta
    by (intro alters_only_ubind alters_only_quiet [OF emits_cfpa] alters_only_quiet [OF emits_read_words])
      (auto simp: Let_def intro: alters_only_quiet emits_intros alters_onlyI [OF emits_write_page scratch_page_alters] split: option.split)
qed (auto simp: switch_default_hubris_image_def intro: alters_only_quiet emits_intros)

subsection \<open>Replacing the bootloader\<close>

lemma emits_block_cmds: "emits fl_log (page_cmds (fst (fst (image_range (rc_layout C) c sl)) + 512 * k) page) (do_block_write C c sl k page) f"
  by (auto simp: do_block_write_def target_addr_def Let_def rot_consts mult.commute intro!: emits_intros emits_write_page split: option.split)

definition slot_cmds :: "nat \<Rightarrow> nat \<Rightarrow> u8 list list \<Rightarrow> rot_cmd list" where
  "slot_cmds base k pages = concat (map (\<lambda>(k, p). page_cmds (base + 512 * k) p) (enumerate k pages))"

lemma emits_write_blocks: "emits fl_log (slot_cmds (fst (fst (image_range (rc_layout C) c sl))) k pages) (write_blocks C c sl k pages) f"
proof (induction pages arbitrary: k f)
  case (Cons p ps k f)
  show ?case
    using emits_ubind [OF emits_block_cmds Cons.IH, where s = f] by (simp add: slot_cmds_def)
qed (simp add: slot_cmds_def emits_intros)

lemma emits_write_cache:
  "emits server_log (slot_cmds (fst (fst (image_range (rc_layout C) c sl))) 0 (chunks_exact BYTES_PER_FLASH_PAGE (words_bytes (rs_fw_cache s))))
     (write_cache_to_flash C c sl) s"
  unfolding write_cache_to_flash_def
  by (rule emits_ubind_quiet [OF emits_uget])
    (auto simp: uget_def Let_def intro!: emits_intros emits_on_flash emits_write_blocks split: option.split)

text \<open>Operations that leave a field of the server alone.\<close>

definition keeps :: "('s \<Rightarrow> 'f) \<Rightarrow> ('s, 'a) um \<Rightarrow> bool" where
  "keeps g m \<longleftrightarrow> (\<forall>s r s'. m s = (r, s') \<longrightarrow> g s' = g s)"

named_theorems keeps_intros \<open>operations that leave a field alone\<close>

lemma keeps_basic [keeps_intros]: "keeps g (uret a)" "keeps g (ufail e)" "keeps g upanic" "keeps g (uget h)"
  by (auto simp: keeps_def uret_def ufail_def upanic_def uget_def)

lemma keeps_utry [keeps_intros]: "keeps g m \<Longrightarrow> keeps g (utry m)"
  by (auto simp: keeps_def utry_def split: prod.splits up_result.splits)

lemma keeps_ubind [keeps_intros]: "keeps g m \<Longrightarrow> (\<And>a. keeps g (f a)) \<Longrightarrow> keeps g (ubind m f)"
  unfolding keeps_def ubind_def by (fastforce split: prod.splits up_result.splits)

lemma keeps_on_flash: "(\<And>s f. g (s\<lparr>rs_flash := f\<rparr>) = g s) \<Longrightarrow> keeps g (on_flash m)"
  by (auto simp: keeps_def on_flash_def split: prod.splits)

lemma keeps_fields [keeps_intros]: "keeps rs_fw_cache (on_flash m)" "keeps rs_image (on_flash m)"
  by (simp_all add: keeps_on_flash)

lemma keeps_uput: "(\<And>s. g (h s) = g s) \<Longrightarrow> keeps g (uput h)"
  by (auto simp: keeps_def uput_def)

lemma keeps_compare [keeps_intros]: "keeps rs_fw_cache (compare_cache_to_flash C span)" "keeps rs_image (compare_cache_to_flash C span)"
  by (auto simp: compare_cache_to_flash_def intro!: keeps_intros split: option.split)

lemma keeps_write_cache [keeps_intros]: "keeps rs_fw_cache (write_cache_to_flash C c sl)" "keeps rs_image (write_cache_to_flash C c sl)"
  by (auto simp: write_cache_to_flash_def Let_def intro!: keeps_intros split: option.split)

lemma keeps_read_image [keeps_intros]: "keeps rs_image (read_flash_image_to_cache C span)"
  by (auto simp: read_flash_image_to_cache_def Let_def intro!: keeps_intros keeps_uput split: option.split)

lemma keeps_switch_boot [keeps_intros]: "keeps rs_image (switch_default_boot_image C d)"
  by (auto simp: switch_default_boot_image_def Let_def intro!: keeps_intros split: sum.split)

lemma ubind_done:
  assumes "ubind m f s = (UDone b, s')"
  shows "\<exists>a s1. m s = (UDone a, s1) \<and> f a s1 = (UDone b, s')"
  using assms by (auto simp: ubind_def split: prod.splits up_result.splits)

lemma on_flash_done: "on_flash m s = (UDone a, s') \<Longrightarrow> \<exists>f'. m (rs_flash s) = (UDone a, f')"
  by (auto simp: on_flash_def split: prod.splits)

lemma image_len_pages: "flash_image_len C span f = (UDone len, f') \<Longrightarrow> 512 dvd len"
  by (auto simp: flash_image_len_def round_up_to_flash_page_def rot_sizes Let_def upanic_def ufail_def uret_def
      dest!: ubind_done split: if_splits option.splits)

lemma read_image_pages:
  assumes "read_flash_image_to_cache C span s = (UDone len, s')"
  shows "512 dvd len"
  using assms image_len_pages
  by (fastforce simp: read_flash_image_to_cache_def Let_def ufail_def uret_def uget_def dest!: ubind_done on_flash_done split: if_splits option.splits prod.splits)

lemma switch_boot_emits:
  assumes run: "switch_default_boot_image C d s = (r, s')"
  defines "stage0 \<equiv> lay_stage0 (rc_layout C)"
  shows "\<exists>X. emits server_log X (switch_default_boot_image C d) s
    \<and> (X = [] \<or> d = Forever \<and> (\<exists>b len pages. rc_bootstate C = Inr b \<and> validated C b (take len (words_bytes (rs_fw_cache s'))) \<and> 512 dvd len
        \<and> (pages = [] \<or> pages = slot_cmds (fst stage0) 0 (chunks_exact BYTES_PER_FLASH_PAGE (words_bytes (rs_fw_cache s'))))
        \<and> X = pages @ [EraseRange ((fst stage0 + len) div 16) (snd stage0 div 16 - 1)]))"
proof (cases "d = Forever \<and> (\<exists>len s1. read_flash_image_to_cache C (lay_stage0next (rc_layout C)) s = (UDone len, s1))")
  case False
  have "emits server_log [] (switch_default_boot_image C d) s"
    using False by (auto simp: switch_default_boot_image_def Let_def intro!: emits_intros emits_ubind_quiet)
  then show ?thesis by blast
next
  case True
  then obtain len s1 where rd: "read_flash_image_to_cache C (lay_stage0next (rc_layout C)) s = (UDone len, s1)" and d: "d = Forever" by blast
  define replace where "replace r2 = (case r2 of Inl e \<Rightarrow> if e = ImageMismatch then write_cache_to_flash C Stage0 SlotA else ufail e | Inr (_ :: unit) \<Rightarrow> uret ())" for r2
  define erase where "erase = (if 2 ^ 32 \<le> fst stage0 + len then upanic else on_flash (flash_erase_range C (fst stage0 + len) (snd stage0)))"
  define m where "m = (case rc_bootstate C of Inl _ \<Rightarrow> ufail MissingHandoffData
    | Inr b \<Rightarrow> if \<not> validated C b (take len (words_bytes (rs_fw_cache s1))) then ufail SignatureNotValidated
               else ubind (utry (compare_cache_to_flash C stage0)) (\<lambda>r. ubind (replace r) (\<lambda>_. erase)))"
  have sw: "switch_default_boot_image C d s = m s1"
    using rd d by (cases "rc_bootstate C"; simp add: switch_default_boot_image_def Let_def ubind_def [of "read_flash_image_to_cache C (lay_stage0next (rc_layout C))"] ubind_def [of "uget f" for f] uget_def m_def replace_def erase_def stage0_def)
  have "keeps rs_fw_cache m"
    by (auto simp: m_def replace_def erase_def intro!: keeps_intros split: sum.split)
  then have cache: "rs_fw_cache s' = rs_fw_cache s1" using run sw by (simp add: keeps_def)
  let ?E = "[EraseRange ((fst stage0 + len) div 16) (snd stage0 div 16 - 1)]"
  let ?P = "slot_cmds (fst stage0) 0 (chunks_exact BYTES_PER_FLASH_PAGE (words_bytes (rs_fw_cache s')))"
  have lift: "emits server_log X (switch_default_boot_image C d) s" if "emits server_log X m s1" for X
  proof -
    have "emits server_log X (ubind (read_flash_image_to_cache C (lay_stage0next (rc_layout C))) (\<lambda>_. m)) s"
      using emits_ubind_quiet [OF emits_read_image, of C "lay_stage0next (rc_layout C)" s X "\<lambda>_. m"] that rd by simp
    then show ?thesis using rd sw by (simp add: emits_def ubind_def)
  qed
  have ee: "emits server_log ?E erase s2" for s2
    using emits_on_flash [OF emits_erase_range [of "fst stage0 + len" "snd stage0" C "rs_flash s2"]]
    by (auto simp: erase_def BYTES_PER_FLASH_WORD_def intro: emits_intros)
  show ?thesis
  proof (cases "\<exists>b. rc_bootstate C = Inr b \<and> validated C b (take len (words_bytes (rs_fw_cache s1)))")
    case False
    then have "emits server_log [] m s1" by (auto simp: m_def intro!: emits_intros split: sum.split)
    then show ?thesis using lift by blast
  next
    case True
    then obtain b where b: "rc_bootstate C = Inr b" "validated C b (take len (words_bytes (rs_fw_cache s1)))" by blast
    obtain r2 s2 where cmp: "utry (compare_cache_to_flash C stage0) s1 = (r2, s2)" by force
    have s2: "rs_fw_cache s2 = rs_fw_cache s1" using keeps_utry [OF keeps_compare(1)] cmp unfolding keeps_def by blast
    define pages where "pages = (if r2 = UDone (Inl ImageMismatch) then ?P else [])"
    have "emits server_log pages (replace a) s2" if "r2 = UDone a" for a
      using that emits_write_cache [of C Stage0 SlotA s2] s2 cache
      by (auto simp: replace_def pages_def stage0_def intro!: emits_intros split: sum.split)
    then have "emits server_log (pages @ ?E) (\<lambda>s. m s) s1"
      unfolding m_def using b cmp by (simp, intro emits_ubind_quiet [OF emits_utry [OF emits_compare]] emits_ubind) (auto intro: ee [unfolded One_nat_def])
    then have "emits server_log (pages @ ?E) (switch_default_boot_image C d) s" by (intro lift) simp
    moreover have "pages = [] \<or> pages = ?P" by (simp add: pages_def)
    moreover have "validated C b (take len (words_bytes (rs_fw_cache s')))" using b(2) cache by simp
    ultimately show ?thesis using b(1) d read_image_pages [OF rd] by blast
  qed
qed

subsection \<open>All requests\<close>

text \<open>What no request may alter: the slot the task runs from, and the protected pages that are in force.\<close>

definition precious :: "rot_layout \<Rightarrow> nat \<Rightarrow> bool" where
  "precious L w \<longleftrightarrow> (\<exists>c sl. same_image L c sl \<and> in_range (fst (image_range L c sl)) w)
    \<or> w div 32 = CMPA_FLASH_WORD div 32 \<or> w div 32 = CFPA_PING_FLASH_WORD div 32 \<or> w div 32 = CFPA_PONG_FLASH_WORD div 32"

lemma slot_below: "slot_ok r \<Longrightarrow> in_range r w \<Longrightarrow> w div 32 < CFPA_SCRATCH_FLASH_WORD div 32"
  by (auto simp: slot_ok_def in_range_def rot_consts less_mult_imp_div_less)

lemma slot_not_precious:
  assumes "layout_ok L" "in_range (fst (image_range L c sl)) w" "\<not> same_image L c sl"
  shows "\<not> precious L w"
proof -
  have "\<not> in_range (fst (image_range L c' sl')) w" if "same_image L c' sl'" for c' sl'
    using that assms(3) layout_apart [OF assms(1), of c sl c' sl'] in_range_apart assms(2) by (cases "(c, sl) = (c', sl')") auto
  then show ?thesis using slot_below [OF layout_slot [OF assms(1)] assms(2)] by (auto simp: precious_def rot_consts)
qed

lemma scratch_not_precious:
  assumes "layout_ok L" "w div 32 = CFPA_SCRATCH_FLASH_WORD div 32"
  shows "\<not> precious L w"
  using assms slot_below [OF layout_slot [OF assms(1)]] by (auto simp: precious_def rot_consts dest: slot_below [OF layout_slot [OF assms(1)]])

lemma alters_only_on_flash: "alters_only fl_log P m (rs_flash s) \<Longrightarrow> alters_only server_log P (on_flash m) s"
  unfolding alters_only_def using emits_on_flash by blast

lemma block_alters_slot:
  assumes "layout_ok (rc_layout C)"
  shows "alters_only fl_log (in_range (fst (image_range (rc_layout C) c sl))) (do_block_write C c sl k page) f"
  using block_alters(2) [OF assms] by (blast intro: alters_onlyI [OF emits_do_block_write])

lemma write_blocks_alter:
  assumes "layout_ok (rc_layout C)"
  shows "alters_only fl_log (in_range (fst (image_range (rc_layout C) c sl))) (write_blocks C c sl k pages) f"
proof (induction pages arbitrary: k f)
  case (Cons p ps k f)
  show ?case unfolding write_blocks.simps by (rule alters_only_ubind [OF block_alters_slot [OF assms] Cons.IH])
qed (simp add: alters_only_quiet emits_intros)

lemma erase_alters_slot:
  assumes "slot_ok r" "512 dvd start" "fst r \<le> start"
  shows "alters_only fl_log (in_range r) (flash_erase_range C start (snd r)) f"
  using assms erase_alters [of start "snd r"]
  by (fastforce simp: BYTES_PER_FLASH_WORD_def slot_ok_def in_range_def intro!: alters_onlyI [OF emits_erase_range])

lemma switch_boot_alters:
  assumes "layout_ok (rc_layout C)"
  shows "alters_only server_log (in_range (lay_stage0 (rc_layout C))) (switch_default_boot_image C d) s"
proof -
  let ?r = "lay_stage0 (rc_layout C)"
  have ok: "slot_ok ?r" using assms by (simp add: layout_ok_def)
  have replace: "alters_only server_log (in_range ?r) (case r of Inl e \<Rightarrow> if e = ImageMismatch then write_cache_to_flash C Stage0 SlotA else ufail e | Inr (_ :: unit) \<Rightarrow> uret ()) s" for r s
  proof -
    have "alters_only server_log (in_range ?r) (write_cache_to_flash C Stage0 SlotA) s"
      unfolding write_cache_to_flash_def using write_blocks_alter [OF assms, of Stage0 SlotA]
      by (intro alters_only_ubind alters_only_quiet [OF emits_uget])
        (auto simp: Let_def intro: alters_only_on_flash alters_only_quiet [OF emits_fail(1)] alters_only_quiet [OF emits_fail(2)] split: option.split)
    then show ?thesis by (auto intro: alters_only_quiet emits_intros split: sum.split)
  qed
  define er where "er len = (if 2 ^ 32 \<le> fst ?r + len then upanic else on_flash (flash_erase_range C (fst ?r + len) (snd ?r)))" for len
  have erase: "alters_only server_log (in_range ?r) (er len) s" if "512 dvd len" for len s
    using that ok erase_alters_slot [OF ok, of "fst ?r + len"]
    by (auto simp: er_def slot_ok_def intro!: alters_only_quiet [OF emits_fail(2)] alters_only_on_flash)
  show ?thesis
    unfolding switch_default_boot_image_def Let_def image_range.simps fst_conv er_def [symmetric]
    by (auto intro!: alters_only_quiet [OF emits_fail(1)] alters_only_ubind [OF alters_only_quiet [OF emits_read_image]] alters_only_ubind [OF alters_only_quiet [OF emits_uget]]
        alters_only_ubind [OF alters_only_quiet [OF emits_utry [OF emits_compare]]] alters_only_ubind [OF replace] erase dest: read_image_pages split: sum.split)
qed

lemma step_alters:
  assumes "layout_ok (rc_layout C)"
  shows "alters_only server_log (\<lambda>w. \<not> precious (rc_layout C) w) (rot_step C req) s"
proof -
  let ?L = "rc_layout C"
  have quiet: "alters_only server_log (\<lambda>w. \<not> precious ?L w) m s" if "rs_flash (snd (m s)) = rs_flash s" for m :: "('a rot_server, unit) um"
    using that by (intro alters_only_quiet) (auto simp: emits_def)
  have slot: "alters_only server_log (\<lambda>w. \<not> precious ?L w) m s"
    if "\<exists>X. emits server_log X m s \<and> (X \<noteq> [] \<longrightarrow> (\<exists>c sl. rs_image s = Some (c, sl) \<and> only_slot ?L c sl X))" for m :: "('a rot_server, unit) um"
    using that slot_not_precious [OF assms] unfolding alters_only_def only_slot_def by (metis empty_iff empty_set)
  have weaker: "alters_only server_log P m s \<Longrightarrow> (\<And>w. P w \<Longrightarrow> \<not> precious ?L w) \<Longrightarrow> alters_only server_log (\<lambda>w. \<not> precious ?L w) m s" for P and m :: "('a rot_server, unit) um"
    unfolding alters_only_def by blast
  have stage0: "\<not> precious ?L w" if "in_range (lay_stage0 ?L) w" for w
    using slot_not_precious [OF assms, of Stage0 SlotA w] that assms by (auto simp: layout_ok_def same_image_def apart_def slot_ok_def)
  show ?thesis
  proof (cases req)
    case (RotPrepTarget t) then show ?thesis
      by (intro quiet) (auto simp: rot_prep_image_update_def component_prep_image_update_def ufail_def split: UpdateTarget.split)
  next
    case (RotPrep c sl) then show ?thesis by (intro quiet) (auto simp: component_prep_image_update_def)
  next
    case RotAbort then show ?thesis by (intro quiet) (auto simp: rot_abort_update_def)
  next
    case (RotWrite n b gone) then show ?thesis using slot write_emits [OF assms] by simp
  next
    case RotFinish then show ?thesis using slot finish_emits [OF assms] by simp
  next
    case (RotSwitch c sl d)
    have "alters_only server_log (\<lambda>w. \<not> precious ?L w) (on_flash (switch_default_hubris_image C sl d)) s"
      using scratch_not_precious [OF assms] by (intro weaker [OF alters_only_on_flash [OF switch_hubris_alters]])
    moreover have "alters_only server_log (\<lambda>w. \<not> precious ?L w) (switch_default_boot_image C d) s"
      by (rule weaker [OF switch_boot_alters [OF assms] stage0])
    ultimately show ?thesis using RotSwitch
      by (auto simp: component_switch_default_image_def intro: alters_only_quiet emits_intros split: RotComponent.split RotSlot.split)
  qed (auto intro!: alters_only_quiet emits_uvoid emits_on_flash emits_intros)
qed

lemma alters_only_run:
  assumes "alters_only lg P m s"
  shows "\<exists>cs. lg (snd (m s)) = lg s @ cs \<and> (\<forall>x \<in> set cs. \<forall>w. alters x w \<longrightarrow> P w)"
proof -
  obtain X cs where X: "lg (snd (m s)) = lg s @ cs" "prefix (filter is_write cs) X" "\<forall>x \<in> set X. \<forall>w. alters x w \<longrightarrow> P w"
    using assms unfolding alters_only_def emits_def by blast
  have "P w" if "x \<in> set cs" "alters x w" for x w
  proof -
    have "is_write x" using that(2) by (cases x) auto
    then have "x \<in> set X" using that(1) X(2) set_mono_prefix by fastforce
    then show ?thesis using X(3) that(2) by blast
  qed
  then show ?thesis using X(1) by blast
qed


subsection \<open>The bootloader is replaced by a validated image only\<close>

lemma on_flash_image: "rs_image (snd (on_flash m s)) = rs_image s"
  by (simp add: on_flash_def split: prod.split)

lemma write_image: "rs_image (snd (rot_write_one_block C n b gone s)) = rs_image s"
  by (auto simp: rot_write_one_block_def Let_def on_flash_image split: UpdateState.split option.split prod.split)

text \<open>The bootloader's own slot is never the one being updated.\<close>

definition safe_image :: "'d rot_server \<Rightarrow> bool" where
  "safe_image s \<longleftrightarrow> rs_image s \<noteq> Some (Stage0, SlotA)"

lemma safe_image_keeps: "keeps rs_image m \<Longrightarrow> safe_image s \<Longrightarrow> safe_image (snd (m s))"
  unfolding keeps_def safe_image_def by (cases "m s") auto

lemma safe_image_ubind:
  assumes "keeps rs_image m" "\<And>a s. safe_image s \<Longrightarrow> safe_image (snd (f a s))" "safe_image s"
  shows "safe_image (snd (ubind m f s))"
proof -
  obtain r s1 where ms: "m s = (r, s1)" by force
  then have "safe_image s1" using safe_image_keeps [OF assms(1,3)] by simp
  then show ?thesis using ms assms(2) by (cases r) (auto simp: ubind_def)
qed

lemma safe_image_finish: "safe_image s \<Longrightarrow> safe_image (snd (rot_finish_image_update C s))"
  by (simp add: rot_finish_image_update_def Let_def split: UpdateState.split option.split prod.split)
    (auto intro!: safe_image_ubind keeps_intros, auto simp: uput_def safe_image_def upanic_def)

lemma step_image:
  assumes "safe_image s"
  shows "safe_image (snd (rot_step C req s))"
proof (cases req)
  case (RotPrepTarget t) then show ?thesis using assms
    by (auto simp: safe_image_def rot_prep_image_update_def component_prep_image_update_def ufail_def split: UpdateTarget.split)
next
  case (RotPrep c sl) then show ?thesis using assms by (auto simp: safe_image_def component_prep_image_update_def)
next
  case RotAbort then show ?thesis using assms by (auto simp: safe_image_def rot_abort_update_def)
next
  case (RotWrite n b gone) then show ?thesis using assms by (simp add: safe_image_def write_image)
next
  case RotFinish then show ?thesis using assms by (simp add: safe_image_finish)
next
  case (RotSwitch c sl d)
  have "keeps rs_image (component_switch_default_image C c sl d)"
    by (auto simp: component_switch_default_image_def intro!: keeps_intros split: RotComponent.split RotSlot.split)
  then show ?thesis using assms safe_image_keeps RotSwitch by simp
qed (use assms in \<open>auto simp: uvoid_def intro!: safe_image_keeps keeps_intros\<close>)

lemma serve_image: "safe_image s \<Longrightarrow> safe_image (rot_serve C reqs s)"
proof (induction reqs arbitrary: s)
  case (Cons req reqs)
  obtain r s1 where st: "rot_step C req s = (r, s1)" by force
  have "safe_image s1" using step_image [OF Cons.prems, of C req] st by simp
  then show ?case using st Cons.IH [of s1] Cons.IH [of "rot_main (rs_flash s1)"] by (cases r) (auto simp: rot_main_def safe_image_def)
qed simp

lemma emits_run: "emits lg X m s \<Longrightarrow> m s = (r, s') \<Longrightarrow> lg s' = lg s @ cs \<Longrightarrow> prefix (filter is_write cs) X"
  by (auto simp: emits_def)

lemma emits_member: "prefix (filter is_write cs) X \<Longrightarrow> x \<in> set cs \<Longrightarrow> alters x w \<Longrightarrow> x \<in> set X"
proof -
  assume "prefix (filter is_write cs) X" "x \<in> set cs" "alters x w"
  moreover then have "is_write x" by (cases x) auto
  ultimately show ?thesis using set_mono_prefix by fastforce
qed

text \<open>
  C31: the bootloader in use is replaced only by an image that the boot stage found properly signed. For every flash controller and after every
  sequence of requests, a command that erases or programs a page of the bootloader's slot is part of a request to make the staged bootloader
  permanent, the cached image has the digest of a bootloader found valid at boot, and all that is written is, in
  order, the pages of the cache and at the end an erasure of what follows the image.
\<close>

theorem rot_bootloader_validated:
  assumes "layout_ok (rc_layout C)" "s = rot_serve C reqs (rot_main f)" "rot_step C req s = (r, s')" "server_log s' = server_log s @ cs"
    and "x \<in> set cs" "alters x w" "in_range (lay_stage0 (rc_layout C)) w"
  shows "req = RotSwitch Stage0 SlotB Forever
    \<and> (\<exists>b len pages. rc_bootstate C = Inr b \<and> validated C b (take len (words_bytes (rs_fw_cache s')))
        \<and> (pages = [] \<or> pages = slot_cmds (fst (lay_stage0 (rc_layout C))) 0 (chunks_exact BYTES_PER_FLASH_PAGE (words_bytes (rs_fw_cache s'))))
        \<and> prefix (filter is_write cs) (pages @ [EraseRange ((fst (lay_stage0 (rc_layout C)) + len) div 16) (snd (lay_stage0 (rc_layout C)) div 16 - 1)]))"
proof -
  let ?L = "rc_layout C"
  have img: "rs_image s \<noteq> Some (Stage0, SlotA)" unfolding assms(2) by (rule serve_image [unfolded safe_image_def]) (simp add: rot_main_def)
  have mem: "x \<in> set X" if "emits server_log X (rot_step C req) s" for X
    using emits_member [OF emits_run [OF that assms(3,4)] assms(5,6)] .
  have slot: False if e: "emits server_log X (rot_step C req) s" and o: "X \<noteq> [] \<longrightarrow> (\<exists>c sl. rs_image s = Some (c, sl) \<and> only_slot ?L c sl X)" for X
  proof -
    obtain c sl where "rs_image s = Some (c, sl)" "in_range (fst (image_range ?L c sl)) w"
      using mem [OF e] o assms(6) unfolding only_slot_def by (metis empty_iff empty_set)
    moreover from this have "apart (fst (image_range ?L c sl)) (lay_stage0 ?L)" using layout_apart [OF assms(1), of c sl Stage0 SlotA] img by auto
    ultimately show False using in_range_apart assms(7) by blast
  qed
  have quiet: False if "emits server_log [] (rot_step C req) s" using mem [OF that] by simp
  have flash: "rs_flash s' = rs_flash s \<Longrightarrow> False" using assms(4,5) by simp
  obtain d where req: "req = RotSwitch Stage0 SlotB d"
  proof (cases req)
    case (RotPrepTarget t) then show ?thesis using flash assms(3)
      by (auto simp: rot_prep_image_update_def component_prep_image_update_def ufail_def split: UpdateTarget.splits if_splits)
  next
    case (RotPrep c sl) then show ?thesis using flash assms(3) by (auto simp: component_prep_image_update_def split: if_splits)
  next
    case RotAbort then show ?thesis using flash assms(3) by (auto simp: rot_abort_update_def split: if_splits)
  next
    case (RotWrite n b gone) then show ?thesis using slot write_emits [OF assms(1), of n b gone s] by auto
  next
    case RotFinish then show ?thesis using slot finish_emits [OF assms(1), of s] by auto
  next
    case (RotSwitch c sl d)
    show ?thesis
    proof (cases c)
      case Hubris
      obtain X where "emits server_log X (rot_step C req) s" "\<forall>x \<in> set X. \<forall>w. alters x w \<longrightarrow> w div 32 = CFPA_SCRATCH_FLASH_WORD div 32"
        using alters_only_on_flash [OF switch_hubris_alters] RotSwitch Hubris unfolding alters_only_def
        by (fastforce simp: component_switch_default_image_def)
      then have "w div 32 = CFPA_SCRATCH_FLASH_WORD div 32" using mem assms(6) by blast
      then show ?thesis using slot_below [OF _ assms(7)] assms(1) by (simp add: layout_ok_def)
    next
      case Stage0
      then show ?thesis using that RotSwitch quiet
        by (cases sl) (auto simp: component_switch_default_image_def intro: emits_intros)
    qed
  qed (use quiet in \<open>auto intro!: emits_uvoid emits_on_flash emits_intros\<close>)
  have run: "switch_default_boot_image C d s = (r, s')" using assms(3) req by (simp add: component_switch_default_image_def)
  obtain X where X: "emits server_log X (rot_step C req) s"
      "X = [] \<or> d = Forever \<and> (\<exists>b len pages. rc_bootstate C = Inr b \<and> validated C b (take len (words_bytes (rs_fw_cache s'))) \<and> 512 dvd len
        \<and> (pages = [] \<or> pages = slot_cmds (fst (lay_stage0 ?L)) 0 (chunks_exact BYTES_PER_FLASH_PAGE (words_bytes (rs_fw_cache s'))))
        \<and> X = pages @ [EraseRange ((fst (lay_stage0 ?L) + len) div 16) (snd (lay_stage0 ?L) div 16 - 1)])"
    using switch_boot_emits [OF run] req by (auto simp: component_switch_default_image_def)
  have "X \<noteq> []" using mem [OF X(1)] by auto
  then show ?thesis using X(2) emits_run [OF X(1) assms(3,4)] req by blast
qed

end
