(* ===== verification/Drv_RotInstall.thy ===== *)
theory Drv_RotInstall
  imports Drv_RotProps
begin

section \<open>Updates of the root of trust on a working controller\<close>

text \<open>
  What the flash holds after the operations of the updater, when the controller carries out its commands as
  documented: a range of pages is erased, a row goes to the page register, the register is programmed into a page, and an
  erased word cannot be read.
\<close>

subsection \<open>A working controller\<close>

definition completes :: "'d rot_dev \<Rightarrow> rot_cmd \<Rightarrow> 'd \<Rightarrow> (flash_status \<Rightarrow> 'd \<Rightarrow> bool) \<Rightarrow> bool" where
  "completes D c d Q \<longleftrightarrow> (\<exists>st d'. wait_irq D (rd_start D c d) = Some (st, d') \<and> Q st d') \<and> (\<exists>st d'. wait_spin D (rd_start D c d) = Some (st, d') \<and> Q st d')"

text \<open>\<open>cont d w\<close> is the contents of flash word \<open>w\<close>, if it is programmed; \<open>row d i\<close> is row \<open>i\<close> of the page register.\<close>

type_synonym flash_cont = "nat \<Rightarrow> u32 list option"

definition erased :: "nat \<Rightarrow> nat \<Rightarrow> flash_cont \<Rightarrow> flash_cont" where
  "erased p q c = (\<lambda>w. if p \<le> w div 32 \<and> w div 32 \<le> q then None else c w)"

definition programmed :: "nat \<Rightarrow> (nat \<Rightarrow> u32 list) \<Rightarrow> flash_cont \<Rightarrow> flash_cont" where
  "programmed p g c = (\<lambda>w. if w div 32 = p then Some (g (w mod 32)) else c w)"

definition ctl_ok :: "'d rot_dev \<Rightarrow> ('d \<Rightarrow> flash_cont) \<Rightarrow> ('d \<Rightarrow> nat \<Rightarrow> u8 list) \<Rightarrow> bool" where
  "ctl_ok D cont row \<longleftrightarrow>
     (\<forall>d a b. a \<le> b \<longrightarrow> completes D (EraseRange a b) d (\<lambda>st d'. \<not> st_fail st \<and> cont d' = erased (a div 32) (b div 32) (cont d)))
   \<and> (\<forall>d i bs. length bs = 16 \<longrightarrow> completes D (WriteRow i bs) d (\<lambda>st d'. cont d' = cont d \<and> row d' = (row d)(i := bs)))
   \<and> (\<forall>d p. completes D (Program p) d (\<lambda>st d'. \<not> st_fail st \<and> cont d' = programmed (p div 32) (\<lambda>i. le_words (row d i)) (cont d)))
   \<and> (\<forall>d w. completes D (ReadSingleWord w) d (\<lambda>st d'. cont d' = cont d
        \<and> (case cont d w of Some ws \<Rightarrow> poll_read_result st = None \<and> map (rd_dataw D d') [0..<4] = ws | None \<Rightarrow> st_ecc_err st)))"

definition page_word :: "u8 list \<Rightarrow> nat \<Rightarrow> u32 list" where
  "page_word page k = le_words (take 16 (drop (16 * k) page))"

lemma ctl_okD:
  assumes "ctl_ok D cont row"
  shows "a \<le> b \<Longrightarrow> completes D (EraseRange a b) d (\<lambda>st d'. \<not> st_fail st \<and> cont d' = erased (a div 32) (b div 32) (cont d))"
    "length bs = 16 \<Longrightarrow> completes D (WriteRow i bs) d (\<lambda>st d'. cont d' = cont d \<and> row d' = (row d)(i := bs))"
    "completes D (Program p) d (\<lambda>st d'. \<not> st_fail st \<and> cont d' = programmed (p div 32) (\<lambda>i. le_words (row d i)) (cont d))"
    "completes D (ReadSingleWord w) d (\<lambda>st d'. cont d' = cont d
        \<and> (case cont d w of Some ws \<Rightarrow> poll_read_result st = None \<and> map (rd_dataw D d') [0..<4] = ws | None \<Rightarrow> st_ecc_err st))"
  using assms unfolding ctl_ok_def by blast+

lemma completes_irq:
  assumes "completes D c (fl_dev f) Q"
  shows "\<exists>st f1 f2. flash_start D c f = (UDone (), f1) \<and> flash_waited (wait_irq D) f1 = (UDone st, f2) \<and> Q st (fl_dev f2)"
  using assms by (auto simp: completes_def flash_start_def flash_waited_def)

lemma completes_spin:
  assumes "completes D c (fl_dev f) Q"
  shows "\<exists>st f1 f2. flash_start D c f = (UDone (), f1) \<and> flash_waited (wait_spin D) f1 = (UDone st, f2) \<and> Q st (fl_dev f2)"
  using assms by (auto simp: completes_def flash_start_def flash_waited_def)

lemma ubind_step: "m s = (UDone a, s1) \<Longrightarrow> ubind m f s = f a s1"
  by (simp add: ubind_def)

lemma wait_ok: "flash_waited (wait_irq D) f = (UDone st, f') \<Longrightarrow> \<not> st_fail st \<Longrightarrow> wait_for_erase_or_program D f = (UDone FlashOk, f')"
  by (simp add: wait_for_erase_or_program_def ubind_step uret_def poll_erase_or_program_result_def)

lemma ctl_rows:
  assumes "ctl_ok D cont row" "\<forall>r \<in> set rows. length r = 16"
  shows "\<exists>f'. write_rows D i rows f = (UDone (), f') \<and> cont (fl_dev f') = cont (fl_dev f)
    \<and> (\<forall>j. row (fl_dev f') j = (if i \<le> j \<and> j < i + length rows then rows ! (j - i) else row (fl_dev f) j))"
  using assms(2)
proof (induction rows arbitrary: i f)
  case Nil
  then show ?case by (auto simp: uret_def)
next
  case (Cons r rows i f)
  have "completes D (WriteRow i r) (fl_dev f) (\<lambda>st d'. cont d' = cont (fl_dev f) \<and> row d' = (row (fl_dev f))(i := r))"
    by (rule ctl_okD(2) [OF assms(1)]) (use Cons.prems in simp)
  from completes_spin [OF this] obtain st f1 f2 where s: "flash_start D (WriteRow i r) f = (UDone (), f1)" "flash_waited (wait_spin D) f1 = (UDone st, f2)"
      "cont (fl_dev f2) = cont (fl_dev f)" "row (fl_dev f2) = (row (fl_dev f))(i := r)" by blast
  obtain f' where f': "write_rows D (Suc i) rows f2 = (UDone (), f')" "cont (fl_dev f') = cont (fl_dev f2)"
      "\<forall>j. row (fl_dev f') j = (if Suc i \<le> j \<and> j < Suc i + length rows then rows ! (j - Suc i) else row (fl_dev f2) j)"
    using Cons.IH [of "Suc i" f2] Cons.prems by auto
  have "write_rows D i (r # rows) f = (UDone (), f')" using s(1,2) f'(1) by (simp add: ubind_step)
  moreover have "row (fl_dev f') j = (if i \<le> j \<and> j < i + length (r # rows) then (r # rows) ! (j - i) else row (fl_dev f) j)" for j
    using f'(3) s(4) by (auto simp: nth_Cons' Suc_diff_Suc)
  ultimately show ?case using f'(2) s(3) by auto
qed

text \<open>A page that is written holds what was written, and no other word changes.\<close>

lemma rot_write_page_ok:
  assumes "ctl_ok D cont row" "512 dvd addr" "length page = 512"
  shows "\<exists>f'. rot_write_page D addr page f = (UDone FlashOk, f') \<and> cont (fl_dev f') = programmed (addr div 512) (page_word page) (cont (fl_dev f))"
proof -
  let ?w = "addr div 16"
  have w: "?w div 32 = addr div 512" "(?w + 31) div 32 = addr div 512" using assms(2) by auto
  have "completes D (EraseRange ?w (?w + 31)) (fl_dev f) (\<lambda>st d'. \<not> st_fail st \<and> cont d' = erased (addr div 512) (addr div 512) (cont (fl_dev f)))"
    using ctl_okD(1) [OF assms(1), of ?w "?w + 31" "fl_dev f"] unfolding w by simp
  from completes_irq [OF this] obtain st g1 f1 where e: "flash_start D (EraseRange ?w (?w + 31)) f = (UDone (), g1)"
      "wait_for_erase_or_program D g1 = (UDone FlashOk, f1)" "cont (fl_dev f1) = erased (addr div 512) (addr div 512) (cont (fl_dev f))"
    using wait_ok by blast
  let ?rows = "chunks_exact 16 page"
  obtain f2 where f2: "write_rows D 0 ?rows f1 = (UDone (), f2)" "cont (fl_dev f2) = cont (fl_dev f1)"
      "\<forall>j. row (fl_dev f2) j = (if j < length ?rows then ?rows ! j else row (fl_dev f1) j)"
    using ctl_rows [OF assms(1), of ?rows 0 f1] assms(3) by (auto simp: chunks_exact_def)
  have "completes D (Program ?w) (fl_dev f2) (\<lambda>st d'. \<not> st_fail st \<and> cont d' = programmed (addr div 512) (\<lambda>i. le_words (row (fl_dev f2) i)) (cont (fl_dev f2)))"
    using ctl_okD(3) [OF assms(1), of ?w "fl_dev f2"] unfolding w .
  from completes_irq [OF this] obtain st g3 f3 where p: "flash_start D (Program ?w) f2 = (UDone (), g3)"
      "wait_for_erase_or_program D g3 = (UDone FlashOk, f3)" "cont (fl_dev f3) = programmed (addr div 512) (\<lambda>i. le_words (row (fl_dev f2) i)) (cont (fl_dev f2))"
    using wait_ok by blast
  have rows: "length ?rows = 32" "j < 32 \<Longrightarrow> le_words (?rows ! j) = page_word page j" for j
    using assms(3) by (simp_all add: chunks_exact_def page_word_def)
  have "rot_write_page D addr page f = (UDone FlashOk, f3)"
    using e(1,2) f2(1) p(1,2) by (simp add: rot_write_page_def rot_sizes Let_def ubind_step)
  moreover have "cont (fl_dev f3) = programmed (addr div 512) (page_word page) (cont (fl_dev f))"
    unfolding p(3) programmed_def by (rule ext) (simp add: f2 e(3) erased_def rows)
  ultimately show ?thesis by blast
qed

lemma erase_range_ok:
  assumes "ctl_ok (rc_dev C) cont row" "512 dvd start" "512 dvd stop" "start < stop"
  shows "\<exists>f'. flash_erase_range C start stop f = (UDone (), f') \<and> cont (fl_dev f') = erased (start div 512) (stop div 512 - 1) (cont (fl_dev f))"
proof -
  obtain j k where jk: "start = 512 * j" "stop = 512 * k" using assms(2,3) by blast
  then obtain m where m: "k = Suc m" using assms(4) by (cases k) auto
  let ?a = "start div 16" and ?b = "stop div 16 - 1"
  have ab: "?a \<le> ?b" "?a div 32 = start div 512" "?b div 32 = stop div 512 - 1" using jk m assms(4) by auto
  have "completes (rc_dev C) (EraseRange ?a ?b) (fl_dev f) (\<lambda>st d'. \<not> st_fail st \<and> cont d' = erased (start div 512) (stop div 512 - 1) (cont (fl_dev f)))"
    using ctl_okD(1) [OF assms(1) ab(1), of "fl_dev f"] unfolding ab(2,3) .
  from completes_spin [OF this] obtain st f1 f2 where "flash_start (rc_dev C) (EraseRange ?a ?b) f = (UDone (), f1)"
      "flash_waited (wait_spin (rc_dev C)) f1 = (UDone st, f2)" "\<not> st_fail st" "cont (fl_dev f2) = erased (start div 512) (stop div 512 - 1) (cont (fl_dev f))" by blast
  moreover have "stop div 16 \<noteq> 0" using jk m by simp
  ultimately show ?thesis
    by (simp add: flash_erase_range_def rot_sizes ubind_step map_flash_error_def uret_def poll_erase_or_program_result_def)
qed

subsection \<open>Writing an image\<close>

abbreviation server_cont :: "('d \<Rightarrow> flash_cont) \<Rightarrow> 'd rot_server \<Rightarrow> flash_cont" where
  "server_cont cont s \<equiv> cont (fl_dev (rs_flash s))"

abbreviation slot_range :: "'d rot_ctx \<Rightarrow> RotComponent \<Rightarrow> RotSlot \<Rightarrow> nat \<times> nat" where
  "slot_range C c sl \<equiv> fst (image_range (rc_layout C) c sl)"

abbreviation slot_page :: "'d rot_ctx \<Rightarrow> RotComponent \<Rightarrow> RotSlot \<Rightarrow> nat" where
  "slot_page C c sl \<equiv> fst (slot_range C c sl) div 512"

lemma block_write_ok:
  assumes "ctl_ok (rc_dev C) cont row" "layout_ok (rc_layout C)" "\<not> same_image (rc_layout C) c sl" "length page = 512"
    and "fst (slot_range C c sl) + 512 * (k + 1) \<le> snd (slot_range C c sl)"
  shows "\<exists>f'. do_block_write C c sl k page f = (UDone (), f') \<and> cont (fl_dev f') = programmed (slot_page C c sl + k) (page_word page) (cont (fl_dev f))"
proof -
  let ?r = "slot_range C c sl"
  let ?addr = "fst ?r + k * 512"
  have ok: "slot_ok ?r" using layout_slot [OF assms(2)] .
  have t: "target_addr (rc_layout C) c sl k = Some ?addr"
    using ok assms(5) by (simp add: target_addr_def Let_def rot_consts slot_ok_def)
  have al: "512 dvd ?addr" "?addr div 512 = slot_page C c sl + k" using ok by (auto simp: slot_ok_def)
  obtain f' where "rot_write_page (rc_dev C) ?addr page f = (UDone FlashOk, f')" "cont (fl_dev f') = programmed (?addr div 512) (page_word page) (cont (fl_dev f))"
    using rot_write_page_ok [OF assms(1) al(1) assms(4)] by blast
  then show ?thesis using t assms(3) al(2) by (simp add: do_block_write_def map_flash_error_def ubind_step uret_def)
qed

lemma length_padded: "length bs \<le> 512 \<Longrightarrow> length (padded_page bs) = 512"
  by (simp add: padded_page_def rot_consts)

definition next_block :: "'d rot_server \<Rightarrow> nat" where
  "next_block s = (case rs_next_block s of Some n \<Rightarrow> n | None \<Rightarrow> 0)"

text \<open>The first block is kept back; the page it belongs to is filled with ones instead.\<close>

lemma write_one_ok:
  assumes "ctl_ok (rc_dev C) cont row" "layout_ok (rc_layout C)" "\<not> same_image (rc_layout C) c sl"
    and st: "rs_state s = InProgress" "rs_image s = Some (c, sl)" "next_block s = k"
    and "length b \<le> 512" "k = 0 \<longrightarrow> validate_header_block (rc_layout C) c sl (padded_page b) = None"
    and fits: "fst (slot_range C c sl) + 512 * (k + 1) \<le> snd (slot_range C c sl)"
  shows "\<exists>s'. rot_write_one_block C k b False s = (UDone (), s') \<and> rs_state s' = InProgress \<and> rs_image s' = Some (c, sl) \<and> next_block s' = k + 1
    \<and> rs_next_block s' = Some (k + 1) \<and> rs_header_block s' = (if k = 0 then Some (padded_page b) else rs_header_block s)
    \<and> server_cont cont s' = programmed (slot_page C c sl + k) (page_word (if k = 0 then replicate 512 0xFF else padded_page b)) (server_cont cont s)"
proof -
  let ?page = "if k = 0 then replicate 512 0xFF else padded_page b"
  have len: "length ?page = 512" using length_padded [OF assms(7)] by simp
  obtain f' where f': "do_block_write C c sl k ?page (rs_flash s) = (UDone (), f')"
      "cont (fl_dev f') = programmed (slot_page C c sl + k) (page_word ?page) (server_cont cont s)"
    using block_write_ok [OF assms(1-3) len fits] by blast
  have "slot_ok (slot_range C c sl)" using layout_slot [OF assms(2)] .
  then have "\<not> 2 ^ 32 \<le> k + 1" using fits by (simp add: slot_ok_def rot_consts)
  then show ?thesis
    using st assms(7,8) f' by (cases "k = 0") (auto simp: rot_write_one_block_def next_block_def Let_def HEADER_BLOCK_def ROT_BLOCK_SIZE_def
      BYTES_PER_FLASH_PAGE_def on_flash_def)
qed

definition rot_writes :: "nat \<Rightarrow> u8 list list \<Rightarrow> rot_request list" where
  "rot_writes k blocks = map (\<lambda>(i, b). RotWrite i b False) (enumerate k blocks)"

definition slot_image :: "nat \<Rightarrow> u8 list list \<Rightarrow> flash_cont \<Rightarrow> flash_cont" where
  "slot_image p pages c = (\<lambda>w. if p \<le> w div 32 \<and> w div 32 < p + length pages then Some (page_word (pages ! (w div 32 - p)) (w mod 32)) else c w)"

lemma slot_image_Nil [simp]: "slot_image p [] c = c"
  unfolding slot_image_def by (rule ext) auto

lemma slot_image_Cons: "slot_image (Suc p) pages (programmed p (page_word page) c) = slot_image p (page # pages) c"
  unfolding slot_image_def programmed_def by (rule ext) (auto simp: nth_Cons' Suc_diff_Suc)

lemma writes_ok:
  assumes "ctl_ok (rc_dev C) cont row" "layout_ok (rc_layout C)" "\<not> same_image (rc_layout C) c sl"
    and "rs_state s = InProgress" "rs_image s = Some (c, sl)" "rs_next_block s = Some k" "k \<noteq> 0"
    and "\<forall>b \<in> set blocks. length b \<le> 512" "fst (slot_range C c sl) + 512 * (k + length blocks) \<le> snd (slot_range C c sl)"
  shows "\<exists>s'. rot_serve C (rot_writes k blocks @ rest) s = rot_serve C rest s' \<and> rs_state s' = InProgress \<and> rs_image s' = Some (c, sl)
    \<and> rs_next_block s' = Some (k + length blocks) \<and> rs_header_block s' = rs_header_block s
    \<and> server_cont cont s' = slot_image (slot_page C c sl + k) (map padded_page blocks) (server_cont cont s)"
  using assms(4-)
proof (induction blocks arbitrary: k s)
  case Nil
  then show ?case by (intro exI [of _ s]) (auto simp: rot_writes_def)
next
  case (Cons b blocks)
  have "fst (slot_range C c sl) + 512 * (k + 1) \<le> snd (slot_range C c sl)" using Cons.prems(6) by simp
  then obtain s1 where s1: "rot_write_one_block C k b False s = (UDone (), s1)" "rs_state s1 = InProgress" "rs_image s1 = Some (c, sl)"
      "rs_next_block s1 = Some (k + 1)" "rs_header_block s1 = rs_header_block s"
      "server_cont cont s1 = programmed (slot_page C c sl + k) (page_word (padded_page b)) (server_cont cont s)"
    using write_one_ok [OF assms(1-3) Cons.prems(1,2), of k b] Cons.prems(3-5) by (auto simp: next_block_def)
  obtain s' where s': "rot_serve C (rot_writes (k + 1) blocks @ rest) s1 = rot_serve C rest s'" "rs_state s' = InProgress" "rs_image s' = Some (c, sl)"
      "rs_next_block s' = Some (k + 1 + length blocks)" "rs_header_block s' = rs_header_block s1"
      "server_cont cont s' = slot_image (slot_page C c sl + (k + 1)) (map padded_page blocks) (server_cont cont s1)"
    using Cons.IH [OF s1(2-4)] Cons.prems(5,6) by auto
  have "rot_serve C (rot_writes k (b # blocks) @ rest) s = rot_serve C rest s'"
    using s1(1) s'(1) by (simp add: rot_writes_def)
  moreover have "server_cont cont s' = slot_image (slot_page C c sl + k) (map padded_page (b # blocks)) (server_cont cont s)"
    using s'(6) s1(6) slot_image_Cons by simp
  ultimately show ?case using s'(2-5) s1(5) by auto
qed

lemma finish_ok:
  assumes "ctl_ok (rc_dev C) cont row" "layout_ok (rc_layout C)" "\<not> same_image (rc_layout C) c sl"
    and "rs_state s = InProgress" "rs_image s = Some (c, sl)" "rs_next_block s = Some n" "n \<noteq> 0" "rs_header_block s = Some h" "length h = 512"
    and "fst (slot_range C c sl) + 512 * n < snd (slot_range C c sl)"
  shows "\<exists>s'. rot_finish_image_update C s = (UDone (), s') \<and> rs_state s' = UpFinished
    \<and> server_cont cont s' = erased (slot_page C c sl + n) (snd (slot_range C c sl) div 512 - 1) (programmed (slot_page C c sl) (page_word h) (server_cont cont s))"
proof -
  let ?r = "slot_range C c sl"
  have ok: "slot_ok ?r" using layout_slot [OF assms(2)] .
  have "fst ?r + 512 * (HEADER_BLOCK + 1) \<le> snd ?r" using assms(7,10) by (simp add: HEADER_BLOCK_def)
  then obtain f1 where f1: "do_block_write C c sl HEADER_BLOCK h (rs_flash s) = (UDone (), f1)"
      "cont (fl_dev f1) = programmed (slot_page C c sl) (page_word h) (server_cont cont s)"
    using block_write_ok [OF assms(1-3,9), of HEADER_BLOCK "rs_flash s"] by (auto simp: HEADER_BLOCK_def)
  let ?start = "fst ?r + n * 512"
  have al: "512 dvd ?start" "512 dvd snd ?r" "?start < snd ?r" "?start div 512 = slot_page C c sl + n" "\<not> 2 ^ 32 \<le> ?start"
    using ok assms(10) by (auto simp: slot_ok_def rot_consts)
  obtain f2 where f2: "flash_erase_range C ?start (snd ?r) f1 = (UDone (), f2)"
      "cont (fl_dev f2) = erased (?start div 512) (snd ?r div 512 - 1) (cont (fl_dev f1))"
    using erase_range_ok [OF assms(1) al(1-3)] by blast
  show ?thesis
    using assms(4-8) f1 f2 al(4,5)
    by (simp add: rot_finish_image_update_def Let_def BYTES_PER_FLASH_PAGE_def ubind_def on_flash_def uput_def)
qed

lemma prep_ok_rot:
  assumes "rs_state s \<noteq> InProgress" "(c, sl) \<noteq> (Stage0, SlotA)"
  shows "\<exists>s'. component_prep_image_update c sl s = (UDone (), s') \<and> rs_state s' = InProgress \<and> rs_image s' = Some (c, sl)
    \<and> rs_next_block s' = None \<and> rs_header_block s' = rs_header_block s \<and> rs_flash s' = rs_flash s"
  using assms by (auto simp: component_prep_image_update_def)

text \<open>Preparing and sending all blocks of an image.\<close>

lemma sent_ok:
  assumes "ctl_ok (rc_dev C) cont row" "layout_ok (rc_layout C)" "\<not> same_image (rc_layout C) c sl"
    and "rs_state s \<noteq> InProgress" "(c, sl) \<noteq> (Stage0, SlotA)"
    and "\<forall>b \<in> set (b # bs). length b \<le> 512" "validate_header_block (rc_layout C) c sl (padded_page b) = None"
    and "fst (slot_range C c sl) + 512 * length (b # bs) \<le> snd (slot_range C c sl)"
  shows "\<exists>s'. rot_serve C (RotPrep c sl # rot_writes 0 (b # bs) @ rest) s = rot_serve C rest s' \<and> rs_state s' = InProgress \<and> rs_image s' = Some (c, sl)
    \<and> rs_next_block s' = Some (length (b # bs)) \<and> rs_header_block s' = Some (padded_page b)
    \<and> server_cont cont s' = slot_image (slot_page C c sl) (replicate 512 0xFF # map padded_page bs) (server_cont cont s)"
proof -
  obtain s1 where s1: "component_prep_image_update c sl s = (UDone (), s1)" "rs_state s1 = InProgress" "rs_image s1 = Some (c, sl)"
      "rs_next_block s1 = None" "rs_flash s1 = rs_flash s"
    using prep_ok_rot [OF assms(4,5)] by blast
  have "fst (slot_range C c sl) + 512 * (0 + 1) \<le> snd (slot_range C c sl)" using assms(8) by simp
  then obtain s2 where s2: "rot_write_one_block C 0 b False s1 = (UDone (), s2)" "rs_state s2 = InProgress" "rs_image s2 = Some (c, sl)"
      "rs_next_block s2 = Some 1" "rs_header_block s2 = Some (padded_page b)"
      "server_cont cont s2 = programmed (slot_page C c sl) (page_word (replicate 512 0xFF)) (server_cont cont s)"
    using write_one_ok [OF assms(1-3) s1(2,3), of 0 b] assms(6,7) s1(4,5) by (auto simp: next_block_def)
  obtain s' where s': "rot_serve C (rot_writes 1 bs @ rest) s2 = rot_serve C rest s'" "rs_state s' = InProgress" "rs_image s' = Some (c, sl)"
      "rs_next_block s' = Some (1 + length bs)" "rs_header_block s' = rs_header_block s2"
      "server_cont cont s' = slot_image (slot_page C c sl + 1) (map padded_page bs) (server_cont cont s2)"
    using writes_ok [OF assms(1-3) s2(2-4), of bs rest] assms(6,8) by auto
  have "rot_serve C (RotPrep c sl # rot_writes 0 (b # bs) @ rest) s = rot_serve C rest s'"
    using s1(1) s2(1) s'(1) by (simp add: rot_writes_def)
  moreover have "server_cont cont s' = slot_image (slot_page C c sl) (replicate 512 0xFF # map padded_page bs) (server_cont cont s)"
    using s'(6) s2(6) by (simp add: slot_image_Cons)
  ultimately show ?thesis using s'(2-5) s2(5) by auto
qed

lemma le_words_replicate: "le_words (replicate (4 * n) x) = replicate n (le_u32 x x x x)"
proof (induction n)
  case (Suc n)
  have "replicate (4 * Suc n) x = x # x # x # x # replicate (4 * n) x" by (simp add: numeral_eq_Suc)
  then show ?case using Suc by simp
qed simp

lemma ones_page: "j < 32 \<Longrightarrow> page_word (replicate 512 0xFF) j = replicate 4 0xFFFFFFFF"
  using le_words_replicate [of 4 "0xFF"] by (simp add: page_word_def min_def le_u32_def)


text \<open>
  A first block that is refused does not clear the header kept from an earlier update, and yet counts as received: finishing
  installs the old header, which was checked for another slot or another image.
\<close>

theorem rot_stale_header_installed:
  assumes "ctl_ok (rc_dev C) cont row" "layout_ok (rc_layout C)" "\<not> same_image (rc_layout C) c sl"
    and "rs_state s \<noteq> InProgress" "(c, sl) \<noteq> (Stage0, SlotA)" "rs_header_block s = Some h" "length h = 512" "512 < length b"
    and "fst (slot_range C c sl) + 512 < snd (slot_range C c sl)"
    and "s' = rot_serve C [RotPrep c sl, RotWrite 0 b False, RotFinish] s"
  shows "rs_state s' = UpFinished \<and> (\<forall>w. w div 32 = slot_page C c sl \<longrightarrow> server_cont cont s' w = Some (page_word h (w mod 32)))"
proof -
  obtain s1 where s1: "component_prep_image_update c sl s = (UDone (), s1)" "rs_state s1 = InProgress" "rs_image s1 = Some (c, sl)"
      "rs_next_block s1 = None" "rs_header_block s1 = Some h" "rs_flash s1 = rs_flash s"
    using prep_ok_rot [OF assms(4,5)] assms(6) by auto
  define s2 where "s2 = s1\<lparr>rs_next_block := Some 1\<rparr>"
  have w: "rot_write_one_block C 0 b False s1 = (UFail BadLength, s2)"
    using s1(2,4) assms(8) by (simp add: rot_write_one_block_def Let_def rot_consts s2_def)
  have s2: "rs_state s2 = InProgress" "rs_image s2 = Some (c, sl)" "rs_next_block s2 = Some 1" "rs_header_block s2 = Some h"
    using s1 by (simp_all add: s2_def)
  obtain s3 where s3: "rot_finish_image_update C s2 = (UDone (), s3)" "rs_state s3 = UpFinished"
      "server_cont cont s3 = erased (slot_page C c sl + 1) (snd (slot_range C c sl) div 512 - 1) (programmed (slot_page C c sl) (page_word h) (server_cont cont s2))"
    using finish_ok [OF assms(1-3) s2(1-3) _ s2(4) assms(7)] assms(9) by auto
  have "s' = s3" using assms(10) s1(1) w s3(1) by simp
  then show ?thesis using s3(2,3) by (simp add: erased_def programmed_def)
qed

subsection \<open>The slot to boot from\<close>

definition holds_page :: "flash_cont \<Rightarrow> nat \<Rightarrow> u32 list list \<Rightarrow> bool" where
  "holds_page c base ws \<longleftrightarrow> length ws = 32 \<and> (\<forall>k < 32. c (base + k) = Some (ws ! k))"

lemma read_words_ok:
  assumes "ctl_ok D cont row" "\<forall>k < n. cont (fl_dev f) (wn + k) = Some (ws k)"
  shows "\<exists>f'. indirect_flash_read_words D wn n f = (UDone (map ws [0..<n]), f') \<and> cont (fl_dev f') = cont (fl_dev f)"
  using assms(2)
proof (induction n arbitrary: wn ws f)
  case 0
  then show ?case by (simp add: uret_def)
next
  case (Suc n)
  from completes_irq [OF ctl_okD(4) [OF assms(1), of wn "fl_dev f"]] Suc.prems
  obtain st f1 f2 where r: "flash_start D (ReadSingleWord wn) f = (UDone (), f1)" "flash_waited (wait_irq D) f1 = (UDone st, f2)"
      "poll_read_result st = None" "map (rd_dataw D (fl_dev f2)) [0..<4] = ws 0" "cont (fl_dev f2) = cont (fl_dev f)"
    by (fastforce dest: spec [of _ 0])
  have "\<forall>k < n. cont (fl_dev f2) (Suc wn + k) = Some (ws (Suc k))" using Suc.prems r(5) by auto
  then obtain f' where f': "indirect_flash_read_words D (Suc wn) n f2 = (UDone (map (\<lambda>k. ws (Suc k)) [0..<n]), f')" "cont (fl_dev f') = cont (fl_dev f2)"
    using Suc.IH [of f2 "Suc wn" "\<lambda>k. ws (Suc k)"] by blast
  have "indirect_flash_read_words D wn (Suc n) f = (UDone (ws 0 # map (\<lambda>k. ws (Suc k)) [0..<n]), f')"
    using r(1-3) f'(1) r(4) by (simp add: indirect_flash_read_words.simps(2) ubind_step read_dataw_def uret_def del: upt_Suc)
  moreover have "map ws [0..<Suc n] = ws 0 # map (\<lambda>k. ws (Suc k)) [0..<n]" by (simp add: upt_conv_Cons map_Suc_upt [symmetric] del: upt_Suc)
  ultimately show ?case using f'(2) r(5) by auto
qed

lemma read_one_ok:
  assumes "ctl_ok D cont row" "cont (fl_dev f) wn = Some ws"
  shows "\<exists>f'. indirect_flash_read_words D wn 1 f = (UDone [ws], f') \<and> cont (fl_dev f') = cont (fl_dev f)"
  using read_words_ok [OF assms(1), of 1 f wn "\<lambda>_. ws"] assms(2) by simp

lemma read_erased:
  assumes "ctl_ok D cont row" "cont (fl_dev f) wn = None"
  shows "\<exists>f'. indirect_flash_read_words D wn 1 f = (UFail EccDoubleErr, f') \<and> cont (fl_dev f') = cont (fl_dev f)"
proof -
  from completes_irq [OF ctl_okD(4) [OF assms(1), of wn "fl_dev f"]] assms(2)
  obtain st f1 f2 where "flash_start D (ReadSingleWord wn) f = (UDone (), f1)" "flash_waited (wait_irq D) f1 = (UDone st, f2)"
      "st_ecc_err st" "cont (fl_dev f2) = cont (fl_dev f)" by auto
  then show ?thesis by (simp add: indirect_flash_read_words.simps(2) ubind_step poll_read_result_def ufail_def)
qed

text \<open>Words and their bytes.\<close>

lemma le_u32_bytes: "le_u32 (ucast w) (ucast (drop_bit 8 w)) (ucast (drop_bit 16 w)) (ucast (drop_bit 24 w)) = w"
proof (rule bit_word_eqI)
  fix n assume "n < LENGTH(32)"
  then consider "n < 8" | "8 \<le> n" "n < 16" | "16 \<le> n" "n < 24" | "24 \<le> n" "n < 32" by fastforce
  then show "bit (le_u32 (ucast w) (ucast (drop_bit 8 w)) (ucast (drop_bit 16 w)) (ucast (drop_bit 24 w))) n = bit w n"
    by cases (auto simp: le_u32_def bit_simps)
qed

lemma le_words_bytes: "le_words (words_bytes ws) = ws"
proof (induction ws)
  case (Cons w ws)
  have "word_bytes w = [ucast w, ucast (drop_bit 8 w), ucast (drop_bit 16 w), ucast (drop_bit 24 w)]"
    by (simp add: word_bytes_def upt_rec)
  then show ?case using Cons by (simp add: words_bytes_def le_u32_bytes)
qed (simp add: words_bytes_def)

lemma nth_concat_blocks: "\<forall>x \<in> set xs. length x = n \<Longrightarrow> k < length xs \<Longrightarrow> take n (drop (n * k) (concat xs)) = xs ! k"
proof (induction xs arbitrary: k)
  case (Cons x xs)
  then show ?case by (cases k) auto
qed simp

lemma length_concat_const: "\<forall>x \<in> set xs. length x = n \<Longrightarrow> length (concat xs) = n * length xs"
  by (induction xs) auto

lemma length_words_bytes: "length (words_bytes ws) = 4 * length ws"
  by (induction ws) (simp_all add: words_bytes_def word_bytes_def)

lemma page_word_words:
  assumes "\<forall>w \<in> set ws. length w = 4" "k < length ws"
  shows "page_word (words_bytes (concat ws)) k = ws ! k"
proof -
  have "words_bytes (concat ws) = concat (map words_bytes ws)" by (induction ws) (simp_all add: words_bytes_def)
  moreover have "take 16 (drop (16 * k) (concat (map words_bytes ws))) = map words_bytes ws ! k"
    by (rule nth_concat_blocks) (use assms in \<open>auto simp: length_words_bytes\<close>)
  ultimately show ?thesis using assms(2) by (simp add: page_word_def le_words_bytes)
qed

text \<open>The pages in force, and what they and the scratch page say.\<close>

definition cfpa_pages :: "flash_cont \<Rightarrow> u32 list list \<Rightarrow> u32 list list \<Rightarrow> bool" where
  "cfpa_pages c ping pong \<longleftrightarrow> holds_page c CFPA_PING_FLASH_WORD ping \<and> holds_page c CFPA_PONG_FLASH_WORD pong
    \<and> (\<forall>w \<in> set (ping @ pong). length w = 4)
    \<and> (c CFPA_SCRATCH_FLASH_WORD = None \<or> (\<exists>scratch. holds_page c CFPA_SCRATCH_FLASH_WORD scratch))"

definition in_force :: "u32 list list \<Rightarrow> u32 list list \<Rightarrow> nat \<times> u32 list list" where
  "in_force ping pong = (if pong ! 0 ! 1 \<le> ping ! 0 ! 1 then (CFPA_PING_FLASH_WORD, ping) else (CFPA_PONG_FLASH_WORD, pong))"

definition page_preference :: "u32 list list \<Rightarrow> RotSlot" where
  "page_preference page = boot_preference_from_flash_word (page ! BOOT_PREFERENCE_FLASH_WORD_OFFSET)"

definition pending_of :: "flash_cont \<Rightarrow> u32 \<Rightarrow> RotSlot option" where
  "pending_of c version =
     (case c CFPA_SCRATCH_FLASH_WORD of
        None \<Rightarrow> None
      | Some header \<Rightarrow>
          if version < header ! 1 then Some (boot_preference_from_flash_word (the (c (CFPA_SCRATCH_FLASH_WORD + BOOT_PREFERENCE_FLASH_WORD_OFFSET))))
          else None)"

lemma holds_word: "holds_page c base ws \<Longrightarrow> k < 32 \<Longrightarrow> c (base + k) = Some (ws ! k)"
  by (simp add: holds_page_def)

lemma cfpa_version_ok:
  assumes "ctl_ok (rc_dev C) cont row" "cfpa_pages (cont (fl_dev f)) ping pong"
  shows "\<exists>f'. cfpa_word_number_and_version C CfpaPageActive f = (UDone (fst (in_force ping pong), snd (in_force ping pong) ! 0 ! 1), f') \<and> cont (fl_dev f') = cont (fl_dev f)"
    "\<exists>f'. cfpa_word_number_and_version C CfpaPageInactive f = (UDone (CFPA_PONG_FLASH_WORD, pong ! 0 ! 1), f') \<and> cont (fl_dev f') = cont (fl_dev f)"
proof -
  have "cont (fl_dev f) CFPA_PING_FLASH_WORD = Some (ping ! 0)" "cont (fl_dev f) CFPA_PONG_FLASH_WORD = Some (pong ! 0)"
    using assms(2) holds_word [of _ _ _ 0] by (fastforce simp: cfpa_pages_def)+
  then obtain f1 f2 where "indirect_flash_read_words (rc_dev C) CFPA_PING_FLASH_WORD 1 f = (UDone [ping ! 0], f1)" "cont (fl_dev f1) = cont (fl_dev f)"
      "indirect_flash_read_words (rc_dev C) CFPA_PONG_FLASH_WORD 1 f1 = (UDone [pong ! 0], f2)" "cont (fl_dev f2) = cont (fl_dev f1)"
    using read_one_ok [OF assms(1)] by metis
  then show "\<exists>f'. cfpa_word_number_and_version C CfpaPageActive f = (UDone (fst (in_force ping pong), snd (in_force ping pong) ! 0 ! 1), f') \<and> cont (fl_dev f') = cont (fl_dev f)"
    "\<exists>f'. cfpa_word_number_and_version C CfpaPageInactive f = (UDone (CFPA_PONG_FLASH_WORD, pong ! 0 ! 1), f') \<and> cont (fl_dev f') = cont (fl_dev f)"
    by (auto simp: cfpa_word_number_and_version_def ubind_step uret_def in_force_def)
qed

lemma boot_preferences_ok:
  assumes "ctl_ok (rc_dev C) cont row" "cfpa_pages (cont (fl_dev f)) ping pong"
  defines "page \<equiv> snd (in_force ping pong)"
  shows "\<exists>f'. boot_preferences C f = (UDone (page_preference page, pending_of (cont (fl_dev f)) (page ! 0 ! 1), None), f') \<and> cont (fl_dev f') = cont (fl_dev f)"
proof -
  let ?c = "cont (fl_dev f)" and ?w = "fst (in_force ping pong)" and ?o = BOOT_PREFERENCE_FLASH_WORD_OFFSET
  obtain f1 where f1: "cfpa_word_number_and_version C CfpaPageActive f = (UDone (?w, page ! 0 ! 1), f1)" "cont (fl_dev f1) = ?c"
    using cfpa_version_ok(1) [OF assms(1,2)] unfolding page_def by blast
  have "holds_page ?c ?w page" using assms(2) unfolding page_def by (simp add: in_force_def cfpa_pages_def)
  then have "cont (fl_dev f1) (?w + ?o) = Some (page ! ?o)" unfolding f1(2) by (rule holds_word) (simp add: rot_consts)
  then obtain f2 where f2: "indirect_flash_read_words (rc_dev C) (?w + ?o) 1 f1 = (UDone [page ! ?o], f2)" "cont (fl_dev f2) = ?c"
    using read_one_ok [OF assms(1)] f1(2) by metis
  show ?thesis
  proof (cases "?c CFPA_SCRATCH_FLASH_WORD")
    case None
    then obtain f3 where "indirect_flash_read_words (rc_dev C) CFPA_SCRATCH_FLASH_WORD 1 f2 = (UFail EccDoubleErr, f3)" "cont (fl_dev f3) = ?c"
      using read_erased [OF assms(1)] f2(2) by metis
    then show ?thesis using f1(1) f2(1) None
      by (simp add: boot_preferences_def ubind_step utry_def ubind_def [of "utry m" for m] uret_def pending_of_def page_preference_def)
  next
    case (Some header)
    then obtain scratch where scr: "holds_page ?c CFPA_SCRATCH_FLASH_WORD scratch" using assms(2) by (auto simp: cfpa_pages_def)
    have h: "?c (CFPA_SCRATCH_FLASH_WORD + ?o) = Some (scratch ! ?o)" by (rule holds_word [OF scr]) (simp add: rot_consts)
    obtain f3 where f3: "indirect_flash_read_words (rc_dev C) CFPA_SCRATCH_FLASH_WORD 1 f2 = (UDone [header], f3)" "cont (fl_dev f3) = ?c"
      using read_one_ok [OF assms(1)] f2(2) Some by metis
    obtain f4 where f4: "indirect_flash_read_words (rc_dev C) (CFPA_SCRATCH_FLASH_WORD + ?o) 1 f3 = (UDone [scratch ! ?o], f4)" "cont (fl_dev f4) = ?c"
      using read_one_ok [OF assms(1)] f3(2) h by metis
    have "boot_preferences C f = (if page ! 0 ! 1 < header ! 1 then (UDone (page_preference page, Some (boot_preference_from_flash_word (scratch ! ?o)), None), f4)
        else (UDone (page_preference page, None, None), f3))"
      using f1(1) f2(1) f3(1) f4(1)
      by (simp add: boot_preferences_def ubind_step utry_def ubind_def [of "utry m" for m] uret_def page_preference_def)
    then show ?thesis using Some h f3(2) f4(2) by (auto simp: pending_of_def)
  qed
qed

lemma new_cfpa_cells:
  assumes "length cfpa = 32" "\<forall>w \<in> set cfpa. length w = 4" "length (rc_sha256 C (concat (take 30 (set_cell (set_cell cfpa 16 0 b) 0 1 v)))) = 8"
    and "b = (cfpa ! 16 ! 0 AND NOT 1) OR nb"
  shows "length (new_cfpa C cfpa nb v) = 32" "\<forall>w \<in> set (new_cfpa C cfpa nb v). length w = 4"
    "new_cfpa C cfpa nb v ! 0 ! 1 = v" "new_cfpa C cfpa nb v ! 16 ! 0 = b"
proof -
  define c2 where "c2 = set_cell (set_cell cfpa 16 0 b) 0 1 v"
  have n: "new_cfpa C cfpa nb v = c2[30 := take 4 (rc_sha256 C (concat (take 30 c2))), 31 := drop 4 (rc_sha256 C (concat (take 30 c2)))]"
    by (simp add: new_cfpa_def Let_def BOOT_PREFERENCE_FLASH_WORD_OFFSET_def c2_def assms(4))
  have l: "length (cfpa ! i) = 4" if "i < 32" for i using that assms(1,2) by simp
  have c2: "length c2 = 32" "\<forall>w \<in> set c2. length w = 4"
    using assms(1,2) l by (auto simp: c2_def set_cell_def dest!: in_set_conv_nth [THEN iffD1] set_update_subset_insert [THEN subsetD])
  show "length (new_cfpa C cfpa nb v) = 32" using n c2(1) by simp
  have "set (new_cfpa C cfpa nb v) \<subseteq> insert (drop 4 (rc_sha256 C (concat (take 30 c2)))) (insert (take 4 (rc_sha256 C (concat (take 30 c2)))) (set c2))"
    unfolding n by (meson insert_mono order_trans set_update_subset_insert)
  then show "\<forall>w \<in> set (new_cfpa C cfpa nb v). length w = 4" using c2(2) assms(3) unfolding c2_def [symmetric] by auto
  show "new_cfpa C cfpa nb v ! 0 ! 1 = v" "new_cfpa C cfpa nb v ! 16 ! 0 = b"
    using assms(1) l [of 0] l [of 16] unfolding n by (simp_all add: c2_def set_cell_def)
qed

lemma scratch_words:
  assumes "length ws = 32" "\<forall>w \<in> set ws. length w = 4"
  shows "holds_page (programmed (CFPA_SCRATCH_FLASH_ADDR div 512) (page_word (words_bytes (concat ws))) c) CFPA_SCRATCH_FLASH_WORD ws"
proof -
  have "(40416 + k) mod 32 = k" "(40416 + k) div 32 = 1263" if "k < 32" for k :: nat
    using that mod_mult_self4 [of 32 1263 k] div_mult_self4 [of 32 1263 k] by simp_all
  then show ?thesis using assms page_word_words [OF assms(2)] by (simp add: holds_page_def programmed_def rot_consts)
qed


text \<open>
  The page that is not in force cannot be read when the second page is the newer one: the second page is returned.
\<close>

theorem rot_inactive_page:
  assumes "ctl_ok (rc_dev C) cont row" "cfpa_pages (cont (fl_dev f)) ping pong" "ping ! 0 ! 1 < pong ! 0 ! 1"
  shows "\<exists>f1 f2. cfpa_word_number_and_version C CfpaPageActive f = (UDone (CFPA_PONG_FLASH_WORD, pong ! 0 ! 1), f1)
    \<and> cfpa_word_number_and_version C CfpaPageInactive f = (UDone (CFPA_PONG_FLASH_WORD, pong ! 0 ! 1), f2)"
  using cfpa_version_ok [OF assms(1,2)] assms(3) by (auto simp: in_force_def)

subsection \<open>A controller that works\<close>

record ideal_rot =
  ideal_words :: flash_cont
  ideal_rows :: "nat \<Rightarrow> u8 list"
  ideal_status :: flash_status
  ideal_data :: "u32 list"

definition norm_list :: "nat \<Rightarrow> 'a list \<Rightarrow> 'a list" where
  "norm_list n xs = map (\<lambda>i. xs ! i) [0..<n]"

definition ideal_cont :: "ideal_rot \<Rightarrow> flash_cont" where
  "ideal_cont d w = map_option (norm_list 4) (ideal_words d w)"

definition ideal_row :: "ideal_rot \<Rightarrow> nat \<Rightarrow> u8 list" where
  "ideal_row d i = norm_list 16 (ideal_rows d i)"

definition status_ok :: flash_status where
  "status_ok = \<lparr>st_ecc_err = False, st_err = False, st_fail = False\<rparr>"

fun ideal_start :: "rot_cmd \<Rightarrow> ideal_rot \<Rightarrow> ideal_rot" where
  "ideal_start (EraseRange a b) d = d\<lparr>ideal_words := erased (a div 32) (b div 32) (ideal_words d), ideal_status := status_ok\<rparr>"
| "ideal_start (WriteRow i bs) d = d\<lparr>ideal_rows := (ideal_rows d)(i := bs), ideal_status := status_ok\<rparr>"
| "ideal_start (Program p) d = d\<lparr>ideal_words := programmed (p div 32) (\<lambda>i. le_words (ideal_row d i)) (ideal_words d), ideal_status := status_ok\<rparr>"
| "ideal_start (ReadSingleWord w) d =
     (case ideal_cont d w of
        None \<Rightarrow> d\<lparr>ideal_status := status_ok\<lparr>st_ecc_err := True\<rparr>\<rparr>
      | Some ws \<Rightarrow> d\<lparr>ideal_status := status_ok, ideal_data := ws\<rparr>)"
| "ideal_start (BlankCheck a b) d = d\<lparr>ideal_status := status_ok\<rparr>"

definition ideal_dev :: "ideal_rot rot_dev" where
  "ideal_dev = \<lparr>rd_start = ideal_start, rd_status = (\<lambda>d. Some (ideal_status d)), rd_dataw = (\<lambda>d i. ideal_data d ! i), rd_spin = id, rd_irq = Some\<rparr>"

lemma norm_list_same: "length xs = n \<Longrightarrow> norm_list n xs = xs"
  unfolding norm_list_def using map_nth [of xs] by simp

lemma length_le_words16: "length xs = 16 \<Longrightarrow> length (le_words xs) = 4"
proof -
  have "length (le_words xs) = length xs div 4" by (induction xs rule: le_words.induct) auto
  then show "length xs = 16 \<Longrightarrow> length (le_words xs) = 4" by simp
qed

lemma ideal_completes: "completes ideal_dev c d Q \<longleftrightarrow> Q (ideal_status (ideal_start c d)) (ideal_start c d)"
  by (simp add: completes_def ideal_dev_def wait_irq.simps wait_spin.simps)

lemma ideal_ok: "ctl_ok ideal_dev ideal_cont ideal_row"
proof -
  have e: "ideal_cont (ideal_start (EraseRange a b) d) = erased (a div 32) (b div 32) (ideal_cont d)" for a b d
    by (rule ext) (simp add: ideal_cont_def erased_def)
  have w: "ideal_row (ideal_start (WriteRow i bs) d) = (ideal_row d)(i := bs)" if "length bs = 16" for i bs d
    using norm_list_same [OF that] by (auto simp: ideal_row_def)
  have "norm_list 4 (le_words (ideal_row d i)) = le_words (ideal_row d i)" for d i
    by (intro norm_list_same length_le_words16) (simp add: ideal_row_def norm_list_def)
  then have p: "ideal_cont (ideal_start (Program q) d) = programmed (q div 32) (\<lambda>i. le_words (ideal_row d i)) (ideal_cont d)" for q d
    by (intro ext) (simp add: ideal_cont_def programmed_def)
  have r: "ideal_cont (ideal_start (ReadSingleWord q) d) = ideal_cont d" for q d
    by (rule ext) (simp add: ideal_cont_def split: option.split)
  have "map ((!) ws) [0..<4] = ws" if "ideal_cont d q = Some ws" for d q ws
    using that map_nth [of ws] by (auto simp: ideal_cont_def norm_list_def)
  then show ?thesis
    unfolding ctl_ok_def ideal_completes using e w p r
    by (auto simp: ideal_dev_def status_ok_def poll_read_result_def ideal_cont_def [of "d\<lparr>ideal_rows := x, ideal_status := y\<rparr>" for d x y]
        ideal_cont_def [of d for d] split: option.split)
qed

subsection \<open>A part with the layout of the chip\<close>

definition chip_layout :: rot_layout where
  "chip_layout = \<lparr>lay_a = (0x10000, 0x50000), lay_b = (0x50000, 0x90000), lay_stage0 = (0, 0x2000), lay_stage0next = (0x2000, 0x4000),
     lay_this = 0x10000\<rparr>"

definition signed_image :: RotImageDetailsV2 where
  "signed_image = \<lparr>img_digest = [], img_status = Inr ()\<rparr>"

definition chip :: "'d rot_dev \<Rightarrow> 'd rot_ctx" where
  "chip D = \<lparr>rc_dev = D, rc_layout = chip_layout,
     rc_bootstate = Inr \<lparr>boot_active = SlotA, boot_a = signed_image, boot_b = signed_image, boot_stage0 = signed_image, boot_stage0next = signed_image\<rparr>,
     rc_sha256 = (\<lambda>_. replicate 8 0), rc_sha3 = (\<lambda>_. [])\<rparr>"

lemma chip_simps [simp]: "rc_dev (chip D) = D" "rc_layout (chip D) = chip_layout" "rc_sha256 (chip D) = (\<lambda>_. replicate 8 0)" "rc_sha3 (chip D) = (\<lambda>_. [])"
  by (simp_all add: chip_def)

lemma chip_layout_ok: "layout_ok chip_layout"
  by (simp add: layout_ok_def chip_layout_def slot_ok_def apart_def rot_consts)

definition ideal_flash0 :: "ideal_rot rot_flash" where
  "ideal_flash0 = \<lparr>fl_dev = \<lparr>ideal_words = \<lambda>w. Some (replicate 4 0), ideal_rows = \<lambda>i. [], ideal_status = status_ok, ideal_data = []\<rparr>, fl_log = []\<rparr>"

definition small_header :: "u8 list" where
  "small_header = (replicate 512 0)[6 := 5, 0x130 := 0xCA, 0x131 := 0xD6, 0x132 := 0xCE, 0x133 := 0x64]"


lemma small_header_ok: "validate_header_block chip_layout Hubris SlotB (padded_page small_header) = None" "length small_header = 512"
proof -
  show l: "length small_header = 512" by (simp add: small_header_def)
  have n: "small_header ! i = (if i = 6 then 5 else if i = 0x130 then 0xCA else if i = 0x131 then 0xD6 else if i = 0x132 then 0xCE else if i = 0x133 then 0x64 else 0)" if "i < 512" for i
    using that by (simp add: small_header_def nth_list_update)
  have p: "padded_page small_header = small_header" using l by (simp add: padded_page_def rot_consts)
  show "validate_header_block chip_layout Hubris SlotB (padded_page small_header) = None"
    unfolding p by (simp add: validate_header_block_def Let_def le_word_at_def n rot_consts chip_layout_def le_u32_def HEADER_MAGIC_def)
qed


lemma flash0_pages: "cfpa_pages (ideal_cont (fl_dev ideal_flash0)) (replicate 32 (replicate 4 0)) (replicate 32 (replicate 4 0))"
proof -
  have "ideal_cont (fl_dev ideal_flash0) w = Some (replicate 4 0)" for w
    by (simp add: ideal_cont_def ideal_flash0_def norm_list_same)
  then have "holds_page (ideal_cont (fl_dev ideal_flash0)) base (replicate 32 (replicate 4 0))" for base by (simp add: holds_page_def)
  then show ?thesis by (auto simp: cfpa_pages_def)
qed


text \<open>A controller that answers every read with the same word, the length of one page.\<close>

definition same_dev :: "unit rot_dev" where
  "same_dev = \<lparr>rd_start = (\<lambda>_ d. d), rd_status = (\<lambda>_. Some status_ok), rd_dataw = (\<lambda>_ _. 512), rd_spin = id, rd_irq = Some\<rparr>"

lemma same_waits: "wait_irq same_dev d = Some (status_ok, d)" "wait_spin same_dev d = Some (status_ok, d)"
  by (simp_all add: same_dev_def wait_irq.simps wait_spin.simps)

lemma same_steps:
  "flash_waited (wait_irq same_dev) f = (UDone status_ok, f)" "flash_waited (wait_spin same_dev) f = (UDone status_ok, f)"
  "read_dataw same_dev f = (UDone (replicate 4 512), f)" "flash_start same_dev c f = (UDone (), f\<lparr>fl_log := fl_log f @ [c]\<rparr>)" "poll_read_result status_ok = None"
  by (simp_all add: flash_waited_def same_waits read_dataw_def flash_start_def poll_read_result_def status_ok_def)
    (simp_all add: same_dev_def map_replicate_const)

lemma same_word: "indirect_flash_read_words same_dev wn 1 f = (UDone [replicate 4 512], f\<lparr>fl_log := fl_log f @ [ReadSingleWord wn]\<rparr>)"
  by (simp add: indirect_flash_read_words.simps(2) ubind_def same_steps uret_def)

lemma same_read:
  assumes "16 * a + 16 * k \<le> 2 ^ 22"
  shows "\<exists>f'. indirect_flash_read same_dev (16 * a) (16 * k) f = (UDone (None, words_bytes (replicate (4 * k) 512)), f')"
  using assms
proof (induction k arbitrary: a f)
  case 0
  then show ?case by (simp add: indirect_flash_read.simps uret_def words_bytes_def)
next
  case (Suc k)
  have w: "16 * a div 16 mod 2 ^ 18 = a" using Suc.prems by simp
  obtain f1 where f1: "indirect_flash_read_words same_dev a 1 f = (UDone [replicate 4 512], f1)" using same_word by blast
  obtain f2 where f2: "indirect_flash_read same_dev (16 * (a + 1)) (16 * k) f1 = (UDone (None, words_bytes (replicate (4 * k) 512)), f2)"
    using Suc.IH [of "a + 1" f1] Suc.prems by auto
  have "take 16 (words_bytes (replicate 4 512)) = words_bytes (replicate 4 512)" by (simp add: length_words_bytes)
  moreover have "words_bytes (replicate (4 * Suc k) 512) = words_bytes (replicate 4 512) @ words_bytes (replicate (4 * k) 512)"
    by (simp add: words_bytes_def replicate_add)
  ultimately show ?case using Suc.prems f1 f2 w
    by (subst indirect_flash_read.simps) (simp add: ubind_step utry_def Let_def uret_def ubind_def [of "utry m" for m] algebra_simps)
qed

lemma words_bytes_append: "words_bytes (xs @ ys) = words_bytes xs @ words_bytes ys"
  by (simp add: words_bytes_def)

lemma le_word_at_bytes: "le_word_at (take 4 (words_bytes (replicate 4 w))) 0 = w"
proof -
  have "replicate 4 w = w # replicate 3 w" by (simp add: numeral_eq_Suc)
  moreover have "word_bytes w = [ucast w, ucast (drop_bit 8 w), ucast (drop_bit 16 w), ucast (drop_bit 24 w)]"
    by (simp add: word_bytes_def upt_rec)
  ultimately show ?thesis by (simp add: words_bytes_def le_word_at_def le_u32_bytes)
qed

lemma same_image_len:
  assumes "16 dvd fst span" "fst span + 0x20 < 2 ^ 22" "512 \<le> snd span - fst span"
  shows "\<exists>f'. flash_image_len (chip same_dev) span f = (UDone 512, f')"
proof -
  obtain a where a: "fst span + 0x20 = 16 * a" using dvd_add [OF assms(1), of 32] by (auto elim: dvdE)
  have "16 * a div 16 mod 2 ^ 18 = a" using a assms(2) by simp
  then have "\<exists>f'. indirect_flash_read same_dev (16 * a) 4 f = (UDone (None, take 4 (words_bytes (replicate 4 512))), f')"
    using same_word [of a f] a assms(2)
    by (subst indirect_flash_read.simps)
      (simp add: ubind_step utry_def Let_def uret_def ubind_def [of "utry m" for m] indirect_flash_read.simps [of _ _ 0] ubind_def)
  then show ?thesis using assms(2,3) a le_word_at_bytes [of 512]
    by (auto simp: flash_image_len_def LENGTH_OFFSET_def read_bytes_def ubind_step uret_def round_up_to_flash_page_def rot_consts Let_def ubind_def)
qed

lemma same_cache: "load_cache (words_bytes (replicate 128 512)) (replicate 2048 0) = replicate 128 512 @ replicate 1920 0"
proof -
  have "replicate 2048 (0 :: u32) = replicate 128 0 @ replicate 1920 0" by (simp add: replicate_add [symmetric])
  then have "drop 512 (words_bytes (replicate 2048 0)) = words_bytes (replicate 1920 0)" by (simp add: words_bytes_append length_words_bytes)
  then show ?thesis by (simp add: load_cache_def length_words_bytes words_bytes_append [symmetric] le_words_bytes)
qed

definition same_server :: "unit rot_server" where
  "same_server = rot_main \<lparr>fl_dev = (), fl_log = []\<rparr>"

lemma same_reads_image:
  "\<exists>s'. read_flash_image_to_cache (chip same_dev) (0x2000, 0x4000) same_server = (UDone 512, s') \<and> rs_fw_cache s' = replicate 128 512 @ replicate 1920 0"
proof -
  obtain f1 where f1: "flash_image_len (chip same_dev) (0x2000, 0x4000) (rs_flash same_server) = (UDone 512, f1)"
    using same_image_len [of "(0x2000, 0x4000)"] by auto
  obtain f2 where f2: "indirect_flash_read same_dev 0x2000 512 f1 = (UDone (None, words_bytes (replicate 128 512)), f2)"
    using same_read [of "0x200" 32 f1] by auto
  have "rs_fw_cache same_server = replicate 2048 0" by (simp add: same_server_def rot_main_def rot_consts)
  then show ?thesis using f1 f2 same_cache
    by (simp add: read_flash_image_to_cache_def Let_def chip_layout_def ubind_def on_flash_def uget_def uput_def uret_def)
qed

lemma same_compare:
  assumes "rs_fw_cache s = replicate 128 512 @ replicate 1920 0"
  shows "\<exists>s'. compare_cache_to_flash (chip same_dev) (0, 0x2000) s = (UDone (), s')"
proof -
  let ?b = "words_bytes (replicate 128 512 @ replicate 1920 0)"
  have "take 512 ?b = words_bytes (replicate 128 512)" by (simp add: words_bytes_append length_words_bytes)
  moreover obtain f1 where f1: "flash_image_len (chip same_dev) (0, 0x2000) (rs_flash s) = (UDone 512, f1)"
    using same_image_len [of "(0, 0x2000)"] by auto
  moreover obtain f2 where f2: "indirect_flash_read same_dev 0 512 f1 = (UDone (None, words_bytes (replicate 128 512)), f2)"
    using same_read [of 0 32 f1] by auto
  moreover have "cache_image_len (rs_fw_cache s) = Some 512"
    unfolding assms by (simp add: cache_image_len_def round_up_to_flash_page_def rot_consts nth_append)
  ultimately show ?thesis
    using assms by (simp add: compare_cache_to_flash_def ubind_def uget_def on_flash_def rot_consts read_bytes_def uret_def length_words_bytes)
qed

lemma same_erase:
  "\<exists>s'. on_flash (flash_erase_range (chip same_dev) 512 0x2000) s = (UDone (), s') \<and> server_log s' = server_log s @ [EraseRange 32 511]"
proof -
  have "poll_erase_or_program_result status_ok = FlashOk" by (simp add: poll_erase_or_program_result_def status_ok_def)
  then show ?thesis
    by (simp add: on_flash_def flash_erase_range_def rot_consts ubind_def same_steps map_flash_error_def uret_def)
qed

lemma same_switch:
  "\<exists>s'. rot_step (chip same_dev) (RotSwitch Stage0 SlotB Forever) same_server = (UDone (), s') \<and> EraseRange 32 511 \<in> set (server_log s')"
proof -
  obtain s1 where s1: "read_flash_image_to_cache (chip same_dev) (0x2000, 0x4000) same_server = (UDone 512, s1)"
    and c: "rs_fw_cache s1 = replicate 128 512 @ replicate 1920 0" using same_reads_image by auto
  obtain s2 where s2: "compare_cache_to_flash (chip same_dev) (0, 0x2000) s1 = (UDone (), s2)" using same_compare [OF c] by auto
  obtain s3 where s3: "on_flash (flash_erase_range (chip same_dev) 512 0x2000) s2 = (UDone (), s3)" "EraseRange 32 511 \<in> set (server_log s3)"
    using same_erase [of s2] by auto
  have v: "rc_bootstate (chip same_dev) = Inr b \<Longrightarrow> validated (chip same_dev) b bs" for b bs
    by (auto simp: chip_def validated_def signed_image_def)
  obtain b where b: "rc_bootstate (chip same_dev) = Inr b" by (simp add: chip_def)
  show ?thesis using s1 s2 s3 v [OF b] b
    by (simp add: component_switch_default_image_def switch_default_boot_image_def Let_def chip_layout_def ubind_def uget_def utry_def uret_def)
qed

theorem rot_bootloader_validated_witness:
  "\<exists>s' b len. rot_step (chip same_dev) (RotSwitch Stage0 SlotB Forever) same_server = (UDone (), s') \<and> EraseRange 32 511 \<in> set (server_log s')
    \<and> rc_bootstate (chip same_dev) = Inr b \<and> validated (chip same_dev) b (take len (words_bytes (rs_fw_cache s')))"
proof -
  obtain s' where s': "rot_step (chip same_dev) (RotSwitch Stage0 SlotB Forever) same_server = (UDone (), s')" "EraseRange 32 511 \<in> set (server_log s')"
    using same_switch by blast
  have srv: "same_server = rot_serve (chip same_dev) [] (rot_main \<lparr>fl_dev = (), fl_log = []\<rparr>)" by (simp add: same_server_def)
  have log: "server_log s' = server_log same_server @ server_log s'" by (simp add: same_server_def rot_main_def)
  show ?thesis
    using s' rot_bootloader_validated [OF _ srv s'(1) log s'(2), of 32] chip_layout_ok by (auto simp: in_range_def chip_layout_def)
qed

end
