(* ===== verification/Task_Thermal.thy ===== *)
theory Task_Thermal
  imports Task_Sensor
begin

section \<open>The thermal control loop\<close>

text \<open>
  \<^verbatim>\<open>task/thermal\<close> with the types of \<^verbatim>\<open>task/thermal-api\<close>: temperatures are read from the sensor task,
  fans are driven by a one-sided PID controller, and power is cut when a part overheats. Numbers
  are IEEE singles as bit patterns; comparison, \<^verbatim>\<open>min\<close>, \<^verbatim>\<open>max\<close>, negation and the conversion to a byte
  are written out, the arithmetic of the processor is the record \<open>f32_arith\<close>, about which nothing is
  assumed. The board (channels, fans, power states, fan controllers) is a configuration record and,
  for each cycle of the loop, a record of its answers. A function that may panic yields \<open>None\<close>.
\<close>

subsection \<open>Numbers\<close>

record f32_arith =
  f_add :: "f32 \<Rightarrow> f32 \<Rightarrow> f32"
  f_sub :: "f32 \<Rightarrow> f32 \<Rightarrow> f32"
  f_mul :: "f32 \<Rightarrow> f32 \<Rightarrow> f32"
  f_div :: "f32 \<Rightarrow> f32 \<Rightarrow> f32"
  f_of_u64 :: "u64 \<Rightarrow> f32"

definition f32_zero :: f32 where "f32_zero = 0"
definition f32_one :: f32 where "f32_one = 0x3F800000"
definition f32_hundred :: f32 where "f32_hundred = 0x42C80000"
definition f32_thousand :: f32 where "f32_thousand = 0x447A0000"

definition f32_ge :: "f32 \<Rightarrow> f32 \<Rightarrow> bool" where
  "f32_ge x y \<longleftrightarrow> \<not> f32_is_nan x \<and> \<not> f32_is_nan y \<and> f32_key y \<le> f32_key x"

definition f32_eq :: "f32 \<Rightarrow> f32 \<Rightarrow> bool" where
  "f32_eq x y \<longleftrightarrow> \<not> f32_is_nan x \<and> \<not> f32_is_nan y \<and> f32_key x = f32_key y"

definition f32_is_infinite :: "f32 \<Rightarrow> bool" where
  "f32_is_infinite x \<longleftrightarrow> x AND 0x7FFFFFFF = 0x7F800000"

definition f32_neg :: "f32 \<Rightarrow> f32" where
  "f32_neg x = x XOR 0x80000000"

text \<open>When one argument is not a number the other is returned.\<close>

definition f32_max :: "f32 \<Rightarrow> f32 \<Rightarrow> f32" where
  "f32_max x y = (if f32_is_nan x then y else if f32_is_nan y then x else if f32_lt x y then y else x)"

definition f32_min :: "f32 \<Rightarrow> f32 \<Rightarrow> f32" where
  "f32_min x y = (if f32_is_nan x then y else if f32_is_nan y then x else if f32_lt y x then y else x)"

text \<open>\<^verbatim>\<open>as u8\<close>: towards zero, saturating, and zero for what is not a number.\<close>

definition f32_to_u8 :: "f32 \<Rightarrow> u8" where
  "f32_to_u8 x =
     (if f32_is_nan x \<or> bit x 31 then 0
      else
        (let e = unat (drop_bit 23 x AND 0xFF); m = (x AND 0x7FFFFF) OR 0x800000 in
         if e < 127 then 0 else if 135 \<le> e then 255 else ucast (drop_bit (150 - e) m)))"

subsection \<open>Types\<close>

datatype ThermalError = InvalidFan | InvalidPWM | ThermalDeviceError | NotInManualMode | NotInAutoMode | AlreadyInAutoMode
  | InvalidWatchdogTime | InvalidParameter | InvalidIndex | FanControllerUninitialized

datatype ThermalMode = ModeOff | ModeManual | ModeAuto

datatype ThermalAutoState = AutoBoot | AutoRunning | AutoOverheated | AutoUncontrollable

record ThermalProperties =
  target_temperature :: f32
  critical_temperature :: f32
  power_down_temperature :: f32
  temperature_slew :: f32

datatype ChannelType = MustBePresent | Removable | RemovableAndErrorProne

record InputChannel =
  ch_sensor :: nat
  ch_model :: ThermalProperties
  ch_power_mask :: u32
  ch_type :: ChannelType

record PidConfig =
  pid_zero :: f32
  gain_p :: f32
  gain_i :: f32
  gain_d :: f32

record OneSidedPidState =
  prev_error :: "f32 option"
  pid_integral :: f32

datatype TemperatureReading = Valid u64 f32 | Inactive

datatype ThermalControlState = Boot "TemperatureReading option list" | Running "TemperatureReading list" OneSidedPidState
  | Overheated "TemperatureReading list" u64 | Uncontrollable

datatype ControlResult = Pwm u8 | PowerDown

datatype ResponseCode = BadResponse | BadArg | NoDevice | BadController | ReservedAddress | BadPort | NoRegister | BadMux | BadSegment
  | MuxNotFound | SegmentNotFound | SegmentDisconnected | MuxDisconnected | MuxMissing | BadMuxRegister | BusReset | BusResetMux
  | BusLocked | BusLockedMux | ControllerBusy | I2cBusError | BadDeviceState | OperationNotSupported | IllegalLeaseCount | TooMuchData

datatype SensorReadError = I2cError ResponseCode | ReadNoData | SensorFailure | ReservedValue | CorruptReply

fun nodata_from_response :: "ResponseCode \<Rightarrow> NoData" where
  "nodata_from_response NoDevice = DeviceNotPresent"
| "nodata_from_response NoRegister = DeviceUnavailable"
| "nodata_from_response BusLocked = DeviceTimeout"
| "nodata_from_response BusLockedMux = DeviceTimeout"
| "nodata_from_response ControllerBusy = DeviceTimeout"
| "nodata_from_response _ = DeviceError"

fun nodata_from_read_error :: "SensorReadError \<Rightarrow> NoData" where
  "nodata_from_read_error (I2cError v) = nodata_from_response v"
| "nodata_from_read_error _ = DeviceError"

text \<open>The record of the first read errors, sixteen slots.\<close>

record ThermalSensorErrors =
  bb_values :: "(u64 \<times> nat \<times> SensorReadError) option list"
  bb_next :: nat

definition blackbox_new :: ThermalSensorErrors where
  "blackbox_new = \<lparr>bb_values = replicate 16 None, bb_next = 0\<rparr>"

definition blackbox_push :: "u64 \<Rightarrow> nat \<Rightarrow> SensorReadError \<Rightarrow> ThermalSensorErrors \<Rightarrow> ThermalSensorErrors" where
  "blackbox_push timestamp i err b =
     (if bb_next b < length (bb_values b) then b\<lparr>bb_values := (bb_values b)[bb_next b := Some (timestamp, i, err)], bb_next := bb_next b + 1\<rparr> else b)"

text \<open>What the board defines.\<close>

record thermal_bsp =
  bsp_inputs :: "InputChannel list"
  bsp_misc :: "nat list"
  bsp_dynamic :: "nat list"
  bsp_pid :: PidConfig
  bsp_fans :: nat
  bsp_use_controller :: bool

record ThermalControl =
  target_margin :: f32
  tc_state :: ThermalControlState
  overheat_timeout_ms :: u64
  overheat_hysteresis :: f32
  tc_power_mode :: u32
  pid_config :: PidConfig
  dynamic_inputs :: "ThermalProperties option list"
  err_blackbox :: ThermalSensorErrors
  prev_err_blackbox :: ThermalSensorErrors
  tc_fans :: "nat option list"
  last_pwm :: u8
  fan_watchdog_configured :: bool

text \<open>
  What the surroundings answer in one cycle: time and power state as the control loop sees them, the
  sensor task's readings, the outcome of driving each fan, and for the polling of sensors, which
  comes before, the power state, the outcome of each read and the time at which it is recorded.
\<close>

record thermal_env =
  env_now :: u64
  env_power_mode :: u32
  env_poll_mode :: u32
  env_reading :: "nat \<Rightarrow> SensorError + f32 \<times> u64"
  env_fan_error :: "nat \<Rightarrow> ThermalError option"
  env_read :: "nat \<Rightarrow> SensorReadError + f32"
  env_read_time :: "nat \<Rightarrow> u64"
  env_presence :: "nat option list option"
  env_watchdog_ok :: bool

text \<open>What the loop does to the machine.\<close>

datatype thermal_cmd = SetFan nat u8 | CutPower

subsection \<open>Models of parts and the controller\<close>

definition should_power_down :: "ThermalProperties \<Rightarrow> f32 \<Rightarrow> bool" where
  "should_power_down m t = f32_ge t (power_down_temperature m)"

definition is_critical :: "ThermalProperties \<Rightarrow> f32 \<Rightarrow> bool" where
  "is_critical m t = f32_ge t (critical_temperature m)"

definition is_sub_critical :: "f32_arith \<Rightarrow> ThermalProperties \<Rightarrow> f32 \<Rightarrow> f32 \<Rightarrow> bool" where
  "is_sub_critical A m t hysteresis = f32_lt t (f_sub A (critical_temperature m) hysteresis)"

definition margin :: "f32_arith \<Rightarrow> ThermalProperties \<Rightarrow> f32 \<Rightarrow> f32" where
  "margin A m t = f_sub A (target_temperature m) t"

definition u64_saturating_sub :: "u64 \<Rightarrow> u64 \<Rightarrow> u64" where
  "u64_saturating_sub x y = (if x < y then 0 else x - y)"

definition worst_case :: "f32_arith \<Rightarrow> u64 \<Rightarrow> u64 \<Rightarrow> f32 \<Rightarrow> ThermalProperties \<Rightarrow> f32" where
  "worst_case A now_ms time_ms value m =
     f_add A value (f_mul A (f_div A (f_of_u64 A (u64_saturating_sub now_ms time_ms)) f32_thousand) (temperature_slew m))"

definition pid_default :: OneSidedPidState where
  "pid_default = \<lparr>prev_error = None, pid_integral = f32_zero\<rparr>"

definition pid_run :: "f32_arith \<Rightarrow> PidConfig \<Rightarrow> f32 \<Rightarrow> f32 \<Rightarrow> OneSidedPidState \<Rightarrow> f32 \<times> OneSidedPidState" where
  "pid_run A cfg error output_limit s =
     (let p_contribution = f_mul A (gain_p cfg) error;
          integral = f_add A (pid_integral s) (f_mul A error (gain_i cfg));
          d_contribution = (case prev_error s of Some prev \<Rightarrow> f_mul A (f_sub A error prev) (gain_d cfg) | None \<Rightarrow> f32_zero);
          out_pd = f_add A (f_add A (pid_zero cfg) p_contribution) d_contribution;
          (integral_min, integral_max) =
            (if f32_lt output_limit out_pd then (f32_neg out_pd, f32_zero)
             else if f32_lt out_pd f32_zero then (f32_zero, f_add A (f32_neg out_pd) output_limit)
             else (f32_neg out_pd, f_sub A output_limit out_pd));
          integral = f32_min (f32_max integral integral_min) integral_max;
          out = f_add A out_pd integral in
      (f32_min (f32_max out f32_zero) output_limit, \<lparr>prev_error = Some error, pid_integral = integral\<rparr>))"

subsection \<open>The control state\<close>

fun write_reading :: "ThermalControlState \<Rightarrow> nat \<Rightarrow> TemperatureReading \<Rightarrow> ThermalControlState option" where
  "write_reading (Boot vs) i r = (if i < length vs then Some (Boot (vs[i := Some r])) else None)"
| "write_reading (Running vs pid) i r = (if i < length vs then Some (Running (vs[i := r]) pid) else None)"
| "write_reading (Overheated vs t) i r = (if i < length vs then Some (Overheated (vs[i := r]) t) else None)"
| "write_reading Uncontrollable i r = Some Uncontrollable"

definition write_temperature :: "ThermalControlState \<Rightarrow> nat \<Rightarrow> f32 \<times> u64 \<Rightarrow> ThermalControlState option" where
  "write_temperature st i r = write_reading st i (Valid (snd r) (fst r))"

definition write_temperature_inactive :: "ThermalControlState \<Rightarrow> nat \<Rightarrow> ThermalControlState option" where
  "write_temperature_inactive st i = write_reading st i Inactive"

definition array_size :: "thermal_bsp \<Rightarrow> nat" where
  "array_size b = length (bsp_inputs b) + length (bsp_dynamic b)"

definition boot_state :: "thermal_bsp \<Rightarrow> ThermalControlState" where
  "boot_state b = Boot (replicate (array_size b) None)"

definition thermal_new :: "thermal_bsp \<Rightarrow> ThermalControl" where
  "thermal_new b = \<lparr>target_margin = f32_zero, tc_state = boot_state b, overheat_timeout_ms = 60000, overheat_hysteresis = f32_one,
     tc_power_mode = 0, pid_config = bsp_pid b, dynamic_inputs = replicate (length (bsp_dynamic b)) None,
     err_blackbox = blackbox_new, prev_err_blackbox = blackbox_new, tc_fans = replicate (bsp_fans b) None,
     last_pwm = 0, fan_watchdog_configured = False\<rparr>"

definition reset_state :: "thermal_bsp \<Rightarrow> ThermalControl \<Rightarrow> ThermalControl" where
  "reset_state b tc = tc\<lparr>tc_state := boot_state b\<rparr>"

definition thermal_reset :: "thermal_bsp \<Rightarrow> ThermalControl \<Rightarrow> ThermalControl" where
  "thermal_reset b tc = (reset_state b tc)\<lparr>pid_config := bsp_pid b, target_margin := f32_zero\<rparr>"

definition bad_gain :: "f32 \<Rightarrow> bool" where
  "bad_gain x \<longleftrightarrow> f32_is_nan x \<or> f32_is_infinite x"

definition control_set_pid :: "f32 \<Rightarrow> f32 \<Rightarrow> f32 \<Rightarrow> f32 \<Rightarrow> ThermalControl \<Rightarrow> ThermalError option \<times> ThermalControl" where
  "control_set_pid z p i d tc =
     (if f32_ge f32_zero p \<or> bad_gain p then (Some InvalidParameter, tc)
      else if f32_lt i f32_zero \<or> bad_gain i then (Some InvalidParameter, tc)
      else if f32_lt d f32_zero \<or> bad_gain d then (Some InvalidParameter, tc)
      else
        (let st = (case tc_state tc of
                     Running vs pid \<Rightarrow> Running vs (if f32_eq i f32_zero then pid\<lparr>pid_integral := f32_zero\<rparr> else pid)
                   | st \<Rightarrow> st) in
         (None, tc\<lparr>tc_state := st, pid_config := \<lparr>pid_zero = z, gain_p = p, gain_i = i, gain_d = d\<rparr>\<rparr>)))"

definition control_set_margin :: "f32 \<Rightarrow> ThermalControl \<Rightarrow> ThermalError option \<times> ThermalControl" where
  "control_set_margin m tc = (if f32_lt m f32_zero \<or> bad_gain m then (Some InvalidParameter, tc) else (None, tc\<lparr>target_margin := m\<rparr>))"

definition control_get_state :: "ThermalControl \<Rightarrow> ThermalAutoState" where
  "control_get_state tc =
     (case tc_state tc of Boot _ \<Rightarrow> AutoBoot | Running _ _ \<Rightarrow> AutoRunning | Overheated _ _ \<Rightarrow> AutoOverheated | Uncontrollable \<Rightarrow> AutoUncontrollable)"

definition control_update_dynamic_input :: "thermal_bsp \<Rightarrow> nat \<Rightarrow> ThermalProperties \<Rightarrow> ThermalControl \<Rightarrow> ThermalError option \<times> ThermalControl" where
  "control_update_dynamic_input b index m tc =
     (if length (bsp_dynamic b) \<le> index then (Some InvalidIndex, tc)
      else if dynamic_inputs tc ! index = None then
        (None, reset_state b (tc\<lparr>dynamic_inputs := (dynamic_inputs tc)[index := Some m]\<rparr>))
      else (None, tc))"

definition control_remove_dynamic_input :: "thermal_bsp \<Rightarrow> nat \<Rightarrow> u64 \<Rightarrow> ThermalControl \<Rightarrow> sensors \<Rightarrow> ThermalError option \<times> ThermalControl \<times> sensors" where
  "control_remove_dynamic_input b index now tc sns =
     (if length (bsp_dynamic b) \<le> index then (Some InvalidIndex, tc, sns)
      else (None, tc\<lparr>dynamic_inputs := (dynamic_inputs tc)[index := None]\<rparr>, sensor_nodata (bsp_dynamic b ! index) DeviceNotPresent now sns))"

subsection \<open>Driving the fans\<close>

definition set_pwm :: "thermal_env \<Rightarrow> u8 \<Rightarrow> ThermalControl \<Rightarrow> ThermalError option \<times> ThermalControl \<times> thermal_cmd list" where
  "set_pwm E pwm tc =
     (if 100 < pwm then (Some InvalidPWM, tc, [])
      else
        (let duties = map (\<lambda>(i, present). (i, case present of Some _ \<Rightarrow> pwm | None \<Rightarrow> 0)) (enumerate 0 (tc_fans tc)) in
         (fold (\<lambda>(i, p) last_err. case env_fan_error E i of Some e \<Rightarrow> Some e | None \<Rightarrow> last_err) duties None,
          tc\<lparr>last_pwm := pwm\<rparr>,
          map (\<lambda>(i, p). SetFan i p) (filter (\<lambda>(i, p). env_fan_error E i \<noteq> Some FanControllerUninitialized) duties))))"

definition control_set_fan_pwm :: "thermal_env \<Rightarrow> nat \<Rightarrow> u8 \<Rightarrow> ThermalControl \<Rightarrow> ThermalError option \<times> thermal_cmd list" where
  "control_set_fan_pwm E fan pwm tc =
     (let pwm = (if tc_fans tc ! fan \<noteq> None then pwm else 0) in
      (env_fan_error E fan, if env_fan_error E fan = Some FanControllerUninitialized then [] else [SetFan fan pwm]))"

definition maintain_pwm :: "thermal_env \<Rightarrow> ThermalControl \<Rightarrow> ThermalError option \<times> ThermalControl \<times> thermal_cmd list" where
  "maintain_pwm E tc = set_pwm E (last_pwm tc) tc"

definition control_fan :: "nat \<Rightarrow> ThermalControl \<Rightarrow> nat option" where
  "control_fan index tc = (if index < length (tc_fans tc) then Some index else None)"

definition update_fan_presence :: "thermal_env \<Rightarrow> ThermalControl \<Rightarrow> ThermalControl" where
  "update_fan_presence E tc =
     (let tc = (if \<not> fan_watchdog_configured tc \<and> env_watchdog_ok E then tc\<lparr>fan_watchdog_configured := True\<rparr> else tc) in
      case env_presence E of Some next \<Rightarrow> tc\<lparr>tc_fans := next\<rparr> | None \<Rightarrow> tc)"

subsection \<open>Polling the sensors\<close>

definition poll_one :: "thermal_env \<Rightarrow> bool \<Rightarrow> nat \<Rightarrow> ThermalSensorErrors \<times> sensors \<Rightarrow> ThermalSensorErrors \<times> sensors" where
  "poll_one E removable i bs =
     (let (bb, sns) = bs in
      case env_read E i of
        Inr v \<Rightarrow> (bb, sensor_post i v (env_read_time E i) sns)
      | Inl e \<Rightarrow>
          (if removable \<and> e = I2cError NoDevice then bb else blackbox_push (env_read_time E i) i e bb,
           sensor_nodata i (nodata_from_read_error e) (env_read_time E i) sns))"

definition poll_input :: "thermal_env \<Rightarrow> InputChannel \<Rightarrow> ThermalSensorErrors \<times> sensors \<Rightarrow> ThermalSensorErrors \<times> sensors" where
  "poll_input E c bs =
     (if flags_intersects (env_poll_mode E) (ch_power_mask c)
      then poll_one E (ch_type c = Removable \<or> ch_type c = RemovableAndErrorProne) (ch_sensor c) bs
      else (fst bs, sensor_nodata (ch_sensor c) DeviceOff (env_read_time E (ch_sensor c)) (snd bs)))"

definition read_sensors :: "thermal_bsp \<Rightarrow> thermal_env \<Rightarrow> ThermalControl \<Rightarrow> sensors \<Rightarrow> ThermalControl \<times> sensors" where
  "read_sensors b E tc sns =
     (let bs = (err_blackbox tc, sns);
          bs = fold (\<lambda>f bs. case f of Some i \<Rightarrow> poll_one E False i bs | None \<Rightarrow> bs) (tc_fans tc) bs;
          bs = fold (poll_one E False) (bsp_misc b) bs;
          (bb, sns) = fold (poll_input E) (bsp_inputs b) bs in
      (tc\<lparr>err_blackbox := bb\<rparr>, sns))"

subsection \<open>One cycle of the loop\<close>

definition load_input :: "thermal_env \<Rightarrow> u32 \<Rightarrow> nat \<times> InputChannel \<Rightarrow> ThermalControlState \<Rightarrow> ThermalControlState option" where
  "load_input E pm ic st =
     (let (i, c) = ic in
      if flags_intersects pm (ch_power_mask c) then
        (case env_reading E (ch_sensor c) of
           Inr r \<Rightarrow> write_temperature st i r
         | Inl e \<Rightarrow>
             (if e = SErrNotPresent \<and> ch_type c = Removable then write_temperature_inactive st i
              else if ch_type c = RemovableAndErrorProne then write_temperature_inactive st i
              else Some st))
      else write_temperature_inactive st i)"

definition load_dynamic :: "thermal_env \<Rightarrow> ThermalProperties option list \<Rightarrow> nat \<Rightarrow> nat \<times> nat \<Rightarrow> ThermalControlState \<Rightarrow> ThermalControlState option" where
  "load_dynamic E dyn n ik st =
     (let (i, sensor_id) = ik; index = i + n in
      if i < length dyn then
        (case dyn ! i of
           Some _ \<Rightarrow> (case env_reading E sensor_id of Inr r \<Rightarrow> write_temperature st index r | Inl e \<Rightarrow> Some st)
         | None \<Rightarrow> write_temperature_inactive st index)
      else None)"

fun fold_opt :: "('a \<Rightarrow> 'b \<Rightarrow> 'b option) \<Rightarrow> 'a list \<Rightarrow> 'b \<Rightarrow> 'b option" where
  "fold_opt f [] s = Some s"
| "fold_opt f (x # xs) s = (case f x s of None \<Rightarrow> None | Some s \<Rightarrow> fold_opt f xs s)"

definition load_readings :: "thermal_bsp \<Rightarrow> thermal_env \<Rightarrow> u32 \<Rightarrow> ThermalProperties option list \<Rightarrow> ThermalControlState \<Rightarrow> ThermalControlState option" where
  "load_readings b E pm dyn st =
     (case fold_opt (load_input E pm) (enumerate 0 (bsp_inputs b)) st of
        None \<Rightarrow> None
      | Some st \<Rightarrow> fold_opt (load_dynamic E dyn (length (bsp_inputs b))) (enumerate 0 (bsp_dynamic b)) st)"

definition zip_temperatures :: "'a list \<Rightarrow> InputChannel list \<Rightarrow> ThermalProperties option list \<Rightarrow> ('a \<times> ThermalProperties) list option" where
  "zip_temperatures vs ins dyn =
     (if length vs \<noteq> length ins + length dyn then None
      else Some (List.map_filter (\<lambda>(v, m). map_option (Pair v) m) (zip vs (map (Some \<circ> ch_model) ins @ dyn))))"

definition boot_survey :: "f32_arith \<Rightarrow> u64 \<Rightarrow> (TemperatureReading option \<times> ThermalProperties) list \<Rightarrow> bool \<times> bool \<times> f32" where
  "boot_survey A now vms =
     fold (\<lambda>(v, m) (all_some, any_power_down, worst_margin).
       case v of
         Some (Valid t x) \<Rightarrow>
           (let temperature = worst_case A now t x m in
            (all_some, any_power_down \<or> should_power_down m temperature, f32_min worst_margin (margin A m temperature)))
       | Some Inactive \<Rightarrow> (all_some, any_power_down, worst_margin)
       | None \<Rightarrow> (False, any_power_down, worst_margin)) vms (True, False, f32_MAX)"

definition running_survey :: "f32_arith \<Rightarrow> u64 \<Rightarrow> (TemperatureReading \<times> ThermalProperties) list \<Rightarrow> bool \<times> bool \<times> f32" where
  "running_survey A now vms =
     fold (\<lambda>(v, m) (any_power_down, any_critical, worst_margin).
       case v of
         Valid t x \<Rightarrow>
           (let temperature = worst_case A now t x m in
            (any_power_down \<or> should_power_down m temperature, any_critical \<or> is_critical m temperature,
             f32_min worst_margin (margin A m temperature)))
       | Inactive \<Rightarrow> (any_power_down, any_critical, worst_margin)) vms (False, False, f32_MAX)"

definition overheated_survey :: "f32_arith \<Rightarrow> f32 \<Rightarrow> u64 \<Rightarrow> (TemperatureReading \<times> ThermalProperties) list \<Rightarrow> bool \<times> bool \<times> f32" where
  "overheated_survey A hysteresis now vms =
     fold (\<lambda>(v, m) (all_subcritical, any_power_down, worst_margin).
       case v of
         Valid t x \<Rightarrow>
           (let temperature = worst_case A now t x m in
            (all_subcritical \<and> is_sub_critical A m temperature hysteresis, any_power_down \<or> should_power_down m temperature,
             f32_min worst_margin (margin A m temperature)))
       | Inactive \<Rightarrow> (all_subcritical, any_power_down, worst_margin)) vms (True, False, f32_MAX)"

definition start_running :: "f32_arith \<Rightarrow> ThermalControl \<Rightarrow> f32 \<Rightarrow> TemperatureReading list \<Rightarrow> OneSidedPidState \<Rightarrow> ControlResult \<times> ThermalControlState" where
  "start_running A tc worst_margin vs pid =
     (let (pwm, pid) = pid_run A (pid_config tc) (f_sub A (target_margin tc) worst_margin) f32_hundred pid in
      (Pwm (f32_to_u8 pwm), Running vs pid))"

definition control_step :: "f32_arith \<Rightarrow> thermal_bsp \<Rightarrow> u64 \<Rightarrow> ThermalControl \<Rightarrow> (ControlResult \<times> ThermalControlState) option" where
  "control_step A b now tc =
     (case tc_state tc of
        Boot vs \<Rightarrow>
          (case zip_temperatures vs (bsp_inputs b) (dynamic_inputs tc) of
             None \<Rightarrow> None
           | Some vms \<Rightarrow>
               (let (all_some, any_power_down, worst_margin) = boot_survey A now vms in
                if any_power_down then Some (PowerDown, Uncontrollable)
                else if all_some then
                  (if None \<in> set vs then None else Some (start_running A tc worst_margin (map the vs) pid_default))
                else Some (Pwm 100, Boot vs)))
      | Running vs pid \<Rightarrow>
          (case zip_temperatures vs (bsp_inputs b) (dynamic_inputs tc) of
             None \<Rightarrow> None
           | Some vms \<Rightarrow>
               (let (any_power_down, any_critical, worst_margin) = running_survey A now vms in
                if any_power_down then Some (PowerDown, Uncontrollable)
                else if any_critical then Some (Pwm 100, Overheated vs now)
                else Some (start_running A tc worst_margin vs pid)))
      | Overheated vs start_time \<Rightarrow>
          (case zip_temperatures vs (bsp_inputs b) (dynamic_inputs tc) of
             None \<Rightarrow> None
           | Some vms \<Rightarrow>
               (let (all_subcritical, any_power_down, worst_margin) = overheated_survey A (overheat_hysteresis tc) now vms in
                if any_power_down then Some (PowerDown, Uncontrollable)
                else if all_subcritical then Some (start_running A tc worst_margin vs pid_default)
                else
                  (case checked_add start_time (overheat_timeout_ms tc) of
                     None \<Rightarrow> None
                   | Some limit \<Rightarrow> if limit < now then Some (PowerDown, Uncontrollable) else Some (Pwm 100, Overheated vs start_time))))
      | Uncontrollable \<Rightarrow> Some (PowerDown, Uncontrollable))"

definition run_control :: "f32_arith \<Rightarrow> thermal_bsp \<Rightarrow> thermal_env \<Rightarrow> ThermalControl \<Rightarrow> (ThermalError option \<times> ThermalControl \<times> thermal_cmd list) option" where
  "run_control A b E tc =
     (let prev_power_mode = tc_power_mode tc;
          tc = tc\<lparr>tc_power_mode := env_power_mode E\<rparr>;
          tc = (if prev_power_mode \<noteq> tc_power_mode tc then reset_state b tc else tc) in
      case load_readings b E (tc_power_mode tc) (dynamic_inputs tc) (tc_state tc) of
        None \<Rightarrow> None
      | Some st \<Rightarrow>
          (case control_step A b (env_now E) (tc\<lparr>tc_state := st\<rparr>) of
             None \<Rightarrow> None
           | Some (res, st) \<Rightarrow>
               (let tc = tc\<lparr>tc_state := st\<rparr> in
                case res of
                  Pwm target \<Rightarrow> Some (set_pwm E target tc)
                | PowerDown \<Rightarrow>
                    (let tc = tc\<lparr>prev_err_blackbox := err_blackbox tc, err_blackbox := blackbox_new\<rparr>;
                         (err, tc, cmds) = set_pwm E 0 tc in
                     Some (err, tc, CutPower # cmds)))))"

subsection \<open>The server\<close>

record ThermalServer =
  srv_mode :: ThermalMode
  srv_control :: ThermalControl
  srv_deadline :: u64

definition THERMAL_INTERVAL :: u64 where "THERMAL_INTERVAL = 1000"

definition server_set_mode_manual :: "thermal_env \<Rightarrow> u8 \<Rightarrow> ThermalServer \<Rightarrow> ThermalError option \<times> ThermalServer \<times> thermal_cmd list" where
  "server_set_mode_manual E pwm s =
     (if 100 < pwm then (Some InvalidPWM, s, [])
      else (let (err, tc, cmds) = set_pwm E pwm (srv_control s) in (err, s\<lparr>srv_mode := ModeManual, srv_control := tc\<rparr>, cmds)))"

definition server_set_mode_auto :: "thermal_bsp \<Rightarrow> ThermalServer \<Rightarrow> ThermalError option \<times> ThermalServer" where
  "server_set_mode_auto b s =
     (if srv_mode s \<noteq> ModeAuto then (None, s\<lparr>srv_mode := ModeAuto, srv_control := thermal_reset b (srv_control s)\<rparr>)
      else (Some AlreadyInAutoMode, s))"

definition server_set_fan_pwm :: "thermal_env \<Rightarrow> u8 \<Rightarrow> u8 \<Rightarrow> ThermalServer \<Rightarrow> ThermalError option \<times> thermal_cmd list" where
  "server_set_fan_pwm E index pwm s =
     (if srv_mode s \<noteq> ModeManual then (Some NotInManualMode, [])
      else if 100 < pwm then (Some InvalidPWM, [])
      else
        (case control_fan (unat index) (srv_control s) of
           Some fan \<Rightarrow>
             (let (err, cmds) = control_set_fan_pwm E fan pwm (srv_control s) in (map_option (\<lambda>_. ThermalDeviceError) err, cmds))
         | None \<Rightarrow> (Some InvalidFan, [])))"

definition server_auto :: "(ThermalControl \<Rightarrow> ThermalError option \<times> ThermalControl) \<Rightarrow> ThermalServer \<Rightarrow> ThermalError option \<times> ThermalServer" where
  "server_auto f s =
     (if srv_mode s \<noteq> ModeAuto then (Some NotInAutoMode, s)
      else (let (err, tc) = f (srv_control s) in (err, s\<lparr>srv_control := tc\<rparr>)))"

definition server_set_pid :: "f32 \<Rightarrow> f32 \<Rightarrow> f32 \<Rightarrow> f32 \<Rightarrow> ThermalServer \<Rightarrow> ThermalError option \<times> ThermalServer" where
  "server_set_pid z p i d s = server_auto (control_set_pid z p i d) s"

definition server_set_margin :: "f32 \<Rightarrow> ThermalServer \<Rightarrow> ThermalError option \<times> ThermalServer" where
  "server_set_margin m s = server_auto (control_set_margin m) s"

definition server_update_dynamic_input :: "thermal_bsp \<Rightarrow> nat \<Rightarrow> ThermalProperties \<Rightarrow> ThermalServer \<Rightarrow> ThermalError option \<times> ThermalServer" where
  "server_update_dynamic_input b index m s = server_auto (control_update_dynamic_input b index m) s"

definition server_remove_dynamic_input :: "thermal_bsp \<Rightarrow> nat \<Rightarrow> u64 \<Rightarrow> ThermalServer \<Rightarrow> sensors \<Rightarrow> ThermalError option \<times> ThermalServer \<times> sensors" where
  "server_remove_dynamic_input b index now s sns =
     (if srv_mode s \<noteq> ModeAuto then (Some NotInAutoMode, s, sns)
      else (let (err, tc, sns) = control_remove_dynamic_input b index now (srv_control s) sns in (err, s\<lparr>srv_control := tc\<rparr>, sns)))"

definition server_get_auto_state :: "ThermalServer \<Rightarrow> ThermalError + ThermalAutoState" where
  "server_get_auto_state s = (if srv_mode s \<noteq> ModeAuto then Inl NotInAutoMode else Inr (control_get_state (srv_control s)))"

text \<open>The server starts in the mode its board asks for; failing to set the fans then is a panic.\<close>

definition server_main :: "thermal_bsp \<Rightarrow> thermal_env \<Rightarrow> u64 \<Rightarrow> (ThermalServer \<times> thermal_cmd list) option" where
  "server_main b E deadline =
     (let s = \<lparr>srv_mode = ModeOff, srv_control = thermal_new b, srv_deadline = deadline\<rparr> in
      if bsp_use_controller b then
        (case server_set_mode_auto b s of (None, s) \<Rightarrow> Some (s, []) | (Some e, s) \<Rightarrow> None)
      else
        (case server_set_mode_manual E 0 s of (None, s, cmds) \<Rightarrow> Some (s, cmds) | (Some e, s, cmds) \<Rightarrow> None))"

text \<open>
  The timer's notification. The sensors are polled first; the readings the loop then asks the sensor
  task for are those of the state that results.
\<close>

definition server_handle_notification :: "f32_arith \<Rightarrow> thermal_bsp \<Rightarrow> u64 \<Rightarrow> thermal_env \<Rightarrow> ThermalServer \<Rightarrow> sensors
    \<Rightarrow> (ThermalServer \<times> sensors \<times> thermal_cmd list) option" where
  "server_handle_notification A b now E s sns =
     (if srv_deadline s \<le> now then
        (let tc = update_fan_presence E (srv_control s);
             (tc, sns) = read_sensors b E tc sns;
             E = E\<lparr>env_reading := get_reading sns\<rparr> in
         case (case srv_mode s of
                 ModeAuto \<Rightarrow> run_control A b E tc
               | ModeManual \<Rightarrow> Some (maintain_pwm E tc)
               | ModeOff \<Rightarrow> None) of
           None \<Rightarrow> None
         | Some (err, tc, cmds) \<Rightarrow>
             (case checked_add now THERMAL_INTERVAL of
                None \<Rightarrow> None
              | Some dl \<Rightarrow> Some (s\<lparr>srv_control := tc, srv_deadline := dl\<rparr>, sns, cmds)))
      else Some (s, sns, []))"

end
