(* ===== verification/Task_ThermalProps.thy ===== *)
theory Task_ThermalProps
  imports Task_Thermal
begin

section \<open>Properties of the thermal loop\<close>

text \<open>
  The loop never panics and never asks for more than full power, whatever the arithmetic yields; a part
  that stays hot gets the fans' full power at once and costs the machine its power within the timeout.
\<close>

subsection \<open>The fan's duty\<close>

lemma unat_and_mask: "unat ((x :: u32) AND mask k) = unat x mod 2 ^ k"
  unfolding take_bit_eq_mask [symmetric] unsigned_take_bit_eq by (rule take_bit_eq_mod)

lemma unat_drop_bit: "unat (drop_bit k (x :: u32)) = unat x div 2 ^ k"
  unfolding unat_drop_bit_eq by (rule drop_bit_eq_div)

lemma f32_to_u8_le:
  assumes "x \<le> f32_hundred"
  shows "f32_to_u8 x \<le> 100"
proof -
  let ?n = "unat x"
  have n: "?n \<le> 0x42C80000" using assms by (simp add: f32_hundred_def word_le_nat_alt)
  have m8: "(0xFF :: u32) = mask 8" and m23: "(0x7FFFFF :: u32) = mask 23" by (simp_all add: mask_eq_exp_minus_1)
  have "?n div 2 ^ 23 < 2 ^ 8" using n by simp
  then have e: "unat (drop_bit 23 x AND 0xFF) = ?n div 2 ^ 23" unfolding m8 by (simp add: unat_and_mask unat_drop_bit del: drop_bit_numeral_bit0)
  let ?m = "(x AND 0x7FFFFF) OR 0x800000"
  have low: "unat (x AND 0x7FFFFF) = ?n mod 2 ^ 23" unfolding m23 by (rule unat_and_mask)
  have m: "unat ?m = ?n mod 2 ^ 23 + 2 ^ 23"
  proof -
    have d: "(x AND 0x7FFFFF) AND 0x800000 = 0" by (simp add: and.assoc)
    then have "?m = (x AND 0x7FFFFF) + 0x800000" by (simp only: disjunctive_add_eq_or)
    then show ?thesis using low by (simp add: unat_word_ariths)
  qed
  have s: "unat (drop_bit k ?m) = (?n mod 2 ^ 23 + 2 ^ 23) div 2 ^ k" for k
    using m by (simp only: unat_drop_bit)
  have small: "(?n mod 2 ^ 23 + 2 ^ 23) div 2 ^ (150 - ?n div 2 ^ 23) \<le> 100" if "127 \<le> ?n div 2 ^ 23"
  proof (cases "?n div 2 ^ 23 = 133")
    case True
    then have "?n mod 2 ^ 23 \<le> 0x480000" using n by (simp add: mod_div_trivial minus_div_mult_eq_mod [symmetric])
    then show ?thesis using True by simp
  next
    case False
    then have lt: "?n div 2 ^ 23 < 133" using n by simp
    have "(?n mod 2 ^ 23 + 2 ^ 23) div 2 ^ (150 - ?n div 2 ^ 23) \<le> (?n mod 2 ^ 23 + 2 ^ 23) div 2 ^ 18"
      using lt by (intro div_le_mono2 power_increasing) simp_all
    also have "\<dots> \<le> 100" by simp
    finally show ?thesis .
  qed
  have "unat (ucast (drop_bit (150 - ?n div 2 ^ 23) ?m) :: u8) \<le> 100" if "127 \<le> ?n div 2 ^ 23"
    using small [OF that] s [of "150 - ?n div 2 ^ 23"] by (simp add: unsigned_ucast_eq take_bit_eq_mod)
  moreover have "\<not> 135 \<le> ?n div 2 ^ 23" using n by simp
  ultimately show ?thesis by (simp add: f32_to_u8_def Let_def e word_le_nat_alt)
qed

lemma f32_key_hundred [simp]: "f32_key f32_hundred = 0x42C80000" "\<not> f32_is_nan f32_hundred" "f32_key f32_zero = 0" "\<not> f32_is_nan f32_zero"
  by (simp_all add: f32_key_def f32_hundred_def f32_is_nan_def f32_zero_def)

lemma f32_clamp: "\<not> f32_is_nan (f32_min (f32_max x f32_zero) f32_hundred)" "f32_key (f32_min (f32_max x f32_zero) f32_hundred) \<le> 0x42C80000"
  by (auto simp: f32_min_def f32_max_def f32_lt_def)

text \<open>The output of the controller is a duty of at most one hundred percent, whatever the arithmetic gives.\<close>

lemma pid_duty: "f32_to_u8 (fst (pid_run A cfg err f32_hundred pid)) \<le> 100"
proof -
  have "\<exists>x. fst (pid_run A cfg err f32_hundred pid) = f32_min (f32_max x f32_zero) f32_hundred"
    by (auto simp: pid_run_def Let_def case_prod_beta)
  then obtain x where x: "fst (pid_run A cfg err f32_hundred pid) = f32_min (f32_max x f32_zero) f32_hundred" by blast
  let ?y = "f32_min (f32_max x f32_zero) f32_hundred"
  show ?thesis
  proof (cases "bit ?y 31")
    case True then show ?thesis unfolding x by (simp add: f32_to_u8_def)
  next
    case False
    then have "uint ?y \<le> 0x42C80000" using f32_clamp(2) [of x] by (simp add: f32_key_def)
    then have "?y \<le> f32_hundred" by (simp add: word_le_def f32_hundred_def)
    then show ?thesis unfolding x by (rule f32_to_u8_le)
  qed
qed

lemma start_running_duty: "\<exists>p pid'. start_running A tc w vs pid = (Pwm p, Running vs pid') \<and> p \<le> 100"
  using pid_duty [of A "pid_config tc" "f_sub A (target_margin tc) w" pid]
  by (auto simp: start_running_def split: prod.splits)

subsection \<open>Loading the readings\<close>

fun values_len :: "ThermalControlState \<Rightarrow> nat \<Rightarrow> bool" where
  "values_len (Boot vs) n \<longleftrightarrow> length vs = n"
| "values_len (Running vs pid) n \<longleftrightarrow> length vs = n"
| "values_len (Overheated vs t) n \<longleftrightarrow> length vs = n"
| "values_len Uncontrollable n \<longleftrightarrow> True"

fun same_kind :: "ThermalControlState \<Rightarrow> ThermalControlState \<Rightarrow> bool" where
  "same_kind (Boot vs) st \<longleftrightarrow> (\<exists>vs'. st = Boot vs')"
| "same_kind (Running vs pid) st \<longleftrightarrow> (\<exists>vs'. st = Running vs' pid)"
| "same_kind (Overheated vs t) st \<longleftrightarrow> (\<exists>vs'. st = Overheated vs' t)"
| "same_kind Uncontrollable st \<longleftrightarrow> st = Uncontrollable"

fun value_at :: "ThermalControlState \<Rightarrow> nat \<Rightarrow> TemperatureReading option" where
  "value_at (Boot vs) i = vs ! i"
| "value_at (Running vs pid) i = Some (vs ! i)"
| "value_at (Overheated vs t) i = Some (vs ! i)"
| "value_at Uncontrollable i = None"

lemma same_kind_refl [simp]: "same_kind st st"
  by (cases st) auto

lemma same_kind_trans: "same_kind a b \<Longrightarrow> same_kind b c \<Longrightarrow> same_kind a c"
  by (cases a; cases b) auto

text \<open>\<open>touches f i st st'\<close>: a step that changes at most entry \<open>i\<close>.\<close>

definition touches :: "nat \<Rightarrow> nat \<Rightarrow> ThermalControlState \<Rightarrow> ThermalControlState \<Rightarrow> bool" where
  "touches n i st st' \<longleftrightarrow> values_len st' n \<and> same_kind st st' \<and> (\<forall>j. j \<noteq> i \<longrightarrow> value_at st' j = value_at st j)"

lemma touches_refl [simp]: "values_len st n \<Longrightarrow> touches n i st st"
  by (simp add: touches_def)

lemma write_reading_ok:
  assumes "values_len st n" "i < n"
  shows "\<exists>st'. write_reading st i r = Some st' \<and> touches n i st st' \<and> (st \<noteq> Uncontrollable \<longrightarrow> value_at st' i = Some r)"
  using assms by (cases st) (auto simp: touches_def)

text \<open>
  A fold over channels with distinct indices: it succeeds, keeps the kind of the state, and a
  channel that writes the same reading in every state ends up with that reading.
\<close>

lemma fold_opt_touches:
  assumes step: "\<And>x st. x \<in> set xs \<Longrightarrow> values_len st n \<Longrightarrow> \<exists>st'. f x st = Some st' \<and> touches n (g x) st st'"
    and "distinct (map g xs)" "values_len st n"
  shows "\<exists>st'. fold_opt f xs st = Some st' \<and> values_len st' n \<and> same_kind st st' \<and> (\<forall>j. j \<notin> g ` set xs \<longrightarrow> value_at st' j = value_at st j)
    \<and> (\<forall>x \<in> set xs. \<forall>r. (\<forall>st1 st2. f x st1 = Some st2 \<and> values_len st1 n \<and> same_kind st st1 \<longrightarrow> value_at st2 (g x) = r) \<longrightarrow> value_at st' (g x) = r)"
  using assms
proof (induction xs arbitrary: st)
  case (Cons x xs)
  obtain s1 where s1: "f x st = Some s1" "touches n (g x) st s1" using Cons.prems(1) [of x] Cons.prems(3) by auto
  have l1: "values_len s1 n" "same_kind st s1" using s1(2) by (simp_all add: touches_def)
  obtain s2 where s2: "fold_opt f xs s1 = Some s2" "values_len s2 n" "same_kind s1 s2" "\<forall>j. j \<notin> g ` set xs \<longrightarrow> value_at s2 j = value_at s1 j"
      "\<forall>x \<in> set xs. \<forall>r. (\<forall>st1 st2. f x st1 = Some st2 \<and> values_len st1 n \<and> same_kind s1 st1 \<longrightarrow> value_at st2 (g x) = r) \<longrightarrow> value_at s2 (g x) = r"
    using Cons.IH [of s1] Cons.prems(1,2) l1(1) by auto
  have "value_at s2 (g y) = r"
    if "y \<in> set (x # xs)" and r: "\<forall>st1 st2. f y st1 = Some st2 \<and> values_len st1 n \<and> same_kind st st1 \<longrightarrow> value_at st2 (g y) = r" for y r
  proof (cases "y = x")
    case True
    then have "value_at s1 (g x) = r" using r [rule_format, of st s1] s1(1) Cons.prems(3) by simp
    moreover have "g x \<notin> g ` set xs" using Cons.prems(2) by simp
    ultimately show ?thesis using s2(4) True by auto
  next
    case False
    then have "y \<in> set xs" using that(1) by simp
    then show ?thesis using s2(5) r same_kind_trans [OF l1(2)] by blast
  qed
  moreover have "value_at s2 j = value_at st j" if "j \<notin> g ` set (x # xs)" for j
    using that s2(4) s1(2) by (simp add: touches_def)
  ultimately show ?case using s1(1) s2(1-3) same_kind_trans [OF l1(2) s2(3)] by auto
qed auto

lemma write_ok:
  assumes "values_len st n" "i < n"
  shows "\<exists>st'. write_temperature st i r = Some st' \<and> touches n i st st'" "\<exists>st'. write_temperature_inactive st i = Some st' \<and> touches n i st st'"
  using write_reading_ok [OF assms] unfolding write_temperature_def write_temperature_inactive_def by blast+

lemma load_input_step:
  assumes "values_len st n" "fst ic < n"
  shows "\<exists>st'. load_input E pm ic st = Some st' \<and> touches n (fst ic) st st'"
  using write_ok [OF assms] assms(1) by (auto simp: load_input_def case_prod_beta split: sum.splits)

lemma load_dynamic_step:
  assumes "values_len st n" "fst ik + k < n" "fst ik < length dyn"
  shows "\<exists>st'. load_dynamic E dyn k ik st = Some st' \<and> touches n (fst ik + k) st st'"
  using write_ok [OF assms(1,2)] assms(1,3) by (auto simp: load_dynamic_def case_prod_beta Let_def split: sum.splits option.splits)

text \<open>The readings after loading: a powered input with a reading holds it, an unused dynamic input is inactive.\<close>

definition loads :: "thermal_bsp \<Rightarrow> thermal_env \<Rightarrow> u32 \<Rightarrow> ThermalProperties option list \<Rightarrow> ThermalControlState \<Rightarrow> ThermalControlState \<Rightarrow> bool" where
  "loads b E pm dyn st st' \<longleftrightarrow> values_len st' (array_size b) \<and> same_kind st st'
    \<and> (st \<noteq> Uncontrollable \<longrightarrow>
        (\<forall>i < length (bsp_inputs b). flags_intersects pm (ch_power_mask (bsp_inputs b ! i)) \<longrightarrow>
          (\<forall>v t. env_reading E (ch_sensor (bsp_inputs b ! i)) = Inr (v, t) \<longrightarrow> value_at st' i = Some (Valid t v)))
      \<and> (\<forall>i < length dyn. dyn ! i = None \<longrightarrow> value_at st' (i + length (bsp_inputs b)) = Some Inactive))"

lemma same_kind_uncontrollable: "same_kind st st' \<Longrightarrow> st' = Uncontrollable \<longleftrightarrow> st = Uncontrollable"
  by (cases st) auto

lemma load_readings_ok:
  assumes len: "values_len st (array_size b)" and dyn: "length dyn = length (bsp_dynamic b)"
  shows "\<exists>st'. load_readings b E pm dyn st = Some st' \<and> loads b E pm dyn st st'"
proof -
  let ?n = "array_size b" and ?ins = "enumerate 0 (bsp_inputs b)" and ?dyn = "enumerate 0 (bsp_dynamic b)" and ?k = "length (bsp_inputs b)"
  have ins: "x \<in> set ?ins \<Longrightarrow> fst x < ?n" for x by (auto simp: in_set_enumerate_eq array_size_def)
  have dyns: "x \<in> set ?dyn \<Longrightarrow> fst x + ?k < ?n \<and> fst x < length dyn" for x using dyn by (auto simp: in_set_enumerate_eq array_size_def)
  obtain s1 where s1: "fold_opt (load_input E pm) ?ins st = Some s1" "values_len s1 ?n" "same_kind st s1"
      "\<forall>x \<in> set ?ins. \<forall>r. (\<forall>st1 st2. load_input E pm x st1 = Some st2 \<and> values_len st1 ?n \<and> same_kind st st1 \<longrightarrow> value_at st2 (fst x) = r) \<longrightarrow> value_at s1 (fst x) = r"
    using fold_opt_touches [of ?ins ?n "load_input E pm" fst st] load_input_step ins len by auto
  have inj: "distinct (map (\<lambda>x. fst x + ?k) ?dyn)" by (auto simp: distinct_map inj_on_def in_set_enumerate_eq prod_eq_iff)
  obtain s2 where s2: "fold_opt (load_dynamic E dyn ?k) ?dyn s1 = Some s2" "values_len s2 ?n" "same_kind s1 s2"
      "\<forall>j. j \<notin> (\<lambda>x. fst x + ?k) ` set ?dyn \<longrightarrow> value_at s2 j = value_at s1 j"
      "\<forall>x \<in> set ?dyn. \<forall>r. (\<forall>st1 st2. load_dynamic E dyn ?k x st1 = Some st2 \<and> values_len st1 ?n \<and> same_kind s1 st1 \<longrightarrow> value_at st2 (fst x + ?k) = r) \<longrightarrow> value_at s2 (fst x + ?k) = r"
    using fold_opt_touches [of ?dyn ?n "load_dynamic E dyn ?k" "\<lambda>x. fst x + ?k" s1] load_dynamic_step dyns s1(2) inj by auto
  have in_val: "value_at s2 i = Some (Valid t v)"
    if st: "st \<noteq> Uncontrollable" and i: "i < ?k" "flags_intersects pm (ch_power_mask (bsp_inputs b ! i))" "env_reading E (ch_sensor (bsp_inputs b ! i)) = Inr (v, t)" for i t v
  proof -
    have "value_at st2 i = Some (Valid t v)"
      if "load_input E pm (i, bsp_inputs b ! i) st1 = Some st2" "values_len st1 ?n" "same_kind st st1" for st1 st2
      using that i st write_reading_ok [of st1 ?n i "Valid t v"] same_kind_uncontrollable
      by (auto simp: load_input_def write_temperature_def array_size_def)
    then have "value_at s1 i = Some (Valid t v)" using s1(4) i(1) by (force simp: in_set_enumerate_eq)
    moreover have "i \<notin> (\<lambda>x. fst x + ?k) ` set ?dyn" using i(1) by auto
    ultimately show ?thesis using s2(4) by simp
  qed
  have dyn_val: "value_at s2 (i + ?k) = Some Inactive" if st: "st \<noteq> Uncontrollable" and i: "i < length dyn" "dyn ! i = None" for i
  proof -
    have "value_at st2 (i + ?k) = Some Inactive"
      if "load_dynamic E dyn ?k (i, bsp_dynamic b ! i) st1 = Some st2" "values_len st1 ?n" "same_kind s1 st1" for st1 st2
      using that i st write_reading_ok [of st1 ?n "i + ?k" Inactive] same_kind_uncontrollable s1(3) dyn
      by (auto simp: load_dynamic_def write_temperature_inactive_def array_size_def)
    then show ?thesis using s2(5) i(1) dyn by (force simp: in_set_enumerate_eq)
  qed
  show ?thesis using s1(1) s2(1-3) same_kind_trans [OF s1(3) s2(3)] in_val dyn_val by (auto simp: load_readings_def loads_def)
qed

subsection \<open>The surveys of the three states\<close>

lemma boot_survey_flags:
  assumes "boot_survey A now vms = (s, p, w)"
  shows "s \<longleftrightarrow> (\<forall>(v, m) \<in> set vms. v \<noteq> None)"
    and "p \<longleftrightarrow> (\<exists>(v, m) \<in> set vms. \<exists>t x. v = Some (Valid t x) \<and> should_power_down m (worst_case A now t x m))"
proof -
  have "(s \<longleftrightarrow> s0 \<and> (\<forall>(v, m) \<in> set vms. v \<noteq> None))
      \<and> (p \<longleftrightarrow> p0 \<or> (\<exists>(v, m) \<in> set vms. \<exists>t x. v = Some (Valid t x) \<and> should_power_down m (worst_case A now t x m)))"
    if "fold (\<lambda>(v, m) (all_some, any_power_down, worst_margin).
       case v of
         Some (Valid t x) \<Rightarrow>
           (let temperature = worst_case A now t x m in
            (all_some, any_power_down \<or> should_power_down m temperature, f32_min worst_margin (margin A m temperature)))
       | Some Inactive \<Rightarrow> (all_some, any_power_down, worst_margin)
       | None \<Rightarrow> (False, any_power_down, worst_margin)) vms (s0, p0, w0) = (s, p, w)" for s0 p0 w0
    using that
    by (induction vms arbitrary: s0 p0 w0) (fastforce simp: Let_def split: option.splits TemperatureReading.splits prod.splits)+
  from this [OF assms [unfolded boot_survey_def]]
  show "s \<longleftrightarrow> (\<forall>(v, m) \<in> set vms. v \<noteq> None)"
    "p \<longleftrightarrow> (\<exists>(v, m) \<in> set vms. \<exists>t x. v = Some (Valid t x) \<and> should_power_down m (worst_case A now t x m))" by auto
qed

lemma running_survey_flags:
  assumes "running_survey A now vms = (p, c, w)"
  shows "p \<longleftrightarrow> (\<exists>(v, m) \<in> set vms. \<exists>t x. v = Valid t x \<and> should_power_down m (worst_case A now t x m))"
    and "c \<longleftrightarrow> (\<exists>(v, m) \<in> set vms. \<exists>t x. v = Valid t x \<and> is_critical m (worst_case A now t x m))"
proof -
  have "(p \<longleftrightarrow> p0 \<or> (\<exists>(v, m) \<in> set vms. \<exists>t x. v = Valid t x \<and> should_power_down m (worst_case A now t x m)))
      \<and> (c \<longleftrightarrow> c0 \<or> (\<exists>(v, m) \<in> set vms. \<exists>t x. v = Valid t x \<and> is_critical m (worst_case A now t x m)))"
    if "fold (\<lambda>(v, m) (any_power_down, any_critical, worst_margin).
       case v of
         Valid t x \<Rightarrow>
           (let temperature = worst_case A now t x m in
            (any_power_down \<or> should_power_down m temperature, any_critical \<or> is_critical m temperature,
             f32_min worst_margin (margin A m temperature)))
       | Inactive \<Rightarrow> (any_power_down, any_critical, worst_margin)) vms (p0, c0, w0) = (p, c, w)" for p0 c0 w0
    using that
    by (induction vms arbitrary: p0 c0 w0) (fastforce simp: Let_def split: TemperatureReading.splits prod.splits)+
  from this [OF assms [unfolded running_survey_def]]
  show "p \<longleftrightarrow> (\<exists>(v, m) \<in> set vms. \<exists>t x. v = Valid t x \<and> should_power_down m (worst_case A now t x m))"
    "c \<longleftrightarrow> (\<exists>(v, m) \<in> set vms. \<exists>t x. v = Valid t x \<and> is_critical m (worst_case A now t x m))" by auto
qed

lemma overheated_survey_flags:
  assumes "overheated_survey A h now vms = (s, p, w)"
  shows "s \<longleftrightarrow> (\<forall>(v, m) \<in> set vms. \<forall>t x. v = Valid t x \<longrightarrow> is_sub_critical A m (worst_case A now t x m) h)"
    and "p \<longleftrightarrow> (\<exists>(v, m) \<in> set vms. \<exists>t x. v = Valid t x \<and> should_power_down m (worst_case A now t x m))"
proof -
  have "(s \<longleftrightarrow> s0 \<and> (\<forall>(v, m) \<in> set vms. \<forall>t x. v = Valid t x \<longrightarrow> is_sub_critical A m (worst_case A now t x m) h))
      \<and> (p \<longleftrightarrow> p0 \<or> (\<exists>(v, m) \<in> set vms. \<exists>t x. v = Valid t x \<and> should_power_down m (worst_case A now t x m)))"
    if "fold (\<lambda>(v, m) (all_subcritical, any_power_down, worst_margin).
       case v of
         Valid t x \<Rightarrow>
           (let temperature = worst_case A now t x m in
            (all_subcritical \<and> is_sub_critical A m temperature h, any_power_down \<or> should_power_down m temperature,
             f32_min worst_margin (margin A m temperature)))
       | Inactive \<Rightarrow> (all_subcritical, any_power_down, worst_margin)) vms (s0, p0, w0) = (s, p, w)" for s0 p0 w0
    using that
    by (induction vms arbitrary: s0 p0 w0) (fastforce simp: Let_def split: TemperatureReading.splits prod.splits)+
  from this [OF assms [unfolded overheated_survey_def]]
  show "s \<longleftrightarrow> (\<forall>(v, m) \<in> set vms. \<forall>t x. v = Valid t x \<longrightarrow> is_sub_critical A m (worst_case A now t x m) h)"
    "p \<longleftrightarrow> (\<exists>(v, m) \<in> set vms. \<exists>t x. v = Valid t x \<and> should_power_down m (worst_case A now t x m))" by auto
qed

subsection \<open>One cycle\<close>

definition channel_model :: "thermal_bsp \<Rightarrow> ThermalProperties option list \<Rightarrow> nat \<Rightarrow> ThermalProperties option" where
  "channel_model b dyn i = (map (Some \<circ> ch_model) (bsp_inputs b) @ dyn) ! i"

lemma channel_model_input: "i < length (bsp_inputs b) \<Longrightarrow> channel_model b dyn i = Some (ch_model (bsp_inputs b ! i))"
  by (simp add: channel_model_def nth_append)

lemma zip_temperatures_ok:
  assumes "length vs = length (bsp_inputs b) + length dyn"
  shows "\<exists>vms. zip_temperatures vs (bsp_inputs b) dyn = Some vms
    \<and> (\<forall>v m. (v, m) \<in> set vms \<longleftrightarrow> (\<exists>i < length vs. v = vs ! i \<and> channel_model b dyn i = Some m))"
proof -
  have filter: "(v, m) \<in> set (List.map_filter (\<lambda>(v, m). map_option (Pair v) m) vms) \<longleftrightarrow> (v, Some m) \<in> set vms"
    for v :: 'a and m :: ThermalProperties and vms
    by (induction vms) (auto simp: List.map_filter_simps split: option.splits)
  then show ?thesis using assms by (auto simp: zip_temperatures_def channel_model_def set_zip)
qed

text \<open>A survey of the pairs is a survey of the channels.\<close>

lemma zip_bex:
  assumes "\<And>v m. (v, m) \<in> set vms \<longleftrightarrow> (\<exists>i < n. v = vs ! i \<and> channel_model b dyn i = Some m)"
  shows "(\<exists>(v, m) \<in> set vms. P v m) \<longleftrightarrow> (\<exists>i < n. \<exists>m. channel_model b dyn i = Some m \<and> P (vs ! i) m)"
  using assms by (simp add: Bex_def split_paired_Ex) blast

definition thermal_wf :: "thermal_bsp \<Rightarrow> ThermalControl \<Rightarrow> bool" where
  "thermal_wf b tc \<longleftrightarrow> values_len (tc_state tc) (array_size b) \<and> length (dynamic_inputs tc) = length (bsp_dynamic b)
    \<and> (\<forall>vs t. tc_state tc = Overheated vs t \<longrightarrow> unat t + unat (overheat_timeout_ms tc) < 2 ^ 64)"

text \<open>A reading of the state at which its part has to be powered down.\<close>

definition over_limit :: "f32_arith \<Rightarrow> thermal_bsp \<Rightarrow> u64 \<Rightarrow> ThermalControl \<Rightarrow> bool" where
  "over_limit A b now tc \<longleftrightarrow> (\<exists>i < array_size b. \<exists>m t x. channel_model b (dynamic_inputs tc) i = Some m
     \<and> value_at (tc_state tc) i = Some (Valid t x) \<and> should_power_down m (worst_case A now t x m))"

definition unused_inactive :: "thermal_bsp \<Rightarrow> ThermalControl \<Rightarrow> bool" where
  "unused_inactive b tc \<longleftrightarrow> (\<forall>i < length (dynamic_inputs tc). dynamic_inputs tc ! i = None \<longrightarrow> value_at (tc_state tc) (i + length (bsp_inputs b)) = Some Inactive)"

lemma control_step_boot:
  assumes wf: "thermal_wf b tc" and un: "unused_inactive b tc" and st: "tc_state tc = Boot vs"
  shows "\<exists>res st. control_step A b now tc = Some (res, st) \<and> (over_limit A b now tc \<longrightarrow> res = PowerDown) \<and> thermal_wf b (tc\<lparr>tc_state := st\<rparr>)
    \<and> (if res = PowerDown then st = Uncontrollable else st \<noteq> Uncontrollable \<and> (\<exists>p \<le> 100. res = Pwm p))"
proof -
  have len: "length vs = length (bsp_inputs b) + length (dynamic_inputs tc)" using wf st by (simp add: thermal_wf_def array_size_def)
  obtain vms where vms: "zip_temperatures vs (bsp_inputs b) (dynamic_inputs tc) = Some vms"
      "\<And>v m. (v, m) \<in> set vms \<longleftrightarrow> (\<exists>i < length vs. v = vs ! i \<and> channel_model b (dynamic_inputs tc) i = Some m)"
    using zip_temperatures_ok [OF len] by blast
  obtain s p w where sv: "boot_survey A now vms = (s, p, w)" using prod_cases3 by blast
  note flags = boot_survey_flags [OF sv]
  have p: "p \<longleftrightarrow> over_limit A b now tc"
    unfolding flags(2) over_limit_def zip_bex [OF vms(2)] using wf st by (auto simp: thermal_wf_def)
  have full: "None \<notin> set vs" if s
  proof
    assume "None \<in> set vs"
    then obtain i where i: "i < length vs" "vs ! i = None" by (auto simp: in_set_conv_nth)
    show False
    proof (cases "channel_model b (dynamic_inputs tc) i")
      case None
      then obtain j where "i = j + length (bsp_inputs b)" "j < length (dynamic_inputs tc)" "dynamic_inputs tc ! j = None"
        using i(1) len channel_model_input [of i b "dynamic_inputs tc"] le_Suc_ex [of "length (bsp_inputs b)" i]
        by (cases "i < length (bsp_inputs b)") (auto simp: channel_model_def nth_append)
      then show False using un i(2) st by (simp add: unused_inactive_def)
    next
      case (Some m)
      then have "(None, m) \<in> set vms" unfolding vms(2) using i by (intro exI [of _ i]) simp
      then show False using that flags(1) by auto
    qed
  qed
  obtain q pid where run: "start_running A tc w (map the vs) pid_default = (Pwm q, Running (map the vs) pid)" "q \<le> 100" using start_running_duty by blast
  show ?thesis using st vms(1) sv p full run wf by (cases p; cases s) (auto simp: control_step_def thermal_wf_def)
qed

lemma control_step_running:
  assumes wf: "thermal_wf b tc" and st: "tc_state tc = Running vs pid" and now: "unat now + unat (overheat_timeout_ms tc) < 2 ^ 64"
  shows "\<exists>res st. control_step A b now tc = Some (res, st) \<and> (over_limit A b now tc \<longrightarrow> res = PowerDown) \<and> thermal_wf b (tc\<lparr>tc_state := st\<rparr>)
    \<and> (if res = PowerDown then st = Uncontrollable else st \<noteq> Uncontrollable \<and> (\<exists>p \<le> 100. res = Pwm p))
    \<and> (\<forall>i < length (bsp_inputs b). \<forall>t x. vs ! i = Valid t x \<and> is_critical (ch_model (bsp_inputs b ! i)) (worst_case A now t x (ch_model (bsp_inputs b ! i)))
        \<longrightarrow> res = PowerDown \<or> res = Pwm 100 \<and> st = Overheated vs now)"
proof -
  have len: "length vs = length (bsp_inputs b) + length (dynamic_inputs tc)" using wf st by (simp add: thermal_wf_def array_size_def)
  obtain vms where vms: "zip_temperatures vs (bsp_inputs b) (dynamic_inputs tc) = Some vms"
      "\<And>v m. (v, m) \<in> set vms \<longleftrightarrow> (\<exists>i < length vs. v = vs ! i \<and> channel_model b (dynamic_inputs tc) i = Some m)"
    using zip_temperatures_ok [OF len] by blast
  obtain p c w where sv: "running_survey A now vms = (p, c, w)" using prod_cases3 by blast
  note flags = running_survey_flags [OF sv]
  have p: "p \<longleftrightarrow> over_limit A b now tc"
    unfolding flags(1) over_limit_def zip_bex [OF vms(2)] using wf st by (auto simp: thermal_wf_def)
  have c: c if "i < length (bsp_inputs b)" "vs ! i = Valid t x" "is_critical (ch_model (bsp_inputs b ! i)) (worst_case A now t x (ch_model (bsp_inputs b ! i)))" for i t x
  proof -
    have "(Valid t x, ch_model (bsp_inputs b ! i)) \<in> set vms"
      unfolding vms(2) using that(1,2) len by (intro exI [of _ i]) (simp add: channel_model_input)
    then show ?thesis unfolding flags(2) using that(3) by fastforce
  qed
  obtain q pid' where run: "start_running A tc w vs pid = (Pwm q, Running vs pid')" "q \<le> 100" using start_running_duty by blast
  show ?thesis using st vms(1) sv p c run wf now by (cases p; cases c) (auto simp: control_step_def thermal_wf_def)
qed

lemma control_step_overheated:
  assumes wf: "thermal_wf b tc" and st: "tc_state tc = Overheated vs start"
  shows "\<exists>res st. control_step A b now tc = Some (res, st) \<and> (over_limit A b now tc \<longrightarrow> res = PowerDown) \<and> thermal_wf b (tc\<lparr>tc_state := st\<rparr>)
    \<and> (if res = PowerDown then st = Uncontrollable else st \<noteq> Uncontrollable \<and> (\<exists>p \<le> 100. res = Pwm p))
    \<and> (\<forall>i < length (bsp_inputs b). \<forall>t x. vs ! i = Valid t x
         \<and> \<not> is_sub_critical A (ch_model (bsp_inputs b ! i)) (worst_case A now t x (ch_model (bsp_inputs b ! i))) (overheat_hysteresis tc)
        \<longrightarrow> res = PowerDown \<or> res = Pwm 100 \<and> st = Overheated vs start \<and> unat now \<le> unat start + unat (overheat_timeout_ms tc))"
proof -
  have len: "length vs = length (bsp_inputs b) + length (dynamic_inputs tc)" using wf st by (simp add: thermal_wf_def array_size_def)
  obtain vms where vms: "zip_temperatures vs (bsp_inputs b) (dynamic_inputs tc) = Some vms"
      "\<And>v m. (v, m) \<in> set vms \<longleftrightarrow> (\<exists>i < length vs. v = vs ! i \<and> channel_model b (dynamic_inputs tc) i = Some m)"
    using zip_temperatures_ok [OF len] by blast
  obtain s p w where sv: "overheated_survey A (overheat_hysteresis tc) now vms = (s, p, w)" using prod_cases3 by blast
  note flags = overheated_survey_flags [OF sv]
  have p: "p \<longleftrightarrow> over_limit A b now tc"
    unfolding flags(2) over_limit_def zip_bex [OF vms(2)] using wf st by (auto simp: thermal_wf_def)
  have s: "\<not> s" if "i < length (bsp_inputs b)" "vs ! i = Valid t x"
      "\<not> is_sub_critical A (ch_model (bsp_inputs b ! i)) (worst_case A now t x (ch_model (bsp_inputs b ! i))) (overheat_hysteresis tc)" for i t x
  proof -
    have "(Valid t x, ch_model (bsp_inputs b ! i)) \<in> set vms"
      unfolding vms(2) using that(1,2) len by (intro exI [of _ i]) (simp add: channel_model_input)
    then show ?thesis unfolding flags(1) using that(3) by fastforce
  qed
  have sum: "unat start + unat (overheat_timeout_ms tc) < 2 ^ 64" using wf st by (simp add: thermal_wf_def)
  then have lim: "checked_add start (overheat_timeout_ms tc) = Some (start + overheat_timeout_ms tc)" by (simp add: checked_add_def)
  have cmp: "start + overheat_timeout_ms tc < now \<longleftrightarrow> unat start + unat (overheat_timeout_ms tc) < unat now"
    using sum by (simp add: word_less_nat_alt unat_add_nowrap)
  obtain q pid where run: "start_running A tc w vs pid_default = (Pwm q, Running vs pid)" "q \<le> 100" using start_running_duty by blast
  show ?thesis using st vms(1) sv p s run wf lim cmp by (cases p; cases s) (auto simp: control_step_def thermal_wf_def)
qed

lemma control_step_ok:
  assumes "thermal_wf b tc" "tc_state tc \<noteq> Uncontrollable \<longrightarrow> unused_inactive b tc" "unat now + unat (overheat_timeout_ms tc) < 2 ^ 64"
  shows "\<exists>res st. control_step A b now tc = Some (res, st) \<and> (over_limit A b now tc \<longrightarrow> res = PowerDown) \<and> thermal_wf b (tc\<lparr>tc_state := st\<rparr>)
    \<and> (if res = PowerDown then st = Uncontrollable else st \<noteq> Uncontrollable \<and> (\<exists>p \<le> 100. res = Pwm p))"
proof (cases "tc_state tc")
  case (Boot vs)
  then show ?thesis using control_step_boot assms by simp
next
  case (Running vs pid)
  then show ?thesis using control_step_running [OF assms(1) Running assms(3), of A] by blast
next
  case (Overheated vs t)
  then show ?thesis using control_step_overheated [OF assms(1) Overheated, of A now] by blast
next
  case Uncontrollable
  then show ?thesis using assms(1) by (auto simp: control_step_def thermal_wf_def)
qed

text \<open>The commands of \<open>set_pwm\<close>: no fan gets more, and every fan that is present and has a controller gets the duty.\<close>

lemma set_pwm_ok:
  assumes "p \<le> 100"
  shows "\<exists>e cmds. set_pwm E p tc = (e, tc\<lparr>last_pwm := p\<rparr>, cmds) \<and> CutPower \<notin> set cmds \<and> (\<forall>f q. SetFan f q \<in> set cmds \<longrightarrow> q \<le> p)
    \<and> (\<forall>f < length (tc_fans tc). tc_fans tc ! f \<noteq> None \<and> env_fan_error E f \<noteq> Some FanControllerUninitialized \<longrightarrow> SetFan f p \<in> set cmds)"
  using assms by (force simp: set_pwm_def Let_def in_set_enumerate_eq split: option.splits)

text \<open>The control block as \<open>run_control\<close> sees it: the state is forgotten when the power mode changes.\<close>

definition enter_cycle :: "thermal_bsp \<Rightarrow> thermal_env \<Rightarrow> ThermalControl \<Rightarrow> ThermalControl" where
  "enter_cycle b E tc =
     (let tc' = tc\<lparr>tc_power_mode := env_power_mode E\<rparr> in
      if tc_power_mode tc \<noteq> tc_power_mode tc' then reset_state b tc' else tc')"

lemma enter_cycle_simps [simp]:
  "tc_power_mode (enter_cycle b E tc) = env_power_mode E"
  "dynamic_inputs (enter_cycle b E tc) = dynamic_inputs tc"
  "overheat_timeout_ms (enter_cycle b E tc) = overheat_timeout_ms tc"
  "overheat_hysteresis (enter_cycle b E tc) = overheat_hysteresis tc"
  "tc_fans (enter_cycle b E tc) = tc_fans tc"
  "tc_state (enter_cycle b E tc) = (if tc_power_mode tc = env_power_mode E then tc_state tc else boot_state b)"
  by (simp_all add: enter_cycle_def reset_state_def Let_def)

lemma thermal_wf_enter: "thermal_wf b tc \<Longrightarrow> thermal_wf b (enter_cycle b E tc)"
  by (auto simp: thermal_wf_def boot_state_def)

lemma run_control_unfold:
  "run_control A b E tc =
     (let tc = enter_cycle b E tc in
      case load_readings b E (env_power_mode E) (dynamic_inputs tc) (tc_state tc) of
        None \<Rightarrow> None
      | Some st \<Rightarrow>
          (case control_step A b (env_now E) (tc\<lparr>tc_state := st\<rparr>) of
             None \<Rightarrow> None
           | Some (Pwm target, st) \<Rightarrow> Some (set_pwm E target (tc\<lparr>tc_state := st\<rparr>))
           | Some (PowerDown, st) \<Rightarrow>
               (let (err, tc, cmds) = set_pwm E 0 (tc\<lparr>tc_state := st, prev_err_blackbox := err_blackbox tc, err_blackbox := blackbox_new\<rparr>) in
                Some (err, tc, CutPower # cmds))))"
  unfolding run_control_def enter_cycle_def [symmetric] Let_def
  by (auto simp: enter_cycle_def reset_state_def split: option.split ControlResult.split prod.split)

text \<open>What one cycle does, given what its control step does.\<close>

lemma run_control_result:
  assumes "load_readings b E (env_power_mode E) (dynamic_inputs tc) (tc_state (enter_cycle b E tc)) = Some st"
    and "control_step A b (env_now E) ((enter_cycle b E tc)\<lparr>tc_state := st\<rparr>) = Some (res, st')"
    and "thermal_wf b ((enter_cycle b E tc)\<lparr>tc_state := st'\<rparr>)" "res = PowerDown \<or> (\<exists>p \<le> 100. res = Pwm p)"
  shows "\<exists>err tc' cmds. run_control A b E tc = Some (err, tc', cmds) \<and> thermal_wf b tc' \<and> tc_state tc' = st'
    \<and> last_pwm tc' \<le> 100 \<and> (\<forall>f q. SetFan f q \<in> set cmds \<longrightarrow> q \<le> last_pwm tc')
    \<and> (CutPower \<in> set cmds \<longleftrightarrow> res = PowerDown)
    \<and> (res = Pwm 100 \<longrightarrow> (\<forall>f < length (tc_fans tc). tc_fans tc ! f \<noteq> None \<and> env_fan_error E f \<noteq> Some FanControllerUninitialized \<longrightarrow> SetFan f 100 \<in> set cmds))
    \<and> tc_power_mode tc' = env_power_mode E \<and> overheat_timeout_ms tc' = overheat_timeout_ms tc
    \<and> overheat_hysteresis tc' = overheat_hysteresis tc \<and> tc_fans tc' = tc_fans tc"
proof -
  define tc1 where "tc1 = (enter_cycle b E tc)\<lparr>tc_state := st'\<rparr>"
  define tc2 where "tc2 = tc1\<lparr>prev_err_blackbox := err_blackbox tc1, err_blackbox := blackbox_new\<rparr>"
  show ?thesis
  proof (cases res)
    case (Pwm p)
    then have p: "p \<le> 100" using assms(4) by simp
    obtain e cmds where "set_pwm E p tc1 = (e, tc1\<lparr>last_pwm := p\<rparr>, cmds)" "CutPower \<notin> set cmds" "\<forall>f q. SetFan f q \<in> set cmds \<longrightarrow> q \<le> p"
        "\<forall>f < length (tc_fans tc1). tc_fans tc1 ! f \<noteq> None \<and> env_fan_error E f \<noteq> Some FanControllerUninitialized \<longrightarrow> SetFan f p \<in> set cmds"
      using set_pwm_ok [OF p, of E tc1] by blast
    then show ?thesis using assms(1-3) Pwm p by (auto simp: run_control_unfold tc1_def thermal_wf_def)
  next
    case PowerDown
    obtain e cmds where "set_pwm E 0 tc2 = (e, tc2\<lparr>last_pwm := 0\<rparr>, cmds)" "CutPower \<notin> set cmds" "\<forall>f q. SetFan f q \<in> set cmds \<longrightarrow> q \<le> 0"
      using set_pwm_ok [of 0 E tc2] by auto
    then show ?thesis using assms(1-3) PowerDown by (auto simp: run_control_unfold tc2_def tc1_def thermal_wf_def Let_def)
  qed
qed

lemma cycle_loads:
  assumes "thermal_wf b tc"
  shows "\<exists>st. load_readings b E (env_power_mode E) (dynamic_inputs tc) (tc_state (enter_cycle b E tc)) = Some st
    \<and> loads b E (env_power_mode E) (dynamic_inputs tc) (tc_state (enter_cycle b E tc)) st \<and> thermal_wf b ((enter_cycle b E tc)\<lparr>tc_state := st\<rparr>)"
proof -
  let ?tc = "enter_cycle b E tc"
  have wf: "thermal_wf b ?tc" using assms by (rule thermal_wf_enter)
  then obtain st where st: "load_readings b E (env_power_mode E) (dynamic_inputs tc) (tc_state ?tc) = Some st"
      "loads b E (env_power_mode E) (dynamic_inputs tc) (tc_state ?tc) st"
    using load_readings_ok [of "tc_state ?tc" b "dynamic_inputs tc" E "env_power_mode E"] by (auto simp: thermal_wf_def)
  moreover have "thermal_wf b (?tc\<lparr>tc_state := st\<rparr>)"
    using wf st(2) by (cases "tc_state ?tc") (auto simp: thermal_wf_def loads_def simp del: enter_cycle_simps)
  ultimately show ?thesis by blast
qed

text \<open>The temperature an input may have reached, when the sensor task has a reading of it.\<close>

definition input_temperature :: "f32_arith \<Rightarrow> thermal_bsp \<Rightarrow> thermal_env \<Rightarrow> nat \<Rightarrow> f32 option" where
  "input_temperature A b E i =
     (if i < length (bsp_inputs b) \<and> flags_intersects (env_power_mode E) (ch_power_mask (bsp_inputs b ! i)) then
        (case env_reading E (ch_sensor (bsp_inputs b ! i)) of
           Inr (v, t) \<Rightarrow> Some (worst_case A (env_now E) t v (ch_model (bsp_inputs b ! i)))
         | Inl e \<Rightarrow> None)
      else None)"

lemma input_temperature_loaded:
  assumes "input_temperature A b E i = Some T" "loads b E (env_power_mode E) dyn st st'" "st \<noteq> Uncontrollable"
  shows "i < length (bsp_inputs b)" "\<exists>t x. value_at st' i = Some (Valid t x) \<and> T = worst_case A (env_now E) t x (ch_model (bsp_inputs b ! i))"
  using assms by (auto simp: input_temperature_def loads_def split: if_splits sum.splits)

lemma run_control_safe:
  assumes wf: "thermal_wf b tc" and now: "unat (env_now E) + unat (overheat_timeout_ms tc) < 2 ^ 64"
  shows "\<exists>err tc' cmds. run_control A b E tc = Some (err, tc', cmds) \<and> thermal_wf b tc' \<and> overheat_timeout_ms tc' = overheat_timeout_ms tc
    \<and> last_pwm tc' \<le> 100 \<and> (\<forall>f q. SetFan f q \<in> set cmds \<longrightarrow> q \<le> last_pwm tc')
    \<and> (CutPower \<in> set cmds \<longleftrightarrow> tc_state tc' = Uncontrollable)
    \<and> ((\<exists>i T. input_temperature A b E i = Some T \<and> should_power_down (ch_model (bsp_inputs b ! i)) T) \<longrightarrow> CutPower \<in> set cmds)"
proof -
  let ?tc = "enter_cycle b E tc"
  obtain st where st: "load_readings b E (env_power_mode E) (dynamic_inputs tc) (tc_state ?tc) = Some st"
      "loads b E (env_power_mode E) (dynamic_inputs tc) (tc_state ?tc) st" and wf2: "thermal_wf b (?tc\<lparr>tc_state := st\<rparr>)"
    using cycle_loads [OF wf] by blast
  let ?tcl = "?tc\<lparr>tc_state := st\<rparr>"
  have kind: "same_kind (tc_state ?tc) st" using st(2) by (simp add: loads_def)
  have un: "tc_state ?tcl \<noteq> Uncontrollable \<longrightarrow> unused_inactive b ?tcl"
    using st(2) same_kind_uncontrollable [OF kind] by (auto simp: unused_inactive_def loads_def simp del: enter_cycle_simps(6))
  obtain res st' where step: "control_step A b (env_now E) ?tcl = Some (res, st')" "over_limit A b (env_now E) ?tcl \<longrightarrow> res = PowerDown"
      "thermal_wf b (?tc\<lparr>tc_state := st'\<rparr>)" "if res = PowerDown then st' = Uncontrollable else st' \<noteq> Uncontrollable \<and> (\<exists>p \<le> 100. res = Pwm p)"
    using control_step_ok [OF wf2 un, of "env_now E" A] now by auto
  have hot: "res = PowerDown" if "input_temperature A b E i = Some T" "should_power_down (ch_model (bsp_inputs b ! i)) T" for i T
  proof (cases "tc_state ?tc = Uncontrollable")
    case True
    then have "st = Uncontrollable" using kind by simp
    then show ?thesis using step(1) by (simp add: control_step_def)
  next
    case False
    then have "over_limit A b (env_now E) ?tcl"
      using input_temperature_loaded [OF that(1) st(2)] that(2) channel_model_input [of i b "dynamic_inputs tc"]
      by (auto simp: over_limit_def array_size_def intro!: exI [of _ i])
    then show ?thesis using step(2) by simp
  qed
  have ok: "res = PowerDown \<or> (\<exists>p \<le> 100. res = Pwm p)" and gone: "res = PowerDown \<longleftrightarrow> st' = Uncontrollable"
    using step(4) by (auto split: if_splits)
  show ?thesis using run_control_result [OF st(1) step(1,3) ok] gone hot by blast
qed

text \<open>
  C35: a cycle of the thermal loop never panics, in no state of the controller, with no readings of the sensors, and
  for no arithmetic of the processor; the control block stays well formed. No fan is asked for more
  than the duty recorded, which is at most one hundred; power is cut exactly when the controller has given up; and it
  is cut in the very cycle in which a powered input may have reached its power-down temperature.
\<close>

theorem thermal_cycle_safe:
  assumes wf: "thermal_wf b tc" and now: "unat (env_now E) + unat (overheat_timeout_ms tc) < 2 ^ 64"
  shows "\<exists>err tc' cmds. run_control A b E tc = Some (err, tc', cmds) \<and> thermal_wf b tc'
    \<and> last_pwm tc' \<le> 100 \<and> (\<forall>f q. SetFan f q \<in> set cmds \<longrightarrow> q \<le> last_pwm tc')
    \<and> (CutPower \<in> set cmds \<longleftrightarrow> tc_state tc' = Uncontrollable)
    \<and> ((\<exists>i T. input_temperature A b E i = Some T \<and> should_power_down (ch_model (bsp_inputs b ! i)) T) \<longrightarrow> CutPower \<in> set cmds)"
  using run_control_safe [OF assms] by blast

text \<open>A board with one input and one fan, and arithmetic that ignores the second argument.\<close>

definition first_arith :: f32_arith where
  "first_arith = \<lparr>f_add = \<lambda>x y. x, f_sub = \<lambda>x y. x, f_mul = \<lambda>x y. x, f_div = \<lambda>x y. x, f_of_u64 = \<lambda>n. 0\<rparr>"

definition small_board :: thermal_bsp where
  "small_board = \<lparr>bsp_inputs = [\<lparr>ch_sensor = 0,
       ch_model = \<lparr>target_temperature = f32_zero, critical_temperature = f32_one, power_down_temperature = f32_thousand, temperature_slew = f32_zero\<rparr>,
       ch_power_mask = 1, ch_type = MustBePresent\<rparr>],
     bsp_misc = [], bsp_dynamic = [], bsp_pid = \<lparr>pid_zero = f32_zero, gain_p = f32_one, gain_i = f32_zero, gain_d = f32_zero\<rparr>,
     bsp_fans = 1, bsp_use_controller = True\<rparr>"

definition board_at :: "u64 \<Rightarrow> f32 \<Rightarrow> thermal_env" where
  "board_at now v = \<lparr>env_now = now, env_power_mode = 1, env_poll_mode = 1, env_reading = \<lambda>i. Inr (v, now), env_fan_error = \<lambda>i. None,
     env_read = \<lambda>i. Inr v, env_read_time = \<lambda>i. now, env_presence = None, env_watchdog_ok = True\<rparr>"

definition small_control :: ThermalControl where
  "small_control = (thermal_new small_board)\<lparr>tc_state := Running [Inactive] pid_default, tc_power_mode := 1, tc_fans := [Some 0]\<rparr>"

lemmas small_defs = first_arith_def small_board_def board_at_def small_control_def thermal_new_def

lemma small_wf: "thermal_wf small_board small_control"
  by (simp add: thermal_wf_def small_defs array_size_def)

lemma small_temperature: "input_temperature first_arith small_board (board_at now v) 0 = Some v"
  by (simp add: input_temperature_def small_defs flags_intersects_def worst_case_def)

theorem thermal_cycle_safe_witness:
  "\<exists>err tc' cmds. run_control first_arith small_board (board_at 5 f32_thousand) small_control = Some (err, tc', cmds) \<and> CutPower \<in> set cmds"
proof -
  have "should_power_down (ch_model (bsp_inputs small_board ! 0)) f32_thousand"
    by (simp add: should_power_down_def small_board_def f32_ge_def f32_is_nan_def f32_thousand_def)
  moreover have "unat (env_now (board_at 5 f32_thousand)) + unat (overheat_timeout_ms small_control) < 2 ^ 64" by (simp add: small_defs)
  ultimately show ?thesis using thermal_cycle_safe [OF small_wf, of "board_at 5 f32_thousand" first_arith] small_temperature by blast
qed

subsection \<open>A part that stays hot\<close>

fun thermal_cycles :: "f32_arith \<Rightarrow> thermal_bsp \<Rightarrow> thermal_env list \<Rightarrow> ThermalControl \<Rightarrow> (ThermalControl \<times> thermal_cmd list list) option" where
  "thermal_cycles A b [] tc = Some (tc, [])"
| "thermal_cycles A b (E # Es) tc =
     (case run_control A b E tc of
        None \<Rightarrow> None
      | Some (err, tc, cmds) \<Rightarrow> map_option (\<lambda>(tc, css). (tc, cmds # css)) (thermal_cycles A b Es tc))"

definition fans_full :: "thermal_env \<Rightarrow> nat option list \<Rightarrow> thermal_cmd list \<Rightarrow> bool" where
  "fans_full E fans cmds \<longleftrightarrow>
     (\<forall>f < length fans. fans ! f \<noteq> None \<and> env_fan_error E f \<noteq> Some FanControllerUninitialized \<longrightarrow> SetFan f 100 \<in> set cmds)"

text \<open>A cycle in which a part is hot since \<open>t0\<close>.\<close>

definition hot_cycle :: "thermal_bsp \<Rightarrow> u64 \<Rightarrow> thermal_env \<Rightarrow> ThermalControl \<Rightarrow> ThermalControl \<Rightarrow> thermal_cmd list \<Rightarrow> bool" where
  "hot_cycle b t0 E tc tc' cmds \<longleftrightarrow> thermal_wf b tc' \<and> tc_power_mode tc' = env_power_mode E
    \<and> overheat_timeout_ms tc' = overheat_timeout_ms tc \<and> overheat_hysteresis tc' = overheat_hysteresis tc \<and> tc_fans tc' = tc_fans tc
    \<and> (tc_state tc' = Uncontrollable \<and> CutPower \<in> set cmds
       \<or> (\<exists>vs. tc_state tc' = Overheated vs t0) \<and> fans_full E (tc_fans tc) cmds \<and> unat (env_now E) \<le> unat t0 + unat (overheat_timeout_ms tc))"

lemma hot_cycle_begins:
  assumes wf: "thermal_wf b tc" and st: "tc_state tc = Running vs pid" and mode: "env_power_mode E = tc_power_mode tc"
    and now: "unat (env_now E) + unat (overheat_timeout_ms tc) < 2 ^ 64"
    and T: "input_temperature A b E i = Some T" "is_critical (ch_model (bsp_inputs b ! i)) T"
  shows "\<exists>err tc' cmds. run_control A b E tc = Some (err, tc', cmds) \<and> hot_cycle b (env_now E) E tc tc' cmds"
proof -
  let ?tc = "enter_cycle b E tc"
  obtain st1 where st1: "load_readings b E (env_power_mode E) (dynamic_inputs tc) (tc_state ?tc) = Some st1"
      "loads b E (env_power_mode E) (dynamic_inputs tc) (tc_state ?tc) st1" and wf1: "thermal_wf b (?tc\<lparr>tc_state := st1\<rparr>)"
    using cycle_loads [OF wf] by blast
  obtain vs1 where vs1: "st1 = Running vs1 pid" using st1(2) st mode by (auto simp: loads_def)
  obtain t x where r: "i < length (bsp_inputs b)" "vs1 ! i = Valid t x" "T = worst_case A (env_now E) t x (ch_model (bsp_inputs b ! i))"
    using input_temperature_loaded [OF T(1) st1(2)] st mode vs1 by auto
  obtain res st' where step: "control_step A b (env_now E) (?tc\<lparr>tc_state := st1\<rparr>) = Some (res, st')" "thermal_wf b (?tc\<lparr>tc_state := st'\<rparr>)"
      "res = PowerDown \<and> st' = Uncontrollable \<or> res = Pwm 100 \<and> st' = Overheated vs1 (env_now E)"
    using control_step_running [OF wf1, of vs1 pid "env_now E" A] r T(2) vs1 now by (auto split: if_splits)
  have "res = PowerDown \<or> (\<exists>p \<le> 100. res = Pwm p)" using step(3) by auto
  from run_control_result [OF st1(1) step(1,2) this] step(3) show ?thesis unfolding hot_cycle_def fans_full_def by fastforce
qed

lemma hot_cycle_stays:
  assumes wf: "thermal_wf b tc" and st: "tc_state tc = Uncontrollable \<or> (\<exists>vs. tc_state tc = Overheated vs t0)"
    and mode: "env_power_mode E = tc_power_mode tc"
    and T: "input_temperature A b E i = Some T" "\<not> is_sub_critical A (ch_model (bsp_inputs b ! i)) T (overheat_hysteresis tc)"
  shows "\<exists>err tc' cmds. run_control A b E tc = Some (err, tc', cmds) \<and> hot_cycle b t0 E tc tc' cmds"
proof -
  let ?tc = "enter_cycle b E tc"
  obtain st1 where st1: "load_readings b E (env_power_mode E) (dynamic_inputs tc) (tc_state ?tc) = Some st1"
      "loads b E (env_power_mode E) (dynamic_inputs tc) (tc_state ?tc) st1" and wf1: "thermal_wf b (?tc\<lparr>tc_state := st1\<rparr>)"
    using cycle_loads [OF wf] by blast
  have "\<exists>res st'. control_step A b (env_now E) (?tc\<lparr>tc_state := st1\<rparr>) = Some (res, st') \<and> thermal_wf b (?tc\<lparr>tc_state := st'\<rparr>)
    \<and> (res = PowerDown \<and> st' = Uncontrollable
       \<or> res = Pwm 100 \<and> (\<exists>vs. st' = Overheated vs t0) \<and> unat (env_now E) \<le> unat t0 + unat (overheat_timeout_ms tc))"
  proof (cases "tc_state tc = Uncontrollable")
    case True
    then have "st1 = Uncontrollable" using st1(2) mode by (auto simp: loads_def)
    then show ?thesis using wf1 by (simp add: control_step_def)
  next
    case False
    then obtain vs where vs: "tc_state tc = Overheated vs t0" using st by blast
    then obtain vs1 where vs1: "st1 = Overheated vs1 t0" using st1(2) mode by (auto simp: loads_def)
    obtain t x where r: "i < length (bsp_inputs b)" "vs1 ! i = Valid t x" "T = worst_case A (env_now E) t x (ch_model (bsp_inputs b ! i))"
      using input_temperature_loaded [OF T(1) st1(2)] False vs mode vs1 by auto
    show ?thesis
      using control_step_overheated [OF wf1, of vs1 t0 A "env_now E"] r T(2) vs1 by (auto split: if_splits)
  qed
  then obtain res st' where step: "control_step A b (env_now E) (?tc\<lparr>tc_state := st1\<rparr>) = Some (res, st')" "thermal_wf b (?tc\<lparr>tc_state := st'\<rparr>)"
      "res = PowerDown \<and> st' = Uncontrollable
       \<or> res = Pwm 100 \<and> (\<exists>vs. st' = Overheated vs t0) \<and> unat (env_now E) \<le> unat t0 + unat (overheat_timeout_ms tc)" by blast
  have "res = PowerDown \<or> (\<exists>p \<le> 100. res = Pwm p)" using step(3) by auto
  from run_control_result [OF st1(1) step(1,2) this] step(3) show ?thesis unfolding hot_cycle_def fans_full_def by fastforce
qed

definition stays_hot :: "f32_arith \<Rightarrow> thermal_bsp \<Rightarrow> ThermalControl \<Rightarrow> nat \<Rightarrow> thermal_env \<Rightarrow> bool" where
  "stays_hot A b tc i E \<longleftrightarrow> env_power_mode E = tc_power_mode tc
    \<and> (\<exists>T. input_temperature A b E i = Some T \<and> \<not> is_sub_critical A (ch_model (bsp_inputs b ! i)) T (overheat_hysteresis tc))"

lemma hot_cycles:
  assumes "thermal_wf b tc" "tc_state tc = Uncontrollable \<or> (\<exists>vs. tc_state tc = Overheated vs t0)" "\<forall>E \<in> set Es. stays_hot A b tc i E"
    "Es \<noteq> [] \<longrightarrow> unat t0 + unat (overheat_timeout_ms tc) < unat (env_now (last Es))"
    "Es = [] \<longrightarrow> tc_state tc = Uncontrollable"
  shows "\<exists>tc' css. thermal_cycles A b Es tc = Some (tc', css) \<and> tc_state tc' = Uncontrollable \<and> length css = length Es
    \<and> (Es \<noteq> [] \<longrightarrow> CutPower \<in> set (last css))
    \<and> (\<forall>k < length Es. CutPower \<in> set (css ! k) \<or> fans_full (Es ! k) (tc_fans tc) (css ! k))"
  using assms
proof (induction Es arbitrary: tc)
  case (Cons E Es)
  have hot: "stays_hot A b tc i E" using Cons.prems(3) by simp
  then obtain err tc1 cmds where run: "run_control A b E tc = Some (err, tc1, cmds)" and h: "hot_cycle b t0 E tc tc1 cmds"
    using hot_cycle_stays [OF Cons.prems(1,2)] unfolding stays_hot_def by blast
  have same: "stays_hot A b tc1 i E' = stays_hot A b tc i E'" for E' using h hot by (simp add: hot_cycle_def stays_hot_def)
  have late: "Es \<noteq> [] \<longrightarrow> unat t0 + unat (overheat_timeout_ms tc1) < unat (env_now (last Es))" using h Cons.prems(4) by (auto simp: hot_cycle_def)
  have "Es = [] \<longrightarrow> tc_state tc1 = Uncontrollable" using h Cons.prems(4) by (auto simp: hot_cycle_def)
  then obtain tc' css where c: "thermal_cycles A b Es tc1 = Some (tc', css)" "tc_state tc' = Uncontrollable" "length css = length Es"
      "Es \<noteq> [] \<longrightarrow> CutPower \<in> set (last css)" "\<forall>k < length Es. CutPower \<in> set (css ! k) \<or> fans_full (Es ! k) (tc_fans tc) (css ! k)"
    using Cons.IH [of tc1, OF _ _ _ late] h Cons.prems(3) same by (auto simp: hot_cycle_def)
  have "CutPower \<in> set (last (cmds # css))" using c(3,4) h Cons.prems(4) by (auto simp: hot_cycle_def)
  moreover have "CutPower \<in> set ((cmds # css) ! k) \<or> fans_full ((E # Es) ! k) (tc_fans tc) ((cmds # css) ! k)" if "k < length (E # Es)" for k
    using that c(5) h by (cases k) (auto simp: hot_cycle_def)
  ultimately show ?case using run c(1-3) by auto
qed auto

text \<open>
  C34: once the loop is running, an input that reaches its critical temperature and then stays within
  the hysteresis of it costs the machine its power by the first cycle past the timeout, whatever the other inputs do;
  and until power is cut every cycle asks every fan that is present for its full power.
\<close>

theorem thermal_power_down_in_time:
  assumes wf: "thermal_wf b tc" and st: "tc_state tc = Running vs pid" and mode: "env_power_mode E0 = tc_power_mode tc"
    and now: "unat (env_now E0) + unat (overheat_timeout_ms tc) < 2 ^ 64"
    and crit: "input_temperature A b E0 i = Some T" "is_critical (ch_model (bsp_inputs b ! i)) T"
    and hot: "\<forall>E \<in> set Es. stays_hot A b tc i E"
    and late: "Es \<noteq> []" "unat (env_now E0) + unat (overheat_timeout_ms tc) < unat (env_now (last Es))"
  shows "\<exists>tc' css. thermal_cycles A b (E0 # Es) tc = Some (tc', css) \<and> tc_state tc' = Uncontrollable \<and> CutPower \<in> set (last css)
    \<and> (\<forall>k \<le> length Es. CutPower \<in> set (css ! k) \<or> fans_full ((E0 # Es) ! k) (tc_fans tc) (css ! k))"
proof -
  obtain err tc1 cmds where run: "run_control A b E0 tc = Some (err, tc1, cmds)" and h: "hot_cycle b (env_now E0) E0 tc tc1 cmds"
    using hot_cycle_begins [OF wf st mode now crit] by blast
  have same: "stays_hot A b tc1 i E' = stays_hot A b tc i E'" for E' using h mode by (simp add: hot_cycle_def stays_hot_def)
  obtain tc' css where c: "thermal_cycles A b Es tc1 = Some (tc', css)" "tc_state tc' = Uncontrollable" "length css = length Es"
      "CutPower \<in> set (last css)" "\<forall>k < length Es. CutPower \<in> set (css ! k) \<or> fans_full (Es ! k) (tc_fans tc) (css ! k)"
    using hot_cycles [of b tc1 "env_now E0" Es A i] h hot late same by (auto simp: hot_cycle_def)
  have "CutPower \<in> set ((cmds # css) ! k) \<or> fans_full ((E0 # Es) ! k) (tc_fans tc) ((cmds # css) ! k)" if "k \<le> length Es" for k
    using that c(5) h by (cases k) (auto simp: hot_cycle_def)
  moreover have "css \<noteq> []" using c(3) late(1) by auto
  ultimately show ?thesis using run c(1,2,4) by auto
qed

theorem thermal_power_down_in_time_witness:
  "\<exists>tc' css. thermal_cycles first_arith small_board [board_at 5 f32_hundred, board_at 1005 f32_hundred, board_at 60006 f32_hundred] small_control = Some (tc', css)
    \<and> tc_state tc' = Uncontrollable \<and> CutPower \<in> set (last css)"
proof -
  have st: "tc_state small_control = Running [Inactive] pid_default" by (simp add: small_control_def)
  have mode: "env_power_mode (board_at 5 f32_hundred) = tc_power_mode small_control" by (simp add: small_defs)
  have now: "unat (env_now (board_at 5 f32_hundred)) + unat (overheat_timeout_ms small_control) < 2 ^ 64" by (simp add: small_defs)
  have crit: "is_critical (ch_model (bsp_inputs small_board ! 0)) f32_hundred"
    by (simp add: is_critical_def small_board_def f32_ge_def f32_is_nan_def f32_hundred_def f32_one_def f32_key_def)
  have "stays_hot first_arith small_board small_control 0 (board_at t f32_hundred)" for t
    using small_temperature [of t f32_hundred]
    by (simp add: stays_hot_def) (simp add: small_defs is_sub_critical_def f32_lt_def f32_is_nan_def f32_hundred_def f32_one_def f32_key_def)
  then have hot: "\<forall>E \<in> set [board_at 1005 f32_hundred, board_at 60006 f32_hundred]. stays_hot first_arith small_board small_control 0 E" by simp
  show ?thesis
    using thermal_power_down_in_time [OF small_wf st mode now small_temperature crit hot] by (simp add: small_defs) blast
qed

subsection \<open>The server\<close>

text \<open>
  The operations of the server in any order, from its start. The clock is assumed to stay a minute short of the end of its range.
\<close>

definition clock_ok :: "u64 \<Rightarrow> bool" where
  "clock_ok t \<longleftrightarrow> unat t + 60000 < 2 ^ 64"

inductive thermal_reachable :: "f32_arith \<Rightarrow> thermal_bsp \<Rightarrow> ThermalServer \<Rightarrow> bool" for A b where
  start: "server_main b E deadline = Some (s, cmds) \<Longrightarrow> thermal_reachable A b s"
| notification: "thermal_reachable A b s \<Longrightarrow> clock_ok now \<Longrightarrow> clock_ok (env_now E) \<Longrightarrow>
    server_handle_notification A b now E s sns = Some (s', sns', cmds) \<Longrightarrow> thermal_reachable A b s'"
| mode_manual: "thermal_reachable A b s \<Longrightarrow> server_set_mode_manual E pwm s = (r, s', cmds) \<Longrightarrow> thermal_reachable A b s'"
| mode_auto: "thermal_reachable A b s \<Longrightarrow> server_set_mode_auto b s = (r, s') \<Longrightarrow> thermal_reachable A b s'"
| pid: "thermal_reachable A b s \<Longrightarrow> server_set_pid z p i d s = (r, s') \<Longrightarrow> thermal_reachable A b s'"
| margin: "thermal_reachable A b s \<Longrightarrow> server_set_margin m s = (r, s') \<Longrightarrow> thermal_reachable A b s'"
| update_dynamic: "thermal_reachable A b s \<Longrightarrow> server_update_dynamic_input b index props s = (r, s') \<Longrightarrow> thermal_reachable A b s'"
| remove_dynamic: "thermal_reachable A b s \<Longrightarrow> server_remove_dynamic_input b index now s sns = (r, s', sns') \<Longrightarrow> thermal_reachable A b s'"

definition server_ok :: "thermal_bsp \<Rightarrow> ThermalServer \<Rightarrow> bool" where
  "server_ok b s \<longleftrightarrow> srv_mode s \<noteq> ModeOff \<and> thermal_wf b (srv_control s) \<and> last_pwm (srv_control s) \<le> 100
    \<and> overheat_timeout_ms (srv_control s) = 60000"

lemma thermal_new_wf: "thermal_wf b (thermal_new b)"
  by (simp add: thermal_wf_def thermal_new_def boot_state_def)

lemma read_sensors_wf:
  assumes "read_sensors b E (update_fan_presence E tc) sns = (tc', sns')"
  shows "thermal_wf b tc' = thermal_wf b tc" "last_pwm tc' = last_pwm tc" "overheat_timeout_ms tc' = overheat_timeout_ms tc"
proof -
  let ?tc = "update_fan_presence E tc"
  have "thermal_wf b ?tc = thermal_wf b tc \<and> last_pwm ?tc = last_pwm tc \<and> overheat_timeout_ms ?tc = overheat_timeout_ms tc"
    by (simp add: update_fan_presence_def thermal_wf_def split: option.split)
  moreover obtain bb where "tc' = ?tc\<lparr>err_blackbox := bb\<rparr>" using assms by (auto simp: read_sensors_def Let_def split: prod.splits)
  moreover have "thermal_wf b (?tc\<lparr>err_blackbox := bb\<rparr>) = thermal_wf b ?tc" for bb by (simp add: thermal_wf_def)
  ultimately show "thermal_wf b tc' = thermal_wf b tc" "last_pwm tc' = last_pwm tc" "overheat_timeout_ms tc' = overheat_timeout_ms tc"
    by simp_all
qed

lemma set_pwm_server:
  assumes "set_pwm E p tc = (e, tc', cmds)" "thermal_wf b tc" "last_pwm tc \<le> 100"
  shows "thermal_wf b tc'" "last_pwm tc' \<le> 100" "overheat_timeout_ms tc' = overheat_timeout_ms tc" "SetFan f q \<in> set cmds \<Longrightarrow> q \<le> 100"
proof -
  have "thermal_wf b tc' \<and> last_pwm tc' \<le> 100 \<and> overheat_timeout_ms tc' = overheat_timeout_ms tc \<and> (SetFan f q \<in> set cmds \<longrightarrow> q \<le> 100)"
  proof (cases "p \<le> 100")
    case True
    have le: "q \<le> p \<Longrightarrow> q \<le> 100" using True by simp
    show ?thesis using assms set_pwm_ok [OF True, of E tc] True le by (auto simp: thermal_wf_def)
  next
    case False
    then show ?thesis using assms by (auto simp: set_pwm_def not_le)
  qed
  then show "thermal_wf b tc'" "last_pwm tc' \<le> 100" "overheat_timeout_ms tc' = overheat_timeout_ms tc" "SetFan f q \<in> set cmds \<Longrightarrow> q \<le> 100"
    by blast+
qed

lemma server_notification_ok:
  assumes ok: "server_ok b s" and now: "clock_ok now" "clock_ok (env_now E)"
  shows "\<exists>s' sns' cmds. server_handle_notification A b now E s sns = Some (s', sns', cmds) \<and> server_ok b s' \<and> (\<forall>f q. SetFan f q \<in> set cmds \<longrightarrow> q \<le> 100)"
proof -
  obtain tc sns1 where rd: "read_sensors b E (update_fan_presence E (srv_control s)) sns = (tc, sns1)" by force
  let ?E = "E\<lparr>env_reading := get_reading sns1\<rparr>"
  have tc: "thermal_wf b tc" "last_pwm tc \<le> 100" "overheat_timeout_ms tc = 60000" using read_sensors_wf [OF rd] ok by (simp_all add: server_ok_def)
  obtain r where r: "(case srv_mode s of ModeAuto \<Rightarrow> run_control A b ?E tc | ModeManual \<Rightarrow> Some (maintain_pwm ?E tc) | ModeOff \<Rightarrow> None) = Some r"
      and res: "thermal_wf b (fst (snd r))" "last_pwm (fst (snd r)) \<le> 100" "overheat_timeout_ms (fst (snd r)) = 60000"
        "\<forall>f q. SetFan f q \<in> set (snd (snd r)) \<longrightarrow> q \<le> 100"
  proof (cases "srv_mode s")
    case ModeAuto
    obtain err tc' cmds where "run_control A b ?E tc = Some (err, tc', cmds)" "thermal_wf b tc'" "overheat_timeout_ms tc' = overheat_timeout_ms tc"
        "last_pwm tc' \<le> 100" "\<forall>f q. SetFan f q \<in> set cmds \<longrightarrow> q \<le> last_pwm tc'"
      using run_control_safe [OF tc(1), of ?E A] now(2) tc(3) by (auto simp: clock_ok_def)
    then show ?thesis using that ModeAuto tc(3) order_trans by fastforce
  next
    case ModeManual
    obtain err tc' cmds where "set_pwm ?E (last_pwm tc) tc = (err, tc', cmds)" using prod_cases3 by blast
    then show ?thesis using that ModeManual tc set_pwm_server [OF _ tc(1,2)] by (fastforce simp: maintain_pwm_def)
  qed (use ok in \<open>simp add: server_ok_def\<close>)
  have dl: "checked_add now THERMAL_INTERVAL = Some (now + THERMAL_INTERVAL)"
    using now(1) by (simp add: clock_ok_def checked_add_def THERMAL_INTERVAL_def)
  show ?thesis using ok rd r res dl by (auto simp: server_handle_notification_def server_ok_def Let_def split: prod.splits)
qed

lemma server_auto_ok:
  assumes "server_auto f s = (r, s')" "server_ok b s"
    and "\<And>tc e tc'. f tc = (e, tc') \<Longrightarrow> thermal_wf b tc \<Longrightarrow> thermal_wf b tc' \<and> last_pwm tc' = last_pwm tc \<and> overheat_timeout_ms tc' = overheat_timeout_ms tc"
  shows "server_ok b s'"
  using assms(1,2) assms(3) [of "srv_control s"] by (auto simp: server_auto_def server_ok_def split: if_splits prod.splits)

lemma reachable_ok: "thermal_reachable A b s \<Longrightarrow> server_ok b s"
proof (induction rule: thermal_reachable.induct)
  case (start E deadline s cmds)
  show ?case
  proof (cases "bsp_use_controller b")
    case True
    then show ?thesis using start
      by (auto simp: server_main_def server_ok_def server_set_mode_auto_def thermal_reset_def reset_state_def thermal_wf_def boot_state_def thermal_new_def)
  next
    case False
    have "overheat_timeout_ms (thermal_new b) = 60000" "last_pwm (thermal_new b) = 0" by (simp_all add: thermal_new_def)
    then show ?thesis using start False thermal_new_wf [of b] set_pwm_server [of E 0 "thermal_new b" _ _ _ b]
      by (auto simp: server_main_def server_ok_def server_set_mode_manual_def Let_def split: option.splits prod.splits)
  qed
next
  case (notification s now E sns s' sns' cmds)
  then show ?case using server_notification_ok [of b s now E A sns] by auto
next
  case (mode_manual s E pwm r s' cmds)
  then show ?case using set_pwm_server [of E pwm "srv_control s" _ _ _ b]
    by (auto simp: server_set_mode_manual_def server_ok_def split: if_splits prod.splits)
next
  case (mode_auto s r s')
  then show ?case
    by (auto simp: server_set_mode_auto_def server_ok_def thermal_reset_def reset_state_def boot_state_def thermal_wf_def split: if_splits)
next
  case (pid s z p i d r s')
  show ?case using pid(2) unfolding server_set_pid_def
    by (rule server_auto_ok [OF _ pid(3)]) (auto simp: control_set_pid_def thermal_wf_def Let_def split: if_splits ThermalControlState.splits)
next
  case (margin s m r s')
  show ?case using margin(2) unfolding server_set_margin_def
    by (rule server_auto_ok [OF _ margin(3)]) (auto simp: control_set_margin_def thermal_wf_def split: if_splits)
next
  case (update_dynamic s index props r s')
  show ?case using update_dynamic(2) unfolding server_update_dynamic_input_def
    by (rule server_auto_ok [OF _ update_dynamic(3)])
      (auto simp: control_update_dynamic_input_def thermal_wf_def reset_state_def boot_state_def split: if_splits)
next
  case (remove_dynamic s index now sns r s' sns')
  then show ?case
    by (auto simp: server_remove_dynamic_input_def control_remove_dynamic_input_def server_ok_def thermal_wf_def split: if_splits)
qed

text \<open>
  C36: however its clients configure it, the thermal server never panics at its timer: in every state its operations
  lead to, polling and controlling yields a state, and no fan is ever asked for more than one hundred percent.
\<close>

theorem thermal_server_never_panics:
  assumes "thermal_reachable A b s" "clock_ok now" "clock_ok (env_now E)"
  shows "\<exists>s' sns' cmds. server_handle_notification A b now E s sns = Some (s', sns', cmds) \<and> thermal_wf b (srv_control s')
    \<and> srv_mode s' \<noteq> ModeOff \<and> (\<forall>f q. SetFan f q \<in> set cmds \<longrightarrow> q \<le> 100)"
  using server_notification_ok [OF reachable_ok [OF assms(1)] assms(2,3), of A sns] by (auto simp: server_ok_def)

definition small_server :: ThermalServer where
  "small_server = \<lparr>srv_mode = ModeAuto, srv_control = thermal_reset small_board (thermal_new small_board), srv_deadline = 1000\<rparr>"

theorem thermal_server_never_panics_witness:
  "\<exists>s' sns' cmds. server_handle_notification first_arith small_board 2000 (board_at 2001 f32_hundred) small_server (sensor_init 1) = Some (s', sns', cmds)
    \<and> srv_mode s' \<noteq> ModeOff"
proof -
  have "server_main small_board (board_at 0 f32_zero) 1000 = Some (small_server, [])"
    by (simp add: server_main_def server_set_mode_auto_def small_server_def Let_def small_board_def)
  then have "thermal_reachable first_arith small_board small_server" by (rule thermal_reachable.start)
  moreover have "clock_ok 2000" "clock_ok (env_now (board_at 2001 f32_hundred))" by (simp_all add: clock_ok_def board_at_def)
  ultimately show ?thesis using thermal_server_never_panics [of first_arith small_board small_server 2000 "board_at 2001 f32_hundred" "sensor_init 1"] by blast
qed

end
