(* ===== verification/Spec2Isabelle.thy ===== *)
theory Spec2Isabelle
  imports Kern_Mpu Build_Kconfig Build_Isolation Lib_Fixedmap Lib_Gnarle Lib_Phash Lib_Multitimer Lib_Ringbuf Lib_UpdateBuffer Task_JefeProps Task_Sensor Task_Packrat Drv_Sys Drv_RotInstall Task_ThermalProps
begin

text \<open>
  Hubris is an operating system for 32-bit Cortex-M controllers: a small preemptive kernel
  that isolates tasks with the memory protection unit, synchronous message passing between
  tasks with bounded loans of memory, notifications, and a supervisor task that restarts
  failed tasks. This development models the kernel in full, from the first instruction of
  \<^verbatim>\<open>start_kernel\<close> to every system call and exception handler, the system call stubs of the
  tasks, the supervisor running on them, and libraries of the repository on which the kernel's
  build and the tasks depend.

  \<^bold>\<open>Parts of the program and the theories that model them\<close>

  \<^item> \<^verbatim>\<open>sys/kerncore\<close>, the generic access check: \<open>Kern_Core\<close>. Its traits are the locales
    \<open>user_slice\<close>, \<open>memory_region\<close> and \<open>access_check\<close>, interpreted on the kernel's regions
    and slices in \<open>Kern_Descs\<close> and \<open>Kern_Umem\<close>.
  \<^item> \<^verbatim>\<open>sys/abi\<close>, what kernel and tasks share: \<open>Kern_Abi\<close>.
  \<^item> \<^verbatim>\<open>sys/kern/src/descs.rs\<close>, descriptors: \<open>Kern_Descs\<close>; \<^verbatim>\<open>umem.rs\<close>, slices of user memory and
    checked copies: \<open>Kern_Umem\<close>, \<open>Kern_Copy\<close>; \<^verbatim>\<open>task.rs\<close>, \<^verbatim>\<open>err.rs\<close>, \<^verbatim>\<open>util.rs\<close>, \<^verbatim>\<open>time.rs\<close>, the
    task control block, its register views, the scheduler, timers and fault injection:
    \<open>Kern_Args\<close> (locale \<open>arch_state\<close> for the trait of that name), \<open>Kern_Task\<close>, \<open>Kern_Table\<close>.
  \<^item> \<^verbatim>\<open>syscalls.rs\<close>, every system call: \<open>Kern_Syscalls\<close>; \<^verbatim>\<open>kipc.rs\<close>, the calls on the virtual kernel
    task: \<open>Kern_Kipc\<close>.
  \<^item> \<^verbatim>\<open>arch/arm_m.rs\<close> and \<^verbatim>\<open>lib/armv8-m-mpu\<close>, the processor layer: \<open>Kern_Arch\<close>; its exception
    handlers and \<^verbatim>\<open>startup.rs\<close>: \<open>Kern_Entry\<close>.
  \<^item> \<^verbatim>\<open>build/xtask\<close>, the memory allocator of the build (\<^verbatim>\<open>allocate_all\<close> in \<^verbatim>\<open>dist.rs\<close>, \<^verbatim>\<open>MpuAlignment\<close> in \<^verbatim>\<open>config.rs\<close>):
    \<open>Build_Alloc\<close>, with the maps of the build tools in \<open>Build_Maps\<close>; the steps around it in \<^verbatim>\<open>dist.rs\<close>
    (requests, checks of priorities, dumps and external regions, \<^verbatim>\<open>make_kconfig\<close>, task slots) with the
    notification bits of \<^verbatim>\<open>lib/toml-task\<close>: \<open>Build_Image\<close>.
  \<^item> \<^verbatim>\<open>build/kconfig\<close> and the descriptor tables \<^verbatim>\<open>sys/kern/build.rs\<close> generates from it: \<open>Build_Kconfig\<close>.
  \<^item> \<^verbatim>\<open>lib/phash\<close>, \<^verbatim>\<open>build/phash-gen\<close> and the part of \<^verbatim>\<open>sys/kern/build.rs\<close> that makes the kernel's
    interrupt tables: \<open>Lib_Phash\<close>.
  \<^item> \<^verbatim>\<open>lib/multitimer\<close>, which multiplexes a task's one kernel timer, with the system call it makes:
    \<open>Lib_Multitimer\<close>. \<^verbatim>\<open>lib/fixedmap\<close>: \<open>Lib_Fixedmap\<close> (locale \<open>bounded_map\<close>). \<^verbatim>\<open>lib/gnarle\<close>:
    \<open>Lib_Gnarle\<close>. \<^verbatim>\<open>lib/ringbuf\<close> in \<^verbatim>\<open>lib/static-cell\<close>: \<open>Lib_Ringbuf\<close>. \<^verbatim>\<open>lib/update-buffer\<close>, with its two
    locks and any number of threads: \<open>Lib_UpdateBuffer\<close>.
  \<^item> \<^verbatim>\<open>sys/userlib\<close>, the tasks' side of the system call interface: \<open>User_Lib\<close> has the registers each
    stub loads and the results each wrapper reads, \<open>User_Kipc\<close> the wrappers of kernel IPC, which
    execute system calls of the kernel model.
  \<^item> \<^verbatim>\<open>task/jefe\<close>, the supervisor: \<open>Task_Jefe\<close>. What it needs of the kernel is the locale
    \<open>supervised_kernel\<close>, interpreted on the wrappers of \<open>User_Kipc\<close> over the kernel model.
  \<^item> \<^verbatim>\<open>task/sensor\<close> and \<^verbatim>\<open>task/sensor-api\<close>: \<open>Task_Sensor\<close>. \<^verbatim>\<open>task/packrat\<close>, the cache of the board's data, and
    \<^verbatim>\<open>lib/oxide-barcode\<close>: \<open>Task_Packrat\<close>, \<open>Lib_Barcode\<close>.
  \<^item> \<^verbatim>\<open>drv/stm32xx-gpio-common\<close> and the client side of it in \<^verbatim>\<open>drv/stm32xx-sys-api\<close>: \<open>Drv_Gpio\<close>; the system
    server \<^verbatim>\<open>drv/stm32xx-sys\<close> on the STM32H7 with the dispatch table that \<^verbatim>\<open>build/stm32xx-sys\<close> generates:
    \<open>Drv_Sys\<close>. \<^verbatim>\<open>drv/stm32h7-update-server\<close>, the firmware updater, with \<^verbatim>\<open>drv/caboose\<close>: \<open>Drv_Update\<close>; the flash
    controller is a record of functions on a state of its own.
  \<^item> \<^verbatim>\<open>drv/lpc55-flash\<close>, the flash driver of the root of trust: \<open>Drv_RotFlash\<close>; \<^verbatim>\<open>drv/lpc55-update-server\<close>, the updater
    on it, with \<^verbatim>\<open>drv/lpc55-update-api\<close> and \<^verbatim>\<open>lib/stage0-handoff\<close>: \<open>Drv_RotUpdate\<close>. The commands given to the controller
    are recorded; addresses from the linker, the boot state and the hash functions are the record \<open>rot_ctx\<close>.
  \<^item> \<^verbatim>\<open>task/thermal\<close>, the fan control loop, on top of \<open>Task_Sensor\<close>: \<open>Task_Thermal\<close>, with its properties in
    \<open>Task_ThermalProps\<close>; the processor's floating-point arithmetic and the answers of the board are parameters.

  \<^bold>\<open>State and operations\<close>

  The mutable globals of the kernel are the record \<open>kstate\<close> of \<open>Kern_State\<close>: the task table, all
  memory as one function from addresses to bytes, the current task, the tick counter, NVIC, MPU
  and system registers. What is fixed at build time or lies outside the repository is the record
  \<open>kenv\<close>: processor profile, the interrupt tables, the \<^verbatim>\<open>ssmarshal\<close> (de)serialisers, layout and
  address of a control block. A kernel function is a \<open>kfun\<close>: from a state to a value with a
  state, an error with a state (effects made before it stay), or a halt (panic, reset). Machine
  integers are words of their width; indices into the task table are naturals.

  \<^bold>\<open>What the lemmas show\<close>

  \<open>Kern_State\<close> gives weakest preconditions \<open>wp\<close> for \<open>kfun\<close>s, with the collection \<open>wp_simps\<close>.
  \<open>Kern_Inv\<close> states the invariant of the task table and \<open>Kern_InvIpc\<close>, \<open>Kern_InvSys\<close>, \<open>Kern_InvKipc\<close>
  carry it through every handler; \<open>Kern_Main\<close> and \<open>Kern_Reach\<close> close it over every entry point and
  over all interleavings with user code (\<open>kstep\<close>). The results are stated in this theory: no
  system call panics the kernel but for the named causes, memory changes only where some task
  may write, and in every reachable state the running task is runnable and no task waits for a
  dead incarnation of its peer. \<open>Kern_Transfer\<close> and \<open>Kern_Restart\<close> describe successful transfers and
  restarts in closed form; \<open>Kern_Laws\<close>, \<open>Kern_IpcProps\<close>, \<open>Kern_Control\<close> and \<open>Kern_Mpu\<close> hold the contracts
  of the components: access check, copies, scheduling, timers, notifications, message passing,
  restart, faults, interrupts, MPU contents. \<open>Build_Sizes\<close> and \<open>Build_AllocProps\<close> show that the
  allocator's layout keeps kernel and tasks apart in regions the MPU can express. \<open>Build_Kconfig\<close> shows that the
  generated descriptors meet what \<^verbatim>\<open>start_kernel\<close> requires of them and grant exactly the configured
  memory. \<open>Build_ImageProps\<close> shows that priorities the build accepts rule out circular waiting, and
  \<open>Build_Isolation\<close> composes the whole chain: an image that builds gives each task memory apart from
  the kernel and from all other tasks. \<open>User_Lib\<close> proves that stubs and kernel agree on every register;
  \<open>Task_JefeProps\<close> that the supervisor's pass over the tasks recovers every fault, down to the
  system calls it makes. \<open>Lib_Ringbuf\<close> and \<open>Task_Sensor\<close> relate
  a data structure to the history of calls on it, \<open>Lib_UpdateBuffer\<close> shows exclusion and absence
  of deadlock by an invariant of its step relation. \<open>Drv_Gpio\<close> shows that the bit-parallel
  configuration of pins equals the pin-by-pin one, \<open>Drv_Sys\<close> that pin-change interrupts are served exactly
  and no edge is lost under any interleaving of hardware, server and owners, \<open>Task_Packrat\<close> that values
  set once stay and exactly which bytes a request may change, \<open>Lib_Barcode\<close> that parsing inverts
  printing. \<open>Drv_Update\<close> relates the sequence of requests to the flash: what is written when, that an update
  installs its image, and that the slot to boot from follows the option bytes. \<open>Drv_RotProps\<close> shows,
  for every controller and all sequences of requests, which pages of the root of trust are never written and that its
  bootloader is replaced only by an image validated at boot; \<open>Drv_RotInstall\<close> what an update and a choice of
  slot leave in the flash of a working controller, and three places where the updater departs from its purpose. \<open>Task_ThermalProps\<close> shows that no
  reading and no arithmetic makes the thermal loop panic or exceed full power, and that a part which stays hot
  costs the machine its power in time. \<open>Kern_Findings\<close> shows four places where the code
  departs from its comments or purpose. \<open>Kern_Demo\<close> is a small image on which the hypotheses of
  the theorems are discharged.

  \<^bold>\<open>Fuel\<close>

  One loop of the kernel is not structural: an open receive faults senders whose message
  cannot be read and looks again. \<open>recv_open\<close> takes fuel, \<open>recv\<close> gives it one unit more than there
  are tasks, and \<open>recv_returns\<close> proves that this always suffices, since every round makes one
  more task faulted. The waits of
  \<open>Drv_Update\<close> and \<open>Drv_RotFlash\<close> for the flash controller may run forever and are \<open>partial_function\<close>s; the theorems about them assume
  a controller that completes its operations or cover the case that it does not. All other loops are structural or
  have a termination proof.

  \<^bold>\<open>Not modelled\<close>

  The assembly wrappers around exception entries and system calls (register save and restore);
  the atomics polyfill for ARMv6-M; \<^verbatim>\<open>fail.rs\<close> (the final message of a panic) and the profiling
  hooks, which are diagnostic output; image headers. In \<^verbatim>\<open>sys/userlib\<close> the entry code, the formatting of panic messages and \<^verbatim>\<open>hl.rs\<close>; in
  \<^verbatim>\<open>task/jefe\<close> the feature \<^verbatim>\<open>dump\<close>, trace entries and the generated message dispatch. In \<^verbatim>\<open>drv/stm32xx-sys\<close> the STM32G0,
  the clock setup and the counters. In \<^verbatim>\<open>drv/lpc55-update-server\<close> the loading of
  the boot state, the constants of the version request and the older requests that repeat others for Hubris only. In \<^verbatim>\<open>task/thermal\<close> the board support packages, the I2C drivers and the fan watchdog.
  The other drivers and the networking tasks are register-level
  code or built on external crates, and the remaining build tools are host-side packaging.
\<close>

section \<open>The kernel as a whole\<close>

lemma demo_boots:
  "\<exists>s'. start_kernel demo_env demo_descs 8000 (demo_state ts i) = (Ok () s' :: (unit, UserError) kres)"
proof -
  have "flags_contains (desc_flags (demo_descs ! 0)) START_AT_BOOT" by code_simp
  then have f: "\<exists>d \<in> set demo_descs. flags_contains (desc_flags d) START_AT_BOOT"
    by (auto simp: demo_descs_def)
  have "boot_ok demo_env demo_descs 8000 (demo_state ts i)"
    using f by (simp add: boot_ok_def setup_exceptions_def demo_env_def demo_state_def demo_sysr_def)
  moreover have "wp (start_kernel demo_env demo_descs 8000) (\<lambda>_ s. kinv demo_env s) (\<lambda>(_ :: UserError) _. False)
      (\<lambda>h. h = KPanic \<and> \<not> boot_ok demo_env demo_descs 8000 (demo_state ts i)) (demo_state ts i)"
    by (rule wp_start_kernel [OF demo_descs_ok demo_irq_tables_ok])
  ultimately show ?thesis by (auto simp: wp_def split: kres.splits)
qed



text \<open>
  C2: as long as no lease of a waiting task wraps around the address space, a system call
  changes memory only at bytes some task of the image may write as normal memory: kernel
  memory, flash, peripherals and DMA buffers are out of reach of every argument a task passes.
\<close>

theorem syscall_integrity:
  assumes "kinv env s" and "leases_ok s" and "syscall_entry env nr s = (Ok () s' :: (unit, UserError) kres)"
    and "mem s' a \<noteq> mem s a"
  shows "\<exists>i < length (tasks s). writable_byte (tasks s ! i) a"
proof -
  have "eframe True s s'" using wp_OkD [OF wp_syscall_entry [OF assms(1)] assms(3)] assms(2) by simp
  with assms(4) show ?thesis by (simp add: eframe_def kframe_def mem_frame_def)
qed

definition integrity_state :: kstate where
  "integrity_state = send_state\<lparr>mem := \<lambda>a. if 0x20000800 \<le> a then 1 else 0\<rparr>"

lemma integrity_state_leases: "leases_ok integrity_state"
proof -
  have "\<forall>t \<in> set (tasks integrity_state). send_lease_table (as_send_args (save t)) = Inr \<lparr>slice_base = 0, slice_len = 0\<rparr>"
    by code_simp
  then show ?thesis by (auto simp: leases_ok_def)
qed

lemma integrity_state_call:
  "case (syscall_entry demo_env 0 integrity_state :: (unit, UserError) kres) of Ok _ s' \<Rightarrow> mem s' 0x20000700 = 1 | _ \<Rightarrow> False"
  by code_simp

theorem syscall_integrity_witness:
  "\<exists>i < 3. writable_byte (tasks integrity_state ! i) 0x20000700"
proof -
  obtain s' where s': "syscall_entry demo_env 0 integrity_state = (Ok () s' :: (unit, UserError) kres)" "mem s' 0x20000700 = 1"
    using integrity_state_call by (auto split: kres.splits)
  have "kinv demo_env integrity_state"
    using demo_tasks_kinv [of send_regs] by (simp add: integrity_state_def send_state_def)
  moreover have "mem s' 0x20000700 \<noteq> mem integrity_state 0x20000700" using s'(2) by (simp add: integrity_state_def)
  moreover have "length (tasks integrity_state) = 3"
    by (simp add: integrity_state_def send_state_def demo_state_def demo_tasks_def)
  ultimately show ?thesis using syscall_integrity [OF _ integrity_state_leases s'(1)] by simp
qed

text \<open>
  C4: with descriptors and interrupt tables as the build produces them, startup reaches the
  first task in a state that satisfies the kernel invariant; it panics only if no task starts
  at boot, the tick divisor is zero, or the processor reports more interrupts than there are
  priority registers.
\<close>

theorem boot_outcome:
  assumes "descs_ok env ds" and "irq_tables_ok env (length ds) s"
  shows "case (start_kernel env ds tick_divisor s :: (unit, UserError) kres) of
      Ok _ s' \<Rightarrow> kinv env s'
    | Err _ _ \<Rightarrow> False
    | Halt h \<Rightarrow> h = KPanic \<and> \<not> ((\<exists>d \<in> set ds. flags_contains (desc_flags d) START_AT_BOOT) \<and> tick_divisor \<noteq> 0
        \<and> setup_exceptions env ((sysr s)\<lparr>clock_freq_khz := tick_divisor\<rparr>) \<noteq> None)"
  unfolding wp_def [symmetric] boot_ok_def [symmetric]
  by (rule wp_start_kernel [OF assms])

theorem boot_outcome_witness:
  "\<exists>s'. start_kernel demo_env demo_descs 8000 (demo_state [] 0) = (Ok () s' :: (unit, UserError) kres) \<and> kinv demo_env s'"
proof -
  obtain s' where "start_kernel demo_env demo_descs 8000 (demo_state [] 0) = (Ok () s' :: (unit, UserError) kres)"
    using demo_boots by blast
  with boot_outcome [OF demo_descs_ok demo_irq_tables_ok, of 8000 "[]" 0] show ?thesis
    by (simp split: kres.splits)
qed

text \<open>
  C3: in every state the running system reaches from boot, by any interleaving of user
  computation, system calls, ticks, interrupts, deferred switches and faults, the task that is
  current is runnable, the task table is not borrowed, and every task blocked on a peer names
  the current incarnation of an existing task.
\<close>

theorem running_system_invariant:
  assumes "descs_ok env ds" and "irq_tables_ok env (length ds) s0"
    and "start_kernel env ds tick_divisor s0 = (Ok () s1 :: (unit, UserError) kres)" and "(kstep env)\<^sup>*\<^sup>* s1 s"
  shows "is_runnable (tasks s ! current s) \<and> current s < length (tasks s) \<and> \<not> table_in_use s
    \<and> (\<forall>i < length (tasks s). case state (tasks s ! i) of
         Healthy (InSend p) \<Rightarrow> tid_index p < length (tasks s) \<and> p = task_id (tasks s) (tid_index p)
       | Healthy (InReply p) \<Rightarrow> tid_index p < length (tasks s) \<and> p = task_id (tasks s) (tid_index p)
       | Healthy (InRecv (Some p)) \<Rightarrow> p = KERNEL \<or> tid_index p < length (tasks s) \<and> p = task_id (tasks s) (tid_index p)
       | _ \<Rightarrow> True)"
proof -
  have "kinv env s1" using wp_OkD [OF wp_start_kernel [OF assms(1,2)] assms(3)] .
  then have k: "kinv env s" by (rule reachable_kinv [OF assms(4)])
  note ki = kinv_parts [OF k]
  have live: "live_id (tasks s) p \<Longrightarrow> tid_index p < length (tasks s) \<and> p = task_id (tasks s) (tid_index p)" for p
    using live_id_eq by (auto simp: live_id_def)
  have "peer_ok (tasks s) (state (tasks s ! i))" if "i < length (tasks s)" for i
    using ki(4) that by (simp add: tinv_def task_ok_def)
  then show ?thesis
    using ki live unfolding peer_ok_def
    by (fastforce simp: pre_def split: TaskState.splits SchedState.splits option.splits)
qed

theorem running_system_invariant_witness:
  "\<exists>s1. start_kernel demo_env demo_descs 8000 (demo_state [] 0) = (Ok () s1 :: (unit, UserError) kres)
    \<and> is_runnable (tasks s1 ! current s1)"
proof -
  obtain s1 where "start_kernel demo_env demo_descs 8000 (demo_state [] 0) = (Ok () s1 :: (unit, UserError) kres)"
    using demo_boots by blast
  with running_system_invariant [OF demo_descs_ok demo_irq_tables_ok this rtranclp.rtrancl_refl] show ?thesis
    by blast
qed

end
